(* ===== verification/Prelude.thy ===== *)
theory Prelude
  imports Main "HOL-Library.AList"
begin

text \<open>
  Shared vocabulary of the development.

  \<^item> Failures are values: a computation that may throw returns \<open>'e + 'a\<close>, \<open>Inl\<close> the error.
  \<^item> A JavaScript \<open>Map\<close> keeps its keys in insertion order, replaces a value in place and appends
    a new key, so it is an association list with distinct keys under \<open>AList.update\<close> and
    \<open>AList.delete\<close>; \<open>map_of\<close> is its \<open>get\<close>. The locale \<open>js_map_laws\<close> states what the components
    rely on, and is interpreted on that representation.
  \<^item> \<open>show_nat\<close> renders a number the way a template literal does.
\<close>

named_theorems js_simps \<open>rewriting of the JavaScript containers\<close>

section \<open>Results\<close>

type_synonym ('e, 'a) result = "'e + 'a"

definition bind_result :: "('e, 'a) result \<Rightarrow> ('a \<Rightarrow> ('e, 'b) result) \<Rightarrow> ('e, 'b) result" where
  "bind_result r f = (case r of Inl e \<Rightarrow> Inl e | Inr a \<Rightarrow> f a)"

lemma bind_result_simps [simp]:
  "bind_result (Inl e) f = Inl e"
  "bind_result (Inr a) f = f a"
  by (simp_all add: bind_result_def)

lemma bind_result_Inr_iff:
  "bind_result r f = Inr b \<longleftrightarrow> (\<exists>a. r = Inr a \<and> f a = Inr b)"
  by (cases r) simp_all

section \<open>Maps that keep their insertion order\<close>

type_synonym ('k, 'v) jsmap = "('k \<times> 'v) list"

abbreviation js_get :: "('k, 'v) jsmap \<Rightarrow> 'k \<Rightarrow> 'v option" where
  "js_get m k \<equiv> map_of m k"

abbreviation js_set :: "'k \<Rightarrow> 'v \<Rightarrow> ('k, 'v) jsmap \<Rightarrow> ('k, 'v) jsmap" where
  "js_set \<equiv> AList.update"

abbreviation js_delete :: "'k \<Rightarrow> ('k, 'v) jsmap \<Rightarrow> ('k, 'v) jsmap" where
  "js_delete \<equiv> AList.delete"

abbreviation js_keys :: "('k, 'v) jsmap \<Rightarrow> 'k list" where
  "js_keys m \<equiv> map fst m"

abbreviation js_values :: "('k, 'v) jsmap \<Rightarrow> 'v list" where
  "js_values m \<equiv> map snd m"

definition js_has :: "('k, 'v) jsmap \<Rightarrow> 'k \<Rightarrow> bool" where
  "js_has m k = (js_get m k \<noteq> None)"

text \<open>\<open>new Map(entries)\<close>: the entries are set one after another, so the last value of a key wins
  while the key keeps the place of its first occurrence.\<close>

definition js_set_all :: "('k \<times> 'v) list \<Rightarrow> ('k, 'v) jsmap \<Rightarrow> ('k, 'v) jsmap" where
  "js_set_all es m = fold (\<lambda>(k, v). js_set k v) es m"

definition js_new_map :: "('k \<times> 'v) list \<Rightarrow> ('k, 'v) jsmap" where
  "js_new_map es = js_set_all es []"

definition js_filter_keys :: "('k \<Rightarrow> bool) \<Rightarrow> ('k, 'v) jsmap \<Rightarrow> ('k, 'v) jsmap" where
  "js_filter_keys p m = filter (\<lambda>(k, _). p k) m"

definition js_valid :: "('k, 'v) jsmap \<Rightarrow> bool" where
  "js_valid m = distinct (js_keys m)"

text \<open>\<open>[...new Set(xs)]\<close>: a set also iterates in insertion order, first occurrence first.\<close>

definition js_dedup :: "'a list \<Rightarrow> 'a list" where
  "js_dedup xs = rev (remdups (rev xs))"

lemma set_js_dedup [simp]: "set (js_dedup xs) = set xs"
  by (simp add: js_dedup_def)

lemma distinct_js_dedup [simp]: "distinct (js_dedup xs)"
  by (simp add: js_dedup_def)

locale js_map_laws =
  fixes empty :: "'m"
    and update :: "'k \<Rightarrow> 'v \<Rightarrow> 'm \<Rightarrow> 'm"
    and remove :: "'k \<Rightarrow> 'm \<Rightarrow> 'm"
    and lookup :: "'m \<Rightarrow> 'k \<Rightarrow> 'v option"
    and valid :: "'m \<Rightarrow> bool"
  assumes lookup_empty: "lookup empty k = None"
    and lookup_update: "lookup (update k v m) j = (if j = k then Some v else lookup m j)"
    and lookup_remove: "lookup (remove k m) j = (if j = k then None else lookup m j)"
    and valid_empty: "valid empty"
    and valid_update: "valid m \<Longrightarrow> valid (update k v m)"
    and valid_remove: "valid m \<Longrightarrow> valid (remove k m)"
begin

text \<open>Setting entries one after another: the last one of a key wins, the others are untouched.\<close>

lemma lookup_update_all:
  "lookup (fold (\<lambda>(k, v). update k v) es m) j =
     (case map_of (rev es) j of None \<Rightarrow> lookup m j | Some v \<Rightarrow> Some v)"
proof (induction es arbitrary: m)
  case Nil
  then show ?case by simp
next
  case (Cons e es)
  then show ?case
    by (cases e) (auto simp: lookup_update map_add_def split: option.splits)
qed

lemma valid_update_all: "valid m \<Longrightarrow> valid (fold (\<lambda>(k, v). update k v) es m)"
  by (induction es arbitrary: m) (auto simp: valid_update)

lemma valid_from_empty: "valid (fold (\<lambda>(k, v). update k v) es empty)"
  by (rule valid_update_all) (rule valid_empty)

end

interpretation jsmap: js_map_laws "[]" js_set js_delete js_get js_valid
  by unfold_locales
    (auto simp: js_valid_def update_conv' delete_conv' distinct_update distinct_delete)

lemma js_get_set [js_simps, simp]:
  "js_get (js_set k v m) j = (if j = k then Some v else js_get m j)"
  by (rule jsmap.lookup_update)

lemma js_get_delete [js_simps, simp]:
  "js_get (js_delete k m) j = (if j = k then None else js_get m j)"
  by (rule jsmap.lookup_remove)

lemma js_get_set_all [js_simps]:
  "js_get (js_set_all es m) j = (case map_of (rev es) j of None \<Rightarrow> js_get m j | Some v \<Rightarrow> Some v)"
  unfolding js_set_all_def by (rule jsmap.lookup_update_all)

lemma js_get_new_map [js_simps]: "js_get (js_new_map es) j = map_of (rev es) j"
  by (simp add: js_new_map_def js_get_set_all split: option.split)

lemma js_valid_set [intro]: "js_valid m \<Longrightarrow> js_valid (js_set k v m)"
  by (rule jsmap.valid_update)

lemma js_valid_delete [intro]: "js_valid m \<Longrightarrow> js_valid (js_delete k m)"
  by (rule jsmap.valid_remove)

lemma js_valid_set_all [intro]: "js_valid m \<Longrightarrow> js_valid (js_set_all es m)"
  unfolding js_set_all_def by (rule jsmap.valid_update_all)

lemma js_valid_new_map [simp, intro]: "js_valid (js_new_map es)"
  unfolding js_new_map_def js_set_all_def by (rule jsmap.valid_from_empty)

lemma js_valid_empty [simp, intro]: "js_valid []"
  by (rule jsmap.valid_empty)

lemma js_get_filter_keys [js_simps, simp]:
  "js_get (js_filter_keys p m) k = (if p k then js_get m k else None)"
  by (induction m) (auto simp: js_filter_keys_def)

lemma js_valid_filter_keys [intro]: "js_valid m \<Longrightarrow> js_valid (js_filter_keys p m)"
  by (induction m) (auto simp: js_valid_def js_filter_keys_def)

lemma js_has_simps [js_simps, simp]:
  "js_has (js_set k v m) j \<longleftrightarrow> j = k \<or> js_has m j"
  "js_has (js_delete k m) j \<longleftrightarrow> j \<noteq> k \<and> js_has m j"
  "js_has [] j \<longleftrightarrow> False"
  by (auto simp: js_has_def)

lemma js_has_keys: "js_has m k \<longleftrightarrow> k \<in> set (js_keys m)"
  by (simp add: js_has_def map_of_eq_None_iff)

lemma js_get_in_values: "js_get m k = Some v \<Longrightarrow> v \<in> set (js_values m)"
  by (force dest: map_of_SomeD)

lemma js_valid_get_iff: "js_valid m \<Longrightarrow> js_get m k = Some v \<longleftrightarrow> (k, v) \<in> set m"
  by (simp add: js_valid_def)

lemma js_keys_set: "set (js_keys (js_set k v m)) = insert k (set (js_keys m))"
  using dom_update [of k v m] by (simp add: image_set [symmetric])

lemma js_get_restrict: "js_get (filter (\<lambda>(k, _). k \<in> S) m) k = (if k \<in> S then js_get m k else None)"
  by (induction m) auto

lemma map_of_rev_Some_in: "map_of (rev es) k = Some v \<Longrightarrow> (k, v) \<in> set es"
  by (auto dest: map_of_SomeD)

lemma map_of_rev_distinct:
  "distinct (map fst es) \<Longrightarrow> map_of (rev es) k = Some v \<longleftrightarrow> (k, v) \<in> set es"
  by (simp add: map_of_eq_Some_iff rev_map [symmetric])

lemma map_of_rev_None: "map_of (rev es) k = None \<longleftrightarrow> k \<notin> fst ` set es"
  by (simp add: map_of_eq_None_iff)

lemma map_of_rev_map_key:
  "map_of (rev (map (\<lambda>x. (f x, x)) xs)) k = find (\<lambda>x. f x = k) (rev xs)"
proof (induction xs rule: rev_induct)
  case Nil
  then show ?case by simp
next
  case (snoc x xs)
  then show ?case by simp
qed

lemma find_distinct_key:
  assumes "distinct (map f xs)" and "x \<in> set xs"
  shows "find (\<lambda>y. f y = f x) xs = Some x"
  using assms by (induction xs) (auto simp: image_iff)

lemma set_map_filter: "y \<in> set (List.map_filter f xs) \<longleftrightarrow> (\<exists>x \<in> set xs. f x = Some y)"
  by (force simp: List.map_filter_def)

lemma find_append:
  "find p (xs @ ys) = (case find p xs of None \<Rightarrow> find p ys | Some x \<Rightarrow> Some x)"
  by (induction xs) simp_all

lemma image_eq_iff: "x \<in> f ` S \<longleftrightarrow> (\<exists>y \<in> S. f y = x)"
  by (simp add: image_iff eq_commute)

lemma find_Some_in: "find p xs = Some x \<Longrightarrow> x \<in> set xs \<and> p x"
  by (auto simp: find_Some_iff)

text \<open>A map whose values carry their own key.\<close>

definition js_keyed :: "('v \<Rightarrow> 'k) \<Rightarrow> ('k, 'v) jsmap \<Rightarrow> bool" where
  "js_keyed f m \<longleftrightarrow> js_valid m \<and> (\<forall>k v. js_get m k = Some v \<longrightarrow> f v = k)"

lemma js_keyed_empty [simp]: "js_keyed f []"
  by (simp add: js_keyed_def)

lemma js_keyed_get: "js_keyed f m \<Longrightarrow> js_get m k = Some v \<Longrightarrow> f v = k"
  by (simp add: js_keyed_def)

lemma js_keyed_set: "js_keyed f m \<Longrightarrow> f v = k \<Longrightarrow> js_keyed f (js_set k v m)"
  by (auto simp: js_keyed_def)

lemma js_keyed_delete: "js_keyed f m \<Longrightarrow> js_keyed f (js_delete k m)"
  by (auto simp: js_keyed_def)

lemma js_keyed_values:
  assumes "js_keyed f m"
  shows "map f (js_values m) = js_keys m"
    and "v \<in> set (js_values m) \<longleftrightarrow> js_get m (f v) = Some v"
proof -
  have key: "f (snd e) = fst e" if "e \<in> set m" for e
    using that assms unfolding js_keyed_def js_valid_def
    by (metis map_of_is_SomeI prod.collapse)
  then show "map f (js_values m) = js_keys m" by simp
  show "v \<in> set (js_values m) \<longleftrightarrow> js_get m (f v) = Some v"
  proof
    assume "v \<in> set (js_values m)"
    then obtain k where "(k, v) \<in> set m" by auto
    with key [of "(k, v)"] have "(f v, v) \<in> set m" by simp
    with assms show "js_get m (f v) = Some v"
      unfolding js_keyed_def js_valid_def by (blast intro: map_of_is_SomeI)
  qed (rule js_get_in_values)
qed

lemma js_keyed_distinct: "js_keyed f m \<Longrightarrow> distinct (map f (js_values m))"
  using js_keyed_values(1) [of f m] unfolding js_keyed_def js_valid_def by metis

lemma js_set_all_keyed:
  "js_get (js_set_all (map (\<lambda>x. (f x, x)) xs) m) k =
     (case find (\<lambda>x. f x = k) (rev xs) of None \<Rightarrow> js_get m k | Some x \<Rightarrow> Some x)"
  by (simp add: js_get_set_all map_of_rev_map_key)

lemma js_keyed_set_all:
  "js_keyed f m \<Longrightarrow> js_keyed f (js_set_all (map (\<lambda>v. (f v, v)) vs) m)"
  by (auto simp: js_keyed_def js_set_all_keyed split: option.splits dest!: find_Some_in)

section \<open>Numbers and JSON\<close>

text \<open>The remainder operator keeps the sign of its left operand.\<close>

definition js_rem :: "int \<Rightarrow> int \<Rightarrow> int" where
  "js_rem a b = sgn a * (\<bar>a\<bar> mod \<bar>b\<bar>)"

lemma js_rem_nonneg: "0 \<le> a \<Longrightarrow> 0 < b \<Longrightarrow> js_rem a b = a mod b"
  by (cases "a = 0") (simp_all add: js_rem_def)

lemma js_rem_twice: "0 < b \<Longrightarrow> js_rem (js_rem a b + b) b = a mod b"
proof (cases "0 \<le> a")
  case True
  assume b: "0 < b"
  then have "0 \<le> a mod b" by simp
  with True b show ?thesis by (simp add: js_rem_nonneg)
next
  case False
  assume b: "0 < b"
  have r: "js_rem a b = - ((- a) mod b)"
    using False b by (simp add: js_rem_def)
  have "(- a) mod b < b" using b by simp
  then have "0 \<le> js_rem a b + b" using r by simp
  then have "js_rem (js_rem a b + b) b = (- ((- a) mod b) + b) mod b"
    using b r by (simp add: js_rem_nonneg)
  also have "\<dots> = (- ((- a) mod b)) mod b" by simp
  also have "\<dots> = a mod b" by (simp add: mod_minus_eq)
  finally show ?thesis .
qed

text \<open>A parsed JSON document. Objects keep the order of their keys; a number is an integer or, as
  \<open>JFraction\<close>, one that \<open>Number.isInteger\<close> refuses.\<close>

datatype json =
    JNull
  | JBool bool
  | JInt int
  | JFraction string
  | JString string
  | JArray "json list"
  | JObject "(string \<times> json) list"

section \<open>Text\<close>

text \<open>\<open>text.split(separator)\<close> for a separator of one character, and \<open>parts.join(separator)\<close>.\<close>

fun js_split :: "'a \<Rightarrow> 'a list \<Rightarrow> 'a list list" where
  "js_split sep [] = [[]]"
| "js_split sep (c # cs) =
     (if c = sep then [] # js_split sep cs
      else case js_split sep cs of [] \<Rightarrow> [[c]] | w # ws \<Rightarrow> (c # w) # ws)"

fun js_join :: "'a list \<Rightarrow> 'a list list \<Rightarrow> 'a list" where
  "js_join sep [] = []"
| "js_join sep [w] = w"
| "js_join sep (w # v # ws) = w @ sep @ js_join sep (v # ws)"

lemma js_split_nonempty [simp]: "js_split sep s \<noteq> []"
  by (induction s) (auto split: list.split)

lemma js_split_no_sep: "sep \<notin> set s \<Longrightarrow> js_split sep s = [s]"
  by (induction s) auto

lemma js_split_append_sep:
  "sep \<notin> set w \<Longrightarrow> js_split sep (w @ sep # s) = w # js_split sep s"
  by (induction w) auto

lemma js_join_split: "js_join [sep] (js_split sep s) = s"
proof (induction s)
  case Nil
  then show ?case by simp
next
  case (Cons c s)
  obtain w ws where ws: "js_split sep s = w # ws"
    using js_split_nonempty [of sep s] by (cases "js_split sep s") auto
  show ?case using Cons ws by (cases ws) auto
qed

section \<open>Prefixes\<close>

lemma ex_prefix_snoc:
  "(\<exists>qs rs. ps @ [p] = qs @ rs \<and> Q qs) \<longleftrightarrow> Q (ps @ [p]) \<or> (\<exists>qs rs. ps = qs @ rs \<and> Q qs)"
  (is "?l \<longleftrightarrow> ?r")
proof
  assume ?l
  then obtain qs rs where "ps @ [p] = qs @ rs" "Q qs" by blast
  then show ?r by (cases rs rule: rev_cases) auto
next
  assume ?r
  then show ?l
  proof
    assume "Q (ps @ [p])"
    then show ?l by (intro exI [of _ "ps @ [p]"] exI [of _ "[]"]) simp
  next
    assume "\<exists>qs rs. ps = qs @ rs \<and> Q qs"
    then obtain qs rs where "ps = qs @ rs" "Q qs" by blast
    then show ?l by (intro exI [of _ qs] exI [of _ "rs @ [p]"]) simp
  qed
qed

section \<open>Numbers in text\<close>

definition digit_char :: "nat \<Rightarrow> char" where
  "digit_char d = char_of (48 + d)"

fun show_nat :: "nat \<Rightarrow> string" where
  "show_nat n = (if n < 10 then [digit_char n] else show_nat (n div 10) @ [digit_char (n mod 10)])"

declare show_nat.simps [simp del]

definition show_int :: "int \<Rightarrow> string" where
  "show_int i = (if i < 0 then ''-'' @ show_nat (nat (- i)) else show_nat (nat i))"

text \<open>Reading the digits back, which is what makes rendering injective.\<close>

definition digits_value :: "string \<Rightarrow> nat" where
  "digits_value = foldl (\<lambda>acc c. 10 * acc + (of_char c - 48)) 0"

lemma of_char_digit_char: "d < 10 \<Longrightarrow> of_char (digit_char d) = (48 + d :: nat)"
  by (simp add: digit_char_def)

lemma digits_value_append: "digits_value (s @ [c]) = 10 * digits_value s + (of_char c - 48)"
  by (simp add: digits_value_def)

lemma digits_value_show_nat: "digits_value (show_nat n) = n"
proof (induction n rule: show_nat.induct)
  case (1 n)
  show ?case
  proof (cases "n < 10")
    case True
    then show ?thesis
      by (simp add: show_nat.simps [of n] digits_value_def of_char_digit_char)
  next
    case False
    then show ?thesis
      using "1" by (simp add: show_nat.simps [of n] digits_value_append of_char_digit_char)
  qed
qed

lemma show_nat_eq_iff [simp]: "show_nat m = show_nat n \<longleftrightarrow> m = n"
  by (metis digits_value_show_nat)

lemma show_nat_digits: "c \<in> set (show_nat n) \<Longrightarrow> c \<in> digit_char ` {..<10}"
proof (induction n rule: show_nat.induct)
  case (1 n)
  show ?case
  proof (cases "n < 10")
    case True
    with "1.prems" show ?thesis by (auto simp: show_nat.simps [of n])
  next
    case False
    with "1" show ?thesis by (auto simp: show_nat.simps [of n])
  qed
qed

lemma digit_char_neq_dot: "d < 10 \<Longrightarrow> digit_char d \<noteq> CHR ''.''"
proof
  assume "d < 10" and "digit_char d = CHR ''.''"
  then have "of_char (CHR ''.'') = (48 + d :: nat)"
    using of_char_digit_char [of d] by simp
  then show False by simp
qed

lemma dot_notin_show_nat: "CHR ''.'' \<notin> set (show_nat n)"
  using show_nat_digits [of "CHR ''.''" n] digit_char_neq_dot by fastforce

end
