(* ===== verification/Protocol.thy ===== *)
theory Protocol
  imports Prelude
begin

text \<open>
  The messages the control plane and an app host exchange, from \<open>packages/protocol/src\<close>: the
  string enums as datatypes, the TypeBox objects as records. Identifiers, digests and keys are
  the strings they are on the wire. A \<open>Timestamp\<close> is kept as the instant in milliseconds that its
  ISO text denotes: every value is written by \<open>fromEpochMs\<close> with millisecond precision and read by
  \<open>Date.parse\<close>, which returns that instant. Schema bounds that a decision rests on are predicates.
\<close>

type_synonym AppId = string
type_synonym DeploymentId = string
type_synonym VolumeId = string
type_synonym CheckpointId = string
type_synonym ExportId = string
type_synonym HostId = string
type_synonym Sha256Digest = string
type_synonym ObjectKey = string
type_synonym Ipv4Address = string
type_synonym Timestamp = int
type_synonym HostPort = nat
type_synonym HttpPort = nat

section \<open>Schemas shared by both directions\<close>

datatype InstanceState =
  Pending | Starting | Running | Unhealthy | Stopping | Stopped | Idle | Failed

record InstanceResources =
  vcpuCount :: int
  memoryMib :: int

record HealthCheck =
  hc_path :: "string option"
  hc_intervalMs :: int
  hc_timeoutMs :: int
  hc_gracePeriodMs :: int
  hc_healthyThreshold :: int
  hc_unhealthyThreshold :: int

definition valid_HealthCheck :: "HealthCheck \<Rightarrow> bool" where
  "valid_HealthCheck hc \<longleftrightarrow>
     100 \<le> hc_intervalMs hc \<and> 100 \<le> hc_timeoutMs hc \<and> 0 \<le> hc_gracePeriodMs hc \<and>
     1 \<le> hc_healthyThreshold hc \<and> 1 \<le> hc_unhealthyThreshold hc"

record RestartPolicy =
  rp_maxRestarts :: int
  rp_initialBackoffMs :: int
  rp_maxBackoffMs :: int
  rp_backoffFactor :: int
  rp_resetAfterMs :: int

datatype AppHostnameKind = PlatformHostname | CustomHostname

record AppHostname =
  hn_hostname :: string
  hn_kind :: AppHostnameKind

record AppConfig =
  cfg_httpPort :: HttpPort
  cfg_hasExtraPublicPort :: bool
  cfg_args :: "string list"
  cfg_environment :: "(string, string) jsmap"
  cfg_resources :: InstanceResources
  cfg_healthCheck :: HealthCheck
  cfg_restartPolicy :: RestartPolicy

datatype S3VolumeAuth =
    AccessKeyAuth string string
  | SessionAuth string string string
  | AnonymousAuth

record S3VolumeStorage =
  s3_endpoint :: string
  s3_bucket :: string
  s3_prefix :: ObjectKey
  s3_region :: "string option"
  s3_auth :: S3VolumeAuth
  s3_encryptionPassword :: string

section \<open>What a host should be doing\<close>

datatype DesiredInstanceState = DesiredRunning | DesiredOnRequest | DesiredStopped

datatype DesiredPresence = Present | Absent

record DesiredArtifact =
  art_digest :: Sha256Digest
  art_sizeBytes :: int
  art_objectKey :: ObjectKey
  art_filename :: string

record DesiredInstance =
  di_appId :: AppId
  di_deploymentId :: DeploymentId
  di_volumeId :: VolumeId
  di_desiredState :: DesiredInstanceState
  di_idleTimeoutMs :: "int option"
  di_artifact :: DesiredArtifact
  di_config :: AppConfig
  di_hostnames :: "AppHostname list"

record DesiredVolume =
  dv_volumeId :: VolumeId
  dv_appId :: AppId
  dv_sizeBytes :: int
  dv_desiredState :: DesiredPresence
  dv_seed :: "DesiredArtifact option"
  dv_storage :: "S3VolumeStorage option"

record DesiredCheckpoint =
  dc_checkpointId :: CheckpointId
  dc_volumeId :: VolumeId
  dc_desiredState :: DesiredPresence

record DesiredExport =
  de_exportId :: ExportId
  de_appId :: AppId
  de_volumeId :: VolumeId
  de_objectKey :: ObjectKey
  de_artifact :: DesiredArtifact
  de_environment :: "(string, string) jsmap option"
  de_desiredState :: DesiredPresence

record HostDesiredState =
  hd_hostId :: HostId
  hd_volumes :: "DesiredVolume list"
  hd_instances :: "DesiredInstance list"
  hd_checkpoints :: "DesiredCheckpoint list"
  hd_exports :: "DesiredExport list"

section \<open>What a host is doing\<close>

datatype VolumeState = VolumePending | VolumeReady | VolumeDetached | VolumeDeleted | VolumeFailed

datatype CheckpointState = CheckpointPending | CheckpointReady | CheckpointFailed

datatype ExportState =
  ExportPending | ExportPreparing | ExportReady | ExportFailed | ExportExpired

datatype HostState = HostRegistering | HostReady | HostDraining | HostUnreachable

record HostVersions =
  ver_agent :: string
  ver_guestImage :: string
  ver_zerofs :: string
  ver_firecracker :: string

record HostCapacity =
  cap_vcpuCount :: int
  cap_memoryMib :: int
  cap_cacheBytes :: int

record FilesystemUsage =
  fu_totalBytes :: int
  fu_usedBytes :: int
  fu_measuredAt :: Timestamp

record ReportedVolume =
  rv_volumeId :: VolumeId
  rv_appId :: AppId
  rv_state :: VolumeState
  rv_sizeBytes :: int
  rv_storagePrefix :: "ObjectKey option"
  rv_devicePath :: "string option"
  rv_usage :: "FilesystemUsage option"
  rv_message :: "string option"

record ReportedCheckpoint =
  rc_checkpointId :: CheckpointId
  rc_volumeId :: VolumeId
  rc_state :: CheckpointState
  rc_reference :: "string option"
  rc_readyAt :: "Timestamp option"
  rc_message :: "string option"

record ReportedExport =
  re_exportId :: ExportId
  re_checkpointId :: "CheckpointId option"
  re_state :: ExportState
  re_sizeBytes :: "int option"
  re_readyAt :: "Timestamp option"
  re_message :: "string option"

text \<open>One reading of a guest: its memory, and its ticks since it booted.\<close>

record MeasuredCompute =
  mc_memoryTotalBytes :: int
  mc_memoryUsedBytes :: int
  mc_cpuTotalTicks :: int
  mc_cpuBusyTicks :: int

end
