(* ===== verification/Health.thy ===== *)
theory Health
  imports Protocol
begin

text \<open>
  What systemd and the health probes say about one microVM, from
  \<open>apps/agent/src/lib/vm/unit-status.ts\<close> and \<open>lib/health/state.ts\<close>: the unit status, the probe
  tracker, the probe schedule and the verdict \<open>evaluateInstanceState\<close>.
\<close>

section \<open>Unit status\<close>

record UnitStatus =
  us_loaded :: bool
  us_active :: bool
  us_failed :: bool
  us_startedThisBoot :: bool
  us_exitCode :: "int option"

definition UNKNOWN_UNIT :: UnitStatus where
  "UNKNOWN_UNIT = \<lparr>us_loaded = False, us_active = False, us_failed = False,
     us_startedThisBoot = False, us_exitCode = None\<rparr>"

text \<open>\<open>Number.parseInt(text, 10)\<close>: white space, one sign, then as many digits as there are; \<open>None\<close>
  stands for \<open>NaN\<close>.\<close>

definition is_digit :: "char \<Rightarrow> bool" where
  "is_digit c \<longleftrightarrow> (48 :: nat) \<le> of_char c \<and> of_char c \<le> (57 :: nat)"

definition js_space :: "char \<Rightarrow> bool" where
  "js_space c \<longleftrightarrow> c = CHR '' '' \<or> (9 :: nat) \<le> of_char c \<and> of_char c \<le> (13 :: nat)"

definition js_parse_int :: "string \<Rightarrow> int option" where
  "js_parse_int text =
     (let s = dropWhile js_space text;
          negative = (case s of c # _ \<Rightarrow> c = CHR ''-'' | [] \<Rightarrow> False);
          body = (case s of c # cs \<Rightarrow> if c = CHR ''-'' \<or> c = CHR ''+'' then cs else s | [] \<Rightarrow> []);
          digits = takeWhile is_digit body
      in if digits = [] then None
         else Some (if negative then - int (digits_value digits) else int (digits_value digits)))"

definition unitStatusFrom :: "(string, string) jsmap \<Rightarrow> UnitStatus" where
  "unitStatusFrom properties =
     (let property = (\<lambda>name otherwise.
            case js_get properties name of None \<Rightarrow> otherwise | Some v \<Rightarrow> v);
          activeState = property ''ActiveState'' ''inactive'';
          exitCode = js_parse_int (property ''ExecMainStatus'' '''');
          inactiveExit = js_parse_int (property ''InactiveExitTimestampMonotonic'' '''')
      in \<lparr>us_loaded = (property ''LoadState'' ''not-found'' = ''loaded''),
          us_active = (activeState = ''active'' \<or> activeState = ''activating''),
          us_failed = (activeState = ''failed''),
          us_startedThisBoot = (case inactiveExit of None \<Rightarrow> False | Some t \<Rightarrow> t > 0),
          us_exitCode = exitCode\<rparr>)"

section \<open>The probe tracker\<close>

record HealthTracker =
  ht_consecutiveSuccesses :: int
  ht_consecutiveFailures :: int
  ht_everHealthy :: bool
  ht_lastHealthyAt :: "Timestamp option"

definition STARTUP_PROBE_INTERVAL_MS :: int where
  "STARTUP_PROBE_INTERVAL_MS = 250"

definition initialTracker :: HealthTracker where
  "initialTracker = \<lparr>ht_consecutiveSuccesses = 0, ht_consecutiveFailures = 0,
     ht_everHealthy = False, ht_lastHealthyAt = None\<rparr>"

definition applyProbe :: "HealthTracker \<Rightarrow> bool \<Rightarrow> Timestamp \<Rightarrow> int \<Rightarrow> HealthTracker" where
  "applyProbe tracker healthy at healthyThreshold =
     (if \<not> healthy then
        tracker\<lparr>ht_consecutiveSuccesses := 0,
                ht_consecutiveFailures := ht_consecutiveFailures tracker + 1\<rparr>
      else let consecutiveSuccesses = ht_consecutiveSuccesses tracker + 1
           in tracker\<lparr>ht_consecutiveSuccesses := consecutiveSuccesses,
                      ht_consecutiveFailures := 0,
                      ht_everHealthy :=
                        (ht_everHealthy tracker \<or> consecutiveSuccesses \<ge> healthyThreshold),
                      ht_lastHealthyAt := Some at\<rparr>)"

section \<open>The probe schedule\<close>

definition isWithinGracePeriod :: "HealthCheck \<Rightarrow> int option \<Rightarrow> int \<Rightarrow> bool" where
  "isWithinGracePeriod healthCheck startedAtMs nowMs =
     (case startedAtMs of None \<Rightarrow> True | Some s \<Rightarrow> nowMs - s < hc_gracePeriodMs healthCheck)"

definition isOnStartupGrid :: "HealthTracker \<Rightarrow> HealthCheck \<Rightarrow> int option \<Rightarrow> int \<Rightarrow> bool" where
  "isOnStartupGrid tracker healthCheck startedAtMs nowMs =
     (\<not> ht_everHealthy tracker \<and> isWithinGracePeriod healthCheck startedAtMs nowMs)"

definition nextProbeDelayMs :: "HealthTracker \<Rightarrow> HealthCheck \<Rightarrow> int option \<Rightarrow> int \<Rightarrow> int" where
  "nextProbeDelayMs tracker healthCheck startedAtMs nowMs =
     (if isOnStartupGrid tracker healthCheck startedAtMs nowMs
      then min STARTUP_PROBE_INTERVAL_MS (hc_intervalMs healthCheck)
      else hc_intervalMs healthCheck)"

section \<open>The verdict\<close>

definition describeInstanceFailure ::
  "UnitStatus \<Rightarrow> HealthTracker \<Rightarrow> HealthCheck \<Rightarrow> HttpPort \<Rightarrow> string option \<Rightarrow> string" where
  "describeInstanceFailure unit tracker healthCheck httpPort guestVerdict =
     (if \<not> us_active unit then
        (case guestVerdict of
           Some verdict \<Rightarrow> verdict
         | None \<Rightarrow>
             (case us_exitCode unit of
                None \<Rightarrow> ''the microVM stopped without being asked to''
              | Some code \<Rightarrow>
                  ''the microVM stopped without being asked to, exit code '' @ show_int code))
      else ''nothing answered on port '' @ show_nat httpPort @ '' inside the guest: '' @
        show_int (ht_consecutiveFailures tracker) @ '' health probes failed after the '' @
        show_int (hc_gracePeriodMs healthCheck) @ ''ms grace period'')"

record LifecycleInputs =
  li_unit :: UnitStatus
  li_tracker :: HealthTracker
  li_healthCheck :: HealthCheck
  li_desiredRunning :: bool
  li_onRequest :: bool
  li_stopRequested :: bool
  li_snapshotting :: bool
  li_startedAtMs :: "int option"
  li_nowMs :: int
  li_current :: InstanceState

definition evaluateStoppedState :: "LifecycleInputs \<Rightarrow> InstanceState" where
  "evaluateStoppedState i =
     (let down = (if li_onRequest i \<and> li_desiredRunning i then Idle else Stopped)
      in if li_stopRequested i \<or> li_snapshotting i \<or> \<not> li_desiredRunning i then down
         else if li_startedAtMs i \<noteq> None then Failed
         else if li_onRequest i \<and> li_current i \<noteq> Pending then down else Pending)"

definition evaluateInstanceState :: "LifecycleInputs \<Rightarrow> InstanceState" where
  "evaluateInstanceState i =
     (if us_failed (li_unit i) \<and> li_desiredRunning i \<and> \<not> li_stopRequested i \<and>
         \<not> li_snapshotting i then Failed
      else if \<not> us_active (li_unit i) then evaluateStoppedState i
      else if li_stopRequested i then Stopping
      else if ht_consecutiveSuccesses (li_tracker i) \<ge> hc_healthyThreshold (li_healthCheck i)
      then Running
      else if ht_consecutiveFailures (li_tracker i) \<ge> hc_unhealthyThreshold (li_healthCheck i) \<and>
              \<not> isWithinGracePeriod (li_healthCheck i) (li_startedAtMs i) (li_nowMs i)
      then (if ht_everHealthy (li_tracker i) then Unhealthy else Failed)
      else if ht_everHealthy (li_tracker i) then Running else Starting)"

lemmas verdict_defs = evaluateInstanceState_def evaluateStoppedState_def Let_def

section \<open>Runs of probes\<close>

fun probe_run :: "int \<Rightarrow> HealthTracker \<Rightarrow> (bool \<times> Timestamp) list \<Rightarrow> HealthTracker" where
  "probe_run threshold tracker [] = tracker"
| "probe_run threshold tracker ((healthy, at) # ps) =
     probe_run threshold (applyProbe tracker healthy at threshold) ps"

lemma probe_run_append:
  "probe_run n tr (ps @ qs) = probe_run n (probe_run n tr ps) qs"
  by (induction n tr ps rule: probe_run.induct) simp_all

definition trailing_healthy :: "(bool \<times> Timestamp) list \<Rightarrow> nat" where
  "trailing_healthy ps = length (takeWhile fst (rev ps))"

definition trailing_unhealthy :: "(bool \<times> Timestamp) list \<Rightarrow> nat" where
  "trailing_unhealthy ps = length (takeWhile (\<lambda>p. \<not> fst p) (rev ps))"

lemma trailing_snoc [simp]:
  "trailing_healthy (ps @ [(h, t)]) = (if h then Suc (trailing_healthy ps) else 0)"
  "trailing_unhealthy (ps @ [(h, t)]) = (if h then 0 else Suc (trailing_unhealthy ps))"
  by (simp_all add: trailing_healthy_def trailing_unhealthy_def)

lemma tracker_counts:
  "ht_consecutiveSuccesses (probe_run n initialTracker ps) = int (trailing_healthy ps) \<and>
   ht_consecutiveFailures (probe_run n initialTracker ps) = int (trailing_unhealthy ps)"
proof (induction ps rule: rev_induct)
  case Nil
  then show ?case
    by (simp add: initialTracker_def trailing_healthy_def trailing_unhealthy_def)
next
  case (snoc p ps)
  then show ?case
    by (cases p)
      (auto simp: probe_run_append applyProbe_def trailing_healthy_def trailing_unhealthy_def Let_def)
qed

lemma tracker_everHealthy:
  assumes "0 < n"
  shows "ht_everHealthy (probe_run n initialTracker ps) \<longleftrightarrow>
    (\<exists>qs rs. ps = qs @ rs \<and> n \<le> int (trailing_healthy qs))"
proof (induction ps rule: rev_induct)
  case Nil
  then show ?case using assms by (simp add: initialTracker_def trailing_healthy_def)
next
  case (snoc p ps)
  obtain h t where p: "p = (h, t)" by (cases p)
  have "ht_everHealthy (probe_run n initialTracker (ps @ [p])) \<longleftrightarrow>
      ht_everHealthy (probe_run n initialTracker ps) \<or> n \<le> int (trailing_healthy (ps @ [p]))"
    using tracker_counts [of n ps] assms by (auto simp: probe_run_append p applyProbe_def trailing_snoc Let_def)
  then show ?case unfolding ex_prefix_snoc using snoc.IH by blast
qed

text \<open>
  A booted microVM is not a running app: when the tracker has been fed every probe since the
  boot, the verdict is \<open>running\<close> only if the unit is up, no stop was asked for, and some prefix of
  those probes ended in a full threshold of consecutive answers.
\<close>

theorem running_needs_answers:
  assumes "li_tracker i = probe_run (hc_healthyThreshold (li_healthCheck i)) initialTracker ps"
    and "valid_HealthCheck (li_healthCheck i)"
    and "evaluateInstanceState i = Running"
  shows "us_active (li_unit i) \<and> \<not> li_stopRequested i \<and>
    (\<exists>qs rs. ps = qs @ rs \<and> hc_healthyThreshold (li_healthCheck i) \<le> int (trailing_healthy qs))"
proof -
  let ?n = "hc_healthyThreshold (li_healthCheck i)"
  have up: "us_active (li_unit i)" and wanted: "\<not> li_stopRequested i"
    and answered: "?n \<le> ht_consecutiveSuccesses (li_tracker i) \<or> ht_everHealthy (li_tracker i)"
    using assms(3) by (auto simp: verdict_defs split: if_splits)
  have "0 < ?n" using assms(2) by (simp add: valid_HealthCheck_def)
  then have "\<exists>qs rs. ps = qs @ rs \<and> ?n \<le> int (trailing_healthy qs)"
    using answered assms(1) tracker_counts [of ?n ps] tracker_everHealthy [of ?n ps]
    by (metis append_Nil2)
  with up wanted show ?thesis by blast
qed

definition health_check_example :: HealthCheck where
  "health_check_example = \<lparr>hc_path = None, hc_intervalMs = 5000, hc_timeoutMs = 1000,
     hc_gracePeriodMs = 30000, hc_healthyThreshold = 2, hc_unhealthyThreshold = 3\<rparr>"

definition active_unit_example :: UnitStatus where
  "active_unit_example = \<lparr>us_loaded = True, us_active = True, us_failed = False,
     us_startedThisBoot = True, us_exitCode = None\<rparr>"

definition lifecycle_example :: "HealthTracker \<Rightarrow> LifecycleInputs" where
  "lifecycle_example tracker = \<lparr>li_unit = active_unit_example, li_tracker = tracker,
     li_healthCheck = health_check_example, li_desiredRunning = True, li_onRequest = False,
     li_stopRequested = False, li_snapshotting = False, li_startedAtMs = Some 0, li_nowMs = 900,
     li_current = Starting\<rparr>"

lemmas health_examples =
  health_check_example_def active_unit_example_def lifecycle_example_def initialTracker_def

theorem running_needs_answers_witness:
  "us_active (li_unit (lifecycle_example
       (probe_run 2 initialTracker [(False, 250), (True, 500), (True, 750)]))) \<and>
   (\<exists>qs rs. [(False, 250), (True, 500), (True, 750)] = qs @ rs \<and>
     (2 :: int) \<le> int (trailing_healthy qs))"
  using running_needs_answers
    [of "lifecycle_example (probe_run 2 initialTracker [(False, 250), (True, 500), (True, 750)])"
        "[(False, 250), (True, 500), (True, 750)]"]
  by (simp add: health_examples valid_HealthCheck_def verdict_defs applyProbe_def)

text \<open>
  A microVM that is up is called failed for one reason only: systemd did not mark the unit
  failed, it never once reached its healthy threshold, its grace period is over, and at least the
  unhealthy threshold of probes in a row went unanswered.
\<close>

theorem active_failed_only_after_grace:
  assumes "us_active (li_unit i)" and "\<not> us_failed (li_unit i)"
    and "evaluateInstanceState i = Failed"
  shows "\<not> ht_everHealthy (li_tracker i) \<and>
    hc_unhealthyThreshold (li_healthCheck i) \<le> ht_consecutiveFailures (li_tracker i) \<and>
    (\<exists>s. li_startedAtMs i = Some s \<and> hc_gracePeriodMs (li_healthCheck i) \<le> li_nowMs i - s)"
  using assms by (auto simp: verdict_defs isWithinGracePeriod_def split: if_splits option.splits)

theorem active_failed_only_after_grace_witness:
  "\<not> ht_everHealthy (probe_run 2 initialTracker [(False, 1), (False, 2), (False, 3)])"
  using active_failed_only_after_grace
    [of "(lifecycle_example (probe_run 2 initialTracker [(False, 1), (False, 2), (False, 3)]))
           \<lparr>li_nowMs := 30000\<rparr>"]
  by (simp add: health_examples verdict_defs applyProbe_def isWithinGracePeriod_def)

text \<open>
  An absence somebody asked for is never read as a crash, and an absence nobody asked for always
  is: for a unit that is down, a requested stop, a snapshot in flight or an app that should not run
  gives \<open>idle\<close> or \<open>stopped\<close> according to the activation policy, while a boot this agent saw through
  and that then went down unasked gives \<open>failed\<close> whatever the activation policy says.
\<close>

theorem down_unit_verdict:
  assumes "\<not> us_active (li_unit i)"
  shows "evaluateInstanceState i =
    (if li_stopRequested i \<or> li_snapshotting i \<or> \<not> li_desiredRunning i
     then (if li_onRequest i \<and> li_desiredRunning i then Idle else Stopped)
     else if us_failed (li_unit i) \<or> li_startedAtMs i \<noteq> None then Failed
     else if li_onRequest i \<and> li_current i \<noteq> Pending then Idle else Pending)"
  using assms by (auto simp: verdict_defs)

theorem down_unit_verdict_witness:
  "evaluateInstanceState ((lifecycle_example initialTracker)
     \<lparr>li_unit := UNKNOWN_UNIT, li_onRequest := True, li_snapshotting := True\<rparr>) = Idle"
  using down_unit_verdict [of "(lifecycle_example initialTracker)
     \<lparr>li_unit := UNKNOWN_UNIT, li_onRequest := True, li_snapshotting := True\<rparr>"]
  by (simp add: health_examples UNKNOWN_UNIT_def)

text \<open>
  The startup grid never makes a probe later than the liveness interval, never makes the loop
  spin, and ends: the delay is positive and at most the interval, it is the short one only inside
  the grace period of a tenant that never answered, and once the grace period has passed it is the
  interval itself.
\<close>

theorem probe_delay_bounds:
  assumes "valid_HealthCheck hc"
  shows "0 < nextProbeDelayMs tr hc started now \<and>
    nextProbeDelayMs tr hc started now \<le> hc_intervalMs hc \<and>
    (\<forall>s. started = Some s \<longrightarrow> hc_gracePeriodMs hc \<le> now - s \<longrightarrow>
       nextProbeDelayMs tr hc started now = hc_intervalMs hc)"
  using assms
  by (auto simp: nextProbeDelayMs_def isOnStartupGrid_def isWithinGracePeriod_def
      valid_HealthCheck_def STARTUP_PROBE_INTERVAL_MS_def split: option.splits)

theorem probe_delay_bounds_witness:
  "0 < nextProbeDelayMs initialTracker health_check_example (Some 0) 100 \<and>
   nextProbeDelayMs initialTracker health_check_example (Some 0) 40000 = 5000"
  using probe_delay_bounds [of health_check_example initialTracker "Some 0" 100]
    probe_delay_bounds [of health_check_example initialTracker "Some 0" 40000]
  by (simp add: health_examples valid_HealthCheck_def)

end
