(* ===== verification/Recovery.thy ===== *)
theory Recovery
  imports Protocol
begin

text \<open>
  The budget a microVM that went down is restarted on: \<open>apps/agent/src/lib/backoff.ts\<close>,
  \<open>lib/vm/failure.ts\<close> (the failure value) and \<open>lib/vm/recovery.ts\<close>. Both policies of the agent
  have integer delays and the factor two, so \<open>Math.round\<close> is the identity on what it is given.

  The life of one budget is the step relation \<open>recovery_step\<close>: a failure is recorded, a queued
  retry is begun, a health reading arrives. Its reachable states never hold more attempts than the
  widest policy allows, and a budget is only given back after a whole quiet minute.
\<close>

section \<open>Backoff\<close>

record BackoffPolicy =
  bp_initialBackoffMs :: int
  bp_maxBackoffMs :: int
  bp_backoffFactor :: int

definition backoffDelayMs :: "int \<Rightarrow> 'a BackoffPolicy_scheme \<Rightarrow> int" where
  "backoffDelayMs attempt policy =
     (if attempt \<le> 0 then 0
      else let grown = bp_initialBackoffMs policy * bp_backoffFactor policy ^ nat (attempt - 1)
           in min grown (bp_maxBackoffMs policy))"

section \<open>Failures\<close>

datatype VmFailureKind = KvmFailure | GuestFailure | UnexpectedExit | BootFailure | HealthFailure

record VmFailure =
  vf_kind :: VmFailureKind
  vf_message :: string
  vf_retryable :: bool
  vf_kvmReason :: "int option"
  vf_cpu :: "int option"

section \<open>The recovery budget\<close>

record VmRecoveryPolicy = BackoffPolicy +
  vp_maxRetries :: int
  vp_healthyResetMs :: int

definition VM_RECOVERY_POLICY :: VmRecoveryPolicy where
  "VM_RECOVERY_POLICY =
     \<lparr>bp_initialBackoffMs = 1000, bp_maxBackoffMs = 4000, bp_backoffFactor = 2,
      vp_maxRetries = 3, vp_healthyResetMs = 60000\<rparr>"

definition KVM_RECOVERY_POLICY :: VmRecoveryPolicy where
  "KVM_RECOVERY_POLICY = VM_RECOVERY_POLICY
     \<lparr>vp_maxRetries := 10, bp_initialBackoffMs := 30000, bp_maxBackoffMs := 120000\<rparr>"

record VmRecovery =
  vr_attempts :: int
  vr_nextAttemptAtMs :: "int option"
  vr_healthySinceMs :: "int option"
  vr_failure :: "VmFailure option"

definition vmRecoveryPolicy :: "VmFailure \<Rightarrow> VmRecoveryPolicy" where
  "vmRecoveryPolicy failure =
     (if vf_kind failure = KvmFailure then KVM_RECOVERY_POLICY else VM_RECOVERY_POLICY)"

definition vmRetryDelayMs :: "int \<Rightarrow> VmFailure \<Rightarrow> int" where
  "vmRetryDelayMs attempts failure =
     (if vf_kind failure = KvmFailure \<and> attempts \<ge> vp_maxRetries VM_RECOVERY_POLICY
      then backoffDelayMs (attempts - vp_maxRetries VM_RECOVERY_POLICY + 1) KVM_RECOVERY_POLICY
      else backoffDelayMs (attempts + 1) VM_RECOVERY_POLICY)"

datatype RecoveryAlert = KvmRecoveryExhausted | KvmRecoveryCooldown

definition vmRecoveryAlert :: "VmRecovery \<Rightarrow> RecoveryAlert option" where
  "vmRecoveryAlert recovery =
     (if map_option vf_kind (vr_failure recovery) \<noteq> Some KvmFailure then None
      else if vr_nextAttemptAtMs recovery = None then Some KvmRecoveryExhausted
      else if vr_attempts recovery = vp_maxRetries VM_RECOVERY_POLICY
      then Some KvmRecoveryCooldown else None)"

definition afterVmFailure :: "VmRecovery option \<Rightarrow> VmFailure \<Rightarrow> int \<Rightarrow> VmRecovery" where
  "afterVmFailure recovery failure nowMs =
     (let attempts = (case recovery of None \<Rightarrow> 0 | Some r \<Rightarrow> vr_attempts r);
          retry = vf_retryable failure \<and> attempts < vp_maxRetries (vmRecoveryPolicy failure)
      in \<lparr>vr_attempts = attempts,
          vr_nextAttemptAtMs =
            (if retry then Some (nowMs + vmRetryDelayMs attempts failure) else None),
          vr_healthySinceMs = None,
          vr_failure = Some failure\<rparr>)"

definition afterVmHealth :: "VmRecovery option \<Rightarrow> bool \<Rightarrow> int \<Rightarrow> VmRecovery option" where
  "afterVmHealth recovery healthy nowMs =
     (case recovery of
        None \<Rightarrow> None
      | Some r \<Rightarrow>
          if \<not> healthy then Some (r\<lparr>vr_healthySinceMs := None\<rparr>)
          else let healthySinceMs =
                     (case vr_healthySinceMs r of None \<Rightarrow> nowMs | Some s \<Rightarrow> s)
               in if nowMs - healthySinceMs \<ge> vp_healthyResetMs VM_RECOVERY_POLICY then None
                  else Some (r\<lparr>vr_healthySinceMs := Some healthySinceMs\<rparr>))"

definition beginVmRetry :: "VmRecovery \<Rightarrow> VmRecovery" where
  "beginVmRetry recovery =
     \<lparr>vr_attempts = vr_attempts recovery + 1, vr_nextAttemptAtMs = None,
      vr_healthySinceMs = None, vr_failure = vr_failure recovery\<rparr>"

lemmas recovery_policy_defs =
  VM_RECOVERY_POLICY_def KVM_RECOVERY_POLICY_def vmRecoveryPolicy_def

section \<open>Delays are bounded and grow\<close>

lemma backoffDelayMs_nonneg:
  assumes "0 \<le> bp_initialBackoffMs p" and "0 \<le> bp_maxBackoffMs p" and "0 \<le> bp_backoffFactor p"
  shows "0 \<le> backoffDelayMs a p"
  using assms by (simp add: backoffDelayMs_def Let_def)

lemma backoffDelayMs_le_max:
  "0 \<le> bp_maxBackoffMs p \<Longrightarrow> backoffDelayMs a p \<le> bp_maxBackoffMs p"
  by (simp add: backoffDelayMs_def Let_def)

text \<open>
  Waiting longer after more attempts: with a non-negative initial delay, a non-negative ceiling
  and a factor of at least one, the delay is monotone in the attempt number and never leaves the
  interval from zero to the policy's ceiling.
\<close>

theorem backoff_monotone_bounded:
  assumes "0 \<le> bp_initialBackoffMs p" and "0 \<le> bp_maxBackoffMs p" and "1 \<le> bp_backoffFactor p"
    and "a \<le> b"
  shows "0 \<le> backoffDelayMs a p \<and> backoffDelayMs a p \<le> backoffDelayMs b p \<and>
    backoffDelayMs b p \<le> bp_maxBackoffMs p"
proof -
  have "backoffDelayMs a p \<le> backoffDelayMs b p"
  proof (cases "a \<le> 0")
    case True
    then have "backoffDelayMs a p = 0" by (simp add: backoffDelayMs_def)
    then show ?thesis using backoffDelayMs_nonneg [of p b] assms by simp
  next
    case False
    have "bp_backoffFactor p ^ nat (a - 1) \<le> bp_backoffFactor p ^ nat (b - 1)"
      using assms(3,4) by (intro power_increasing) auto
    then have "bp_initialBackoffMs p * bp_backoffFactor p ^ nat (a - 1)
        \<le> bp_initialBackoffMs p * bp_backoffFactor p ^ nat (b - 1)"
      using assms(1) by (rule mult_left_mono)
    then show ?thesis
      using False assms(4) by (simp add: backoffDelayMs_def Let_def min.coboundedI1)
  qed
  then show ?thesis
    using backoffDelayMs_nonneg [of p a] backoffDelayMs_le_max [of p b] assms by simp
qed

theorem backoff_monotone_bounded_witness:
  "0 \<le> backoffDelayMs 1 VM_RECOVERY_POLICY \<and>
   backoffDelayMs 1 VM_RECOVERY_POLICY \<le> backoffDelayMs 2 VM_RECOVERY_POLICY \<and>
   backoffDelayMs 2 VM_RECOVERY_POLICY \<le> bp_maxBackoffMs VM_RECOVERY_POLICY"
  by (rule backoff_monotone_bounded) (simp_all add: recovery_policy_defs)

lemma vmRetryDelayMs_pos: "0 \<le> a \<Longrightarrow> 0 < vmRetryDelayMs a f"
  by (auto simp: vmRetryDelayMs_def backoffDelayMs_def recovery_policy_defs Let_def)

section \<open>One budget over time\<close>

datatype recovery_event =
    FailureRecorded VmFailure int
  | RetryBegun
  | HealthRead bool int

inductive recovery_step ::
  "VmRecovery option \<Rightarrow> recovery_event \<Rightarrow> VmRecovery option \<Rightarrow> bool" where
  fail: "recovery_step r (FailureRecorded f t) (Some (afterVmFailure r f t))"
| retry: "vr_nextAttemptAtMs r \<noteq> None \<Longrightarrow>
    recovery_step (Some r) RetryBegun (Some (beginVmRetry r))"
| health: "recovery_step r (HealthRead h t) (afterVmHealth r h t)"

inductive_cases recovery_retryE: "recovery_step r RetryBegun r'"
inductive_cases recovery_failE: "recovery_step r (FailureRecorded f t) r'"
inductive_cases recovery_healthE: "recovery_step r (HealthRead h t) r'"

inductive recovery_reachable :: "VmRecovery option \<Rightarrow> bool" where
  fresh: "recovery_reachable None"
| step: "recovery_reachable r \<Longrightarrow> recovery_step r e r' \<Longrightarrow> recovery_reachable r'"

text \<open>What every budget this agent can hold looks like: a retry is only queued while the policy of
  the failure behind it has attempts left, and for a failure that may be retried.\<close>

definition recovery_inv :: "VmRecovery \<Rightarrow> bool" where
  "recovery_inv r \<longleftrightarrow>
     0 \<le> vr_attempts r \<and> vr_attempts r \<le> vp_maxRetries KVM_RECOVERY_POLICY \<and>
     (vr_nextAttemptAtMs r \<noteq> None \<longrightarrow>
        (\<exists>f. vr_failure r = Some f \<and> vf_retryable f \<and>
             vr_attempts r < vp_maxRetries (vmRecoveryPolicy f)))"

lemma recovery_inv_failure:
  "(\<And>q. r = Some q \<Longrightarrow> recovery_inv q) \<Longrightarrow> recovery_inv (afterVmFailure r f t)"
  by (auto simp: recovery_inv_def afterVmFailure_def Let_def recovery_policy_defs
      split: option.splits)

lemma recovery_inv_retry:
  "recovery_inv r \<Longrightarrow> vr_nextAttemptAtMs r \<noteq> None \<Longrightarrow> recovery_inv (beginVmRetry r)"
  by (auto simp: recovery_inv_def beginVmRetry_def recovery_policy_defs split: if_splits)

lemma recovery_inv_health:
  "recovery_inv r \<Longrightarrow> afterVmHealth (Some r) h t = Some q \<Longrightarrow> recovery_inv q"
  by (auto simp: recovery_inv_def afterVmHealth_def Let_def split: if_splits)

lemma recovery_step_inv:
  assumes "recovery_step r e r'" and "\<And>q. r = Some q \<Longrightarrow> recovery_inv q" and "r' = Some q'"
  shows "recovery_inv q'"
  using assms
proof (cases rule: recovery_step.cases)
  case (fail f t)
  then show ?thesis using assms recovery_inv_failure by blast
next
  case (retry q)
  then show ?thesis using assms recovery_inv_retry by blast
next
  case (health h t)
  then show ?thesis
    using assms recovery_inv_health by (cases r) (auto simp: afterVmHealth_def)
qed

text \<open>
  The restart budget is never overrun: whatever failures, retries and health readings an
  instance goes through, its recorded attempts stay between zero and ten, and a retry is queued
  only for a retryable failure whose own policy (three attempts, ten for a KVM entry failure)
  still has one left.
\<close>

theorem recovery_budget_invariant: "recovery_reachable (Some r) \<Longrightarrow> recovery_inv r"
proof (induction "Some r" arbitrary: r rule: recovery_reachable.induct)
  case (step s e)
  show ?case
    by (rule recovery_step_inv [OF step.hyps(3)]) (use step.hyps(2) in auto)
qed

theorem recovery_budget_invariant_witness:
  "recovery_inv (afterVmFailure None
     \<lparr>vf_kind = BootFailure, vf_message = ''no artifact'', vf_retryable = True,
      vf_kvmReason = None, vf_cpu = None\<rparr> 5000)"
  by (rule recovery_budget_invariant)
    (rule recovery_reachable.step [OF recovery_reachable.fresh recovery_step.fail])

text \<open>The run of failures no health reading interrupts: each is recorded, then its retry begun.\<close>

fun failing_run :: "VmRecovery option \<Rightarrow> (VmFailure \<times> int) list \<Rightarrow> VmRecovery option" where
  "failing_run r [] = r"
| "failing_run r ((f, t) # fs) =
     (let r' = afterVmFailure r f t
      in if vr_nextAttemptAtMs r' = None then Some r' else failing_run (Some (beginVmRetry r')) fs)"

definition attempts_of :: "VmRecovery option \<Rightarrow> int" where
  "attempts_of r = (case r of None \<Rightarrow> 0 | Some q \<Rightarrow> vr_attempts q)"

lemma afterVmFailure_fields [simp]:
  "vr_attempts (afterVmFailure r f t) = attempts_of r"
  "vr_failure (afterVmFailure r f t) = Some f"
  "vr_nextAttemptAtMs (afterVmFailure r f t) =
     (if vf_retryable f \<and> attempts_of r < vp_maxRetries (vmRecoveryPolicy f)
      then Some (t + vmRetryDelayMs (attempts_of r) f) else None)"
  by (simp_all add: afterVmFailure_def attempts_of_def Let_def)

lemma beginVmRetry_attempts [simp]: "attempts_of (Some (beginVmRetry r)) = vr_attempts r + 1"
  by (simp add: attempts_of_def beginVmRetry_def)

lemma vmRecoveryPolicy_maxRetries:
  "vp_maxRetries (vmRecoveryPolicy f) = (if vf_kind f = KvmFailure then 10 else 3)"
  by (simp add: recovery_policy_defs)

lemma failing_run_stops:
  assumes "0 \<le> attempts_of r" and "attempts_of r + int (length fs) > 10"
    and "attempts_of r \<le> 10"
  shows "\<exists>q. failing_run r fs = Some q \<and> vr_nextAttemptAtMs q = None"
  using assms
proof (induction fs arbitrary: r)
  case Nil
  then show ?case by simp
next
  case (Cons ft fs)
  obtain f t where ft: "ft = (f, t)" by (cases ft)
  show ?case
  proof (cases "vr_nextAttemptAtMs (afterVmFailure r f t) = None")
    case True
    then show ?thesis by (simp add: ft Let_def)
  next
    case False
    then have "attempts_of r < 10"
      by (auto simp: vmRecoveryPolicy_maxRetries split: if_splits)
    then show ?thesis
      using Cons.IH [of "Some (beginVmRetry (afterVmFailure r f t))"] Cons.prems False
      by (simp add: ft Let_def)
  qed
qed

text \<open>
  C39. Recovery ends: an instance that keeps failing is not restarted for ever. Whatever the kinds
  and the times of the failures, a run of eleven of them leaves the budget with no retry queued,
  which is the state the reconciler reports as failed.
\<close>

theorem recovery_terminates:
  assumes "10 < length fs"
  shows "\<exists>q. failing_run None fs = Some q \<and> vr_nextAttemptAtMs q = None"
  using assms by (intro failing_run_stops) (auto simp: attempts_of_def)

definition boot_failure_example :: VmFailure where
  "boot_failure_example = \<lparr>vf_kind = BootFailure, vf_message = ''no artifact'',
     vf_retryable = True, vf_kvmReason = None, vf_cpu = None\<rparr>"

definition kvm_failure_example :: VmFailure where
  "kvm_failure_example = \<lparr>vf_kind = KvmFailure, vf_message = ''fail entry'',
     vf_retryable = True, vf_kvmReason = Some 7, vf_cpu = Some 0\<rparr>"

theorem recovery_terminates_witness:
  "\<exists>q. failing_run None (replicate 11 (kvm_failure_example, 0)) = Some q \<and>
       vr_nextAttemptAtMs q = None"
  by (rule recovery_terminates) simp

text \<open>
  A KVM entry failure is retried on the schedule the operator's alerts are written against:
  the ordinary one, two and four seconds for the first three attempts, then thirty seconds, a
  minute and two minutes, the last for every attempt after; every other failure stays on the first
  schedule. The delay is always positive, so a retry is never due at the moment it is queued.
\<close>

theorem retry_schedule:
  "map (\<lambda>a. vmRetryDelayMs a kvm) [0, 1, 2, 3, 4, 5, 6, 7, 8, 9] =
     (if vf_kind kvm = KvmFailure
      then [1000, 2000, 4000, 30000, 60000, 120000, 120000, 120000, 120000, 120000]
      else [1000, 2000, 4000, 4000, 4000, 4000, 4000, 4000, 4000, 4000])"
  by (simp add: vmRetryDelayMs_def backoffDelayMs_def recovery_policy_defs Let_def eval_nat_numeral)

section \<open>Giving the budget back\<close>

fun health_run :: "VmRecovery option \<Rightarrow> (bool \<times> int) list \<Rightarrow> VmRecovery option" where
  "health_run r [] = r"
| "health_run r ((h, t) # hs) = health_run (afterVmHealth r h t) hs"

lemma health_run_None [simp]: "health_run None hs = None"
  by (induction hs) (auto simp: afterVmHealth_def)

lemma afterVmHealth_reset:
  assumes "afterVmHealth (Some r) h t = None"
  shows "h \<and> (\<exists>s. vr_healthySinceMs r = Some s \<and> t - s \<ge> 60000)"
  using assms
  by (auto simp: afterVmHealth_def Let_def recovery_policy_defs split: if_splits option.splits)

lemma afterVmHealth_since:
  assumes "afterVmHealth (Some r) h t = Some q"
  shows "vr_healthySinceMs q =
      (if h then Some (case vr_healthySinceMs r of None \<Rightarrow> t | Some s \<Rightarrow> s) else None)"
  using assms by (auto simp: afterVmHealth_def Let_def split: if_splits)

lemma health_run_reset_window:
  assumes "health_run (Some r) hs = None"
    and "\<And>s. vr_healthySinceMs r = Some s \<Longrightarrow> P s"
  shows "\<exists>pre h t post s. hs = pre @ (h, t) # post \<and> h \<and> t - s \<ge> 60000 \<and>
    (P s \<and> (\<forall>x \<in> set pre. fst x) \<or>
     (\<exists>before mid. pre = before @ (True, s) # mid \<and> (\<forall>x \<in> set mid. fst x)))"
  using assms
proof (induction hs arbitrary: r P)
  case Nil
  then show ?case by simp
next
  case (Cons x hs)
  obtain h t where x: "x = (h, t)" by (cases x)
  show ?case
  proof (cases "afterVmHealth (Some r) h t")
    case None
    then obtain s where s: "h" "vr_healthySinceMs r = Some s" "t - s \<ge> 60000"
      using afterVmHealth_reset by blast
    then have "x # hs = [] @ (h, t) # hs \<and> h \<and> t - s \<ge> 60000 \<and>
        (P s \<and> (\<forall>y \<in> set []. fst y) \<or>
         (\<exists>before mid. [] = before @ (True, s) # mid \<and> (\<forall>y \<in> set mid. fst y)))"
      using Cons.prems(2) x by simp
    then show ?thesis by blast
  next
    case (Some q)
    let ?P = "\<lambda>s. h \<and> (P s \<or> s = t)"
    have since: "?P s" if "vr_healthySinceMs q = Some s" for s
      using that afterVmHealth_since [OF Some] Cons.prems(2)
      by (auto split: if_splits option.splits)
    have run: "health_run (Some q) hs = None"
      using Cons.prems(1) x Some by simp
    obtain pre h' t' post s where w: "hs = pre @ (h', t') # post" "h'" "t' - s \<ge> 60000"
      and c: "?P s \<and> (\<forall>y \<in> set pre. fst y) \<or>
        (\<exists>before mid. pre = before @ (True, s) # mid \<and> (\<forall>y \<in> set mid. fst y))"
      using Cons.IH [where P = ?P, OF run since] by blast
    have "P s \<and> (\<forall>y \<in> set (x # pre). fst y) \<or>
        (\<exists>before mid. x # pre = before @ (True, s) # mid \<and> (\<forall>y \<in> set mid. fst y))"
    proof (use c in \<open>elim disjE conjE exE\<close>)
      assume "h" and "P s" and "\<forall>y \<in> set pre. fst y"
      then show ?thesis by (simp add: x)
    next
      assume "h" and "s = t" and "\<forall>y \<in> set pre. fst y"
      then have "x # pre = [] @ (True, s) # pre \<and> (\<forall>y \<in> set pre. fst y)" by (simp add: x)
      then show ?thesis by blast
    next
      fix before mid
      assume "pre = before @ (True, s) # mid" and "\<forall>y \<in> set mid. fst y"
      then have "x # pre = (x # before) @ (True, s) # mid \<and> (\<forall>y \<in> set mid. fst y)" by simp
      then show ?thesis by blast
    qed
    moreover have "x # hs = (x # pre) @ (h', t') # post" using w by simp
    ultimately show ?thesis using w by blast
  qed
qed

text \<open>
  A budget is given back only to an instance that stayed healthy for a whole minute: when a run
  of health readings clears a budget recorded by a failure, the readings contain a healthy one and a
  later healthy one at least sixty seconds apart with no unhealthy reading between them.
\<close>

theorem budget_reset_needs_healthy_minute:
  assumes "health_run (Some (afterVmFailure r f at)) hs = None"
  shows "\<exists>before s mid t post. hs = before @ (True, s) # mid @ (True, t) # post \<and>
    t - s \<ge> 60000 \<and> (\<forall>x \<in> set mid. fst x)"
proof -
  have "vr_healthySinceMs (afterVmFailure r f at) = None"
    by (simp add: afterVmFailure_def Let_def)
  then obtain pre h t post s before mid where "hs = pre @ (h, t) # post" "h" "t - s \<ge> 60000"
    and "pre = before @ (True, s) # mid" and "\<forall>x \<in> set mid. fst x"
    using health_run_reset_window [OF assms, where P = "\<lambda>_. False"]
    by (simp only: option.distinct simp_thms) blast
  then have "hs = before @ (True, s) # mid @ (True, t) # post" by simp
  with \<open>t - s \<ge> 60000\<close> \<open>\<forall>x \<in> set mid. fst x\<close> show ?thesis by blast
qed

theorem budget_reset_needs_healthy_minute_witness:
  "\<exists>before s mid t post.
     [(True, 1000), (True, 30000), (True, 61000)] = before @ (True, s) # mid @ (True, t) # post \<and>
     t - s \<ge> (60000 :: int)"
proof -
  have "health_run (Some (afterVmFailure None boot_failure_example 0))
      [(True, 1000), (True, 30000), (True, 61000)] = None"
    by (simp add: afterVmHealth_def afterVmFailure_def Let_def recovery_policy_defs)
  from budget_reset_needs_healthy_minute [OF this] show ?thesis by blast
qed

end
