(* ===== verification/Slots.thy ===== *)
theory Slots
  imports Protocol
begin

text \<open>
  The one small integer a host port, a tap, a /30 and an NBD minor all derive from:
  \<open>apps/agent/src/lib/network/slot.ts\<close>, \<open>lib/network/allocator.ts\<close>, \<open>lib/proxy/listener.ts\<close> and
  \<open>services/slot-allocator.service.ts\<close>.

  The allocator's two references are the record \<open>slot_store\<close>. The devices a caller restricts an
  allocation to come from sysfs and are an argument. The identifier schema is TypeBox's, so the
  check of a key read from disk is the argument \<open>validId\<close>. Interface: the locale \<open>slot_table\<close>.
\<close>

section \<open>What a slot is\<close>

definition FIRST_SLOT :: int where "FIRST_SLOT = 0"

definition NBD_DEVICE_COUNT :: int where "NBD_DEVICE_COUNT = 128"

definition nbdDevicePath :: "int \<Rightarrow> string" where
  "nbdDevicePath minor = ''/dev/nbd'' @ show_int minor"

definition EXPORT_READER_DEVICE_PATH :: string where
  "EXPORT_READER_DEVICE_PATH = nbdDevicePath (NBD_DEVICE_COUNT - 1)"

definition SLOT_COUNT :: int where "SLOT_COUNT = NBD_DEVICE_COUNT - 1"

definition HOST_PORT_BASE :: int where "HOST_PORT_BASE = 21000"

definition EXTRA_PUBLIC_PORT_BASE :: int where "EXTRA_PUBLIC_PORT_BASE = 22000"

definition ADDRESSES_PER_SLOT :: int where "ADDRESSES_PER_SLOT = 4"

definition OCTET_SIZE :: int where "OCTET_SIZE = 256"

record AppSlot =
  as_slot :: int
  as_appId :: AppId
  as_hostPort :: HostPort
  as_extraPublicPort :: HostPort
  as_hostIpv4 :: Ipv4Address
  as_guestIpv4 :: Ipv4Address
  as_guestMac :: string
  as_tapName :: string
  as_nbdDevicePath :: string
  as_subnetPrefixLength :: int

definition addressAt :: "int \<Rightarrow> Ipv4Address" where
  "addressAt index = ''10.201.'' @ show_int (index div OCTET_SIZE) @ ''.'' @
     show_int (js_rem index OCTET_SIZE)"

text \<open>\<open>Number(octet).toString(16).padStart(2, '0')\<close>\<close>

definition hex_char :: "nat \<Rightarrow> char" where
  "hex_char d = (if d < 10 then char_of (48 + d) else char_of (87 + d))"

fun show_hex :: "nat \<Rightarrow> string" where
  "show_hex n = (if n < 16 then [hex_char n] else show_hex (n div 16) @ [hex_char (n mod 16)])"

declare show_hex.simps [simp del]

definition padStart2 :: "string \<Rightarrow> string" where
  "padStart2 s = replicate (2 - length s) (CHR ''0'') @ s"

definition macFor :: "Ipv4Address \<Rightarrow> string" where
  "macFor address = js_join '':''
     (''02:00'' # map (\<lambda>octet. padStart2 (show_hex (digits_value octet)))
        (js_split (CHR ''.'') address))"

definition describeSlot :: "int \<Rightarrow> AppId \<Rightarrow> AppSlot" where
  "describeSlot slot appId =
     (let base = slot * ADDRESSES_PER_SLOT;
          guestIpv4 = addressAt (base + 2)
      in \<lparr>as_slot = slot, as_appId = appId,
          as_hostPort = nat (HOST_PORT_BASE + slot),
          as_extraPublicPort = nat (EXTRA_PUBLIC_PORT_BASE + slot),
          as_hostIpv4 = addressAt (base + 1),
          as_guestIpv4 = guestIpv4,
          as_guestMac = macFor guestIpv4,
          as_tapName = ''nbr'' @ show_int slot,
          as_nbdDevicePath = nbdDevicePath slot,
          as_subnetPrefixLength = 30\<rparr>)"

definition waitingPort :: "HostPort \<Rightarrow> HostPort" where
  "waitingPort hostPort = hostPort + nat SLOT_COUNT"

lemmas slot_constants =
  FIRST_SLOT_def NBD_DEVICE_COUNT_def SLOT_COUNT_def HOST_PORT_BASE_def
  EXTRA_PUBLIC_PORT_BASE_def ADDRESSES_PER_SLOT_def OCTET_SIZE_def

section \<open>The allocator\<close>

datatype allocation_error = SlotExhausted int | NbdAttachmentUnavailable

type_synonym Assignments = "(AppId, int) jsmap"

definition readSlotRecords :: "json \<Rightarrow> (string \<times> int) list" where
  "readSlotRecords value =
     (case value of
        JObject entries \<Rightarrow>
          List.map_filter (\<lambda>(appId, slot).
            case slot of JInt n \<Rightarrow> Some (appId, n) | _ \<Rightarrow> None) entries
      | _ \<Rightarrow> [])"

definition readSlotCursor :: "json \<Rightarrow> int" where
  "readSlotCursor value = (case value of JInt n \<Rightarrow> n | _ \<Rightarrow> FIRST_SLOT)"

datatype slot_load_error = InvalidAppId string

fun assignmentsLoop :: "(string \<Rightarrow> bool) \<Rightarrow> (string \<times> int) list \<Rightarrow> Assignments \<Rightarrow> int set \<Rightarrow>
    (slot_load_error, Assignments) result" where
  "assignmentsLoop validId [] assignments taken = Inr assignments"
| "assignmentsLoop validId ((appId, slot) # records) assignments taken =
     (if slot < FIRST_SLOT \<or> slot \<ge> SLOT_COUNT \<or> slot \<in> taken
      then assignmentsLoop validId records assignments taken
      else if \<not> validId appId then Inl (InvalidAppId appId)
      else assignmentsLoop validId records (js_set appId slot assignments) (insert slot taken))"

definition assignmentsFrom ::
  "(string \<Rightarrow> bool) \<Rightarrow> (string \<times> int) list \<Rightarrow> (slot_load_error, Assignments) result" where
  "assignmentsFrom validId records = assignmentsLoop validId records [] {}"

definition SLOT_SPAN :: int where "SLOT_SPAN = SLOT_COUNT - FIRST_SLOT"

definition wrapped :: "int \<Rightarrow> int" where
  "wrapped offset = FIRST_SLOT + js_rem (js_rem offset SLOT_SPAN + SLOT_SPAN) SLOT_SPAN"

definition nextFree :: "Assignments \<Rightarrow> int \<Rightarrow> AppId \<Rightarrow> string set option \<Rightarrow> int option" where
  "nextFree assignments from appId devices =
     (let taken = set (js_values assignments)
      in find (\<lambda>slot. slot \<notin> taken \<and>
                 (case devices of None \<Rightarrow> True
                  | Some ds \<Rightarrow> as_nbdDevicePath (describeSlot slot appId) \<in> ds))
           (map (\<lambda>step. wrapped (from - FIRST_SLOT + int step)) [0..<nat SLOT_SPAN]))"

definition withSlot :: "Assignments \<Rightarrow> AppId \<Rightarrow> AppSlot option" where
  "withSlot assignments appId =
     map_option (\<lambda>slot. describeSlot slot appId) (js_get assignments appId)"

definition reuseSlot ::
  "AppSlot \<Rightarrow> string set option \<Rightarrow> (allocation_error, AppSlot \<times> bool) result" where
  "reuseSlot slot devices =
     (if (case devices of None \<Rightarrow> True | Some ds \<Rightarrow> as_nbdDevicePath slot \<in> ds)
      then Inr (slot, False) else Inl NbdAttachmentUnavailable)"

record slot_store =
  ss_assignments :: Assignments
  ss_cursor :: int

definition allocate :: "string set option \<Rightarrow> AppId \<Rightarrow> slot_store \<Rightarrow>
    (allocation_error, AppSlot) result \<times> slot_store" where
  "allocate devices appId s =
     (case withSlot (ss_assignments s) appId of
        Some existing \<Rightarrow>
          (case reuseSlot existing devices of
             Inl e \<Rightarrow> (Inl e, s)
           | Inr (slot, fresh) \<Rightarrow> (Inr slot, s))
      | None \<Rightarrow>
          (case nextFree (ss_assignments s) (ss_cursor s) appId devices of
             None \<Rightarrow>
               (Inl (if devices = None then SlotExhausted SLOT_COUNT
                     else NbdAttachmentUnavailable), s)
           | Some free \<Rightarrow>
               (Inr (describeSlot free appId),
                s\<lparr>ss_assignments := js_set appId free (ss_assignments s),
                  ss_cursor := free + 1\<rparr>)))"

text \<open>The member \<open>allocate\<close>: an app whose desired volume has storage of its own is held to the
  devices sysfs shows, any other is not.\<close>

definition usesOwnStorage :: "HostDesiredState option \<Rightarrow> AppId \<Rightarrow> bool" where
  "usesOwnStorage latest appId =
     (case latest of None \<Rightarrow> False
      | Some desired \<Rightarrow>
          \<exists>volume \<in> set (hd_volumes desired). dv_appId volume = appId \<and> dv_storage volume \<noteq> None)"

definition allocateFor :: "HostDesiredState option \<Rightarrow> string set \<Rightarrow> AppId \<Rightarrow> slot_store \<Rightarrow>
    (allocation_error, AppSlot) result \<times> slot_store" where
  "allocateFor latest existingDevices appId s =
     (if usesOwnStorage latest appId then allocate (Some existingDevices) appId s
      else allocate None appId s)"

definition slot_lookup :: "slot_store \<Rightarrow> AppId \<Rightarrow> AppSlot option" where
  "slot_lookup s appId = withSlot (ss_assignments s) appId"

definition release :: "AppId \<Rightarrow> slot_store \<Rightarrow> slot_store" where
  "release appId s = s\<lparr>ss_assignments := js_delete appId (ss_assignments s)\<rparr>"

definition slots :: "slot_store \<Rightarrow> AppSlot list" where
  "slots s = map (\<lambda>(appId, slot). describeSlot slot appId) (ss_assignments s)"

definition persist_slots :: "slot_store \<Rightarrow> json \<times> json" where
  "persist_slots s =
     (JObject (map (\<lambda>(appId, slot). (appId, JInt slot)) (ss_assignments s)), JInt (ss_cursor s))"

definition load_slots ::
  "(string \<Rightarrow> bool) \<Rightarrow> json \<times> json \<Rightarrow> (slot_load_error, slot_store) result" where
  "load_slots validId files =
     bind_result (assignmentsFrom validId (readSlotRecords (fst files))) (\<lambda>assignments.
       Inr \<lparr>ss_assignments = assignments, ss_cursor = readSlotCursor (snd files)\<rparr>)"

section \<open>Nothing two slots share\<close>

lemma show_int_nonneg_inj: "0 \<le> a \<Longrightarrow> 0 \<le> b \<Longrightarrow> show_int a = show_int b \<longleftrightarrow> a = b"
  by (auto simp: show_int_def eq_nat_nat_iff)

lemma dot_notin_show_int: "0 \<le> a \<Longrightarrow> CHR ''.'' \<notin> set (show_int a)"
  by (simp add: show_int_def dot_notin_show_nat)

lemma split_at_dot_unique:
  assumes "CHR ''.'' \<notin> set a" "CHR ''.'' \<notin> set b" "CHR ''.'' \<notin> set c" "CHR ''.'' \<notin> set d"
  shows "a @ ''.'' @ b = c @ ''.'' @ d \<longleftrightarrow> a = c \<and> b = d"
proof
  assume "a @ ''.'' @ b = c @ ''.'' @ d"
  then have "js_split (CHR ''.'') (a @ CHR ''.'' # b) = js_split (CHR ''.'') (c @ CHR ''.'' # d)"
    by simp
  then show "a = c \<and> b = d"
    using assms by (simp add: js_split_append_sep js_split_no_sep)
qed simp

lemma addressAt_inj:
  assumes "0 \<le> i" "0 \<le> j"
  shows "addressAt i = addressAt j \<longleftrightarrow> i = j"
proof
  assume "addressAt i = addressAt j"
  then have "show_int (i div 256) @ ''.'' @ show_int (i mod 256)
      = show_int (j div 256) @ ''.'' @ show_int (j mod 256)"
    using assms by (simp add: addressAt_def slot_constants js_rem_nonneg)
  then have "i div 256 = j div 256 \<and> i mod 256 = j mod 256"
    using assms
    by (subst (asm) split_at_dot_unique)
      (simp_all add: dot_notin_show_int show_int_nonneg_inj pos_imp_zdiv_nonneg_iff)
  then show "i = j" by (metis div_mult_mod_eq)
qed simp

definition slot_in_range :: "int \<Rightarrow> bool" where
  "slot_in_range slot \<longleftrightarrow> FIRST_SLOT \<le> slot \<and> slot < SLOT_COUNT"

lemma nbdDevicePath_inj: "0 \<le> a \<Longrightarrow> 0 \<le> b \<Longrightarrow> nbdDevicePath a = nbdDevicePath b \<longleftrightarrow> a = b"
  by (simp add: nbdDevicePath_def show_int_nonneg_inj)

lemma describeSlot_separate:
  assumes "slot_in_range i" "slot_in_range j" "i \<noteq> j"
  shows "as_hostPort (describeSlot i a) \<noteq> as_hostPort (describeSlot j b)"
    and "as_extraPublicPort (describeSlot i a) \<noteq> as_extraPublicPort (describeSlot j b)"
    and "as_guestIpv4 (describeSlot i a) \<noteq> as_guestIpv4 (describeSlot j b)"
    and "as_hostIpv4 (describeSlot i a) \<noteq> as_hostIpv4 (describeSlot j b)"
    and "as_guestIpv4 (describeSlot i a) \<noteq> as_hostIpv4 (describeSlot j b)"
    and "as_tapName (describeSlot i a) \<noteq> as_tapName (describeSlot j b)"
    and "as_nbdDevicePath (describeSlot i a) \<noteq> as_nbdDevicePath (describeSlot j b)"
  using assms
  by (auto simp: describeSlot_def Let_def slot_in_range_def slot_constants addressAt_inj
      show_int_nonneg_inj nbdDevicePath_inj eq_nat_nat_iff)

lemma describeSlot_ranges:
  assumes "slot_in_range i"
  shows "21000 \<le> as_hostPort (describeSlot i a) \<and> as_hostPort (describeSlot i a) < 21127 \<and>
    22000 \<le> as_extraPublicPort (describeSlot i a) \<and>
    as_extraPublicPort (describeSlot i a) < 22127 \<and>
    21127 \<le> waitingPort (as_hostPort (describeSlot i a)) \<and>
    waitingPort (as_hostPort (describeSlot i a)) < 21254 \<and>
    as_nbdDevicePath (describeSlot i a) \<noteq> EXPORT_READER_DEVICE_PATH"
  using assms
  by (auto simp: describeSlot_def Let_def slot_in_range_def slot_constants waitingPort_def
      EXPORT_READER_DEVICE_PATH_def nbdDevicePath_inj)

section \<open>The scan\<close>

lemma wrapped_mod: "wrapped offset = offset mod 127"
  by (simp add: wrapped_def SLOT_SPAN_def slot_constants js_rem_twice)

lemma wrapped_in_range: "slot_in_range (wrapped offset)"
  by (simp add: wrapped_mod slot_in_range_def slot_constants)

lemma scan_covers:
  assumes "slot_in_range k"
  shows "\<exists>step < 127. wrapped (from + int step) = k"
proof -
  let ?n = "nat ((k - from) mod 127)"
  have "int ?n = (k - from) mod 127" by simp
  then have "wrapped (from + int ?n) = (from + (k - from)) mod 127"
    by (simp add: wrapped_mod mod_add_right_eq)
  also have "\<dots> = k" using assms by (simp add: slot_in_range_def slot_constants)
  finally show ?thesis
    by (intro exI [of _ ?n]) (simp add: nat_less_iff)
qed

lemma describeSlot_device [simp]: "as_nbdDevicePath (describeSlot slot a) = nbdDevicePath slot"
  by (simp add: describeSlot_def Let_def)

lemma nextFree_def':
  "nextFree as from a ds =
     find (\<lambda>slot. slot \<notin> set (js_values as) \<and>
             (case ds of None \<Rightarrow> True | Some d \<Rightarrow> nbdDevicePath slot \<in> d))
       (map (\<lambda>step. wrapped (from + int step)) [0..<127])"
  by (cases ds) (simp_all add: nextFree_def SLOT_SPAN_def slot_constants Let_def)

lemma nextFree_Some:
  assumes "nextFree as from a ds = Some k"
  shows "slot_in_range k \<and> k \<notin> set (js_values as) \<and>
    (\<forall>d. ds = Some d \<longrightarrow> nbdDevicePath k \<in> d)"
proof -
  have "k \<in> set (map (\<lambda>step. wrapped (from + int step)) [0..<127])"
    "k \<notin> set (js_values as)" "case ds of None \<Rightarrow> True | Some d \<Rightarrow> nbdDevicePath k \<in> d"
    using find_Some_in [OF assms [unfolded nextFree_def']] by auto
  then show ?thesis using wrapped_in_range by (auto split: option.splits)
qed

lemma nextFree_None:
  assumes "nextFree as from a ds = None" and "slot_in_range k"
  shows "k \<in> set (js_values as) \<or> (\<exists>d. ds = Some d \<and> nbdDevicePath k \<notin> d)"
proof -
  obtain step where "step < 127" "wrapped (from + int step) = k"
    using scan_covers [OF assms(2)] by blast
  then have "k \<in> set (map (\<lambda>step. wrapped (from + int step)) [0..<127])" by force
  then show ?thesis
    using assms(1) unfolding nextFree_def' find_None_iff by (auto split: option.splits)
qed

lemma nextFree_first:
  assumes "nextFree as from a None = Some k"
  shows "\<exists>step < 127. k = wrapped (from + int step) \<and>
    (\<forall>earlier < step. wrapped (from + int earlier) \<in> set (js_values as))"
  using assms unfolding nextFree_def' find_Some_iff by auto

section \<open>The invariant of the table\<close>

definition slot_inv :: "slot_store \<Rightarrow> bool" where
  "slot_inv s \<longleftrightarrow> js_valid (ss_assignments s) \<and> distinct (js_values (ss_assignments s)) \<and>
     (\<forall>slot \<in> set (js_values (ss_assignments s)). slot_in_range slot)"

lemma distinct_values_set:
  assumes "distinct (js_values m)" and "v \<notin> set (js_values m)" and "js_get m k = None"
  shows "distinct (js_values (js_set k v m)) \<and>
    set (js_values (js_set k v m)) = insert v (set (js_values m))"
  using assms by (induction m) (auto split: if_splits)

lemma distinct_values_delete:
  "distinct (js_values m) \<Longrightarrow> distinct (js_values (js_delete k m))"
  by (induction m) (auto simp: AList.delete_eq)

lemma values_delete_subset: "set (js_values (js_delete k m)) \<subseteq> set (js_values m)"
  by (induction m) (auto simp: AList.delete_eq)

lemma allocate_cases:
  obtains (held) k where "js_get (ss_assignments s) a = Some k"
      "snd (allocate ds a s) = s"
      "fst (allocate ds a s) = Inr (describeSlot k a) \<or>
       fst (allocate ds a s) = Inl NbdAttachmentUnavailable \<and> ds \<noteq> None"
  | (full) "js_get (ss_assignments s) a = None"
      "nextFree (ss_assignments s) (ss_cursor s) a ds = None"
      "allocate ds a s = (Inl (if ds = None then SlotExhausted SLOT_COUNT
         else NbdAttachmentUnavailable), s)"
  | (fresh) k where "js_get (ss_assignments s) a = None"
      "nextFree (ss_assignments s) (ss_cursor s) a ds = Some k"
      "allocate ds a s = (Inr (describeSlot k a),
         s\<lparr>ss_assignments := js_set a k (ss_assignments s), ss_cursor := k + 1\<rparr>)"
  by (cases "js_get (ss_assignments s) a";
      cases "nextFree (ss_assignments s) (ss_cursor s) a ds")
    (auto simp: allocate_def withSlot_def reuseSlot_def split: option.splits)

lemma slot_inv_allocate: "slot_inv s \<Longrightarrow> slot_inv (snd (allocate ds a s))"
proof (cases rule: allocate_cases [of s a ds])
  case (fresh k)
  assume "slot_inv s"
  then show ?thesis
    using fresh nextFree_Some [OF fresh(2)] distinct_values_set [of "ss_assignments s" k a]
    by (auto simp: slot_inv_def)
qed auto

lemma slot_inv_release: "slot_inv s \<Longrightarrow> slot_inv (release a s)"
  using values_delete_subset [of a "ss_assignments s"]
  by (fastforce simp: slot_inv_def release_def distinct_values_delete)

lemma slot_inv_lookup_distinct:
  assumes "slot_inv s" "js_get (ss_assignments s) a = Some i"
    "js_get (ss_assignments s) b = Some j" "a \<noteq> b"
  shows "i \<noteq> j \<and> slot_in_range i \<and> slot_in_range j"
proof -
  have "(a, i) \<in> set (ss_assignments s)" "(b, j) \<in> set (ss_assignments s)"
    using assms by (auto dest: map_of_SomeD)
  moreover have "inj_on snd (set (ss_assignments s))"
    using assms(1) by (simp add: slot_inv_def distinct_map)
  ultimately show ?thesis
    using assms by (force simp: slot_inv_def inj_on_def)
qed

section \<open>The interface its clients rely on\<close>

locale slot_table =
  fixes alloc :: "'d \<Rightarrow> 'a \<Rightarrow> 's \<Rightarrow> ('e + 'slot) \<times> 's"
    and free :: "'a \<Rightarrow> 's \<Rightarrow> 's"
    and find_slot :: "'s \<Rightarrow> 'a \<Rightarrow> 'slot option"
    and ok :: "'s \<Rightarrow> bool"
    and clash :: "'slot \<Rightarrow> 'slot \<Rightarrow> bool"
  assumes ok_alloc: "ok s \<Longrightarrow> ok (snd (alloc d a s))"
    and ok_free: "ok s \<Longrightarrow> ok (free a s)"
    and alloc_other: "b \<noteq> a \<Longrightarrow> find_slot (snd (alloc d a s)) b = find_slot s b"
    and alloc_held: "find_slot s a = Some x \<Longrightarrow> find_slot (snd (alloc d a s)) a = Some x"
    and alloc_result: "fst (alloc d a s) = Inr x \<Longrightarrow> find_slot (snd (alloc d a s)) a = Some x"
    and free_other: "b \<noteq> a \<Longrightarrow> find_slot (free a s) b = find_slot s b"
    and apart: "ok s \<Longrightarrow> find_slot s a = Some x \<Longrightarrow> find_slot s b = Some y \<Longrightarrow> a \<noteq> b \<Longrightarrow> \<not> clash x y"
begin

text \<open>A history of the table: \<open>Inl\<close> an allocation, \<open>Inr\<close> a release.\<close>

primrec run :: "('d \<times> 'a + 'a) list \<Rightarrow> 's \<Rightarrow> 's" where
  "run [] s = s"
| "run (x # xs) s = run xs (case x of Inl (d, a) \<Rightarrow> snd (alloc d a s) | Inr a \<Rightarrow> free a s)"

lemma run_ok: "ok s \<Longrightarrow> ok (run xs s)"
  by (induction xs arbitrary: s) (auto simp: ok_alloc ok_free split: sum.splits)

lemma run_apart:
  "ok s \<Longrightarrow> find_slot (run xs s) a = Some x \<Longrightarrow> find_slot (run xs s) b = Some y \<Longrightarrow> a \<noteq> b \<Longrightarrow>
     \<not> clash x y"
  by (rule apart [OF run_ok])

lemma run_stable:
  "find_slot s a = Some x \<Longrightarrow> Inr a \<notin> set xs \<Longrightarrow> find_slot (run xs s) a = Some x"
proof (induction xs arbitrary: s)
  case Nil
  then show ?case by simp
next
  case (Cons op xs)
  show ?case
  proof (cases op)
    case (Inl p)
    obtain d b where p: "p = (d, b)" by (cases p)
    have "find_slot (snd (alloc d b s)) a = Some x"
      using Cons.prems(1) by (cases "a = b") (simp_all add: alloc_other alloc_held)
    then show ?thesis using Cons Inl p by simp
  next
    case (Inr b)
    then have "find_slot (free b s) a = Some x"
      using Cons.prems free_other [of a b s] by auto
    then show ?thesis using Cons Inr by simp
  qed
qed

end

text \<open>Two slots clash when they share anything a tenant is reached or served by.\<close>

definition slots_clash :: "AppSlot \<Rightarrow> AppSlot \<Rightarrow> bool" where
  "slots_clash x y \<longleftrightarrow>
     as_hostPort x = as_hostPort y \<or> as_extraPublicPort x = as_extraPublicPort y \<or>
     as_guestIpv4 x = as_guestIpv4 y \<or> as_hostIpv4 x = as_hostIpv4 y \<or>
     as_guestIpv4 x = as_hostIpv4 y \<or> as_tapName x = as_tapName y \<or>
     as_nbdDevicePath x = as_nbdDevicePath y"

interpretation slot_allocator: slot_table allocate release slot_lookup slot_inv slots_clash
proof unfold_locales
  fix s :: slot_store and d a
  assume "slot_inv s"
  then show "slot_inv (snd (allocate d a s))" by (rule slot_inv_allocate)
next
  fix s :: slot_store and a
  assume "slot_inv s"
  then show "slot_inv (release a s)" by (rule slot_inv_release)
next
  fix s :: slot_store and a b :: AppId and d
  assume "b \<noteq> a"
  then show "slot_lookup (snd (allocate d a s)) b = slot_lookup s b"
    by (cases rule: allocate_cases [of s a d]) (auto simp: slot_lookup_def withSlot_def)
next
  fix s :: slot_store and a d x
  assume "slot_lookup s a = Some x"
  then show "slot_lookup (snd (allocate d a s)) a = Some x"
    by (cases rule: allocate_cases [of s a d]) (auto simp: slot_lookup_def withSlot_def)
next
  fix s :: slot_store and a d x
  assume "fst (allocate d a s) = Inr x"
  then show "slot_lookup (snd (allocate d a s)) a = Some x"
    by (cases rule: allocate_cases [of s a d]) (auto simp: slot_lookup_def withSlot_def)
next
  fix s :: slot_store and a b :: AppId
  assume "b \<noteq> a"
  then show "slot_lookup (release a s) b = slot_lookup s b"
    by (simp add: slot_lookup_def release_def withSlot_def)
next
  fix s :: slot_store and a b :: AppId and x y
  assume "slot_inv s" "slot_lookup s a = Some x" "slot_lookup s b = Some y" "a \<noteq> b"
  then show "\<not> slots_clash x y"
    using slot_inv_lookup_distinct [of s a _ b] describeSlot_separate
    by (auto simp: slot_lookup_def withSlot_def slots_clash_def)
qed

fun slot_history ::
  "(string set option \<times> AppId + AppId) list \<Rightarrow> slot_store \<Rightarrow> slot_store" where
  "slot_history [] s = s"
| "slot_history (Inl (devices, appId) # xs) s = slot_history xs (snd (allocate devices appId s))"
| "slot_history (Inr appId # xs) s = slot_history xs (release appId s)"

lemma slot_history_run: "slot_history xs s = slot_allocator.run xs s"
  by (induction xs s rule: slot_history.induct) simp_all

section \<open>Loading\<close>

lemma assignmentsLoop_inv:
  assumes "assignmentsLoop v rs as taken = Inr as'"
    and "slot_inv \<lparr>ss_assignments = as, ss_cursor = c\<rparr>" and "taken = set (js_values as)"
    and "distinct (map fst rs)" and "\<forall>r \<in> set rs. js_get as (fst r) = None"
  shows "slot_inv \<lparr>ss_assignments = as', ss_cursor = c\<rparr>"
  using assms
proof (induction rs arbitrary: as taken)
  case Nil
  then show ?case by simp
next
  case (Cons r rs)
  obtain a k where r: "r = (a, k)" by (cases r)
  show ?case
  proof (cases "k < FIRST_SLOT \<or> k \<ge> SLOT_COUNT \<or> k \<in> taken")
    case True
    then show ?thesis using Cons r by auto
  next
    case False
    have step: "assignmentsLoop v rs (js_set a k as) (insert k taken) = Inr as'"
      using Cons.prems(1) False by (auto simp: r split: if_splits)
    have vals: "distinct (js_values (js_set a k as)) \<and>
        set (js_values (js_set a k as)) = insert k (set (js_values as))"
      using Cons.prems False r
      by (intro distinct_values_set) (auto simp: slot_inv_def)
    show ?thesis
    proof (rule Cons.IH [OF step])
      show "slot_inv \<lparr>ss_assignments = js_set a k as, ss_cursor = c\<rparr>"
        using vals Cons.prems(2) False by (auto simp: slot_inv_def slot_in_range_def)
      show "insert k taken = set (js_values (js_set a k as))" using vals Cons.prems(3) by simp
      show "distinct (map fst rs)" using Cons.prems(4) by simp
      show "\<forall>r \<in> set rs. js_get (js_set a k as) (fst r) = None"
        using Cons.prems(4,5) r by (auto simp: image_iff)
    qed
  qed
qed

lemma distinct_map_filter_keys:
  assumes "distinct (map fst es)" and "\<And>e x. f e = Some x \<Longrightarrow> fst x = fst e"
  shows "distinct (map fst (List.map_filter f es))"
proof -
  have "set (map fst (List.map_filter f es)) \<subseteq> set (map fst es)" for es
    using assms(2) by (force simp: List.map_filter_def)
  then show ?thesis
    using assms by (induction es) (auto simp: List.map_filter_simps split: option.splits)
qed

text \<open>The keys of a parsed object are distinct.\<close>

definition json_keys_distinct :: "json \<Rightarrow> bool" where
  "json_keys_distinct j = (case j of JObject es \<Rightarrow> distinct (map fst es) | _ \<Rightarrow> True)"

lemma readSlotRecords_distinct: "json_keys_distinct j \<Longrightarrow> distinct (map fst (readSlotRecords j))"
  by (auto simp: readSlotRecords_def json_keys_distinct_def split: json.splits
      intro!: distinct_map_filter_keys)

lemma load_slots_inv:
  assumes "load_slots v files = Inr s" and "json_keys_distinct (fst files)"
  shows "slot_inv s"
proof -
  obtain as where "assignmentsFrom v (readSlotRecords (fst files)) = Inr as"
    and s: "s = \<lparr>ss_assignments = as, ss_cursor = readSlotCursor (snd files)\<rparr>"
    using assms(1) by (auto simp: load_slots_def bind_result_Inr_iff)
  then show ?thesis
    using assignmentsLoop_inv [of v "readSlotRecords (fst files)" "[]" "{}" as]
      readSlotRecords_distinct [OF assms(2)]
    by (simp add: assignmentsFrom_def slot_inv_def)
qed

lemma readSlotRecords_persisted:
  "readSlotRecords (JObject (map (\<lambda>(a, k). (a, JInt k)) m)) = m"
  by (induction m) (auto simp: readSlotRecords_def List.map_filter_simps)

lemma js_set_fresh_append: "k \<notin> set (js_keys m) \<Longrightarrow> js_set k v m = m @ [(k, v)]"
  by (induction m) auto

lemma assignmentsLoop_id:
  assumes "distinct (js_keys (as @ rs))" and "distinct (js_values (as @ rs))"
    and "\<forall>slot \<in> set (js_values rs). slot_in_range slot"
    and "\<forall>a \<in> set (js_keys rs). v a"
  shows "assignmentsLoop v rs as (set (js_values as)) = Inr (as @ rs)"
  using assms
proof (induction rs arbitrary: as)
  case Nil
  then show ?case by simp
next
  case (Cons r rs)
  obtain a k where r: "r = (a, k)" by (cases r)
  have "assignmentsLoop v rs (as @ [(a, k)]) (set (js_values (as @ [(a, k)]))) =
      Inr ((as @ [(a, k)]) @ rs)"
    using Cons.prems r by (intro Cons.IH) auto
  then show ?case
    using Cons.prems r by (auto simp: js_set_fresh_append slot_in_range_def image_iff)
qed

text \<open>A table in which only the last slot is free.\<close>

definition almost_full :: "int \<Rightarrow> slot_store" where
  "almost_full cursor =
     \<lparr>ss_assignments = map (\<lambda>k. (replicate (k + 2) (CHR ''x''), int k)) [0..<126],
      ss_cursor = cursor\<rparr>"

lemma almost_full_values: "set (js_values (ss_assignments (almost_full c))) = {0..<126}"
proof -
  have "set (js_values (ss_assignments (almost_full c))) = int ` {0..<126}"
    by (simp only: almost_full_def slot_store.select_convs map_map comp_def snd_conv set_map set_upt)
  then show ?thesis by (simp only: image_int_atLeastLessThan) simp
qed

lemma almost_full_lookup: "js_get (ss_assignments (almost_full c)) [x] = None"
  by (auto simp: almost_full_def map_of_eq_None_iff simp del: upt_Suc)

lemma nextFree_almost_full: "nextFree (ss_assignments (almost_full c)) from a None = Some 126"
proof (cases "nextFree (ss_assignments (almost_full c)) from a None")
  case None
  then show ?thesis
    using nextFree_None [OF None, of 126] almost_full_values [of c]
    by (auto simp: slot_in_range_def slot_constants)
next
  case (Some k)
  then show ?thesis
    using nextFree_Some [OF Some] almost_full_values [of c]
    by (auto simp: slot_in_range_def slot_constants)
qed

lemma allocate_almost_full:
  "fst (allocate None [x] (almost_full c)) = Inr (describeSlot 126 [x])"
  "release [x] (snd (allocate None [x] (almost_full c))) = almost_full 127"
proof -
  show "fst (allocate None [x] (almost_full c)) = Inr (describeSlot 126 [x])"
    by (simp add: allocate_def withSlot_def almost_full_lookup nextFree_almost_full)
  have "js_delete [x] (js_set [x] 126 (ss_assignments (almost_full c))) =
      ss_assignments (almost_full c)"
    using almost_full_lookup [of c x]
    by (simp add: js_set_fresh_append AList.delete_eq map_of_eq_None_iff)
      (auto simp: image_iff intro!: filter_True)
  then show "release [x] (snd (allocate None [x] (almost_full c))) = almost_full 127"
    by (simp add: allocate_def withSlot_def almost_full_lookup nextFree_almost_full release_def)
      (simp add: almost_full_def)
qed

section \<open>Properties\<close>

text \<open>
  C31. One tenant is never routed into another: start from whatever slot file the host finds on disk
  and run any history of allocations and releases; two different apps that hold slots then share no
  host port, no public port, no guest or host address, no tap and no NBD device.
\<close>

theorem slots_never_shared:
  assumes "load_slots validId files = Inr s" and "json_keys_distinct (fst files)"
    and "slot_lookup (slot_history ops s) a = Some x"
    and "slot_lookup (slot_history ops s) b = Some y" and "a \<noteq> b"
  shows "\<not> slots_clash x y"
  using slot_allocator.run_apart [OF load_slots_inv [OF assms(1,2)]] assms(3,4,5)
  by (simp add: slot_history_run)

definition slot_file_example :: "json \<times> json" where
  "slot_file_example =
     (JObject [(''a'', JInt 3), (''b'', JInt 3), (''c'', JInt 200), (''d'', JFraction ''1.5'')],
      JInt (- 1))"

theorem slots_never_shared_witness:
  "\<not> slots_clash (describeSlot 3 ''a'') (describeSlot 126 ''b'')"
  by (rule slots_never_shared
      [where validId = "\<lambda>_. True" and files = slot_file_example
         and s = "\<lparr>ss_assignments = [(''a'', 3)], ss_cursor = - 1\<rparr>"
         and ops = "[Inl (None, ''b'')]" and a = "''a''" and b = "''b''"])
    (simp_all add: load_slots_def slot_file_example_def readSlotRecords_def readSlotCursor_def
      assignmentsFrom_def slot_constants List.map_filter_simps json_keys_distinct_def
      slot_lookup_def withSlot_def allocate_def nextFree_def SLOT_SPAN_def wrapped_mod
      upt_conv_Cons)

text \<open>
  A redeploy is invisible to routing: an app that holds a slot keeps exactly that slot through
  any history of allocations and of other apps' releases; only its own release lets go of it.
\<close>

theorem slot_stable_until_release:
  assumes "slot_lookup s a = Some x" and "Inr a \<notin> set ops"
  shows "slot_lookup (slot_history ops s) a = Some x"
  unfolding slot_history_run using assms by (rule slot_allocator.run_stable)

theorem slot_stable_until_release_witness:
  "slot_lookup (slot_history [Inl (None, ''a''), Inr ''b'']
     \<lparr>ss_assignments = [(''a'', 5)], ss_cursor = 0\<rparr>) ''a'' = Some (describeSlot 5 ''a'')"
  by (rule slot_stable_until_release) (simp_all add: slot_lookup_def withSlot_def)

text \<open>
  The table is used in full and never beyond: an allocation with no device restriction fails only
  when every one of the 127 slots is held by some app, and otherwise hands out a slot in range, on a
  device that is not the export reader's, that nobody held.
\<close>

theorem allocate_complete:
  assumes "slot_inv s"
  shows "(case fst (allocate None a s) of
      Inl e \<Rightarrow> e = SlotExhausted SLOT_COUNT \<and>
        (\<forall>k. slot_in_range k \<longrightarrow> k \<in> set (js_values (ss_assignments s)))
    | Inr x \<Rightarrow> slot_in_range (as_slot x) \<and> as_nbdDevicePath x \<noteq> EXPORT_READER_DEVICE_PATH \<and>
        (slot_lookup s a = Some x \<or> as_slot x \<notin> set (js_values (ss_assignments s))))"
proof (cases rule: allocate_cases [of s a None])
  case (held k)
  then have "slot_in_range k"
    using assms js_get_in_values by (fastforce simp: slot_inv_def)
  then show ?thesis
    using held describeSlot_ranges [of k a]
    by (auto simp: describeSlot_def Let_def slot_lookup_def withSlot_def)
next
  case full
  then show ?thesis using nextFree_None [OF full(2)] by auto
next
  case (fresh k)
  then show ?thesis
    using nextFree_Some [OF fresh(2)] describeSlot_ranges [of k a]
    by (auto simp: describeSlot_def Let_def)
qed

theorem allocate_complete_witness:
  "slot_in_range (as_slot (describeSlot 7 ''a''))"
  using allocate_complete [of "\<lparr>ss_assignments = [], ss_cursor = 7\<rparr>" "''a''"]
  by (simp add: slot_inv_def allocate_def withSlot_def nextFree_def SLOT_SPAN_def wrapped_mod
      slot_constants upt_conv_Cons)

text \<open>
  A freed slot waits for the cursor to come round: when an app that was just given a fresh slot
  releases it, the next allocation hands that slot out again only if every other slot is held.
\<close>

theorem freed_slot_reused_last:
  assumes "fst (allocate None a s) = Inr x" and "slot_lookup s a = None"
    and "fst (allocate None b (release a (snd (allocate None a s)))) = Inr y"
    and "slot_lookup (release a (snd (allocate None a s))) b = None"
    and "as_slot y = as_slot x" and "slot_in_range k" and "k \<noteq> as_slot x"
  shows "k \<in> set (js_values (ss_assignments (release a (snd (allocate None a s)))))"
proof -
  let ?s = "release a (snd (allocate None a s))"
  obtain i where i: "x = describeSlot i a" "ss_cursor (snd (allocate None a s)) = i + 1"
      "slot_in_range i"
    using assms(1,2) by (cases rule: allocate_cases [of s a None])
      (auto simp: slot_lookup_def withSlot_def dest: nextFree_Some)
  have c: "ss_cursor ?s = i + 1" using i by (simp add: release_def)
  have first: "nextFree (ss_assignments ?s) (i + 1) b None = Some i"
    using assms(3,4,5) c i
    by (cases rule: allocate_cases [of ?s b None])
      (auto simp: slot_lookup_def withSlot_def describeSlot_def Let_def)
  obtain step where step: "step < 127" "i = (i + 1 + int step) mod 127"
      "\<forall>earlier < step. (i + 1 + int earlier) mod 127 \<in> set (js_values (ss_assignments ?s))"
    using nextFree_first [OF first] unfolding wrapped_mod by blast
  have range: "0 \<le> i" "i < 127" "0 \<le> k" "k < 127" "k \<noteq> i"
    using i assms(6,7) by (auto simp: slot_in_range_def slot_constants describeSlot_def Let_def)
  have "step = 126" using step(1,2) range by presburger
  moreover define e where "e = nat (if i < k then k - i - 1 else k - i + 126)"
  have e: "int e = (if i < k then k - i - 1 else k - i + 126)" "e < 126"
    using range by (auto simp: e_def)
  have "i + 1 + int e = (if i < k then k else k + 127)" unfolding e(1) by simp
  then have "(i + 1 + int e) mod 127 = k" using range by simp
  moreover note e(2)
  ultimately show ?thesis using step(3) by metis
qed

theorem freed_slot_reused_last_witness:
  "(0 :: int) \<in> set (js_values (ss_assignments
     (release ''a'' (snd (allocate None ''a'' (almost_full 0))))))"
proof (rule freed_slot_reused_last
    [where a = "''a''" and b = "''b''" and x = "describeSlot 126 ''a''"
       and y = "describeSlot 126 ''b''"])
  show "slot_lookup (almost_full 0) ''a'' = None"
    by (simp add: slot_lookup_def withSlot_def almost_full_lookup)
  show "slot_lookup (release ''a'' (snd (allocate None ''a'' (almost_full 0)))) ''b'' = None"
    by (simp add: allocate_almost_full slot_lookup_def withSlot_def almost_full_lookup)
qed (simp_all add: allocate_almost_full describeSlot_def Let_def slot_in_range_def slot_constants)

text \<open>
  Slots survive a restart: for a table the allocator could have built over valid ids, reading
  back what \<open>persist\<close> wrote gives the same table and the same cursor.
\<close>

theorem slots_persist_load:
  assumes "slot_inv s" and "\<forall>a \<in> set (js_keys (ss_assignments s)). validId a"
  shows "load_slots validId (persist_slots s) = Inr s"
  using assms assignmentsLoop_id [of "[]" "ss_assignments s" validId]
  by (simp add: load_slots_def persist_slots_def readSlotRecords_persisted assignmentsFrom_def
      slot_inv_def js_valid_def readSlotCursor_def)

theorem slots_persist_load_witness:
  "load_slots (\<lambda>_. True) (persist_slots \<lparr>ss_assignments = [(''a'', 4), (''b'', 0)], ss_cursor = 5\<rparr>) =
     Inr \<lparr>ss_assignments = [(''a'', 4), (''b'', 0)], ss_cursor = 5\<rparr>"
  by (rule slots_persist_load)
    (simp_all add: slot_inv_def js_valid_def slot_in_range_def slot_constants)

end
