(* ===== verification/Instance_Record.thy ===== *)
theory Instance_Record
  imports Health Recovery Slots
begin

text \<open>
  What the agent notes about an app and what it makes of the notes:
  \<open>apps/agent/src/lib/report/instance-record.ts\<close>, \<open>report/routes.ts\<close>, \<open>report/capacity.ts\<close> and
  \<open>report/build-report.ts\<close>.

  An optional property of a TypeScript object is an \<open>option\<close> field, absent is \<open>None\<close>. Sizes of the
  host (memory, disk, the ZeroFS caches) are read from the operating system and are arguments.
\<close>

section \<open>The record\<close>

record InstanceRecord =
  ir_appId :: AppId
  ir_deploymentId :: DeploymentId
  ir_volumeId :: VolumeId
  ir_hostnames :: "AppHostname list"
  ir_hostPort :: HostPort
  ir_httpPort :: HttpPort
  ir_hasExtraPublicPort :: "bool option"
  ir_guestIpv4 :: Ipv4Address
  ir_artifactDigest :: Sha256Digest
  ir_state :: InstanceState
  ir_health :: HealthTracker
  ir_healthCheck :: HealthCheck
  ir_resources :: InstanceResources
  ir_desiredRunning :: bool
  ir_onRequest :: bool
  ir_restartCount :: int
  ir_recovery :: "VmRecovery option"
  ir_stopRequested :: bool
  ir_startedAt :: "Timestamp option"
  ir_lastExitCode :: "int option"
  ir_message :: "string option"

definition NO_RESTARTS :: int where "NO_RESTARTS = 0"

definition newInstanceRecord :: "InstanceRecord \<Rightarrow> InstanceRecord" where
  "newInstanceRecord record =
     record\<lparr>ir_restartCount := NO_RESTARTS, ir_stopRequested := False\<rparr>"

definition isIdle :: "InstanceRecord option \<Rightarrow> bool" where
  "isIdle record = (map_option ir_state record = Some Idle)"

text \<open>\<open>graceInputs\<close>: the health check, the start as a clock reading, and now.\<close>

definition graceInputs :: "InstanceRecord \<Rightarrow> int \<Rightarrow> HealthCheck \<times> int option \<times> int" where
  "graceInputs record nowMs = (ir_healthCheck record, ir_startedAt record, nowMs)"

section \<open>Reading the notes back\<close>

definition json_isObject :: "json \<Rightarrow> bool" where
  "json_isObject value = (case value of JObject _ \<Rightarrow> True | _ \<Rightarrow> False)"

definition json_field :: "json \<Rightarrow> string \<Rightarrow> json option" where
  "json_field value name = (case value of JObject es \<Rightarrow> map_of es name | _ \<Rightarrow> None)"

definition json_isString :: "json option \<Rightarrow> bool" where
  "json_isString value = (case value of Some (JString _) \<Rightarrow> True | _ \<Rightarrow> False)"

definition json_isNumber :: "json option \<Rightarrow> bool" where
  "json_isNumber value =
     (case value of Some (JInt _) \<Rightarrow> True | Some (JFraction _) \<Rightarrow> True | _ \<Rightarrow> False)"

definition json_isArray :: "json option \<Rightarrow> bool" where
  "json_isArray value = (case value of Some (JArray _) \<Rightarrow> True | _ \<Rightarrow> False)"

text \<open>\<open>isVmFailure\<close> and \<open>isVmRecovery\<close>. A number of a file is taken to be in the range of a double,
  so \<open>Number.isFinite\<close> holds of every number read.\<close>

definition isVmFailure :: "json \<Rightarrow> bool" where
  "isVmFailure value \<longleftrightarrow>
     json_isString (json_field value ''message'') \<and>
     (case json_field value ''retryable'' of Some (JBool _) \<Rightarrow> True | _ \<Rightarrow> False) \<and>
     json_isString (json_field value ''kind'')"

definition isVmRecovery :: "json \<Rightarrow> bool" where
  "isVmRecovery value \<longleftrightarrow>
     (case json_field value ''attempts'' of Some (JInt n) \<Rightarrow> 0 \<le> n | _ \<Rightarrow> False) \<and>
     (json_field value ''nextAttemptAtMs'' = None \<or>
      json_isNumber (json_field value ''nextAttemptAtMs'')) \<and>
     (json_field value ''healthySinceMs'' = None \<or>
      json_isNumber (json_field value ''healthySinceMs'')) \<and>
     (case json_field value ''failure'' of None \<Rightarrow> True | Some v \<Rightarrow> isVmFailure v)"

definition REQUIRED_STRING_FIELDS :: "string list" where
  "REQUIRED_STRING_FIELDS =
     [''appId'', ''appId'', ''deploymentId'', ''volumeId'', ''guestIpv4'', ''artifactDigest'',
      ''state'']"

definition REQUIRED_NUMBER_FIELDS :: "string list" where
  "REQUIRED_NUMBER_FIELDS = [''hostPort'', ''httpPort'', ''restartCount'']"

definition isInstanceRecord :: "json \<Rightarrow> bool" where
  "isInstanceRecord value =
     (if \<not> json_isObject value then False
      else list_all (\<lambda>field. json_isString (json_field value field)) REQUIRED_STRING_FIELDS \<and>
        list_all (\<lambda>field. json_isNumber (json_field value field)) REQUIRED_NUMBER_FIELDS \<and>
        json_isArray (json_field value ''hostnames'') \<and>
        (case json_field value ''health'' of None \<Rightarrow> False | Some v \<Rightarrow> json_isObject v) \<and>
        (case json_field value ''recovery'' of None \<Rightarrow> True | Some v \<Rightarrow> isVmRecovery v))"

definition withRenamedPort :: "json \<Rightarrow> json" where
  "withRenamedPort record =
     (case record of
        JObject es \<Rightarrow>
          (case map_of es ''guestPort'' of
             Some guestPort \<Rightarrow>
               if map_of es ''httpPort'' \<noteq> None then record
               else JObject (js_set ''httpPort'' guestPort (js_delete ''guestPort'' es))
           | None \<Rightarrow> record)
      | _ \<Rightarrow> record)"

definition readInstanceRecords :: "json \<Rightarrow> json list" where
  "readInstanceRecords value =
     (case value of
        JArray entries \<Rightarrow>
          filter isInstanceRecord
            (map (\<lambda>entry. if json_isObject entry then withRenamedPort entry else entry) entries)
      | _ \<Rightarrow> [])"

section \<open>Routes\<close>

record RouteTarget =
  rt_appId :: AppId
  rt_hostnames :: "AppHostname list"
  rt_hostPort :: HostPort

definition renderableRoutes ::
  "InstanceRecord list \<Rightarrow> (AppId, InstanceRecord) jsmap \<Rightarrow> RouteTarget list" where
  "renderableRoutes records replacing =
     (let held = js_set_all (map (\<lambda>record. (ir_appId record, record)) records) replacing
      in map (\<lambda>record.
           \<lparr>rt_appId = ir_appId record, rt_hostnames = ir_hostnames record,
            rt_hostPort =
              (if js_has replacing (ir_appId record) \<or> ir_state record = Pending \<or>
                  ir_state record = Starting
               then waitingPort (ir_hostPort record) else ir_hostPort record)\<rparr>)
         (filter (\<lambda>record. length (ir_hostnames record) > 0) (js_values held)))"

section \<open>Capacity\<close>

definition BYTES_PER_MIB :: int where "BYTES_PER_MIB = 1048576"

definition HOST_BASELINE_MIB :: int where "HOST_BASELINE_MIB = 640"

definition ASSUMED_ZEROFS_CACHE_MIB :: int where "ASSUMED_ZEROFS_CACHE_MIB = 2048"

definition readHostMemoryMib :: "int \<Rightarrow> int" where
  "readHostMemoryMib totalmem = totalmem div BYTES_PER_MIB"

definition guestMemoryMib :: "int \<Rightarrow> int \<Rightarrow> int" where
  "guestMemoryMib hostMemoryMib zerofsCacheMib =
     max (hostMemoryMib - zerofsCacheMib - HOST_BASELINE_MIB) 0"

definition ceil_div :: "int \<Rightarrow> int \<Rightarrow> int" where
  "ceil_div a b = - ((- a) div b)"

text \<open>\<open>readGuestMemoryMib\<close> on what the two cache readings gave, \<open>None\<close> a reading that failed.\<close>

definition readGuestMemoryMib :: "int \<Rightarrow> int option \<Rightarrow> int option \<Rightarrow> int" where
  "readGuestMemoryMib totalmem configured apps =
     (case apps of
        None \<Rightarrow> 0
      | Some appBytes \<Rightarrow>
          guestMemoryMib (readHostMemoryMib totalmem)
            ((case configured of
                None \<Rightarrow> ASSUMED_ZEROFS_CACHE_MIB
              | Some bytes \<Rightarrow> ceil_div bytes BYTES_PER_MIB) + ceil_div appBytes BYTES_PER_MIB))"

definition HOLDS_NOTHING :: "InstanceState list" where
  "HOLDS_NOTHING = [Idle, Stopped, Failed]"

definition committedResources :: "InstanceRecord list \<Rightarrow> InstanceResources list" where
  "committedResources records =
     map ir_resources (filter (\<lambda>record. ir_state record \<notin> set HOLDS_NOTHING) records)"

definition committedMemoryMib :: "InstanceResources list \<Rightarrow> int" where
  "committedMemoryMib committed = sum_list (map memoryMib committed)"

definition allocatableCapacity ::
  "HostCapacity \<Rightarrow> InstanceResources list \<Rightarrow> int \<Rightarrow> HostCapacity" where
  "allocatableCapacity capacity committed availableCacheBytes =
     (let usedVcpu = sum_list (map vcpuCount committed)
      in \<lparr>cap_vcpuCount = max (cap_vcpuCount capacity - usedVcpu) 0,
          cap_memoryMib = max (cap_memoryMib capacity - committedMemoryMib committed) 0,
          cap_cacheBytes = max (min availableCacheBytes (cap_cacheBytes capacity)) 0\<rparr>)"

definition memoryShortfallMib :: "int \<Rightarrow> InstanceResources list \<Rightarrow> InstanceResources \<Rightarrow> int" where
  "memoryShortfallMib hostMemoryMib committed wanted =
     max (committedMemoryMib committed + memoryMib wanted - hostMemoryMib) 0"

section \<open>The report\<close>

record PublicAddress =
  pa_ipv4 :: Ipv4Address
  pa_port :: HostPort

text \<open>The compute share is a quotient the report only carries, so its type is a parameter.\<close>

record 'share ComputeUsage =
  cu_memoryTotalBytes :: int
  cu_memoryUsedBytes :: int
  cu_cpuShare :: "'share option"
  cu_measuredAt :: Timestamp

record 'share ReportedInstance =
  ri_appId :: AppId
  ri_deploymentId :: DeploymentId
  ri_state :: InstanceState
  ri_hostPort :: "HostPort option"
  ri_guestIpv4 :: "Ipv4Address option"
  ri_publicIpv4 :: "Ipv4Address option"
  ri_extraPublicPort :: "HostPort option"
  ri_artifactDigest :: "Sha256Digest option"
  ri_restartCount :: int
  ri_startedAt :: "Timestamp option"
  ri_lastHealthyAt :: "Timestamp option"
  ri_lastExitCode :: "int option"
  ri_compute :: "'share ComputeUsage option"
  ri_message :: "string option"

definition toReportedInstance ::
  "InstanceRecord \<Rightarrow> PublicAddress option \<Rightarrow> 'share ComputeUsage option \<Rightarrow>
     'share ReportedInstance" where
  "toReportedInstance record reachedAt measured =
     \<lparr>ri_appId = ir_appId record, ri_deploymentId = ir_deploymentId record,
      ri_state = ir_state record, ri_hostPort = Some (ir_hostPort record),
      ri_guestIpv4 = Some (ir_guestIpv4 record),
      ri_publicIpv4 = map_option pa_ipv4 reachedAt,
      ri_extraPublicPort = map_option pa_port reachedAt,
      ri_artifactDigest = Some (ir_artifactDigest record),
      ri_restartCount = ir_restartCount record,
      ri_startedAt = ir_startedAt record,
      ri_lastHealthyAt = ht_lastHealthyAt (ir_health record),
      ri_lastExitCode = ir_lastExitCode record,
      ri_compute = measured,
      ri_message = (case ir_message record of None \<Rightarrow> None
        | Some m \<Rightarrow> if m = [] then None else Some m)\<rparr>"

definition withUsage :: "ReportedVolume \<Rightarrow> FilesystemUsage option \<Rightarrow> ReportedVolume" where
  "withUsage volume measured =
     (case measured of None \<Rightarrow> volume | Some usage \<Rightarrow> volume\<lparr>rv_usage := Some usage\<rparr>)"

record 'share HostReportedState =
  hr_hostId :: HostId
  hr_reportedAt :: Timestamp
  hr_state :: HostState
  hr_capacity :: HostCapacity
  hr_allocatable :: HostCapacity
  hr_versions :: HostVersions
  hr_volumes :: "ReportedVolume list"
  hr_instances :: "'share ReportedInstance list"
  hr_checkpoints :: "ReportedCheckpoint list"
  hr_exports :: "ReportedExport list"

definition buildReportedState ::
  "HostId \<Rightarrow> Timestamp \<Rightarrow> HostState \<Rightarrow> HostCapacity \<Rightarrow> HostCapacity \<Rightarrow> HostVersions \<Rightarrow>
     InstanceRecord list \<Rightarrow> (AppId, PublicAddress) jsmap \<Rightarrow> ReportedVolume list \<Rightarrow>
     (AppId, FilesystemUsage) jsmap \<Rightarrow> (AppId, 'share ComputeUsage) jsmap \<Rightarrow>
     ReportedCheckpoint list \<Rightarrow> ReportedExport list \<Rightarrow> 'share HostReportedState" where
  "buildReportedState hostId reportedAt state capacity allocatable versions records reachedAt
     volumes volumeUsage computeUsage checkpoints exports =
     \<lparr>hr_hostId = hostId, hr_reportedAt = reportedAt, hr_state = state,
      hr_capacity = capacity, hr_allocatable = allocatable, hr_versions = versions,
      hr_volumes = map (\<lambda>volume. withUsage volume (js_get volumeUsage (rv_appId volume))) volumes,
      hr_instances = map (\<lambda>record. toReportedInstance record
        (js_get reachedAt (ir_appId record)) (js_get computeUsage (ir_appId record))) records,
      hr_checkpoints = checkpoints, hr_exports = exports\<rparr>"

section \<open>Lemmas\<close>

text \<open>A map of records is keyed by the app each record is about.\<close>

abbreviation keyed_by_app :: "(AppId, InstanceRecord) jsmap \<Rightarrow> bool" where
  "keyed_by_app \<equiv> js_keyed ir_appId"

text \<open>The record an app is routed by: the newest one in the store, else the one being replaced.\<close>

definition routed_record ::
  "InstanceRecord list \<Rightarrow> (AppId, InstanceRecord) jsmap \<Rightarrow> AppId \<Rightarrow> InstanceRecord option" where
  "routed_record records replacing a =
     (case find (\<lambda>r. ir_appId r = a) (rev records) of
        None \<Rightarrow> js_get replacing a | Some r \<Rightarrow> Some r)"

definition route_port :: "bool \<Rightarrow> InstanceRecord \<Rightarrow> HostPort" where
  "route_port isReplacing r =
     (if isReplacing \<or> ir_state r \<in> {Pending, Starting} then waitingPort (ir_hostPort r)
      else ir_hostPort r)"

definition route_of :: "(AppId, InstanceRecord) jsmap \<Rightarrow> InstanceRecord \<Rightarrow> RouteTarget" where
  "route_of replacing r =
     \<lparr>rt_appId = ir_appId r, rt_hostnames = ir_hostnames r,
      rt_hostPort = route_port (js_has replacing (ir_appId r)) r\<rparr>"

lemma rt_appId_route_of [simp]: "rt_appId (route_of replacing r) = ir_appId r"
  by (simp add: route_of_def)

lemma renderableRoutes_route_of:
  "renderableRoutes records replacing =
     map (route_of replacing) (filter (\<lambda>r. ir_hostnames r \<noteq> [])
       (js_values (js_set_all (map (\<lambda>r. (ir_appId r, r)) records) replacing)))"
  by (simp add: renderableRoutes_def Let_def route_of_def [abs_def] route_port_def)

lemma held_values:
  assumes "keyed_by_app replacing"
  shows "r \<in> set (js_values (js_set_all (map (\<lambda>r. (ir_appId r, r)) records) replacing)) \<longleftrightarrow>
    routed_record records replacing (ir_appId r) = Some r"
  using js_keyed_values(2) [OF js_keyed_set_all [OF assms, of records], of r]
  unfolding routed_record_def js_set_all_keyed .

lemma renderableRoutes_mem:
  assumes "keyed_by_app replacing"
  shows "t \<in> set (renderableRoutes records replacing) \<longleftrightarrow>
    (\<exists>r. routed_record records replacing (ir_appId r) = Some r \<and> ir_hostnames r \<noteq> [] \<and>
       t = route_of replacing r)"
  unfolding renderableRoutes_route_of set_map [of "route_of replacing"] set_filter
    held_values [OF assms] image_iff Bex_def mem_Collect_eq
  by blast

lemma renderableRoutes_distinct:
  assumes "keyed_by_app replacing"
  shows "distinct (map rt_appId (renderableRoutes records replacing))"
proof -
  let ?held = "js_values (js_set_all (map (\<lambda>r. (ir_appId r, r)) records) replacing)"
  have "distinct (map ir_appId ?held)"
    by (intro js_keyed_distinct js_keyed_set_all assms)
  moreover have "map rt_appId (renderableRoutes records replacing) =
      map ir_appId (filter (\<lambda>r. ir_hostnames r \<noteq> []) ?held)"
    unfolding renderableRoutes_route_of map_map comp_def by simp
  ultimately show ?thesis by (simp only: distinct_map_filter)
qed

lemma routed_record_app:
  assumes "keyed_by_app replacing" and "routed_record records replacing a = Some r"
  shows "ir_appId r = a"
proof (cases "find (\<lambda>r. ir_appId r = a) (rev records)")
  case None
  with assms(2) have "js_get replacing a = Some r" by (simp add: routed_record_def)
  with assms(1) show ?thesis by (rule js_keyed_get)
next
  case (Some x)
  with assms(2) show ?thesis using find_Some_in [OF Some] by (simp add: routed_record_def)
qed

section \<open>Properties\<close>

text \<open>
  Caddy is given exactly one route per app that has a hostname: the app's newest record decides,
  a record being replaced stands in until there is one, and the port is the waiting listener's for an
  app that is being replaced, pending or starting, and the guest's own otherwise.
\<close>

theorem routes_rendered_once:
  assumes "keyed_by_app replacing"
  shows "distinct (map rt_appId (renderableRoutes records replacing)) \<and>
    (\<forall>a. (\<exists>t \<in> set (renderableRoutes records replacing). rt_appId t = a) \<longleftrightarrow>
       (\<exists>r. routed_record records replacing a = Some r \<and> ir_hostnames r \<noteq> [])) \<and>
    (\<forall>t \<in> set (renderableRoutes records replacing). \<forall>r.
       routed_record records replacing (rt_appId t) = Some r \<longrightarrow>
       rt_hostnames t = ir_hostnames r \<and>
       rt_hostPort t =
         (if js_has replacing (rt_appId t) \<or> ir_state r = Pending \<or> ir_state r = Starting
          then ir_hostPort r + 127 else ir_hostPort r))"
proof (intro conjI allI ballI impI)
  show "distinct (map rt_appId (renderableRoutes records replacing))"
    using assms by (rule renderableRoutes_distinct)
  show "(\<exists>t \<in> set (renderableRoutes records replacing). rt_appId t = a) \<longleftrightarrow>
      (\<exists>r. routed_record records replacing a = Some r \<and> ir_hostnames r \<noteq> [])" for a
  proof
    assume "\<exists>t \<in> set (renderableRoutes records replacing). rt_appId t = a"
    then show "\<exists>r. routed_record records replacing a = Some r \<and> ir_hostnames r \<noteq> []"
      unfolding Bex_def renderableRoutes_mem [OF assms] by (elim exE conjE) (intro exI conjI, simp_all)
  next
    assume "\<exists>r. routed_record records replacing a = Some r \<and> ir_hostnames r \<noteq> []"
    then obtain r where r: "routed_record records replacing a = Some r" "ir_hostnames r \<noteq> []"
      by blast
    then have "ir_appId r = a" using routed_record_app [OF assms] by blast
    with r show "\<exists>t \<in> set (renderableRoutes records replacing). rt_appId t = a"
      by (intro bexI [of _ "route_of replacing r"]) (simp, unfold renderableRoutes_mem [OF assms], blast)
  qed
next
  fix t r
  assume "t \<in> set (renderableRoutes records replacing)"
    and r: "routed_record records replacing (rt_appId t) = Some r"
  then have t: "t = route_of replacing r"
    unfolding renderableRoutes_mem [OF assms] by (elim exE conjE) simp
  then show "rt_hostnames t = ir_hostnames r" by (simp add: route_of_def)
  show "rt_hostPort t =
      (if js_has replacing (rt_appId t) \<or> ir_state r = Pending \<or> ir_state r = Starting
       then ir_hostPort r + 127 else ir_hostPort r)"
    by (simp add: t route_of_def route_port_def waitingPort_def slot_constants)
qed

definition record_example :: InstanceRecord where
  "record_example =
     \<lparr>ir_appId = ''a'', ir_deploymentId = ''d'', ir_volumeId = ''v'',
      ir_hostnames = [\<lparr>hn_hostname = ''a.example.com'', hn_kind = PlatformHostname\<rparr>],
      ir_hostPort = 21003, ir_httpPort = 8080, ir_hasExtraPublicPort = None,
      ir_guestIpv4 = ''10.201.0.14'', ir_artifactDigest = ''abc'', ir_state = Running,
      ir_health = initialTracker,
      ir_healthCheck = \<lparr>hc_path = None, hc_intervalMs = 5000, hc_timeoutMs = 1000,
        hc_gracePeriodMs = 10000, hc_healthyThreshold = 1, hc_unhealthyThreshold = 3\<rparr>,
      ir_resources = \<lparr>vcpuCount = 1, memoryMib = 256\<rparr>,
      ir_desiredRunning = True, ir_onRequest = False, ir_restartCount = 0, ir_recovery = None,
      ir_stopRequested = False, ir_startedAt = Some 5, ir_lastExitCode = None,
      ir_message = None\<rparr>"

theorem routes_rendered_once_witness:
  "map rt_hostPort (renderableRoutes [record_example] [(''a'', record_example)]) = [21130] \<and>
   distinct (map rt_appId (renderableRoutes [record_example] [(''a'', record_example)]))"
proof
  have "keyed_by_app [(''a'', record_example)]"
    by (simp add: js_keyed_def js_valid_def) (simp add: record_example_def)
  from conjunct1 [OF routes_rendered_once [OF this]]
  show "distinct (map rt_appId (renderableRoutes [record_example] [(''a'', record_example)]))" .
  show "map rt_hostPort (renderableRoutes [record_example] [(''a'', record_example)]) = [21130]"
    by (simp add: record_example_def renderableRoutes_def Let_def
      js_set_all_def js_has_def waitingPort_def slot_constants)
qed

text \<open>
  A wake is refused by the measure the host reports: for a microVM that asks for memory there is
  no shortfall exactly when it fits what \<open>allocatableCapacity\<close> tells the control plane, and once it
  is counted in, the memory committed on the host is still within what guests may be given.
\<close>

theorem shortfall_agrees_with_report:
  assumes "0 < memoryMib wanted"
  shows "(memoryShortfallMib (cap_memoryMib capacity) (committedResources records) wanted = 0 \<longleftrightarrow>
      memoryMib wanted \<le>
        cap_memoryMib (allocatableCapacity capacity (committedResources records) cacheBytes)) \<and>
    (memoryShortfallMib (cap_memoryMib capacity) (committedResources records) wanted = 0 \<and>
      ir_resources r = wanted \<longrightarrow>
      committedMemoryMib (committedResources (r # records)) \<le>
        max (cap_memoryMib capacity) (committedMemoryMib (committedResources records)))"
  using assms
  by (auto simp: memoryShortfallMib_def allocatableCapacity_def Let_def committedResources_def
      committedMemoryMib_def)

theorem shortfall_agrees_with_report_witness:
  "memoryShortfallMib 512 (committedResources [record_example]) \<lparr>vcpuCount = 1, memoryMib = 256\<rparr> = 0"
  using shortfall_agrees_with_report
    [of "\<lparr>vcpuCount = 1, memoryMib = 256\<rparr>"
        "\<lparr>cap_vcpuCount = 4, cap_memoryMib = 512, cap_cacheBytes = 0\<rparr>" "[record_example]" 0]
  by (simp add: allocatableCapacity_def Let_def committedResources_def committedMemoryMib_def
      HOLDS_NOTHING_def record_example_def)

text \<open>
  The agent that lands the rename of \<open>guestPort\<close> drops no note it could still read: an entry
  written under the old name, and otherwise complete, is read back as a record whose \<open>httpPort\<close> is
  that port and whose other fields are unchanged; and an entry already under the new name that
  passes the guard is read back as it stands.
\<close>

theorem renamed_notes_kept:
  assumes "entry = JObject es" and "map_of es ''guestPort'' = Some port" and "json_isNumber (Some port)"
    and "map_of es ''httpPort'' = None"
    and "isInstanceRecord (JObject (js_set ''httpPort'' (JInt 0) es))"
    and "isInstanceRecord kept" and "json_field kept ''guestPort'' = None"
  shows "\<exists>read. readInstanceRecords (JArray [entry, kept]) = [read, kept] \<and>
    json_field read ''httpPort'' = Some port \<and> json_field read ''guestPort'' = None \<and>
    (\<forall>name. name \<noteq> ''httpPort'' \<and> name \<noteq> ''guestPort'' \<longrightarrow>
       json_field read name = json_field entry name)"
proof -
  have kept: "withRenamedPort kept = kept"
    using assms(7) by (auto simp: withRenamedPort_def json_field_def split: json.splits option.splits)
  have "isInstanceRecord (withRenamedPort entry)"
    using assms(1-5)
    by (auto simp: withRenamedPort_def isInstanceRecord_def json_field_def json_isObject_def
        REQUIRED_STRING_FIELDS_def REQUIRED_NUMBER_FIELDS_def split: if_splits)
  then show ?thesis
    using assms kept
    by (intro exI [of _ "withRenamedPort entry"])
      (auto simp: readInstanceRecords_def withRenamedPort_def json_field_def json_isObject_def)
qed

definition note_example :: "string \<Rightarrow> json" where
  "note_example port =
     JObject [(''appId'', JString ''a''), (''deploymentId'', JString ''d''),
       (''volumeId'', JString ''v''), (''guestIpv4'', JString ''10.201.0.2''),
       (''artifactDigest'', JString ''abc''), (''state'', JString ''running''),
       (''hostPort'', JInt 21000), (port, JInt 8080), (''restartCount'', JInt 0),
       (''hostnames'', JArray []), (''health'', JObject [])]"

theorem renamed_notes_kept_witness:
  "\<exists>read. readInstanceRecords (JArray [note_example ''guestPort'', note_example ''httpPort'']) =
     [read, note_example ''httpPort''] \<and> json_field read ''httpPort'' = Some (JInt 8080)"
proof -
  note defs = note_example_def isInstanceRecord_def json_field_def json_isObject_def
    json_isString_def json_isNumber_def json_isArray_def REQUIRED_STRING_FIELDS_def
    REQUIRED_NUMBER_FIELDS_def
  obtain es where es: "note_example ''guestPort'' = JObject es"
    and port: "map_of es ''guestPort'' = Some (JInt 8080)" and "map_of es ''httpPort'' = None"
    and "isInstanceRecord (JObject (js_set ''httpPort'' (JInt 0) es))"
    by (simp add: defs)
  moreover have "isInstanceRecord (note_example ''httpPort'')"
    "json_field (note_example ''httpPort'') ''guestPort'' = None"
    by (simp_all add: defs)
  ultimately show ?thesis
    using renamed_notes_kept [of "note_example ''guestPort''" es "JInt 8080" "note_example ''httpPort''"]
    by (auto simp: json_isNumber_def)
qed

end
