(* ===== verification/Agent_State.thy ===== *)
theory Agent_State
  imports Instance_Record
begin

text \<open>
  The one store every loop of the agent reads and writes:
  \<open>apps/agent/src/services/agent-state.service.ts\<close>, and the activity it keeps of each app
  (\<open>lib/agent/activity.ts\<close>, the counters' type of \<open>lib/network/counters.ts\<close>).

  Every member is one atomic \<open>Ref.update\<close> or \<open>Ref.modify\<close>, so it is one function on
  \<open>AgentSnapshot\<close>. The claim on a start is a lock: the locale \<open>exclusive_claims\<close> states its
  contract and proves, for any interleaving of clients, that no app is ever claimed twice.
\<close>

section \<open>The snapshot\<close>

record AppTraffic =
  tr_packets :: int
  tr_bytes :: int

text \<open>A compute share is a quotient of two tick counts, kept as the pair.\<close>

type_synonym CpuShare = "int \<times> int"

record AgentSnapshot =
  st_records :: "(AppId, InstanceRecord) jsmap"
  st_exportReports :: "(ExportId, ReportedExport) jsmap"
  st_deletedVolumes :: "(VolumeId, ReportedVolume) jsmap"
  st_nextProbeAtMs :: "(AppId, int) jsmap"
  st_snapshotting :: "AppId set"
  st_starting :: "AppId set"
  st_replacing :: "(AppId, InstanceRecord) jsmap"
  st_volumeUsage :: "(AppId, FilesystemUsage) jsmap"
  st_computeUsage :: "(AppId, CpuShare ComputeUsage) jsmap"
  st_computeTicks :: "(AppId, MeasuredCompute) jsmap"
  st_appTraffic :: "(AppId, AppTraffic) jsmap"
  st_lastActiveAtMs :: "(AppId, int) jsmap"
  st_volumeReports :: "ReportedVolume list"
  st_checkpointReports :: "ReportedCheckpoint list"
  st_converged :: bool
  st_deferredWork :: bool
  st_isolated :: bool

definition EMPTY :: AgentSnapshot where
  "EMPTY =
     \<lparr>st_records = [], st_exportReports = [], st_deletedVolumes = [], st_nextProbeAtMs = [],
      st_snapshotting = {}, st_starting = {}, st_replacing = [], st_volumeUsage = [],
      st_computeUsage = [], st_computeTicks = [], st_appTraffic = [], st_lastActiveAtMs = [],
      st_volumeReports = [], st_checkpointReports = [], st_converged = False,
      st_deferredWork = False, st_isolated = False\<rparr>"

definition records :: "AgentSnapshot \<Rightarrow> InstanceRecord list" where
  "records s = js_values (st_records s)"

definition claimStart :: "AppId \<Rightarrow> AgentSnapshot \<Rightarrow> bool \<times> AgentSnapshot" where
  "claimStart appId s =
     (if appId \<in> st_starting s then (False, s)
      else (True, s\<lparr>st_starting := insert appId (st_starting s)\<rparr>))"

definition releaseStart :: "AppId \<Rightarrow> AgentSnapshot \<Rightarrow> AgentSnapshot" where
  "releaseStart appId s = s\<lparr>st_starting := st_starting s - {appId}\<rparr>"

definition markActive :: "AppId \<Rightarrow> int \<Rightarrow> AgentSnapshot \<Rightarrow> AgentSnapshot" where
  "markActive appId nowMs s =
     s\<lparr>st_lastActiveAtMs := js_set appId nowMs (st_lastActiveAtMs s)\<rparr>"

definition markSnapshotting :: "AppId \<Rightarrow> bool \<Rightarrow> AgentSnapshot \<Rightarrow> AgentSnapshot" where
  "markSnapshotting appId active s =
     (if active then s\<lparr>st_snapshotting := insert appId (st_snapshotting s)\<rparr>
      else s\<lparr>st_snapshotting := st_snapshotting s - {appId}\<rparr>)"

definition putRecord :: "InstanceRecord \<Rightarrow> AgentSnapshot \<Rightarrow> AgentSnapshot" where
  "putRecord r s = s\<lparr>st_records := js_set (ir_appId r) r (st_records s)\<rparr>"

definition updateRecord ::
  "AppId \<Rightarrow> (InstanceRecord \<Rightarrow> InstanceRecord) \<Rightarrow> AgentSnapshot \<Rightarrow> AgentSnapshot" where
  "updateRecord appId change s =
     (case js_get (st_records s) appId of
        None \<Rightarrow> s
      | Some r \<Rightarrow> s\<lparr>st_records := js_set appId (change r) (st_records s)\<rparr>)"

definition dropRecord :: "AppId \<Rightarrow> AgentSnapshot \<Rightarrow> AgentSnapshot" where
  "dropRecord appId s = s\<lparr>st_records := js_delete appId (st_records s)\<rparr>"

definition setUsage ::
  "(AppId, FilesystemUsage) jsmap \<Rightarrow> (AppId, CpuShare ComputeUsage) jsmap \<Rightarrow>
     (AppId, MeasuredCompute) jsmap \<Rightarrow> AgentSnapshot \<Rightarrow> AgentSnapshot" where
  "setUsage volumes compute ticks s =
     s\<lparr>st_volumeUsage := volumes, st_computeUsage := compute, st_computeTicks := ticks\<rparr>"

definition setActivity ::
  "(AppId, AppTraffic) jsmap \<Rightarrow> (AppId, int) jsmap \<Rightarrow> AgentSnapshot \<Rightarrow> AgentSnapshot" where
  "setActivity traffic lastActiveAtMs s =
     s\<lparr>st_appTraffic := traffic, st_lastActiveAtMs := lastActiveAtMs\<rparr>"

definition rememberDeletedVolume :: "ReportedVolume \<Rightarrow> AgentSnapshot \<Rightarrow> AgentSnapshot" where
  "rememberDeletedVolume report s =
     s\<lparr>st_deletedVolumes := js_set (rv_volumeId report) report (st_deletedVolumes s)\<rparr>"

definition forgetDeletedVolumes :: "VolumeId set \<Rightarrow> AgentSnapshot \<Rightarrow> AgentSnapshot" where
  "forgetDeletedVolumes keep s =
     s\<lparr>st_deletedVolumes := js_filter_keys (\<lambda>volumeId. volumeId \<in> keep) (st_deletedVolumes s)\<rparr>"

section \<open>Activity\<close>

record Measured =
  ms_traffic :: "(AppId, AppTraffic) jsmap"
  ms_lastActiveAtMs :: "(AppId, int) jsmap"
  ms_moved :: "AppId set"

definition countMoved :: "AppTraffic option \<Rightarrow> AppTraffic \<Rightarrow> bool" where
  "countMoved before after =
     (case before of None \<Rightarrow> False | Some b \<Rightarrow> tr_bytes after > tr_bytes b)"

definition activityTaken :: "(AppId, AppTraffic) jsmap \<Rightarrow> (AppId, int) jsmap \<Rightarrow> int \<Rightarrow>
    AppId \<times> AppTraffic \<Rightarrow> Measured \<Rightarrow> Measured" where
  "activityTaken prevTraffic prevActive nowMs entry m =
     (let (appId, after) = entry;
          before = js_get prevTraffic appId;
          recorded = js_get prevActive appId;
          moved = (if countMoved before after then insert appId (ms_moved m) else ms_moved m)
      in m\<lparr>ms_traffic := js_set appId after (ms_traffic m),
           ms_moved := moved,
           ms_lastActiveAtMs :=
             js_set appId
               (if appId \<in> moved then nowMs
                else case recorded of None \<Rightarrow> nowMs | Some at \<Rightarrow> at)
               (ms_lastActiveAtMs m)\<rparr>)"

definition activityKept :: "AppId \<times> int \<Rightarrow> (AppId, int) jsmap \<Rightarrow> (AppId, int) jsmap" where
  "activityKept entry m =
     (let (appId, recorded) = entry in if js_has m appId then m else js_set appId recorded m)"

definition activityAfter :: "(AppId, AppTraffic) jsmap \<Rightarrow> (AppId, AppTraffic) jsmap \<Rightarrow>
    (AppId, int) jsmap \<Rightarrow> int \<Rightarrow> Measured" where
  "activityAfter taken prevTraffic prevActive nowMs =
     (let m = fold (activityTaken prevTraffic prevActive nowMs) taken
                \<lparr>ms_traffic = [], ms_lastActiveAtMs = [], ms_moved = {}\<rparr>
      in m\<lparr>ms_lastActiveAtMs := fold activityKept prevActive (ms_lastActiveAtMs m)\<rparr>)"

text \<open>\<open>recordActivity\<close> on what the firewall answered (\<open>None\<close> when it could not be read) and the
  slots that are held.\<close>

definition recordActivity ::
  "(AppId, AppTraffic) jsmap option \<Rightarrow> AppSlot list \<Rightarrow> int \<Rightarrow> AgentSnapshot \<Rightarrow> AgentSnapshot" where
  "recordActivity firewallTraffic heldSlots nowMs s =
     (let taken = (case firewallTraffic of None \<Rightarrow> [] | Some t \<Rightarrow> t);
          held = set (map as_appId heldSlots);
          next = activityAfter taken (st_appTraffic s) (st_lastActiveAtMs s) nowMs
      in setActivity (js_filter_keys (\<lambda>a. a \<in> held) (ms_traffic next))
           (js_filter_keys (\<lambda>a. a \<in> held) (ms_lastActiveAtMs next)) s)"

section \<open>Claims\<close>

text \<open>
  The contract of a claim: it succeeds exactly when nobody holds it, and only a release gives it
  back. Clients are named by \<open>'c\<close>; a client that was told \<open>True\<close> owns the claim until it releases.
\<close>

datatype ('c, 'a) claim_event = Claim 'c 'a | Release 'c 'a

locale exclusive_claims =
  fixes claim :: "'a \<Rightarrow> 's \<Rightarrow> bool \<times> 's"
    and release_claim :: "'a \<Rightarrow> 's \<Rightarrow> 's"
    and held :: "'s \<Rightarrow> 'a set"
  assumes claim_free: "a \<notin> held s \<Longrightarrow> fst (claim a s) \<and> held (snd (claim a s)) = insert a (held s)"
    and claim_taken: "a \<in> held s \<Longrightarrow> \<not> fst (claim a s) \<and> held (snd (claim a s)) = held s"
    and release_held: "held (release_claim a s) = held s - {a}"
begin

text \<open>One event, with the owners as the clients know them; a client releases only what it owns.\<close>

fun claim_event :: "('c, 'a) claim_event \<Rightarrow> ('c \<times> 'a) set \<times> 's \<Rightarrow> ('c \<times> 'a) set \<times> 's" where
  "claim_event (Claim c a) (owners, s) =
     (if fst (claim a s) then insert (c, a) owners else owners, snd (claim a s))"
| "claim_event (Release c a) (owners, s) =
     (if (c, a) \<in> owners then (owners - {(c, a)}, release_claim a s) else (owners, s))"

definition claims_consistent :: "('c \<times> 'a) set \<times> 's \<Rightarrow> bool" where
  "claims_consistent p \<longleftrightarrow> held (snd p) = snd ` fst p \<and> inj_on snd (fst p)"

lemma claims_consistent_event:
  "claims_consistent p \<Longrightarrow> claims_consistent (claim_event e p)"
proof (cases p)
  case (Pair owners s)
  assume ok: "claims_consistent p"
  show ?thesis
  proof (cases e)
    case (Claim c a)
    then show ?thesis
      using ok Pair claim_free [of a s] claim_taken [of a s]
      by (cases "a \<in> held s") (auto simp: claims_consistent_def)
  next
    case (Release c a)
    then show ?thesis
      using ok Pair release_held [of a s] inj_on_image_set_diff [of snd owners owners "{(c, a)}"]
      by (auto simp: claims_consistent_def intro: inj_on_diff)
  qed
qed

lemma claims_consistent_run:
  "claims_consistent p \<Longrightarrow> claims_consistent (fold claim_event es p)"
  by (induction es arbitrary: p) (auto simp: claims_consistent_event)

lemma single_owner:
  assumes "held s = {}" and "fold claim_event es ({}, s) = (owners, t)"
  shows "held t = snd ` owners \<and> ((c, a) \<in> owners \<longrightarrow> (d, a) \<in> owners \<longrightarrow> c = d)"
proof -
  have "claims_consistent ({}, s)" using assms(1) by (simp add: claims_consistent_def)
  from claims_consistent_run [OF this, of es] assms(2)
  have "claims_consistent (owners, t)" by simp
  then show ?thesis
    unfolding claims_consistent_def using inj_onD [of snd owners "(c, a)" "(d, a)"] by auto
qed

end

interpretation start_claims: exclusive_claims claimStart releaseStart st_starting
  by unfold_locales (simp_all add: claimStart_def releaseStart_def)

fun start_event :: "(nat, AppId) claim_event \<Rightarrow> (nat \<times> AppId) set \<times> AgentSnapshot \<Rightarrow>
    (nat \<times> AppId) set \<times> AgentSnapshot" where
  "start_event (Claim c a) (owners, s) =
     (if fst (claimStart a s) then insert (c, a) owners else owners, snd (claimStart a s))"
| "start_event (Release c a) (owners, s) =
     (if (c, a) \<in> owners then (owners - {(c, a)}, releaseStart a s) else (owners, s))"

lemma start_event_claim: "start_event = start_claims.claim_event"
proof (intro ext)
  fix e :: "(nat, AppId) claim_event" and p
  show "start_event e p = start_claims.claim_event e p" by (cases e; cases p) simp_all
qed

section \<open>Lemmas on the store\<close>

lemma store_simps [simp]:
  "st_records (releaseStart a s) = st_records s"
  "st_records (snd (claimStart a s)) = st_records s"
  "st_records (markActive a now s) = st_records s"
  "st_records (markSnapshotting a b s) = st_records s"
  "st_records (putRecord r s) = js_set (ir_appId r) r (st_records s)"
  "st_records (dropRecord a s) = js_delete a (st_records s)"
  "st_starting (putRecord r s) = st_starting s"
  "st_starting (dropRecord a s) = st_starting s"
  "st_starting (markActive a now s) = st_starting s"
  "st_starting (markSnapshotting a b s) = st_starting s"
  "st_snapshotting (putRecord r s) = st_snapshotting s"
  "st_snapshotting (dropRecord a s) = st_snapshotting s"
  "st_snapshotting (markActive a now s) = st_snapshotting s"
  "st_snapshotting (releaseStart a s) = st_snapshotting s"
  by (simp_all add: releaseStart_def claimStart_def markActive_def markSnapshotting_def
      putRecord_def dropRecord_def)

lemma records_updateRecord [simp]:
  "js_get (st_records (updateRecord a f s)) b =
     (if b = a then map_option f (js_get (st_records s) a) else js_get (st_records s) b)"
  by (cases "js_get (st_records s) a") (simp_all add: updateRecord_def)

lemma updateRecord_others [simp]:
  "st_starting (updateRecord a f s) = st_starting s"
  "st_snapshotting (updateRecord a f s) = st_snapshotting s"
  "st_lastActiveAtMs (updateRecord a f s) = st_lastActiveAtMs s"
  "st_isolated (updateRecord a f s) = st_isolated s"
  "st_replacing (updateRecord a f s) = st_replacing s"
  by (simp_all add: updateRecord_def split: option.split)

text \<open>The records are keyed by their app, which every member keeps when an update leaves the app
  of a record alone.\<close>

abbreviation store_keyed :: "AgentSnapshot \<Rightarrow> bool" where
  "store_keyed s \<equiv> keyed_by_app (st_records s)"

lemma store_keyed_updateRecord:
  assumes "store_keyed s" and "\<And>r. ir_appId (f r) = ir_appId r"
  shows "store_keyed (updateRecord a f s)"
proof (cases "js_get (st_records s) a")
  case (Some r)
  with assms have "ir_appId (f r) = a" using js_keyed_get [OF assms(1) Some] by simp
  with Some assms(1) show ?thesis by (simp add: updateRecord_def js_keyed_set)
qed (simp add: updateRecord_def assms)

lemma store_keyed_ops:
  "store_keyed s \<Longrightarrow> store_keyed (putRecord r s)"
  "store_keyed s \<Longrightarrow> store_keyed (dropRecord a s)"
  by (simp_all add: js_keyed_set js_keyed_delete)

lemma store_keyed_EMPTY [simp]: "store_keyed EMPTY"
  by (simp add: EMPTY_def)

section \<open>What a measuring pass does\<close>

lemma activityTaken_simps [simp]:
  "ms_traffic (activityTaken pt pa now e m) = js_set (fst e) (snd e) (ms_traffic m)"
  "ms_moved (activityTaken pt pa now e m) =
     (if countMoved (js_get pt (fst e)) (snd e) then insert (fst e) (ms_moved m) else ms_moved m)"
  "ms_lastActiveAtMs (activityTaken pt pa now e m) =
     js_set (fst e)
       (if countMoved (js_get pt (fst e)) (snd e) \<or> fst e \<in> ms_moved m then now
        else case js_get pa (fst e) of None \<Rightarrow> now | Some at \<Rightarrow> at)
       (ms_lastActiveAtMs m)"
  by (simp_all add: activityTaken_def Let_def split: prod.split)

lemma activityTaken_fold:
  assumes "distinct (map fst taken)" and "\<forall>e \<in> set taken. fst e \<notin> ms_moved m"
  shows "js_get (ms_lastActiveAtMs (fold (activityTaken pt pa now) taken m)) a =
    (case map_of taken a of
       Some after \<Rightarrow>
         Some (if countMoved (js_get pt a) after then now
               else case js_get pa a of None \<Rightarrow> now | Some at \<Rightarrow> at)
     | None \<Rightarrow> js_get (ms_lastActiveAtMs m) a)"
  using assms
proof (induction taken arbitrary: m)
  case Nil
  then show ?case by simp
next
  case (Cons e es)
  have "\<forall>x \<in> set es. fst x \<notin> ms_moved (activityTaken pt pa now e m)"
    using Cons.prems by (auto simp: image_iff)
  note IH = Cons.IH [OF _ this]
  have "map_of es (fst e) = None" using Cons.prems(1) by (simp add: map_of_eq_None_iff)
  then show ?case
    using Cons.prems IH by (cases e) (simp split: option.split)
qed

lemma activityKept_get:
  "js_get (activityKept e m) a =
     (case js_get m a of Some v \<Rightarrow> Some v | None \<Rightarrow> if a = fst e then Some (snd e) else None)"
  by (auto simp: activityKept_def js_has_def split: option.split prod.split)

lemma activityKept_fold:
  "js_get (fold activityKept es m) a =
     (case js_get m a of Some v \<Rightarrow> Some v | None \<Rightarrow> map_of es a)"
proof (induction es arbitrary: m)
  case Nil
  then show ?case by (simp split: option.split)
next
  case (Cons e es)
  then show ?case by (simp add: activityKept_get split: option.split)
qed

lemma activityAfter_lastActive:
  assumes "js_valid taken"
  shows "js_get (ms_lastActiveAtMs (activityAfter taken pt pa now)) a =
    (case js_get taken a of
       Some after \<Rightarrow>
         Some (if countMoved (js_get pt a) after then now
               else case js_get pa a of None \<Rightarrow> now | Some at \<Rightarrow> at)
     | None \<Rightarrow> js_get pa a)"
  using assms
  by (simp add: activityAfter_def Let_def activityKept_fold activityTaken_fold js_valid_def
      split: option.split)

section \<open>Properties\<close>

text \<open>
  One start per app at a time: whatever the interleaving of the reconciler, the waker and the
  recovery loop claiming and releasing, no app is ever held by two of them, and the apps marked
  \<open>starting\<close> are exactly the ones somebody holds.
\<close>

theorem start_claim_exclusive:
  assumes "fold start_event es ({}, EMPTY) = (owners, s)"
  shows "st_starting s = snd ` owners \<and> ((c, a) \<in> owners \<longrightarrow> (d, a) \<in> owners \<longrightarrow> c = d)"
  by (rule start_claims.single_owner [of EMPTY es])
    (use assms in \<open>simp_all add: EMPTY_def start_event_claim\<close>)

theorem start_claim_exclusive_witness:
  "fst (fold start_event [Claim 1 ''a'', Claim 2 ''a''] ({}, EMPTY)) = {(1, ''a'')} \<and>
   st_starting (snd (fold start_event [Claim 1 ''a'', Claim 2 ''a''] ({}, EMPTY))) = {''a''}"
proof -
  let ?p = "fold start_event [Claim 1 ''a'', Claim 2 ''a''] ({}, EMPTY)"
  have one: "fst ?p = {(1, ''a'')}" by (simp add: claimStart_def EMPTY_def)
  have "?p = (fst ?p, snd ?p)" by simp
  from start_claim_exclusive [OF this] have "st_starting (snd ?p) = snd ` fst ?p" by blast
  then show ?thesis by (simp only: one) simp
qed

text \<open>
  A measuring pass never makes an app look older than it is and never takes a rewritten counter
  for use: an app's last active moment becomes now only when its byte count grew or nothing was
  recorded before; a counter that was reset, did not move or is missing leaves the recorded moment
  as it was, and a pass forgets exactly the apps whose slot is no longer held.
\<close>

theorem activity_recorded:
  assumes "js_valid taken"
  shows "js_get (st_lastActiveAtMs (recordActivity (Some taken) heldSlots now s)) a =
    (if a \<notin> as_appId ` set heldSlots then None
     else case js_get taken a of
       None \<Rightarrow> js_get (st_lastActiveAtMs s) a
     | Some after \<Rightarrow>
         (case js_get (st_lastActiveAtMs s) a of
            None \<Rightarrow> Some now
          | Some at \<Rightarrow>
              (case js_get (st_appTraffic s) a of
                 None \<Rightarrow> Some at
               | Some before \<Rightarrow> Some (if tr_bytes before < tr_bytes after then now else at))))"
  by (simp add: recordActivity_def setActivity_def Let_def activityAfter_lastActive [OF assms]
      countMoved_def split: option.split)

theorem activity_recorded_witness:
  "js_get (st_lastActiveAtMs (recordActivity (Some [(''a'', \<lparr>tr_packets = 1, tr_bytes = 10\<rparr>)])
     [describeSlot 0 ''a''] 99
     (EMPTY\<lparr>st_appTraffic := [(''a'', \<lparr>tr_packets = 9, tr_bytes = 90\<rparr>)],
            st_lastActiveAtMs := [(''a'', 7)]\<rparr>))) ''a'' = Some 7"
  by (subst activity_recorded) (simp_all add: js_valid_def describeSlot_def Let_def)

end
