(* ===== verification/Plan.thy ===== *)
theory Plan
  imports Agent_State
begin

text \<open>
  What one reconcile decides to do: \<open>apps/agent/src/lib/reconcile/plan.ts\<close>, the part of
  \<open>reconcile/migration-fences.ts\<close> that takes fenced apps out of a plan, \<open>reconcile/volumes.ts\<close>,
  \<open>reconcile/state.ts\<close>, the pure part of \<open>reconcile/idle.ts\<close> and \<open>lib/volumes/manager.ts\<close>.

  The planner is a pure function of desired and observed state. The volume manager that carries a
  provision or a teardown out is an argument of \<open>applyVolumes\<close> and \<open>applyTeardowns\<close>: the report it
  answers with, or the message of the error it failed with.
\<close>

section \<open>Observations\<close>

record ObservedInstance =
  oi_appId :: AppId
  oi_volumeId :: "VolumeId option"
  oi_deploymentId :: "DeploymentId option"
  oi_present :: bool
  oi_running :: bool
  oi_exited :: bool
  oi_recoveryRequested :: bool
  oi_terminalFailure :: bool

record ObservedVolume =
  ov_volumeId :: VolumeId
  ov_appId :: AppId
  ov_attached :: bool
  ov_sizeBytes :: int
  ov_storagePrefix :: ObjectKey
  ov_devicePath :: "string option"

record ObservedCheckpoint =
  oc_checkpointId :: CheckpointId
  oc_volumeId :: VolumeId

record ObservedExport =
  oe_exportId :: ExportId
  oe_written :: bool

record ObservedState =
  os_instances :: "ObservedInstance list"
  os_volumes :: "ObservedVolume list"
  os_deletedVolumes :: "VolumeId list"
  os_checkpoints :: "ObservedCheckpoint list"
  os_exports :: "ObservedExport list"

section \<open>Plans\<close>

datatype InstanceStopReason = StopDesiredStopped | StopNotDesired | StopSuperseded | StopIdle

datatype InstancePlan =
    InstanceStart DesiredInstance
  | InstanceReplace DesiredInstance
  | InstanceSleep DesiredInstance
  | InstanceStop AppId InstanceStopReason
  | InstanceForget AppId
  | InstanceNone AppId

datatype VolumePlan =
    VolumeProvision DesiredVolume
  | VolumeTeardown DesiredVolume
  | VolumeBlocked DesiredVolume "AppId list"
  | VolumeNone VolumeId

datatype CheckpointPlan =
    CheckpointCreate DesiredCheckpoint
  | CheckpointDelete DesiredCheckpoint
  | CheckpointNone CheckpointId

datatype ExportPlan =
    ExportWrite DesiredExport
  | ExportForget ExportId
  | ExportNone ExportId

record ReconcilePlan =
  pl_instances :: "InstancePlan list"
  pl_volumes :: "VolumePlan list"
  pl_checkpoints :: "CheckpointPlan list"
  pl_exports :: "ExportPlan list"

definition hasDeferredWork :: "ReconcilePlan \<Rightarrow> bool" where
  "hasDeferredWork plan =
     (list_ex (\<lambda>action. case action of
         VolumeBlocked _ _ \<Rightarrow> True
       | VolumeProvision desired \<Rightarrow> dv_storage desired \<noteq> None
       | _ \<Rightarrow> False) (pl_volumes plan) \<or>
      list_ex (\<lambda>action. case action of
         InstanceStart _ \<Rightarrow> True | InstanceReplace _ \<Rightarrow> True | _ \<Rightarrow> False) (pl_instances plan))"

definition byId :: "('item \<Rightarrow> 'key) \<Rightarrow> 'item list \<Rightarrow> ('key, 'item) jsmap" where
  "byId key items = js_new_map (map (\<lambda>item. (key item, item)) items)"

section \<open>The planner\<close>

definition planInstance :: "DesiredInstance \<Rightarrow> ObservedInstance option \<Rightarrow> InstancePlan" where
  "planInstance wanted current =
     (if di_desiredState wanted = DesiredStopped then
        (case current of
           Some c \<Rightarrow> if oi_running c then InstanceStop (di_appId wanted) StopDesiredStopped
                     else InstanceNone (di_appId wanted)
         | None \<Rightarrow> InstanceNone (di_appId wanted))
      else case current of
        None \<Rightarrow> InstanceStart wanted
      | Some c \<Rightarrow>
          if \<not> oi_present c then InstanceStart wanted
          else if oi_deploymentId c \<noteq> Some (di_deploymentId wanted) then InstanceReplace wanted
          else if oi_running c \<or> oi_terminalFailure c then InstanceNone (di_appId wanted)
          else if oi_recoveryRequested c then InstanceStart wanted
          else if di_desiredState wanted = DesiredOnRequest then InstanceSleep wanted
          else if oi_exited c then InstanceNone (di_appId wanted)
          else InstanceStart wanted)"

definition planInstances :: "HostDesiredState \<Rightarrow> ObservedState \<Rightarrow> InstancePlan list" where
  "planInstances desired observed =
     (let observedById = byId oi_appId (os_instances observed);
          desiredIds = set (map di_appId (hd_instances desired))
      in map (\<lambda>wanted. planInstance wanted (js_get observedById (di_appId wanted)))
           (hd_instances desired) @
         map (\<lambda>current. if oi_running current then InstanceStop (oi_appId current) StopNotDesired
                        else InstanceForget (oi_appId current))
           (filter (\<lambda>current. oi_appId current \<notin> desiredIds) (os_instances observed)))"

definition usedByObserved ::
  "ObservedInstance \<Rightarrow> (VolumeId, AppId list) jsmap \<Rightarrow> (VolumeId, AppId list) jsmap" where
  "usedByObserved inst usedBy =
     (case oi_volumeId inst of
        None \<Rightarrow> usedBy
      | Some volumeId \<Rightarrow>
          if \<not> oi_present inst then usedBy
          else js_set volumeId
            ((case js_get usedBy volumeId of None \<Rightarrow> [] | Some holders \<Rightarrow> holders) @
             [oi_appId inst]) usedBy)"

definition usedByDesired ::
  "DesiredInstance \<Rightarrow> (VolumeId, AppId list) jsmap \<Rightarrow> (VolumeId, AppId list) jsmap" where
  "usedByDesired inst usedBy =
     (if js_has usedBy (di_volumeId inst) then usedBy else js_set (di_volumeId inst) [] usedBy)"

definition planVolume :: "(VolumeId, ObservedVolume) jsmap \<Rightarrow> VolumeId set \<Rightarrow>
    (VolumeId, AppId list) jsmap \<Rightarrow> DesiredVolume \<Rightarrow> VolumePlan" where
  "planVolume observedById deleted usedBy wanted =
     (let current = js_get observedById (dv_volumeId wanted)
      in if dv_desiredState wanted = Absent then
           (let holders = (case js_get usedBy (dv_volumeId wanted) of None \<Rightarrow> [] | Some h \<Rightarrow> h)
            in if length holders > 0 then VolumeBlocked wanted holders
               else if current = None \<and> dv_volumeId wanted \<in> deleted
               then VolumeNone (dv_volumeId wanted) else VolumeTeardown wanted)
         else if (case current of None \<Rightarrow> True
                  | Some c \<Rightarrow> \<not> ov_attached c \<or> ov_sizeBytes c < dv_sizeBytes wanted)
         then VolumeProvision wanted else VolumeNone (dv_volumeId wanted))"

definition planVolumes :: "HostDesiredState \<Rightarrow> ObservedState \<Rightarrow> VolumePlan list" where
  "planVolumes desired observed =
     (let observedById = byId ov_volumeId (os_volumes observed);
          deleted = set (os_deletedVolumes observed);
          usedBy = fold usedByDesired (hd_instances desired)
                     (fold usedByObserved (os_instances observed) [])
      in map (planVolume observedById deleted usedBy) (hd_volumes desired))"

definition planExports :: "HostDesiredState \<Rightarrow> ObservedState \<Rightarrow> ExportPlan list" where
  "planExports desired observed =
     (let writtenIds = set (map oe_exportId (filter oe_written (os_exports observed)));
          desiredIds = set (map de_exportId (hd_exports desired))
      in map (\<lambda>wanted. if de_desiredState wanted = Absent then ExportForget (de_exportId wanted)
                       else if de_exportId wanted \<in> writtenIds then ExportNone (de_exportId wanted)
                       else ExportWrite wanted) (hd_exports desired) @
         map (\<lambda>current. ExportForget (oe_exportId current))
           (filter (\<lambda>current. oe_exportId current \<notin> desiredIds) (os_exports observed)))"

definition planCheckpoints :: "HostDesiredState \<Rightarrow> ObservedState \<Rightarrow> CheckpointPlan list" where
  "planCheckpoints desired observed =
     (let observedIds = set (map oc_checkpointId (os_checkpoints observed));
          configuredVolumes =
            set (map dv_volumeId (filter (\<lambda>volume. dv_storage volume \<noteq> None) (hd_volumes desired)))
      in map (\<lambda>wanted.
           let exists = dc_checkpointId wanted \<in> observedIds
           in if dc_desiredState wanted = Present
              then (if exists then CheckpointNone (dc_checkpointId wanted)
                    else CheckpointCreate wanted)
              else if exists \<or> dc_volumeId wanted \<in> configuredVolumes
              then CheckpointDelete wanted else CheckpointNone (dc_checkpointId wanted))
         (hd_checkpoints desired))"

definition planReconcile :: "HostDesiredState \<Rightarrow> ObservedState \<Rightarrow> ReconcilePlan" where
  "planReconcile desired observed =
     \<lparr>pl_instances = planInstances desired observed,
      pl_volumes = planVolumes desired observed,
      pl_checkpoints = planCheckpoints desired observed,
      pl_exports = planExports desired observed\<rparr>"

section \<open>Taking fenced apps out\<close>

fun instancePlan_app :: "InstancePlan \<Rightarrow> AppId" where
  "instancePlan_app (InstanceStart d) = di_appId d"
| "instancePlan_app (InstanceReplace d) = di_appId d"
| "instancePlan_app (InstanceSleep d) = di_appId d"
| "instancePlan_app (InstanceStop a _) = a"
| "instancePlan_app (InstanceForget a) = a"
| "instancePlan_app (InstanceNone a) = a"

fun volumePlan_app :: "VolumePlan \<Rightarrow> AppId option" where
  "volumePlan_app (VolumeProvision d) = Some (dv_appId d)"
| "volumePlan_app (VolumeTeardown d) = Some (dv_appId d)"
| "volumePlan_app (VolumeBlocked d _) = Some (dv_appId d)"
| "volumePlan_app (VolumeNone _) = None"

fun checkpointPlan_volume :: "CheckpointPlan \<Rightarrow> VolumeId option" where
  "checkpointPlan_volume (CheckpointCreate d) = Some (dc_volumeId d)"
| "checkpointPlan_volume (CheckpointDelete d) = Some (dc_volumeId d)"
| "checkpointPlan_volume (CheckpointNone _) = None"

fun exportPlan_app :: "ExportPlan \<Rightarrow> AppId option" where
  "exportPlan_app (ExportWrite d) = Some (de_appId d)"
| "exportPlan_app (ExportForget _) = None"
| "exportPlan_app (ExportNone _) = None"

definition withoutFencedApps ::
  "ReconcilePlan \<Rightarrow> AppId set \<Rightarrow> (VolumeId, AppId) jsmap \<Rightarrow> ReconcilePlan" where
  "withoutFencedApps plan blocked owners =
     (if blocked = {} then plan
      else
        \<lparr>pl_instances = filter (\<lambda>action. instancePlan_app action \<notin> blocked) (pl_instances plan),
         pl_volumes = filter (\<lambda>action. case volumePlan_app action of
             None \<Rightarrow> True | Some a \<Rightarrow> a \<notin> blocked) (pl_volumes plan),
         pl_checkpoints = filter (\<lambda>action. case checkpointPlan_volume action of
             None \<Rightarrow> True
           | Some v \<Rightarrow> (case js_get owners v of None \<Rightarrow> False | Some a \<Rightarrow> a \<notin> blocked))
             (pl_checkpoints plan),
         pl_exports = filter (\<lambda>action. case exportPlan_app action of
             None \<Rightarrow> True | Some a \<Rightarrow> a \<notin> blocked) (pl_exports plan)\<rparr>)"

definition volumeOwners ::
  "HostDesiredState \<Rightarrow> (AppId, InstanceRecord) jsmap \<Rightarrow> (VolumeId, AppId) jsmap" where
  "volumeOwners desired recs =
     js_set_all (map (\<lambda>volume. (dv_volumeId volume, dv_appId volume)) (hd_volumes desired))
       (js_new_map (map (\<lambda>r. (ir_volumeId r, ir_appId r)) (js_values recs)))"

definition unfencedPlan ::
  "HostDesiredState \<Rightarrow> ObservedState \<Rightarrow> AppId set \<Rightarrow> AgentSnapshot \<Rightarrow> ReconcilePlan" where
  "unfencedPlan desired observed blocked s =
     withoutFencedApps (planReconcile desired observed) blocked
       (volumeOwners desired (st_records s))"

text \<open>The apps a reconcile asks the fences about.\<close>

definition reconciledApps ::
  "HostDesiredState \<Rightarrow> AppId list \<Rightarrow> AgentSnapshot \<Rightarrow> AppId list" where
  "reconciledApps desired unitIds s =
     js_dedup (js_keys (st_records s) @ unitIds @ map dv_appId (hd_volumes desired) @
       map di_appId (hd_instances desired) @ map de_appId (hd_exports desired))"

section \<open>Volumes\<close>

definition toReportedVolume :: "ObservedVolume \<Rightarrow> ReportedVolume" where
  "toReportedVolume observed =
     \<lparr>rv_volumeId = ov_volumeId observed, rv_appId = ov_appId observed,
      rv_state = (if ov_attached observed then VolumeReady else VolumeDetached),
      rv_sizeBytes = ov_sizeBytes observed,
      rv_storagePrefix = Some (ov_storagePrefix observed),
      rv_devicePath = (case ov_devicePath observed of None \<Rightarrow> None
        | Some p \<Rightarrow> if p = [] then None else Some p),
      rv_usage = None, rv_message = None\<rparr>"

definition deletedVolumeReport :: "DesiredVolume \<Rightarrow> ReportedVolume" where
  "deletedVolumeReport desired =
     \<lparr>rv_volumeId = dv_volumeId desired, rv_appId = dv_appId desired, rv_state = VolumeDeleted,
      rv_sizeBytes = 0, rv_storagePrefix = None, rv_devicePath = None, rv_usage = None,
      rv_message = None\<rparr>"

definition mergeVolumeReports ::
  "ReportedVolume list \<Rightarrow> ReportedVolume list \<Rightarrow> ReportedVolume list" where
  "mergeVolumeReports existing updates =
     js_values (js_set_all (map (\<lambda>report. (rv_volumeId report, report)) updates)
       (byId rv_volumeId existing))"

definition hasPendingAppRetirements ::
  "DesiredVolume list \<Rightarrow> (VolumeId, ReportedVolume) jsmap \<Rightarrow> bool" where
  "hasPendingAppRetirements desiredVolumes deletedVolumes =
     list_ex (\<lambda>volume. dv_storage volume \<noteq> None \<and> dv_desiredState volume = Absent \<and>
       \<not> js_has deletedVolumes (dv_volumeId volume)) desiredVolumes"

text \<open>\<open>describe(error).slice(0, MAX_MESSAGE_LENGTH)\<close> of an error that describes itself as \<open>text\<close>.\<close>

definition MAX_MESSAGE_LENGTH :: nat where "MAX_MESSAGE_LENGTH = 512"

definition reportedMessage :: "string \<Rightarrow> string" where
  "reportedMessage message = take MAX_MESSAGE_LENGTH message"

text \<open>The volume manager keeps state of its own (the slots it hands out), so it is a function of a
  volume and that state.\<close>

type_synonym 't volume_manager = "DesiredVolume \<Rightarrow> 't \<Rightarrow> (string, ReportedVolume) result \<times> 't"

definition provision :: "'t volume_manager \<Rightarrow> DesiredVolume \<Rightarrow> 't \<Rightarrow> ReportedVolume \<times> 't" where
  "provision manager desired t =
     (case manager desired t of
        (Inr report, t) \<Rightarrow> (report, t)
      | (Inl message, t) \<Rightarrow>
          (\<lparr>rv_volumeId = dv_volumeId desired, rv_appId = dv_appId desired,
            rv_state = VolumeFailed, rv_sizeBytes = dv_sizeBytes desired,
            rv_storagePrefix = None, rv_devicePath = None, rv_usage = None,
            rv_message = Some (reportedMessage message)\<rparr>, t))"

fun provisionAll :: "'t volume_manager \<Rightarrow> VolumePlan list \<Rightarrow> 't \<Rightarrow> ReportedVolume list \<times> 't" where
  "provisionAll manager [] t = ([], t)"
| "provisionAll manager (VolumeProvision d # actions) t =
     (let (report, t) = provision manager d t;
          (updates, t) = provisionAll manager actions t
      in (report # updates, t))"
| "provisionAll manager (_ # actions) t = provisionAll manager actions t"

definition applyVolumes ::
  "'t volume_manager \<Rightarrow> ReconcilePlan \<Rightarrow> ObservedState \<Rightarrow>
     HostDesiredState \<Rightarrow> AppId set \<Rightarrow> AgentSnapshot \<times> 't \<Rightarrow> AgentSnapshot \<times> 't" where
  "applyVolumes manager plan observed desired fencedApps p =
     (let (s, t) = p;
          (updates, t) = provisionAll manager (pl_volumes plan) t;
          current = forgetDeletedVolumes (set (map dv_volumeId (hd_volumes desired))) s
      in (current\<lparr>st_volumeReports := mergeVolumeReports
           (map toReportedVolume
              (filter (\<lambda>volume. ov_appId volume \<notin> fencedApps) (os_volumes observed)) @
            filter (\<lambda>volume. rv_appId volume \<in> fencedApps) (st_volumeReports current))
           (filter (\<lambda>volume. rv_appId volume \<notin> fencedApps)
              (js_values (st_deletedVolumes current)) @ updates)\<rparr>, t))"

definition applyTeardown ::
  "'t volume_manager \<Rightarrow> VolumePlan \<Rightarrow> AgentSnapshot \<times> 't \<Rightarrow> AgentSnapshot \<times> 't" where
  "applyTeardown manager action p =
     (case action of
        VolumeTeardown d \<Rightarrow>
          (case manager d (snd p) of
             (Inr report, t) \<Rightarrow>
               (let current = rememberDeletedVolume report (fst p)
                in (current\<lparr>st_volumeReports :=
                      mergeVolumeReports (st_volumeReports current) [report]\<rparr>, t))
           | (Inl message, t) \<Rightarrow> (fst p, t))
      | _ \<Rightarrow> p)"

definition applyTeardowns ::
  "'t volume_manager \<Rightarrow> ReconcilePlan \<Rightarrow> AgentSnapshot \<times> 't \<Rightarrow> AgentSnapshot \<times> 't" where
  "applyTeardowns manager plan = fold (applyTeardown manager) (pl_volumes plan)"

section \<open>Going quiet\<close>

definition DEFAULT_IDLE_TIMEOUT_MS :: int where "DEFAULT_IDLE_TIMEOUT_MS = 300000"

definition hasGoneQuiet ::
  "InstanceRecord \<Rightarrow> int option \<Rightarrow> int option \<Rightarrow> int \<Rightarrow> bool" where
  "hasGoneQuiet r timeoutMs lastActiveAtMs nowMs =
     (ir_onRequest r \<and> ir_desiredRunning r \<and> ir_state r \<in> {Running} \<and>
      (case (timeoutMs, lastActiveAtMs) of
         (Some timeout, Some lastActive) \<Rightarrow> nowMs - lastActive \<ge> timeout
       | _ \<Rightarrow> False))"

definition idleTimeouts :: "HostDesiredState option \<Rightarrow> (AppId, int) jsmap" where
  "idleTimeouts latest =
     (case latest of
        None \<Rightarrow> []
      | Some desired \<Rightarrow>
          js_new_map (List.map_filter (\<lambda>inst.
            if di_desiredState inst = DesiredOnRequest
            then Some (di_appId inst, case di_idleTimeoutMs inst of
                None \<Rightarrow> DEFAULT_IDLE_TIMEOUT_MS | Some t \<Rightarrow> t)
            else None) (hd_instances desired)))"

text \<open>The records \<open>applySleep\<close> suspends, with the moment each had been quiet since.\<close>

definition quietRecords ::
  "HostDesiredState option \<Rightarrow> int \<Rightarrow> AgentSnapshot \<Rightarrow> InstanceRecord list" where
  "quietRecords latest nowMs s =
     (let timeouts = idleTimeouts latest
      in filter (\<lambda>r. hasGoneQuiet r (js_get timeouts (ir_appId r))
           (js_get (st_lastActiveAtMs s) (ir_appId r)) nowMs) (records s))"

section \<open>Lemmas\<close>

lemma byId_get: "js_get (byId key items) k = find (\<lambda>item. key item = k) (rev items)"
  by (simp add: byId_def js_get_new_map map_of_rev_map_key)

lemma byId_keyed: "js_keyed key (byId key items)"
  unfolding byId_def js_new_map_def by (rule js_keyed_set_all) simp

lemma find_rev_distinct:
  assumes "distinct (map f xs)"
  shows "find (\<lambda>x. f x = k) (rev xs) = find (\<lambda>x. f x = k) xs"
proof (cases "find (\<lambda>x. f x = k) xs")
  case None
  then have "find (\<lambda>x. f x = k) (rev xs) = None" by (simp add: find_None_iff)
  with None show ?thesis by simp
next
  case (Some x)
  then have "x \<in> set (rev xs)" "f x = k" by (auto dest: find_Some_in)
  moreover have "distinct (map f (rev xs))" using assms by (simp add: rev_map [symmetric])
  ultimately show ?thesis using Some find_distinct_key by metis
qed

text \<open>Who holds a volume: the present instances that name it, in the order they were observed.\<close>

definition holders_of :: "ObservedInstance list \<Rightarrow> VolumeId \<Rightarrow> AppId list" where
  "holders_of instances v =
     map oi_appId (filter (\<lambda>i. oi_present i \<and> oi_volumeId i = Some v) instances)"

definition used_by :: "(VolumeId, AppId list) jsmap \<Rightarrow> VolumeId \<Rightarrow> AppId list" where
  "used_by m v = (case js_get m v of None \<Rightarrow> [] | Some h \<Rightarrow> h)"

lemma used_by_observed:
  "used_by (usedByObserved i m) v =
     used_by m v @ (if oi_present i \<and> oi_volumeId i = Some v then [oi_appId i] else [])"
  by (simp add: usedByObserved_def used_by_def split: option.split)

lemma used_by_desired: "used_by (usedByDesired d m) v = used_by m v"
  by (simp add: usedByDesired_def used_by_def js_has_def split: option.split)

lemma used_by_fold_observed:
  "used_by (fold usedByObserved is m) v = used_by m v @ holders_of is v"
  by (induction "is" arbitrary: m) (simp_all add: used_by_observed holders_of_def)

lemma used_by_fold_desired: "used_by (fold usedByDesired ds m) v = used_by m v"
  by (induction ds arbitrary: m) (simp_all add: used_by_desired)

text \<open>The plan of one volume, in terms of who holds it.\<close>

definition volume_plan :: "ObservedState \<Rightarrow> DesiredVolume \<Rightarrow> VolumePlan" where
  "volume_plan observed d =
     (let current = js_get (byId ov_volumeId (os_volumes observed)) (dv_volumeId d);
          holders = holders_of (os_instances observed) (dv_volumeId d)
      in if dv_desiredState d = Absent then
           (if holders \<noteq> [] then VolumeBlocked d holders
            else if current = None \<and> dv_volumeId d \<in> set (os_deletedVolumes observed)
            then VolumeNone (dv_volumeId d) else VolumeTeardown d)
         else if (case current of
             None \<Rightarrow> True | Some c \<Rightarrow> \<not> ov_attached c \<or> ov_sizeBytes c < dv_sizeBytes d)
         then VolumeProvision d else VolumeNone (dv_volumeId d))"

lemma planVolumes_holders: "planVolumes desired observed = map (volume_plan observed) (hd_volumes desired)"
proof -
  have "used_by (fold usedByDesired (hd_instances desired)
      (fold usedByObserved (os_instances observed) [])) v = holders_of (os_instances observed) v" for v
    unfolding used_by_fold_desired used_by_fold_observed by (simp add: used_by_def)
  then have "planVolume (byId ov_volumeId (os_volumes observed)) (set (os_deletedVolumes observed))
      (fold usedByDesired (hd_instances desired) (fold usedByObserved (os_instances observed) [])) =
      volume_plan observed"
    unfolding planVolume_def volume_plan_def Let_def used_by_def [symmetric] by (intro ext) simp
  then show ?thesis unfolding planVolumes_def Let_def by simp
qed

lemma holders_of_Nil: "holders_of is v = [] \<longleftrightarrow> (\<forall>i \<in> set is. \<not> (oi_present i \<and> oi_volumeId i = Some v))"
  by (simp add: holders_of_def filter_empty_conv)

lemma byId_None: "js_get (byId key items) k = None \<longleftrightarrow> (\<forall>x \<in> set items. key x \<noteq> k)"
  unfolding byId_get find_None_iff set_rev by blast

lemma volume_plan_teardown:
  "volume_plan observed x = VolumeTeardown d \<longleftrightarrow> x = d \<and> dv_desiredState d = Absent \<and>
     holders_of (os_instances observed) (dv_volumeId d) = [] \<and>
     \<not> (dv_volumeId d \<in> set (os_deletedVolumes observed) \<and>
        js_get (byId ov_volumeId (os_volumes observed)) (dv_volumeId d) = None)"
  by (cases "x = d") (simp_all add: volume_plan_def Let_def)

lemma mergeVolumeReports_mem:
  "r \<in> set (mergeVolumeReports existing updates) \<longleftrightarrow>
     (case find (\<lambda>u. rv_volumeId u = rv_volumeId r) (rev updates) of
        Some u \<Rightarrow> u = r
      | None \<Rightarrow> find (\<lambda>e. rv_volumeId e = rv_volumeId r) (rev existing) = Some r)"
proof -
  have "r \<in> set (mergeVolumeReports existing updates) \<longleftrightarrow>
      js_get (js_set_all (map (\<lambda>report. (rv_volumeId report, report)) updates)
        (byId rv_volumeId existing)) (rv_volumeId r) = Some r"
    unfolding mergeVolumeReports_def
    by (rule js_keyed_values(2)) (intro js_keyed_set_all byId_keyed)
  then show ?thesis
    by (simp add: js_set_all_keyed byId_get split: option.split)
qed

lemma mergeVolumeReports_distinct:
  "distinct (map rv_volumeId (mergeVolumeReports existing updates))"
  unfolding mergeVolumeReports_def
  by (intro js_keyed_distinct js_keyed_set_all byId_keyed)

section \<open>Properties\<close>

text \<open>
  A truncated answer cannot destroy a tenant's filesystem: a plan tears a volume down exactly
  when desired state names that volume as absent, no instance still present on the host holds it,
  and the removal is not one already carried out. A volume desired state says nothing about is in
  no action of the plan.
\<close>

theorem teardown_only_when_told:
  "VolumeTeardown d \<in> set (pl_volumes (planReconcile desired observed)) \<longleftrightarrow>
     d \<in> set (hd_volumes desired) \<and> dv_desiredState d = Absent \<and>
     (\<forall>i \<in> set (os_instances observed). \<not> (oi_present i \<and> oi_volumeId i = Some (dv_volumeId d))) \<and>
     \<not> (dv_volumeId d \<in> set (os_deletedVolumes observed) \<and>
        (\<forall>v \<in> set (os_volumes observed). ov_volumeId v \<noteq> dv_volumeId d))"
  unfolding planReconcile_def ReconcilePlan.select_convs planVolumes_holders set_map image_eq_iff
    volume_plan_teardown holders_of_Nil byId_None
  by blast

text \<open>The plan acts for the apps of desired state and the ones observed, one action each.\<close>

definition observed_of :: "ObservedState \<Rightarrow> AppId \<Rightarrow> ObservedInstance option" where
  "observed_of observed a = find (\<lambda>i. oi_appId i = a) (os_instances observed)"

lemma planInstances_find:
  assumes "distinct (map oi_appId (os_instances observed))"
  shows "planInstances desired observed =
    map (\<lambda>w. planInstance w (observed_of observed (di_appId w))) (hd_instances desired) @
    map (\<lambda>c. if oi_running c then InstanceStop (oi_appId c) StopNotDesired
             else InstanceForget (oi_appId c))
      (filter (\<lambda>c. oi_appId c \<notin> di_appId ` set (hd_instances desired)) (os_instances observed))"
  by (simp add: planInstances_def Let_def byId_get find_rev_distinct [OF assms] observed_of_def)

lemma planInstance_app [simp]: "instancePlan_app (planInstance w c) = di_appId w"
  by (simp add: planInstance_def split: option.split)

lemma planInstance_stop:
  "planInstance w c = InstanceStop a reason \<longleftrightarrow>
     di_desiredState w = DesiredStopped \<and> di_appId w = a \<and> reason = StopDesiredStopped \<and>
     (case c of None \<Rightarrow> False | Some x \<Rightarrow> oi_running x)"
  by (auto simp: planInstance_def split: option.split)

lemma planInstance_forget: "planInstance w c \<noteq> InstanceForget a"
  by (simp add: planInstance_def split: option.split)

lemma planned_stop:
  assumes "distinct (map oi_appId (os_instances observed))"
  shows "InstanceStop a reason \<in> set (pl_instances (planReconcile desired observed)) \<longleftrightarrow>
    (\<exists>w \<in> set (hd_instances desired). di_desiredState w = DesiredStopped \<and> di_appId w = a \<and>
       reason = StopDesiredStopped \<and>
       (case observed_of observed a of None \<Rightarrow> False | Some x \<Rightarrow> oi_running x)) \<or>
    (\<exists>c \<in> set (os_instances observed). oi_appId c \<notin> di_appId ` set (hd_instances desired) \<and>
       oi_running c \<and> oi_appId c = a \<and> reason = StopNotDesired)"
proof -
  have stop: "(if oi_running c then InstanceStop (oi_appId c) StopNotDesired
      else InstanceForget (oi_appId c)) = InstanceStop a reason \<longleftrightarrow>
      oi_running c \<and> oi_appId c = a \<and> reason = StopNotDesired" for c
    by auto
  show ?thesis
    unfolding planReconcile_def ReconcilePlan.select_convs planInstances_find [OF assms] set_append
      set_map Un_iff image_eq_iff planInstance_stop set_filter Bex_def mem_Collect_eq stop
    by (simp only: conj_assoc cong: conj_cong)
qed

lemma planned_forget:
  assumes "distinct (map oi_appId (os_instances observed))"
  shows "InstanceForget a \<in> set (pl_instances (planReconcile desired observed)) \<longleftrightarrow>
    (\<exists>c \<in> set (os_instances observed). oi_appId c \<notin> di_appId ` set (hd_instances desired) \<and>
       \<not> oi_running c \<and> oi_appId c = a)"
proof -
  have "(if oi_running c then InstanceStop (oi_appId c) StopNotDesired
      else InstanceForget (oi_appId c)) = InstanceForget a \<longleftrightarrow> \<not> oi_running c \<and> oi_appId c = a" for c
    by simp
  then show ?thesis
    unfolding planReconcile_def ReconcilePlan.select_convs planInstances_find [OF assms] set_append
      set_map Un_iff image_eq_iff set_filter Bex_def mem_Collect_eq
    using planInstance_forget by metis
qed

text \<open>
  Instances are authoritative: when every observed app is listed once, the plan stops a running
  microVM exactly when desired state does not mention its app or asks for it to be stopped, forgets
  exactly the apps that are neither wanted nor running, and names every app it acts on from one of
  the two lists.
\<close>

theorem undesired_microvms_stop:
  assumes "distinct (map oi_appId (os_instances observed))"
    and "distinct (map di_appId (hd_instances desired))"
    and "i \<in> set (os_instances observed)"
  shows "((\<exists>reason. InstanceStop (oi_appId i) reason
              \<in> set (pl_instances (planReconcile desired observed))) \<longleftrightarrow>
            oi_running i \<and>
            (\<forall>w \<in> set (hd_instances desired).
               di_appId w = oi_appId i \<longrightarrow> di_desiredState w = DesiredStopped)) \<and>
         (InstanceForget (oi_appId i) \<in> set (pl_instances (planReconcile desired observed)) \<longleftrightarrow>
            \<not> oi_running i \<and> oi_appId i \<notin> di_appId ` set (hd_instances desired))"
proof -
  have i: "observed_of observed (oi_appId i) = Some i"
    unfolding observed_of_def using assms(1,3) by (rule find_distinct_key)
  have same: "c = i" if "c \<in> set (os_instances observed)" "oi_appId c = oi_appId i" for c
    using that assms(1,3) unfolding distinct_map by (blast dest: inj_onD)
  have one: "v = w" if "v \<in> set (hd_instances desired)" "w \<in> set (hd_instances desired)"
      "di_appId v = oi_appId i" "di_appId w = oi_appId i" for v w
    using that assms(2) unfolding distinct_map by (metis inj_onD)
  show ?thesis
  proof (intro conjI)
    show "(\<exists>reason. InstanceStop (oi_appId i) reason
        \<in> set (pl_instances (planReconcile desired observed))) \<longleftrightarrow>
      oi_running i \<and> (\<forall>w \<in> set (hd_instances desired).
         di_appId w = oi_appId i \<longrightarrow> di_desiredState w = DesiredStopped)" (is "?l \<longleftrightarrow> ?r")
    proof
      assume ?l
      then show ?r
        unfolding planned_stop [OF assms(1)] i option.case image_iff using same one by metis
    next
      assume r: ?r
      show ?l
        unfolding planned_stop [OF assms(1)] i option.case
        by (cases "oi_appId i \<in> di_appId ` set (hd_instances desired)")
          (use r assms(3) in \<open>metis image_iff\<close>)+
    qed
    show "InstanceForget (oi_appId i) \<in> set (pl_instances (planReconcile desired observed)) \<longleftrightarrow>
        \<not> oi_running i \<and> oi_appId i \<notin> di_appId ` set (hd_instances desired)"
      unfolding planned_forget [OF assms(1)] using same assms(3) by metis
  qed
qed

definition app_config_example :: AppConfig where
  "app_config_example =
     \<lparr>cfg_httpPort = 8080, cfg_hasExtraPublicPort = False, cfg_args = [], cfg_environment = [],
      cfg_resources = \<lparr>vcpuCount = 1, memoryMib = 256\<rparr>,
      cfg_healthCheck = ir_healthCheck record_example,
      cfg_restartPolicy = \<lparr>rp_maxRestarts = 3, rp_initialBackoffMs = 1000,
        rp_maxBackoffMs = 4000, rp_backoffFactor = 2, rp_resetAfterMs = 60000\<rparr>\<rparr>"

definition desired_instance_example :: "AppId \<Rightarrow> DesiredInstanceState \<Rightarrow> DesiredInstance" where
  "desired_instance_example a desiredState =
     \<lparr>di_appId = a, di_deploymentId = ''d'', di_volumeId = ''v'', di_desiredState = desiredState,
      di_idleTimeoutMs = None,
      di_artifact = \<lparr>art_digest = ''abc'', art_sizeBytes = 10, art_objectKey = ''k'',
        art_filename = ''f''\<rparr>,
      di_config = app_config_example, di_hostnames = []\<rparr>"

definition desired_example :: "DesiredInstance list \<Rightarrow> HostDesiredState" where
  "desired_example is =
     \<lparr>hd_hostId = ''h'', hd_volumes = [], hd_instances = is, hd_checkpoints = [],
      hd_exports = []\<rparr>"

definition observed_instance_example :: "AppId \<Rightarrow> bool \<Rightarrow> ObservedInstance" where
  "observed_instance_example a running =
     \<lparr>oi_appId = a, oi_volumeId = Some ''v'', oi_deploymentId = Some ''d'', oi_present = True,
      oi_running = running, oi_exited = False, oi_recoveryRequested = False,
      oi_terminalFailure = False\<rparr>"

definition observed_example :: "ObservedInstance list \<Rightarrow> ObservedState" where
  "observed_example is =
     \<lparr>os_instances = is, os_volumes = [], os_deletedVolumes = [], os_checkpoints = [],
      os_exports = []\<rparr>"

lemmas plan_examples =
  desired_instance_example_def desired_example_def observed_instance_example_def
  observed_example_def

theorem undesired_microvms_stop_witness:
  "\<exists>reason. InstanceStop ''b'' reason \<in> set (pl_instances (planReconcile
     (desired_example [desired_instance_example ''a'' DesiredRunning])
     (observed_example [observed_instance_example ''b'' True])))"
proof -
  have b: "oi_appId (observed_instance_example ''b'' True) = ''b''" by (simp add: plan_examples)
  show ?thesis
    by (rule iffD2 [OF conjunct1 [OF undesired_microvms_stop
        [of "observed_example [observed_instance_example ''b'' True]"
            "desired_example [desired_instance_example ''a'' DesiredRunning]"
            "observed_instance_example ''b'' True", unfolded b]]])
      (simp_all add: plan_examples)
qed

text \<open>
  A volume migration is never disturbed: a plan made while apps are fenced holds no action on a
  fenced app's instance, volume, export or checkpoint, and keeps every action on an instance of an
  app that is not fenced.
\<close>

theorem fenced_apps_untouched:
  assumes "a \<in> blocked"
  shows "(\<forall>p \<in> set (pl_instances (unfencedPlan desired observed blocked s)). instancePlan_app p \<noteq> a) \<and>
    (\<forall>p \<in> set (pl_volumes (unfencedPlan desired observed blocked s)). volumePlan_app p \<noteq> Some a) \<and>
    (\<forall>p \<in> set (pl_exports (unfencedPlan desired observed blocked s)). exportPlan_app p \<noteq> Some a) \<and>
    (\<forall>p \<in> set (pl_checkpoints (unfencedPlan desired observed blocked s)). \<forall>v.
       checkpointPlan_volume p = Some v \<longrightarrow>
       js_get (volumeOwners desired (st_records s)) v \<noteq> Some a) \<and>
    (\<forall>p \<in> set (pl_instances (planReconcile desired observed)). instancePlan_app p \<notin> blocked \<longrightarrow>
       p \<in> set (pl_instances (unfencedPlan desired observed blocked s)))"
proof -
  have ne: "blocked \<noteq> {}" using assms by blast
  show ?thesis
    unfolding unfencedPlan_def withoutFencedApps_def if_not_P [OF ne] ReconcilePlan.select_convs
      set_filter
    using assms by (auto split: option.splits)
qed

theorem fenced_apps_untouched_witness:
  "InstanceStart (desired_instance_example ''a'' DesiredRunning) \<notin> set (pl_instances (unfencedPlan
     (desired_example [desired_instance_example ''a'' DesiredRunning])
     (observed_example []) {''a''} EMPTY))"
proof
  assume "InstanceStart (desired_instance_example ''a'' DesiredRunning) \<in> set (pl_instances
    (unfencedPlan (desired_example [desired_instance_example ''a'' DesiredRunning])
       (observed_example []) {''a''} EMPTY))"
  with fenced_apps_untouched [of "''a''" "{''a''}"]
  have "instancePlan_app (InstanceStart (desired_instance_example ''a'' DesiredRunning)) \<noteq> ''a''"
    by blast
  then show False by (simp add: desired_instance_example_def)
qed

definition instance_settled :: "DesiredInstance \<Rightarrow> ObservedInstance option \<Rightarrow> bool" where
  "instance_settled w c =
     (case c of
        None \<Rightarrow> di_desiredState w = DesiredStopped
      | Some x \<Rightarrow>
          if di_desiredState w = DesiredStopped then \<not> oi_running x
          else oi_present x \<and> oi_deploymentId x = Some (di_deploymentId w) \<and>
            (oi_running x \<or> oi_terminalFailure x))"

text \<open>
  Convergence is stable: an app that is wanted running, is present under the wanted deployment
  and runs, or has failed for good, is left alone; so is a stopped app that does not run; and when
  every wanted instance is in one of those cases and no volume is missing or blocked, the plan holds
  nothing that another pass would have to finish.
\<close>

theorem settled_host_is_left_alone:
  assumes "distinct (map oi_appId (os_instances observed))"
    and "\<forall>w \<in> set (hd_instances desired). instance_settled w (observed_of observed (di_appId w))"
    and "\<forall>d \<in> set (hd_volumes desired). volume_plan observed d = VolumeNone (dv_volumeId d)"
  shows "\<not> hasDeferredWork (planReconcile desired observed) \<and>
    (\<forall>w \<in> set (hd_instances desired).
       planInstance w (observed_of observed (di_appId w)) = InstanceNone (di_appId w))"
proof -
  have none: "planInstance w c = InstanceNone (di_appId w)" if "instance_settled w c" for w c
    using that
    by (cases c) (auto simp: planInstance_def instance_settled_def split: if_splits)
  have "\<forall>p \<in> set (planVolumes desired observed). \<exists>v. p = VolumeNone v"
    unfolding planVolumes_holders set_map ball_simps using assms(3) by blast
  moreover have "\<forall>p \<in> set (planInstances desired observed).
      (\<exists>a. p = InstanceNone a) \<or> (\<exists>a r. p = InstanceStop a r) \<or> (\<exists>a. p = InstanceForget a)"
    unfolding planInstances_find [OF assms(1)] set_append set_map ball_Un ball_simps
    using none assms(2) by (simp add: ball_simps)
  ultimately show ?thesis
    using none assms(2)
    unfolding hasDeferredWork_def planReconcile_def ReconcilePlan.select_convs list_ex_iff
    by fastforce
qed

theorem settled_host_is_left_alone_witness:
  "\<not> hasDeferredWork (planReconcile
     (desired_example [desired_instance_example ''a'' DesiredRunning])
     (observed_example [observed_instance_example ''a'' True]))"
  by (rule conjunct1 [OF settled_host_is_left_alone])
    (simp_all add: plan_examples instance_settled_def observed_of_def)

lemma find_unique_key:
  assumes "distinct (map f xs)" and "x \<in> set xs" and "f x = k"
  shows "find (\<lambda>y. f y = k) xs = Some x"
  using find_distinct_key [OF assms(1,2)] assms(3) by simp

lemma provision_volume:
  assumes "\<And>d' t report. fst (manager d' t) = Inr report \<Longrightarrow> rv_volumeId report = dv_volumeId d'"
  shows "rv_volumeId (fst (provision manager d t)) = dv_volumeId d"
  using assms [of d t]
  by (cases "manager d t"; cases "fst (manager d t)") (simp_all add: provision_def)

lemma provisionAll_volumes:
  assumes "\<And>d' t report. fst (manager d' t) = Inr report \<Longrightarrow> rv_volumeId report = dv_volumeId d'"
    and "u \<in> set (fst (provisionAll manager actions t))"
  shows "\<exists>d. VolumeProvision d \<in> set actions \<and> rv_volumeId u = dv_volumeId d"
  using assms(2)
proof (induction actions arbitrary: t)
  case (Cons action actions)
  show ?case
  proof (cases action)
    case (VolumeProvision d)
    obtain report t' where p: "provision manager d t = (report, t')" by (meson surj_pair)
    have "rv_volumeId report = dv_volumeId d"
      using provision_volume [of manager d t] assms(1) p by simp
    moreover have "fst (provisionAll manager (action # actions) t) =
        report # fst (provisionAll manager actions t')"
      using VolumeProvision p by (simp add: case_prod_beta)
    ultimately show ?thesis
      using Cons.prems Cons.IH [of t'] VolumeProvision by (metis set_ConsD list.set_intros)
  qed (use Cons in auto)
qed simp

text \<open>
  A removal is said until it is heard: once a volume's removal is remembered, every pass that
  still finds the volume named in desired state, does not provision it and does not find its app
  fenced reports it as the removal said, whatever the observation; and a pass that finds desired
  state no longer names it forgets it.
\<close>

theorem removal_reported_until_heard:
  assumes "\<And>d t report. fst (manager d t) = Inr report \<Longrightarrow> rv_volumeId report = dv_volumeId d"
    and "js_keyed rv_volumeId (st_deletedVolumes s)"
    and "js_get (st_deletedVolumes s) v = Some report"
    and "rv_appId report \<notin> fencedApps"
    and "\<forall>d. VolumeProvision d \<in> set (pl_volumes plan) \<longrightarrow> dv_volumeId d \<noteq> v"
    and "applyVolumes manager plan observed desired fencedApps (s, t) = (s', t')"
  shows "if v \<in> dv_volumeId ` set (hd_volumes desired)
    then report \<in> set (st_volumeReports s') \<and> js_get (st_deletedVolumes s') v = Some report
    else js_get (st_deletedVolumes s') v = None"
proof -
  let ?named = "dv_volumeId ` set (hd_volumes desired)"
  let ?deleted = "js_filter_keys (\<lambda>u. u \<in> ?named) (st_deletedVolumes s)"
  define updates where "updates = fst (provisionAll manager (pl_volumes plan) t)"
  define live where "live = filter (\<lambda>volume. rv_appId volume \<notin> fencedApps) (js_values ?deleted)"
  have deleted: "st_deletedVolumes s' = ?deleted"
    using assms(6) by (auto simp: applyVolumes_def Let_def forgetDeletedVolumes_def split: prod.splits)
  have reports: "\<exists>existing. st_volumeReports s' = mergeVolumeReports existing (live @ updates)"
    using assms(6)
    by (auto simp: applyVolumes_def Let_def forgetDeletedVolumes_def updates_def live_def
        split: prod.splits)
  have v: "rv_volumeId report = v" by (rule js_keyed_get [OF assms(2,3)])
  have "\<exists>d. VolumeProvision d \<in> set (pl_volumes plan) \<and> rv_volumeId u = dv_volumeId d"
    if "u \<in> set updates" for u
    using that unfolding updates_def by (rule provisionAll_volumes [rotated]) (rule assms(1))
  then have "find (\<lambda>u. rv_volumeId u = v) (rev updates) = None"
    using assms(5) unfolding find_None_iff set_rev by metis
  moreover have "find (\<lambda>u. rv_volumeId u = v) (rev live) = Some report" if "v \<in> ?named"
  proof (rule find_unique_key)
    have keyed: "js_keyed rv_volumeId ?deleted"
      using assms(2) unfolding js_keyed_def by (simp add: js_valid_filter_keys)
    have "distinct (map rv_volumeId live)"
      unfolding live_def using js_keyed_distinct [OF keyed] by (rule distinct_map_filter)
    then show "distinct (map rv_volumeId (rev live))" by (simp add: rev_map [symmetric])
    have "js_get ?deleted v = Some report" using that assms(3) by simp
    from js_get_in_values [OF this] assms(4) show "report \<in> set (rev live)" by (simp add: live_def)
  qed (rule v)
  ultimately have "report \<in> set (mergeVolumeReports existing (live @ updates))" if "v \<in> ?named" for existing
    using that by (simp add: mergeVolumeReports_mem v find_append)
  then show ?thesis using reports deleted assms(3) by auto
qed

definition removed_volume_example :: DesiredVolume where
  "removed_volume_example =
     \<lparr>dv_volumeId = ''v'', dv_appId = ''a'', dv_sizeBytes = 1, dv_desiredState = Absent,
      dv_seed = None, dv_storage = None\<rparr>"

definition removal_desired_example :: HostDesiredState where
  "removal_desired_example =
     \<lparr>hd_hostId = ''h'', hd_volumes = [removed_volume_example], hd_instances = [],
      hd_checkpoints = [], hd_exports = []\<rparr>"

theorem teardown_only_when_told_witness:
  "VolumeTeardown removed_volume_example \<in> set (pl_volumes
     (planReconcile removal_desired_example (observed_example [])))"
  by (rule iffD2 [OF teardown_only_when_told])
    (simp add: removal_desired_example_def removed_volume_example_def observed_example_def)

theorem removal_reported_until_heard_witness:
  "deletedVolumeReport removed_volume_example \<in> set (st_volumeReports (fst
     (applyVolumes (\<lambda>d t. (Inr (deletedVolumeReport d), t))
       (planReconcile (desired_example []) (observed_example []))
       (observed_example []) removal_desired_example {}
       (rememberDeletedVolume (deletedVolumeReport removed_volume_example) EMPTY, ()))))"
  (is "?r \<in> set (st_volumeReports (fst (applyVolumes ?m ?plan ?o ?d {} (?s, ()))))")
proof -
  define p where "p = applyVolumes ?m ?plan ?o ?d {} (?s, ())"
  have "if ''v'' \<in> dv_volumeId ` set (hd_volumes ?d)
    then ?r \<in> set (st_volumeReports (fst p)) \<and> js_get (st_deletedVolumes (fst p)) ''v'' = Some ?r
    else js_get (st_deletedVolumes (fst p)) ''v'' = None"
  proof (rule removal_reported_until_heard)
    show "js_keyed rv_volumeId (st_deletedVolumes ?s)"
      by (simp add: rememberDeletedVolume_def EMPTY_def js_keyed_def js_valid_def)
    show "applyVolumes ?m ?plan ?o ?d {} (?s, ()) = (fst p, snd p)" 
      unfolding p_def by (rule prod.collapse [symmetric])
  qed (auto simp: deletedVolumeReport_def rememberDeletedVolume_def EMPTY_def
      removed_volume_example_def planReconcile_def planVolumes_def plan_examples)
  then show ?thesis by (simp add: removal_desired_example_def removed_volume_example_def p_def)
qed

text \<open>
  Only a quiet app that runs on request is put to sleep: the pass suspends a record exactly when
  the app is wanted on request by the latest desired state, its record says it is running and wanted,
  it was seen active, and at least the timeout has gone by since (its own, or five minutes).
\<close>

theorem sleeps_only_quiet_apps:
  assumes "distinct (map di_appId (hd_instances desired))"
  shows "r \<in> set (quietRecords (Some desired) nowMs s) \<longleftrightarrow>
    r \<in> set (records s) \<and> ir_onRequest r \<and> ir_desiredRunning r \<and> ir_state r = Running \<and>
    (\<exists>w \<in> set (hd_instances desired). di_appId w = ir_appId r \<and>
       di_desiredState w = DesiredOnRequest \<and>
       (\<exists>at. js_get (st_lastActiveAtMs s) (ir_appId r) = Some at \<and>
          nowMs - at \<ge> (case di_idleTimeoutMs w of None \<Rightarrow> 300000 | Some t \<Rightarrow> t)))"
proof -
  define f where "f = (\<lambda>inst :: DesiredInstance. if di_desiredState inst = DesiredOnRequest
      then Some (di_appId inst, case di_idleTimeoutMs inst of
          None \<Rightarrow> DEFAULT_IDLE_TIMEOUT_MS | Some t \<Rightarrow> t) else None)"
  have valid: "distinct (map fst (List.map_filter f (hd_instances desired)))"
  proof -
    have "map fst (List.map_filter f xs) =
        map di_appId (filter (\<lambda>i. di_desiredState i = DesiredOnRequest) xs)" for xs
      by (induction xs) (simp_all add: List.map_filter_simps f_def)
    then show ?thesis using assms by (simp add: distinct_map_filter)
  qed
  have "js_get (idleTimeouts (Some desired)) a = Some t \<longleftrightarrow>
      (a, t) \<in> set (List.map_filter f (hd_instances desired))" for a t
    using valid by (simp add: idleTimeouts_def f_def [symmetric] js_get_new_map map_of_rev_distinct)
  moreover have "f w = Some (a, t) \<longleftrightarrow> di_appId w = a \<and> di_desiredState w = DesiredOnRequest \<and>
      t = (case di_idleTimeoutMs w of None \<Rightarrow> 300000 | Some x \<Rightarrow> x)" for w a t
    unfolding f_def DEFAULT_IDLE_TIMEOUT_MS_def by auto
  ultimately have timeout: "js_get (idleTimeouts (Some desired)) a = Some t \<longleftrightarrow>
      (\<exists>w \<in> set (hd_instances desired). di_appId w = a \<and> di_desiredState w = DesiredOnRequest \<and>
         t = (case di_idleTimeoutMs w of None \<Rightarrow> 300000 | Some x \<Rightarrow> x))" for a t
    unfolding set_map_filter by blast
  have "hasGoneQuiet r (js_get (idleTimeouts (Some desired)) a) active nowMs \<longleftrightarrow>
      ir_onRequest r \<and> ir_desiredRunning r \<and> ir_state r = Running \<and>
      (\<exists>t at. js_get (idleTimeouts (Some desired)) a = Some t \<and> active = Some at \<and> nowMs - at \<ge> t)"
    for a active
    by (auto simp: hasGoneQuiet_def split: option.split)
  then show ?thesis
    unfolding quietRecords_def Let_def set_filter mem_Collect_eq timeout by blast
qed

theorem sleeps_only_quiet_apps_witness:
  "record_example\<lparr>ir_onRequest := True\<rparr> \<in> set (quietRecords
     (Some (desired_example [desired_instance_example ''a'' DesiredOnRequest])) 400000
     (EMPTY\<lparr>st_records := [(''a'', record_example\<lparr>ir_onRequest := True\<rparr>)],
            st_lastActiveAtMs := [(''a'', 100000)]\<rparr>))"
  by (rule iffD2 [OF sleeps_only_quiet_apps])
    (simp_all add: plan_examples records_def record_example_def)

end
