(* ===== verification/Instances.thy ===== *)
theory Instances
  imports Plan
begin

text \<open>
  Taking one microVM up, down and through its health passes:
  \<open>apps/agent/src/lib/reconcile/instances.ts\<close>.

  Every write to the agent's store is one atomic update, and other loops run between two of them
  whenever the code waits for something outside the agent: systemd, Firecracker, ZeroFS, a probe.
  An operation is therefore written as the updates it makes, in order, around what the outside
  answered: \<open>boot_outcome\<close>, \<open>sleep_outcome\<close>, \<open>wake_outcome\<close>, a unit's status, a probe's verdict, the
  failure read off the console. An operation that waits in the middle is two definitions
  (\<open>\<dots>_begin\<close> and \<open>\<dots>_end\<close>), so that a theorem can let any state stand between them; the operation
  itself composes them. Logs and the report signal carry no state and are left out.
\<close>

section \<open>What the outside answers\<close>

datatype agent_error = AllocationFailed allocation_error | VmError string

datatype boot_outcome = Booted | BootFailed string

datatype sleep_outcome = Slept | SleepRefused string | SleepFailed string

datatype wake_outcome = Woken | SnapshotUnusable | WakeFailed string

datatype WakeOutcome = Restored | AlreadyRunning | ColdBoot | Recovering

record Host =
  ho_state :: AgentSnapshot
  ho_slots :: slot_store

record HostEnv =
  he_latest :: "HostDesiredState option"
  he_devices :: "string set"
  he_describe :: "agent_error \<Rightarrow> string"

definition allocateOn :: "HostEnv \<Rightarrow> AppId \<Rightarrow> Host \<Rightarrow> (agent_error, AppSlot) result \<times> Host" where
  "allocateOn env appId h =
     (case allocateFor (he_latest env) (he_devices env) appId (ho_slots h) of
        (Inl e, table) \<Rightarrow> (Inl (AllocationFailed e), h\<lparr>ho_slots := table\<rparr>)
      | (Inr slot, table) \<Rightarrow> (Inr slot, h\<lparr>ho_slots := table\<rparr>))"

section \<open>Stopping\<close>

definition setState :: "AppId \<Rightarrow> InstanceState \<Rightarrow> bool option \<Rightarrow> AgentSnapshot \<Rightarrow> AgentSnapshot" where
  "setState appId state stopRequested =
     updateRecord appId (\<lambda>r.
       let r = r\<lparr>ir_state := state\<rparr>
       in case stopRequested of None \<Rightarrow> r | Some b \<Rightarrow> r\<lparr>ir_stopRequested := b\<rparr>)"

definition stopInstance_begin :: "AppId \<Rightarrow> AgentSnapshot \<Rightarrow> AgentSnapshot" where
  "stopInstance_begin appId = setState appId Stopping (Some True)"

definition stopInstance_end :: "AppId \<Rightarrow> AgentSnapshot \<Rightarrow> AgentSnapshot" where
  "stopInstance_end appId =
     updateRecord appId (\<lambda>r. r\<lparr>ir_state := Stopped, ir_recovery := None\<rparr>)"

definition stopInstance :: "AppId \<Rightarrow> AgentSnapshot \<Rightarrow> AgentSnapshot" where
  "stopInstance appId s = stopInstance_end appId (stopInstance_begin appId s)"

section \<open>Going to sleep\<close>

definition forget_healthy_since :: "VmRecovery option \<Rightarrow> VmRecovery option" where
  "forget_healthy_since recovery =
     map_option (\<lambda>r. r\<lparr>vr_healthySinceMs := None\<rparr>) recovery"

definition captureIdle_begin :: "AppId \<Rightarrow> AgentSnapshot \<Rightarrow> AgentSnapshot" where
  "captureIdle_begin appId = markSnapshotting appId True"

definition captureIdle_end :: "AppId \<Rightarrow> sleep_outcome \<Rightarrow> AgentSnapshot \<Rightarrow> AgentSnapshot" where
  "captureIdle_end appId outcome s =
     markSnapshotting appId False
       (case outcome of
          Slept \<Rightarrow>
            updateRecord appId (\<lambda>r.
              r\<lparr>ir_state := Idle, ir_stopRequested := True, ir_message := None,
                ir_recovery := forget_healthy_since (ir_recovery r)\<rparr>) s
        | SleepRefused reason \<Rightarrow> s
        | SleepFailed reason \<Rightarrow> s)"

definition captureIdleInstance :: "AppId \<Rightarrow> sleep_outcome \<Rightarrow> Host \<Rightarrow> Host" where
  "captureIdleInstance appId outcome h =
     (case slot_lookup (ho_slots h) appId of
        None \<Rightarrow> h\<lparr>ho_state := stopInstance appId (ho_state h)\<rparr>
      | Some slot \<Rightarrow>
          h\<lparr>ho_state := captureIdle_end appId outcome (captureIdle_begin appId (ho_state h))\<rparr>)"

text \<open>\<open>blocked\<close>: whether a migration holds the app; \<open>guestBusy\<close>: whether guest work is in flight.\<close>

definition suspendInstance ::
  "AppId \<Rightarrow> int option \<Rightarrow> bool \<Rightarrow> bool \<Rightarrow> sleep_outcome \<Rightarrow> Host \<Rightarrow> Host" where
  "suspendInstance appId quietSinceMs blocked guestBusy outcome h =
     (if blocked then h
      else if guestBusy then h
      else if quietSinceMs = None \<or> js_get (st_lastActiveAtMs (ho_state h)) appId = quietSinceMs
      then captureIdleInstance appId outcome h else h)"

section \<open>Starting\<close>

definition restarted :: "InstanceRecord option \<Rightarrow> bool" where
  "restarted existing = (case existing of None \<Rightarrow> False | Some r \<Rightarrow> \<not> ir_stopRequested r)"

definition queued_retry :: "InstanceRecord \<Rightarrow> int option" where
  "queued_retry r = (case ir_recovery r of None \<Rightarrow> None | Some v \<Rightarrow> vr_nextAttemptAtMs v)"

definition isStartable :: "InstanceRecord option \<Rightarrow> int \<Rightarrow> bool" where
  "isStartable existing nowMs =
     (case existing of
        None \<Rightarrow> True
      | Some r \<Rightarrow>
          if ir_state r = Failed then False
          else case queued_retry r of None \<Rightarrow> True | Some at \<Rightarrow> nowMs \<ge> at)"

definition artifactsToStart :: "ReconcilePlan \<Rightarrow> DesiredArtifact list" where
  "artifactsToStart plan =
     js_values (js_new_map (List.map_filter (\<lambda>action.
       case action of
         InstanceStart d \<Rightarrow> Some (art_digest (di_artifact d), di_artifact d)
       | InstanceReplace d \<Rightarrow> Some (art_digest (di_artifact d), di_artifact d)
       | _ \<Rightarrow> None) (pl_instances plan)))"

text \<open>\<open>recordFields\<close>: the fields desired state decides, spread over the record \<open>base\<close>.\<close>

definition recordFields :: "DesiredInstance \<Rightarrow> AppSlot \<Rightarrow> InstanceRecord \<Rightarrow> InstanceRecord" where
  "recordFields desired slot base =
     base\<lparr>ir_appId := di_appId desired, ir_deploymentId := di_deploymentId desired,
          ir_volumeId := di_volumeId desired, ir_hostnames := di_hostnames desired,
          ir_hostPort := as_hostPort slot, ir_httpPort := cfg_httpPort (di_config desired),
          ir_hasExtraPublicPort := Some (cfg_hasExtraPublicPort (di_config desired)),
          ir_guestIpv4 := as_guestIpv4 slot, ir_artifactDigest := art_digest (di_artifact desired),
          ir_healthCheck := cfg_healthCheck (di_config desired),
          ir_resources := cfg_resources (di_config desired), ir_desiredRunning := True,
          ir_onRequest := (di_desiredState desired = DesiredOnRequest)\<rparr>"

text \<open>A record with the fields of \<open>recordFields\<close>, a state and a fresh tracker, and nothing else.\<close>

definition freshRecord :: "DesiredInstance \<Rightarrow> AppSlot \<Rightarrow> InstanceState \<Rightarrow> InstanceRecord" where
  "freshRecord desired slot state =
     newInstanceRecord
       \<lparr>ir_appId = di_appId desired, ir_deploymentId = di_deploymentId desired,
        ir_volumeId = di_volumeId desired, ir_hostnames = di_hostnames desired,
        ir_hostPort = as_hostPort slot, ir_httpPort = cfg_httpPort (di_config desired),
        ir_hasExtraPublicPort = Some (cfg_hasExtraPublicPort (di_config desired)),
        ir_guestIpv4 = as_guestIpv4 slot, ir_artifactDigest = art_digest (di_artifact desired),
        ir_state = state, ir_health = initialTracker,
        ir_healthCheck = cfg_healthCheck (di_config desired),
        ir_resources = cfg_resources (di_config desired), ir_desiredRunning = True,
        ir_onRequest = (di_desiredState desired = DesiredOnRequest), ir_restartCount = 0,
        ir_recovery = None, ir_stopRequested = False, ir_startedAt = None,
        ir_lastExitCode = None, ir_message = None\<rparr>"

definition sleepInstance ::
  "HostEnv \<Rightarrow> DesiredInstance \<Rightarrow> Host \<Rightarrow> (agent_error, unit) result \<times> Host" where
  "sleepInstance env desired h =
     (case allocateOn env (di_appId desired) h of
        (Inl e, h) \<Rightarrow> (Inl e, h)
      | (Inr slot, h) \<Rightarrow>
          (Inr (), h\<lparr>ho_state := putRecord
             (case js_get (st_records (ho_state h)) (di_appId desired) of
                Some existing \<Rightarrow> recordFields desired slot existing
              | None \<Rightarrow> freshRecord desired slot Idle) (ho_state h)\<rparr>))"

definition probeAtOnce :: "AppId \<Rightarrow> AgentSnapshot \<Rightarrow> AgentSnapshot" where
  "probeAtOnce appId s = s\<lparr>st_nextProbeAtMs := js_delete appId (st_nextProbeAtMs s)\<rparr>"

section \<open>A failed microVM\<close>

definition retry_message :: "VmFailure \<Rightarrow> VmRecovery \<Rightarrow> string" where
  "retry_message failure recovery =
     vf_message failure @ ''; retrying the microVM ('' @ show_int (vr_attempts recovery + 1) @
       '' of '' @ show_int (vp_maxRetries (vmRecoveryPolicy failure)) @ '')''"

definition failure_superseded :: "InstanceRecord \<Rightarrow> VmFailure \<Rightarrow> AgentSnapshot \<Rightarrow> bool" where
  "failure_superseded r failure s =
     (case js_get (st_records s) (ir_appId r) of
        None \<Rightarrow> True
      | Some latest \<Rightarrow>
          ir_deploymentId latest \<noteq> ir_deploymentId r \<or> ir_state latest \<noteq> ir_state r \<or>
          ir_startedAt latest \<noteq> ir_startedAt r \<or> ir_stopRequested latest \<noteq> ir_stopRequested r \<or>
          \<not> ir_desiredRunning latest \<or> ir_stopRequested latest \<or>
          (vf_kind failure \<noteq> BootFailure \<and> ir_appId r \<in> st_starting s))"

definition recordVmFailure ::
  "InstanceRecord \<Rightarrow> VmFailure \<Rightarrow> int \<Rightarrow> AgentSnapshot \<Rightarrow> AgentSnapshot" where
  "recordVmFailure r failure nowMs s =
     (let recovery = afterVmFailure (ir_recovery r) failure nowMs;
          retry = vr_nextAttemptAtMs recovery \<noteq> None
      in if failure_superseded r failure s then s
         else case js_get (st_records s) (ir_appId r) of
           None \<Rightarrow> s
         | Some latest \<Rightarrow>
             s\<lparr>st_deferredWork := (st_deferredWork s \<or> retry),
               st_records := js_set (ir_appId r)
                 (latest\<lparr>ir_recovery := Some recovery, ir_lastExitCode := ir_lastExitCode r,
                         ir_state := (if retry then Starting else Failed),
                         ir_message := Some (if retry then retry_message failure recovery
                           else vf_message failure)\<rparr>) (st_records s)\<rparr>)"

definition bootFailure :: "string \<Rightarrow> VmFailure" where
  "bootFailure message =
     \<lparr>vf_kind = BootFailure, vf_message = message, vf_retryable = True, vf_kvmReason = None,
      vf_cpu = None\<rparr>"

section \<open>A start\<close>

text \<open>The record an attempt writes before it boots: \<open>startedAt\<close> is the wire form of now.\<close>

definition attemptedRecord ::
  "DesiredInstance \<Rightarrow> AppSlot \<Rightarrow> InstanceRecord option \<Rightarrow> Timestamp \<Rightarrow> InstanceRecord" where
  "attemptedRecord desired slot existing startedAt =
     (case existing of None \<Rightarrow> freshRecord desired slot Pending | Some r \<Rightarrow> r)
       \<lparr>ir_state := Pending, ir_health := initialTracker, ir_startedAt := Some startedAt,
        ir_recovery := (case existing of
            None \<Rightarrow> None
          | Some r \<Rightarrow> if queued_retry r \<noteq> None then map_option beginVmRetry (ir_recovery r)
                      else ir_recovery r),
        ir_stopRequested := False\<rparr>"

text \<open>Up to the boot: nothing when the record is not startable, else the attempt and what it
  replaced.\<close>

definition attemptStart_begin :: "HostEnv \<Rightarrow> DesiredInstance \<Rightarrow> int \<Rightarrow> Host \<Rightarrow>
    (agent_error, (InstanceRecord \<times> InstanceRecord option) option) result \<times> Host" where
  "attemptStart_begin env desired nowMs h =
     (let existing = js_get (st_records (ho_state h)) (di_appId desired)
      in if \<not> isStartable existing nowMs then (Inr None, h)
         else case allocateOn env (di_appId desired) h of
           (Inl e, h) \<Rightarrow> (Inl e, h)
         | (Inr slot, h) \<Rightarrow>
             (let attempted = attemptedRecord desired slot existing nowMs
              in (Inr (Some (attempted, existing)),
                  h\<lparr>ho_state :=
                      markActive (di_appId desired) nowMs (putRecord attempted (ho_state h))\<rparr>)))"

definition startedRecord :: "InstanceRecord \<Rightarrow> InstanceRecord option \<Rightarrow> Timestamp \<Rightarrow> InstanceRecord" where
  "startedRecord attempted existing startedAt =
     attempted\<lparr>ir_startedAt := Some startedAt, ir_state := Starting, ir_health := initialTracker,
       ir_restartCount := ir_restartCount attempted + (if restarted existing then 1 else 0),
       ir_message := None\<rparr>"

definition attemptStart_end :: "DesiredInstance \<Rightarrow> InstanceRecord \<Rightarrow> InstanceRecord option \<Rightarrow>
    boot_outcome \<Rightarrow> int \<Rightarrow> AgentSnapshot \<Rightarrow> AgentSnapshot" where
  "attemptStart_end desired attempted existing outcome nowMs s =
     (case outcome of
        Booted \<Rightarrow>
          probeAtOnce (di_appId desired)
            (putRecord (startedRecord attempted existing nowMs) s)
      | BootFailed message \<Rightarrow>
          recordVmFailure attempted (bootFailure (reportedMessage message)) nowMs s)"

definition attemptStartInstance :: "HostEnv \<Rightarrow> DesiredInstance \<Rightarrow> int \<Rightarrow> boot_outcome \<Rightarrow> int \<Rightarrow>
    Host \<Rightarrow> (agent_error, unit) result \<times> Host" where
  "attemptStartInstance env desired nowMs outcome bootedMs h =
     (case attemptStart_begin env desired nowMs h of
        (Inl e, h) \<Rightarrow> (Inl e, h)
      | (Inr None, h) \<Rightarrow> (Inr (), h)
      | (Inr (Some (attempted, existing)), h) \<Rightarrow>
          (Inr (), h\<lparr>ho_state :=
             attemptStart_end desired attempted existing outcome bootedMs (ho_state h)\<rparr>))"

definition withStartClaim ::
  "AppId \<Rightarrow> (Host \<Rightarrow> ('e, 'a) result \<times> Host) \<Rightarrow> 'a \<Rightarrow> Host \<Rightarrow> ('e, 'a) result \<times> Host" where
  "withStartClaim appId eff skipped h =
     (case claimStart appId (ho_state h) of
        (False, s) \<Rightarrow> (Inr skipped, h\<lparr>ho_state := s\<rparr>)
      | (True, s) \<Rightarrow>
          (let (res, h) = eff (h\<lparr>ho_state := s\<rparr>)
           in (res, h\<lparr>ho_state := releaseStart appId (ho_state h)\<rparr>)))"

definition startInstance :: "HostEnv \<Rightarrow> DesiredInstance \<Rightarrow> int \<Rightarrow> boot_outcome \<Rightarrow> int \<Rightarrow>
    Host \<Rightarrow> (agent_error, unit) result \<times> Host" where
  "startInstance env desired nowMs outcome bootedMs =
     withStartClaim (di_appId desired)
       (attemptStartInstance env desired nowMs outcome bootedMs) ()"

section \<open>A wake\<close>

definition restored :: "AppId \<Rightarrow> Timestamp \<Rightarrow> AgentSnapshot \<Rightarrow> AgentSnapshot" where
  "restored appId startedAt s =
     probeAtOnce appId (updateRecord appId (\<lambda>r.
       r\<lparr>ir_state := Starting, ir_startedAt := Some startedAt, ir_stopRequested := False,
         ir_message := None\<rparr>) s)"

text \<open>What an error of the wake, or of the cold boot standing in for it, leaves on the record.\<close>

definition resume_failed ::
  "HostEnv \<Rightarrow> DesiredInstance \<Rightarrow> agent_error \<Rightarrow> int \<Rightarrow> AgentSnapshot \<Rightarrow> AgentSnapshot" where
  "resume_failed env desired e nowMs s =
     (case js_get (st_records s) (di_appId desired) of
        None \<Rightarrow> s
      | Some latest \<Rightarrow>
          if ir_deploymentId latest = di_deploymentId desired \<and> ir_desiredRunning latest \<and>
             ir_state latest \<noteq> Stopped
          then recordVmFailure (latest\<lparr>ir_stopRequested := False\<rparr>)
                 (bootFailure (reportedMessage (he_describe env e))) nowMs
                 (updateRecord (di_appId desired) (\<lambda>r. r\<lparr>ir_stopRequested := False\<rparr>) s)
          else s)"

definition attemptResumeInstance :: "HostEnv \<Rightarrow> DesiredInstance \<Rightarrow> UnitStatus \<Rightarrow> int \<Rightarrow>
    wake_outcome \<Rightarrow> boot_outcome \<Rightarrow> int \<Rightarrow> Host \<Rightarrow> (agent_error, WakeOutcome) result \<times> Host" where
  "attemptResumeInstance env desired unit nowMs wake boot doneMs h =
     (let appId = di_appId desired;
          r = js_get (st_records (ho_state h)) appId
      in if (case r of None \<Rightarrow> False | Some x \<Rightarrow> ir_state x = Failed \<or> queued_retry x \<noteq> None)
         then (Inr Recovering, h)
         else case allocateOn env appId h of
           (Inl e, h) \<Rightarrow> (Inl e, h)
         | (Inr slot, h) \<Rightarrow>
             if us_active unit then (Inr AlreadyRunning, h)
             else if (case r of None \<Rightarrow> False
                      | Some x \<Rightarrow> ir_state x \<noteq> Idle \<and> ir_state x \<noteq> Stopped)
             then (Inr Recovering, h)
             else
               (let h = h\<lparr>ho_state := markActive appId nowMs (ho_state h)\<rparr>
                in case wake of
                  Woken \<Rightarrow> (Inr Restored, h\<lparr>ho_state := restored appId doneMs (ho_state h)\<rparr>)
                | SnapshotUnusable \<Rightarrow>
                    (case attemptStartInstance env desired nowMs boot doneMs h of
                       (Inr _, h) \<Rightarrow> (Inr ColdBoot, h)
                     | (Inl e, h) \<Rightarrow>
                         (Inl e, h\<lparr>ho_state := resume_failed env desired e doneMs (ho_state h)\<rparr>))
                | WakeFailed message \<Rightarrow>
                    (Inl (VmError message),
                     h\<lparr>ho_state :=
                         resume_failed env desired (VmError message) doneMs (ho_state h)\<rparr>)))"

definition resumeInstance :: "HostEnv \<Rightarrow> DesiredInstance \<Rightarrow> UnitStatus \<Rightarrow> int \<Rightarrow> wake_outcome \<Rightarrow>
    boot_outcome \<Rightarrow> int \<Rightarrow> Host \<Rightarrow> (agent_error, WakeOutcome) result \<times> Host" where
  "resumeInstance env desired unit nowMs wake boot doneMs =
     withStartClaim (di_appId desired)
       (attemptResumeInstance env desired unit nowMs wake boot doneMs) Recovering"

section \<open>A health pass\<close>

text \<open>\<open>console\<close>: what the console of a VM that stopped says, when this agent started it.\<close>

definition instanceVerdict :: "InstanceState \<Rightarrow> UnitStatus \<Rightarrow> HealthTracker \<Rightarrow> InstanceRecord \<Rightarrow>
    VmFailure option \<Rightarrow> VmFailure option" where
  "instanceVerdict state status health r console =
     (if state \<noteq> Failed then None
      else let consoleFailure = (if us_active status \<or> ir_startedAt r = None then None else console)
           in case consoleFailure of
                Some failure \<Rightarrow> Some failure
              | None \<Rightarrow>
                  Some \<lparr>vf_kind = (if us_active status then HealthFailure else UnexpectedExit),
                    vf_message = describeInstanceFailure status health (ir_healthCheck r)
                      (ir_httpPort r) None,
                    vf_retryable = (\<not> us_active status), vf_kvmReason = None, vf_cpu = None\<rparr>)"

definition isAwaitingRecovery :: "InstanceRecord \<Rightarrow> bool" where
  "isAwaitingRecovery r =
     ((queued_retry r \<noteq> None \<or> ir_state r = Failed) \<and> ir_desiredRunning r \<and>
      \<not> ir_stopRequested r)"

definition shouldRecover :: "InstanceRecord \<Rightarrow> InstanceState \<Rightarrow> bool \<Rightarrow> bool" where
  "shouldRecover r state snapshotting =
     (state = Failed \<and> ir_state r \<noteq> Failed \<and> ir_desiredRunning r \<and> \<not> ir_stopRequested r \<and>
      \<not> snapshotting)"

definition probed_update :: "InstanceRecord \<Rightarrow> int \<Rightarrow> AgentSnapshot \<Rightarrow> AgentSnapshot" where
  "probed_update r nowMs s =
     s\<lparr>st_nextProbeAtMs := js_set (ir_appId r)
         (nowMs + nextProbeDelayMs (ir_health r) (ir_healthCheck r) (ir_startedAt r) nowMs)
         (st_nextProbeAtMs s)\<rparr>"

definition probed_health :: "InstanceRecord \<Rightarrow> bool \<Rightarrow> Timestamp \<Rightarrow> HealthTracker" where
  "probed_health r healthy at =
     applyProbe (ir_health r) healthy at (hc_healthyThreshold (ir_healthCheck r))"

text \<open>Whether the record a pass read is still the one it would be written to.\<close>

definition same_run :: "InstanceRecord \<Rightarrow> InstanceRecord \<Rightarrow> bool" where
  "same_run r latest \<longleftrightarrow>
     ir_deploymentId latest = ir_deploymentId r \<and> ir_startedAt latest = ir_startedAt r \<and>
     ir_state latest = ir_state r \<and> ir_stopRequested latest = ir_stopRequested r"

definition settle_state ::
  "InstanceRecord \<Rightarrow> UnitStatus \<Rightarrow> HealthTracker \<Rightarrow> bool \<Rightarrow> int \<Rightarrow> InstanceState" where
  "settle_state r status health snapshotting nowMs =
     evaluateInstanceState
       \<lparr>li_unit = status, li_tracker = health, li_healthCheck = ir_healthCheck r,
        li_desiredRunning = ir_desiredRunning r, li_onRequest = ir_onRequest r,
        li_stopRequested = ir_stopRequested r, li_snapshotting = snapshotting,
        li_startedAtMs = ir_startedAt r, li_nowMs = nowMs, li_current = ir_state r\<rparr>"

definition settle_recovery ::
  "InstanceRecord \<Rightarrow> InstanceState \<Rightarrow> HealthTracker \<Rightarrow> int \<Rightarrow> VmRecovery option" where
  "settle_recovery r state health nowMs =
     (if ir_desiredRunning r
      then afterVmHealth (ir_recovery r)
             (state = Running \<and> ht_consecutiveFailures health = 0) nowMs
      else None)"

text \<open>What a pass writes once the probe, if there was one, has been measured.\<close>

definition settle_commit :: "InstanceRecord \<Rightarrow> UnitStatus \<Rightarrow> HealthTracker \<Rightarrow> bool \<Rightarrow> int \<Rightarrow>
    VmFailure option \<Rightarrow> AgentSnapshot \<Rightarrow> AgentSnapshot" where
  "settle_commit r status health snapshotting nowMs console s =
     (let state = settle_state r status health snapshotting nowMs;
          recovery = settle_recovery r state health nowMs;
          failure = instanceVerdict state status health r console
      in case (if shouldRecover r state snapshotting then failure else None) of
           Some f \<Rightarrow>
             recordVmFailure (r\<lparr>ir_lastExitCode := us_exitCode status\<rparr>) f nowMs s
         | None \<Rightarrow>
             if state = ir_state r
             then updateRecord (ir_appId r) (\<lambda>latest.
                    if same_run r latest
                    then latest\<lparr>ir_health := health, ir_recovery := recovery\<rparr> else latest) s
             else updateRecord (ir_appId r) (\<lambda>latest.
                    if \<not> same_run r latest then latest
                    else latest\<lparr>ir_health := health, ir_recovery := recovery, ir_state := state,
                           ir_lastExitCode :=
                             (if us_exitCode status \<noteq> None \<and> \<not> us_active status
                              then us_exitCode status else ir_lastExitCode latest),
                           ir_message := map_option vf_message failure\<rparr>) s)"

definition settle :: "InstanceRecord \<Rightarrow> UnitStatus \<Rightarrow> bool \<Rightarrow> bool \<Rightarrow> int \<Rightarrow> bool \<Rightarrow> Timestamp \<Rightarrow>
    VmFailure option \<Rightarrow> AgentSnapshot \<Rightarrow> AgentSnapshot" where
  "settle r status due snapshotting nowMs healthy probedAt console s =
     (if isAwaitingRecovery r then s
      else if us_active status \<and> due
      then settle_commit r status (probed_health r healthy probedAt) snapshotting nowMs console
             (probed_update r nowMs s)
      else settle_commit r status (ir_health r) snapshotting nowMs console s)"

text \<open>
  One pass over every record. \<open>statuses\<close> is what systemd answered, \<open>probe\<close> and \<open>console\<close> what each
  guest answered; the passes over single apps run concurrently and here one after another, each
  reading the snapshot taken before the first.
\<close>

definition refreshStates :: "AppId set \<Rightarrow> (AppId, UnitStatus) jsmap \<Rightarrow> int \<Rightarrow>
    (AppId \<Rightarrow> bool \<times> Timestamp) \<Rightarrow> (AppId \<Rightarrow> VmFailure option) \<Rightarrow> AgentSnapshot \<Rightarrow> AgentSnapshot" where
  "refreshStates blocked statuses nowMs probe console current =
     fold (\<lambda>r s.
         if ir_appId r \<in> blocked then s
         else settle r
           (case js_get statuses (ir_appId r) of None \<Rightarrow> UNKNOWN_UNIT | Some u \<Rightarrow> u)
           (nowMs \<ge> (case js_get (st_nextProbeAtMs current) (ir_appId r) of
              None \<Rightarrow> 0 | Some at \<Rightarrow> at))
           (ir_appId r \<in> st_snapshotting current) nowMs
           (fst (probe (ir_appId r))) (snd (probe (ir_appId r))) (console (ir_appId r)) s)
       (List.map_filter (\<lambda>appId.
          case js_get (st_records current) appId of
            None \<Rightarrow> None
          | Some r \<Rightarrow> if appId \<notin> st_starting current then Some r else None)
         (js_keys (st_records current)))
       current"

section \<open>What every write keeps\<close>

text \<open>A record in order: its recovery budget is one \<open>recovery.ts\<close> can produce, its restarts are
  counted up from zero, and an app runs on request only while it is wanted.\<close>

definition record_ok :: "InstanceRecord \<Rightarrow> bool" where
  "record_ok r \<longleftrightarrow> pred_option recovery_inv (ir_recovery r) \<and> 0 \<le> ir_restartCount r \<and>
     (ir_onRequest r \<longrightarrow> ir_desiredRunning r)"

definition agent_inv :: "AgentSnapshot \<Rightarrow> bool" where
  "agent_inv s \<longleftrightarrow> store_keyed s \<and> (\<forall>a. pred_option record_ok (js_get (st_records s) a))"

lemma agent_inv_get: "agent_inv s \<Longrightarrow> js_get (st_records s) a = Some r \<Longrightarrow> record_ok r \<and> ir_appId r = a"
  unfolding agent_inv_def using js_keyed_get by (metis option.pred_inject(2))

lemma agent_inv_put: "agent_inv s \<Longrightarrow> record_ok r \<Longrightarrow> agent_inv (putRecord r s)"
  by (simp add: agent_inv_def store_keyed_ops js_keyed_set)

lemma agent_inv_drop: "agent_inv s \<Longrightarrow> agent_inv (dropRecord a s)"
  by (simp add: agent_inv_def js_keyed_delete)

lemma agent_inv_update:
  assumes "agent_inv s" and "\<And>r. ir_appId (f r) = ir_appId r" and "\<And>r. record_ok r \<Longrightarrow> record_ok (f r)"
  shows "agent_inv (updateRecord a f s)"
  unfolding agent_inv_def
proof (intro conjI allI)
  show "store_keyed (updateRecord a f s)"
    using assms by (intro store_keyed_updateRecord) (simp_all add: agent_inv_def)
  show "pred_option record_ok (js_get (st_records (updateRecord a f s)) b)" for b
  proof -
    have "pred_option record_ok (js_get (st_records s) c)" for c
      using assms(1) by (simp add: agent_inv_def)
    from this [of a] this [of b] show ?thesis
      using assms(3) by (cases "js_get (st_records s) a") simp_all
  qed
qed

lemma agent_inv_same_records: "agent_inv s \<Longrightarrow> st_records t = st_records s \<Longrightarrow> agent_inv t"
  by (simp add: agent_inv_def)

lemma records_unchanged [simp]:
  "st_records (probeAtOnce a s) = st_records s"
  "st_records (probed_update r now s) = st_records s"
  by (simp_all add: probeAtOnce_def probed_update_def)

lemma agent_inv_unchanged [simp]:
  "agent_inv (probeAtOnce a s) = agent_inv s"
  "agent_inv (probed_update r now s) = agent_inv s"
  "agent_inv (markActive a now s) = agent_inv s"
  by (simp_all add: agent_inv_def)

lemma record_ok_forget_healthy:
  "pred_option recovery_inv v \<Longrightarrow> pred_option recovery_inv (forget_healthy_since v)"
  by (cases v) (simp_all add: forget_healthy_since_def recovery_inv_def)

lemma record_ok_failure:
  "pred_option recovery_inv v \<Longrightarrow> recovery_inv (afterVmFailure v f now)"
  by (rule recovery_inv_failure) (simp add: option.pred_set)

lemma record_ok_health:
  "pred_option recovery_inv v \<Longrightarrow> pred_option recovery_inv (afterVmHealth v h now)"
proof (cases v)
  case (Some r)
  assume "pred_option recovery_inv v"
  with Some have r: "recovery_inv r" by simp
  show ?thesis
    using Some recovery_inv_health [OF r] by (cases "afterVmHealth (Some r) h now") simp_all
qed (simp add: afterVmHealth_def)

lemma record_ok_attempted:
  assumes "pred_option record_ok existing"
  shows "record_ok (attemptedRecord d slot existing now)"
proof (cases existing)
  case None
  then show ?thesis
    by (simp add: record_ok_def attemptedRecord_def freshRecord_def newInstanceRecord_def
        NO_RESTARTS_def)
next
  case (Some r)
  then have "record_ok r" using assms by simp
  then show ?thesis
    using Some recovery_inv_retry
    by (cases "ir_recovery r") (auto simp: record_ok_def attemptedRecord_def queued_retry_def)
qed

lemma record_ok_started: "record_ok r \<Longrightarrow> record_ok (startedRecord r existing now)"
  by (simp add: record_ok_def startedRecord_def)

lemma record_ok_fields:
  "record_ok r \<Longrightarrow> record_ok (recordFields d slot r)"
  "record_ok (freshRecord d slot state)"
  by (simp_all add: record_ok_def recordFields_def freshRecord_def newInstanceRecord_def NO_RESTARTS_def)

lemma ir_appId_simps [simp]:
  "ir_appId (recordFields d slot r) = di_appId d"
  "ir_appId (freshRecord d slot state) = di_appId d"
  "ir_appId (startedRecord r existing now) = ir_appId r"
  by (simp_all add: recordFields_def freshRecord_def newInstanceRecord_def startedRecord_def)

lemma agent_inv_recordVmFailure:
  assumes "agent_inv s" and "record_ok r"
  shows "agent_inv (recordVmFailure r f now s)"
proof (cases "failure_superseded r f s \<or> js_get (st_records s) (ir_appId r) = None")
  case True
  then show ?thesis using assms(1) by (auto simp: recordVmFailure_def Let_def)
next
  case False
  then obtain latest where latest: "js_get (st_records s) (ir_appId r) = Some latest" by blast
  define v where "v = afterVmFailure (ir_recovery r) f now"
  define new where "new = latest\<lparr>ir_recovery := Some v, ir_lastExitCode := ir_lastExitCode r,
      ir_state := (if vr_nextAttemptAtMs v \<noteq> None then Starting else Failed),
      ir_message := Some (if vr_nextAttemptAtMs v \<noteq> None then retry_message f v else vf_message f)\<rparr>"
  have app: "ir_appId new = ir_appId r" and "record_ok new"
    using agent_inv_get [OF assms(1) latest] record_ok_failure [of "ir_recovery r"] assms(2)
    by (auto simp: new_def record_ok_def v_def)
  from agent_inv_put [OF assms(1) this(2)] have "agent_inv (putRecord new s)" .
  moreover have "st_records (recordVmFailure r f now s) = st_records (putRecord new s)"
    using False latest app
    by (simp add: recordVmFailure_def Let_def new_def v_def putRecord_def)
  ultimately show ?thesis by (rule agent_inv_same_records)
qed

lemma agent_inv_settle_commit:
  assumes "agent_inv s" and "record_ok r"
  shows "agent_inv (settle_commit r status health snap now console s)"
proof -
  let ?state = "settle_state r status health snap now"
  have rec: "pred_option recovery_inv (settle_recovery r state h now)" for state h
    using assms(2) record_ok_health by (simp add: settle_recovery_def record_ok_def)
  show ?thesis
  proof (cases "if shouldRecover r ?state snap then instanceVerdict ?state status health r console else None")
    case (Some f)
    then show ?thesis
      using assms by (simp add: settle_commit_def Let_def)
        (rule agent_inv_recordVmFailure, simp_all add: record_ok_def)
  next
    case None
    then show ?thesis
      unfolding settle_commit_def Let_def None option.case
      using assms(1) rec by (auto intro!: agent_inv_update simp: record_ok_def)
  qed
qed

section \<open>Interleavings\<close>

text \<open>
  The loops of the agent run side by side. A start in flight is the attempt it wrote and the record
  it found; a health pass in flight is the record it read. Between any two steps any other may run.
\<close>

record agent_run =
  ar_host :: Host
  ar_starts :: "(DesiredInstance \<times> InstanceRecord \<times> InstanceRecord option) set"
  ar_passes :: "InstanceRecord set"

abbreviation ar_on :: "(AgentSnapshot \<Rightarrow> AgentSnapshot) \<Rightarrow> agent_run \<Rightarrow> agent_run" where
  "ar_on f y \<equiv> y\<lparr>ar_host := (ar_host y)\<lparr>ho_state := f (ho_state (ar_host y))\<rparr>\<rparr>"

inductive agent_step :: "agent_run \<Rightarrow> agent_run \<Rightarrow> bool" where
  start_begins: "attemptStart_begin env d now (ar_host y) = (Inr (Some (r, existing)), h) \<Longrightarrow>
    agent_step y (y\<lparr>ar_host := h, ar_starts := insert (d, r, existing) (ar_starts y)\<rparr>)"
| start_ends: "(d, r, existing) \<in> ar_starts y \<Longrightarrow>
    agent_step y (ar_on (attemptStart_end d r existing outcome now) y)"
| pass_reads: "js_get (st_records (ho_state (ar_host y))) a = Some r \<Longrightarrow>
    agent_step y (y\<lparr>ar_passes := insert r (ar_passes y)\<rparr>)"
| pass_probes: "r \<in> ar_passes y \<Longrightarrow> agent_step y (ar_on (probed_update r now) y)"
| pass_settles: "r \<in> ar_passes y \<Longrightarrow>
    agent_step y (ar_on (settle_commit r status health snap now console) y)"
| stop_begins: "agent_step y (ar_on (stopInstance_begin a) y)"
| stop_ends: "agent_step y (ar_on (stopInstance_end a) y)"
| capture_begins: "agent_step y (ar_on (captureIdle_begin a) y)"
| capture_ends: "agent_step y (ar_on (captureIdle_end a outcome) y)"
| sleeps: "sleepInstance env d (ar_host y) = (res, h) \<Longrightarrow> agent_step y (y\<lparr>ar_host := h\<rparr>)"
| wakes: "agent_step y (ar_on (restored a now) y)"
| wake_fails: "agent_step y (ar_on (resume_failed env d e now) y)"
| claims: "agent_step y (ar_on (\<lambda>s. snd (claimStart a s)) y)"
| unclaims: "agent_step y (ar_on (releaseStart a) y)"
| drops: "agent_step y (ar_on (dropRecord a) y)"

inductive agent_reachable :: "agent_run \<Rightarrow> bool" where
  empty: "agent_reachable
    \<lparr>ar_host = \<lparr>ho_state = EMPTY, ho_slots = table\<rparr>, ar_starts = {}, ar_passes = {}\<rparr>"
| step: "agent_reachable y \<Longrightarrow> agent_step y z \<Longrightarrow> agent_reachable z"

definition run_inv :: "agent_run \<Rightarrow> bool" where
  "run_inv y \<longleftrightarrow> agent_inv (ho_state (ar_host y)) \<and>
     (\<forall>r \<in> ar_passes y. record_ok r) \<and> (\<forall>p \<in> ar_starts y. record_ok (fst (snd p)))"

lemma ho_state_allocateOn: "ho_state (snd (allocateOn env a h)) = ho_state h"
  by (simp add: allocateOn_def split: prod.split sum.split)

lemma agent_inv_begin:
  assumes "attemptStart_begin env d now h = (Inr (Some (r, existing)), h')" and "agent_inv (ho_state h)"
  shows "record_ok r \<and> agent_inv (ho_state h')"
proof -
  have e: "existing = js_get (st_records (ho_state h)) (di_appId d)"
    and st: "\<exists>slot. r = attemptedRecord d slot existing now \<and>
      ho_state h' = markActive (di_appId d) now (putRecord r (ho_state h))"
    using assms(1) ho_state_allocateOn [of env "di_appId d" h]
    by (auto simp: attemptStart_begin_def Let_def split: if_splits prod.splits sum.splits)
  have "pred_option record_ok existing" using assms(2) e by (simp add: agent_inv_def)
  then have ok: "record_ok r" using st record_ok_attempted by blast
  have "agent_inv (putRecord r (ho_state h))" by (rule agent_inv_put [OF assms(2) ok])
  then show ?thesis using ok st by (auto intro: agent_inv_same_records)
qed

lemma agent_inv_end:
  assumes "agent_inv s" "record_ok r"
  shows "agent_inv (attemptStart_end d r existing outcome now s)"
  using assms agent_inv_put [OF assms(1) record_ok_started [OF assms(2)]] agent_inv_recordVmFailure
  by (cases outcome) (auto simp: attemptStart_end_def intro: agent_inv_same_records)

lemma agent_inv_simple:
  assumes "agent_inv s"
  shows "agent_inv (stopInstance_begin a s)" and "agent_inv (stopInstance_end a s)"
    and "agent_inv (captureIdle_begin a s)" and "agent_inv (captureIdle_end a outcome s)"
    and "agent_inv (restored a now s)" and "agent_inv (resume_failed env d e now s)"
proof -
  show "agent_inv (stopInstance_begin a s)" "agent_inv (stopInstance_end a s)"
    unfolding stopInstance_begin_def stopInstance_end_def setState_def
    using assms by (auto intro!: agent_inv_update simp: record_ok_def)
  show "agent_inv (captureIdle_begin a s)"
    using assms by (auto simp: captureIdle_begin_def intro: agent_inv_same_records)
  show "agent_inv (captureIdle_end a outcome s)"
    unfolding captureIdle_end_def
    by (rule agent_inv_same_records
        [of "case outcome of Slept \<Rightarrow> updateRecord a (\<lambda>r.
           r\<lparr>ir_state := Idle, ir_stopRequested := True, ir_message := None,
             ir_recovery := forget_healthy_since (ir_recovery r)\<rparr>) s | _ \<Rightarrow> s"])
      (use assms in \<open>cases outcome, auto intro!: agent_inv_update record_ok_forget_healthy
        simp: record_ok_def\<close>)
  show "agent_inv (restored a now s)"
    unfolding restored_def
    by (rule agent_inv_same_records [OF agent_inv_update [OF assms]]) (simp_all add: record_ok_def)
  show "agent_inv (resume_failed env d e now s)"
  proof (cases "js_get (st_records s) (di_appId d)")
    case (Some latest)
    have "agent_inv (updateRecord (di_appId d) (\<lambda>r. r\<lparr>ir_stopRequested := False\<rparr>) s)"
      by (rule agent_inv_update [OF assms]) (simp_all add: record_ok_def)
    moreover have "record_ok (latest\<lparr>ir_stopRequested := False\<rparr>)"
      using agent_inv_get [OF assms Some] by (simp add: record_ok_def)
    ultimately show ?thesis
      using assms Some by (simp add: resume_failed_def agent_inv_recordVmFailure)
  qed (simp add: resume_failed_def assms)
qed

lemma agent_inv_sleep:
  assumes "sleepInstance env d h = (res, h')" "agent_inv (ho_state h)"
  shows "agent_inv (ho_state h')"
proof -
  have "ho_state h' = ho_state h \<or> (\<exists>slot. ho_state h' = putRecord
      (case js_get (st_records (ho_state h)) (di_appId d) of
         Some existing \<Rightarrow> recordFields d slot existing
       | None \<Rightarrow> freshRecord d slot Idle) (ho_state h))"
    using assms(1) ho_state_allocateOn [of env "di_appId d" h]
    by (auto simp: sleepInstance_def split: prod.splits sum.splits)
  moreover have "record_ok (case js_get (st_records (ho_state h)) (di_appId d) of
         Some existing \<Rightarrow> recordFields d slot existing | None \<Rightarrow> freshRecord d slot Idle)" for slot
    using agent_inv_get [OF assms(2)] record_ok_fields
    by (cases "js_get (st_records (ho_state h)) (di_appId d)") simp_all
  ultimately show ?thesis using assms(2) agent_inv_put by metis
qed

lemma run_inv_step: "agent_step y z \<Longrightarrow> run_inv y \<Longrightarrow> run_inv z"
proof (induction rule: agent_step.induct)
  case (start_begins env d now y r existing h)
  then show ?case using agent_inv_begin [OF start_begins(1)] by (simp add: run_inv_def)
next
  case (start_ends d r existing y outcome now)
  then show ?case using agent_inv_end by (force simp: run_inv_def)
next
  case (pass_reads y a r)
  then show ?case using agent_inv_get [OF _ pass_reads(1)] by (simp add: run_inv_def)
next
  case (pass_probes r y now)
  then show ?case by (simp add: run_inv_def agent_inv_def)
next
  case (sleeps env d y res h)
  then show ?case using agent_inv_sleep [OF sleeps(1)] by (simp add: run_inv_def)
qed (auto simp: run_inv_def agent_inv_simple agent_inv_settle_commit agent_inv_drop
    intro: agent_inv_same_records)

lemma run_inv_reachable: "agent_reachable y \<Longrightarrow> run_inv y"
  by (induction rule: agent_reachable.induct) (simp_all add: run_inv_step, simp add: run_inv_def agent_inv_def EMPTY_def)

section \<open>Each operation keeps to its own app\<close>

lemma recordVmFailure_other:
  "a \<noteq> ir_appId r \<Longrightarrow> js_get (st_records (recordVmFailure r f now s)) a = js_get (st_records s) a"
  by (simp add: recordVmFailure_def Let_def split: option.split)

lemma settle_other:
  "a \<noteq> ir_appId r \<Longrightarrow>
     js_get (st_records (settle r status due snap now healthy at console s)) a = js_get (st_records s) a"
  by (simp add: settle_def settle_commit_def Let_def recordVmFailure_other split: option.split)

lemma settle_agent_inv:
  "agent_inv s \<Longrightarrow> record_ok r \<Longrightarrow> agent_inv (settle r status due snap now healthy at console s)"
  by (simp add: settle_def agent_inv_settle_commit)

lemma resume_failed_other:
  assumes "agent_inv s" and "a \<noteq> di_appId d"
  shows "js_get (st_records (resume_failed env d e now s)) a = js_get (st_records s) a"
proof (cases "js_get (st_records s) (di_appId d)")
  case (Some latest)
  have "ir_appId latest = di_appId d" using agent_inv_get [OF assms(1) Some] by simp
  then show ?thesis using Some assms(2) by (simp add: resume_failed_def recordVmFailure_other)
qed (simp add: resume_failed_def)

lemma attemptStart_begin_spec:
  assumes "attemptStart_begin env d now h = (Inr (Some (r, existing)), t)" and "agent_inv (ho_state h)"
  shows "ir_appId r = di_appId d"
    and "a \<noteq> di_appId d \<Longrightarrow>
      js_get (st_records (ho_state t)) a = js_get (st_records (ho_state h)) a"
proof -
  have e: "existing = js_get (st_records (ho_state h)) (di_appId d)"
    and st: "\<exists>slot. r = attemptedRecord d slot existing now \<and>
      ho_state t = markActive (di_appId d) now (putRecord r (ho_state h))"
    using assms(1) ho_state_allocateOn [of env "di_appId d" h]
    by (auto simp: attemptStart_begin_def Let_def split: if_splits prod.splits sum.splits)
  show app: "ir_appId r = di_appId d"
  proof (cases existing)
    case None
    then show ?thesis using st by (auto simp: attemptedRecord_def freshRecord_def newInstanceRecord_def)
  next
    case (Some x)
    then show ?thesis using st e agent_inv_get [OF assms(2), of "di_appId d" x]
      by (auto simp: attemptedRecord_def)
  qed
  show "js_get (st_records (ho_state t)) a = js_get (st_records (ho_state h)) a"
    if "a \<noteq> di_appId d"
    using st app that by auto
qed

lemma attemptStart_begin_else:
  assumes "attemptStart_begin env d now h = (res, t)" and "\<forall>p. res \<noteq> Inr (Some p)"
  shows "ho_state t = ho_state h"
  using assms ho_state_allocateOn [of env "di_appId d" h]
  by (auto simp: attemptStart_begin_def Let_def split: if_splits prod.splits sum.splits)

lemma attemptStart_end_other:
  assumes "ir_appId r = di_appId d" and "a \<noteq> di_appId d"
  shows "js_get (st_records (attemptStart_end d r existing outcome now s)) a = js_get (st_records s) a"
  using assms by (cases outcome) (simp_all add: attemptStart_end_def recordVmFailure_other)

lemma attemptStart_keeps:
  assumes "agent_inv (ho_state h)"
  shows "agent_inv (ho_state (snd (attemptStartInstance env d now boot done h)))"
    and "a \<noteq> di_appId d \<Longrightarrow>
      js_get (st_records (ho_state (snd (attemptStartInstance env d now boot done h)))) a =
      js_get (st_records (ho_state h)) a"
proof -
  obtain res t where b: "attemptStart_begin env d now h = (res, t)" by (metis prod.exhaust)
  have "agent_inv (ho_state (snd (attemptStartInstance env d now boot done h))) \<and>
    (a \<noteq> di_appId d \<longrightarrow>
      js_get (st_records (ho_state (snd (attemptStartInstance env d now boot done h)))) a =
      js_get (st_records (ho_state h)) a)"
  proof (cases "\<exists>r existing. res = Inr (Some (r, existing))")
    case True
    then obtain r existing where res: "res = Inr (Some (r, existing))" by blast
    note begins = b [unfolded res]
    show ?thesis
      using agent_inv_end [of "ho_state t" r d existing boot "done"]
        agent_inv_begin [OF begins assms] attemptStart_begin_spec(1) [OF begins assms]
        attemptStart_begin_spec(2) [OF begins assms, of a]
        attemptStart_end_other [of r d a existing boot "done" "ho_state t"]
      by (simp add: attemptStartInstance_def b res)
  next
    case False
    then have "ho_state t = ho_state h"
      by (intro attemptStart_begin_else [OF b]) (metis prod.exhaust)
    then show ?thesis
      using False assms by (auto simp: attemptStartInstance_def b split: sum.split option.split)
  qed
  then show "agent_inv (ho_state (snd (attemptStartInstance env d now boot done h)))"
    "a \<noteq> di_appId d \<Longrightarrow>
      js_get (st_records (ho_state (snd (attemptStartInstance env d now boot done h)))) a =
      js_get (st_records (ho_state h)) a"
    by blast+
qed

lemma withStartClaim_keeps:
  assumes "agent_inv (ho_state h)"
    and "\<And>x. agent_inv (ho_state x) \<Longrightarrow> agent_inv (ho_state (snd (eff x)))"
    and "\<And>x. agent_inv (ho_state x) \<Longrightarrow> js_get (st_records (ho_state x)) a = v \<Longrightarrow>
      js_get (st_records (ho_state (snd (eff x)))) a = v"
    and "js_get (st_records (ho_state h)) a = v"
  shows "agent_inv (ho_state (snd (withStartClaim b eff skipped h))) \<and>
    js_get (st_records (ho_state (snd (withStartClaim b eff skipped h)))) a = v"
proof -
  let ?x = "h\<lparr>ho_state := snd (claimStart b (ho_state h))\<rparr>"
  have "agent_inv (ho_state ?x)" using assms(1) by (simp add: agent_inv_def)
  from assms(2,3) [OF this] show ?thesis
    using assms(1,4)
    by (cases "b \<in> st_starting (ho_state h)")
      (simp_all add: withStartClaim_def claimStart_def agent_inv_def case_prod_beta Let_def)
qed

lemma resume_keeps:
  assumes "agent_inv (ho_state h)"
  shows "agent_inv (ho_state (snd (attemptResumeInstance env d unit now wake boot done h)))"
    and "a \<noteq> di_appId d \<Longrightarrow>
      js_get (st_records (ho_state (snd (attemptResumeInstance env d unit now wake boot done h)))) a =
      js_get (st_records (ho_state h)) a"
proof -
  obtain res t where al: "allocateOn env (di_appId d) h = (res, t)" by (metis prod.exhaust)
  have t: "ho_state t = ho_state h" using ho_state_allocateOn [of env "di_appId d" h] al by simp
  let ?m = "t\<lparr>ho_state := markActive (di_appId d) now (ho_state h)\<rparr>"
  have m: "agent_inv (ho_state ?m)" using assms t by simp
  note start = attemptStart_keeps(1) [OF m, of env d now boot "done"]
    attemptStart_keeps(2) [OF m, of _ d env now boot "done"]
  obtain sres u where st: "attemptStartInstance env d now boot done ?m = (sres, u)" by (metis prod.exhaust)
  have u: "agent_inv (ho_state u)" using start(1) st by simp
  have ua: "js_get (st_records (ho_state u)) a = js_get (st_records (ho_state h)) a"
    if "a \<noteq> di_appId d" for a
    using start(2) [OF that] st t by simp
  have "agent_inv (ho_state (snd (attemptResumeInstance env d unit now wake boot done h))) \<and>
    (a \<noteq> di_appId d \<longrightarrow>
      js_get (st_records (ho_state (snd (attemptResumeInstance env d unit now wake boot done h)))) a =
      js_get (st_records (ho_state h)) a)" for a
    using assms m t u ua [of a] agent_inv_simple(5,6) [OF m] agent_inv_simple(6) [OF u]
      resume_failed_other [OF m, of a d] resume_failed_other [OF u, of a d]
    by (cases wake; cases sres)
      (simp_all add: attemptResumeInstance_def Let_def al st restored_def split: sum.split)
  then show "agent_inv (ho_state (snd (attemptResumeInstance env d unit now wake boot done h)))"
    "a \<noteq> di_appId d \<Longrightarrow>
      js_get (st_records (ho_state (snd (attemptResumeInstance env d unit now wake boot done h)))) a =
      js_get (st_records (ho_state h)) a"
    by blast+
qed

lemma policy_limits:
  "vp_maxRetries (vmRecoveryPolicy f) = (if vf_kind f = KvmFailure then 10 else 3)"
  "vp_maxRetries KVM_RECOVERY_POLICY = 10"
  by (simp_all add: recovery_policy_defs)

section \<open>Properties\<close>


definition started_example :: "Host \<Rightarrow> Host" where
  "started_example h = snd (attemptStart_begin
     \<lparr>he_latest = None, he_devices = {}, he_describe = (\<lambda>_. [])\<rparr>
     (desired_instance_example ''a'' DesiredRunning) 1000 h)"

definition empty_host :: Host where
  "empty_host = \<lparr>ho_state = EMPTY, ho_slots = \<lparr>ss_assignments = [], ss_cursor = 0\<rparr>\<rparr>"

definition attempted_example :: InstanceRecord where
  "attempted_example =
     attemptedRecord (desired_instance_example ''a'' DesiredRunning) (describeSlot 0 ''a'') None 1000"

lemma allocate_empty_example:
  "allocate None a \<lparr>ss_assignments = [], ss_cursor = 0\<rparr> =
     (Inr (describeSlot 0 a), \<lparr>ss_assignments = [(a, 0)], ss_cursor = 1\<rparr>)"
proof -
  have "nextFree [] 0 a None = Some 0"
    by (simp add: nextFree_def SLOT_SPAN_def wrapped_mod slot_constants upt_conv_Cons)
  then show ?thesis by (simp add: allocate_def withSlot_def)
qed

lemma attempt_example:
  "attemptStart_begin \<lparr>he_latest = None, he_devices = {}, he_describe = (\<lambda>_. [])\<rparr>
     (desired_instance_example ''a'' DesiredRunning) 1000 empty_host =
   (Inr (Some (attempted_example, None)),
    \<lparr>ho_state = markActive ''a'' 1000 (putRecord attempted_example EMPTY),
     ho_slots = \<lparr>ss_assignments = [(''a'', 0)], ss_cursor = 1\<rparr>\<rparr>)"
  by (simp add: attemptStart_begin_def Let_def empty_host_def EMPTY_def isStartable_def
      allocateOn_def allocateFor_def usesOwnStorage_def desired_instance_example_def
      allocate_empty_example attempted_example_def)


text \<open>
  What a pass measured never overwrites what happened since: when the record a health pass read
  is no longer the one in the store (another deployment, another run, another state, a stop asked
  for or taken back, or the record gone), committing the pass leaves every record as it is.
\<close>

theorem stale_pass_changes_nothing:
  assumes "case js_get (st_records s) (ir_appId r) of None \<Rightarrow> True
    | Some latest \<Rightarrow> ir_deploymentId latest \<noteq> ir_deploymentId r \<or> ir_startedAt latest \<noteq> ir_startedAt r \<or>
        ir_state latest \<noteq> ir_state r \<or> ir_stopRequested latest \<noteq> ir_stopRequested r"
  shows "js_get (st_records (settle_commit r status health snap now console s)) b =
    js_get (st_records s) b"
proof -
  have keep: "js_get (st_records (updateRecord (ir_appId r) f s)) b = js_get (st_records s) b"
    if "\<And>latest. \<not> same_run r latest \<Longrightarrow> f latest = latest" for f
    using assms that by (cases "js_get (st_records s) (ir_appId r)") (auto simp: same_run_def)
  have sup: "failure_superseded (r\<lparr>ir_lastExitCode := c\<rparr>) f s" for c f
    using assms by (cases "js_get (st_records s) (ir_appId r)") (auto simp: failure_superseded_def)
  show ?thesis
    by (simp add: settle_commit_def Let_def recordVmFailure_def sup keep
        del: records_updateRecord split: option.split)
qed

theorem stale_pass_changes_nothing_witness:
  "js_get (st_records (settle_commit record_example UNKNOWN_UNIT initialTracker False 0 None
     (stopInstance_begin ''a'' (putRecord record_example EMPTY)))) ''a'' =
   Some (record_example\<lparr>ir_state := Stopping, ir_stopRequested := True\<rparr>)"
proof -
  let ?s = "stopInstance_begin ''a'' (putRecord record_example EMPTY)"
  have a: "ir_appId record_example = ''a''" by (simp add: record_example_def)
  have s: "js_get (st_records ?s) ''a'' =
      Some (record_example\<lparr>ir_state := Stopping, ir_stopRequested := True\<rparr>)"
    by (simp add: stopInstance_begin_def setState_def Let_def a EMPTY_def)
  show ?thesis
    by (subst stale_pass_changes_nothing)
      (simp_all add: a s, simp add: record_example_def)
qed

text \<open>
  A wake is not a restart: waking an app that sleeps or was stopped, whose microVM is down, whose
  slot is held and whose snapshot loads, reports a restore, takes and gives back the start claim, and
  changes of the record only the state, the start and the flag and message of the stop: the restart
  count, the health tracker and the recovery budget are as they were.
\<close>

theorem wake_is_not_a_restart:
  assumes "js_get (st_records (ho_state h)) (di_appId d) = Some r"
    and "ir_state r = Idle \<or> ir_state r = Stopped" and "queued_retry r = None"
    and "slot_lookup (ho_slots h) (di_appId d) = Some slot"
    and "\<not> usesOwnStorage (he_latest env) (di_appId d)"
    and "di_appId d \<notin> st_starting (ho_state h)" and "\<not> us_active unit"
  shows "fst (resumeInstance env d unit now Woken boot done h) = Inr Restored \<and>
    js_get (st_records (ho_state (snd (resumeInstance env d unit now Woken boot done h)))) (di_appId d) =
      Some (r\<lparr>ir_state := Starting, ir_startedAt := Some done, ir_stopRequested := False,
              ir_message := None\<rparr>) \<and>
    di_appId d \<notin> st_starting (ho_state (snd (resumeInstance env d unit now Woken boot done h))) \<and>
    js_get (st_lastActiveAtMs (ho_state (snd (resumeInstance env d unit now Woken boot done h))))
      (di_appId d) = Some now"
proof -
  have alloc: "allocateOn env (di_appId d) x = (Inr slot, x)" if "ho_slots x = ho_slots h" for x
    using assms(4,5) that
    by (simp add: allocateOn_def allocateFor_def allocate_def slot_lookup_def reuseSlot_def)
  show ?thesis
    using assms(1,2,3,6,7)
    by (auto simp: resumeInstance_def withStartClaim_def attemptResumeInstance_def Let_def alloc
        claimStart_def restored_def releaseStart_def probeAtOnce_def markActive_def updateRecord_def)
qed

definition sleeping_host :: Host where
  "sleeping_host =
     \<lparr>ho_state = putRecord (record_example\<lparr>ir_state := Idle, ir_stopRequested := True\<rparr>) EMPTY,
      ho_slots = \<lparr>ss_assignments = [(''a'', 3)], ss_cursor = 4\<rparr>\<rparr>"

theorem wake_is_not_a_restart_witness:
  "fst (resumeInstance \<lparr>he_latest = None, he_devices = {}, he_describe = (\<lambda>_. [])\<rparr>
     (desired_instance_example ''a'' DesiredOnRequest) UNKNOWN_UNIT 5 Woken Booted 9 sleeping_host)
   = Inr Restored"
proof -
  have app: "di_appId (desired_instance_example ''a'' DesiredOnRequest) = ''a''"
    by (simp add: desired_instance_example_def)
  show ?thesis
    by (rule conjunct1 [OF wake_is_not_a_restart
        [where r = "record_example\<lparr>ir_state := Idle, ir_stopRequested := True\<rparr>"
           and slot = "describeSlot 3 ''a''"]])
      (simp_all add: app sleeping_host_def EMPTY_def queued_retry_def slot_lookup_def withSlot_def
        usesOwnStorage_def UNKNOWN_UNIT_def, simp_all add: record_example_def)
qed

text \<open>
  A start is accounted for once: an attempt that boots counts one restart exactly when it follows
  a run nobody asked to stop, charges one attempt to the recovery budget exactly when a retry was
  queued, drops any stop that was asked for and starts the health check afresh.
\<close>

theorem start_accounting:
  assumes "attemptStart_begin env d now h = (Inr (Some (attempted, existing)), t)"
    and "existing = Some r" and "agent_inv (ho_state h)"
  shows "js_get (st_records (attemptStart_end d attempted existing Booted done (ho_state t))) (di_appId d) =
    Some (r\<lparr>ir_state := Starting, ir_health := initialTracker, ir_startedAt := Some done,
            ir_recovery := (if queued_retry r = None then ir_recovery r
              else map_option beginVmRetry (ir_recovery r)),
            ir_stopRequested := False,
            ir_restartCount := ir_restartCount r + (if ir_stopRequested r then 0 else 1),
            ir_message := None\<rparr>) \<and>
    ir_state r \<noteq> Failed \<and> (\<forall>at. queued_retry r = Some at \<longrightarrow> at \<le> now)"
proof -
  have r: "js_get (st_records (ho_state h)) (di_appId d) = Some r"
    and startable: "isStartable (Some r) now"
    and att: "\<exists>slot. attempted = attemptedRecord d slot (Some r) now"
    using assms(1,2)
    by (auto simp: attemptStart_begin_def Let_def split: if_splits prod.splits sum.splits)
  have app: "ir_appId r = di_appId d" using agent_inv_get [OF assms(3) r] by simp
  have "ir_appId attempted = di_appId d" using att app by (auto simp: attemptedRecord_def)
  then show ?thesis
    using att startable assms(2)
    by (auto simp: attemptStart_end_def startedRecord_def attemptedRecord_def restarted_def
        isStartable_def split: if_splits option.splits)
qed

theorem start_accounting_witness:
  "ir_state record_example \<noteq> Failed"
proof -
  define h where "h = \<lparr>ho_state = putRecord record_example EMPTY,
      ho_slots = \<lparr>ss_assignments = [(''a'', 3)], ss_cursor = 4\<rparr>\<rparr>"
  define d where "d = desired_instance_example ''a'' DesiredRunning"
  define env where "env = \<lparr>he_latest = None, he_devices = {}, he_describe = (\<lambda>_ :: agent_error. [])\<rparr>"
  have rec: "js_get (st_records (ho_state h)) ''a'' = Some record_example"
    by (simp add: h_def EMPTY_def) (simp add: record_example_def)
  have "isStartable (Some record_example) 50"
    by (simp add: isStartable_def record_example_def queued_retry_def)
  then have begins: "attemptStart_begin env d 50 h = (Inr (Some
      (attemptedRecord d (describeSlot 3 ''a'') (Some record_example) 50, Some record_example)),
      h\<lparr>ho_state := markActive ''a'' 50
          (putRecord (attemptedRecord d (describeSlot 3 ''a'') (Some record_example) 50) (ho_state h))\<rparr>)"
    using rec
    by (simp add: attemptStart_begin_def d_def desired_instance_example_def allocateOn_def env_def
        allocateFor_def usesOwnStorage_def allocate_def withSlot_def reuseSlot_def h_def Let_def)
  have "agent_inv (ho_state h)"
    unfolding h_def Host.select_convs
    by (rule agent_inv_put) (simp_all add: agent_inv_def EMPTY_def record_ok_def record_example_def)
  from start_accounting [OF begins refl this] show ?thesis by blast
qed

datatype lifecycle_op =
    OpStart HostEnv DesiredInstance int boot_outcome int
  | OpResume HostEnv DesiredInstance UnitStatus int wake_outcome boot_outcome int
  | OpRefresh "AppId set" "(AppId, UnitStatus) jsmap" int "AppId \<Rightarrow> bool \<times> Timestamp"
      "AppId \<Rightarrow> VmFailure option"

fun run_op :: "lifecycle_op \<Rightarrow> Host \<Rightarrow> Host" where
  "run_op (OpStart env d now boot done) h = snd (startInstance env d now boot done h)"
| "run_op (OpResume env d unit now wake boot done) h =
     snd (resumeInstance env d unit now wake boot done h)"
| "run_op (OpRefresh blocked statuses now probe console) h =
     h\<lparr>ho_state := refreshStates blocked statuses now probe console (ho_state h)\<rparr>"





definition terminal :: "InstanceRecord \<Rightarrow> bool" where
  "terminal r \<longleftrightarrow> ir_state r = Failed \<and> ir_desiredRunning r \<and> \<not> ir_stopRequested r"

lemma terminal_start:
  assumes "agent_inv (ho_state h)" "terminal r" "js_get (st_records (ho_state h)) a = Some r"
  shows "js_get (st_records (ho_state (snd (attemptStartInstance env d now boot done h)))) a = Some r"
proof (cases "a = di_appId d")
  case True
  then show ?thesis
    using assms by (simp add: attemptStartInstance_def attemptStart_begin_def isStartable_def terminal_def)
next
  case False
  then show ?thesis using attemptStart_keeps(2) [OF assms(1) False] assms(3) by simp
qed

lemma terminal_resume:
  assumes "agent_inv (ho_state h)" "terminal r" "js_get (st_records (ho_state h)) a = Some r"
  shows "js_get (st_records
    (ho_state (snd (attemptResumeInstance env d unit now wake boot done h)))) a = Some r"
proof (cases "a = di_appId d")
  case True
  then show ?thesis using assms by (simp add: attemptResumeInstance_def Let_def terminal_def)
next
  case False
  then show ?thesis using resume_keeps(2) [OF assms(1) False] assms(3) by simp
qed

lemma refresh_fold:
  assumes "\<And>x. x \<in> set rs \<Longrightarrow> record_ok x \<and> (ir_appId x = a \<longrightarrow> isAwaitingRecovery x)"
    and "agent_inv s"
  shows "agent_inv (fold (\<lambda>x s. if ir_appId x \<in> blocked then s
        else settle x (st x) (due x) (snap x) now (ok x) (at x) (con x) s) rs s) \<and>
    js_get (st_records (fold (\<lambda>x s. if ir_appId x \<in> blocked then s
        else settle x (st x) (due x) (snap x) now (ok x) (at x) (con x) s) rs s)) a =
      js_get (st_records s) a"
  using assms
proof (induction rs arbitrary: s)
  case Nil
  then show ?case by simp
next
  case (Cons x rs)
  let ?t = "if ir_appId x \<in> blocked then s
    else settle x (st x) (due x) (snap x) now (ok x) (at x) (con x) s"
  have x: "record_ok x" "ir_appId x = a \<longrightarrow> isAwaitingRecovery x" using Cons.prems(1) [of x] by simp_all
  have "agent_inv ?t" using Cons.prems(2) x(1) by (simp add: settle_agent_inv)
  moreover have "js_get (st_records ?t) a = js_get (st_records s) a"
    using x(2) by (cases "ir_appId x = a") (simp_all add: settle_other, simp add: settle_def)
  ultimately show ?case using Cons.IH [of ?t] Cons.prems(1) by simp
qed

lemma terminal_refresh:
  assumes "agent_inv s" "terminal r" "js_get (st_records s) a = Some r"
  shows "agent_inv (refreshStates blocked statuses now probe console s) \<and>
    js_get (st_records (refreshStates blocked statuses now probe console s)) a = Some r"
proof -
  have "record_ok x \<and> (ir_appId x = a \<longrightarrow> isAwaitingRecovery x)"
    if x: "x \<in> set (List.map_filter (\<lambda>appId. case js_get (st_records s) appId of None \<Rightarrow> None
      | Some r \<Rightarrow> if appId \<notin> st_starting s then Some r else None) (js_keys (st_records s)))" for x
  proof -
    obtain b where "js_get (st_records s) b = Some x"
      using x unfolding set_map_filter by (auto split: option.splits if_splits)
    moreover from agent_inv_get [OF assms(1) this] have "record_ok x" "ir_appId x = b" by simp_all
    ultimately show ?thesis using assms(2,3) by (auto simp: isAwaitingRecovery_def terminal_def)
  qed
  from refresh_fold [OF this assms(1)] show ?thesis
    using assms(3) unfolding refreshStates_def by simp
qed

lemma terminal_op:
  assumes "agent_inv (ho_state h)" "terminal r" "js_get (st_records (ho_state h)) a = Some r"
  shows "agent_inv (ho_state (run_op x h)) \<and>
    js_get (st_records (ho_state (run_op x h))) a = Some r"
proof (cases x)
  case (OpStart env d now boot bootedMs)
  show ?thesis
    unfolding OpStart run_op.simps startInstance_def
    by (rule withStartClaim_keeps [OF assms(1) _ _ assms(3)])
      (simp_all add: attemptStart_keeps terminal_start assms(2))
next
  case (OpResume env d unit now wake boot doneMs)
  show ?thesis
    unfolding OpResume run_op.simps resumeInstance_def
    by (rule withStartClaim_keeps [OF assms(1) _ _ assms(3)])
      (simp_all add: resume_keeps terminal_resume assms(2))
next
  case (OpRefresh blocked statuses now probe console)
  then show ?thesis using terminal_refresh [OF assms] by simp
qed

text \<open>
  A deployment that failed for good stays down: while its record says \<open>failed\<close>, the app is wanted
  and no stop was asked for, neither a start, nor a wake, nor a health pass over the whole host, in
  any number and order and whatever the outside answers, changes its record; and the planner, shown
  such a record, plans nothing for that deployment.
\<close>

theorem failed_stays_down:
  assumes "agent_inv (ho_state h)" and "js_get (st_records (ho_state h)) a = Some r"
    and "ir_state r = Failed" and "ir_desiredRunning r" and "\<not> ir_stopRequested r"
  shows "js_get (st_records (ho_state (fold run_op ops h))) a = Some r \<and>
    (di_appId w = a \<and> di_desiredState w \<noteq> DesiredStopped \<and> oi_present c \<and>
     oi_deploymentId c = Some (di_deploymentId w) \<and> oi_terminalFailure c = (ir_state r = Failed) \<longrightarrow>
     planInstance w (Some c) = InstanceNone a)"
proof -
  have t: "terminal r" using assms by (simp add: terminal_def)
  have "agent_inv (ho_state (fold run_op ops h)) \<and>
      js_get (st_records (ho_state (fold run_op ops h))) a = Some r"
    using assms(1,2)
  proof (induction ops arbitrary: h)
    case (Cons x ops)
    then show ?case using terminal_op [OF Cons.prems(1) t Cons.prems(2), of x] by simp
  qed simp
  then show ?thesis using assms(3) by (auto simp: planInstance_def)
qed

theorem failed_stays_down_witness:
  "js_get (st_records (ho_state (fold run_op
     [OpStart \<lparr>he_latest = None, he_devices = {}, he_describe = (\<lambda>_. [])\<rparr>
        (desired_instance_example ''a'' DesiredRunning) 7 Booted 9]
     \<lparr>ho_state = putRecord (record_example\<lparr>ir_state := Failed\<rparr>) EMPTY,
      ho_slots = \<lparr>ss_assignments = [], ss_cursor = 0\<rparr>\<rparr>))) ''a'' =
   Some (record_example\<lparr>ir_state := Failed\<rparr>)"
proof -
  have "agent_inv (putRecord (record_example\<lparr>ir_state := Failed\<rparr>) EMPTY)"
    by (rule agent_inv_put) (simp_all add: agent_inv_def EMPTY_def record_ok_def record_example_def)
  then show ?thesis
    by (intro conjunct1 [OF failed_stays_down])
      (simp_all add: EMPTY_def, simp_all add: record_example_def)
qed

text \<open>
  A sleep never reads as a crash: the capture marks the app from before the snapshot until it is
  over however it ends, a health pass that finds the microVM gone while the mark is set settles the
  app as idle or stopped and not as failed, and a capture that was refused or failed leaves every
  record as it found it.
\<close>

theorem capture_is_not_a_crash:
  "a \<in> st_snapshotting (captureIdle_begin a s) \<and>
   a \<notin> st_snapshotting (captureIdle_end a outcome t) \<and>
   (\<not> us_active status \<longrightarrow>
      settle_state r status health True now =
        (if ir_onRequest r \<and> ir_desiredRunning r then Idle else Stopped)) \<and>
   (outcome \<noteq> Slept \<longrightarrow> st_records (captureIdle_end a outcome t) = st_records t)"
  by (cases outcome)
    (auto simp: captureIdle_begin_def captureIdle_end_def markSnapshotting_def settle_state_def
      verdict_defs)

theorem capture_is_not_a_crash_witness:
  "settle_state (record_example\<lparr>ir_onRequest := True\<rparr>) UNKNOWN_UNIT initialTracker True 0 = Idle \<and>
   st_records (captureIdle_end ''a'' (SleepRefused ''busy'') EMPTY) = st_records EMPTY"
  using capture_is_not_a_crash [of "''a''" EMPTY "SleepRefused ''busy''" EMPTY UNKNOWN_UNIT
      "record_example\<lparr>ir_onRequest := True\<rparr>" initialTracker 0]
  by (simp add: UNKNOWN_UNIT_def record_example_def)

end
