(* ===== verification/Reconciler.thy ===== *)
theory Reconciler
  imports Instances
begin

text \<open>
  One reconcile from observation to report: \<open>apps/agent/src/services/reconciler.service.ts\<close>,
  \<open>lib/reconcile/network.ts\<close>, \<open>reconcile/replacements.ts\<close>, \<open>reconcile/exports.ts\<close> and
  \<open>reconcile/checkpoints.ts\<close>.

  What systemd, the volume manager, ZeroFS, Caddy and nftables answer is the record \<open>Outside\<close>.
  An action that can fail returns \<open>Inl\<close> and the state it left behind; a \<open>forEach\<close> stops at the first
  failure. The registries of the other services (sqlite sessions, cron) are synchronised before
  this starts and hold none of this state; the ruleset, the routes and the files written at the end
  are outputs.
\<close>

section \<open>Observing\<close>

definition observeUnits :: "AppId list \<Rightarrow> (AppId, UnitStatus) jsmap \<Rightarrow> ObservedVolume list \<Rightarrow>
    AgentSnapshot \<Rightarrow> ObservedState" where
  "observeUnits unitIds statuses observedVolumes s =
     (let ids = js_dedup (unitIds @ js_keys (st_records s))
      in \<lparr>os_instances = map (\<lambda>appId.
            let status = (case js_get statuses appId of None \<Rightarrow> UNKNOWN_UNIT | Some u \<Rightarrow> u);
                r = js_get (st_records s) appId
            in \<lparr>oi_appId = (case r of None \<Rightarrow> appId | Some x \<Rightarrow> ir_appId x),
                oi_volumeId = map_option ir_volumeId r,
                oi_deploymentId = map_option ir_deploymentId r,
                oi_present = (us_loaded status \<or> r \<noteq> None),
                oi_running = (us_active status \<or> appId \<in> st_starting s),
                oi_exited =
                  (\<not> us_active status \<and>
                   (us_startedThisBoot status \<or> map_option ir_state r = Some Pending) \<and>
                   (case r of None \<Rightarrow> False
                    | Some x \<Rightarrow> ir_startedAt x \<noteq> None \<and> \<not> ir_stopRequested x)),
                oi_recoveryRequested = (case r of None \<Rightarrow> False | Some x \<Rightarrow> queued_retry x \<noteq> None),
                oi_terminalFailure = (map_option ir_state r = Some Failed)\<rparr>) ids,
          os_volumes = observedVolumes,
          os_deletedVolumes = js_keys (st_deletedVolumes s),
          os_checkpoints = [],
          os_exports = map (\<lambda>report. \<lparr>oe_exportId = re_exportId report,
            oe_written = (re_state report = ExportReady)\<rparr>) (js_values (st_exportReports s))\<rparr>)"

definition load_state :: "InstanceRecord list \<Rightarrow> ReportedExport list \<Rightarrow> ReportedVolume list \<Rightarrow>
    (AppId, int) jsmap \<Rightarrow> AgentSnapshot \<Rightarrow> AgentSnapshot" where
  "load_state instances exports deletedVolumes lastActiveAtMs s =
     s\<lparr>st_records := js_new_map (map (\<lambda>r.
         (ir_appId r, r\<lparr>ir_recovery := forget_healthy_since (ir_recovery r)\<rparr>)) instances),
       st_exportReports := js_new_map (map (\<lambda>x. (re_exportId x, x)) exports),
       st_deletedVolumes := js_new_map (map (\<lambda>x. (rv_volumeId x, x)) deletedVolumes),
       st_lastActiveAtMs := lastActiveAtMs\<rparr>"

definition syncRecord :: "DesiredInstance \<Rightarrow> InstanceRecord \<Rightarrow> InstanceRecord" where
  "syncRecord wanted r =
     r\<lparr>ir_hostnames := di_hostnames wanted,
       ir_healthCheck := cfg_healthCheck (di_config wanted),
       ir_resources := cfg_resources (di_config wanted),
       ir_desiredRunning := (di_desiredState wanted \<noteq> DesiredStopped),
       ir_onRequest := (di_desiredState wanted = DesiredOnRequest),
       ir_httpPort := cfg_httpPort (di_config wanted),
       ir_hasExtraPublicPort := Some (cfg_hasExtraPublicPort (di_config wanted))\<rparr>"

definition syncDesired :: "HostDesiredState \<Rightarrow> AgentSnapshot \<Rightarrow> AgentSnapshot" where
  "syncDesired desired =
     fold (\<lambda>wanted. updateRecord (di_appId wanted) (syncRecord wanted)) (hd_instances desired)"

section \<open>Network\<close>

record ForwardedInstance =
  fi_appId :: AppId
  fi_hostPort :: HostPort
  fi_httpPort :: HttpPort
  fi_extraPublicPort :: "HostPort option"
  fi_hostIpv4 :: Ipv4Address
  fi_guestIpv4 :: Ipv4Address

definition forwardedInstances :: "Host \<Rightarrow> ForwardedInstance list" where
  "forwardedInstances h =
     List.map_filter (\<lambda>r.
       case slot_lookup (ho_slots h) (ir_appId r) of
         None \<Rightarrow> None
       | Some slot \<Rightarrow>
           Some \<lparr>fi_appId = ir_appId r, fi_hostPort = as_hostPort slot,
             fi_httpPort = ir_httpPort r,
             fi_extraPublicPort = (if ir_hasExtraPublicPort r = Some True
               then Some (as_extraPublicPort slot) else None),
             fi_hostIpv4 = as_hostIpv4 slot, fi_guestIpv4 = as_guestIpv4 slot\<rparr>)
       (filter (\<lambda>r. ir_state r = Running \<and> \<not> js_has (st_replacing (ho_state h)) (ir_appId r))
          (records (ho_state h)))"

text \<open>What an apply of the ruleset leaves in the store, \<open>ok\<close> whether nft took it.\<close>

definition applyNetwork :: "bool \<Rightarrow> AgentSnapshot \<Rightarrow> AgentSnapshot" where
  "applyNetwork ok s = s\<lparr>st_isolated := ok\<rparr>"

definition current_routes :: "AgentSnapshot \<Rightarrow> RouteTarget list" where
  "current_routes s = renderableRoutes (records s) (st_replacing s)"

section \<open>Carrying a plan out\<close>

datatype reconcile_error = InstanceError agent_error | RoutesFailed | FirewallFailed

record Outside =
  out_env :: HostEnv
  out_unitIds :: "AppId list"
  out_statuses :: "(AppId, UnitStatus) jsmap"
  out_volumes :: "ObservedVolume list"
  out_boot :: "AppId \<Rightarrow> boot_outcome"
  out_placed :: "DesiredVolume \<Rightarrow> (string, unit) result"
  out_provision :: "DesiredVolume \<Rightarrow> AppSlot \<Rightarrow> (string, int \<times> string) result"
  out_teardown :: "DesiredVolume \<Rightarrow> (string, unit) result"
  out_routesTaken :: bool
  out_rulesetTaken :: "nat \<Rightarrow> bool"
  out_usesAppStorage :: "AppId \<Rightarrow> bool"
  out_export :: "DesiredExport \<Rightarrow> (string, ReportedExport) result"
  out_checkpoint :: "CheckpointPlan \<Rightarrow> (string, unit) result"
  out_reclaimed :: bool
  out_nowMs :: int

type_synonym act = "Host \<Rightarrow> (reconcile_error, unit) result \<times> Host"

definition act_then :: "act \<Rightarrow> act \<Rightarrow> act" where
  "act_then f g h = (case f h of (Inl e, h) \<Rightarrow> (Inl e, h) | (Inr _, h) \<Rightarrow> g h)"

definition act_pure :: "(AgentSnapshot \<Rightarrow> AgentSnapshot) \<Rightarrow> act" where
  "act_pure f h = (Inr (), h\<lparr>ho_state := f (ho_state h)\<rparr>)"

fun act_each :: "('a \<Rightarrow> act) \<Rightarrow> 'a list \<Rightarrow> act" where
  "act_each f [] = (\<lambda>h. (Inr (), h))"
| "act_each f (x # xs) = act_then (f x) (act_each f xs)"

definition on_instance :: "(agent_error, unit) result \<times> Host \<Rightarrow> (reconcile_error, unit) result \<times> Host" where
  "on_instance p = (case p of (Inl e, h) \<Rightarrow> (Inl (InstanceError e), h) | (Inr _, h) \<Rightarrow> (Inr (), h))"

definition applyStop :: "InstancePlan \<Rightarrow> AgentSnapshot \<Rightarrow> AgentSnapshot" where
  "applyStop action s =
     (case action of
        InstanceStop appId reason \<Rightarrow> stopInstance appId s
      | InstanceReplace d \<Rightarrow> dropRecord (di_appId d) (stopInstance (di_appId d) s)
      | InstanceForget appId \<Rightarrow> dropRecord appId s
      | _ \<Rightarrow> s)"

definition applyStops :: "ReconcilePlan \<Rightarrow> AgentSnapshot \<Rightarrow> AgentSnapshot" where
  "applyStops plan = fold applyStop (pl_instances plan)"

definition applySleeps :: "Outside \<Rightarrow> ReconcilePlan \<Rightarrow> act" where
  "applySleeps out plan =
     act_each (\<lambda>action h.
       case action of
         InstanceSleep d \<Rightarrow> on_instance (sleepInstance (out_env out) d h)
       | _ \<Rightarrow> (Inr (), h)) (pl_instances plan)"

definition planned_start :: "InstancePlan \<Rightarrow> DesiredInstance option" where
  "planned_start action =
     (case action of InstanceStart d \<Rightarrow> Some d | InstanceReplace d \<Rightarrow> Some d | _ \<Rightarrow> None)"

definition applyStarts :: "Outside \<Rightarrow> ReconcilePlan \<Rightarrow> act" where
  "applyStarts out plan h =
     (let starts = List.map_filter planned_start (pl_instances plan)
      in if starts = [] then (Inr (), h)
         else if \<not> st_isolated (ho_state h) then (Inr (), h)
         else act_each (\<lambda>d h. on_instance (startInstance (out_env out) d (out_nowMs out)
                (out_boot out (di_appId d)) (out_nowMs out) h)) starts h)"

text \<open>
  The volume manager, as far as it keeps the agent's state: provisioning takes a slot once the
  volume was placed, whatever becomes of the device after that, and a removal gives the slot back
  as its last step. \<open>out_placed\<close> is what the filesystem lookup before the slot answers, \<open>out_provision\<close> and
  \<open>out_teardown\<close> what the devices, ZeroFS and the formatting after it answer: the size and storage
  prefix of a volume that is ready.
\<close>

definition provisionVolume :: "Outside \<Rightarrow> slot_store volume_manager" where
  "provisionVolume out desired table =
     (case out_placed out desired of
        Inl message \<Rightarrow> (Inl message, table)
      | Inr _ \<Rightarrow>
          (let devices = he_devices (out_env out)
           in case (if dv_storage desired = None
                    then allocateFor (he_latest (out_env out)) devices (dv_appId desired) table
                    else allocate (Some devices) (dv_appId desired) table) of
                (Inl e, table) \<Rightarrow> (Inl (he_describe (out_env out) (AllocationFailed e)), table)
              | (Inr slot, table) \<Rightarrow>
                  (case out_provision out desired slot of
                     Inl message \<Rightarrow> (Inl message, table)
                   | Inr (sizeBytes, storagePrefix) \<Rightarrow>
                       (Inr \<lparr>rv_volumeId = dv_volumeId desired, rv_appId = dv_appId desired,
                         rv_state = VolumeReady, rv_sizeBytes = sizeBytes,
                         rv_storagePrefix = Some storagePrefix,
                         rv_devicePath = Some (as_nbdDevicePath slot), rv_usage = None,
                         rv_message = None\<rparr>, table))))"

definition teardownVolume :: "Outside \<Rightarrow> slot_store volume_manager" where
  "teardownVolume out desired table =
     (case out_teardown out desired of
        Inl message \<Rightarrow> (Inl message, table)
      | Inr _ \<Rightarrow> (Inr (deletedVolumeReport desired), release (dv_appId desired) table))"

definition act_volumes :: "(AgentSnapshot \<times> slot_store \<Rightarrow> AgentSnapshot \<times> slot_store) \<Rightarrow> Host \<Rightarrow> Host" where
  "act_volumes f h = (let (s, table) = f (ho_state h, ho_slots h)
     in h\<lparr>ho_state := s, ho_slots := table\<rparr>)"

text \<open>\<open>duringReplacements\<close>: the records about to be replaced are kept aside while the effect runs,
  their apps are routed to the waiting listener first, and however it ends they are let go of.\<close>

definition duringReplacements :: "Outside \<Rightarrow> ReconcilePlan \<Rightarrow> act \<Rightarrow> act" where
  "duringReplacements out plan eff h =
     (let replacing = set (List.map_filter (\<lambda>action.
            case action of InstanceReplace d \<Rightarrow> Some (di_appId d) | _ \<Rightarrow> None) (pl_instances plan))
      in if replacing = {} then eff h
         else
           let h = h\<lparr>ho_state := (ho_state h)\<lparr>st_replacing :=
                 js_filter_keys (\<lambda>a. a \<in> replacing) (st_records (ho_state h))\<rparr>\<rparr>;
               (res, h) =
                 (if \<not> out_routesTaken out then (Inl RoutesFailed, h)
                  else let h = h\<lparr>ho_state := applyNetwork (out_rulesetTaken out 0) (ho_state h)\<rparr>
                       in if \<not> out_rulesetTaken out 0 then (Inl FirewallFailed, h) else eff h);
               h = h\<lparr>ho_state := applyNetwork (out_rulesetTaken out 2)
                      ((ho_state h)\<lparr>st_replacing := []\<rparr>)\<rparr>
           in case res of
                Inl e \<Rightarrow> (Inl e, h\<lparr>ho_state := (ho_state h)\<lparr>st_deferredWork := True\<rparr>\<rparr>)
              | Inr _ \<Rightarrow> (Inr (), h))"

section \<open>Checkpoints and exports\<close>

definition AppVolumeOperationUnavailable_message :: string where
  "AppVolumeOperationUnavailable_message =
     ''This operation is not available for configured app volumes on this host.''"

definition AppVolumeUnavailable_message :: string where
  "AppVolumeUnavailable_message = ''The configured app volume is unavailable.''"

definition usesAppVolumeStorage ::
  "(AppId \<Rightarrow> bool) \<Rightarrow> AppId \<Rightarrow> S3VolumeStorage option \<Rightarrow> bool" where
  "usesAppVolumeStorage usesAppStorage appId storage = (storage \<noteq> None \<or> usesAppStorage appId)"

definition applyOneCheckpoint :: "Outside \<Rightarrow> DesiredVolume option \<Rightarrow> CheckpointPlan \<Rightarrow>
    DesiredCheckpoint \<Rightarrow> bool \<Rightarrow> ReportedCheckpoint" where
  "applyOneCheckpoint out volume action wanted creating =
     (let shared = (case volume of None \<Rightarrow> True | Some v \<Rightarrow> dv_storage v = None);
          base = \<lparr>rc_checkpointId = dc_checkpointId wanted, rc_volumeId = dc_volumeId wanted,
            rc_state = CheckpointPending, rc_reference = None, rc_readyAt = None,
            rc_message = None\<rparr>
      in case out_checkpoint out action of
           Inl message \<Rightarrow>
             base\<lparr>rc_state := CheckpointFailed,
               rc_message := Some (reportedMessage
                 (if shared then message else AppVolumeUnavailable_message))\<rparr>
         | Inr _ \<Rightarrow>
             if creating
             then base\<lparr>rc_state := CheckpointReady, rc_reference := Some (dc_checkpointId wanted),
                       rc_readyAt := Some (out_nowMs out)\<rparr>
             else base)"

definition checkpointReport ::
  "Outside \<Rightarrow> HostDesiredState \<Rightarrow> CheckpointPlan \<Rightarrow> ReportedCheckpoint option" where
  "checkpointReport out desired action =
     (let report = (\<lambda>wanted creating.
        let volume = find (\<lambda>v. dv_volumeId v = dc_volumeId wanted) (hd_volumes desired)
        in if (case volume of None \<Rightarrow> False
               | Some v \<Rightarrow> dv_storage v = None \<and>
                   usesAppVolumeStorage (out_usesAppStorage out) (dv_appId v) (dv_storage v))
           then \<lparr>rc_checkpointId = dc_checkpointId wanted, rc_volumeId = dc_volumeId wanted,
                 rc_state = CheckpointFailed, rc_reference = None, rc_readyAt = None,
                 rc_message = Some AppVolumeOperationUnavailable_message\<rparr>
           else applyOneCheckpoint out volume action wanted creating)
      in case action of
           CheckpointCreate wanted \<Rightarrow> Some (report wanted True)
         | CheckpointDelete wanted \<Rightarrow> Some (report wanted False)
         | CheckpointNone _ \<Rightarrow> None)"

definition applyCheckpoints ::
  "Outside \<Rightarrow> ReconcilePlan \<Rightarrow> HostDesiredState \<Rightarrow> AgentSnapshot \<Rightarrow> AgentSnapshot" where
  "applyCheckpoints out plan desired s =
     s\<lparr>st_checkpointReports :=
         (if hd_checkpoints desired = [] then []
          else List.map_filter (checkpointReport out desired) (pl_checkpoints plan))\<rparr>"

definition setReport :: "ReportedExport \<Rightarrow> AgentSnapshot \<Rightarrow> AgentSnapshot" where
  "setReport report s =
     s\<lparr>st_exportReports := js_set (re_exportId report) report (st_exportReports s)\<rparr>"

definition forgetExport :: "ExportId \<Rightarrow> AgentSnapshot \<Rightarrow> AgentSnapshot" where
  "forgetExport exportId s = s\<lparr>st_exportReports := js_delete exportId (st_exportReports s)\<rparr>"

definition failedExport :: "ExportId \<Rightarrow> string \<Rightarrow> ReportedExport" where
  "failedExport exportId message =
     \<lparr>re_exportId = exportId, re_checkpointId = None, re_state = ExportFailed,
      re_sizeBytes = None, re_readyAt = None, re_message = Some message\<rparr>"

definition writeExport :: "Outside \<Rightarrow> slot_store \<Rightarrow> DesiredExport \<Rightarrow> ReportedExport" where
  "writeExport out table wanted =
     (case slot_lookup table (de_appId wanted) of
        None \<Rightarrow> failedExport (de_exportId wanted) ''this host does not serve this app filesystem''
      | Some slot \<Rightarrow>
          (case out_export out wanted of
             Inr report \<Rightarrow> report
           | Inl message \<Rightarrow> failedExport (de_exportId wanted) (reportedMessage message)))"

definition applyExport ::
  "Outside \<Rightarrow> HostDesiredState \<Rightarrow> slot_store \<Rightarrow> ExportPlan \<Rightarrow> AgentSnapshot \<Rightarrow> AgentSnapshot" where
  "applyExport out desired table action s =
     (case action of
        ExportNone _ \<Rightarrow> s
      | ExportForget exportId \<Rightarrow> forgetExport exportId s
      | ExportWrite wanted \<Rightarrow>
          if usesAppVolumeStorage (out_usesAppStorage out) (de_appId wanted)
               (case find (\<lambda>v. dv_volumeId v = de_volumeId wanted) (hd_volumes desired) of
                  None \<Rightarrow> None | Some v \<Rightarrow> dv_storage v)
          then setReport (failedExport (de_exportId wanted) AppVolumeOperationUnavailable_message) s
          else setReport (writeExport out table wanted) s)"

definition applyExports ::
  "Outside \<Rightarrow> ReconcilePlan \<Rightarrow> HostDesiredState \<Rightarrow> slot_store \<Rightarrow> AgentSnapshot \<Rightarrow> AgentSnapshot" where
  "applyExports out plan desired table = fold (applyExport out desired table) (pl_exports plan)"

section \<open>A reconcile\<close>

definition reconcile_stages :: "Outside \<Rightarrow> ReconcilePlan \<Rightarrow> ObservedState \<Rightarrow> HostDesiredState \<Rightarrow>
    AppId set \<Rightarrow> act" where
  "reconcile_stages out plan observed desired blocked =
     act_then (act_pure (applyStops plan))
       (act_then (\<lambda>h. (Inr (), act_volumes
            (applyVolumes (provisionVolume out) plan observed desired blocked) h))
          (act_then (applySleeps out plan)
             (act_then (act_pure (applyNetwork (out_rulesetTaken out 1)))
                (applyStarts out plan))))"

definition reconcile_finish :: "Outside \<Rightarrow> ReconcilePlan \<Rightarrow> HostDesiredState \<Rightarrow> Host \<Rightarrow> Host" where
  "reconcile_finish out plan desired h =
     (let h = h\<lparr>ho_state := applyCheckpoints out plan desired (ho_state h)\<rparr>;
          h = h\<lparr>ho_state := applyExports out plan desired (ho_slots h) (ho_state h)\<rparr>;
          h = act_volumes (applyTeardowns (teardownVolume out) plan) h;
          s = ho_state h;
          s = s\<lparr>st_deferredWork := (st_deferredWork s \<or>
                 hasPendingAppRetirements (hd_volumes desired) (st_deletedVolumes s))\<rparr>;
          s = (if out_reclaimed out then s else s\<lparr>st_deferredWork := True\<rparr>);
          s = applyNetwork (out_rulesetTaken out 3) s
      in h\<lparr>ho_state := s\<lparr>st_converged := True\<rparr>\<rparr>)"

definition reconcile_observed :: "Outside \<Rightarrow> Host \<Rightarrow> ObservedState" where
  "reconcile_observed out h =
     observeUnits (out_unitIds out) (out_statuses out) (out_volumes out) (ho_state h)"

definition reconcile_plan ::
  "Outside \<Rightarrow> AppId set \<Rightarrow> HostDesiredState \<Rightarrow> Host \<Rightarrow> ReconcilePlan" where
  "reconcile_plan out blocked desired h =
     unfencedPlan desired (reconcile_observed out h) blocked (ho_state h)"

definition reconcile :: "Outside \<Rightarrow> AppId set \<Rightarrow> HostDesiredState \<Rightarrow> act" where
  "reconcile out blocked desired h =
     (let observed = reconcile_observed out h;
          plan = reconcile_plan out blocked desired h;
          s = (ho_state h)\<lparr>st_deferredWork :=
                (blocked \<noteq> {} \<or> hasDeferredWork plan \<or>
                 list_ex (\<lambda>r. queued_retry r \<noteq> None) (records (ho_state h)))\<rparr>;
          s = syncDesired (if blocked = {} then desired
                else desired\<lparr>hd_instances :=
                       filter (\<lambda>w. di_appId w \<notin> blocked) (hd_instances desired)\<rparr>) s
      in case duringReplacements out plan (reconcile_stages out plan observed desired blocked)
                (h\<lparr>ho_state := s\<rparr>) of
           (Inl e, h) \<Rightarrow> (Inl e, h)
         | (Inr _, h) \<Rightarrow> (Inr (), reconcile_finish out plan desired h))"

section \<open>What an action keeps\<close>

text \<open>
  An action is judged by a relation between the host before and after it, under an invariant. The
  locale carries such a relation through the ways actions are composed; each property below names
  its own relation and only has to look at the single actions.
\<close>

locale act_relation =
  fixes inv :: "Host \<Rightarrow> bool" and rel :: "Host \<Rightarrow> Host \<Rightarrow> bool"
  assumes rel_refl: "rel h h"
    and rel_trans: "rel h i \<Longrightarrow> rel i j \<Longrightarrow> rel h j"
begin

definition keeps :: "act \<Rightarrow> bool" where
  "keeps f \<longleftrightarrow> (\<forall>h. inv h \<longrightarrow> inv (snd (f h)) \<and> rel h (snd (f h)))"

lemma keepsD: "keeps f \<Longrightarrow> inv h \<Longrightarrow> inv (snd (f h)) \<and> rel h (snd (f h))"
  by (simp add: keeps_def)

lemma keeps_then:
  assumes "keeps f" "keeps g"
  shows "keeps (act_then f g)"
  unfolding keeps_def
proof (intro allI impI)
  fix h assume h: "inv h"
  note f = keepsD [OF assms(1) h]
  note g = keepsD [OF assms(2) conjunct1 [OF f]]
  have "rel h (snd (g (snd (f h))))" using rel_trans f g by blast
  then show "inv (snd (act_then f g h)) \<and> rel h (snd (act_then f g h))"
    using f g by (auto simp: act_then_def split: prod.splits sum.splits)
qed

lemma keeps_skip: "keeps (\<lambda>h. (res, h))"
  by (simp add: keeps_def rel_refl)

lemma keeps_each: "(\<And>x. x \<in> set xs \<Longrightarrow> keeps (f x)) \<Longrightarrow> keeps (act_each f xs)"
  by (induction xs) (auto intro: keeps_then keeps_skip)

lemma keeps_result: "keeps f \<Longrightarrow> (\<And>h. snd (g h) = snd (f h)) \<Longrightarrow> keeps g"
  by (simp add: keeps_def)

lemma keeps_fold:
  "(\<And>x. x \<in> set xs \<Longrightarrow> keeps (act_pure (f x))) \<Longrightarrow> keeps (act_pure (fold f xs))"
proof (induction xs)
  case Nil
  then show ?case by (simp add: keeps_def act_pure_def rel_refl)
next
  case (Cons x xs)
  have "keeps (act_then (act_pure (f x)) (act_pure (fold f xs)))"
    using Cons by (intro keeps_then) simp_all
  then show ?case by (rule keeps_result) (simp add: act_then_def act_pure_def)
qed

end

lemma snd_on_instance [simp]: "snd (on_instance p) = snd p"
  by (auto simp: on_instance_def split: prod.split sum.split)

lemma on_instance_Inr_iff: "fst (on_instance p) = Inr x \<longleftrightarrow> (\<exists>y. fst p = Inr y)"
  by (auto simp: on_instance_def split: prod.split sum.split)

text \<open>The records, the claims and the slots, which is all the relations below look at.\<close>

type_synonym host_view = "((AppId, InstanceRecord) jsmap \<times> AppId set) \<times> slot_store"

definition view :: "Host \<Rightarrow> host_view" where
  "view h = ((st_records (ho_state h), st_starting (ho_state h)), ho_slots h)"

definition act_slots :: "(slot_store \<Rightarrow> slot_store) \<Rightarrow> act" where
  "act_slots f h = (Inr (), h\<lparr>ho_slots := f (ho_slots h)\<rparr>)"

lemma applyVolumes_view:
  "view (act_volumes (applyVolumes m plan observed desired blocked) h) =
   view (snd (act_slots (\<lambda>t. snd (provisionAll m (pl_volumes plan) t)) h))"
  by (simp add: act_volumes_def applyVolumes_def view_def act_slots_def Let_def
      forgetDeletedVolumes_def case_prod_beta)

lemma applyTeardown_view:
  "st_records (fst (applyTeardown m action p)) = st_records (fst p)"
  "st_starting (fst (applyTeardown m action p)) = st_starting (fst p)"
  "snd (applyTeardown m action p) =
     (case action of VolumeTeardown d \<Rightarrow> snd (m d (snd p)) | _ \<Rightarrow> snd p)"
  by (auto simp: applyTeardown_def rememberDeletedVolume_def Let_def
      split: VolumePlan.split prod.split sum.split)

lemma applyTeardowns_view:
  "view (act_volumes (applyTeardowns m plan) h) = view (snd (act_slots (fold (\<lambda>action t.
     case action of VolumeTeardown d \<Rightarrow> snd (m d t) | _ \<Rightarrow> t) (pl_volumes plan)) h))"
proof -
  have "st_records (fst (fold (applyTeardown m) actions p)) = st_records (fst p) \<and>
    st_starting (fst (fold (applyTeardown m) actions p)) = st_starting (fst p) \<and>
    snd (fold (applyTeardown m) actions p) =
      fold (\<lambda>action t. case action of VolumeTeardown d \<Rightarrow> snd (m d t) | _ \<Rightarrow> t) actions (snd p)"
    for actions p
    by (induction actions arbitrary: p) (simp_all add: applyTeardown_view split: VolumePlan.split)
  then show ?thesis
    by (simp add: act_volumes_def applyTeardowns_def view_def act_slots_def case_prod_beta)
qed

locale view_relation =
  fixes vinv :: "host_view \<Rightarrow> bool" and vrel :: "host_view \<Rightarrow> host_view \<Rightarrow> bool"
  assumes vrel_refl: "vrel v v"
    and vrel_trans: "vrel u v \<Longrightarrow> vrel v w \<Longrightarrow> vrel u w"

sublocale view_relation \<subseteq> act_relation "\<lambda>h. vinv (view h)" "\<lambda>h i. vrel (view h) (view i)"
  by unfold_locales (auto intro: vrel_refl vrel_trans)


context view_relation
begin

lemma keeps_view:
  assumes "keeps f" and "\<And>h. view (snd (g h)) = view (snd (f h))"
  shows "keeps g"
  using assms by (simp add: keeps_def)

lemma keeps_same_view: "(\<And>h. view (snd (g h)) = view h) \<Longrightarrow> keeps g"
  by (rule keeps_view [OF keeps_skip]) simp

lemma keeps_at:
  assumes "keeps f" and "vinv (view h)" and "view i = view h" and "view j = view (snd (f i))"
  shows "vinv (view j) \<and> vrel (view h) (view j)"
  using keepsD [OF assms(1), of i] assms by simp

lemma keeps_provisionAll:
  assumes "\<And>d. VolumeProvision d \<in> set actions \<Longrightarrow> keeps (act_slots (\<lambda>t. snd (m d t)))"
  shows "keeps (act_slots (\<lambda>t. snd (provisionAll m actions t)))"
  using assms
proof (induction actions)
  case Nil
  then show ?case by (intro keeps_same_view) (simp add: act_slots_def)
next
  case (Cons action actions)
  have IH: "keeps (act_slots (\<lambda>t. snd (provisionAll m actions t)))" using Cons by simp
  show ?case
  proof (cases action)
    case (VolumeProvision d)
    have "snd (provision m d t) = snd (m d t)" for t
      by (simp add: provision_def split: prod.split sum.split)
    moreover have "keeps (act_then (act_slots (\<lambda>t. snd (m d t)))
        (act_slots (\<lambda>t. snd (provisionAll m actions t))))"
      using Cons.prems VolumeProvision IH by (intro keeps_then) simp_all
    ultimately show ?thesis
      unfolding VolumeProvision
      by (elim keeps_result) (simp add: act_slots_def act_then_def case_prod_beta Let_def)
  qed (use IH in simp_all)
qed

lemma keeps_act_slots_id: "keeps (act_slots (\<lambda>t. t))"
  by (rule keeps_same_view) (simp add: act_slots_def)

lemma keeps_teardowns:
  assumes "\<And>d. VolumeTeardown d \<in> set actions \<Longrightarrow> keeps (act_slots (\<lambda>t. snd (m d t)))"
  shows "keeps (act_slots (fold (\<lambda>action t.
    case action of VolumeTeardown d \<Rightarrow> snd (m d t) | _ \<Rightarrow> t) actions))"
  using assms
proof (induction actions)
  case Nil
  then show ?case by (intro keeps_same_view) (simp add: act_slots_def)
next
  case (Cons action actions)
  have "keeps (act_slots (\<lambda>t. case action of VolumeTeardown d \<Rightarrow> snd (m d t) | _ \<Rightarrow> t))"
    using Cons.prems keeps_act_slots_id by (cases action) simp_all
  with Cons have "keeps (act_then
      (act_slots (\<lambda>t. case action of VolumeTeardown d \<Rightarrow> snd (m d t) | _ \<Rightarrow> t))
      (act_slots (fold (\<lambda>action t. case action of VolumeTeardown d \<Rightarrow> snd (m d t) | _ \<Rightarrow> t) actions)))"
    by (intro keeps_then) simp_all
  then show ?case by (rule keeps_result) (simp add: act_then_def act_slots_def)
qed

lemma keeps_during: "keeps eff \<Longrightarrow> keeps (duringReplacements out plan eff)"
  unfolding keeps_def [of "duringReplacements out plan eff"]
proof (intro allI impI)
  fix h assume eff: "keeps eff" and h: "vinv (view h)"
  define i where "i = h\<lparr>ho_state := applyNetwork (out_rulesetTaken out 0) ((ho_state h)\<lparr>st_replacing :=
    js_filter_keys (\<lambda>a. a \<in> set (List.map_filter (\<lambda>action.
      case action of InstanceReplace d \<Rightarrow> Some (di_appId d) | _ \<Rightarrow> None) (pl_instances plan)))
    (st_records (ho_state h))\<rparr>)\<rparr>"
  have vi: "view i = view h" by (simp add: i_def view_def applyNetwork_def)
  let ?j = "snd (duringReplacements out plan eff h)"
  have "view ?j = view h \<or> view ?j = view (snd (eff i)) \<or> ?j = snd (eff h)"
    by (auto simp: duringReplacements_def Let_def i_def view_def applyNetwork_def
        split: prod.split sum.split)
  then show "vinv (view ?j) \<and> vrel (view h) (view ?j)"
    using keepsD [OF eff h] keeps_at [OF eff h vi] h vrel_refl by metis
qed

lemma keeps_stages:
  assumes stops: "\<And>action. action \<in> set (pl_instances plan) \<Longrightarrow> keeps (act_pure (applyStop action))"
    and sleeps: "\<And>d. InstanceSleep d \<in> set (pl_instances plan) \<Longrightarrow>
      keeps (\<lambda>h. on_instance (sleepInstance (out_env out) d h))"
    and starts: "keeps (act_then (act_pure (applyNetwork (out_rulesetTaken out 1))) (applyStarts out plan))"
    and provisions: "\<And>d. VolumeProvision d \<in> set (pl_volumes plan) \<Longrightarrow>
      keeps (act_slots (\<lambda>t. snd (provisionVolume out d t)))"
  shows "keeps (reconcile_stages out plan observed desired blocked)"
  unfolding reconcile_stages_def
proof (rule keeps_then [OF _ keeps_then [OF _ keeps_then [OF _ starts]]])
  show "keeps (act_pure (applyStops plan))"
    unfolding applyStops_def using stops by (rule keeps_fold)
  show "keeps (\<lambda>h. (Inr (), act_volumes
      (applyVolumes (provisionVolume out) plan observed desired blocked) h))"
    by (rule keeps_view [OF keeps_provisionAll [OF provisions]]) (simp_all add: applyVolumes_view)
  have "keeps (\<lambda>h. case action of InstanceSleep d \<Rightarrow> on_instance (sleepInstance (out_env out) d h)
      | _ \<Rightarrow> (Inr (), h))" if "action \<in> set (pl_instances plan)" for action
  proof (cases action)
    case (InstanceSleep d)
    then show ?thesis using that sleeps by simp
  qed (simp_all add: keeps_skip)
  then show "keeps (applySleeps out plan)" unfolding applySleeps_def by (rule keeps_each)
qed

lemma reconcile_finish_view:
  "view (reconcile_finish out plan desired h) =
   view (snd (act_slots (fold (\<lambda>action t.
     case action of VolumeTeardown d \<Rightarrow> snd (teardownVolume out d t) | _ \<Rightarrow> t) (pl_volumes plan)) h))"
proof -
  have exports: "st_records (applyExports out plan desired t s) = st_records s \<and>
      st_starting (applyExports out plan desired t s) = st_starting s" for t s
  proof -
    have "st_records (fold (applyExport out desired t) actions s) = st_records s \<and>
        st_starting (fold (applyExport out desired t) actions s) = st_starting s" for actions
      by (induction actions arbitrary: s)
        (simp_all add: applyExport_def setReport_def forgetExport_def split: ExportPlan.split)
    then show ?thesis by (simp add: applyExports_def)
  qed
  have v: "view (h\<lparr>ho_state := applyExports out plan desired t (applyCheckpoints out plan desired s)\<rparr>) =
      view (h\<lparr>ho_state := s\<rparr>)" for t s
    by (simp add: view_def exports applyCheckpoints_def)
  show ?thesis
    using applyTeardowns_view [of "teardownVolume out" plan
        "h\<lparr>ho_state := applyExports out plan desired (ho_slots h)
             (applyCheckpoints out plan desired (ho_state h))\<rparr>"]
      v [of "ho_slots h" "ho_state h"]
    by (simp add: reconcile_finish_def Let_def view_def applyNetwork_def act_slots_def)
qed

lemma keeps_reconcile:
  assumes plan: "plan = reconcile_plan out blocked desired h"
    and inv: "vinv (view h)"
    and sync: "\<And>w. w \<in> set (hd_instances desired) \<Longrightarrow> di_appId w \<notin> blocked \<Longrightarrow>
      keeps (act_pure (updateRecord (di_appId w) (syncRecord w)))"
    and stops: "\<And>action. action \<in> set (pl_instances plan) \<Longrightarrow> keeps (act_pure (applyStop action))"
    and sleeps: "\<And>d. InstanceSleep d \<in> set (pl_instances plan) \<Longrightarrow>
      keeps (\<lambda>h. on_instance (sleepInstance (out_env out) d h))"
    and starts: "keeps (act_then (act_pure (applyNetwork (out_rulesetTaken out 1))) (applyStarts out plan))"
    and provisions: "\<And>d. VolumeProvision d \<in> set (pl_volumes plan) \<Longrightarrow>
      keeps (act_slots (\<lambda>t. snd (provisionVolume out d t)))"
    and teardowns: "\<And>d. VolumeTeardown d \<in> set (pl_volumes plan) \<Longrightarrow>
      keeps (act_slots (\<lambda>t. snd (teardownVolume out d t)))"
  shows "vinv (view (snd (reconcile out blocked desired h))) \<and>
    vrel (view h) (view (snd (reconcile out blocked desired h)))"
proof -
  let ?wanted = "if blocked = {} then desired
    else desired\<lparr>hd_instances := filter (\<lambda>w. di_appId w \<notin> blocked) (hd_instances desired)\<rparr>"
  let ?deferred = "\<lambda>s. s\<lparr>st_deferredWork := (blocked \<noteq> {} \<or> hasDeferredWork plan \<or>
    list_ex (\<lambda>r. queued_retry r \<noteq> None) (records (ho_state h)))\<rparr>"
  let ?stages = "duringReplacements out plan
    (reconcile_stages out plan (reconcile_observed out h) desired blocked)"
  let ?finish = "act_slots (fold (\<lambda>action t.
     case action of VolumeTeardown d \<Rightarrow> snd (teardownVolume out d t) | _ \<Rightarrow> t) (pl_volumes plan))"
  have "keeps (act_pure ?deferred)"
    by (rule keeps_same_view) (simp add: act_pure_def view_def)
  moreover have "keeps (act_pure (syncDesired ?wanted))"
    unfolding syncDesired_def by (rule keeps_fold) (use sync in \<open>auto split: if_splits\<close>)
  moreover have "keeps ?stages"
    by (rule keeps_during, rule keeps_stages) (use stops sleeps starts provisions in auto)
  moreover have "keeps ?finish" by (rule keeps_teardowns) (rule teardowns)
  ultimately have "keeps (act_then (act_pure ?deferred) (act_then (act_pure (syncDesired ?wanted))
      (act_then ?stages ?finish)))"
    by (intro keeps_then)
  moreover have "view (snd (reconcile out blocked desired h)) =
      view (snd (act_then (act_pure ?deferred) (act_then (act_pure (syncDesired ?wanted))
        (act_then ?stages ?finish)) h))"
    by (simp add: reconcile_def Let_def plan [symmetric] act_then_def act_pure_def
        reconcile_finish_view split: prod.split sum.split)
  ultimately show ?thesis using keeps_at [OF _ inv refl] by simp
qed

end


section \<open>What the single actions keep\<close>

lemma reconcile_plan_fenced:
  assumes "a \<in> blocked"
  shows "\<forall>p \<in> set (pl_instances (reconcile_plan out blocked desired h)). instancePlan_app p \<noteq> a"
    and "\<forall>p \<in> set (pl_volumes (reconcile_plan out blocked desired h)). volumePlan_app p \<noteq> Some a"
  using assms unfolding reconcile_plan_def unfencedPlan_def withoutFencedApps_def by auto

lemma applyStop_records:
  "st_records (applyStop action s) =
     (case action of
        InstanceStop a _ \<Rightarrow> st_records (stopInstance a s)
      | InstanceReplace d \<Rightarrow> js_delete (di_appId d) (st_records (stopInstance (di_appId d) s))
      | InstanceForget a \<Rightarrow> js_delete a (st_records s)
      | _ \<Rightarrow> st_records s)"
  by (simp add: applyStop_def dropRecord_def split: InstancePlan.split)

lemma stopInstance_get:
  "js_get (st_records (stopInstance a s)) b =
     (if b = a then map_option (\<lambda>r. r\<lparr>ir_state := Stopped, ir_stopRequested := True,
        ir_recovery := None\<rparr>) (js_get (st_records s) a) else js_get (st_records s) b)"
  by (cases "js_get (st_records s) a")
    (simp_all add: stopInstance_def stopInstance_end_def stopInstance_begin_def setState_def Let_def)

lemma agent_inv_stop: "agent_inv s \<Longrightarrow> agent_inv (stopInstance a s)"
  by (simp add: stopInstance_def agent_inv_simple)

lemma agent_inv_applyStop: "agent_inv s \<Longrightarrow> agent_inv (applyStop action s)"
  by (cases action) (simp_all add: applyStop_def agent_inv_stop agent_inv_drop)

lemma applyStop_other:
  "instancePlan_app action \<noteq> a \<Longrightarrow>
     js_get (st_records (applyStop action s)) a = js_get (st_records s) a"
  by (cases action) (auto simp: applyStop_records stopInstance_get)

lemma agent_inv_sync: "agent_inv s \<Longrightarrow> agent_inv (updateRecord a (syncRecord w) s)"
  by (rule agent_inv_update) (auto simp: syncRecord_def record_ok_def)

definition slept_record :: "DesiredInstance \<Rightarrow> AppSlot \<Rightarrow> InstanceRecord option \<Rightarrow> InstanceRecord" where
  "slept_record d slot existing =
     (case existing of Some r \<Rightarrow> recordFields d slot r | None \<Rightarrow> freshRecord d slot Idle)"

lemma slept_record_simps [simp]:
  "ir_appId (slept_record d slot existing) = di_appId d"
  "ir_state (slept_record d slot existing) = (case existing of Some r \<Rightarrow> ir_state r | None \<Rightarrow> Idle)"
  by (simp_all add: slept_record_def recordFields_def freshRecord_def newInstanceRecord_def
      split: option.split)

lemma sleepInstance_state:
  "ho_state (snd (sleepInstance env d h)) = ho_state h \<or>
   (\<exists>slot. ho_state (snd (sleepInstance env d h)) =
      putRecord (slept_record d slot (js_get (st_records (ho_state h)) (di_appId d))) (ho_state h))"
  using ho_state_allocateOn [of env "di_appId d" h]
  by (auto simp: sleepInstance_def slept_record_def split: prod.split sum.split)

lemma sleep_other:
  "a \<noteq> di_appId d \<Longrightarrow>
     js_get (st_records (ho_state (snd (sleepInstance env d h)))) a = js_get (st_records (ho_state h)) a"
  using sleepInstance_state [of env d h] by auto

lemma allocateOn_slots:
  "ho_slots (snd (allocateOn env a h)) = snd (allocateFor (he_latest env) (he_devices env) a (ho_slots h))"
  by (simp add: allocateOn_def split: prod.split sum.split)

lemma allocateFor_allocate: "\<exists>ds. allocateFor latest devices a t = allocate ds a t"
  by (auto simp: allocateFor_def)

lemma allocateFor_slots:
  "slot_inv t \<Longrightarrow> slot_inv (snd (allocateFor latest devices a t))"
  "b \<noteq> a \<Longrightarrow> slot_lookup (snd (allocateFor latest devices a t)) b = slot_lookup t b"
  "slot_lookup t b = Some x \<Longrightarrow> slot_lookup (snd (allocateFor latest devices a t)) b = Some x"
  using allocateFor_allocate [of latest devices a t] slot_allocator.ok_alloc
    slot_allocator.alloc_other slot_allocator.alloc_held by metis+

lemma provisionVolume_slots:
  "slot_inv t \<Longrightarrow> slot_inv (snd (provisionVolume out d t))"
  "b \<noteq> dv_appId d \<Longrightarrow> slot_lookup (snd (provisionVolume out d t)) b = slot_lookup t b"
  "slot_lookup t b = Some x \<Longrightarrow> slot_lookup (snd (provisionVolume out d t)) b = Some x"
proof -
  have "snd (provisionVolume out d t) = t \<or> (\<exists>ds. snd (provisionVolume out d t) = snd (allocate ds (dv_appId d) t))"
    using allocateFor_allocate [of "he_latest (out_env out)" "he_devices (out_env out)" "dv_appId d" t]
    by (auto simp: provisionVolume_def Let_def split: prod.split sum.split) (metis snd_conv)+
  then show "slot_inv t \<Longrightarrow> slot_inv (snd (provisionVolume out d t))"
    "b \<noteq> dv_appId d \<Longrightarrow> slot_lookup (snd (provisionVolume out d t)) b = slot_lookup t b"
    "slot_lookup t b = Some x \<Longrightarrow> slot_lookup (snd (provisionVolume out d t)) b = Some x"
    using slot_allocator.ok_alloc slot_allocator.alloc_other slot_allocator.alloc_held by metis+
qed

lemma teardownVolume_slots:
  "slot_inv t \<Longrightarrow> slot_inv (snd (teardownVolume out d t))"
  "b \<noteq> dv_appId d \<Longrightarrow> slot_lookup (snd (teardownVolume out d t)) b = slot_lookup t b"
  using slot_allocator.ok_free slot_allocator.free_other
  by (auto simp: teardownVolume_def split: sum.split)

lemma attemptStart_slots:
  "\<exists>t. ho_slots (snd (attemptStartInstance env d now boot done h)) = t \<and>
     (t = ho_slots h \<or> t = snd (allocateFor (he_latest env) (he_devices env) (di_appId d) (ho_slots h)))"
  using allocateOn_slots [of env "di_appId d" h]
  by (auto simp: attemptStartInstance_def attemptStart_begin_def Let_def
      split: prod.split sum.split)

lemma startInstance_slots:
  "ho_slots (snd (startInstance env d now boot done h)) = ho_slots h \<or>
   ho_slots (snd (startInstance env d now boot done h)) =
     snd (allocateFor (he_latest env) (he_devices env) (di_appId d) (ho_slots h))"
  using attemptStart_slots [of env d now boot "done"
      "h\<lparr>ho_state := (ho_state h)\<lparr>st_starting := insert (di_appId d) (st_starting (ho_state h))\<rparr>\<rparr>"]
  by (auto simp: startInstance_def withStartClaim_def claimStart_def case_prod_beta Let_def)

lemma sleepInstance_slots:
  "ho_slots (snd (sleepInstance env d h)) =
     snd (allocateFor (he_latest env) (he_devices env) (di_appId d) (ho_slots h))"
  using allocateOn_slots [of env "di_appId d" h]
  by (auto simp: sleepInstance_def split: prod.split sum.split)


section \<open>Relations\<close>

text \<open>No app is booting that was not.\<close>

definition booting :: "InstanceRecord option \<Rightarrow> bool" where
  "booting r \<longleftrightarrow> map_option ir_state r \<in> {Some Pending, Some Starting}"

definition run_of :: "InstanceRecord option \<Rightarrow> (InstanceState \<times> Timestamp option) option" where
  "run_of r = map_option (\<lambda>x. (ir_state x, ir_startedAt x)) r"

definition no_new_boot :: "host_view \<Rightarrow> host_view \<Rightarrow> bool" where
  "no_new_boot u v \<longleftrightarrow>
     (\<forall>a. booting (js_get (fst (fst v)) a) \<longrightarrow>
       run_of (js_get (fst (fst v)) a) = run_of (js_get (fst (fst u)) a))"

lemma booting_run_of: "run_of r = run_of r' \<Longrightarrow> booting r = booting r'"
  by (cases r; cases r') (simp_all add: run_of_def booting_def)

interpretation boots: view_relation "\<lambda>_. True" no_new_boot
  by unfold_locales (auto simp: no_new_boot_def dest: booting_run_of)

text \<open>An app is left as it is: its record and its slot.\<close>

definition records_inv :: "host_view \<Rightarrow> bool" where
  "records_inv v \<longleftrightarrow> agent_inv (EMPTY\<lparr>st_records := fst (fst v)\<rparr>)"

lemma records_inv_view: "records_inv (view h) = agent_inv (ho_state h)"
  by (simp add: records_inv_def view_def agent_inv_def)

definition same_app :: "AppId \<Rightarrow> host_view \<Rightarrow> host_view \<Rightarrow> bool" where
  "same_app a u v \<longleftrightarrow>
     js_get (fst (fst v)) a = js_get (fst (fst u)) a \<and> (a \<in> snd (fst v) \<longleftrightarrow> a \<in> snd (fst u)) \<and>
     slot_lookup (snd v) a = slot_lookup (snd u) a"

interpretation app: view_relation records_inv "same_app a" for a
  by unfold_locales (auto simp: same_app_def)

text \<open>An app that holds a slot keeps it.\<close>

definition keeps_slot :: "AppId \<Rightarrow> host_view \<Rightarrow> host_view \<Rightarrow> bool" where
  "keeps_slot a u v \<longleftrightarrow> (slot_lookup (snd u) a \<noteq> None \<longrightarrow> slot_lookup (snd v) a = slot_lookup (snd u) a)"

interpretation slot: view_relation "\<lambda>v. slot_inv (snd v)" "keeps_slot a" for a
  by unfold_locales (auto simp: keeps_slot_def)

text \<open>The records kept aside for a replacement stay the same.\<close>

interpretation aside: act_relation "\<lambda>_. True" "\<lambda>h i. st_replacing (ho_state i) = st_replacing (ho_state h)"
  by unfold_locales simp_all

section \<open>Properties\<close>

lemma boots_starts_refused:
  "boots.keeps (act_then (act_pure (applyNetwork False)) (applyStarts out plan))"
  by (rule boots.keeps_same_view)
    (simp add: act_then_def act_pure_def applyNetwork_def applyStarts_def Let_def view_def)

lemma boots_pure:
  assumes "\<And>s b. booting (js_get (st_records (f s)) b) \<Longrightarrow>
    run_of (js_get (st_records (f s)) b) = run_of (js_get (st_records s) b)"
  shows "boots.keeps (act_pure f)"
  unfolding boots.keeps_def using assms by (simp add: no_new_boot_def act_pure_def view_def)

lemma boots_stop: "boots.keeps (act_pure (applyStop action))"
proof (rule boots_pure)
  show "run_of (js_get (st_records (applyStop action s)) b) = run_of (js_get (st_records s) b)"
    if "booting (js_get (st_records (applyStop action s)) b)" for s b
    using that
    by (cases action; cases "js_get (st_records s) b")
      (auto simp: applyStop_records stopInstance_get booting_def split: if_splits)
qed

lemma boots_sync: "boots.keeps (act_pure (updateRecord a (syncRecord w)))"
proof (rule boots_pure)
  show "run_of (js_get (st_records (updateRecord a (syncRecord w) s)) b) =
      run_of (js_get (st_records s) b)" for s b
    by (cases "js_get (st_records s) a") (auto simp: run_of_def syncRecord_def)
qed

lemma boots_sleep: "boots.keeps (\<lambda>h. on_instance (sleepInstance env d h))"
proof -
  have "run_of (js_get (st_records (ho_state (snd (sleepInstance env d h)))) b) =
      run_of (js_get (st_records (ho_state h)) b)"
    if "booting (js_get (st_records (ho_state (snd (sleepInstance env d h)))) b)" for h b
  proof -
    have "run_of (Some (slept_record d slot r)) = run_of r" if "booting (Some (slept_record d slot r))" for slot r
      using that
      by (cases r) (simp_all add: booting_def run_of_def slept_record_def recordFields_def
          freshRecord_def newInstanceRecord_def)
    then show ?thesis using sleepInstance_state [of env d h] that by (auto split: if_splits)
  qed
  then show ?thesis unfolding boots.keeps_def by (simp add: no_new_boot_def view_def)
qed

lemma boots_slots: "boots.keeps (act_slots f)"
  unfolding boots.keeps_def by (simp add: no_new_boot_def act_slots_def view_def)

text \<open>
  C27. A tenant only ever boots onto a host whose isolation ruleset is in the kernel: in a reconcile
  whose ruleset nft refused, whatever the plan and whatever else fails or succeeds, no record is left
  pending or starting that was not already, with the same start, before the reconcile.
\<close>

theorem no_boot_without_isolation:
  assumes "\<not> out_rulesetTaken out 1"
    and "js_get (st_records (ho_state (snd (reconcile out blocked desired h)))) a = Some r"
    and "ir_state r = Pending \<or> ir_state r = Starting"
  shows "\<exists>before. js_get (st_records (ho_state h)) a = Some before \<and>
    ir_state before = ir_state r \<and> ir_startedAt before = ir_startedAt r"
proof -
  have "no_new_boot (view h) (view (snd (reconcile out blocked desired h)))"
    by (rule conjunct2 [OF boots.keeps_reconcile])
      (simp_all add: boots_starts_refused assms(1) boots_stop boots_sync boots_sleep boots_slots
        del: One_nat_def)
  moreover have "booting (Some r)" using assms(3) by (auto simp: booting_def)
  ultimately have "run_of (js_get (st_records (ho_state h)) a) = run_of (Some r)"
    using assms(2) unfolding no_new_boot_def view_def fst_conv by metis
  then show ?thesis
    by (cases "js_get (st_records (ho_state h)) a") (simp_all add: run_of_def)
qed


definition outside_example :: "bool \<Rightarrow> Outside" where
  "outside_example taken =
     \<lparr>out_env = \<lparr>he_latest = None, he_devices = {}, he_describe = (\<lambda>_. [])\<rparr>,
      out_unitIds = [''a''],
      out_statuses = [(''a'', UNKNOWN_UNIT\<lparr>us_loaded := True, us_active := True\<rparr>)],
      out_volumes = [], out_boot = (\<lambda>_. Booted), out_placed = (\<lambda>_. Inr ()),
      out_provision = (\<lambda>_ _. Inr (0, [])), out_teardown = (\<lambda>_. Inr ()), out_routesTaken = True,
      out_rulesetTaken = (\<lambda>_. taken), out_usesAppStorage = (\<lambda>_. False),
      out_export = (\<lambda>_. Inl []), out_checkpoint = (\<lambda>_. Inr ()), out_reclaimed = True,
      out_nowMs = 0\<rparr>"

definition starting_host :: Host where
  "starting_host =
     \<lparr>ho_state = putRecord (record_example\<lparr>ir_state := Starting\<rparr>) EMPTY,
      ho_slots = \<lparr>ss_assignments = [(''a'', 3)], ss_cursor = 4\<rparr>\<rparr>"

lemma starting_host_records:
  "st_records (ho_state starting_host) = [(''a'', record_example\<lparr>ir_state := Starting\<rparr>)]"
  by (simp add: starting_host_def putRecord_def EMPTY_def) (simp add: record_example_def)

lemma starting_host_observed:
  "os_instances (reconcile_observed (outside_example taken) starting_host) =
     [\<lparr>oi_appId = ''a'', oi_volumeId = Some (ir_volumeId record_example),
       oi_deploymentId = Some (ir_deploymentId record_example), oi_present = True,
       oi_running = True, oi_exited = False, oi_recoveryRequested = False,
       oi_terminalFailure = False\<rparr>]"
  by (simp add: reconcile_observed_def observeUnits_def starting_host_records outside_example_def
      js_dedup_def UNKNOWN_UNIT_def Let_def) (simp add: record_example_def queued_retry_def)


lemma starting_host_plan:
  "reconcile_plan (outside_example taken) {}
     (desired_example [desired_instance_example ''a'' DesiredRunning]) starting_host =
   \<lparr>pl_instances = [InstanceNone ''a''], pl_volumes = [], pl_checkpoints = [], pl_exports = []\<rparr>"
proof -
  have "js_get (byId oi_appId (os_instances (reconcile_observed (outside_example taken) starting_host)))
      ''a'' = Some (observed_instance_example ''a'' True)"
    by (simp add: starting_host_observed byId_get observed_instance_example_def) (simp add: record_example_def)
  then have "planInstances (desired_example [desired_instance_example ''a'' DesiredRunning])
      (reconcile_observed (outside_example taken) starting_host) = [InstanceNone ''a'']"
    by (simp add: planInstances_def Let_def starting_host_observed plan_examples planInstance_def)
  moreover have "os_exports (reconcile_observed (outside_example taken) starting_host) = []"
    by (simp add: reconcile_observed_def observeUnits_def Let_def starting_host_def putRecord_def EMPTY_def)
  ultimately show ?thesis
    by (simp add: reconcile_plan_def unfencedPlan_def withoutFencedApps_def planReconcile_def
        planVolumes_def planCheckpoints_def planExports_def desired_example_def Let_def)
qed

lemma starting_host_reconciled:
  "js_get (st_records (ho_state (snd (reconcile (outside_example taken) {}
     (desired_example [desired_instance_example ''a'' DesiredRunning]) starting_host)))) ''a'' =
   Some (syncRecord (desired_instance_example ''a'' DesiredRunning)
     (record_example\<lparr>ir_state := Starting\<rparr>))"
  unfolding reconcile_def Let_def starting_host_plan
  by (simp add: duringReplacements_def reconcile_stages_def Let_def
      act_then_def act_pure_def applyStops_def applyStop_def act_volumes_def applyVolumes_def
      forgetDeletedVolumes_def applySleeps_def applyNetwork_def applyStarts_def planned_start_def
      List.map_filter_def reconcile_finish_def applyCheckpoints_def applyExports_def
      applyTeardowns_def syncDesired_def desired_example_def desired_instance_example_def
      starting_host_records)

theorem no_boot_without_isolation_witness:
  "\<exists>before. js_get (st_records (ho_state starting_host)) ''a'' = Some before \<and>
     ir_state before = Starting \<and> ir_startedAt before = Some 5"
proof -
  let ?r = "syncRecord (desired_instance_example ''a'' DesiredRunning) (record_example\<lparr>ir_state := Starting\<rparr>)"
  have "\<exists>before. js_get (st_records (ho_state starting_host)) ''a'' = Some before \<and>
      ir_state before = ir_state ?r \<and> ir_startedAt before = ir_startedAt ?r"
    by (rule no_boot_without_isolation [OF _ starting_host_reconciled [of False]])
      (simp_all add: outside_example_def syncRecord_def)
  moreover have "ir_state ?r = Starting" "ir_startedAt ?r = Some 5"
    by (simp_all add: syncRecord_def record_example_def)
  ultimately show ?thesis by metis
qed


lemma app_keepsI:
  assumes "\<And>h. agent_inv (ho_state h) \<Longrightarrow> agent_inv (ho_state (snd (f h))) \<and>
      js_get (st_records (ho_state (snd (f h)))) a = js_get (st_records (ho_state h)) a \<and>
      (a \<in> st_starting (ho_state (snd (f h))) \<longleftrightarrow> a \<in> st_starting (ho_state h)) \<and>
      slot_lookup (ho_slots (snd (f h))) a = slot_lookup (ho_slots h) a"
  shows "app.keeps a f"
  unfolding app.keeps_def
  unfolding records_inv_view same_app_def
  unfolding view_def fst_conv snd_conv
  using assms by blast

lemma startInstance_other:
  assumes "agent_inv (ho_state h)" and "a \<noteq> di_appId d"
  shows "agent_inv (ho_state (snd (startInstance env d now boot done h))) \<and>
    js_get (st_records (ho_state (snd (startInstance env d now boot done h)))) a =
      js_get (st_records (ho_state h)) a"
  unfolding startInstance_def
  by (rule withStartClaim_keeps [OF assms(1)])
    (simp_all add: attemptStart_keeps(1) attemptStart_keeps(2) [OF _ assms(2)])

lemma starting_ops [simp]:
  "st_starting (applyStop action s) = st_starting s"
  "st_starting (recordVmFailure r f now s) = st_starting s"
  "st_starting (attemptStart_end d r existing boot now s) = st_starting s"
  by (simp_all add: applyStop_def stopInstance_def stopInstance_begin_def stopInstance_end_def
      setState_def dropRecord_def recordVmFailure_def attemptStart_end_def probeAtOnce_def
      putRecord_def Let_def split: InstancePlan.split option.split boot_outcome.split)

lemma sleepInstance_starting:
  "st_starting (ho_state (snd (sleepInstance env d h))) = st_starting (ho_state h)"
  using sleepInstance_state [of env d h] by (auto simp: putRecord_def)

lemma attemptStart_starting:
  "st_starting (ho_state (snd (attemptStartInstance env d now boot done h))) = st_starting (ho_state h)"
proof -
  obtain res t where begins: "attemptStart_begin env d now h = (res, t)" by (metis prod.exhaust)
  have "st_starting (ho_state (snd (attemptStart_begin env d now h))) = st_starting (ho_state h)"
    using ho_state_allocateOn [of env "di_appId d" h]
    by (auto simp: attemptStart_begin_def Let_def markActive_def putRecord_def split: prod.split sum.split)
  then have "st_starting (ho_state t) = st_starting (ho_state h)" by (simp add: begins)
  then show ?thesis
    by (simp add: attemptStartInstance_def begins split: sum.split option.split)
qed

lemma startInstance_starting:
  "st_starting (ho_state (snd (startInstance env d now boot done h))) = st_starting (ho_state h)"
  by (auto simp: startInstance_def withStartClaim_def claimStart_def releaseStart_def
      case_prod_beta Let_def attemptStart_starting)

lemma app_keeps_start:
  assumes "di_appId d \<noteq> a"
  shows "app.keeps a (\<lambda>h. on_instance (startInstance env d now boot done h))"
proof (rule app_keepsI)
  fix h :: Host assume "agent_inv (ho_state h)"
  note other = startInstance_other [OF this assms [symmetric], of env now boot "done"]
  have "slot_lookup (ho_slots (snd (startInstance env d now boot done h))) a = slot_lookup (ho_slots h) a"
    using startInstance_slots [of env d now boot "done" h] allocateFor_slots(2) [OF assms [symmetric]]
    by metis
  with other show "agent_inv (ho_state (snd (on_instance (startInstance env d now boot done h)))) \<and>
      js_get (st_records (ho_state (snd (on_instance (startInstance env d now boot done h))))) a =
        js_get (st_records (ho_state h)) a \<and>
      (a \<in> st_starting (ho_state (snd (on_instance (startInstance env d now boot done h)))) \<longleftrightarrow>
        a \<in> st_starting (ho_state h)) \<and>
      slot_lookup (ho_slots (snd (on_instance (startInstance env d now boot done h)))) a =
        slot_lookup (ho_slots h) a"
    unfolding snd_on_instance startInstance_starting by blast
qed

lemma app_keeps_sleep:
  assumes "a \<noteq> di_appId d"
  shows "app.keeps a (\<lambda>h. on_instance (sleepInstance env d h))"
proof (rule app_keepsI)
  fix h :: Host assume h: "agent_inv (ho_state h)"
  show "agent_inv (ho_state (snd (on_instance (sleepInstance env d h)))) \<and>
      js_get (st_records (ho_state (snd (on_instance (sleepInstance env d h))))) a =
        js_get (st_records (ho_state h)) a \<and>
      (a \<in> st_starting (ho_state (snd (on_instance (sleepInstance env d h)))) \<longleftrightarrow>
        a \<in> st_starting (ho_state h)) \<and>
      slot_lookup (ho_slots (snd (on_instance (sleepInstance env d h)))) a =
        slot_lookup (ho_slots h) a"
    using agent_inv_sleep [OF surjective_pairing h] sleep_other [OF assms]
    by (simp add: sleepInstance_slots sleepInstance_starting allocateFor_slots(2) [OF assms])
qed

lemma app_starts:
  assumes "\<And>p. p \<in> set (pl_instances plan) \<Longrightarrow> instancePlan_app p \<noteq> a"
  shows "app.keeps a (act_then (act_pure (applyNetwork b)) (applyStarts out plan))"
proof (rule app.keeps_then)
  show "app.keeps a (act_pure (applyNetwork b))"
    by (rule app.keeps_same_view) (simp add: act_pure_def applyNetwork_def view_def)
  have apps: "di_appId d \<noteq> a" if "d \<in> set (List.map_filter planned_start (pl_instances plan))" for d
  proof -
    from that obtain p where "p \<in> set (pl_instances plan)" "planned_start p = Some d"
      by (auto simp: set_map_filter)
    with assms [of p] show ?thesis by (cases p) (simp_all add: planned_start_def)
  qed
  have each: "app.keeps a (act_each (\<lambda>d h. on_instance (startInstance (out_env out) d (out_nowMs out)
      (out_boot out (di_appId d)) (out_nowMs out) h)) (List.map_filter planned_start (pl_instances plan)))"
    by (rule app.keeps_each) (rule app_keeps_start, rule apps)
  show "app.keeps a (applyStarts out plan)"
    unfolding app.keeps_def
  proof (intro allI impI)
    fix h assume "records_inv (view h)"
    then show "records_inv (view (snd (applyStarts out plan h))) \<and>
        same_app a (view h) (view (snd (applyStarts out plan h)))"
      using app.keepsD [OF each] app.rel_refl [of a h]
      by (simp only: applyStarts_def Let_def split: if_split) auto
  qed
qed

text \<open>
  C28. A reconcile leaves an app whose storage is being migrated alone, from the observation to the
  report: whatever desired state says of it and whatever the outside answers, its record, its start
  claim and its slot are exactly what they were, and the records stay in order.
\<close>

theorem fenced_app_survives_reconcile:
  assumes "agent_inv (ho_state h)" and "a \<in> blocked"
  shows "agent_inv (ho_state (snd (reconcile out blocked desired h))) \<and>
    js_get (st_records (ho_state (snd (reconcile out blocked desired h)))) a =
      js_get (st_records (ho_state h)) a \<and>
    (a \<in> st_starting (ho_state (snd (reconcile out blocked desired h))) \<longleftrightarrow>
      a \<in> st_starting (ho_state h)) \<and>
    slot_lookup (ho_slots (snd (reconcile out blocked desired h))) a = slot_lookup (ho_slots h) a"
proof -
  note fenced = bspec [OF reconcile_plan_fenced(1) [OF assms(2)]]
    bspec [OF reconcile_plan_fenced(2) [OF assms(2)]]
  have "records_inv (view (snd (reconcile out blocked desired h))) \<and>
      same_app a (view h) (view (snd (reconcile out blocked desired h)))"
  proof (rule app.keeps_reconcile [OF refl])
    show "records_inv (view h)" using assms(1) by (simp add: records_inv_view)
    show "app.keeps a (act_then (act_pure (applyNetwork (out_rulesetTaken out 1)))
        (applyStarts out (reconcile_plan out blocked desired h)))"
      by (rule app_starts) (rule fenced(1))
    show "app.keeps a (act_pure (updateRecord (di_appId w) (syncRecord w)))"
      if "di_appId w \<notin> blocked" for w
    proof -
      have "a \<noteq> di_appId w" using that assms(2) by blast
      then show ?thesis by (intro app_keepsI) (simp add: act_pure_def agent_inv_sync)
    qed
    show "app.keeps a (act_pure (applyStop action))"
      if "action \<in> set (pl_instances (reconcile_plan out blocked desired h))" for action
      by (rule app_keepsI)
        (simp add: act_pure_def agent_inv_applyStop applyStop_other [OF fenced(1) [OF that]])
    show "app.keeps a (\<lambda>h. on_instance (sleepInstance (out_env out) d h))"
      if "InstanceSleep d \<in> set (pl_instances (reconcile_plan out blocked desired h))" for d
      using fenced(1) [OF that] by (intro app_keeps_sleep) auto
    show "app.keeps a (act_slots (\<lambda>t. snd (provisionVolume out d t)))"
      if "VolumeProvision d \<in> set (pl_volumes (reconcile_plan out blocked desired h))" for d
      using fenced(2) [OF that]
      by (intro app_keepsI) (simp add: act_slots_def provisionVolume_slots(2))
    show "app.keeps a (act_slots (\<lambda>t. snd (teardownVolume out d t)))"
      if "VolumeTeardown d \<in> set (pl_volumes (reconcile_plan out blocked desired h))" for d
      using fenced(2) [OF that]
      by (intro app_keepsI) (simp add: act_slots_def teardownVolume_slots(2))
  qed
  then show ?thesis unfolding records_inv_view by (simp add: same_app_def view_def)
qed


theorem fenced_app_survives_reconcile_witness:
  "js_get (st_records (ho_state (snd (reconcile (outside_example True) {''a''} (desired_example [])
     starting_host)))) ''a'' = Some (record_example\<lparr>ir_state := Starting\<rparr>) \<and>
   slot_lookup (ho_slots (snd (reconcile (outside_example True) {''a''} (desired_example [])
     starting_host))) ''a'' = Some (describeSlot 3 ''a'')"
proof -
  have "agent_inv (ho_state starting_host)"
    unfolding starting_host_def Host.select_convs
    by (rule agent_inv_put) (simp_all add: agent_inv_def EMPTY_def record_ok_def record_example_def)
  from fenced_app_survives_reconcile [OF this, of "''a''" "{''a''}" "outside_example True" "desired_example []"]
  show ?thesis
    by (simp add: starting_host_records) (simp add: starting_host_def slot_lookup_def withSlot_def)
qed

lemma slot_keepsI:
  assumes "\<And>h. slot_inv (ho_slots h) \<Longrightarrow> slot_inv (ho_slots (snd (f h)))"
    and "\<And>h x. slot_lookup (ho_slots h) a = Some x \<Longrightarrow> slot_lookup (ho_slots (snd (f h))) a = Some x"
  shows "slot.keeps a f"
  unfolding slot.keeps_def
  unfolding keeps_slot_def view_def fst_conv snd_conv
  using assms by auto

lemma slot_start: "slot.keeps a (\<lambda>h. on_instance (startInstance env d now boot done h))"
proof (rule slot_keepsI)
  show "slot_inv (ho_slots (snd (on_instance (startInstance env d now boot done h))))"
    if "slot_inv (ho_slots h)" for h
    using that startInstance_slots [of env d now boot "done" h] allocateFor_slots(1)
    by (simp only: snd_on_instance) metis
  show "slot_lookup (ho_slots (snd (on_instance (startInstance env d now boot done h)))) a = Some x"
    if "slot_lookup (ho_slots h) a = Some x" for h x
    using that startInstance_slots [of env d now boot "done" h] allocateFor_slots(3)
    by (simp only: snd_on_instance) metis
qed

lemma slot_starts:
  "slot.keeps a (act_then (act_pure (applyNetwork b)) (applyStarts out plan))"
proof (rule slot.keeps_then)
  show "slot.keeps a (act_pure (applyNetwork b))"
    by (rule slot.keeps_same_view) (simp add: act_pure_def applyNetwork_def view_def)
  have "slot.keeps a (act_each (\<lambda>d h. on_instance (startInstance (out_env out) d (out_nowMs out)
      (out_boot out (di_appId d)) (out_nowMs out) h)) (List.map_filter planned_start (pl_instances plan)))"
    by (rule slot.keeps_each) (rule slot_start)
  note each = slot.keepsD [OF this]
  show "slot.keeps a (applyStarts out plan)"
    unfolding slot.keeps_def
  proof (intro allI impI)
    fix h assume "slot_inv (snd (view h))"
    then show "slot_inv (snd (view (snd (applyStarts out plan h)))) \<and>
        keeps_slot a (view h) (view (snd (applyStarts out plan h)))"
      using each slot.rel_refl [of a h]
      by (simp only: applyStarts_def Let_def split: if_split) auto
  qed
qed

lemma planned_teardown_absent:
  assumes "VolumeTeardown d \<in> set (pl_volumes (reconcile_plan out blocked desired h))"
  shows "d \<in> set (hd_volumes desired) \<and> dv_desiredState d = Absent"
proof -
  have "VolumeTeardown d \<in> set (planVolumes desired (reconcile_observed out h))"
    using assms
    by (auto simp: reconcile_plan_def unfencedPlan_def withoutFencedApps_def planReconcile_def
        split: if_splits)
  then show ?thesis
    by (auto simp: planVolumes_def planVolume_def Let_def split: if_splits option.splits)
qed

text \<open>
  Slots outlive everything but a removal: a reconcile never lets two apps' slots meet, and an app
  that holds a slot still holds the same one afterwards unless desired state names one of its volumes
  as absent. Redeploys, stops, sleeps, failed starts and failed provisioning all keep it.
\<close>

theorem slot_survives_reconcile:
  assumes "slot_inv (ho_slots h)" and "slot_lookup (ho_slots h) a = Some x"
    and "\<forall>v \<in> set (hd_volumes desired). dv_appId v = a \<longrightarrow> dv_desiredState v \<noteq> Absent"
  shows "slot_inv (ho_slots (snd (reconcile out blocked desired h))) \<and>
    slot_lookup (ho_slots (snd (reconcile out blocked desired h))) a = Some x"
proof -
  have "slot_inv (snd (view (snd (reconcile out blocked desired h)))) \<and>
      keeps_slot a (view h) (view (snd (reconcile out blocked desired h)))"
  proof (rule slot.keeps_reconcile [OF refl])
    show "slot_inv (snd (view h))" using assms(1) by (simp add: view_def)
    show "slot.keeps a (act_pure (updateRecord (di_appId w) (syncRecord w)))"
      "slot.keeps a (act_pure (applyStop action))" for w action
      by (rule slot_keepsI; simp add: act_pure_def)+
    show "slot.keeps a (\<lambda>h. on_instance (sleepInstance (out_env out) d h))" for d
      by (rule slot_keepsI) (simp_all add: sleepInstance_slots allocateFor_slots)
    show "slot.keeps a (act_then (act_pure (applyNetwork (out_rulesetTaken out 1)))
        (applyStarts out (reconcile_plan out blocked desired h)))"
      by (rule slot_starts)
    show "slot.keeps a (act_slots (\<lambda>t. snd (provisionVolume out d t)))" for d
      by (rule slot_keepsI) (simp_all add: act_slots_def provisionVolume_slots)
    show "slot.keeps a (act_slots (\<lambda>t. snd (teardownVolume out d t)))"
      if "VolumeTeardown d \<in> set (pl_volumes (reconcile_plan out blocked desired h))" for d
    proof (rule slot_keepsI)
      have "a \<noteq> dv_appId d" using planned_teardown_absent [OF that] assms(3) by blast
      then show "slot_lookup (ho_slots (snd (act_slots (\<lambda>t. snd (teardownVolume out d t)) i))) a = Some y"
        if "slot_lookup (ho_slots i) a = Some y" for i y
        using that by (simp add: act_slots_def teardownVolume_slots(2))
    qed (simp add: act_slots_def teardownVolume_slots(1))
  qed
  then show ?thesis using assms(2) by (simp add: keeps_slot_def view_def)
qed

theorem slot_survives_reconcile_witness:
  "slot_lookup (ho_slots (snd (reconcile (outside_example True) {} (desired_example [])
     starting_host))) ''a'' = Some (describeSlot 3 ''a'')"
  by (rule conjunct2 [OF slot_survives_reconcile])
    (simp_all add: starting_host_def slot_inv_def js_valid_def slot_in_range_def slot_constants
      slot_lookup_def withSlot_def desired_example_def)


lemma aside_ops [simp]:
  "st_replacing (applyStop action s) = st_replacing s"
  "st_replacing (recordVmFailure r f now s) = st_replacing s"
  "st_replacing (attemptStart_end d r existing boot now s) = st_replacing s"
  by (simp_all add: applyStop_def stopInstance_def stopInstance_begin_def stopInstance_end_def
      setState_def dropRecord_def recordVmFailure_def attemptStart_end_def probeAtOnce_def
      putRecord_def Let_def split: InstancePlan.split option.split boot_outcome.split)

lemma aside_begin:
  "st_replacing (ho_state (snd (attemptStart_begin env d now h))) = st_replacing (ho_state h)"
  using ho_state_allocateOn [of env "di_appId d" h]
  by (auto simp: attemptStart_begin_def Let_def markActive_def putRecord_def split: prod.split sum.split)

lemma aside_start:
  "st_replacing (ho_state (snd (startInstance env d now boot done h))) = st_replacing (ho_state h)"
proof -
  have "st_replacing (ho_state (snd (attemptStartInstance env d now boot done i))) =
      st_replacing (ho_state i)" for i
    using aside_begin [of env d now i]
    by (auto simp: attemptStartInstance_def split: prod.split sum.split option.split)
  then show ?thesis
    by (simp add: startInstance_def withStartClaim_def claimStart_def releaseStart_def
        case_prod_beta Let_def)
qed

lemma aside_sleep:
  "st_replacing (ho_state (snd (sleepInstance env d h))) = st_replacing (ho_state h)"
  using sleepInstance_state [of env d h] by (auto simp: putRecord_def)

lemma aside_each:
  assumes "\<And>x h. st_replacing (ho_state (snd (f x h))) = st_replacing (ho_state h)"
  shows "st_replacing (ho_state (snd (act_each f xs h))) = st_replacing (ho_state h)"
proof -
  have "aside.keeps (act_each f xs)"
    by (rule aside.keeps_each) (simp add: aside.keeps_def assms)
  then show ?thesis using aside.keepsD by blast
qed

lemma aside_stages: "aside.keeps (reconcile_stages out plan observed desired blocked)"
  unfolding reconcile_stages_def
proof (intro aside.keeps_then)
  show "aside.keeps (act_pure (applyStops plan))"
    unfolding applyStops_def by (rule aside.keeps_fold) (simp add: aside.keeps_def act_pure_def)
  show "aside.keeps (\<lambda>h. (Inr (), act_volumes
      (applyVolumes (provisionVolume out) plan observed desired blocked) h))"
    by (simp add: aside.keeps_def act_volumes_def applyVolumes_def forgetDeletedVolumes_def
        Let_def case_prod_beta)
  show "aside.keeps (applySleeps out plan)"
    unfolding applySleeps_def
    by (rule aside.keeps_each) (simp add: aside.keeps_def aside_sleep split: InstancePlan.split)
  show "aside.keeps (act_pure (applyNetwork (out_rulesetTaken out 1)))"
    by (simp add: aside.keeps_def act_pure_def applyNetwork_def)
  show "aside.keeps (applyStarts out plan)"
    by (simp add: aside.keeps_def applyStarts_def Let_def aside_each aside_start)
qed

lemma map_filter_replacing:
  assumes "\<exists>d. InstanceReplace d \<in> set actions"
  shows "set (List.map_filter (\<lambda>action.
    case action of InstanceReplace d \<Rightarrow> Some (di_appId d) | _ \<Rightarrow> None) actions) \<noteq> {}"
proof -
  from assms obtain d where "InstanceReplace d \<in> set actions" by blast
  then have "di_appId d \<in> set (List.map_filter (\<lambda>action.
      case action of InstanceReplace d \<Rightarrow> Some (di_appId d) | _ \<Rightarrow> None) actions)"
    unfolding set_map_filter by (intro bexI) simp_all
  then show ?thesis by (metis empty_iff)
qed

lemma during_replacing:
  assumes "\<exists>d. InstanceReplace d \<in> set (pl_instances plan)"
  shows "st_replacing (ho_state (snd (duringReplacements out plan eff h))) = [] \<and>
    (\<forall>e. fst (duringReplacements out plan eff h) = Inl e \<longrightarrow>
       st_deferredWork (ho_state (snd (duringReplacements out plan eff h))))"
  unfolding duringReplacements_def Let_def if_not_P [OF map_filter_replacing [OF assms]]
  by (simp add: applyNetwork_def split: prod.split sum.split)

lemma during_not_replacing:
  assumes "\<nexists>d. InstanceReplace d \<in> set (pl_instances plan)"
  shows "duringReplacements out plan eff h = eff h"
proof -
  let ?replacing = "List.map_filter (\<lambda>action.
    case action of InstanceReplace d \<Rightarrow> Some (di_appId d) | _ \<Rightarrow> None) (pl_instances plan)"
  have "a \<notin> set ?replacing" for a
    unfolding set_map_filter using assms by (auto split: InstancePlan.splits)
  then have "set ?replacing = {}" by (metis ex_in_conv)
  note eq = if_P [OF this]
  show ?thesis unfolding duringReplacements_def Let_def eq ..
qed

text \<open>
  Whatever happens to a replacement, its app is let go of: after a reconcile, successful or not,
  no record is kept aside, so no route is left on the waiting listener; and one that failed while it
  was replacing something is marked to be run again without waiting for desired state to change.
\<close>

theorem replacements_let_go:
  assumes "st_replacing (ho_state h) = []"
  shows "st_replacing (ho_state (snd (reconcile out blocked desired h))) = [] \<and>
    (\<forall>e d. fst (reconcile out blocked desired h) = Inl e \<and>
       InstanceReplace d \<in> set (pl_instances (reconcile_plan out blocked desired h)) \<longrightarrow>
       st_deferredWork (ho_state (snd (reconcile out blocked desired h))))"
proof -
  let ?plan = "reconcile_plan out blocked desired h"
  let ?stages = "reconcile_stages out ?plan (reconcile_observed out h) desired blocked"
  let ?wanted = "if blocked = {} then desired
    else desired\<lparr>hd_instances := filter (\<lambda>w. di_appId w \<notin> blocked) (hd_instances desired)\<rparr>"
  define i where "i = h\<lparr>ho_state := syncDesired ?wanted ((ho_state h)\<lparr>st_deferredWork :=
    (blocked \<noteq> {} \<or> hasDeferredWork ?plan \<or>
     list_ex (\<lambda>r. queued_retry r \<noteq> None) (records (ho_state h)))\<rparr>)\<rparr>"
  have sync: "st_replacing (syncDesired w s) = st_replacing s" for w s
  proof -
    have "st_replacing (fold (\<lambda>w. updateRecord (di_appId w) (syncRecord w)) ws s) = st_replacing s" for ws
      by (induction ws arbitrary: s) simp_all
    then show ?thesis by (simp add: syncDesired_def)
  qed
  have i: "st_replacing (ho_state i) = []" using assms by (simp add: i_def sync)
  have stages: "st_replacing (ho_state (snd (?stages j))) = st_replacing (ho_state j)" for j
    using aside.keepsD [OF aside_stages] by blast
  have during: "st_replacing (ho_state (snd (duringReplacements out ?plan ?stages i))) = [] \<and>
      (\<forall>e d. fst (duringReplacements out ?plan ?stages i) = Inl e \<and>
        InstanceReplace d \<in> set (pl_instances ?plan) \<longrightarrow>
        st_deferredWork (ho_state (snd (duringReplacements out ?plan ?stages i))))"
  proof (cases "\<exists>d. InstanceReplace d \<in> set (pl_instances ?plan)")
    case True
    from during_replacing [OF this, of out ?stages i] show ?thesis by blast
  next
    case False
    then show ?thesis using i stages [of i] by (simp add: during_not_replacing)
  qed
  have finish: "st_replacing (ho_state (reconcile_finish out plan d j)) = st_replacing (ho_state j)"
    for plan d j
  proof -
    have "st_replacing (fst (fold (applyTeardown m) actions p)) = st_replacing (fst p)"
      for m :: "slot_store volume_manager" and actions p
      by (induction actions arbitrary: p)
        (simp_all add: applyTeardown_def rememberDeletedVolume_def Let_def
          split: VolumePlan.split prod.split sum.split)
    moreover have "st_replacing (fold (applyExport out d t) actions s) = st_replacing s" for t actions s
      by (induction actions arbitrary: s)
        (simp_all add: applyExport_def setReport_def forgetExport_def split: ExportPlan.split)
    ultimately show ?thesis
      by (simp add: reconcile_finish_def Let_def applyNetwork_def act_volumes_def applyTeardowns_def
          case_prod_beta applyExports_def applyCheckpoints_def)
  qed
  have "reconcile out blocked desired h = (case duringReplacements out ?plan ?stages i of
      (Inl e, j) \<Rightarrow> (Inl e, j) | (Inr _, j) \<Rightarrow> (Inr (), reconcile_finish out ?plan desired j))"
    by (simp add: reconcile_def Let_def i_def)
  then show ?thesis using during by (auto simp: finish split: prod.splits sum.splits)
qed


theorem replacements_let_go_witness:
  "st_deferredWork (ho_state (snd (reconcile ((outside_example True)\<lparr>out_routesTaken := False\<rparr>) {}
     (desired_example [(desired_instance_example ''a'' DesiredRunning)\<lparr>di_deploymentId := ''e''\<rparr>])
     starting_host)))"
proof -
  let ?out = "(outside_example True)\<lparr>out_routesTaken := False\<rparr>"
  let ?w = "(desired_instance_example ''a'' DesiredRunning)\<lparr>di_deploymentId := ''e''\<rparr>"
  have obs: "reconcile_observed ?out starting_host = reconcile_observed (outside_example True) starting_host"
    by (simp add: reconcile_observed_def)
  have "js_get (byId oi_appId (os_instances (reconcile_observed ?out starting_host))) ''a'' =
      Some (observed_instance_example ''a'' True)"
    unfolding obs
    by (simp add: starting_host_observed byId_get observed_instance_example_def) (simp add: record_example_def)
  then have "planInstances (desired_example [?w]) (reconcile_observed ?out starting_host) = [InstanceReplace ?w]"
    by (simp add: planInstances_def Let_def obs starting_host_observed plan_examples planInstance_def)
  then have plan: "InstanceReplace ?w \<in> set (pl_instances (reconcile_plan ?out {} (desired_example [?w]) starting_host))"
    by (simp add: reconcile_plan_def unfencedPlan_def withoutFencedApps_def planReconcile_def)
  have refused: "fst (duringReplacements ?out p eff i) = Inl RoutesFailed"
    if "\<exists>d. InstanceReplace d \<in> set (pl_instances p)" for p eff i
    unfolding duringReplacements_def Let_def if_not_P [OF map_filter_replacing [OF that]] by simp
  have passed_on: "fst (case x of (Inl e, j) \<Rightarrow> (Inl e, j) | (Inr _, j) \<Rightarrow> (Inr (), g j)) = Inl e"
    if "fst x = Inl e" for x :: "(reconcile_error, unit) result \<times> Host" and g e
    using that by (auto split: prod.split sum.split)
  have "fst (reconcile ?out {} (desired_example [?w]) starting_host) = Inl RoutesFailed"
    unfolding reconcile_def Let_def by (intro passed_on refused exI) (rule plan)
  moreover have "st_replacing (ho_state starting_host) = []"
    by (simp add: starting_host_def putRecord_def EMPTY_def)
  ultimately show ?thesis using plan replacements_let_go by blast
qed


definition forwarded :: "Host \<Rightarrow> ForwardedInstance \<Rightarrow> InstanceRecord \<Rightarrow> AppSlot \<Rightarrow> bool" where
  "forwarded h f r slot \<longleftrightarrow>
     js_get (st_records (ho_state h)) (fi_appId f) = Some r \<and> ir_state r = Running \<and>
     \<not> js_has (st_replacing (ho_state h)) (fi_appId f) \<and>
     slot_lookup (ho_slots h) (fi_appId f) = Some slot \<and>
     f = \<lparr>fi_appId = fi_appId f, fi_hostPort = as_hostPort slot, fi_httpPort = ir_httpPort r,
          fi_extraPublicPort = (if ir_hasExtraPublicPort r = Some True
            then Some (as_extraPublicPort slot) else None),
          fi_hostIpv4 = as_hostIpv4 slot, fi_guestIpv4 = as_guestIpv4 slot\<rparr>"

lemma distinct_map_filter_key:
  assumes "distinct (map key xs)" and "\<And>x y. f x = Some y \<Longrightarrow> key' y = key x"
  shows "distinct (map key' (List.map_filter f xs))"
  using assms(1)
proof (induction xs)
  case (Cons x xs)
  have "key x \<notin> key' ` set (List.map_filter f xs)"
    using Cons.prems assms(2) by (force simp: set_map_filter)
  then show ?case
    using Cons assms(2) by (cases "f x") (simp_all add: List.map_filter_simps)
qed (simp add: List.map_filter_simps)

lemma forwardedInstances_iff:
  assumes "agent_inv (ho_state h)"
  shows "f \<in> set (forwardedInstances h) \<longleftrightarrow> (\<exists>r slot. forwarded h f r slot)"
proof -
  have keyed: "r \<in> set (records (ho_state h)) \<longleftrightarrow> js_get (st_records (ho_state h)) (ir_appId r) = Some r" for r
    using assms js_keyed_values(2) [of ir_appId "st_records (ho_state h)"]
    unfolding agent_inv_def records_def by blast
  have app: "ir_appId r = a" if "js_get (st_records (ho_state h)) a = Some r" for a r
    using agent_inv_get [OF assms that] by simp
  let ?g = "\<lambda>r. case slot_lookup (ho_slots h) (ir_appId r) of None \<Rightarrow> None
    | Some slot \<Rightarrow> Some \<lparr>fi_appId = ir_appId r, fi_hostPort = as_hostPort slot,
        fi_httpPort = ir_httpPort r, fi_extraPublicPort = (if ir_hasExtraPublicPort r = Some True
          then Some (as_extraPublicPort slot) else None),
        fi_hostIpv4 = as_hostIpv4 slot, fi_guestIpv4 = as_guestIpv4 slot\<rparr>"
  let ?rs = "filter (\<lambda>r. ir_state r = Running \<and> \<not> js_has (st_replacing (ho_state h)) (ir_appId r))
    (records (ho_state h))"
  have mem: "f \<in> set (forwardedInstances h) \<longleftrightarrow> (\<exists>r \<in> set ?rs. ?g r = Some f)"
    unfolding forwardedInstances_def set_map_filter ..
  show ?thesis
    unfolding mem
  proof
    assume "\<exists>r \<in> set ?rs. ?g r = Some f"
    then obtain r where r: "r \<in> set ?rs" and g: "?g r = Some f" by (rule bexE)
    obtain slot where slot: "slot_lookup (ho_slots h) (ir_appId r) = Some slot"
      using g by (cases "slot_lookup (ho_slots h) (ir_appId r)") simp_all
    have "forwarded h f r slot"
      using r g slot keyed [of r] unfolding forwarded_def by (simp add: eq_commute [of _ f])
    then show "\<exists>r slot. forwarded h f r slot" by (intro exI)
  next
    assume "\<exists>r slot. forwarded h f r slot"
    then obtain r slot where fw: "forwarded h f r slot" by (elim exE)
    then have "ir_appId r = fi_appId f" using app unfolding forwarded_def by blast
    with fw keyed [of r] have "r \<in> set ?rs" "?g r = Some f" unfolding forwarded_def by simp_all
    then show "\<exists>r \<in> set ?rs. ?g r = Some f" by (rule bexI [rotated])
  qed
qed

lemma forwardedInstances_distinct:
  assumes "agent_inv (ho_state h)"
  shows "distinct (map fi_appId (forwardedInstances h))"
  unfolding forwardedInstances_def
proof (rule distinct_map_filter_key)
  show "distinct (map ir_appId (filter (\<lambda>r. ir_state r = Running \<and>
      \<not> js_has (st_replacing (ho_state h)) (ir_appId r)) (records (ho_state h))))"
    using assms js_keyed_distinct distinct_map_filter unfolding agent_inv_def records_def by blast
qed (auto split: option.splits)

text \<open>
  C30. Only a tenant that has answered is forwarded, and only to its own guest: the forwards rendered
  into the ruleset are exactly those of the records that are running, are not being replaced and hold
  a slot, with the ports and addresses of that slot; and no two of them share a loopback port, a
  guest address or an app.
\<close>

theorem forwards_reach_their_own_guest:
  assumes "agent_inv (ho_state h)" and "slot_inv (ho_slots h)"
  shows "(f \<in> set (forwardedInstances h) \<longleftrightarrow> (\<exists>r slot. forwarded h f r slot)) \<and>
    distinct (map fi_appId (forwardedInstances h)) \<and>
    distinct (map fi_hostPort (forwardedInstances h)) \<and>
    distinct (map fi_guestIpv4 (forwardedInstances h))"
proof -
  have apart: "fi_hostPort x \<noteq> fi_hostPort y \<and> fi_guestIpv4 x \<noteq> fi_guestIpv4 y"
    if "x \<in> set (forwardedInstances h)" "y \<in> set (forwardedInstances h)" "fi_appId x \<noteq> fi_appId y" for x y
  proof -
    from that(1,2) obtain r s q t where x: "forwarded h x r s" and y: "forwarded h y q t"
      unfolding forwardedInstances_iff [OF assms(1)] by (elim exE)
    then have "slot_lookup (ho_slots h) (fi_appId x) = Some s"
      "slot_lookup (ho_slots h) (fi_appId y) = Some t"
      and eqs: "fi_hostPort x = as_hostPort s" "fi_guestIpv4 x = as_guestIpv4 s"
      "fi_hostPort y = as_hostPort t" "fi_guestIpv4 y = as_guestIpv4 t"
      unfolding forwarded_def by (metis ForwardedInstance.select_convs)+
    from slot_allocator.apart [OF assms(2) this(1,2) that(3)]
    show ?thesis unfolding eqs slots_clash_def by blast
  qed
  note apps = forwardedInstances_distinct [OF assms(1)]
  have "inj_on g (set (forwardedInstances h))"
    if "\<And>x y. x \<in> set (forwardedInstances h) \<Longrightarrow> y \<in> set (forwardedInstances h) \<Longrightarrow>
      fi_appId x \<noteq> fi_appId y \<Longrightarrow> g x \<noteq> g y" for g :: "ForwardedInstance \<Rightarrow> 'z"
    using apps that unfolding distinct_map inj_on_def by metis
  note inj = this
  show ?thesis
    using forwardedInstances_iff [OF assms(1)] apps inj [of fi_hostPort] inj [of fi_guestIpv4] apart
    unfolding distinct_map by blast
qed


definition serving_host :: Host where
  "serving_host =
     \<lparr>ho_state = putRecord record_example EMPTY,
      ho_slots = \<lparr>ss_assignments = [(''a'', 3)], ss_cursor = 4\<rparr>\<rparr>"

lemma serving_host_ok:
  "agent_inv (ho_state serving_host)" "slot_inv (ho_slots serving_host)"
  "js_get (st_records (ho_state serving_host)) ''a'' = Some record_example"
proof -
  show "agent_inv (ho_state serving_host)"
    unfolding serving_host_def Host.select_convs
    by (rule agent_inv_put) (simp_all add: agent_inv_def EMPTY_def record_ok_def record_example_def)
  show "slot_inv (ho_slots serving_host)"
    by (simp add: serving_host_def slot_inv_def js_valid_def slot_in_range_def slot_constants)
  show "js_get (st_records (ho_state serving_host)) ''a'' = Some record_example"
    by (simp add: serving_host_def EMPTY_def) (simp add: record_example_def)
qed

theorem forwards_reach_their_own_guest_witness:
  "\<lparr>fi_appId = ''a'', fi_hostPort = 21003, fi_httpPort = 8080, fi_extraPublicPort = None,
     fi_hostIpv4 = as_hostIpv4 (describeSlot 3 ''a''),
     fi_guestIpv4 = as_guestIpv4 (describeSlot 3 ''a'')\<rparr> \<in> set (forwardedInstances serving_host)"
  (is "?f \<in> _")
proof -
  have "forwarded serving_host ?f record_example (describeSlot 3 ''a'')"
    unfolding forwarded_def using serving_host_ok(3)
    by (simp add: serving_host_def slot_lookup_def withSlot_def EMPTY_def putRecord_def
        describeSlot_def Let_def slot_constants) (simp add: record_example_def)
  then show ?thesis
    using iffD2 [OF conjunct1 [OF forwards_reach_their_own_guest [OF serving_host_ok(1,2), of ?f]]]
    by blast
qed

section \<open>What a reconcile brings up\<close>

definition same_record :: "AppId \<Rightarrow> host_view \<Rightarrow> host_view \<Rightarrow> bool" where
  "same_record a u v \<longleftrightarrow>
     js_get (fst (fst v)) a = js_get (fst (fst u)) a \<and> (a \<in> snd (fst v) \<longleftrightarrow> a \<in> snd (fst u))"

interpretation recd: view_relation records_inv "same_record a" for a
  by unfold_locales (auto simp: same_record_def)

lemma recd_of_app: "app.keeps a f \<Longrightarrow> recd.keeps a f"
  unfolding app.keeps_def recd.keeps_def
  unfolding same_app_def same_record_def by blast

lemma recd_at:
  assumes "recd.keeps a f" "agent_inv (ho_state h)"
  shows "agent_inv (ho_state (snd (f h))) \<and>
    js_get (st_records (ho_state (snd (f h)))) a = js_get (st_records (ho_state h)) a \<and>
    (a \<in> st_starting (ho_state (snd (f h))) \<longleftrightarrow> a \<in> st_starting (ho_state h))"
  using recd.keepsD [OF assms(1), of h] assms(2)
  by (simp add: records_inv_view) (simp add: same_record_def view_def)

lemma act_then_Inr:
  "fst (act_then f g h) = Inr () \<Longrightarrow>
     fst (f h) = Inr () \<and> fst (g (snd (f h))) = Inr () \<and> snd (act_then f g h) = snd (g (snd (f h)))"
  by (simp add: act_then_def split: prod.splits sum.splits)

lemma act_each_append: "act_each f (xs @ ys) = act_then (act_each f xs) (act_each f ys)"
  by (induction xs) (auto simp: act_then_def fun_eq_iff split: prod.split sum.split)

lemma during_Inr:
  assumes "fst (duringReplacements out plan eff h) = Inr ()"
  shows "\<exists>j. view j = view h \<and> fst (eff j) = Inr () \<and>
    view (snd (duringReplacements out plan eff h)) = view (snd (eff j))"
proof (cases "\<exists>d. InstanceReplace d \<in> set (pl_instances plan)")
  case True
  let ?j = "h\<lparr>ho_state := applyNetwork (out_rulesetTaken out 0) ((ho_state h)\<lparr>st_replacing :=
    js_filter_keys (\<lambda>a. a \<in> set (List.map_filter (\<lambda>action.
      case action of InstanceReplace d \<Rightarrow> Some (di_appId d) | _ \<Rightarrow> None) (pl_instances plan)))
    (st_records (ho_state h))\<rparr>)\<rparr>"
  show ?thesis
    using assms unfolding duringReplacements_def Let_def if_not_P [OF map_filter_replacing [OF True]]
    by (intro exI [of _ ?j])
      (simp add: view_def applyNetwork_def split: prod.splits sum.splits if_splits)
next
  case False
  then show ?thesis using assms by (intro exI [of _ h]) (simp add: during_not_replacing)
qed

lemma start_fresh:
  assumes "agent_inv (ho_state h)" "js_get (st_records (ho_state h)) (di_appId w) = None"
    "di_appId w \<notin> st_starting (ho_state h)" "fst (startInstance env w now Booted done h) = Inr ()"
  shows "\<exists>slot. js_get (st_records (ho_state (snd (startInstance env w now Booted done h)))) (di_appId w) =
    Some (startedRecord (attemptedRecord w slot None now) None done)"
proof -
  let ?i = "h\<lparr>ho_state := (ho_state h)\<lparr>st_starting := insert (di_appId w) (st_starting (ho_state h))\<rparr>\<rparr>"
  obtain res t where al: "allocateOn env (di_appId w) ?i = (res, t)" by (metis prod.exhaust)
  have start: "startInstance env w now Booted done h =
      (let (res, j) = attemptStartInstance env w now Booted done ?i
       in (res, j\<lparr>ho_state := releaseStart (di_appId w) (ho_state j)\<rparr>))"
    using assms(3) by (simp add: startInstance_def withStartClaim_def claimStart_def)
  have "isStartable None now" by (simp add: isStartable_def)
  then obtain slot where res: "res = Inr slot"
    using assms(2,4) al
    by (cases res) (auto simp: start attemptStartInstance_def attemptStart_begin_def Let_def)
  have app: "ir_appId (attemptedRecord w slot None now) = di_appId w"
    by (simp add: attemptedRecord_def freshRecord_def newInstanceRecord_def)
  show ?thesis
    using assms(2) al res app
    by (intro exI [of _ slot])
      (simp add: start attemptStartInstance_def attemptStart_begin_def Let_def isStartable_def
        attemptStart_end_def releaseStart_def)
qed


lemma planned_once:
  assumes "w \<in> set (hd_instances desired)" and "distinct (map di_appId (hd_instances desired))"
    and "di_appId w \<notin> blocked" and "di_desiredState w \<noteq> DesiredStopped"
    and "js_get (st_records (ho_state h)) (di_appId w) = None" and "di_appId w \<notin> set (out_unitIds out)"
    and "agent_inv (ho_state h)"
  shows "\<exists>ps qs. pl_instances (reconcile_plan out blocked desired h) = ps @ InstanceStart w # qs \<and>
    (\<forall>p \<in> set ps \<union> set qs. instancePlan_app p \<noteq> di_appId w)"
proof -
  let ?o = "reconcile_observed out h"
  let ?f = "\<lambda>wanted. planInstance wanted (js_get (byId oi_appId (os_instances ?o)) (di_appId wanted))"
  let ?ok = "\<lambda>p. instancePlan_app p \<notin> blocked"
  have app: "ir_appId r = a" if "js_get (st_records (ho_state h)) a = Some r" for a r
    using agent_inv_get [OF assms(7) that] by simp
  have unseen: "oi_appId i \<noteq> di_appId w" if "i \<in> set (os_instances ?o)" for i
  proof -
    let ?key = "\<lambda>a. case js_get (st_records (ho_state h)) a of None \<Rightarrow> a | Some x \<Rightarrow> ir_appId x"
    have "oi_appId ` set (os_instances ?o) =
        ?key ` (set (out_unitIds out) \<union> set (js_keys (st_records (ho_state h))))"
      unfolding reconcile_observed_def observeUnits_def Let_def by (simp add: image_image)
    with imageI [OF that, of oi_appId]
    have "oi_appId i \<in> ?key ` (set (out_unitIds out) \<union> set (js_keys (st_records (ho_state h))))"
      by (rule subst [rotated])
    then obtain a where "oi_appId i = ?key a"
      and a: "a \<in> set (out_unitIds out) \<union> set (js_keys (st_records (ho_state h)))"
      by (rule imageE)
    then have "oi_appId i = a" using app [of a] by (simp split: option.split)
    moreover have "a \<noteq> di_appId w"
      using a assms(5,6) by (metis Un_iff js_has_def js_has_keys)
    ultimately show ?thesis by simp
  qed
  have w: "?f w = InstanceStart w"
    using assms(4) unseen
    by (simp add: planInstance_def byId_None [THEN iffD2])
  obtain us vs where split: "hd_instances desired = us @ w # vs" using assms(1) by (meson split_list)
  define orphans where "orphans = map (\<lambda>current. if oi_running current
      then InstanceStop (oi_appId current) StopNotDesired else InstanceForget (oi_appId current))
    (filter (\<lambda>current. oi_appId current \<notin> set (map di_appId (hd_instances desired))) (os_instances ?o))"
  have all: "planInstances desired ?o = map ?f us @ InstanceStart w # (map ?f vs @ orphans)"
    unfolding planInstances_def Let_def orphans_def split by (simp add: w)
  have others: "\<forall>p \<in> set (map ?f us) \<union> set (map ?f vs @ orphans). instancePlan_app p \<noteq> di_appId w"
    using assms(2) unseen unfolding split orphans_def by auto (metis imageI)+
  have filtered: "pl_instances (reconcile_plan out blocked desired h) =
      filter ?ok (planInstances desired ?o)"
    by (simp add: reconcile_plan_def unfencedPlan_def withoutFencedApps_def planReconcile_def)
  have "pl_instances (reconcile_plan out blocked desired h) =
      filter ?ok (map ?f us) @ InstanceStart w # filter ?ok (map ?f vs @ orphans)"
    unfolding filtered all using assms(3) by simp
  moreover have "\<forall>p \<in> set (filter ?ok (map ?f us)) \<union> set (filter ?ok (map ?f vs @ orphans)).
      instancePlan_app p \<noteq> di_appId w"
    using others unfolding set_filter by blast
  ultimately show ?thesis by (intro exI conjI)
qed


lemma recd_applyStarts:
  assumes "pl_instances plan = ps @ InstanceStart w # qs"
    and "\<forall>p \<in> set ps \<union> set qs. instancePlan_app p \<noteq> di_appId w"
    and "st_isolated (ho_state h)" and "fst (applyStarts out plan h) = Inr ()"
    and "agent_inv (ho_state h)" "js_get (st_records (ho_state h)) (di_appId w) = None"
    and "di_appId w \<notin> st_starting (ho_state h)" and "out_boot out (di_appId w) = Booted"
  shows "\<exists>slot. js_get (st_records (ho_state (snd (applyStarts out plan h)))) (di_appId w) =
    Some (startedRecord (attemptedRecord w slot None (out_nowMs out)) None (out_nowMs out))"
proof -
  let ?a = "di_appId w"
  let ?start = "\<lambda>d h. on_instance (startInstance (out_env out) d (out_nowMs out)
    (out_boot out (di_appId d)) (out_nowMs out) h)"
  define xs ys where "xs = List.map_filter planned_start ps" and "ys = List.map_filter planned_start qs"
  have starts: "List.map_filter planned_start (pl_instances plan) = xs @ w # ys"
    unfolding assms(1) xs_def ys_def by (simp add: List.map_filter_def planned_start_def)
  have run: "applyStarts out plan h = act_then (act_each ?start xs) (act_then (?start w) (act_each ?start ys)) h"
    using assms(3) by (simp add: applyStarts_def starts Let_def act_each_append)
  have other: "recd.keeps ?a (act_each ?start ds)" if "\<forall>d \<in> set ds. di_appId d \<noteq> ?a" for ds
  proof (rule recd.keeps_each)
    fix d assume "d \<in> set ds"
    with that have "di_appId d \<noteq> ?a" by blast
    then show "recd.keeps ?a (?start d)"
      by (intro recd_of_app app_keeps_start)
  qed
  have apps: "\<forall>d \<in> set (List.map_filter planned_start ps'). di_appId d \<noteq> ?a"
    if "\<forall>p \<in> set ps'. instancePlan_app p \<noteq> ?a" for ps'
  proof
    fix d assume "d \<in> set (List.map_filter planned_start ps')"
    then obtain p where "p \<in> set ps'" "planned_start p = Some d" by (auto simp: set_map_filter)
    with that show "di_appId d \<noteq> ?a" by (cases p) (auto simp: planned_start_def)
  qed
  note both = act_then_Inr [OF assms(4) [unfolded run]]
  let ?h1 = "snd (act_each ?start xs h)"
  note h1 = recd_at [OF other [OF apps [of ps, folded xs_def]] assms(5)]
  note rest = act_then_Inr [OF conjunct1 [OF conjunct2 [OF both]]]
  let ?h2 = "snd (?start w ?h1)"
  have "fst (startInstance (out_env out) w (out_nowMs out) Booted (out_nowMs out) ?h1) = Inr ()"
    using rest assms(8) by (simp add: on_instance_Inr_iff)
  from start_fresh [OF _ _ _ this] h1 assms(6,7)
  obtain slot where slot: "js_get (st_records (ho_state ?h2)) ?a =
      Some (startedRecord (attemptedRecord w slot None (out_nowMs out)) None (out_nowMs out))"
    using assms(2,8) by auto
  have h2: "agent_inv (ho_state ?h2)"
    using startInstance_other [of ?h1 "CHR ''x'' # ?a" w] h1 assms(2) by simp
  have "snd (applyStarts out plan h) = snd (act_each ?start ys ?h2)"
    using both rest unfolding run by simp
  then show ?thesis
    using recd_at [OF other [OF apps [of qs, folded ys_def]] h2] slot assms(2) by auto
qed

lemma recd_before_starts:
  assumes "pl_instances plan = ps @ InstanceStart w # qs"
    and "\<forall>p \<in> set ps \<union> set qs. instancePlan_app p \<noteq> di_appId w"
  shows "recd.keeps (di_appId w) (act_pure (applyStops plan))"
    and "recd.keeps (di_appId w) (\<lambda>h. (Inr (), act_volumes
      (applyVolumes (provisionVolume out) plan observed desired blocked) h))"
    and "recd.keeps (di_appId w) (applySleeps out plan)"
    and "recd.keeps (di_appId w) (act_pure (applyNetwork b))"
proof -
  let ?a = "di_appId w"
  have cases: "p = InstanceStart w \<or> instancePlan_app p \<noteq> ?a" if "p \<in> set (pl_instances plan)" for p
    using that assms by auto
  have "recd.keeps ?a (act_pure (applyStop p))" if "p \<in> set (pl_instances plan)" for p
  proof (cases "p = InstanceStart w")
    case True
    then show ?thesis
      by (intro recd.keeps_same_view) (simp add: act_pure_def applyStop_def view_def)
  next
    case False
    with cases that have "instancePlan_app p \<noteq> ?a" by blast
    then show ?thesis
      by (intro recd_of_app app_keepsI) (simp add: act_pure_def agent_inv_applyStop applyStop_other)
  qed
  then show "recd.keeps ?a (act_pure (applyStops plan))"
    unfolding applyStops_def by (rule recd.keeps_fold)
  have "recd.keeps ?a (act_slots f)" for f
    unfolding recd.keeps_def
    unfolding same_record_def records_inv_view
    by (simp add: act_slots_def view_def)
  then show "recd.keeps ?a (\<lambda>h. (Inr (), act_volumes
      (applyVolumes (provisionVolume out) plan observed desired blocked) h))"
    by (rule recd.keeps_view) (simp add: applyVolumes_view)
  show "recd.keeps ?a (act_pure (applyNetwork b))"
    by (rule recd.keeps_same_view) (simp add: act_pure_def applyNetwork_def view_def)
  have "recd.keeps ?a (\<lambda>h. case p of InstanceSleep d \<Rightarrow> on_instance (sleepInstance (out_env out) d h)
      | _ \<Rightarrow> (Inr (), h))" if "p \<in> set (pl_instances plan)" for p
  proof (cases p)
    case (InstanceSleep d)
    have "?a \<noteq> di_appId d" using cases [OF that] InstanceSleep by auto
    then show ?thesis
      unfolding InstanceSleep InstancePlan.case by (intro recd_of_app app_keeps_sleep)
  qed (simp_all add: recd.keeps_skip)
  then show "recd.keeps ?a (applySleeps out plan)" unfolding applySleeps_def by (rule recd.keeps_each)
qed


lemma recd_sync:
  assumes "js_get (st_records s) a = None" "agent_inv s"
  shows "agent_inv (syncDesired desired s) \<and> js_get (st_records (syncDesired desired s)) a = None \<and>
    st_starting (syncDesired desired s) = st_starting s"
proof -
  have "agent_inv (fold (\<lambda>w. updateRecord (di_appId w) (syncRecord w)) ws s) \<and>
      js_get (st_records (fold (\<lambda>w. updateRecord (di_appId w) (syncRecord w)) ws s)) a = None \<and>
      st_starting (fold (\<lambda>w. updateRecord (di_appId w) (syncRecord w)) ws s) = st_starting s" for ws
    using assms
  proof (induction ws arbitrary: s)
    case (Cons w ws)
    have "js_get (st_records (updateRecord (di_appId w) (syncRecord w) s)) a = None"
      using Cons.prems(1) by (cases "di_appId w = a") simp_all
    then show ?case
      using Cons.IH [of "updateRecord (di_appId w) (syncRecord w) s"] agent_inv_sync [OF Cons.prems(2)]
      by simp
  qed simp
  then show ?thesis unfolding syncDesired_def by blast
qed

lemma recd_stages:
  assumes plan: "pl_instances plan = ps @ InstanceStart w # qs"
    "\<forall>p \<in> set ps \<union> set qs. instancePlan_app p \<noteq> di_appId w"
    and j: "agent_inv (ho_state j)" "js_get (st_records (ho_state j)) (di_appId w) = None"
      "di_appId w \<notin> st_starting (ho_state j)"
    and ok: "fst (reconcile_stages out plan observed desired blocked j) = Inr ()"
    and out: "out_rulesetTaken out 1" "out_boot out (di_appId w) = Booted"
  shows "\<exists>slot. js_get (st_records (ho_state
      (snd (reconcile_stages out plan observed desired blocked j)))) (di_appId w) =
    Some (startedRecord (attemptedRecord w slot None (out_nowMs out)) None (out_nowMs out))"
proof -
  let ?stops = "act_pure (applyStops plan)"
  let ?volumes = "(\<lambda>h. (Inr (), act_volumes
      (applyVolumes (provisionVolume out) plan observed desired blocked) h)) :: act"
  let ?sleeps = "applySleeps out plan" and ?net = "act_pure (applyNetwork (out_rulesetTaken out 1))"
  let ?h1 = "snd (?stops j)" and ?h2 = "snd (?volumes (snd (?stops j)))"
  let ?h3 = "snd (?sleeps ?h2)"
  let ?h4 = "snd (?net ?h3)"
  note keeps = recd_before_starts [OF plan]
  note s1 = act_then_Inr [OF ok [unfolded reconcile_stages_def]]
  note s2 = act_then_Inr [OF conjunct1 [OF conjunct2 [OF s1]]]
  note s3 = act_then_Inr [OF conjunct1 [OF conjunct2 [OF s2]]]
  note s4 = act_then_Inr [OF conjunct1 [OF conjunct2 [OF s3]]]
  note h1 = recd_at [OF keeps(1) j(1)]
  note h2 = recd_at [OF keeps(2) conjunct1 [OF h1], of out observed desired blocked]
  note h3 = recd_at [OF keeps(3) conjunct1 [OF h2], of out]
  note h4 = recd_at [OF keeps(4) conjunct1 [OF h3], of "out_rulesetTaken out 1"]
  have last: "snd (reconcile_stages out plan observed desired blocked j) = snd (applyStarts out plan ?h4)"
    using s1 s2 s3 s4 unfolding reconcile_stages_def by metis
  have isolated: "st_isolated (ho_state ?h4)"
    using out(1) by (simp add: act_pure_def applyNetwork_def)
  have started: "fst (applyStarts out plan ?h4) = Inr ()" using s4 by blast
  show ?thesis
    unfolding last
    by (rule recd_applyStarts [OF plan isolated started conjunct1 [OF h4]])
      (use h1 h2 h3 h4 j out(2) in metis)+
qed

text \<open>
  C29. What is wanted comes up: a reconcile that succeeds on a host whose ruleset was taken, for an app
  that desired state wants running or on request, that is not being migrated and of which neither
  systemd nor the agent knows anything, leaves it booted: its record is the fresh one of that
  deployment, starting, with nothing charged to its restart count or its recovery budget.
\<close>

theorem wanted_app_is_started:
  assumes "agent_inv (ho_state h)" and "fst (reconcile out blocked desired h) = Inr ()"
    and "out_rulesetTaken out 1" and "out_boot out (di_appId w) = Booted"
    and "w \<in> set (hd_instances desired)" and "distinct (map di_appId (hd_instances desired))"
    and "di_desiredState w \<noteq> DesiredStopped" and "di_appId w \<notin> blocked"
    and "js_get (st_records (ho_state h)) (di_appId w) = None"
    and "di_appId w \<notin> set (out_unitIds out)" and "di_appId w \<notin> st_starting (ho_state h)"
  shows "\<exists>r. js_get (st_records (ho_state (snd (reconcile out blocked desired h)))) (di_appId w) = Some r \<and>
    ir_state r = Starting \<and> ir_deploymentId r = di_deploymentId w \<and>
    ir_startedAt r = Some (out_nowMs out) \<and> ir_restartCount r = 0 \<and> ir_recovery r = None \<and>
    \<not> ir_stopRequested r"
proof -
  let ?plan = "reconcile_plan out blocked desired h"
  let ?stages = "reconcile_stages out ?plan (reconcile_observed out h) desired blocked"
  obtain ps qs where plan: "pl_instances ?plan = ps @ InstanceStart w # qs"
      "\<forall>p \<in> set ps \<union> set qs. instancePlan_app p \<noteq> di_appId w"
    using planned_once [OF assms(5,6,8,7,9,10,1)] by blast
  define s where "s = (ho_state h)\<lparr>st_deferredWork := (blocked \<noteq> {} \<or> hasDeferredWork ?plan \<or>
    list_ex (\<lambda>r. queued_retry r \<noteq> None) (records (ho_state h)))\<rparr>"
  define i where "i = h\<lparr>ho_state := syncDesired (if blocked = {} then desired
    else desired\<lparr>hd_instances := filter (\<lambda>w. di_appId w \<notin> blocked) (hd_instances desired)\<rparr>) s\<rparr>"
  have "agent_inv s" "js_get (st_records s) (di_appId w) = None" "di_appId w \<notin> st_starting s"
    using assms(1,9,11) by (simp_all add: s_def agent_inv_def)
  then have i: "agent_inv (ho_state i)" "js_get (st_records (ho_state i)) (di_appId w) = None"
      "di_appId w \<notin> st_starting (ho_state i)"
    using recd_sync unfolding i_def by simp_all
  have run: "reconcile out blocked desired h = (case duringReplacements out ?plan ?stages i of
      (Inl e, j) \<Rightarrow> (Inl e, j) | (Inr _, j) \<Rightarrow> (Inr (), reconcile_finish out ?plan desired j))"
    by (simp add: reconcile_def Let_def i_def s_def)
  then have ok: "fst (duringReplacements out ?plan ?stages i) = Inr ()"
    and final: "snd (reconcile out blocked desired h) =
      reconcile_finish out ?plan desired (snd (duringReplacements out ?plan ?stages i))"
    using assms(2) by (simp_all split: prod.splits sum.splits)
  obtain j where j: "view j = view i" "fst (?stages j) = Inr ()"
      "view (snd (duringReplacements out ?plan ?stages i)) = view (snd (?stages j))"
    using during_Inr [OF ok] by blast
  have "agent_inv (ho_state j)" "js_get (st_records (ho_state j)) (di_appId w) = None"
      "di_appId w \<notin> st_starting (ho_state j)"
    using i j(1) by (simp_all add: view_def agent_inv_def)
  from recd_stages [OF plan this j(2) assms(3,4)] obtain slot where
    "js_get (st_records (ho_state (snd (?stages j)))) (di_appId w) =
      Some (startedRecord (attemptedRecord w slot None (out_nowMs out)) None (out_nowMs out))" by blast
  moreover have "st_records (ho_state (snd (reconcile out blocked desired h))) =
      st_records (ho_state (snd (?stages j)))"
    using boots.reconcile_finish_view [of out ?plan desired "snd (duringReplacements out ?plan ?stages i)"]
      j(3) unfolding final by (simp add: view_def act_slots_def)
  ultimately show ?thesis
    by (simp add: startedRecord_def attemptedRecord_def freshRecord_def newInstanceRecord_def
        NO_RESTARTS_def restarted_def)
qed


lemma empty_host_reconciled:
  "fst (reconcile ((outside_example True)\<lparr>out_unitIds := []\<rparr>) {}
     (desired_example [desired_instance_example ''a'' DesiredRunning]) empty_host) = Inr ()"
proof -
  let ?out = "(outside_example True)\<lparr>out_unitIds := []\<rparr>"
  let ?w = "desired_instance_example ''a'' DesiredRunning"
  have observed: "reconcile_observed ?out empty_host = observed_example []"
    by (simp add: reconcile_observed_def observeUnits_def Let_def empty_host_def EMPTY_def
        js_dedup_def observed_example_def outside_example_def)
  have plan: "reconcile_plan ?out {} (desired_example [?w]) empty_host =
      \<lparr>pl_instances = [InstanceStart ?w], pl_volumes = [], pl_checkpoints = [], pl_exports = []\<rparr>"
    by (simp add: reconcile_plan_def observed unfencedPlan_def withoutFencedApps_def planReconcile_def
        planInstances_def planVolumes_def planCheckpoints_def planExports_def plan_examples Let_def
        byId_def js_new_map_def js_set_all_def planInstance_def)
  show ?thesis
    unfolding reconcile_def Let_def plan
    by (simp add: duringReplacements_def reconcile_stages_def Let_def act_then_def act_pure_def
        applyStops_def applyStop_def act_volumes_def applyVolumes_def forgetDeletedVolumes_def
        applySleeps_def applyNetwork_def applyStarts_def planned_start_def List.map_filter_def
        syncDesired_def desired_example_def empty_host_def EMPTY_def outside_example_def
        startInstance_def withStartClaim_def claimStart_def attemptStartInstance_def
        attemptStart_begin_def isStartable_def allocateOn_def allocateFor_def usesOwnStorage_def
        allocate_empty_example updateRecord_def on_instance_def)
qed

theorem wanted_app_is_started_witness:
  "\<exists>r. js_get (st_records (ho_state (snd (reconcile ((outside_example True)\<lparr>out_unitIds := []\<rparr>) {}
     (desired_example [desired_instance_example ''a'' DesiredRunning]) empty_host)))) ''a'' = Some r \<and>
   ir_state r = Starting \<and> ir_deploymentId r = ''d''"
proof -
  let ?w = "desired_instance_example ''a'' DesiredRunning"
  have a: "di_appId ?w = ''a''" "di_deploymentId ?w = ''d''"
    by (simp_all add: desired_instance_example_def)
  let ?out = "(outside_example True)\<lparr>out_unitIds := []\<rparr>"
  have inv: "agent_inv (ho_state empty_host)" by (simp add: empty_host_def agent_inv_def EMPTY_def)
  have "\<exists>r. js_get (st_records (ho_state (snd (reconcile ?out {} (desired_example [?w]) empty_host))))
      (di_appId ?w) = Some r \<and> ir_state r = Starting \<and> ir_deploymentId r = di_deploymentId ?w \<and>
      ir_startedAt r = Some (out_nowMs ?out) \<and> ir_restartCount r = 0 \<and> ir_recovery r = None \<and>
      \<not> ir_stopRequested r"
    by (rule wanted_app_is_started [OF inv empty_host_reconciled])
      (simp_all add: outside_example_def desired_example_def empty_host_def EMPTY_def
        desired_instance_example_def)
  then show ?thesis unfolding a by blast
qed

end
