(* ===== verification/Fences.thy ===== *)
theory Fences
  imports Agent_State
begin

text \<open>
  Exclusive ownership of an app while its volume moves:
  \<open>apps/agent/src/services/volume-migration-fences.service.ts\<close>.

  The service keeps one entry per app in a \<open>Ref\<close>: how many lifecycle accesses are open, whether a
  migration holds the app, and the deferred that the last access out completes. A deferred is a
  number, the completed ones are a set; a fresh one is the next number. Each operation is one
  atomic \<open>Ref.modify\<close>, together with the completions it goes on to make. \<open>access\<close> and \<open>during\<close>
  are brackets around them, so any program is an interleaving of the steps of \<open>fence_step\<close>: an
  access opens and later closes with the apps it was admitted to, a migration acquires, waits for
  its deferred if it was given one, and releases, which an interruption may make it do at any time.
\<close>

section \<open>The service\<close>

record FenceEntry =
  fe_active :: int
  fe_held :: bool
  fe_drained :: nat

record FenceStore =
  fs_entries :: "(AppId, FenceEntry) jsmap"
  fs_completed :: "nat set"
  fs_next :: nat

definition admitOne :: "AppId \<times> nat \<Rightarrow> (AppId, FenceEntry) jsmap \<times> AppId list \<Rightarrow>
    (AppId, FenceEntry) jsmap \<times> AppId list" where
  "admitOne fresh acc =
     (let (appId, drained) = fresh; (next, admitted) = acc;
          entry = (case js_get next appId of
              None \<Rightarrow> \<lparr>fe_active = 0, fe_held = False, fe_drained = drained\<rparr> | Some e \<Rightarrow> e)
      in if \<not> fe_held entry
         then (js_set appId (entry\<lparr>fe_active := fe_active entry + 1\<rparr>) next, admitted @ [appId])
         else (next, admitted))"

definition admit :: "AppId list \<Rightarrow> FenceStore \<Rightarrow> (AppId list \<times> AppId set) \<times> FenceStore" where
  "admit appIds s =
     (let ids = js_dedup appIds;
          fresh = zip ids [fs_next s ..< fs_next s + length ids];
          blocked = set (map fst (filter (\<lambda>(_, entry). fe_held entry) (fs_entries s)));
          (next, admitted) = fold admitOne fresh (fs_entries s, [])
      in ((admitted, blocked),
          s\<lparr>fs_entries := next, fs_next := fs_next s + length ids\<rparr>))"

definition finishEntry :: "(AppId, FenceEntry) jsmap \<Rightarrow> AppId \<Rightarrow>
    (AppId, FenceEntry) jsmap \<times> nat option" where
  "finishEntry next appId =
     (case js_get next appId of
        None \<Rightarrow> (next, None)
      | Some entry \<Rightarrow>
          if fe_active entry > 1
          then (js_set appId (entry\<lparr>fe_active := fe_active entry - 1\<rparr>) next, None)
          else if fe_held entry
          then (js_set appId (entry\<lparr>fe_active := 0\<rparr>) next, Some (fe_drained entry))
          else (js_delete appId next, Some (fe_drained entry)))"

definition finish :: "AppId list \<Rightarrow> FenceStore \<Rightarrow> FenceStore" where
  "finish appIds s =
     fold (\<lambda>appId s.
       let (next, signal) = finishEntry (fs_entries s) appId
       in s\<lparr>fs_entries := next,
            fs_completed := (case signal of None \<Rightarrow> fs_completed s
              | Some d \<Rightarrow> insert d (fs_completed s))\<rparr>) appIds s"

datatype fence_error = VolumeMigrationFenceBusy | VolumeMigrationFenceRequired

definition fence_acquire :: "AppId \<Rightarrow> FenceStore \<Rightarrow>
    (fence_error, nat option) result \<times> FenceStore" where
  "fence_acquire appId s =
     (let entry = (case js_get (fs_entries s) appId of
            None \<Rightarrow> \<lparr>fe_active = 0, fe_held = False, fe_drained = fs_next s\<rparr> | Some e \<Rightarrow> e);
          s = s\<lparr>fs_next := fs_next s + 1\<rparr>
      in if fe_held entry then (Inl VolumeMigrationFenceBusy, s)
         else (Inr (if fe_active entry > 0 then Some (fe_drained entry) else None),
               s\<lparr>fs_entries := js_set appId (entry\<lparr>fe_held := True\<rparr>) (fs_entries s)\<rparr>))"

definition fence_release :: "AppId \<Rightarrow> FenceStore \<Rightarrow> FenceStore" where
  "fence_release appId s =
     (case js_get (fs_entries s) appId of
        None \<Rightarrow> s
      | Some entry \<Rightarrow>
          if fe_active entry = 0 then s\<lparr>fs_entries := js_delete appId (fs_entries s)\<rparr>
          else s\<lparr>fs_entries := js_set appId (entry\<lparr>fe_held := False\<rparr>) (fs_entries s)\<rparr>)"

text \<open>What \<open>release\<close> also does to the agent's state: the pass a fenced app missed is asked for.\<close>

definition release_agent_state :: "AgentSnapshot \<Rightarrow> AgentSnapshot" where
  "release_agent_state s = s\<lparr>st_deferredWork := True\<rparr>"

definition requireHeld :: "AppId \<Rightarrow> FenceStore \<Rightarrow> (fence_error, unit) result" where
  "requireHeld appId s =
     (case js_get (fs_entries s) appId of
        Some entry \<Rightarrow>
          if fe_held entry \<and> fe_active entry = 0 then Inr () else Inl VolumeMigrationFenceRequired
      | None \<Rightarrow> Inl VolumeMigrationFenceRequired)"

section \<open>Programs over it\<close>

text \<open>\<open>sys_open\<close>: the apps each open access was admitted to. \<open>sys_holders\<close>: for each app a migration
  holds, the deferred it was told to wait for.\<close>

record fence_system =
  sys_store :: FenceStore
  sys_open :: "AppId list list"
  sys_holders :: "AppId \<Rightarrow> nat option option"

definition fence_start :: fence_system where
  "fence_start =
     \<lparr>sys_store = \<lparr>fs_entries = [], fs_completed = {}, fs_next = 0\<rparr>,
      sys_open = [], sys_holders = (\<lambda>_. None)\<rparr>"

inductive fence_step :: "fence_system \<Rightarrow> fence_system \<Rightarrow> bool" where
  open_access: "admit appIds (sys_store y) = ((admitted, blocked), st) \<Longrightarrow>
    fence_step y (y\<lparr>sys_store := st, sys_open := admitted # sys_open y\<rparr>)"
| close_access: "admitted \<in> set (sys_open y) \<Longrightarrow>
    fence_step y (y\<lparr>sys_store := finish admitted (sys_store y),
                    sys_open := remove1 admitted (sys_open y)\<rparr>)"
| take_fence: "fence_acquire a (sys_store y) = (Inr w, st) \<Longrightarrow>
    fence_step y (y\<lparr>sys_store := st, sys_holders := (sys_holders y)(a := Some w)\<rparr>)"
| fence_busy: "fence_acquire a (sys_store y) = (Inl e, st) \<Longrightarrow>
    fence_step y (y\<lparr>sys_store := st\<rparr>)"
| drop_fence: "sys_holders y a \<noteq> None \<Longrightarrow>
    fence_step y (y\<lparr>sys_store := fence_release a (sys_store y),
                    sys_holders := (sys_holders y)(a := None)\<rparr>)"

inductive fence_reachable :: "fence_system \<Rightarrow> bool" where
  start: "fence_reachable fence_start"
| step: "fence_reachable y \<Longrightarrow> fence_step y z \<Longrightarrow> fence_reachable z"

section \<open>One app's view of the service\<close>

definition fence_entry :: "FenceStore \<Rightarrow> AppId \<Rightarrow> FenceEntry option" where
  "fence_entry s a = js_get (fs_entries s) a"

definition active_of :: "FenceEntry option \<Rightarrow> int" where
  "active_of e = (case e of None \<Rightarrow> 0 | Some x \<Rightarrow> fe_active x)"

definition held_of :: "FenceEntry option \<Rightarrow> bool" where
  "held_of e = (case e of None \<Rightarrow> False | Some x \<Rightarrow> fe_held x)"

lemma view_simps [simp]:
  "active_of None = 0" "active_of (Some e) = fe_active e"
  "\<not> held_of None" "held_of (Some e) = fe_held e"
  by (simp_all add: active_of_def held_of_def)

definition admitted_entry :: "nat \<Rightarrow> FenceEntry option \<Rightarrow> FenceEntry" where
  "admitted_entry d e =
     (case e of None \<Rightarrow> \<lparr>fe_active = 1, fe_held = False, fe_drained = d\<rparr>
      | Some x \<Rightarrow> x\<lparr>fe_active := fe_active x + 1\<rparr>)"

lemma admitOne_eq:
  "admitOne (a, d) (nxt, adm) =
     (if held_of (js_get nxt a) then (nxt, adm)
      else (js_set a (admitted_entry d (js_get nxt a)) nxt, adm @ [a]))"
  by (simp add: admitOne_def Let_def held_of_def admitted_entry_def split: option.split)

lemma admit_fold:
  assumes "distinct (map fst fresh)"
  shows "snd (fold admitOne fresh (nxt, adm)) =
      adm @ filter (\<lambda>a. \<not> held_of (js_get nxt a)) (map fst fresh)"
    and "js_get (fst (fold admitOne fresh (nxt, adm))) a =
      (case map_of fresh a of
         None \<Rightarrow> js_get nxt a
       | Some d \<Rightarrow> if held_of (js_get nxt a) then js_get nxt a
                   else Some (admitted_entry d (js_get nxt a)))"
  using assms
proof (induction fresh arbitrary: nxt adm)
  case Nil
  { case 1 show ?case by simp }
  { case 2 show ?case by simp }
next
  case (Cons p fresh)
  obtain b d where p: "p = (b, d)" by (cases p) blast
  have b: "b \<notin> set (map fst fresh)" "map_of fresh b = None" if "distinct (map fst (p # fresh))"
    using that p by (simp_all add: map_of_eq_None_iff)
  { case 1
    then have "filter (\<lambda>a. \<not> held_of (js_get (js_set b x nxt) a)) (map fst fresh) =
        filter (\<lambda>a. \<not> held_of (js_get nxt a)) (map fst fresh)" for x
      using b by (intro filter_cong) auto
    then show ?case using 1 Cons.IH(1) p by (simp add: admitOne_eq del: js_get_set) }
  { case 2
    then show ?case
      using b Cons.IH(2) p by (cases "a = b") (simp_all add: admitOne_eq split: option.split) }
qed

definition drained_of :: "FenceEntry option \<Rightarrow> nat option" where
  "drained_of e = map_option fe_drained e"

lemma drained_of_simps [simp]: "drained_of None = None" "drained_of (Some e) = Some (fe_drained e)"
  by (simp_all add: drained_of_def)

lemma admitted_entry_simps [simp]:
  "fe_active (admitted_entry d e) = active_of e + 1"
  "fe_held (admitted_entry d e) = held_of e"
  "fe_drained (admitted_entry d e) = (case drained_of e of None \<Rightarrow> d | Some x \<Rightarrow> x)"
  by (simp_all add: admitted_entry_def split: option.split)

lemma admit_ids:
  fixes ids :: "AppId list" and n :: nat
  assumes "distinct ids"
  defines "fresh \<equiv> zip ids [n ..< n + length ids]"
  shows "map fst fresh = ids"
    and "map_of fresh a = Some d \<Longrightarrow> n \<le> d \<and> d < n + length ids \<and> a \<in> set ids"
    and "a \<in> set ids \<Longrightarrow> \<exists>d. map_of fresh a = Some d"
    and "map_of fresh a = Some d \<Longrightarrow> map_of fresh b = Some d \<Longrightarrow> a = b"
proof -
  show fst: "map fst fresh = ids" by (simp add: fresh_def)
  show "map_of fresh a = Some d \<Longrightarrow> n \<le> d \<and> d < n + length ids \<and> a \<in> set ids"
    unfolding fresh_def by (auto dest!: map_of_SomeD dest: set_zip_leftD set_zip_rightD)
  show "a \<in> set ids \<Longrightarrow> \<exists>d. map_of fresh a = Some d"
    using fst by (metis map_of_eq_None_iff not_None_eq set_map)
  assume "map_of fresh a = Some d" "map_of fresh b = Some d"
  then have "(a, d) \<in> set fresh" "(b, d) \<in> set fresh" by (auto dest: map_of_SomeD)
  then show "a = b" unfolding fresh_def in_set_zip by (auto simp: nth_eq_iff_index_eq)
qed

text \<open>What opening an access does, app by app: \<open>f a\<close> is the number of the deferred made for it.\<close>

lemma admit_view:
  assumes "admit appIds s = ((admitted, blocked), t)"
  obtains f where
    "admitted = filter (\<lambda>a. \<not> held_of (fence_entry s a)) (js_dedup appIds)"
    "\<And>a. fence_entry t a = (if a \<in> set admitted
       then Some (admitted_entry (f a) (fence_entry s a)) else fence_entry s a)"
    "fs_completed t = fs_completed s" "fs_next s \<le> fs_next t"
    "\<And>a. a \<in> set admitted \<Longrightarrow> fs_next s \<le> f a \<and> f a < fs_next t"
    "inj_on f (set admitted)"
proof -
  define ids where "ids = js_dedup appIds"
  define fresh where "fresh = zip ids [fs_next s ..< fs_next s + length ids]"
  have ids: "distinct ids" by (simp add: ids_def)
  have "distinct (map fst fresh)" using admit_ids(1) [OF ids] ids by (simp add: fresh_def)
  note folds = admit_fold [OF this, where nxt = "fs_entries s" and adm = "[]"]
  have adm: "admitted = filter (\<lambda>a. \<not> held_of (fence_entry s a)) ids"
    and t: "t = s\<lparr>fs_entries := fst (fold admitOne fresh (fs_entries s, [])),
      fs_next := fs_next s + length ids\<rparr>"
    using assms folds(1) admit_ids(1) [OF ids, of "fs_next s"]
    by (auto simp: admit_def Let_def ids_def [symmetric] fresh_def [symmetric] fence_entry_def
        split: prod.splits)
  define f where "f = (\<lambda>a. the (map_of fresh a))"
  have f: "map_of fresh a = Some (f a)" if "a \<in> set ids" for a
    using admit_ids(3) [OF ids that, of "fs_next s"] by (auto simp: f_def fresh_def)
  have none: "map_of fresh a = None" if "a \<notin> set ids" for a
    using admit_ids(2) [OF ids, of "fs_next s" a] that by (cases "map_of fresh a") (auto simp: fresh_def)
  show thesis
  proof (rule that [of f])
    show "admitted = filter (\<lambda>a. \<not> held_of (fence_entry s a)) (js_dedup appIds)"
      by (simp add: adm ids_def)
    show "fence_entry t a = (if a \<in> set admitted
        then Some (admitted_entry (f a) (fence_entry s a)) else fence_entry s a)" for a
      using folds(2) [of a] f [of a] none [of a]
      by (cases "a \<in> set ids") (simp_all add: t adm fence_entry_def)
    show "fs_next s \<le> f a \<and> f a < fs_next t" if "a \<in> set admitted" for a
      using that admit_ids(2) [OF ids, of "fs_next s" a "f a"] f [of a]
      by (simp add: t adm fresh_def)
    show "inj_on f (set admitted)"
      using admit_ids(4) [OF ids, of "fs_next s"] f
      by (auto simp: inj_on_def adm fresh_def)
  qed (simp_all add: t)
qed

definition finished_entry :: "FenceEntry option \<Rightarrow> FenceEntry option" where
  "finished_entry e =
     (case e of None \<Rightarrow> None
      | Some x \<Rightarrow>
          if fe_active x > 1 then Some (x\<lparr>fe_active := fe_active x - 1\<rparr>)
          else if fe_held x then Some (x\<lparr>fe_active := 0\<rparr>) else None)"

definition finish_signal :: "FenceEntry option \<Rightarrow> nat set" where
  "finish_signal e =
     (case e of None \<Rightarrow> {} | Some x \<Rightarrow> if fe_active x > 1 then {} else {fe_drained x})"

lemma finish_Cons:
  "finish [] s = s"
  "finish (a # as) s = finish as (finish [a] s)"
  by (simp_all add: finish_def)

lemma finish_one:
  "fence_entry (finish [a] s) b =
     (if b = a then finished_entry (fence_entry s a) else fence_entry s b)"
  "fs_completed (finish [a] s) = fs_completed s \<union> finish_signal (fence_entry s a)"
  "fs_next (finish [a] s) = fs_next s"
  unfolding finish_def
  by (simp_all add: finishEntry_def Let_def fence_entry_def finished_entry_def finish_signal_def
      split: option.split)

lemma finish_view:
  assumes "distinct as"
  shows "fence_entry (finish as s) a =
      (if a \<in> set as then finished_entry (fence_entry s a) else fence_entry s a)"
    and "fs_completed (finish as s) =
      fs_completed s \<union> (\<Union>a \<in> set as. finish_signal (fence_entry s a))"
    and "fs_next (finish as s) = fs_next s"
  using assms
proof (induction as arbitrary: s)
  case Nil
  { case 1 show ?case by (simp add: finish_Cons(1)) }
  { case 2 show ?case by (simp add: finish_Cons(1)) }
  { case 3 show ?case by (simp add: finish_Cons(1)) }
next
  case (Cons b as)
  { case 1 then show ?case
      using Cons.IH(1) [of "finish [b] s"]
      by (cases "a = b") (simp_all add: finish_one finish_Cons(2) [of b as]) }
  { case 2
    then have "(\<Union>a \<in> set as. finish_signal (fence_entry (finish [b] s) a)) =
        (\<Union>a \<in> set as. finish_signal (fence_entry s a))"
      by (intro SUP_cong) (auto simp: finish_one)
    then show ?case
      using 2 Cons.IH(2) [of "finish [b] s"]
      by (simp add: finish_one finish_Cons(2) [of b as] Un_assoc) }
  { case 3 then show ?case
      using Cons.IH(3) [of "finish [b] s"] by (simp add: finish_one finish_Cons(2) [of b as]) }
qed

lemma acquire_view:
  assumes "fence_acquire a s = (res, t)"
  shows "if held_of (fence_entry s a) then res = Inl VolumeMigrationFenceBusy \<and> fence_entry t = fence_entry s
    else res = Inr (if active_of (fence_entry s a) > 0 then drained_of (fence_entry s a) else None) \<and>
      held_of (fence_entry t a) \<and> active_of (fence_entry t a) = active_of (fence_entry s a) \<and>
      drained_of (fence_entry t a) =
        Some (case drained_of (fence_entry s a) of None \<Rightarrow> fs_next s | Some d \<Rightarrow> d) \<and>
      (\<forall>b. b \<noteq> a \<longrightarrow> fence_entry t b = fence_entry s b)"
    and "fs_completed t = fs_completed s" and "fs_next t = fs_next s + 1"
  using assms
  by (cases "js_get (fs_entries s) a";
      auto simp: fence_acquire_def Let_def fence_entry_def [abs_def] split: if_splits)+

lemma release_view:
  "fence_entry (fence_release a s) b =
     (if b = a then (if active_of (fence_entry s a) = 0 then None
        else map_option (\<lambda>e. e\<lparr>fe_held := False\<rparr>) (fence_entry s a))
      else fence_entry s b)"
  "fs_completed (fence_release a s) = fs_completed s"
  "fs_next (fence_release a s) = fs_next s"
  by (simp_all add: fence_release_def fence_entry_def split: option.split)

section \<open>The invariant\<close>

definition open_count :: "AppId list list \<Rightarrow> AppId \<Rightarrow> int" where
  "open_count accesses a = int (length (filter (\<lambda>l. a \<in> set l) accesses))"

text \<open>One app: its entry \<open>e\<close>, what its migration waits for \<open>h\<close>, the accesses \<open>k\<close> open on it, the
  completed deferreds \<open>c\<close> and the next fresh one \<open>n\<close>.\<close>

definition app_fence_ok ::
  "FenceEntry option \<Rightarrow> nat option option \<Rightarrow> int \<Rightarrow> nat set \<Rightarrow> nat \<Rightarrow> bool" where
  "app_fence_ok e h k c n \<longleftrightarrow>
     active_of e = k \<and> (held_of e \<longleftrightarrow> h \<noteq> None) \<and>
     (e \<noteq> None \<longrightarrow> k > 0 \<or> held_of e) \<and>
     (\<forall>d. drained_of e = Some d \<longrightarrow> d < n \<and> (k > 0 \<longrightarrow> d \<notin> c)) \<and>
     (h = Some None \<longrightarrow> k = 0) \<and>
     (\<forall>d. h = Some (Some d) \<longrightarrow> (if k > 0 then drained_of e = Some d else d \<in> c))"

definition fences_ok ::
  "FenceStore \<Rightarrow> AppId list list \<Rightarrow> (AppId \<Rightarrow> nat option option) \<Rightarrow> bool" where
  "fences_ok s accesses holders \<longleftrightarrow>
     (\<forall>a. app_fence_ok (fence_entry s a) (holders a) (open_count accesses a)
        (fs_completed s) (fs_next s)) \<and>
     (\<forall>a b d. open_count accesses a > 0 \<and> open_count accesses b > 0 \<and>
        drained_of (fence_entry s a) = Some d \<and> drained_of (fence_entry s b) = Some d \<longrightarrow> a = b) \<and>
     fs_completed s \<subseteq> {..<fs_next s} \<and> (\<forall>l \<in> set accesses. distinct l)"

definition fence_inv :: "fence_system \<Rightarrow> bool" where
  "fence_inv y \<longleftrightarrow> fences_ok (sys_store y) (sys_open y) (sys_holders y)"

lemma open_count_nonneg [simp]: "0 \<le> open_count accesses a"
  by (simp add: open_count_def)

lemma open_count_pos: "0 < open_count accesses a \<longleftrightarrow> open_count accesses a \<noteq> 0"
  by (simp add: open_count_def)

lemma open_count_Cons:
  "open_count (l # accesses) a = open_count accesses a + (if a \<in> set l then 1 else 0)"
  by (simp add: open_count_def)

lemma open_count_remove1:
  "l \<in> set accesses \<Longrightarrow>
     open_count (remove1 l accesses) a = open_count accesses a - (if a \<in> set l then 1 else 0)"
  by (induction accesses) (auto simp: open_count_Cons)

lemma app_fence_ok_mono: "app_fence_ok e h k c n \<Longrightarrow> n \<le> m \<Longrightarrow> app_fence_ok e h k c m"
  by (auto simp: app_fence_ok_def)

lemma app_fence_ok_admit:
  assumes "app_fence_ok e h k c n" "\<not> held_of e" "n \<le> d" "d < m" "c \<subseteq> {..<n}" "0 \<le> k"
  shows "app_fence_ok (Some (admitted_entry d e)) h (k + 1) c m"
  using assms by (cases e) (auto simp: app_fence_ok_def)

lemma app_fence_ok_finish:
  assumes "app_fence_ok e h k c n" "0 < k" and "finish_signal e \<subseteq> c'" and "c \<subseteq> c'"
    and "k > 1 \<Longrightarrow> \<forall>d. drained_of e = Some d \<longrightarrow> d \<notin> c'"
  shows "app_fence_ok (finished_entry e) h (k - 1) c' n"
  using assms
  by (cases e) (auto simp: app_fence_ok_def finished_entry_def finish_signal_def split: if_splits)

lemma app_fence_ok_more:
  assumes "app_fence_ok e h k c n" and "c \<subseteq> c'"
    and "k > 0 \<Longrightarrow> \<forall>d. drained_of e = Some d \<longrightarrow> d \<notin> c'"
  shows "app_fence_ok e h k c' n"
  using assms by (auto simp: app_fence_ok_def split: if_splits)

lemma finish_signal_drained: "d \<in> finish_signal e \<Longrightarrow> drained_of e = Some d \<and> active_of e \<le> 1"
  by (auto simp: finish_signal_def split: option.splits if_splits)

lemma drained_of_finished: "drained_of (finished_entry e) = Some d \<Longrightarrow> drained_of e = Some d"
  by (cases e) (auto simp: finished_entry_def split: if_splits)

lemma fence_inv_start: "fence_inv fence_start"
  by (simp add: fence_inv_def fences_ok_def fence_start_def app_fence_ok_def fence_entry_def
      open_count_def)

lemma fences_okI:
  assumes "\<And>a. app_fence_ok (fence_entry s a) (holders a)
      (open_count accesses a) (fs_completed s) (fs_next s)"
    and "\<And>a b d. open_count accesses a > 0 \<Longrightarrow> open_count accesses b > 0 \<Longrightarrow>
      drained_of (fence_entry s a) = Some d \<Longrightarrow>
      drained_of (fence_entry s b) = Some d \<Longrightarrow> a = b"
    and "fs_completed s \<subseteq> {..<fs_next s}"
    and "\<And>l. l \<in> set accesses \<Longrightarrow> distinct l"
  shows "fences_ok s accesses holders"
  using assms unfolding fences_ok_def by blast

lemma fences_okD:
  assumes "fences_ok s accesses holders"
  shows "app_fence_ok (fence_entry s a) (holders a)
      (open_count accesses a) (fs_completed s) (fs_next s)"
    and "open_count accesses a > 0 \<Longrightarrow> open_count accesses b > 0 \<Longrightarrow>
      drained_of (fence_entry s a) = Some d \<Longrightarrow>
      drained_of (fence_entry s b) = Some d \<Longrightarrow> a = b"
    and "fs_completed s \<subseteq> {..<fs_next s}"
    and "l \<in> set accesses \<Longrightarrow> distinct l"
  using assms unfolding fences_ok_def by blast+

lemma app_fence_okD:
  assumes "app_fence_ok e h k c n"
  shows "active_of e = k" and "held_of e \<longleftrightarrow> h \<noteq> None"
    and "drained_of e = Some d \<Longrightarrow> d < n" and "drained_of e = Some d \<Longrightarrow> k > 0 \<Longrightarrow> d \<notin> c"
  using assms by (auto simp: app_fence_ok_def)

lemma fences_ok_admit:
  assumes "fences_ok s accesses holders" and "admit appIds s = ((admitted, blocked), t)"
  shows "fences_ok t (admitted # accesses) holders"
proof -
  obtain f where adm: "admitted = filter (\<lambda>a. \<not> held_of (fence_entry s a)) (js_dedup appIds)"
    and entry: "\<And>a. fence_entry t a = (if a \<in> set admitted
       then Some (admitted_entry (f a) (fence_entry s a)) else fence_entry s a)"
    and c: "fs_completed t = fs_completed s" and n: "fs_next s \<le> fs_next t"
    and f: "\<And>a. a \<in> set admitted \<Longrightarrow> fs_next s \<le> f a \<and> f a < fs_next t"
    and inj: "inj_on f (set admitted)"
    using admit_view [OF assms(2)] by metis
  note ok = fences_okD(1) [OF assms(1)]
  have drained: "drained_of (fence_entry t a) = Some d \<Longrightarrow>
      drained_of (fence_entry s a) = Some d \<or>
      drained_of (fence_entry s a) = None \<and> a \<in> set admitted \<and> d = f a" for a d
    unfolding entry by (auto split: if_splits option.splits)
  have old: "d < fs_next s" if "drained_of (fence_entry s a) = Some d" for a d
    using app_fence_okD(3) [OF ok that] .
  have counted: "open_count accesses a > 0"
    if "drained_of (fence_entry s a) \<noteq> None" "open_count (admitted # accesses) a > 0" for a
    using that ok [of a] adm
    by (cases "fence_entry s a") (auto simp: app_fence_ok_def open_count_Cons split: if_splits)
  show ?thesis
  proof (rule fences_okI)
    show "app_fence_ok (fence_entry t a) (holders a) (open_count (admitted # accesses) a)
        (fs_completed t) (fs_next t)" for a
      using app_fence_ok_admit [OF ok _ _ _ fences_okD(3) [OF assms(1)], of a "f a" "fs_next t"]
        app_fence_ok_mono [OF ok n] f [of a]
      by (simp add: entry c open_count_Cons adm)
    show "a = b" if "open_count (admitted # accesses) a > 0" "open_count (admitted # accesses) b > 0"
      "drained_of (fence_entry t a) = Some d" "drained_of (fence_entry t b) = Some d" for a b d
      using drained [OF that(3)] drained [OF that(4)] that(1,2) counted fences_okD(2) [OF assms(1)]
        old f inj
      by (metis inj_onD leD option.distinct(1))
    show "fs_completed t \<subseteq> {..<fs_next t}" using fences_okD(3) [OF assms(1)] c n by auto
    show "distinct l" if "l \<in> set (admitted # accesses)" for l
      using that fences_okD(4) [OF assms(1)] by (auto simp: adm)
  qed
qed

lemma fences_ok_finish:
  assumes "fences_ok s accesses holders" and "admitted \<in> set accesses"
  shows "fences_ok (finish admitted s) (remove1 admitted accesses) holders"
proof -
  let ?t = "finish admitted s"
  have dist: "distinct admitted" using fences_okD(4) [OF assms] .
  note view = finish_view [OF dist, where s = s]
  note ok = fences_okD(1) [OF assms(1)]
  have pos: "open_count accesses a > 0" if "a \<in> set admitted" for a
    using that open_count_remove1 [OF assms(2), of a]
      open_count_nonneg [of "remove1 admitted accesses" a] by simp
  have count: "open_count (remove1 admitted accesses) a =
      (if a \<in> set admitted then open_count accesses a - 1 else open_count accesses a)" for a
    using open_count_remove1 [OF assms(2), of a] by simp
  have signalled: "d \<in> fs_completed s \<or> (\<exists>b \<in> set admitted. d \<in> finish_signal (fence_entry s b))"
    if "d \<in> fs_completed ?t" for d
    using that by (auto simp: view(2))
  have fresh: "d \<notin> fs_completed ?t"
    if prem: "drained_of (fence_entry s a) = Some d" "open_count accesses a > 0"
      "a \<in> set admitted \<Longrightarrow> open_count accesses a > 1" for a d
  proof
    assume "d \<in> fs_completed ?t"
    then obtain b where b: "b \<in> set admitted" "d \<in> finish_signal (fence_entry s b)"
      using signalled app_fence_okD(4) [OF ok prem(1,2)] by blast
    then have "b = a"
      using fences_okD(2) [OF assms(1) pos [OF b(1)] prem(2)] prem(1) finish_signal_drained by blast
    then show False
      using b prem(3) finish_signal_drained [OF b(2)] app_fence_okD(1) [OF ok, of a] by simp
  qed
  show ?thesis
  proof (rule fences_okI)
    show "app_fence_ok (fence_entry ?t a) (holders a)
        (open_count (remove1 admitted accesses) a) (fs_completed ?t) (fs_next ?t)" for a
    proof (cases "a \<in> set admitted")
      case True
      have "app_fence_ok (finished_entry (fence_entry s a)) (holders a)
          (open_count accesses a - 1) (fs_completed ?t) (fs_next s)"
      proof (rule app_fence_ok_finish [OF ok pos [OF True]])
        show "finish_signal (fence_entry s a) \<subseteq> fs_completed ?t" using True by (auto simp: view(2))
        show "fs_completed s \<subseteq> fs_completed ?t" by (auto simp: view(2))
      qed (use fresh pos [OF True] in auto)
      then show ?thesis using True by (simp add: view(1,3) count)
    next
      case False
      have "app_fence_ok (fence_entry s a) (holders a) (open_count accesses a)
          (fs_completed ?t) (fs_next s)"
        by (rule app_fence_ok_more [OF ok]) (use fresh False in \<open>auto simp: view(2)\<close>)
      then show ?thesis using False by (simp add: view(1,3) count)
    qed
    have shrink: "open_count accesses a > 0"
      if "open_count (remove1 admitted accesses) a > 0" for a
      using that count [of a] by (simp split: if_splits)
    have same: "drained_of (fence_entry s a) = Some d"
      if "drained_of (fence_entry ?t a) = Some d" for a d
      using that drained_of_finished [of "fence_entry s a" d] by (cases "a \<in> set admitted") (auto simp: view(1))
    show "a = b" if "open_count (remove1 admitted accesses) a > 0"
      "open_count (remove1 admitted accesses) b > 0"
      "drained_of (fence_entry ?t a) = Some d" "drained_of (fence_entry ?t b) = Some d" for a b d
      using fences_okD(2) [OF assms(1) shrink shrink same same] that by blast
    show "fs_completed ?t \<subseteq> {..<fs_next ?t}"
    proof
      fix d
      assume "d \<in> fs_completed ?t"
      from signalled [OF this] show "d \<in> {..<fs_next ?t}"
      proof
        assume "d \<in> fs_completed s"
        then show ?thesis using fences_okD(3) [OF assms(1)] by (auto simp: view(3))
      next
        assume "\<exists>b \<in> set admitted. d \<in> finish_signal (fence_entry s b)"
        then obtain b where "drained_of (fence_entry s b) = Some d"
          using finish_signal_drained by blast
        then show ?thesis using app_fence_okD(3) [OF ok] by (simp add: view(3))
      qed
    qed
    show "distinct l" if "l \<in> set (remove1 admitted accesses)" for l
      using that fences_okD(4) [OF assms(1)] notin_set_remove1 by metis
  qed
qed

lemma fences_ok_acquire:
  assumes "fences_ok s accesses holders" and "fence_acquire a s = (Inr w, t)"
  shows "fences_ok t accesses (holders(a := Some w))"
proof -
  note view = acquire_view [OF assms(2)] and ok = fences_okD(1) [OF assms(1)]
  have free: "\<not> held_of (fence_entry s a)" using view(1) by (simp split: if_splits)
  note got = view(1) [unfolded if_not_P [OF free]]
  have drained: "drained_of (fence_entry s b) = Some d"
    if "drained_of (fence_entry t b) = Some d" "open_count accesses b > 0" for b d
  proof (cases "b = a")
    case True
    have "active_of (fence_entry s a) > 0" using that(2) True app_fence_okD(1) [OF ok] by simp
    then have "drained_of (fence_entry s a) \<noteq> None" by (cases "fence_entry s a") auto
    then show ?thesis using got that(1) True by auto
  qed (use got that in auto)
  have a: "app_fence_ok (fence_entry t a) (Some w) (open_count accesses a) (fs_completed t) (fs_next t)"
    using ok [of a] got free fences_okD(3) [OF assms(1)] open_count_nonneg [of accesses a]
    by (cases "fence_entry s a") (auto simp: app_fence_ok_def view(2,3) split: if_splits)
  show ?thesis
  proof (rule fences_okI)
    show "app_fence_ok (fence_entry t b) ((holders(a := Some w)) b) (open_count accesses b)
        (fs_completed t) (fs_next t)" for b
      using a app_fence_ok_mono [OF ok, of "fs_next t" b] got by (cases "b = a") (simp_all add: view(2,3))
    show "b = b'" if "open_count accesses b > 0" "open_count accesses b' > 0"
      "drained_of (fence_entry t b) = Some d" "drained_of (fence_entry t b') = Some d" for b b' d
      using fences_okD(2) [OF assms(1) that(1,2)] drained that by blast
  qed (use fences_okD(3,4) [OF assms(1)] in \<open>auto simp: view(2,3)\<close>)
qed

lemma fences_ok_busy:
  assumes "fences_ok s accesses holders" and "fence_acquire a s = (Inl e, t)"
  shows "fences_ok t accesses holders"
proof -
  note view = acquire_view [OF assms(2)]
  have same: "fence_entry t = fence_entry s" using view(1) by (simp split: if_splits)
  show ?thesis
    using assms(1) app_fence_ok_mono
    unfolding fences_ok_def same view(2,3) by (auto intro: app_fence_ok_mono)
qed

lemma fences_ok_release:
  assumes "fences_ok s accesses holders"
  shows "fences_ok (fence_release a s) accesses (holders(a := None))"
proof -
  note ok = fences_okD(1) [OF assms(1)]
  have drained: "drained_of (fence_entry s b) = Some d"
    if "drained_of (fence_entry (fence_release a s) b) = Some d" for b d
    using that by (cases "fence_entry s a") (auto simp: release_view split: if_splits)
  have a: "app_fence_ok (fence_entry (fence_release a s) a) None (open_count accesses a)
      (fs_completed s) (fs_next s)"
    using ok [of a]
    by (cases "fence_entry s a")
      (auto simp: app_fence_ok_def release_view open_count_pos split: if_splits)
  show ?thesis
  proof (rule fences_okI)
    show "app_fence_ok (fence_entry (fence_release a s) b) ((holders(a := None)) b)
        (open_count accesses b) (fs_completed (fence_release a s)) (fs_next (fence_release a s))" for b
      using a ok [of b] by (cases "b = a") (simp_all add: release_view(2,3), simp add: release_view(1))
    show "b = b'" if "open_count accesses b > 0" "open_count accesses b' > 0"
      "drained_of (fence_entry (fence_release a s) b) = Some d"
      "drained_of (fence_entry (fence_release a s) b') = Some d" for b b' d
      using fences_okD(2) [OF assms(1) that(1,2)] drained that by blast
  qed (use fences_okD(3,4) [OF assms(1)] in \<open>auto simp: release_view(2,3)\<close>)
qed

lemma fence_inv_step: "fence_step y z \<Longrightarrow> fence_inv y \<Longrightarrow> fence_inv z"
  by (induction rule: fence_step.induct)
    (simp_all add: fence_inv_def fences_ok_admit fences_ok_finish fences_ok_acquire fences_ok_busy
      fences_ok_release)

lemma fence_inv_reachable: "fence_reachable y \<Longrightarrow> fence_inv y"
  by (induction rule: fence_reachable.induct) (simp_all add: fence_inv_start fence_inv_step)

text \<open>An access opens, a migration takes the fence and waits, and the access closes.\<close>

definition fence_example_open :: fence_system where
  "fence_example_open =
     \<lparr>sys_store = \<lparr>fs_entries = [(''a'', \<lparr>fe_active = 1, fe_held = True, fe_drained = 0\<rparr>)],
        fs_completed = {}, fs_next = 2\<rparr>,
      sys_open = [[''a'']], sys_holders = (\<lambda>_. None)(''a'' := Some (Some 0))\<rparr>"

definition fence_example_drained :: fence_system where
  "fence_example_drained =
     \<lparr>sys_store = \<lparr>fs_entries = [(''a'', \<lparr>fe_active = 0, fe_held = True, fe_drained = 0\<rparr>)],
        fs_completed = {0}, fs_next = 2\<rparr>,
      sys_open = [], sys_holders = (\<lambda>_. None)(''a'' := Some (Some 0))\<rparr>"

lemma fence_example_open_reachable: "fence_reachable fence_example_open"
proof -
  let ?s = "\<lparr>fs_entries = [(''a'', \<lparr>fe_active = 1, fe_held = False, fe_drained = 0\<rparr>)],
    fs_completed = {}, fs_next = 1\<rparr>"
  have "admit [''a''] (sys_store fence_start) = (([''a''], {}), ?s)"
    by (simp add: admit_def fence_start_def js_dedup_def admitOne_def Let_def)
  from fence_reachable.step [OF fence_reachable.start open_access [OF this]]
  have one: "fence_reachable
      \<lparr>sys_store = ?s, sys_open = [[''a'']], sys_holders = (\<lambda>_. None)\<rparr>" (is "fence_reachable ?y")
    by (simp add: fence_start_def)
  have "fence_acquire ''a'' (sys_store ?y) = (Inr (Some 0), sys_store fence_example_open)"
    by (simp add: fence_acquire_def Let_def fence_example_open_def)
  from fence_reachable.step [OF one take_fence [OF this]] show ?thesis
    by (simp add: fence_example_open_def)
qed

lemma fence_example_drained_reachable: "fence_reachable fence_example_drained"
proof -
  have "[''a''] \<in> set (sys_open fence_example_open)" by (simp add: fence_example_open_def)
  from fence_reachable.step [OF fence_example_open_reachable close_access [OF this]]
  show ?thesis
    by (simp add: fence_example_open_def fence_example_drained_def finish_def finishEntry_def Let_def)
qed

section \<open>Properties\<close>

text \<open>
  C32. A migration owns its app alone: in every state the agent can reach, once a holder of the fence
  was told not to wait, or the deferred it waits for is completed, no lifecycle access that was
  admitted to the app is still open, \<open>requireHeld\<close> lets the migration through, a new access is not
  admitted to the app but told it is blocked, and a second migration is refused as busy.
\<close>

theorem fence_is_exclusive:
  assumes "fence_reachable y" and "sys_holders y a = Some w"
    and "w = None \<or> (\<exists>d. w = Some d \<and> d \<in> fs_completed (sys_store y))"
  shows "(\<forall>l \<in> set (sys_open y). a \<notin> set l) \<and>
    requireHeld a (sys_store y) = Inr () \<and>
    a \<notin> set (fst (fst (admit appIds (sys_store y)))) \<and>
    a \<in> snd (fst (admit appIds (sys_store y))) \<and>
    fst (fence_acquire a (sys_store y)) = Inl VolumeMigrationFenceBusy"
proof -
  let ?s = "sys_store y"
  have ok: "app_fence_ok (fence_entry ?s a) (Some w) (open_count (sys_open y) a)
      (fs_completed ?s) (fs_next ?s)"
    using fences_okD(1) [of ?s "sys_open y" "sys_holders y" a] fence_inv_reachable [OF assms(1)]
      assms(2) by (simp add: fence_inv_def)
  have zero: "open_count (sys_open y) a = 0"
  proof (rule ccontr)
    assume "open_count (sys_open y) a \<noteq> 0"
    then have pos: "open_count (sys_open y) a > 0" by (simp add: open_count_pos)
    then show False
      using ok assms(3) by (auto simp: app_fence_ok_def)
  qed
  then have closed: "\<forall>l \<in> set (sys_open y). a \<notin> set l"
    by (simp add: open_count_def filter_empty_conv)
  have held: "held_of (fence_entry ?s a)" and active: "active_of (fence_entry ?s a) = 0"
    using app_fence_okD(1,2) [OF ok] zero by simp_all
  have required: "requireHeld a ?s = Inr ()"
    using held active by (cases "js_get (fs_entries ?s) a") (simp_all add: requireHeld_def fence_entry_def)
  obtain adm bl t where adm: "admit appIds ?s = ((adm, bl), t)" by (metis prod.exhaust)
  have "adm = filter (\<lambda>a. \<not> held_of (fence_entry ?s a)) (js_dedup appIds)"
    using admit_view [OF adm] by blast
  then have "a \<notin> set adm" using held by simp
  moreover have "a \<in> bl"
  proof -
    obtain e where e: "js_get (fs_entries ?s) a = Some e" "fe_held e"
      using held by (cases "js_get (fs_entries ?s) a") (simp_all add: fence_entry_def)
    then have "(a, e) \<in> set (filter (\<lambda>(_, entry). fe_held entry) (fs_entries ?s))"
      by (simp add: map_of_SomeD)
    moreover have "bl = set (map fst (filter (\<lambda>(_, entry). fe_held entry) (fs_entries ?s)))"
      using adm by (simp add: admit_def Let_def split: prod.splits)
    ultimately show ?thesis by (metis fst_conv image_eqI set_map)
  qed
  moreover have "fst (fence_acquire a ?s) = Inl VolumeMigrationFenceBusy"
    using acquire_view(1) [of a ?s "fst (fence_acquire a ?s)" "snd (fence_acquire a ?s)"] held by simp
  ultimately show ?thesis using closed required adm by simp
qed

theorem fence_is_exclusive_witness:
  "requireHeld ''a'' (sys_store fence_example_drained) = Inr ()"
proof -
  have "sys_holders fence_example_drained ''a'' = Some (Some 0)"
    "Some 0 = None \<or> (\<exists>d. Some 0 = Some d \<and> d \<in> fs_completed (sys_store fence_example_drained))"
    by (simp_all add: fence_example_drained_def)
  from fence_is_exclusive [OF fence_example_drained_reachable this, of "[]"]
  show ?thesis by blast
qed

text \<open>
  A migration never waits for an access that is already over: in every reachable state, if no
  open access was admitted to an app a migration holds, the migration was told not to wait or the
  deferred it waits for has been completed.
\<close>

theorem fence_never_stuck:
  assumes "fence_reachable y" and "sys_holders y a = Some (Some d)"
    and "\<forall>l \<in> set (sys_open y). a \<notin> set l"
  shows "d \<in> fs_completed (sys_store y)"
proof -
  have "open_count (sys_open y) a = 0" using assms(3) by (simp add: open_count_def filter_empty_conv)
  then show ?thesis
    using fences_okD(1) [of "sys_store y" "sys_open y" "sys_holders y" a]
      fence_inv_reachable [OF assms(1)] assms(2)
    by (simp add: fence_inv_def app_fence_ok_def)
qed

theorem fence_never_stuck_witness: "0 \<in> fs_completed (sys_store fence_example_drained)"
  by (rule fence_never_stuck [OF fence_example_drained_reachable, of "''a''"])
    (simp_all add: fence_example_drained_def)

end
