(* ===== verification/Waker.thy ===== *)
theory Waker
  imports Instances
begin

text \<open>
  Waking an app because a request arrived for it: \<open>apps/agent/src/services/app-waker.service.ts\<close>.

  The first part is one wake, from the checks that may refuse it to the probe that ends it
  (\<open>waker_boot\<close>). What the outside answers is an argument: the latest desired state, the memory
  of the host, the unit, Firecracker, and whether the guest answered within its grace period.

  The second part is the coalescing of requests. The map \<open>inFlight\<close> holds one claim per app; a claim is
  a deferred result and a count of the requests that joined it, here a number into \<open>wk_done\<close> and
  \<open>wk_joined\<close>. Arriving (finding or making the claim and, for a request that
  joins, counting itself: only a log line reads the count), handing out the result and dropping the claim
  are one atomic step each, and any other request may come between two of them.
\<close>

section \<open>One wake\<close>

datatype wake_error = WakeRefused AppId string | HostHasNoRoom AppId int

definition wake_message :: "wake_error \<Rightarrow> string" where
  "wake_message e =
     (case e of
        WakeRefused appId reason \<Rightarrow> appId @ '' could not be woken: '' @ reason
      | HostHasNoRoom appId shortfallMib \<Rightarrow>
          appId @ '' could not be woken: its host is '' @ show_int shortfallMib @
            '' MiB short of the memory it needs'')"

definition NO_SHORTFALL :: int where "NO_SHORTFALL = 0"

definition refusalForRoom :: "int \<Rightarrow> DesiredInstance \<Rightarrow> AgentSnapshot \<Rightarrow> wake_error option" where
  "refusalForRoom hostMemoryMib wanted s =
     (let others = filter (\<lambda>r. ir_appId r \<noteq> di_appId wanted) (records s);
          shortfallMib = memoryShortfallMib hostMemoryMib (committedResources others)
            (cfg_resources (di_config wanted))
      in if shortfallMib > NO_SHORTFALL
         then Some (HostHasNoRoom (di_appId wanted) shortfallMib) else None)"

definition desired_state_name :: "DesiredInstanceState \<Rightarrow> string" where
  "desired_state_name state =
     (case state of
        DesiredRunning \<Rightarrow> ''running'' | DesiredOnRequest \<Rightarrow> ''on-request''
      | DesiredStopped \<Rightarrow> ''stopped'')"

definition untilAnswering :: "InstanceRecord \<Rightarrow> bool \<Rightarrow> (wake_error, unit) result" where
  "untilAnswering r answered =
     (if answered then Inr ()
      else Inl (WakeRefused (ir_appId r)
        (''nothing answered on port '' @ show_nat (ir_httpPort r) @ '' inside the guest'')))"

record WakeEnv =
  we_host :: HostEnv
  we_hostMemoryMib :: int
  we_unit :: UnitStatus
  we_nowMs :: int
  we_wake :: wake_outcome
  we_boot :: boot_outcome
  we_doneMs :: int
  we_answered :: bool

definition waker_boot :: "WakeEnv \<Rightarrow> AppId \<Rightarrow> Host \<Rightarrow> (wake_error, WakeOutcome) result \<times> Host" where
  "waker_boot we appId h =
     (case (case he_latest (we_host we) of None \<Rightarrow> None
            | Some desired \<Rightarrow> find (\<lambda>inst. di_appId inst = appId) (hd_instances desired)) of
        None \<Rightarrow> (Inl (WakeRefused appId ''the control plane no longer names it''), h)
      | Some wanted \<Rightarrow>
          if di_desiredState wanted \<noteq> DesiredOnRequest
          then (Inl (WakeRefused appId (''it is '' @ desired_state_name (di_desiredState wanted))), h)
          else if \<not> st_isolated (ho_state h)
          then (Inl (WakeRefused appId ''the isolation ruleset is not applied''), h)
          else case refusalForRoom (we_hostMemoryMib we) wanted (ho_state h) of
            Some noRoom \<Rightarrow>
              (Inl noRoom, h\<lparr>ho_state := updateRecord appId
                 (\<lambda>r. r\<lparr>ir_message := Some (wake_message noRoom)\<rparr>) (ho_state h)\<rparr>)
          | None \<Rightarrow>
              (case resumeInstance (we_host we) wanted (we_unit we) (we_nowMs we) (we_wake we)
                      (we_boot we) (we_doneMs we) h of
                 (Inl e, h) \<Rightarrow>
                   (Inl (WakeRefused appId (reportedMessage (he_describe (we_host we) e))), h)
               | (Inr outcome, h) \<Rightarrow>
                   (case js_get (st_records (ho_state h)) appId of
                      None \<Rightarrow> (Inl (WakeRefused appId ''the microVM would not start''), h)
                    | Some r \<Rightarrow>
                        if ir_startedAt r = None
                        then (Inl (WakeRefused appId (case ir_message r of
                                None \<Rightarrow> ''the microVM would not start'' | Some m \<Rightarrow> m)), h)
                        else case untilAnswering r (we_answered we) of
                          Inl e \<Rightarrow> (Inl e, h)
                        | Inr _ \<Rightarrow> (Inr outcome, h))))"

section \<open>One wake per app\<close>

type_synonym wake_claim = nat

record WakerState =
  wk_inFlight :: "(AppId, wake_claim) jsmap"
  wk_joined :: "wake_claim \<Rightarrow> nat"
  wk_done :: "wake_claim \<Rightarrow> (wake_error, WakeOutcome) result option"
  wk_next :: wake_claim

definition idle_waker :: WakerState where
  "idle_waker = \<lparr>wk_inFlight = [], wk_joined = (\<lambda>_. 0), wk_done = (\<lambda>_. None), wk_next = 0\<rparr>"

datatype wake_part = Leads wake_claim | Joins wake_claim

text \<open>A request arrives: the claim it makes is fresh, and it leads unless another is in flight.\<close>

definition wake_arrives :: "AppId \<Rightarrow> WakerState \<Rightarrow> wake_part \<times> WakerState" where
  "wake_arrives appId w =
     (case js_get (wk_inFlight w) appId of
        Some existing \<Rightarrow>
          (Joins existing, w\<lparr>wk_joined := (wk_joined w)(existing := wk_joined w existing + 1),
             wk_next := wk_next w + 1\<rparr>)
      | None \<Rightarrow>
          (Leads (wk_next w), w\<lparr>wk_inFlight := js_set appId (wk_next w) (wk_inFlight w),
             wk_next := wk_next w + 1\<rparr>))"

text \<open>The exit of the leader: the result is handed to everyone waiting, then the claim is dropped.\<close>

definition wake_delivers ::
  "wake_claim \<Rightarrow> (wake_error, WakeOutcome) result \<Rightarrow> WakerState \<Rightarrow> WakerState" where
  "wake_delivers claim exit w =
     (if wk_done w claim = None then w\<lparr>wk_done := (wk_done w)(claim \<mapsto> exit)\<rparr> else w)"

definition wake_drops :: "AppId \<Rightarrow> WakerState \<Rightarrow> WakerState" where
  "wake_drops appId w = w\<lparr>wk_inFlight := js_delete appId (wk_inFlight w)\<rparr>"

text \<open>What the member \<open>wake\<close> answers while a migration holds the app.\<close>

definition wake_blocked :: "AppId \<Rightarrow> wake_error" where
  "wake_blocked appId = WakeRefused appId ''its volume storage is being migrated''"

text \<open>The requests of a run: \<open>booting_now\<close> leads and still works, \<open>leaving\<close> has delivered and not yet
  dropped its claim, \<open>waiting\<close> awaits somebody else's claim.\<close>

record wake_run =
  wr_state :: WakerState
  wr_booting :: "(AppId \<times> wake_claim) set"
  wr_leaving :: "(AppId \<times> wake_claim) set"
  wr_waiting :: "(AppId \<times> wake_claim) set"

inductive wake_step :: "wake_run \<Rightarrow> wake_run \<Rightarrow> bool" where
  leads: "wake_arrives a (wr_state y) = (Leads c, w) \<Longrightarrow>
    wake_step y (y\<lparr>wr_state := w, wr_booting := insert (a, c) (wr_booting y)\<rparr>)"
| joins: "wake_arrives a (wr_state y) = (Joins c, w) \<Longrightarrow>
    wake_step y (y\<lparr>wr_state := w, wr_waiting := insert (a, c) (wr_waiting y)\<rparr>)"
| delivers: "(a, c) \<in> wr_booting y \<Longrightarrow>
    wake_step y (y\<lparr>wr_state := wake_delivers c exit (wr_state y),
      wr_booting := wr_booting y - {(a, c)}, wr_leaving := insert (a, c) (wr_leaving y)\<rparr>)"
| drops: "(a, c) \<in> wr_leaving y \<Longrightarrow>
    wake_step y (y\<lparr>wr_state := wake_drops a (wr_state y), wr_leaving := wr_leaving y - {(a, c)}\<rparr>)"
| resumes: "(a, c) \<in> wr_waiting y \<Longrightarrow> wk_done (wr_state y) c = Some exit \<Longrightarrow>
    wake_step y (y\<lparr>wr_waiting := wr_waiting y - {(a, c)}\<rparr>)"

inductive wake_reachable :: "wake_run \<Rightarrow> bool" where
  idle: "wake_reachable \<lparr>wr_state = idle_waker, wr_booting = {}, wr_leaving = {}, wr_waiting = {}\<rparr>"
| step: "wake_reachable y \<Longrightarrow> wake_step y z \<Longrightarrow> wake_reachable z"

section \<open>Invariant\<close>

definition waker_inv :: "wake_run \<Rightarrow> bool" where
  "waker_inv y \<longleftrightarrow>
     (\<forall>a c. js_get (wk_inFlight (wr_state y)) a = Some c \<longleftrightarrow> (a, c) \<in> wr_booting y \<or> (a, c) \<in> wr_leaving y) \<and>
     (\<forall>a c. (a, c) \<in> wr_booting y \<longrightarrow> wk_done (wr_state y) c = None) \<and>
     (\<forall>a c. (a, c) \<in> wr_leaving y \<longrightarrow> wk_done (wr_state y) c \<noteq> None) \<and>
     (\<forall>a c. (a, c) \<in> wr_waiting y \<longrightarrow> (a, c) \<in> wr_booting y \<or> wk_done (wr_state y) c \<noteq> None) \<and>
     (\<forall>a b c. (a, c) \<in> wr_booting y \<or> (a, c) \<in> wr_leaving y \<longrightarrow>
        (b, c) \<in> wr_booting y \<or> (b, c) \<in> wr_leaving y \<longrightarrow> a = b) \<and>
     (\<forall>a c. (a, c) \<in> wr_booting y \<or> (a, c) \<in> wr_leaving y \<or> (a, c) \<in> wr_waiting y \<longrightarrow>
        c < wk_next (wr_state y)) \<and>
     (\<forall>c. wk_done (wr_state y) c \<noteq> None \<longrightarrow> c < wk_next (wr_state y))"

lemma waker_inv_in_flight:
  "waker_inv y \<Longrightarrow> (a, c) \<in> wr_booting y \<or> (a, c) \<in> wr_leaving y \<Longrightarrow>
     js_get (wk_inFlight (wr_state y)) a = Some c"
  unfolding waker_inv_def by blast

lemma waker_inv_unique:
  assumes "waker_inv y" "(a, c) \<in> wr_booting y \<or> (a, c) \<in> wr_leaving y"
    "(a, d) \<in> wr_booting y \<or> (a, d) \<in> wr_leaving y"
  shows "c = d"
  using waker_inv_in_flight [OF assms(1,2)] waker_inv_in_flight [OF assms(1,3)] by simp

lemma wake_arrives_cases:
  assumes "wake_arrives a w = (part, w')"
  obtains (leads) "part = Leads (wk_next w)" "js_get (wk_inFlight w) a = None"
      "w' = w\<lparr>wk_inFlight := js_set a (wk_next w) (wk_inFlight w), wk_next := wk_next w + 1\<rparr>"
  | (joins) c where "part = Joins c" "js_get (wk_inFlight w) a = Some c"
      "w' = w\<lparr>wk_joined := (wk_joined w)(c := wk_joined w c + 1), wk_next := wk_next w + 1\<rparr>"
  using assms by (auto simp: wake_arrives_def split: option.splits)

lemma waker_inv_step: "wake_step y z \<Longrightarrow> waker_inv y \<Longrightarrow> waker_inv z"
proof (induction rule: wake_step.induct)
  case (leads a y c w)
  from leads(1) show ?case
  proof (cases rule: wake_arrives_cases)
    case leads
    have "\<not> c < wk_next (wr_state y)" using leads(1) by simp
    then have new: "(b, c) \<notin> wr_booting y" "(b, c) \<notin> wr_leaving y" "(b, c) \<notin> wr_waiting y"
        "wk_done (wr_state y) c = None" for b
      using \<open>waker_inv y\<close> unfolding waker_inv_def by blast+
    have free: "(a, d) \<notin> wr_booting y" "(a, d) \<notin> wr_leaving y" for d
      using \<open>waker_inv y\<close> leads(2) unfolding waker_inv_def by (metis option.distinct(1))+
    show ?thesis
      using \<open>waker_inv y\<close> leads new free unfolding waker_inv_def
      by (intro conjI) (auto simp: less_Suc_eq)
  qed simp
next
  case (joins a y c w)
  from joins(1) show ?case
  proof (cases rule: wake_arrives_cases)
    case (joins d)
    then show ?thesis
      using \<open>waker_inv y\<close> unfolding waker_inv_def by (intro conjI) (auto simp: less_Suc_eq)
  qed simp
next
  case (delivers a c y exit)
  have d: "wk_done (wr_state y) c = None" using delivers unfolding waker_inv_def by blast
  show ?case
    using delivers d unfolding waker_inv_def
    by (intro conjI) (auto simp: wake_delivers_def)
next
  case (drops a c y)
  have same: "(a, d) \<in> wr_leaving y \<Longrightarrow> d = c" for d
    using drops by (blast intro: waker_inv_unique)
  moreover have "(a, d) \<notin> wr_booting y" for d
  proof
    assume d: "(a, d) \<in> wr_booting y"
    then have "d = c" using drops by (blast intro: waker_inv_unique)
    moreover have "wk_done (wr_state y) d = None" using drops(2) d unfolding waker_inv_def by blast
    moreover have "wk_done (wr_state y) c \<noteq> None" using drops unfolding waker_inv_def by blast
    ultimately show False by simp
  qed
  ultimately have only: "(a, d) \<notin> wr_booting y" "(a, d) \<in> wr_leaving y \<Longrightarrow> d = c" for d by blast+
  have flight: "js_get (wk_inFlight (wr_state y)) b = Some d \<longleftrightarrow>
      (b, d) \<in> wr_booting y \<or> (b, d) \<in> wr_leaving y" for b d
    using drops(2) unfolding waker_inv_def by blast
  have "js_get (js_delete a (wk_inFlight (wr_state y))) b = Some d \<longleftrightarrow>
      (b, d) \<in> wr_booting y \<or> (b, d) \<in> wr_leaving y - {(a, c)}" for b d
    using only [of d] flight [of b d] by (cases "b = a") auto
  then show ?case
    using drops(2) unfolding waker_inv_def wake_drops_def
    by (simp del: js_get_delete) blast
next
  case (resumes a c y exit)
  then show ?case unfolding waker_inv_def by (intro conjI) auto
qed

lemma waker_inv_reachable: "wake_reachable y \<Longrightarrow> waker_inv y"
  by (induction rule: wake_reachable.induct)
    (auto simp: waker_inv_step, simp add: waker_inv_def idle_waker_def)

inductive_simps wake_step_iff: "wake_step y z"

section \<open>Properties\<close>

text \<open>
  A burst of requests is one wake: however requests arrive, join, deliver and leave, an app has at
  most one request booting it, which is the one whose claim is in flight; and a request that joined
  waits for a boot still under way or finds its result already there, so none waits for a wake
  that is over.
\<close>

theorem wakes_coalesce:
  assumes "wake_reachable y"
  shows "((a, c) \<in> wr_booting y \<and> (a, d) \<in> wr_booting y \<longrightarrow> c = d) \<and>
    ((a, c) \<in> wr_booting y \<longrightarrow> js_get (wk_inFlight (wr_state y)) a = Some c) \<and>
    ((a, c) \<in> wr_waiting y \<longrightarrow>
       (a, c) \<in> wr_booting y \<or> (\<exists>exit. wk_done (wr_state y) c = Some exit))"
proof -
  note inv = waker_inv_reachable [OF assms]
  have "(a, c) \<in> wr_waiting y \<longrightarrow> (a, c) \<in> wr_booting y \<or> wk_done (wr_state y) c \<noteq> None"
    using inv unfolding waker_inv_def by blast
  then show ?thesis using waker_inv_unique [OF inv] waker_inv_in_flight [OF inv] by blast
qed

theorem wakes_coalesce_witness:
  "\<exists>w. wake_reachable \<lparr>wr_state = w, wr_booting = {(''a'', 0)}, wr_leaving = {}, wr_waiting = {(''a'', 0)}\<rparr> \<and>
     js_get (wk_inFlight w) ''a'' = Some 0"
proof -
  let ?w1 = "snd (wake_arrives ''a'' idle_waker)"
  let ?w2 = "snd (wake_arrives ''a'' ?w1)"
  let ?y0 = "\<lparr>wr_state = idle_waker, wr_booting = {}, wr_leaving = {}, wr_waiting = {}\<rparr>"
  let ?y1 = "?y0\<lparr>wr_state := ?w1, wr_booting := insert (''a'', 0) (wr_booting ?y0)\<rparr>"
  let ?y2 = "?y1\<lparr>wr_state := ?w2, wr_waiting := insert (''a'', 0) (wr_waiting ?y1)\<rparr>"
  have "wake_step ?y0 ?y1"
    by (rule leads) (simp add: wake_arrives_def idle_waker_def)
  moreover have "wake_step ?y1 ?y2"
    by (rule joins) (simp add: wake_arrives_def idle_waker_def)
  ultimately have y2: "wake_reachable ?y2" using wake_reachable.intros by metis
  moreover have "js_get (wk_inFlight (wr_state ?y2)) ''a'' = Some 0"
    using wakes_coalesce [OF y2, of "''a''" 0 0] by simp
  ultimately show ?thesis by (intro exI [of _ ?w2]) simp
qed

definition wake_allowed :: "WakeEnv \<Rightarrow> AppId \<Rightarrow> AgentSnapshot \<Rightarrow> bool" where
  "wake_allowed we a s \<longleftrightarrow>
     (\<exists>desired wanted. he_latest (we_host we) = Some desired \<and> wanted \<in> set (hd_instances desired) \<and>
        di_appId wanted = a \<and> di_desiredState wanted = DesiredOnRequest \<and>
        memoryShortfallMib (we_hostMemoryMib we)
          (committedResources (filter (\<lambda>r. ir_appId r \<noteq> a) (records s)))
          (cfg_resources (di_config wanted)) \<le> 0) \<and> st_isolated s"

lemma resumeInstance_other:
  assumes "agent_inv (ho_state h)" and "b \<noteq> di_appId d"
  shows "js_get (st_records (ho_state (snd (resumeInstance env d unit now wake boot done h)))) b =
    js_get (st_records (ho_state h)) b"
  unfolding resumeInstance_def
  by (rule conjunct2 [OF withStartClaim_keeps [OF assms(1)]])
    (simp_all add: resume_keeps(1) resume_keeps(2) [OF _ assms(2)])

text \<open>
  A request is no reason to make an exception: a wake changes no other app's record; it changes
  its own app's beyond the message only when the latest desired state names the app on request, the
  isolation ruleset is in the kernel and the host has the memory for it next to everything else; a
  wake refused for memory leaves exactly its reason on the record; and a wake is reported as done
  only when the guest answered and the record says when it started.
\<close>

theorem wake_makes_no_exception:
  assumes "agent_inv (ho_state h)" and "waker_boot we a h = (res, t)"
  shows "(b \<noteq> a \<longrightarrow> js_get (st_records (ho_state t)) b = js_get (st_records (ho_state h)) b) \<and>
    (wake_allowed we a (ho_state h) \<or> (case res of
        Inl (HostHasNoRoom _ _) \<Rightarrow> (\<exists>m. js_get (st_records (ho_state t)) a =
          map_option (\<lambda>r. r\<lparr>ir_message := Some m\<rparr>) (js_get (st_records (ho_state h)) a))
      | Inl (WakeRefused _ _) \<Rightarrow> t = h
      | Inr _ \<Rightarrow> False)) \<and>
    (\<forall>outcome. res = Inr outcome \<longrightarrow> we_answered we \<and>
       map_option (\<lambda>r. ir_startedAt r = None) (js_get (st_records (ho_state t)) a) = Some False)"
proof (cases "case he_latest (we_host we) of None \<Rightarrow> None
    | Some desired \<Rightarrow> find (\<lambda>inst. di_appId inst = a) (hd_instances desired)")
  case None
  then show ?thesis using assms(2) unfolding waker_boot_def None option.case by auto
next
  case (Some wanted)
  then obtain desired where latest: "he_latest (we_host we) = Some desired"
    and found: "find (\<lambda>inst. di_appId inst = a) (hd_instances desired) = Some wanted"
    by (cases "he_latest (we_host we)") simp_all
  have named: "wanted \<in> set (hd_instances desired)" "di_appId wanted = a"
    using find_Some_in [OF found] by simp_all
  note boot = assms(2) [unfolded waker_boot_def Some option.case]
  show ?thesis
  proof (cases "di_desiredState wanted = DesiredOnRequest \<and> st_isolated (ho_state h)")
    case False
    then show ?thesis using boot by (auto split: if_splits)
  next
    case True
    show ?thesis
    proof (cases "refusalForRoom (we_hostMemoryMib we) wanted (ho_state h)")
      case (Some e)
      then have "\<exists>short. e = HostHasNoRoom a short"
        using named(2) by (auto simp: refusalForRoom_def Let_def split: if_splits)
      then show ?thesis using boot True Some by auto
    next
      case None
      have "wake_allowed we a (ho_state h)"
        unfolding wake_allowed_def using None True latest named
        by (auto simp: refusalForRoom_def Let_def NO_SHORTFALL_def split: if_splits)
      moreover obtain out u where res: "resumeInstance (we_host we) wanted (we_unit we) (we_nowMs we)
          (we_wake we) (we_boot we) (we_doneMs we) h = (out, u)" by (metis prod.exhaust)
      moreover have "t = u"
        using boot True None res
        by (auto simp: untilAnswering_def split: sum.splits option.splits if_splits)
      moreover have "js_get (st_records (ho_state u)) b = js_get (st_records (ho_state h)) b" if "b \<noteq> a"
        using resumeInstance_other [OF assms(1), of b wanted] that named(2) res by (metis snd_conv)
      ultimately show ?thesis
        using boot True None res
        by (cases out; cases "js_get (st_records (ho_state u)) a")
          (auto simp: untilAnswering_def split: sum.splits if_splits)
    qed
  qed
qed

definition wake_env_example :: WakeEnv where
  "wake_env_example =
     \<lparr>we_host = \<lparr>he_latest = Some (desired_example [desired_instance_example ''a'' DesiredOnRequest]),
        he_devices = {}, he_describe = (\<lambda>_. [])\<rparr>,
      we_hostMemoryMib = 1024, we_unit = UNKNOWN_UNIT, we_nowMs = 5, we_wake = Woken,
      we_boot = Booted, we_doneMs = 9, we_answered = True\<rparr>"

theorem wake_makes_no_exception_witness:
  "fst (waker_boot wake_env_example ''a'' sleeping_host) =
     Inl (WakeRefused ''a'' ''the isolation ruleset is not applied'') \<and>
   snd (waker_boot wake_env_example ''a'' sleeping_host) = sleeping_host"
proof -
  have refused: "fst (waker_boot wake_env_example ''a'' sleeping_host) =
      Inl (WakeRefused ''a'' ''the isolation ruleset is not applied'')"
    by (simp add: waker_boot_def wake_env_example_def desired_example_def desired_instance_example_def
        sleeping_host_def putRecord_def EMPTY_def)
  then have boot: "waker_boot wake_env_example ''a'' sleeping_host =
      (Inl (WakeRefused ''a'' ''the isolation ruleset is not applied''),
       snd (waker_boot wake_env_example ''a'' sleeping_host))"
    by (metis prod.collapse)
  have inv: "agent_inv (ho_state sleeping_host)"
    unfolding sleeping_host_def Host.select_convs
    by (rule agent_inv_put) (simp_all add: agent_inv_def EMPTY_def record_ok_def record_example_def)
  have "\<not> wake_allowed wake_env_example ''a'' (ho_state sleeping_host)"
    by (simp add: wake_allowed_def sleeping_host_def putRecord_def EMPTY_def)
  with wake_makes_no_exception [OF inv boot] show ?thesis using refused by simp
qed

end
