(* ===== verification/Bytes.thy ===== *)
theory Bytes
  imports Prelude "HOL-Library.Word" "HOL-Library.Log_Nat"
begin

text \<open>
  Bytes as the host and the guest exchange them.

  A \<open>Buffer\<close> is a list of bytes. Fixed-width integers are big-endian on every wire of the program:
  \<open>be_bytes\<close> and \<open>be_value\<close> are \<open>writeUIntBE\<close> and \<open>readUIntBE\<close>, and the checked writers answer
  \<open>None\<close> where \<open>Buffer\<close> raises a \<open>RangeError\<close>. Text is kept as its UTF-8 bytes; \<open>utf8_text\<close> is
  the decoder with replacement (\<open>Buffer.toString\<close>) and \<open>utf8_fatal\<close> the one that throws
  (\<open>TextDecoder\<close> with \<open>fatal\<close>). \<open>js_number\<close> is what \<open>Number\<close> makes of a \<open>bigint\<close>.

  The locale \<open>chunked_decoder\<close> is the contract of a decoder that is fed a stream in pieces.
\<close>

unbundle bit_operations_syntax

named_theorems byte_simps \<open>reading back what was written\<close>

type_synonym byte = "8 word"

section \<open>Fixed-width integers\<close>

primrec be_bytes :: "nat \<Rightarrow> nat \<Rightarrow> byte list" where
  "be_bytes 0 n = []"
| "be_bytes (Suc k) n = be_bytes k (n div 256) @ [word_of_nat n]"

definition be_value :: "byte list \<Rightarrow> nat" where
  "be_value bs = foldl (\<lambda>v b. v * 256 + unat b) 0 bs"

lemma length_be_bytes [simp]: "length (be_bytes k n) = k"
  by (induction k arbitrary: n) simp_all

lemma be_value_simps [simp]:
  "be_value [] = 0"
  "be_value (bs @ [b]) = be_value bs * 256 + unat b"
  by (simp_all add: be_value_def)

lemma be_value_append:
  "be_value (as @ bs) = be_value as * 256 ^ length bs + be_value bs"
proof (induction bs rule: rev_induct)
  case (snoc b bs)
  then show ?case by (simp add: append_assoc [symmetric] algebra_simps del: append_assoc)
qed simp

lemma unat_byte_less [simp]: "unat (b :: byte) < 256"
proof -
  have "unat b < 2 ^ LENGTH(8)" by (rule unsigned_less)
  then show ?thesis by simp
qed

lemma unat_of_nat_byte: "unat (word_of_nat n :: byte) = n mod 256"
  by (simp add: unat_of_nat)

lemma be_value_be_bytes: "be_value (be_bytes k n) = n mod 256 ^ k"
proof (induction k arbitrary: n)
  case (Suc k)
  have "n mod 256 ^ Suc k = 256 * (n div 256 mod 256 ^ k) + n mod 256"
    by (simp add: mod_mult2_eq)
  then show ?case by (simp add: Suc unat_of_nat_byte)
qed simp

lemma be_value_less: "be_value bs < 256 ^ length bs"
proof (induction bs rule: rev_induct)
  case (snoc b bs)
  have "unat b < 256" by simp
  then show ?case using snoc by (simp del: unat_byte_less)
qed simp

lemma be_value_be_bytes_id [byte_simps]: "n < 256 ^ k \<Longrightarrow> be_value (be_bytes k n) = n"
  by (simp add: be_value_be_bytes)

lemma be_bytes_be_value [byte_simps]: "length bs = k \<Longrightarrow> be_bytes k (be_value bs) = bs"
proof (induction bs arbitrary: k rule: rev_induct)
  case (snoc b bs)
  have "unat b < 256" by simp
  moreover from this have "(be_value bs * 256 + unat b) div 256 = be_value bs" by simp
  moreover have "(word_of_nat (be_value bs * 256 + unat b) :: byte) = b"
  proof -
    have "(word_of_nat (be_value bs * 256) :: byte) = 0"
      by (subst word_of_nat_eq_0_iff) simp
    then show ?thesis by (simp only: of_nat_add) (simp del: of_nat_mult)
  qed
  ultimately show ?case using snoc by auto
qed simp

lemma be_value_inj: "length as = length bs \<Longrightarrow> be_value as = be_value bs \<longleftrightarrow> as = bs"
  by (metis be_bytes_be_value)

definition writeUInt32BE :: "int \<Rightarrow> byte list option" where
  "writeUInt32BE n = (if 0 \<le> n \<and> n < 2 ^ 32 then Some (be_bytes 4 (nat n)) else None)"

definition writeBigUInt64BE :: "int \<Rightarrow> byte list option" where
  "writeBigUInt64BE n = (if 0 \<le> n \<and> n < 2 ^ 64 then Some (be_bytes 8 (nat n)) else None)"

text \<open>\<open>readUInt32BE\<close> and the like raise a \<open>RangeError\<close> past the end; the decoders below check the
  length first, and \<open>slice_at\<close> is what \<open>subarray\<close> returns.\<close>

definition slice_at :: "nat \<Rightarrow> nat \<Rightarrow> byte list \<Rightarrow> byte list" where
  "slice_at from len bs = take len (drop from bs)"

definition read_u :: "nat \<Rightarrow> nat \<Rightarrow> byte list \<Rightarrow> nat" where
  "read_u width from bs = be_value (slice_at from width bs)"

definition read_i64 :: "nat \<Rightarrow> byte list \<Rightarrow> int" where
  "read_i64 from bs =
     (let n = int (read_u 8 from bs) in if n < 2 ^ 63 then n else n - 2 ^ 64)"

lemma slice_at_append [byte_simps]:
  "length a = from \<Longrightarrow> length b = len \<Longrightarrow> slice_at from len (a @ b @ c) = b"
  by (simp add: slice_at_def)

lemma slice_at_within: "from + len \<le> length a \<Longrightarrow> slice_at from len (a @ b) = slice_at from len a"
  by (simp add: slice_at_def)

lemma length_slice_at: "from + len \<le> length bs \<Longrightarrow> length (slice_at from len bs) = len"
  by (simp add: slice_at_def)

lemma read_u_within: "from + k \<le> length a \<Longrightarrow> read_u k from (a @ b) = read_u k from a"
  by (simp add: read_u_def slice_at_within)

lemma read_u_less: "read_u k from bs < 256 ^ k"
proof -
  have "length (slice_at from k bs) \<le> k" by (simp add: slice_at_def)
  then show ?thesis
    unfolding read_u_def using be_value_less [of "slice_at from k bs"]
    by (meson less_le_trans one_le_numeral power_increasing)
qed

lemma read_u_append [byte_simps]:
  "length a = from \<Longrightarrow> n < 256 ^ k \<Longrightarrow> read_u k from (a @ be_bytes k n @ c) = n"
  by (simp add: read_u_def slice_at_append be_value_be_bytes_id)

text \<open>A signed integer crosses in two's complement.\<close>

definition twos64 :: "int \<Rightarrow> nat" where "twos64 i = nat (i mod 2 ^ 64)"

lemma twos64_less: "twos64 i < 256 ^ 8"
  by (simp add: twos64_def nat_less_iff)

lemma read_i64_append [byte_simps]:
  assumes "length a = from" and "- (2 ^ 63) \<le> i" and "i < 2 ^ 63"
  shows "read_i64 from (a @ be_bytes 8 (twos64 i) @ c) = i"
proof -
  have "read_u 8 from (a @ be_bytes 8 (twos64 i) @ c) = twos64 i"
    using assms twos64_less by (simp add: read_u_append)
  moreover have "int (twos64 i) = (if 0 \<le> i then i else i + 2 ^ 64)"
  proof (cases "0 \<le> i")
    case False
    have "i mod 2 ^ 64 = (i + 2 ^ 64) mod 2 ^ 64" by simp
    also have "\<dots> = i + 2 ^ 64" using False assms by (intro mod_pos_pos_trivial) auto
    finally show ?thesis using False assms by (simp add: twos64_def)
  qed (use assms in \<open>simp add: twos64_def mod_pos_pos_trivial\<close>)
  ultimately show ?thesis using assms by (simp add: read_i64_def)
qed

section \<open>Numbers\<close>

text \<open>A \<open>Number\<close> holds 53 significant bits: beyond that a \<open>bigint\<close> is rounded to the nearest, and
  to the even one of two that are equally near.\<close>

definition js_number :: "nat \<Rightarrow> nat" where
  "js_number n =
     (if n < 2 ^ 53 then n
      else let e = floorlog 2 n - 53; q = n div 2 ^ e; r = 2 * (n mod 2 ^ e) in
        (if 2 ^ e < r \<or> r = 2 ^ e \<and> odd q then q + 1 else q) * 2 ^ e)"

definition MAX_SAFE_INTEGER :: nat where "MAX_SAFE_INTEGER = 2 ^ 53 - 1"

lemma js_number_exact: "n \<le> MAX_SAFE_INTEGER \<Longrightarrow> js_number n = n"
  by (simp add: js_number_def MAX_SAFE_INTEGER_def)

section \<open>UTF-8\<close>

text \<open>A lead byte tells how many bytes continue it and the range of the first of them.\<close>

definition utf8_lead :: "byte \<Rightarrow> (nat \<times> byte \<times> byte) option" where
  "utf8_lead b =
     (if 0xC2 \<le> b \<and> b \<le> 0xDF then Some (1, 0x80, 0xBF)
      else if b = 0xE0 then Some (2, 0xA0, 0xBF)
      else if b = 0xED then Some (2, 0x80, 0x9F)
      else if 0xE1 \<le> b \<and> b \<le> 0xEF then Some (2, 0x80, 0xBF)
      else if b = 0xF0 then Some (3, 0x90, 0xBF)
      else if b = 0xF4 then Some (3, 0x80, 0x8F)
      else if 0xF1 \<le> b \<and> b \<le> 0xF3 then Some (3, 0x80, 0xBF)
      else None)"

text \<open>The bytes that continue a sequence: up to \<open>n\<close> of them, and where reading goes on.\<close>

fun utf8_continue :: "nat \<Rightarrow> byte \<Rightarrow> byte \<Rightarrow> byte list \<Rightarrow> byte list \<times> byte list" where
  "utf8_continue 0 lo hi bs = ([], bs)"
| "utf8_continue (Suc n) lo hi [] = ([], [])"
| "utf8_continue (Suc n) lo hi (b # bs) =
     (if lo \<le> b \<and> b \<le> hi
      then case utf8_continue n 0x80 0xBF bs of (taken, rest) \<Rightarrow> (b # taken, rest)
      else ([], b # bs))"

lemma utf8_continue_append:
  "utf8_continue n lo hi bs = (taken, rest) \<Longrightarrow> taken @ rest = bs"
  by (induction n lo hi bs arbitrary: taken rest rule: utf8_continue.induct)
    (auto split: if_splits prod.splits)

lemma utf8_continue_shorter [termination_simp]:
  "(taken, rest) = utf8_continue n lo hi bs \<Longrightarrow> length rest \<le> length bs"
  using utf8_continue_append [of n lo hi bs taken rest] by auto

lemma utf8_continue_more:
  "utf8_continue n lo hi bs = (taken, rest) \<Longrightarrow> length taken = n \<or> rest \<noteq> [] \<Longrightarrow>
    utf8_continue n lo hi (bs @ more) = (taken, rest @ more)"
  by (induction n lo hi bs arbitrary: taken rest rule: utf8_continue.induct)
    (auto split: if_splits prod.splits)

text \<open>One pass over what has arrived: the pieces that are decided (\<open>Inr\<close> one encoded character,
  \<open>Inl\<close> bytes that are none) and a last character that is cut off so far.\<close>

function utf8_scan :: "byte list \<Rightarrow> (byte list + byte list) list \<times> byte list" where
  "utf8_scan [] = ([], [])"
| "utf8_scan (b # bs) =
     (if b < 0x80 then apfst (Cons (Inr [b])) (utf8_scan bs)
      else case utf8_lead b of
        None \<Rightarrow> apfst (Cons (Inl [b])) (utf8_scan bs)
      | Some (n, lo, hi) \<Rightarrow>
          (case utf8_continue n lo hi bs of (taken, rest) \<Rightarrow>
             if length taken = n then apfst (Cons (Inr (b # taken))) (utf8_scan rest)
             else if rest = [] then ([], b # bs)
             else apfst (Cons (Inl (b # taken))) (utf8_scan rest)))"
  by pat_completeness auto
termination
  by (relation "measure length") (auto dest: utf8_continue_shorter)

definition utf8_pieces :: "byte list \<Rightarrow> (byte list + byte list) list" where
  "utf8_pieces bs = (case utf8_scan bs of (ps, held) \<Rightarrow> ps @ (if held = [] then [] else [Inl held]))"

definition REPLACEMENT :: "byte list" where "REPLACEMENT = [0xEF, 0xBF, 0xBD]"

text \<open>\<open>TextDecoder\<close> puts a replacement character in the place of what is none, and leaves out a byte order
  mark at the very start.\<close>

definition BOM :: "byte list" where "BOM = [0xEF, 0xBB, 0xBF]"

definition render_pieces :: "(byte list + byte list) list \<Rightarrow> byte list" where
  "render_pieces ps = concat (map (case_sum (\<lambda>_. REPLACEMENT) id) ps)"

definition without_bom :: "(byte list + byte list) list \<Rightarrow> (byte list + byte list) list" where
  "without_bom ps = (case ps of p # qs \<Rightarrow> if p = Inr BOM then qs else ps | [] \<Rightarrow> [])"

definition TextDecoder_decode :: "byte list \<Rightarrow> byte list" where
  "TextDecoder_decode bs = render_pieces (without_bom (utf8_pieces bs))"

definition utf8_valid :: "byte list \<Rightarrow> bool" where
  "utf8_valid bs = list_all (\<lambda>p. \<not> isl p) (utf8_pieces bs)"

definition utf8_text :: "byte list \<Rightarrow> byte list" where
  "utf8_text bs = concat (map (case_sum (\<lambda>_. REPLACEMENT) id) (utf8_pieces bs))"

definition utf8_fatal :: "byte list \<Rightarrow> byte list option" where
  "utf8_fatal bs = (if utf8_valid bs then Some bs else None)"

text \<open>The scan of one byte and what follows it, as one step and the scan of a shorter list.\<close>

lemma utf8_scan_cases:
  obtains (piece) p rest where "b # bs = case_sum id id p @ rest" "case_sum id id p \<noteq> []"
      "\<And>more. utf8_scan (b # bs @ more) = apfst (Cons p) (utf8_scan (rest @ more))"
  | (held) "utf8_scan (b # bs) = ([], b # bs)"
proof (cases "b < 0x80 \<or> utf8_lead b = None")
  case True
  then show ?thesis using piece [of "if b < 0x80 then Inr [b] else Inl [b]" bs] by auto
next
  case False
  then obtain n lo hi where lead: "utf8_lead b = Some (n, lo, hi)" "\<not> b < 0x80" by auto
  obtain taken rest where cont: "utf8_continue n lo hi bs = (taken, rest)" by force
  show ?thesis
  proof (cases "length taken = n \<or> rest \<noteq> []")
    case True
    then show ?thesis
      using piece [of "(if length taken = n then Inr else Inl) (b # taken)" rest] lead
        utf8_continue_append [OF cont] utf8_continue_more [OF cont] by auto
  next
    case False
    then show ?thesis using held lead cont by simp
  qed
qed

lemma utf8_scan_concat:
  "utf8_scan bs = (ps, held) \<Longrightarrow> concat (map (case_sum id id) ps) @ held = bs"
proof (induction bs arbitrary: ps rule: length_induct)
  case (1 bs)
  show ?case
  proof (cases bs)
    case (Cons c cs)
    show ?thesis
    proof (cases c cs rule: utf8_scan_cases)
      case (piece p rest)
      obtain qs r where "utf8_scan rest = (qs, r)" by force
      moreover have "length rest < length bs" using piece(1,2) Cons by (metis length_append length_greater_0_conv less_add_same_cancel2)
      ultimately show ?thesis using 1 piece(1) piece(3) [of "[]"] Cons by auto
    qed (use 1 Cons in simp)
  qed (use 1 in simp)
qed

lemma utf8_pieces_concat: "concat (map (case_sum id id) (utf8_pieces bs)) = bs"
  using utf8_scan_concat [of bs] by (auto simp: utf8_pieces_def split: prod.splits)

lemma utf8_scan_more:
  "utf8_scan a = (ps, held) \<Longrightarrow>
    utf8_scan (a @ b) = (case utf8_scan (held @ b) of (qs, r) \<Rightarrow> (ps @ qs, r))"
proof (induction a arbitrary: ps rule: length_induct)
  case (1 a)
  show ?case
  proof (cases a)
    case (Cons c cs)
    show ?thesis
    proof (cases c cs rule: utf8_scan_cases)
      case (piece p rest)
      obtain qs r where "utf8_scan rest = (qs, r)" by force
      moreover have "length rest < length a" using piece(1,2) Cons by (metis length_append length_greater_0_conv less_add_same_cancel2)
      ultimately show ?thesis
        using 1 piece(3) [of "[]"] piece(3) [of b] Cons by (auto split: prod.splits)
    qed (use 1 Cons in \<open>auto split: prod.splits\<close>)
  qed (use 1 in \<open>auto split: prod.splits\<close>)
qed

lemma utf8_text_valid: "utf8_valid bs \<Longrightarrow> utf8_text bs = bs"
proof -
  assume "utf8_valid bs"
  then have "map (case_sum (\<lambda>_. REPLACEMENT) id) (utf8_pieces bs) = map (case_sum id id) (utf8_pieces bs)"
    by (auto simp: utf8_valid_def list_all_iff split: sum.splits)
  then show ?thesis unfolding utf8_text_def by (simp only: utf8_pieces_concat)
qed

definition ascii :: "string \<Rightarrow> byte list" where "ascii s = map of_char s"

lemma utf8_valid_ascii: "list_all (\<lambda>b. b < 0x80) bs \<Longrightarrow> utf8_valid bs"
  by (induction bs) (auto simp: utf8_valid_def utf8_pieces_def split: prod.splits)

section \<open>Decoders that are fed in pieces\<close>

text \<open>A connection hands over its bytes as they arrive. The receiver keeps what it could not read
  yet, puts the next chunk behind it and reads again; a failure ends the connection.\<close>

fun feed :: "(byte list \<Rightarrow> ('e, 'f list \<times> byte list) result) \<Rightarrow> byte list \<Rightarrow> byte list list \<Rightarrow>
    'f list \<times> ('e, byte list) result" where
  "feed parse buffered [] = ([], Inr buffered)"
| "feed parse buffered (chunk # chunks) =
     (case parse (buffered @ chunk) of
        Inl e \<Rightarrow> ([], Inl e)
      | Inr (fs, rest) \<Rightarrow> apfst (append fs) (feed parse rest chunks))"

locale chunked_decoder =
  fixes parse :: "byte list \<Rightarrow> ('e, 'f list \<times> byte list) result"
  assumes parse_more:
      "parse a = Inr (fs, rest) \<Longrightarrow>
        parse (a @ b) = (case parse (rest @ b) of Inl e \<Rightarrow> Inl e | Inr (gs, r) \<Rightarrow> Inr (fs @ gs, r))"
    and parse_error: "parse a = Inl e \<Longrightarrow> parse (a @ b) = Inl e"
    and parse_empty: "parse [] = Inr ([], [])"
begin

lemma parse_rest: "parse a = Inr (fs, rest) \<Longrightarrow> parse rest = Inr ([], rest)"
  using parse_more [of a fs rest "[]"] by (auto split: sum.splits)

lemma feed_any_chunks:
  "parse buffered = Inr ([], buffered) \<Longrightarrow>
    (case feed parse buffered chunks of
       (fs, Inr rest) \<Rightarrow> parse (buffered @ concat chunks) = Inr (fs, rest)
     | (fs, Inl e) \<Rightarrow> parse (buffered @ concat chunks) = Inl e)"
proof (induction chunks arbitrary: buffered)
  case (Cons chunk chunks)
  show ?case
  proof (cases "parse (buffered @ chunk)")
    case (Inl e)
    then show ?thesis using parse_error [OF Inl, of "concat chunks"] by simp
  next
    case (Inr p)
    obtain fs rest where p: "p = (fs, rest)" by force
    have "parse rest = Inr ([], rest)" using Inr p parse_rest by blast
    then show ?thesis
      using Cons.IH [of rest] Inr p parse_more [of "buffered @ chunk" fs rest "concat chunks"]
      by (cases "feed parse rest chunks") (auto split: sum.splits)
  qed
qed simp

theorem feed_is_parse:
  "feed parse [] chunks = (fs, Inr rest) \<longleftrightarrow> parse (concat chunks) = Inr (fs, rest)"
  "snd (feed parse [] chunks) = Inl e \<longleftrightarrow> parse (concat chunks) = Inl e"
  using feed_any_chunks [of "[]" chunks] parse_empty
  by (cases "feed parse [] chunks"; auto split: sum.splits)+

end

interpretation utf8_stream: chunked_decoder "\<lambda>bs. Inr (utf8_scan bs) :: (unit, _) result"
  by unfold_locales (auto simp: utf8_scan_more split: prod.splits)

end
