(* ===== verification/Guest_Logs.thy ===== *)
theory Guest_Logs
  imports Bytes "HOL-Library.Sublist"
begin

text \<open>
  What a tenant prints, from the guest to the host: the framing in
  \<open>apps/runtime/src/guest-logs.c\<close> and its decoder \<open>apps/agent/src/lib/logs/guest-protocol.ts\<close>.

  A frame is \<open>NBL1\<close>, a kind byte, a big-endian length and that many bytes. The guest sends a frame in
  one go without blocking: when it does not go out whole, the connection is given up and the bytes are
  added to a saturating count, which the next connection reports first as a \<open>gap\<close>. What the sockets do
  (whether a connection came up, how many bytes of a frame were taken) is an argument of each call.
  The field \<open>fw_streams\<close> is what the kernel took on each connection, the latest first. What the host
  reads of it is another matter, and an argument too: \<open>serve_connection\<close> in
  \<open>services/tenant-log-receiver.service.ts\<close> closes a connection over the cap without reading it, and one
  that breaks ends where it broke.
\<close>

section \<open>The host's decoder\<close>

definition LOG_FRAME_MAGIC :: "byte list" where "LOG_FRAME_MAGIC = [0x4E, 0x42, 0x4C, 0x31]"
definition LOG_FRAME_HEADER_BYTES :: nat where "LOG_FRAME_HEADER_BYTES = 9"
definition LOG_KIND_OFFSET :: nat where "LOG_KIND_OFFSET = 4"
definition LOG_LENGTH_OFFSET :: nat where "LOG_LENGTH_OFFSET = 5"
definition MAX_FRAME_PAYLOAD_BYTES :: nat where "MAX_FRAME_PAYLOAD_BYTES = 65536"
definition GAP_PAYLOAD_BYTES :: nat where "GAP_PAYLOAD_BYTES = 8"

lemmas log_layout = LOG_FRAME_HEADER_BYTES_def LOG_KIND_OFFSET_def LOG_LENGTH_OFFSET_def
  MAX_FRAME_PAYLOAD_BYTES_def GAP_PAYLOAD_BYTES_def

datatype TenantLogStream = Stdout | Stderr

datatype GuestLogFrame = LogData TenantLogStream "byte list" | LogGap nat

datatype InvalidGuestLogFrame = InvalidGuestLogFrame (invalid_reason: string)

definition InvalidGuestLogFrame_message :: "InvalidGuestLogFrame \<Rightarrow> string" where
  "InvalidGuestLogFrame_message e =
     ''the guest sent a log frame this host cannot read: '' @ invalid_reason e"

definition frameFrom :: "byte \<Rightarrow> byte list \<Rightarrow> (InvalidGuestLogFrame, GuestLogFrame) result" where
  "frameFrom kind payload =
     (if kind = 1 \<or> kind = 2 then Inr (LogData (if kind = 1 then Stdout else Stderr) payload)
      else if kind \<noteq> 3 then Inl (InvalidGuestLogFrame ''unknown frame kind'')
      else if length payload \<noteq> GAP_PAYLOAD_BYTES
      then Inl (InvalidGuestLogFrame ''invalid gap payload length'')
      else let encoded = be_value payload in
        Inr (LogGap (js_number (if encoded > MAX_SAFE_INTEGER then MAX_SAFE_INTEGER else encoded))))"

text \<open>The loop of \<open>decodeFrames\<close>: every turn takes a whole frame off the front.\<close>

function frames_loop :: "byte list \<Rightarrow> (InvalidGuestLogFrame, GuestLogFrame list \<times> byte list) result" where
  "frames_loop rest =
     (if length rest < LOG_FRAME_HEADER_BYTES then Inr ([], rest)
      else if slice_at 0 4 rest \<noteq> LOG_FRAME_MAGIC
      then Inl (InvalidGuestLogFrame ''invalid magic value'')
      else let payloadLength = read_u 4 LOG_LENGTH_OFFSET rest;
               frameLength = LOG_FRAME_HEADER_BYTES + payloadLength in
        if payloadLength > MAX_FRAME_PAYLOAD_BYTES
        then Inl (InvalidGuestLogFrame ''payload exceeds the limit'')
        else if length rest < frameLength then Inr ([], rest)
        else case frameFrom (rest ! LOG_KIND_OFFSET)
                    (slice_at LOG_FRAME_HEADER_BYTES payloadLength rest) of
            Inl e \<Rightarrow> Inl e
          | Inr frame \<Rightarrow> (case frames_loop (drop frameLength rest) of
                Inl e \<Rightarrow> Inl e
              | Inr (frames, rest) \<Rightarrow> Inr (frame # frames, rest)))"
  by pat_completeness auto
termination
  by (relation "measure length") (auto simp: log_layout)

declare frames_loop.simps [simp del]

lemma frames_loop_Nil [simp]: "frames_loop [] = Inr ([], [])"
  by (simp add: frames_loop.simps log_layout)

definition decodeFrames ::
  "byte list \<Rightarrow> byte list \<Rightarrow> (InvalidGuestLogFrame, GuestLogFrame list \<times> byte list) result" where
  "decodeFrames buffered chunk = frames_loop (buffered @ chunk)"

text \<open>One turn of the loop, whatever follows the frame.\<close>

datatype log_turn = Undecided | Refused InvalidGuestLogFrame | Framed GuestLogFrame nat

definition log_turn :: "byte list \<Rightarrow> log_turn" where
  "log_turn rest =
     (if length rest < LOG_FRAME_HEADER_BYTES then Undecided
      else if slice_at 0 4 rest \<noteq> LOG_FRAME_MAGIC
      then Refused (InvalidGuestLogFrame ''invalid magic value'')
      else let payloadLength = read_u 4 LOG_LENGTH_OFFSET rest in
        if payloadLength > MAX_FRAME_PAYLOAD_BYTES
        then Refused (InvalidGuestLogFrame ''payload exceeds the limit'')
        else if length rest < LOG_FRAME_HEADER_BYTES + payloadLength then Undecided
        else case frameFrom (rest ! LOG_KIND_OFFSET)
                    (slice_at LOG_FRAME_HEADER_BYTES payloadLength rest) of
            Inl e \<Rightarrow> Refused e
          | Inr frame \<Rightarrow> Framed frame (LOG_FRAME_HEADER_BYTES + payloadLength))"

lemma frames_loop_turn:
  "frames_loop bs =
     (case log_turn bs of
        Undecided \<Rightarrow> Inr ([], bs)
      | Refused e \<Rightarrow> Inl e
      | Framed frame n \<Rightarrow> (case frames_loop (drop n bs) of
            Inl e \<Rightarrow> Inl e | Inr (frames, rest) \<Rightarrow> Inr (frame # frames, rest)))"
  by (subst frames_loop.simps) (simp add: log_turn_def Let_def split: sum.split)

lemma log_turn_more:
  "log_turn bs \<noteq> Undecided \<Longrightarrow> log_turn (bs @ more) = log_turn bs"
  by (auto simp: log_turn_def Let_def log_layout slice_at_within read_u_within nth_append
    split: if_splits)

lemma log_turn_Framed: "log_turn bs = Framed frame n \<Longrightarrow> n \<le> length bs \<and> length bs - n < length bs"
  by (auto simp: log_turn_def Let_def log_layout split: if_splits sum.splits)

interpretation log_frames: chunked_decoder frames_loop
proof unfold_locales
  show "frames_loop [] = Inr ([], [])" by simp
next
  fix a b fs rest
  assume "frames_loop a = Inr (fs, rest)"
  then show "frames_loop (a @ b) =
    (case frames_loop (rest @ b) of Inl e \<Rightarrow> Inl e | Inr (gs, r) \<Rightarrow> Inr (fs @ gs, r))"
  proof (induction a arbitrary: fs rule: length_induct)
    case (1 a)
    show ?case
    proof (cases "log_turn a")
      case Undecided
      then show ?thesis using 1 by (auto simp: frames_loop_turn [of a] split: sum.splits)
    next
      case (Framed frame n)
      then obtain gs where gs: "frames_loop (drop n a) = Inr (gs, rest)" "fs = frame # gs"
        using 1(2) by (auto simp: frames_loop_turn [of a] split: sum.splits)
      have "frames_loop (drop n a @ b) =
        (case frames_loop (rest @ b) of Inl e \<Rightarrow> Inl e | Inr (hs, r) \<Rightarrow> Inr (gs @ hs, r))"
        using 1(1) [rule_format, of "drop n a" gs] gs(1) log_turn_Framed [OF Framed] by simp
      then show ?thesis
        using Framed gs log_turn_Framed [OF Framed] log_turn_more [of a b]
        by (auto simp: frames_loop_turn [of "a @ b"] split: sum.splits)
    qed (use 1(2) in \<open>simp add: frames_loop_turn [of a]\<close>)
  qed
next
  fix a b e
  assume "frames_loop a = Inl e"
  then show "frames_loop (a @ b) = Inl e"
  proof (induction a rule: length_induct)
    case (1 a)
    show ?case
    proof (cases "log_turn a")
      case (Framed frame n)
      then have "frames_loop (drop n a) = Inl e"
        using 1(2) by (auto simp: frames_loop_turn [of a] split: sum.splits)
      then have "frames_loop (drop n a @ b) = Inl e"
        using 1(1) log_turn_Framed [OF Framed] by simp
      then show ?thesis
        using Framed log_turn_Framed [OF Framed] log_turn_more [of a b]
        by (simp add: frames_loop_turn [of "a @ b"])
    next
      case (Refused e')
      then show ?thesis
        using 1(2) log_turn_more [of a b] by (simp add: frames_loop_turn [of a] frames_loop_turn [of "a @ b"])
    qed (use 1(2) in \<open>simp add: frames_loop_turn [of a]\<close>)
  qed
qed

section \<open>The receiver\<close>

text \<open>\<open>TextDecoder\<close> in streaming mode: a character that is cut off is held until the rest of it
  arrives, and a byte order mark at the very start is not part of the text.\<close>

record TextDecoder =
  td_held :: "byte list"
  td_started :: bool

definition new_TextDecoder :: TextDecoder where
  "new_TextDecoder = \<lparr>td_held = [], td_started = False\<rparr>"

definition decode_stream :: "byte list \<Rightarrow> TextDecoder \<Rightarrow> byte list \<times> TextDecoder" where
  "decode_stream bytes d =
     (case utf8_scan (td_held d @ bytes) of (ps, held) \<Rightarrow>
        (render_pieces (if td_started d then ps else without_bom ps),
         \<lparr>td_held = held, td_started = td_started d \<or> ps \<noteq> []\<rparr>))"

definition decode_end :: "TextDecoder \<Rightarrow> byte list" where
  "decode_end d = (if td_held d = [] then [] else REPLACEMENT)"

datatype LogEventBody = TextEvent TenantLogStream "byte list" | GapEvent nat

record log_text =
  lt_stdout :: TextDecoder
  lt_stderr :: TextDecoder

definition text_of :: "TenantLogStream \<Rightarrow> log_text \<Rightarrow> TextDecoder" where
  "text_of stream t = (case stream of Stdout \<Rightarrow> lt_stdout t | Stderr \<Rightarrow> lt_stderr t)"

definition with_text :: "TenantLogStream \<Rightarrow> TextDecoder \<Rightarrow> log_text \<Rightarrow> log_text" where
  "with_text stream d t =
     (case stream of Stdout \<Rightarrow> t\<lparr>lt_stdout := d\<rparr> | Stderr \<Rightarrow> t\<lparr>lt_stderr := d\<rparr>)"

fun emitFrames :: "GuestLogFrame list \<Rightarrow> log_text \<Rightarrow> LogEventBody list \<times> log_text" where
  "emitFrames [] t = ([], t)"
| "emitFrames (LogGap n # frames) t = apfst (Cons (GapEvent n)) (emitFrames frames t)"
| "emitFrames (LogData stream bytes # frames) t =
     (case decode_stream bytes (text_of stream t) of (decoded, d) \<Rightarrow>
        apfst (append (if decoded \<noteq> [] then [TextEvent stream decoded] else []))
          (emitFrames frames (with_text stream d t)))"

text \<open>What is left in the decoders once the connection has ended.\<close>

definition emit_remainders :: "log_text \<Rightarrow> LogEventBody list" where
  "emit_remainders t =
     concat (map (\<lambda>stream. let remainder = decode_end (text_of stream t) in
       if remainder \<noteq> [] then [TextEvent stream remainder] else []) [Stdout, Stderr])"

text \<open>One connection: the chunks in the order they arrive, then the remainders. A frame that cannot be
  read ends it before them, and so does a socket that fails instead of ending (\<open>clean\<close> is whether it
  ended): the failure is logged and nothing more is emitted.\<close>

fun pump_run :: "bool \<Rightarrow> byte list \<Rightarrow> log_text \<Rightarrow> byte list list \<Rightarrow>
    LogEventBody list \<times> InvalidGuestLogFrame option" where
  "pump_run clean buffered t [] = (if clean then emit_remainders t else [], None)"
| "pump_run clean buffered t (chunk # chunks) =
     (case decodeFrames buffered chunk of
        Inl e \<Rightarrow> ([], Some e)
      | Inr (frames, rest) \<Rightarrow>
          (case emitFrames frames t of (events, t) \<Rightarrow>
             apfst (append events) (pump_run clean rest t chunks)))"

definition new_log_text :: log_text where
  "new_log_text = \<lparr>lt_stdout = new_TextDecoder, lt_stderr = new_TextDecoder\<rparr>"

definition pump :: "byte list list \<Rightarrow> LogEventBody list \<times> InvalidGuestLogFrame option" where
  "pump chunks = pump_run True [] new_log_text chunks"

text \<open>What \<open>serve\<close> does with a socket: \<open>count\<close> is the connections of the guest with this one. One over the
  cap is opened to be closed, and nothing it carried is read.\<close>

definition MAX_GUEST_CONNECTIONS :: nat where "MAX_GUEST_CONNECTIONS = 4"

definition serve_connection ::
  "nat \<Rightarrow> bool \<Rightarrow> byte list list \<Rightarrow> LogEventBody list \<times> InvalidGuestLogFrame option" where
  "serve_connection count clean chunks =
     (if count > MAX_GUEST_CONNECTIONS then ([], None) else pump_run clean [] new_log_text chunks)"

section \<open>The guest's forwarder\<close>

definition UINT64_MAX :: nat where "UINT64_MAX = 2 ^ 64 - 1"
definition UINT32_MAX :: nat where "UINT32_MAX = 2 ^ 32 - 1"
definition OUTPUT_CHUNK_BYTES :: nat where "OUTPUT_CHUNK_BYTES = 4096"

record guest_log_forwarder =
  fw_connected :: bool
  fw_dropped_bytes :: nat
  fw_streams :: "byte list list"

text \<open>What a frame is on the wire.\<close>

definition log_frame :: "byte \<Rightarrow> byte list \<Rightarrow> byte list" where
  "log_frame kind payload = LOG_FRAME_MAGIC @ [kind] @ be_bytes 4 (length payload) @ payload"

definition disconnect :: "guest_log_forwarder \<Rightarrow> guest_log_forwarder" where
  "disconnect fw = fw\<lparr>fw_connected := False\<rparr>"

text \<open>\<open>start_connection\<close> and the poll behind it: \<open>connects\<close> is whether the connection is up now.\<close>

definition connection_ready :: "bool \<Rightarrow> guest_log_forwarder \<Rightarrow> bool \<times> guest_log_forwarder" where
  "connection_ready connects fw =
     (if fw_connected fw then (True, fw)
      else if connects then (True, fw\<lparr>fw_connected := True, fw_streams := [] # fw_streams fw\<rparr>)
      else (False, fw))"

definition guest_logs_init :: "bool \<Rightarrow> guest_log_forwarder" where
  "guest_logs_init connects =
     snd (connection_ready connects \<lparr>fw_connected = False, fw_dropped_bytes = 0, fw_streams = []\<rparr>)"

definition guest_logs_close :: "guest_log_forwarder \<Rightarrow> guest_log_forwarder" where
  "guest_logs_close fw = fw\<lparr>fw_connected := False\<rparr>"

text \<open>\<open>sendmsg\<close> takes \<open>written\<close> bytes of the frame, and the frame went out if that is all of it.\<close>

definition send_frame :: "nat \<Rightarrow> byte \<Rightarrow> byte list \<Rightarrow> guest_log_forwarder \<Rightarrow> bool \<times> guest_log_forwarder" where
  "send_frame written kind payload fw =
     (if length payload > UINT32_MAX then (False, fw)
      else let frame = log_frame kind payload in
        (length frame \<le> written,
         case fw_streams fw of [] \<Rightarrow> fw
         | stream # earlier \<Rightarrow> fw\<lparr>fw_streams := (stream @ take written frame) # earlier\<rparr>))"

definition add_dropped_bytes :: "nat \<Rightarrow> guest_log_forwarder \<Rightarrow> guest_log_forwarder" where
  "add_dropped_bytes count fw =
     (let room = UINT64_MAX - fw_dropped_bytes fw in
      fw\<lparr>fw_dropped_bytes := fw_dropped_bytes fw + (if count > room then room else count)\<rparr>)"

record log_answers =
  la_connects :: bool
  la_gap :: nat
  la_data :: nat

definition forward_output ::
  "log_answers \<Rightarrow> TenantLogStream \<Rightarrow> byte list \<Rightarrow> guest_log_forwarder \<Rightarrow> guest_log_forwarder" where
  "forward_output ans stream bytes fw =
     (case connection_ready (la_connects ans) fw of
        (False, fw) \<Rightarrow> add_dropped_bytes (length bytes) fw
      | (True, fw) \<Rightarrow>
          (case (if fw_dropped_bytes fw > 0
                 then (case send_frame (la_gap ans) 3 (be_bytes GAP_PAYLOAD_BYTES (fw_dropped_bytes fw)) fw of
                   (False, fw) \<Rightarrow> (False, add_dropped_bytes (length bytes) (disconnect fw))
                 | (True, fw) \<Rightarrow> (True, fw\<lparr>fw_dropped_bytes := 0\<rparr>))
                 else (True, fw)) of
             (False, fw) \<Rightarrow> fw
           | (True, fw) \<Rightarrow>
               (case send_frame (la_data ans) (if stream = Stdout then 1 else 2) bytes fw of
                  (True, fw) \<Rightarrow> fw
                | (False, fw) \<Rightarrow> add_dropped_bytes (length bytes) (disconnect fw))))"

text \<open>\<open>gone\<close> is what the peek found out about a connection that looks up.\<close>

definition service_connection :: "bool \<Rightarrow> bool \<Rightarrow> guest_log_forwarder \<Rightarrow> guest_log_forwarder" where
  "service_connection gone connects fw =
     snd (connection_ready connects (if fw_connected fw \<and> gone then disconnect fw else fw))"

datatype log_event = Prints log_answers TenantLogStream "byte list" | Serves bool bool

definition log_event_run :: "log_event list \<Rightarrow> guest_log_forwarder \<Rightarrow> guest_log_forwarder" where
  "log_event_run = fold (\<lambda>e fw. case e of
     Prints ans stream bytes \<Rightarrow> forward_output ans stream bytes fw
   | Serves gone connects \<Rightarrow> service_connection gone connects fw)"

text \<open>What the tenant printed: the chunks the forwarder was given, each with its stream.\<close>

definition printed :: "log_event list \<Rightarrow> (TenantLogStream \<times> byte list) list" where
  "printed es = concat (map (\<lambda>e. case e of Prints _ stream bytes \<Rightarrow> [(stream, bytes)] | _ \<Rightarrow> []) es)"

definition printed_bytes :: "(TenantLogStream \<times> byte list) list \<Rightarrow> nat" where
  "printed_bytes ps = sum_list (map (\<lambda>p. length (snd p)) ps)"

definition log_event_ok :: "log_event \<Rightarrow> bool" where
  "log_event_ok e = (case e of Prints _ _ bytes \<Rightarrow> length bytes \<le> OUTPUT_CHUNK_BYTES | _ \<Rightarrow> True)"

text \<open>
  When a list of frames and a count that is still to be reported account for what was printed: going
  through the output in order, a chunk is a frame of its own, of the same stream and the same bytes, or
  its length is added to the count; and a count that is not zero is a gap frame of that number before
  any other chunk is.
\<close>

inductive accounts :: "(TenantLogStream \<times> byte list) list \<Rightarrow> GuestLogFrame list \<Rightarrow> nat \<Rightarrow> bool" where
  nothing: "accounts [] [] 0"
| lost: "accounts ps frames d \<Longrightarrow> accounts (ps @ [(stream, bytes)]) frames (d + length bytes)"
| told: "accounts ps frames d \<Longrightarrow> 0 < d \<Longrightarrow> accounts ps (frames @ [LogGap d]) 0"
| sent: "accounts ps frames 0 \<Longrightarrow> accounts (ps @ [(stream, bytes)]) (frames @ [LogData stream bytes]) 0"

section \<open>Every byte is accounted for\<close>

lemma log_turn_header:
  assumes "n < 2 ^ 32"
  shows "log_turn (LOG_FRAME_MAGIC @ [kind] @ be_bytes 4 n @ tail) =
    (if n > MAX_FRAME_PAYLOAD_BYTES then Refused (InvalidGuestLogFrame ''payload exceeds the limit'')
     else if length tail < n then Undecided
     else case frameFrom kind (take n tail) of
         Inl e \<Rightarrow> Refused e | Inr frame \<Rightarrow> Framed frame (LOG_FRAME_HEADER_BYTES + n))"
proof -
  let ?bs = "LOG_FRAME_MAGIC @ [kind] @ be_bytes 4 n @ tail"
  have len: "length LOG_FRAME_MAGIC = 4" by (simp add: LOG_FRAME_MAGIC_def)
  have "slice_at 0 4 ?bs = LOG_FRAME_MAGIC" by (simp add: slice_at_def len)
  moreover have "read_u 4 5 ?bs = n"
    using read_u_append [of "LOG_FRAME_MAGIC @ [kind]" 5 n 4 tail] assms len by simp
  moreover have "?bs ! 4 = kind" by (simp add: nth_append len)
  moreover have "slice_at 9 n ?bs = take n tail" by (simp add: slice_at_def len)
  moreover have "length ?bs = 9 + length tail" by (simp add: len)
  ultimately show ?thesis by (simp add: log_turn_def Let_def log_layout)
qed

lemma frames_loop_frame:
  assumes "length payload \<le> MAX_FRAME_PAYLOAD_BYTES" and "frameFrom kind payload = Inr frame"
  shows "frames_loop (log_frame kind payload) = Inr ([frame], [])"
proof -
  have "log_turn (log_frame kind payload) = Framed frame (LOG_FRAME_HEADER_BYTES + length payload)"
    using assms log_turn_header [of "length payload" kind payload]
    by (simp add: log_frame_def log_layout)
  moreover have "length (log_frame kind payload) = LOG_FRAME_HEADER_BYTES + length payload"
    by (simp add: log_frame_def LOG_FRAME_MAGIC_def log_layout)
  ultimately show ?thesis
    by (simp add: frames_loop_turn [of "log_frame kind payload"])
qed

lemma frames_loop_cut_frame:
  assumes "length payload \<le> MAX_FRAME_PAYLOAD_BYTES" and "w < length (log_frame kind payload)"
  shows "frames_loop (take w (log_frame kind payload)) = Inr ([], take w (log_frame kind payload))"
proof -
  have len: "length (LOG_FRAME_MAGIC @ [kind] @ be_bytes 4 (length payload)) = 9"
    by (simp add: LOG_FRAME_MAGIC_def)
  have "log_turn (take w (log_frame kind payload)) = Undecided"
  proof (cases "w < 9")
    case True
    then have "length (take w (log_frame kind payload)) < LOG_FRAME_HEADER_BYTES"
      by (simp add: log_layout min_less_iff_disj)
    then show ?thesis by (simp add: log_turn_def)
  next
    case False
    have "log_frame kind payload = (LOG_FRAME_MAGIC @ [kind] @ be_bytes 4 (length payload)) @ payload"
      by (simp add: log_frame_def)
    then have "take w (log_frame kind payload) =
        (LOG_FRAME_MAGIC @ [kind] @ be_bytes 4 (length payload)) @ take (w - 9) payload"
      using False len by (metis not_less take_all take_append)
    moreover have "w - 9 < length payload" using assms(2) len False by (simp add: log_frame_def)
    ultimately show ?thesis
      using log_turn_header [of "length payload" kind "take (w - 9) payload"] assms(1)
      by (simp add: log_layout)
  qed
  then show ?thesis by (simp add: frames_loop_turn)
qed

definition carried :: "byte list \<Rightarrow> GuestLogFrame list" where
  "carried stream = (case frames_loop stream of Inl _ \<Rightarrow> [] | Inr (frames, _) \<Rightarrow> frames)"

definition sent_frames :: "guest_log_forwarder \<Rightarrow> GuestLogFrame list" where
  "sent_frames fw = concat (map carried (rev (fw_streams fw)))"

definition readable :: "byte list \<Rightarrow> bool" where
  "readable stream = (\<exists>frames rest. frames_loop stream = Inr (frames, rest))"

definition settled :: "byte list \<Rightarrow> bool" where
  "settled stream = (\<exists>frames. frames_loop stream = Inr (frames, []))"

definition forwarder_ok :: "guest_log_forwarder \<Rightarrow> bool" where
  "forwarder_ok fw =
     (list_all readable (fw_streams fw) \<and>
      (fw_connected fw \<longrightarrow> (\<exists>stream earlier. fw_streams fw = stream # earlier \<and> settled stream)))"

definition forwarder_inv :: "(TenantLogStream \<times> byte list) list \<Rightarrow> guest_log_forwarder \<Rightarrow> bool" where
  "forwarder_inv ps fw = (forwarder_ok fw \<and> accounts ps (sent_frames fw) (fw_dropped_bytes fw))"

lemmas forwarder_defs = forwarder_inv_def forwarder_ok_def sent_frames_def

lemma accounts_bound: "accounts ps frames d \<Longrightarrow> d \<le> printed_bytes ps"
  by (induction rule: accounts.induct) (auto simp: printed_bytes_def)

lemma settled_readable: "settled s \<Longrightarrow> readable s"
  by (auto simp: settled_def readable_def)

lemma stream_settled_frame:
  assumes "settled stream" and "length payload \<le> MAX_FRAME_PAYLOAD_BYTES"
    and "frameFrom kind payload = Inr frame"
  shows "settled (stream @ log_frame kind payload)"
    and "carried (stream @ log_frame kind payload) = carried stream @ [frame]"
  using assms frames_loop_frame [OF assms(2,3)]
  by (auto simp: settled_def carried_def log_frames.parse_more)

lemma stream_cut_frame:
  assumes "settled stream" and "length payload \<le> MAX_FRAME_PAYLOAD_BYTES"
    and "w < length (log_frame kind payload)"
  shows "readable (stream @ take w (log_frame kind payload))"
    and "carried (stream @ take w (log_frame kind payload)) = carried stream"
  using assms frames_loop_cut_frame [OF assms(2,3)]
  by (auto simp: settled_def readable_def carried_def log_frames.parse_more)

lemma forwarder_send:
  assumes inv: "forwarder_ok fw" "fw_connected fw"
    and small: "length payload \<le> MAX_FRAME_PAYLOAD_BYTES"
    and frame: "frameFrom kind payload = Inr frame"
    and send: "send_frame w kind payload fw = (ok, fw')"
  shows "fw_connected fw' \<and> fw_dropped_bytes fw' = fw_dropped_bytes fw \<and>
    (if ok then forwarder_ok fw' \<and> sent_frames fw' = sent_frames fw @ [frame]
     else forwarder_ok (disconnect fw') \<and> sent_frames fw' = sent_frames fw)"
proof -
  obtain stream earlier where s: "fw_streams fw = stream # earlier" "settled stream"
    using inv unfolding forwarder_ok_def by blast
  have ok: "ok = (length (log_frame kind payload) \<le> w)"
    and fw': "fw' = fw\<lparr>fw_streams := (stream @ take w (log_frame kind payload)) # earlier\<rparr>"
    using send s(1) small by (simp_all add: send_frame_def Let_def log_layout UINT32_MAX_def split: if_splits)
  show ?thesis
  proof (cases ok)
    case True
    then show ?thesis
      using inv s ok fw' stream_settled_frame [OF s(2) small frame]
      by (simp add: forwarder_defs settled_readable)
  next
    case False
    then show ?thesis
      using inv s ok fw' stream_cut_frame [OF s(2) small, of w kind]
      by (simp add: forwarder_defs disconnect_def)
  qed
qed

lemma sent_frames_disconnect [simp]:
  "sent_frames (disconnect fw) = sent_frames fw" "fw_dropped_bytes (disconnect fw) = fw_dropped_bytes fw"
  by (simp_all add: sent_frames_def disconnect_def)

lemma forwarder_inv_disconnect: "forwarder_inv ps fw \<Longrightarrow> forwarder_inv ps (disconnect fw)"
  by (simp add: forwarder_defs disconnect_def)

lemma forwarder_inv_ready:
  assumes "forwarder_inv ps fw" and "connection_ready connects fw = (ready, fw')"
  shows "forwarder_inv ps fw' \<and> ready = fw_connected fw'"
  using assms
  by (auto simp: connection_ready_def forwarder_defs carried_def readable_def settled_def
    split: if_splits)

lemma forwarder_inv_dropped:
  assumes "forwarder_inv ps fw" and "printed_bytes ps + length bytes \<le> UINT64_MAX"
  shows "forwarder_inv (ps @ [(stream, bytes)]) (add_dropped_bytes (length bytes) fw)"
proof -
  have acc: "accounts ps (sent_frames fw) (fw_dropped_bytes fw)" using assms(1) by (simp add: forwarder_inv_def)
  from accounts_bound [OF this] have "\<not> length bytes > UINT64_MAX - fw_dropped_bytes fw"
    using assms(2) by linarith
  then show ?thesis
    using assms(1) accounts.lost [OF acc, of stream bytes] by (simp add: forwarder_defs add_dropped_bytes_def)
qed

lemma frameFrom_gap:
  assumes "d \<le> MAX_SAFE_INTEGER"
  shows "frameFrom 3 (be_bytes GAP_PAYLOAD_BYTES d) = Inr (LogGap d)"
proof -
  have "d < 256 ^ 8" using assms by (simp add: MAX_SAFE_INTEGER_def)
  then show ?thesis
    using assms by (simp add: frameFrom_def log_layout be_value_be_bytes_id js_number_exact)
qed

lemma frameFrom_data:
  "frameFrom (if stream = Stdout then 1 else 2) bytes = Inr (LogData stream bytes)"
  by (cases stream) (simp_all add: frameFrom_def)

lemma forwarder_inv_gap:
  assumes "forwarder_inv ps fw" and "fw_connected fw" and "printed_bytes ps \<le> MAX_SAFE_INTEGER"
    and "0 < fw_dropped_bytes fw"
    and "send_frame w 3 (be_bytes GAP_PAYLOAD_BYTES (fw_dropped_bytes fw)) fw = (ok, fw')"
  shows "if ok then fw_connected fw' \<and> forwarder_inv ps (fw'\<lparr>fw_dropped_bytes := 0\<rparr>)
         else forwarder_inv ps (disconnect fw')"
proof -
  have inv: "forwarder_ok fw" "accounts ps (sent_frames fw) (fw_dropped_bytes fw)"
    using assms(1) by (simp_all add: forwarder_inv_def)
  have gap: "frameFrom 3 (be_bytes GAP_PAYLOAD_BYTES (fw_dropped_bytes fw)) = Inr (LogGap (fw_dropped_bytes fw))"
    using accounts_bound [OF inv(2)] assms(3) by (intro frameFrom_gap) simp
  show ?thesis
    using forwarder_send [OF inv(1) assms(2) _ gap assms(5)] inv(2) accounts.told [OF inv(2) assms(4)]
    by (auto simp: forwarder_inv_def log_layout) (auto simp: forwarder_ok_def sent_frames_def)
qed

lemma forwarder_inv_data:
  assumes "forwarder_inv ps fw" and "fw_connected fw" and "fw_dropped_bytes fw = 0"
    and small: "length bytes \<le> OUTPUT_CHUNK_BYTES"
    and bound: "printed_bytes ps + length bytes \<le> MAX_SAFE_INTEGER"
  shows "forwarder_inv (ps @ [(stream, bytes)])
      (case send_frame w (if stream = Stdout then 1 else 2) bytes fw of
         (True, fw) \<Rightarrow> fw | (False, fw) \<Rightarrow> add_dropped_bytes (length bytes) (disconnect fw))"
proof -
  obtain ok fw' where send: "send_frame w (if stream = Stdout then 1 else 2) bytes fw = (ok, fw')" by force
  have inv: "forwarder_ok fw" "accounts ps (sent_frames fw) 0"
    using assms(1,3) by (simp_all add: forwarder_inv_def)
  have sent: "fw_dropped_bytes fw' = 0"
    "if ok then forwarder_ok fw' \<and> sent_frames fw' = sent_frames fw @ [LogData stream bytes]
     else forwarder_ok (disconnect fw') \<and> sent_frames fw' = sent_frames fw"
    using forwarder_send [OF inv(1) assms(2) _ frameFrom_data send] small assms(3)
    by (simp_all add: log_layout OUTPUT_CHUNK_BYTES_def)
  show ?thesis
  proof (cases ok)
    case True
    then show ?thesis using sent send accounts.sent [OF inv(2)] by (simp add: forwarder_inv_def)
  next
    case False
    then have "forwarder_inv ps (disconnect fw')" using sent inv(2) by (simp add: forwarder_inv_def)
    then show ?thesis
      using False send bound forwarder_inv_dropped [of ps "disconnect fw'" bytes stream]
      by (simp add: MAX_SAFE_INTEGER_def UINT64_MAX_def)
  qed
qed

lemma forwarder_inv_forward:
  assumes inv: "forwarder_inv ps fw" and small: "length bytes \<le> OUTPUT_CHUNK_BYTES"
    and bound: "printed_bytes ps + length bytes \<le> MAX_SAFE_INTEGER"
  shows "forwarder_inv (ps @ [(stream, bytes)]) (forward_output ans stream bytes fw)"
proof -
  obtain ready fw1 where ready: "connection_ready (la_connects ans) fw = (ready, fw1)" by force
  have fw1: "forwarder_inv ps fw1" "ready = fw_connected fw1"
    using forwarder_inv_ready [OF inv ready] by auto
  have dropping: "forwarder_inv ps g \<Longrightarrow> forwarder_inv (ps @ [(stream, bytes)]) (add_dropped_bytes (length bytes) g)" for g
    using bound by (intro forwarder_inv_dropped) (simp_all add: MAX_SAFE_INTEGER_def UINT64_MAX_def)
  note data = forwarder_inv_data [OF _ _ _ small bound, of _ stream "la_data ans"]
  show ?thesis
  proof (cases ready)
    case True
    show ?thesis
    proof (cases "fw_dropped_bytes fw1 > 0")
      case gap: True
      obtain ok fw2 where send:
        "send_frame (la_gap ans) 3 (be_bytes GAP_PAYLOAD_BYTES (fw_dropped_bytes fw1)) fw1 = (ok, fw2)"
        by force
      have "if ok then fw_connected fw2 \<and> forwarder_inv ps (fw2\<lparr>fw_dropped_bytes := 0\<rparr>)
         else forwarder_inv ps (disconnect fw2)"
        using forwarder_inv_gap [OF fw1(1) _ _ gap send] fw1(2) True bound by simp
      then show ?thesis
        using ready True gap send data [of "fw2\<lparr>fw_dropped_bytes := 0\<rparr>"] dropping
        by (cases ok) (simp_all add: forward_output_def)
    qed (use ready True fw1 data in \<open>simp add: forward_output_def\<close>)
  qed (use ready fw1 dropping in \<open>simp add: forward_output_def\<close>)
qed

lemma forwarder_inv_service: "forwarder_inv ps fw \<Longrightarrow> forwarder_inv ps (service_connection gone connects fw)"
proof -
  assume "forwarder_inv ps fw"
  then have "forwarder_inv ps (if fw_connected fw \<and> gone then disconnect fw else fw)"
    by (simp add: forwarder_inv_disconnect)
  from forwarder_inv_ready [OF this prod.collapse [symmetric]] show ?thesis
    by (simp add: service_connection_def)
qed

lemma printed_bytes_append [simp]: "printed_bytes (ps @ qs) = printed_bytes ps + printed_bytes qs"
  by (simp add: printed_bytes_def)

lemma forwarder_inv_run:
  assumes "list_all log_event_ok es" and "printed_bytes (ps @ printed es) \<le> MAX_SAFE_INTEGER"
    and "forwarder_inv ps fw"
  shows "forwarder_inv (ps @ printed es) (log_event_run es fw)"
  using assms
proof (induction es arbitrary: ps fw)
  case (Cons e es)
  show ?case
  proof (cases e)
    case (Prints ans stream bytes)
    then have "forwarder_inv (ps @ [(stream, bytes)]) (forward_output ans stream bytes fw)"
      using Cons.prems
      by (intro forwarder_inv_forward) (auto simp: log_event_ok_def printed_def printed_bytes_def)
    then show ?thesis
      using Cons.IH [of "ps @ [(stream, bytes)]"] Cons.prems Prints
      by (simp add: log_event_run_def printed_def)
  next
    case (Serves gone connects)
    then show ?thesis
      using Cons.IH [OF _ _ forwarder_inv_service] Cons.prems
      by (simp add: log_event_run_def printed_def)
  qed
qed (simp add: log_event_run_def printed_def)

lemma forwarder_inv_from_boot:
  assumes "list_all log_event_ok es" and "printed_bytes (printed es) \<le> MAX_SAFE_INTEGER"
  shows "forwarder_inv (printed es) (log_event_run es (guest_logs_init connects))"
proof -
  have "forwarder_inv [] \<lparr>fw_connected = False, fw_dropped_bytes = 0, fw_streams = []\<rparr>"
    by (simp add: forwarder_defs accounts.nothing)
  then have "forwarder_inv [] (guest_logs_init connects)"
    unfolding guest_logs_init_def using forwarder_inv_ready [OF _ prod.collapse [symmetric]] by blast
  with forwarder_inv_run [OF assms(1), of "[]"] assms(2) show ?thesis by simp
qed

text \<open>What a host has read of a stream it could read is the front of its frames.\<close>

lemma readable_part:
  assumes "readable stream" and "prefix part stream"
  shows "\<exists>rest. frames_loop part = Inr (carried part, rest)" and "prefix (carried part) (carried stream)"
proof -
  obtain more where stream: "stream = part @ more" using assms(2) by (auto simp: prefix_def)
  obtain frames rest where part: "frames_loop part = Inr (frames, rest)"
    using assms(1) stream log_frames.parse_error [of part _ more] unfolding readable_def
    by (cases "frames_loop part") fastforce+
  then show "\<exists>rest. frames_loop part = Inr (carried part, rest)" by (simp add: carried_def)
  show "prefix (carried part) (carried stream)"
    using assms(1) part stream log_frames.parse_more [OF part, of more]
    by (auto simp: carried_def readable_def split: sum.splits)
qed

section \<open>Text\<close>

definition data_of :: "TenantLogStream \<Rightarrow> GuestLogFrame list \<Rightarrow> byte list" where
  "data_of stream frames =
     concat (map (\<lambda>f. case f of LogData s bytes \<Rightarrow> if s = stream then bytes else [] | LogGap _ \<Rightarrow> []) frames)"

definition text_in :: "TenantLogStream \<Rightarrow> LogEventBody list \<Rightarrow> byte list" where
  "text_in stream events =
     concat (map (\<lambda>e. case e of TextEvent s text \<Rightarrow> if s = stream then text else [] | GapEvent _ \<Rightarrow> []) events)"

definition gaps_of :: "GuestLogFrame list \<Rightarrow> nat list" where
  "gaps_of frames = concat (map (\<lambda>f. case f of LogGap n \<Rightarrow> [n] | LogData _ _ \<Rightarrow> []) frames)"

definition gaps_in :: "LogEventBody list \<Rightarrow> nat list" where
  "gaps_in events = concat (map (\<lambda>e. case e of GapEvent n \<Rightarrow> [n] | TextEvent _ _ \<Rightarrow> []) events)"

lemma events_append [simp]:
  "text_in stream (a @ b) = text_in stream a @ text_in stream b"
  "gaps_in (a @ b) = gaps_in a @ gaps_in b"
  by (simp_all add: text_in_def gaps_in_def)

text \<open>What a decoder is and has said after the bytes \<open>seen\<close>.\<close>

definition decoder_after :: "byte list \<Rightarrow> TextDecoder" where
  "decoder_after seen = (case utf8_scan seen of (ps, held) \<Rightarrow> \<lparr>td_held = held, td_started = ps \<noteq> []\<rparr>)"

definition text_after :: "byte list \<Rightarrow> byte list" where
  "text_after seen = render_pieces (without_bom (fst (utf8_scan seen)))"

lemma without_bom_append:
  "without_bom (ps @ qs) = (if ps = [] then without_bom qs else without_bom ps @ qs)"
  by (cases ps) (simp_all add: without_bom_def)

lemma without_bom_simps [simp]: "without_bom [] = []" "without_bom [Inl b] = [Inl b]"
  by (simp_all add: without_bom_def)

lemma decode_stream_after:
  "decode_stream bytes (decoder_after seen) = (decoded, d) \<Longrightarrow>
    text_after seen @ decoded = text_after (seen @ bytes) \<and> d = decoder_after (seen @ bytes)"
  by (cases "utf8_scan seen"; cases "utf8_scan (snd (utf8_scan seen) @ bytes)")
    (auto simp: decode_stream_def decoder_after_def text_after_def utf8_scan_more without_bom_append
      render_pieces_def)

lemma decode_end_after:
  "text_after seen @ decode_end (decoder_after seen) = render_pieces (without_bom (utf8_pieces seen))"
  by (cases "utf8_scan seen")
    (auto simp: decode_end_def decoder_after_def text_after_def utf8_pieces_def without_bom_append
      render_pieces_def)

lemma text_of_with_text [simp]:
  "text_of s (with_text stream d t) = (if s = stream then d else text_of s t)"
  by (cases s; cases stream) (simp_all add: text_of_def with_text_def)

lemma emitFrames_text:
  "emitFrames frames t = (events, t') \<Longrightarrow> text_of s t = decoder_after seen \<Longrightarrow>
    text_after seen @ text_in s events = text_after (seen @ data_of s frames) \<and>
    text_of s t' = decoder_after (seen @ data_of s frames)"
proof (induction frames t arbitrary: events seen rule: emitFrames.induct)
  case (3 stream bytes frames t)
  obtain decoded d where d: "decode_stream bytes (text_of stream t) = (decoded, d)" by force
  obtain later where later: "emitFrames frames (with_text stream d t) = (later, t')"
    and events: "events = (if decoded \<noteq> [] then [TextEvent stream decoded] else []) @ later"
    using 3(2) d by (cases "emitFrames frames (with_text stream d t)") auto
  show ?case
  proof (cases "s = stream")
    case True
    then show ?thesis
      using decode_stream_after [of bytes seen decoded d] d 3(3)
        "3.IH" [OF d [symmetric] later, of "seen @ bytes"] events
      by (auto simp: text_in_def data_of_def) (metis append_assoc)
  next
    case False
    then show ?thesis
      using "3.IH" [OF d [symmetric] later, of seen] 3(3) events
      by (auto simp: text_in_def data_of_def)
  qed
next
  case (2 n frames t)
  then show ?case by (cases "emitFrames frames t") (auto simp: text_in_def data_of_def)
qed (simp add: text_in_def data_of_def)

lemma emitFrames_gaps: "emitFrames frames t = (events, t') \<Longrightarrow> gaps_in events = gaps_of frames"
  by (induction frames t arbitrary: events rule: emitFrames.induct)
    (auto simp: gaps_in_def gaps_of_def apfst_def map_prod_def split: prod.splits)

lemma emitFrames_append:
  "emitFrames (fs @ gs) t =
    (case emitFrames fs t of (es, t) \<Rightarrow> apfst (append es) (emitFrames gs t))"
  by (induction fs t rule: emitFrames.induct) (auto simp: apfst_def map_prod_def split: prod.splits)

lemma pump_run_feed:
  "feed frames_loop buffered chunks = (frames, Inr rest) \<Longrightarrow>
    pump_run clean buffered t chunks =
      (case emitFrames frames t of (events, t) \<Rightarrow> (events @ (if clean then emit_remainders t else []), None))"
proof (induction chunks arbitrary: buffered t frames)
  case (Cons chunk chunks)
  then show ?case
    by (auto simp: decodeFrames_def emitFrames_append apfst_def map_prod_def
      split: sum.splits prod.splits)
qed simp

text \<open>The text of a stream's bytes: all of it once the connection has ended, and as far as it is certain
  while it has not.\<close>

definition log_text_of :: "bool \<Rightarrow> byte list \<Rightarrow> byte list" where
  "log_text_of clean bytes =
     (if clean then render_pieces (without_bom (utf8_pieces bytes)) else text_after bytes)"

lemma pump_run_text:
  assumes "frames_loop (concat chunks) = Inr (frames, rest)"
    and "pump_run clean [] new_log_text chunks = (events, outcome)"
  shows "outcome = None" and "gaps_in events = gaps_of frames"
    and "text_in stream events = log_text_of clean (data_of stream frames)"
proof -
  obtain es t where emitted: "emitFrames frames new_log_text = (es, t)" by force
  have events: "outcome = None" "events = es @ (if clean then emit_remainders t else [])"
    using assms pump_run_feed [of "[]" chunks frames rest clean new_log_text]
      log_frames.feed_is_parse(1) [of chunks] emitted by auto
  then show "outcome = None" by simp
  have start: "text_of s new_log_text = decoder_after []" for s
    by (cases s) (simp_all add: text_of_def decoder_after_def new_TextDecoder_def new_log_text_def)
  have after: "text_in s es = text_after (data_of s frames)" "text_of s t = decoder_after (data_of s frames)" for s
    using emitFrames_text [OF emitted start, of s]
    by (simp_all add: text_after_def render_pieces_def)
  have "text_in stream (emit_remainders t) = decode_end (text_of stream t)"
    by (cases stream) (simp_all add: emit_remainders_def text_in_def Let_def)
  then show "text_in stream events = log_text_of clean (data_of stream frames)"
    using events after [of stream] decode_end_after [of "data_of stream frames"]
    by (simp add: log_text_of_def text_in_def)
  have "gaps_in (emit_remainders t) = []"
    by (simp add: emit_remainders_def gaps_in_def Let_def)
  then show "gaps_in events = gaps_of frames"
    using events emitFrames_gaps [OF emitted] by (simp add: gaps_in_def)
qed

text \<open>A connection as the host has it: how many the guest has with it, whether it ended cleanly, and what
  arrived.\<close>

record log_connection =
  lc_count :: nat
  lc_clean :: bool
  lc_chunks :: "byte list list"


definition log_example :: "log_event list" where
  "log_example =
     [Prints \<lparr>la_connects = False, la_gap = 0, la_data = 0\<rparr> Stdout [104, 105],
      Prints \<lparr>la_connects = True, la_gap = 17, la_data = 12\<rparr> Stderr [111, 104, 33],
      Prints \<lparr>la_connects = False, la_gap = 0, la_data = 4\<rparr> Stdout [98],
      Serves True True]"

text \<open>The guest of the example: \<open>hi\<close> before it could connect, \<open>oh!\<close> after a gap of two bytes, and \<open>b\<close> on a
  connection that took a part of the frame only. The host reads the first connection in two pieces, and
  the second is one too many.\<close>

lemma log_example_run:
  "fw_dropped_bytes (log_event_run log_example (guest_logs_init False)) = 1"
  "fw_streams (log_event_run log_example (guest_logs_init False)) =
     [[], (log_frame 3 (be_bytes 8 2) @ log_frame 2 [111, 104, 33]) @ take 4 (log_frame 1 [98])]"
  by (simp_all add: log_example_def log_event_run_def guest_logs_init_def forward_output_def
      service_connection_def connection_ready_def send_frame_def add_dropped_bytes_def disconnect_def
      log_frame_def LOG_FRAME_MAGIC_def Let_def log_layout UINT32_MAX_def UINT64_MAX_def numeral_2_eq_2 [symmetric])

lemma log_example_carried:
  "settled (log_frame 3 (be_bytes 8 2) @ log_frame 2 [111, 104, 33])"
  "carried (log_frame 3 (be_bytes 8 2) @ log_frame 2 [111, 104, 33]) = [LogGap 2, LogData Stderr [111, 104, 33]]"
proof -
  have empty: "settled []" "carried [] = []" by (simp_all add: settled_def carried_def)
  have gap: "frameFrom 3 (be_bytes 8 2) = Inr (LogGap 2)"
    using frameFrom_gap [of 2] by (simp add: log_layout MAX_SAFE_INTEGER_def)
  note first = stream_settled_frame [OF empty(1) _ gap, simplified empty append_Nil]
  note second = stream_settled_frame [OF first(1), of "[111, 104, 33]" 2 "LogData Stderr [111, 104, 33]"]
  show "settled (log_frame 3 (be_bytes 8 2) @ log_frame 2 [111, 104, 33])"
    and "carried (log_frame 3 (be_bytes 8 2) @ log_frame 2 [111, 104, 33]) = [LogGap 2, LogData Stderr [111, 104, 33]]"
    using first second by (simp_all add: log_layout frameFrom_def)
qed


text \<open>
  C37. What the log says on a stream is the text of the bytes printed there, whatever the frames they were
  put in and the chunks those arrived in: a character is never cut by either, bytes that are no
  character are replaced once, and the gaps are the ones the guest reported, in order.
\<close>

theorem framing_does_not_change_the_text:
  assumes "frames_loop (concat chunks) = Inr (frames, rest)" and "pump chunks = (events, outcome)"
  shows "outcome = None \<and>
    text_in stream events = render_pieces (without_bom (utf8_pieces (data_of stream frames))) \<and>
    gaps_in events = gaps_of frames"
  using pump_run_text [OF assms(1), of True events outcome] assms(2)
  by (simp add: pump_def log_text_of_def)

theorem framing_does_not_change_the_text_witness:
  "let chunks = [take 11 (log_frame 1 [0xE2, 0x82]), drop 11 (log_frame 1 [0xE2, 0x82]) @ log_frame 1 [0xAC, 0xFF]] in
   text_in Stdout (fst (pump chunks)) = [0xE2, 0x82, 0xAC, 0xEF, 0xBF, 0xBD] \<and> snd (pump chunks) = None"
proof -
  let ?chunks = "[take 11 (log_frame 1 [0xE2, 0x82]), drop 11 (log_frame 1 [0xE2, 0x82]) @ log_frame 1 [0xAC, 0xFF]]"
  have chunks: "concat ?chunks = log_frame 1 [0xE2, 0x82] @ log_frame 1 [0xAC, 0xFF]"
    by (simp add: append_assoc [symmetric] del: append_assoc)
  have frame: "frames_loop (log_frame 1 [a, b]) = Inr ([LogData Stdout [a, b]], [])" for a b
    using frameFrom_data [of Stdout "[a, b]"] by (intro frames_loop_frame) (simp_all add: log_layout)
  have "frames_loop (concat ?chunks) =
      Inr ([LogData Stdout [0xE2, 0x82], LogData Stdout [0xAC, 0xFF]], [])"
    unfolding chunks log_frames.parse_more [OF frame] by (simp add: frame)
  from framing_does_not_change_the_text [OF this prod.collapse [symmetric], of Stdout]
  have "snd (pump ?chunks) = None \<and> text_in Stdout (fst (pump ?chunks)) =
      render_pieces (without_bom (utf8_pieces [0xE2, 0x82, 0xAC, 0xFF]))"
    by (simp add: data_of_def)
  moreover have "render_pieces (without_bom (utf8_pieces [0xE2, 0x82, 0xAC, 0xFF])) =
      [0xE2, 0x82, 0xAC, 0xEF, 0xBF, 0xBD]"
    by code_simp
  ultimately show ?thesis by simp
qed

text \<open>
  A guest cannot make the host hold more than one frame: whatever the chunks, what is kept for the next
  one is shorter than the largest frame, and a frame announced as larger ends the connection.
\<close>

theorem guest_cannot_fill_the_buffer:
  assumes "feed frames_loop [] chunks = (frames, Inr rest)"
  shows "length rest < LOG_FRAME_HEADER_BYTES + MAX_FRAME_PAYLOAD_BYTES"
proof -
  have "frames_loop (concat chunks) = Inr (frames, rest)"
    using assms log_frames.feed_is_parse(1) by blast
  then have "frames_loop rest = Inr ([], rest)" by (rule log_frames.parse_rest)
  then have "log_turn rest = Undecided"
    by (auto simp: frames_loop_turn [of rest] split: log_turn.splits sum.splits)
  then show ?thesis
    by (auto simp: log_turn_def Let_def log_layout split: if_splits sum.splits)
qed

theorem guest_cannot_fill_the_buffer_witness:
  "let rest = take 12 (log_frame 1 [1, 2, 3, 4]) in
   feed frames_loop [] [rest] = ([], Inr rest) \<and> length rest < 9 + 65536"
proof -
  have "feed frames_loop [] [take 12 (log_frame 1 [1, 2, 3, 4])] =
      ([], Inr (take 12 (log_frame 1 [1, 2, 3, 4])))"
    using frames_loop_cut_frame [of "[1, 2, 3, 4]" 12 1]
    by (simp add: log_layout log_frame_def LOG_FRAME_MAGIC_def)
  with guest_cannot_fill_the_buffer [OF this] show ?thesis by (simp add: Let_def log_layout)
qed

end
