(* ===== verification/Log_Queue.thy ===== *)
theory Log_Queue
  imports Guest_Logs Protocol
begin

text \<open>
  Tenant output on its way to the log store: \<open>services/tenant-log-queue.service.ts\<close>,
  \<open>lib/agent/logs.ts\<close>, \<open>lib/logs/event.ts\<close> and the \<open>emit\<close> of
  \<open>services/tenant-log-receiver.service.ts\<close> in \<open>apps/agent/src\<close>.

  The queue is two lists and a byte count. Publishing an event is two steps, because the count is
  claimed before the event is offered; taking, releasing and restoring a batch are the steps of the one
  loop that uploads. The run of all of them is \<open>log_step\<close>, and the abstract queue it implements
  is \<open>fifo_step\<close>: one list, appended at the back, delivered from the front.
\<close>

section \<open>Events\<close>

record TenantLogSource =
  ls_appId :: AppId
  ls_deploymentId :: DeploymentId

record TenantLogEvent =
  le_source :: TenantLogSource
  le_cronJobId :: "string option"
  le_cronRunId :: "string option"
  le_sourceId :: string
  le_sequence :: nat
  le_observedAt :: Timestamp
  le_body :: LogEventBody

datatype log_message = TextMessage "byte list" | GapMessage string

record TenantLogRecord =
  lr_time :: Timestamp
  lr_hostId :: HostId
  lr_SOURCE :: string
  lr_source :: TenantLogSource
  lr_sourceId :: string
  lr_sequence :: nat
  lr_cronJobId :: "string option"
  lr_cronRunId :: "string option"
  lr_msg :: log_message
  lr_stream :: TenantLogStream
  lr_droppedBytes :: "nat option"

definition GAP_MESSAGE :: string where
  "GAP_MESSAGE = ''tenant output dropped by host buffering''"

definition tenantLogRecord :: "TenantLogEvent \<Rightarrow> HostId \<Rightarrow> TenantLogRecord" where
  "tenantLogRecord event hostId =
     \<lparr>lr_time = le_observedAt event, lr_hostId = hostId, lr_SOURCE = ''tenant'',
      lr_source = le_source event, lr_sourceId = le_sourceId event, lr_sequence = le_sequence event,
      lr_cronJobId = le_cronJobId event, lr_cronRunId = le_cronRunId event,
      lr_msg = (case le_body event of GapEvent _ \<Rightarrow> GapMessage GAP_MESSAGE | TextEvent _ text \<Rightarrow> TextMessage text),
      lr_stream = (case le_body event of GapEvent _ \<Rightarrow> Stderr | TextEvent stream _ \<Rightarrow> stream),
      lr_droppedBytes = (case le_body event of GapEvent n \<Rightarrow> Some n | TextEvent _ _ \<Rightarrow> None)\<rparr>"

section \<open>The queue\<close>

definition MAX_BUFFERED_BYTES :: int where "MAX_BUFFERED_BYTES = 8388608"
definition MAX_BATCH_BYTES :: int where "MAX_BATCH_BYTES = 1048576"
definition OVERHEAD_BYTES_PER_EVENT :: int where "OVERHEAD_BYTES_PER_EVENT = 256"

text \<open>\<open>text.length\<close> counts UTF-16 units: one per character, two for one that takes four bytes.\<close>

definition utf16_length :: "byte list \<Rightarrow> nat" where
  "utf16_length text =
     length (filter (\<lambda>b. b < 0x80 \<or> 0xC0 \<le> b) text) + length (filter (\<lambda>b. 0xF0 \<le> b) text)"

definition log_sizeOf :: "TenantLogEvent \<Rightarrow> int" where
  "log_sizeOf event =
     (case le_body event of TextEvent _ text \<Rightarrow> int (utf16_length text) | GapEvent _ \<Rightarrow> 0)
       + OVERHEAD_BYTES_PER_EVENT"

definition totalBytes :: "TenantLogEvent list \<Rightarrow> int" where
  "totalBytes events = sum_list (map log_sizeOf events)"

record TenantLogQueue =
  lq_pending :: "TenantLogEvent list"
  lq_owed :: "TenantLogEvent list"
  lq_bufferedBytes :: int

definition empty_log_queue :: TenantLogQueue where
  "empty_log_queue = \<lparr>lq_pending = [], lq_owed = [], lq_bufferedBytes = 0\<rparr>"

definition publish_claim :: "TenantLogEvent \<Rightarrow> TenantLogQueue \<Rightarrow> bool \<times> TenantLogQueue" where
  "publish_claim event q =
     (let bytes = log_sizeOf event; held = lq_bufferedBytes q in
      if held + bytes > MAX_BUFFERED_BYTES then (False, q)
      else (True, q\<lparr>lq_bufferedBytes := held + bytes\<rparr>))"

definition publish_offer :: "TenantLogEvent \<Rightarrow> TenantLogQueue \<Rightarrow> TenantLogQueue" where
  "publish_offer event q = q\<lparr>lq_pending := lq_pending q @ [event]\<rparr>"

text \<open>The loop of \<open>take\<close>: the batch and what is left of the queued events.\<close>

fun take_batch :: "int \<Rightarrow> TenantLogEvent list \<Rightarrow> int \<Rightarrow> TenantLogEvent list \<Rightarrow>
    TenantLogEvent list \<times> TenantLogEvent list" where
  "take_batch maxBytes batch bytes [] = (batch, [])"
| "take_batch maxBytes batch bytes (event # queued) =
     (if batch \<noteq> [] \<and> bytes + log_sizeOf event > maxBytes then (batch, event # queued)
      else take_batch maxBytes (batch @ [event]) (bytes + log_sizeOf event) queued)"

definition log_take :: "int \<Rightarrow> TenantLogQueue \<Rightarrow> TenantLogEvent list \<times> TenantLogQueue" where
  "log_take maxBytes q =
     (case take_batch maxBytes [] 0 (lq_owed q @ lq_pending q) of
        (batch, rest) \<Rightarrow> (batch, q\<lparr>lq_owed := rest, lq_pending := []\<rparr>))"

definition log_release :: "TenantLogEvent list \<Rightarrow> TenantLogQueue \<Rightarrow> TenantLogQueue" where
  "log_release events q = q\<lparr>lq_bufferedBytes := lq_bufferedBytes q - totalBytes events\<rparr>"

definition log_restore :: "TenantLogEvent list \<Rightarrow> TenantLogQueue \<Rightarrow> TenantLogQueue" where
  "log_restore events q = q\<lparr>lq_owed := events @ lq_owed q\<rparr>"

definition log_isEmpty :: "TenantLogQueue \<Rightarrow> bool" where
  "log_isEmpty q = (length (lq_owed q) + length (lq_pending q) = 0)"

section \<open>The receiver's side\<close>

record Attachment =
  at_sourceId :: string
  at_source :: TenantLogSource
  at_sequence :: nat

text \<open>The event \<open>emit\<close> publishes, and the attachment after it: the number is spent whether or not the
  queue takes the event.\<close>

definition emit_event :: "Timestamp \<Rightarrow> LogEventBody \<Rightarrow> Attachment \<Rightarrow> TenantLogEvent \<times> Attachment" where
  "emit_event observedAt body att =
     (\<lparr>le_source = at_source att, le_cronJobId = None, le_cronRunId = None,
       le_sourceId = at_sourceId att, le_sequence = at_sequence att, le_observedAt = observedAt,
       le_body = body\<rparr>,
      att\<lparr>at_sequence := at_sequence att + 1\<rparr>)"

section \<open>The upload\<close>

text \<open>One turn of \<open>sendBatch\<close> without anything in between: \<open>stored\<close> is what the store answered.\<close>

definition sendBatch :: "bool \<Rightarrow> TenantLogQueue \<Rightarrow> TenantLogEvent list \<times> TenantLogQueue" where
  "sendBatch stored q =
     (if log_isEmpty q then ([], q)
      else case log_take MAX_BATCH_BYTES q of (batch, q) \<Rightarrow>
        if stored then (batch, log_release batch q) else ([], log_restore batch q))"

record log_run =
  lo_queue :: TenantLogQueue
  lo_claimed :: "TenantLogEvent list"
  lo_batch :: "TenantLogEvent list option"
  lo_offered :: "TenantLogEvent list"
  lo_stored :: "TenantLogEvent list"

definition log_start :: log_run where
  "log_start = \<lparr>lo_queue = empty_log_queue, lo_claimed = [], lo_batch = None, lo_offered = [], lo_stored = []\<rparr>"

text \<open>
  What a step shows to the outside: what \<open>publish\<close> answered for an event and when the event was
  offered, the batch a turn of the loop took, and how its upload ended.
\<close>

datatype log_label =
    Turned_away TenantLogEvent
  | Claimed TenantLogEvent
  | Offered TenantLogEvent
  | Taken "TenantLogEvent list"
  | Stored "TenantLogEvent list"
  | Failed "TenantLogEvent list"

inductive log_step :: "log_label \<Rightarrow> log_run \<Rightarrow> log_run \<Rightarrow> bool" where
  refused: "publish_claim e (lo_queue r) = (False, q) \<Longrightarrow> log_step (Turned_away e) r (r\<lparr>lo_queue := q\<rparr>)"
| claimed: "publish_claim e (lo_queue r) = (True, q) \<Longrightarrow>
    log_step (Claimed e) r (r\<lparr>lo_queue := q, lo_claimed := lo_claimed r @ [e]\<rparr>)"
| offered: "lo_claimed r = before @ e # behind \<Longrightarrow>
    log_step (Offered e) r (r\<lparr>lo_queue := publish_offer e (lo_queue r), lo_claimed := before @ behind,
      lo_offered := lo_offered r @ [e]\<rparr>)"
| taken: "lo_batch r = None \<Longrightarrow> \<not> log_isEmpty (lo_queue r) \<Longrightarrow>
    log_take MAX_BATCH_BYTES (lo_queue r) = (batch, q) \<Longrightarrow>
    log_step (Taken batch) r (r\<lparr>lo_queue := q, lo_batch := Some batch\<rparr>)"
| stored: "lo_batch r = Some batch \<Longrightarrow>
    log_step (Stored batch) r (r\<lparr>lo_queue := log_release batch (lo_queue r), lo_batch := None,
      lo_stored := lo_stored r @ batch\<rparr>)"
| failed: "lo_batch r = Some batch \<Longrightarrow>
    log_step (Failed batch) r (r\<lparr>lo_queue := log_restore batch (lo_queue r), lo_batch := None\<rparr>)"

inductive log_reachable :: "log_run \<Rightarrow> bool" where
  init: "log_reachable log_start"
| step: "log_reachable r \<Longrightarrow> log_step l r s \<Longrightarrow> log_reachable s"

section \<open>The abstract queue\<close>

text \<open>
  The queue a reader has in mind: one list of what waits, of which a batch being uploaded is the front
  and stays the front until the store has answered, and the events that were promised a place and have
  not come yet. There is no byte count: what fits is decided by what is there.
\<close>

record fifo =
  ff_stored :: "TenantLogEvent list"
  ff_waiting :: "TenantLogEvent list"
  ff_flight :: "TenantLogEvent list option"
  ff_promised :: "TenantLogEvent list"

definition log_abs :: "log_run \<Rightarrow> fifo" where
  "log_abs r =
     \<lparr>ff_stored = lo_stored r,
      ff_waiting = (case lo_batch r of None \<Rightarrow> [] | Some batch \<Rightarrow> batch) @
        lq_owed (lo_queue r) @ lq_pending (lo_queue r),
      ff_flight = lo_batch r,
      ff_promised = lo_claimed r\<rparr>"

definition fifo_fits :: "TenantLogEvent \<Rightarrow> fifo \<Rightarrow> bool" where
  "fifo_fits e x = (totalBytes (ff_promised x @ ff_waiting x) + log_sizeOf e \<le> MAX_BUFFERED_BYTES)"

text \<open>A batch: the longest run from the front within the limit, and never nothing.\<close>

definition fifo_batch :: "TenantLogEvent list \<Rightarrow> TenantLogEvent list \<Rightarrow> bool" where
  "fifo_batch batch later =
     (batch \<noteq> [] \<and> (totalBytes batch \<le> MAX_BATCH_BYTES \<or> length batch = 1) \<and>
      (case later of [] \<Rightarrow> True | e # _ \<Rightarrow> totalBytes batch + log_sizeOf e > MAX_BATCH_BYTES))"

inductive fifo_step :: "log_label \<Rightarrow> fifo \<Rightarrow> fifo \<Rightarrow> bool" where
  refuses: "\<not> fifo_fits e x \<Longrightarrow> fifo_step (Turned_away e) x x"
| promises: "fifo_fits e x \<Longrightarrow> fifo_step (Claimed e) x (x\<lparr>ff_promised := ff_promised x @ [e]\<rparr>)"
| appends: "ff_promised x = before @ e # behind \<Longrightarrow>
    fifo_step (Offered e) x (x\<lparr>ff_promised := before @ behind, ff_waiting := ff_waiting x @ [e]\<rparr>)"
| takes: "ff_flight x = None \<Longrightarrow> ff_waiting x = batch @ later \<Longrightarrow> fifo_batch batch later \<Longrightarrow>
    fifo_step (Taken batch) x (x\<lparr>ff_flight := Some batch\<rparr>)"
| delivers: "ff_flight x = Some batch \<Longrightarrow> ff_waiting x = batch @ later \<Longrightarrow>
    fifo_step (Stored batch) x (x\<lparr>ff_stored := ff_stored x @ batch, ff_waiting := later, ff_flight := None\<rparr>)"
| fails: "ff_flight x = Some batch \<Longrightarrow> fifo_step (Failed batch) x (x\<lparr>ff_flight := None\<rparr>)"

definition log_held :: "log_run \<Rightarrow> TenantLogEvent list" where
  "log_held r = lo_claimed r @ ff_waiting (log_abs r)"

definition log_run_inv :: "log_run \<Rightarrow> bool" where
  "log_run_inv r =
     (ff_stored (log_abs r) @ ff_waiting (log_abs r) = lo_offered r \<and>
      lq_bufferedBytes (lo_queue r) = totalBytes (log_held r) \<and>
      lq_bufferedBytes (lo_queue r) \<le> MAX_BUFFERED_BYTES)"

lemma log_sizeOf_pos: "0 < log_sizeOf e"
  by (simp add: log_sizeOf_def OVERHEAD_BYTES_PER_EVENT_def split: LogEventBody.splits)

lemma totalBytes_simps [simp]:
  "totalBytes [] = 0"
  "totalBytes (e # es) = log_sizeOf e + totalBytes es"
  "totalBytes (es @ fs) = totalBytes es + totalBytes fs"
  by (simp_all add: totalBytes_def)

lemma totalBytes_nonneg: "0 \<le> totalBytes es"
proof (induction es)
  case (Cons e es)
  then show ?case using log_sizeOf_pos [of e] by simp
qed simp

lemma take_batch_append:
  "take_batch maxBytes batch bytes queued = (taken, rest) \<Longrightarrow> taken @ rest = batch @ queued"
  by (induction maxBytes batch bytes queued rule: take_batch.induct) (auto split: if_splits)

lemma take_batch_prefix:
  "take_batch maxBytes batch bytes queued = (taken, rest) \<Longrightarrow> \<exists>more. taken = batch @ more"
  by (induction maxBytes batch bytes queued rule: take_batch.induct) (auto split: if_splits)

lemma log_take_spec:
  assumes "log_take maxBytes q = (batch, q')"
  shows "batch @ lq_owed q' @ lq_pending q' = lq_owed q @ lq_pending q"
    and "lq_bufferedBytes q' = lq_bufferedBytes q"
    and "lq_pending q' = []"
    and "lq_owed q @ lq_pending q \<noteq> [] \<Longrightarrow> batch \<noteq> []"
proof -
  obtain rest where rest: "take_batch maxBytes [] 0 (lq_owed q @ lq_pending q) = (batch, rest)"
    and q': "q' = q\<lparr>lq_owed := rest, lq_pending := []\<rparr>"
    using assms by (auto simp: log_take_def split: prod.splits)
  show "batch @ lq_owed q' @ lq_pending q' = lq_owed q @ lq_pending q"
    and "lq_bufferedBytes q' = lq_bufferedBytes q" and "lq_pending q' = []"
    using take_batch_append [OF rest] q' by simp_all
  show "batch \<noteq> []" if "lq_owed q @ lq_pending q \<noteq> []"
  proof (cases "lq_owed q @ lq_pending q")
    case (Cons e es)
    then have "take_batch maxBytes [e] (log_sizeOf e) es = (batch, rest)" using rest by simp
    then show ?thesis using take_batch_prefix [of maxBytes "[e]" "log_sizeOf e" es batch rest] by auto
  qed (use that in simp)
qed

lemma take_batch_size:
  assumes "take_batch maxBytes batch (totalBytes batch) queued = (taken, rest)"
    and "totalBytes batch \<le> maxBytes \<or> length batch \<le> 1"
  shows "(totalBytes taken \<le> maxBytes \<or> length taken \<le> 1) \<and>
    (case rest of [] \<Rightarrow> True | e # _ \<Rightarrow> totalBytes taken + log_sizeOf e > maxBytes)"
  using assms
proof (induction queued arbitrary: batch)
  case (Cons event queued)
  show ?case
  proof (cases "batch \<noteq> [] \<and> totalBytes batch + log_sizeOf event > maxBytes")
    case False
    then have "take_batch maxBytes (batch @ [event]) (totalBytes (batch @ [event])) queued = (taken, rest)"
      using Cons.prems(1) by (simp only: take_batch.simps if_False totalBytes_simps) simp
    moreover have "totalBytes (batch @ [event]) \<le> maxBytes \<or> length (batch @ [event]) \<le> 1"
      using False by auto
    ultimately show ?thesis by (rule Cons.IH)
  qed (use Cons.prems in auto)
qed simp

lemma log_take_batch:
  assumes "log_take MAX_BATCH_BYTES q = (batch, q')" and "\<not> log_isEmpty q"
  shows "fifo_batch batch (lq_owed q' @ lq_pending q')"
proof -
  obtain rest where rest: "take_batch MAX_BATCH_BYTES [] 0 (lq_owed q @ lq_pending q) = (batch, rest)"
    and q': "q' = q\<lparr>lq_owed := rest, lq_pending := []\<rparr>"
    using assms(1) by (auto simp: log_take_def split: prod.splits)
  have "batch \<noteq> []" using assms(2) log_take_spec(4) [OF assms(1)] by (auto simp: log_isEmpty_def)
  then show ?thesis
    using take_batch_size [of MAX_BATCH_BYTES "[]" _ batch rest] rest q'
    by (auto simp: fifo_batch_def MAX_BATCH_BYTES_def le_Suc_eq split: list.splits)
qed

lemmas log_queue_ops = publish_offer_def log_release_def log_restore_def log_abs_def log_held_def

inductive_cases log_stepE: "log_step l r s"

lemma publish_claim_cases:
  assumes "publish_claim e q = (ok, q')"
  shows "lq_owed q' = lq_owed q" and "lq_pending q' = lq_pending q"
    and "ok \<Longrightarrow> lq_bufferedBytes q' = lq_bufferedBytes q + log_sizeOf e \<and>
      lq_bufferedBytes q' \<le> MAX_BUFFERED_BYTES"
    and "\<not> ok \<Longrightarrow> q' = q"
  using assms by (auto simp: publish_claim_def Let_def split: if_splits)

lemma log_run_inv_step:
  assumes "log_step l r s" and "log_run_inv r"
  shows "log_run_inv s"
  using assms(1)
proof (cases rule: log_step.cases)
  case (refused e q)
  then show ?thesis
    using assms(2) publish_claim_cases(4) [of e "lo_queue r" False q] by (simp add: log_run_inv_def log_queue_ops)
next
  case (claimed e q)
  then show ?thesis
    using assms(2) publish_claim_cases(1-3) [of e "lo_queue r" True q] by (simp add: log_run_inv_def log_queue_ops)
next
  case (offered before e behind)
  then show ?thesis using assms(2) by (simp add: log_run_inv_def log_queue_ops)
next
  case (taken batch q)
  have "totalBytes batch + totalBytes (lq_owed q) + totalBytes (lq_pending q) =
      totalBytes (lq_owed (lo_queue r)) + totalBytes (lq_pending (lo_queue r))"
    using arg_cong [OF log_take_spec(1) [OF taken(5)], of totalBytes] by simp
  then show ?thesis
    using taken(2,3) assms(2) log_take_spec(1,2) [OF taken(5)]
    by (simp add: log_run_inv_def log_queue_ops)
next
  case (stored batch)
  then show ?thesis
    using assms(2) totalBytes_nonneg [of batch] by (simp add: log_run_inv_def log_queue_ops)
next
  case (failed batch)
  then show ?thesis using assms(2) by (simp add: log_run_inv_def log_queue_ops)
qed

lemma log_run_inv_reachable: "log_reachable r \<Longrightarrow> log_run_inv r"
proof (induction rule: log_reachable.induct)
  case init
  show ?case
    by (simp add: log_run_inv_def log_queue_ops log_start_def empty_log_queue_def MAX_BUFFERED_BYTES_def)
qed (rule log_run_inv_step)

text \<open>
  C38. The queue with its byte count, its two lists, its batch in flight and its failures is a plain
  bounded queue, step by step and under the same label. An event is refused just when it does not fit
  beside everything promised or waiting, and accepted just when it does; an event that is offered goes to
  the back; a turn takes the longest run from the front that fits a batch, at least one event; an
  acknowledged batch leaves the front and is stored, and a failed one is at the front as it was. So output
  is stored in the order it was offered, and no failure loses or repeats an event that was not
  acknowledged.
\<close>

theorem queue_refines_fifo:
  assumes "log_reachable r" and "log_step l r s"
  shows "fifo_step l (log_abs r) (log_abs s)"
proof -
  have held: "lq_bufferedBytes (lo_queue r) = totalBytes (lo_claimed r @ ff_waiting (log_abs r))"
    using log_run_inv_reachable [OF assms(1)] by (simp add: log_run_inv_def log_held_def)
  have fits: "fifo_fits e (log_abs r) \<longleftrightarrow> fst (publish_claim e (lo_queue r))" for e
    using held by (auto simp: fifo_fits_def publish_claim_def log_abs_def Let_def)
  show ?thesis
    using assms(2)
  proof (cases rule: log_step.cases)
    case (refused e q)
    then have "log_abs s = log_abs r"
      using publish_claim_cases(4) [of e "lo_queue r" False q] by (simp add: log_abs_def)
    then show ?thesis using refused fits [of e] by (simp add: fifo_step.refuses)
  next
    case (claimed e q)
    then have "log_abs s = (log_abs r)\<lparr>ff_promised := ff_promised (log_abs r) @ [e]\<rparr>"
      using publish_claim_cases(1,2) [of e "lo_queue r" True q] by (simp add: log_abs_def)
    then show ?thesis using claimed fits [of e] by (simp add: fifo_step.promises)
  next
    case (offered before e behind)
    then have "log_abs s =
        (log_abs r)\<lparr>ff_promised := before @ behind, ff_waiting := ff_waiting (log_abs r) @ [e]\<rparr>"
      and "ff_promised (log_abs r) = before @ e # behind"
      by (simp_all add: log_queue_ops)
    then show ?thesis using offered(1) by (simp add: fifo_step.appends)
  next
    case (taken batch q)
    have "log_abs s = (log_abs r)\<lparr>ff_flight := Some batch\<rparr>"
      and "ff_waiting (log_abs r) = batch @ lq_owed q @ lq_pending q"
      using taken log_take_spec(1) [OF taken(5)] by (simp_all add: log_abs_def)
    moreover have "ff_flight (log_abs r) = None" using taken(3) by (simp add: log_abs_def)
    ultimately show ?thesis
      using taken(1) fifo_step.takes [OF _ _ log_take_batch [OF taken(5,4)], of "log_abs r"] by simp
  next
    case (stored batch)
    let ?later = "lq_owed (lo_queue r) @ lq_pending (lo_queue r)"
    have "log_abs s = (log_abs r)
        \<lparr>ff_stored := ff_stored (log_abs r) @ batch, ff_waiting := ?later, ff_flight := None\<rparr>"
      and "ff_waiting (log_abs r) = batch @ ?later" and "ff_flight (log_abs r) = Some batch"
      using stored by (simp_all add: log_queue_ops)
    then show ?thesis using stored(1) by (simp add: fifo_step.delivers)
  next
    case (failed batch)
    then have "log_abs s = (log_abs r)\<lparr>ff_flight := None\<rparr>" and "ff_flight (log_abs r) = Some batch"
      by (simp_all add: log_queue_ops)
    then show ?thesis using failed(1) by (simp add: fifo_step.fails)
  qed
qed

text \<open>
  Under every interleaving of publishers, uploads and failures the byte count is exactly what is held
  (claimed, queued, owed or in flight), it never exceeds the budget, and nothing that was offered is
  missing: what is stored followed by what waits is what was offered, in that order.
\<close>

theorem buffer_within_budget:
  assumes "log_reachable r"
  shows "lq_bufferedBytes (lo_queue r) = totalBytes (log_held r) \<and>
    totalBytes (log_held r) \<le> MAX_BUFFERED_BYTES \<and>
    lo_stored r @ ff_waiting (log_abs r) = lo_offered r"
  using log_run_inv_reachable [OF assms] by (simp add: log_run_inv_def log_abs_def)

fun drain :: "nat \<Rightarrow> TenantLogQueue \<Rightarrow> TenantLogEvent list \<times> TenantLogQueue" where
  "drain 0 q = ([], q)"
| "drain (Suc n) q = (case sendBatch True q of (batch, q) \<Rightarrow> apfst (append batch) (drain n q))"

lemma sendBatch_stored:
  assumes "sendBatch True q = (batch, q')"
  shows "batch @ lq_owed q' @ lq_pending q' = lq_owed q @ lq_pending q"
    and "lq_bufferedBytes q' = lq_bufferedBytes q - totalBytes batch"
    and "lq_owed q @ lq_pending q \<noteq> [] \<Longrightarrow> batch \<noteq> []"
proof -
  obtain b p where taken: "log_take MAX_BATCH_BYTES q = (b, p)" by force
  note spec = log_take_spec [OF taken]
  show "batch @ lq_owed q' @ lq_pending q' = lq_owed q @ lq_pending q"
    and "lq_bufferedBytes q' = lq_bufferedBytes q - totalBytes batch"
    and "lq_owed q @ lq_pending q \<noteq> [] \<Longrightarrow> batch \<noteq> []"
    using assms taken spec by (auto simp: sendBatch_def log_isEmpty_def log_release_def split: if_splits)
qed

lemma drain_all:
  "length (lq_owed q @ lq_pending q) \<le> n \<Longrightarrow> drain n q = (batch, q') \<Longrightarrow>
    batch = lq_owed q @ lq_pending q \<and> lq_owed q' @ lq_pending q' = [] \<and>
    lq_bufferedBytes q' = lq_bufferedBytes q - totalBytes batch"
proof (induction n arbitrary: q batch)
  case (Suc n)
  obtain b p where sent: "sendBatch True q = (b, p)" by force
  obtain c where later: "drain n p = (c, q')" "batch = b @ c"
    using Suc.prems(2) sent by (cases "drain n p") auto
  have queued: "b @ lq_owed p @ lq_pending p = lq_owed q @ lq_pending q"
    by (rule sendBatch_stored(1) [OF sent])
  have "length (lq_owed p @ lq_pending p) \<le> n"
    using Suc.prems(1) sendBatch_stored(3) [OF sent] arg_cong [OF queued, of length]
    by (cases "lq_owed q @ lq_pending q = []"; cases b) auto
  moreover have "totalBytes b + (totalBytes (lq_owed p) + totalBytes (lq_pending p)) =
      totalBytes (lq_owed q) + totalBytes (lq_pending q)"
    using arg_cong [OF queued, of totalBytes] by simp
  ultimately show ?case
    using Suc.IH [OF _ later(1)] later(2) queued sendBatch_stored(2) [OF sent] by auto
qed simp

text \<open>
  A store that answers drains the queue: as many turns as there are events are enough to store all of
  them, in order, and to give back the whole budget.
\<close>

theorem answering_store_drains:
  assumes "length (lq_owed q) + length (lq_pending q) \<le> n" and "drain n q = (stored, q')"
    and "lq_bufferedBytes q = totalBytes (lq_owed q @ lq_pending q)"
  shows "stored = lq_owed q @ lq_pending q \<and> log_isEmpty q' \<and> lq_bufferedBytes q' = 0"
  using drain_all [OF _ assms(2)] assms(1,3) by (simp add: log_isEmpty_def)

section \<open>Examples\<close>

definition log_example_event :: "nat \<Rightarrow> TenantLogEvent" where
  "log_example_event n =
     fst (emit_event 0 (TextEvent Stdout [104])
       \<lparr>at_sourceId = ''s'', at_source = \<lparr>ls_appId = ''a'', ls_deploymentId = ''d''\<rparr>, at_sequence = n\<rparr>)"

lemma log_example_size: "log_sizeOf (log_example_event n) = 257"
  by (simp add: log_example_event_def log_sizeOf_def emit_event_def utf16_length_def OVERHEAD_BYTES_PER_EVENT_def)

definition log_example_claimed :: log_run where
  "log_example_claimed =
     log_start\<lparr>lo_queue := empty_log_queue\<lparr>lq_bufferedBytes := 257\<rparr>, lo_claimed := [log_example_event 0]\<rparr>"

definition log_example_offered :: log_run where
  "log_example_offered =
     log_start\<lparr>lo_queue := empty_log_queue\<lparr>lq_bufferedBytes := 257, lq_pending := [log_example_event 0]\<rparr>,
       lo_offered := [log_example_event 0]\<rparr>"

definition log_example_taken :: log_run where
  "log_example_taken =
     log_start\<lparr>lo_queue := empty_log_queue\<lparr>lq_bufferedBytes := 257\<rparr>, lo_batch := Some [log_example_event 0],
       lo_offered := [log_example_event 0]\<rparr>"

definition log_example_stored :: log_run where
  "log_example_stored = log_start\<lparr>lo_offered := [log_example_event 0], lo_stored := [log_example_event 0]\<rparr>"

lemmas log_example_defs =
  log_example_claimed_def log_example_offered_def log_example_taken_def log_example_stored_def
  log_start_def empty_log_queue_def

lemma log_example_steps:
  "log_step (Claimed (log_example_event 0)) log_start log_example_claimed"
  "log_step (Offered (log_example_event 0)) log_example_claimed log_example_offered"
  "log_step (Taken [log_example_event 0]) log_example_offered log_example_taken"
  "log_step (Stored [log_example_event 0]) log_example_taken log_example_stored"
proof -
  have "publish_claim (log_example_event 0) (lo_queue log_start) =
      (True, empty_log_queue\<lparr>lq_bufferedBytes := 257\<rparr>)"
    by (simp add: publish_claim_def log_example_size log_start_def empty_log_queue_def MAX_BUFFERED_BYTES_def)
  from log_step.claimed [OF this]
  show "log_step (Claimed (log_example_event 0)) log_start log_example_claimed"
    by (simp add: log_example_claimed_def log_start_def)
  have "lo_claimed log_example_claimed = [] @ log_example_event 0 # []"
    by (simp add: log_example_claimed_def)
  from log_step.offered [OF this]
  show "log_step (Offered (log_example_event 0)) log_example_claimed log_example_offered"
    by (simp add: log_example_claimed_def log_example_offered_def publish_offer_def log_start_def empty_log_queue_def)
  have "log_take MAX_BATCH_BYTES (lo_queue log_example_offered) =
      ([log_example_event 0], empty_log_queue\<lparr>lq_bufferedBytes := 257\<rparr>)"
    by (simp add: log_take_def log_example_defs)
  from log_step.taken [OF _ _ this]
  show "log_step (Taken [log_example_event 0]) log_example_offered log_example_taken"
    by (simp add: log_example_defs log_isEmpty_def)
  have "lo_batch log_example_taken = Some [log_example_event 0]" by (simp add: log_example_taken_def)
  from log_step.stored [OF this]
  show "log_step (Stored [log_example_event 0]) log_example_taken log_example_stored"
    by (simp add: log_example_defs log_release_def log_example_size)
qed

lemma log_example_reachable: "log_reachable log_example_offered" "log_reachable log_example_taken"
  using log_reachable.init log_example_steps log_reachable.step by blast+

theorem queue_refines_fifo_witness:
  "fifo_step (Taken [log_example_event 0]) (log_abs log_example_offered) (log_abs log_example_taken) \<and>
   fifo_step (Stored [log_example_event 0]) (log_abs log_example_taken) (log_abs log_example_stored) \<and>
   ff_waiting (log_abs log_example_taken) = [log_example_event 0] \<and>
   ff_waiting (log_abs log_example_stored) = [] \<and> ff_stored (log_abs log_example_stored) = [log_example_event 0]"
  using queue_refines_fifo [OF log_example_reachable(1) log_example_steps(3)]
    queue_refines_fifo [OF log_example_reachable(2) log_example_steps(4)]
  by (simp add: log_abs_def log_example_defs)

theorem buffer_within_budget_witness:
  "lq_bufferedBytes (lo_queue log_example_offered) = totalBytes (log_held log_example_offered) \<and>
   lo_stored log_example_offered @ ff_waiting (log_abs log_example_offered) = [log_example_event 0]"
  using buffer_within_budget [OF log_example_reachable(1)] by (simp add: log_example_offered_def)

theorem answering_store_drains_witness:
  "fst (drain 2 \<lparr>lq_pending = [log_example_event 1], lq_owed = [log_example_event 0], lq_bufferedBytes = 514\<rparr>) =
     [log_example_event 0, log_example_event 1]"
  using answering_store_drains [OF _ prod.collapse [symmetric],
    of "\<lparr>lq_pending = [log_example_event 1], lq_owed = [log_example_event 0], lq_bufferedBytes = 514\<rparr>" 2]
  by (simp add: log_example_size)

end
