(* ===== verification/Guest_Filesystem.thy ===== *)
theory Guest_Filesystem
  imports Bytes Protocol
begin

text \<open>
  Reaching a tenant's files: \<open>apps/agent/src/lib/filesystem/protocol.ts\<close> and the exchange of
  \<open>apps/agent/src/lib/filesystem/client.ts\<close> on the host, and the parsing and framing of
  \<open>apps/runtime/src/guest-filesystem.c\<close> in the guest. What the guest's kernel answers (the entries of a
  directory and their \<open>stat\<close>) is data.

  The host writes with checked widths (\<open>None\<close> is a thrown \<open>RangeError\<close>), the guest reads with 64-bit
  words; both sides are modelled, so the round trips below are between the two programs.
\<close>

unbundle bit_operations_syntax

section \<open>Requests\<close>

definition FS_MAGIC :: "byte list" where "FS_MAGIC = [0x4E, 0x42, 0x46, 0x31]"
definition FS_HEADER_BYTES :: nat where "FS_HEADER_BYTES = 9"
definition BODY_MAX_BYTES :: nat where "BODY_MAX_BYTES = 65536"
definition GUEST_FILESYSTEM_CHUNK_BYTES :: int where "GUEST_FILESYSTEM_CHUNK_BYTES = 32768"

datatype GuestFilesystemRequest =
    FsList "byte list"
  | FsStat "byte list"
  | FsRead "byte list" int int
  | FsWrite "byte list" int "byte list" bool
  | FsMakeDirectory "byte list"
  | FsRemove "byte list"
  | FsMove "byte list" "byte list"
  | FsUsage
  | FsCompute

definition VERBS :: "GuestFilesystemRequest \<Rightarrow> byte" where
  "VERBS request =
     (case request of FsList _ \<Rightarrow> 1 | FsStat _ \<Rightarrow> 2 | FsRead _ _ _ \<Rightarrow> 3 | FsWrite _ _ _ _ \<Rightarrow> 4
      | FsMakeDirectory _ \<Rightarrow> 5 | FsRemove _ \<Rightarrow> 6 | FsMove _ _ \<Rightarrow> 7 | FsUsage \<Rightarrow> 8 | FsCompute \<Rightarrow> 9)"

definition TRUNCATE :: byte where "TRUNCATE = 1"
definition NO_FLAGS :: byte where "NO_FLAGS = 0"

definition field :: "byte list \<Rightarrow> byte list option" where
  "field bytes = map_option (\<lambda>l. l @ bytes) (writeUInt32BE (int (length bytes)))"

definition offsetOf :: "int \<Rightarrow> byte list option" where
  "offsetOf value = writeBigUInt64BE value"

definition lengthOf :: "int \<Rightarrow> byte list option" where
  "lengthOf value = writeUInt32BE value"

definition bodyOf :: "GuestFilesystemRequest \<Rightarrow> byte list option" where
  "bodyOf request =
     (case request of
        FsUsage \<Rightarrow> Some []
      | FsCompute \<Rightarrow> Some []
      | FsRead path from len \<Rightarrow>
          Option.bind (field path) (\<lambda>p. Option.bind (offsetOf from) (\<lambda>off.
            map_option (\<lambda>l. p @ off @ l) (lengthOf len)))
      | FsWrite path from content cutting \<Rightarrow>
          Option.bind (field path) (\<lambda>p. Option.bind (offsetOf from) (\<lambda>off.
            map_option (\<lambda>c. p @ off @ [if cutting then TRUNCATE else NO_FLAGS] @ c) (field content)))
      | FsMove path destination \<Rightarrow>
          Option.bind (field path) (\<lambda>p. map_option (\<lambda>d. p @ d) (field destination))
      | FsList path \<Rightarrow> field path
      | FsStat path \<Rightarrow> field path
      | FsMakeDirectory path \<Rightarrow> field path
      | FsRemove path \<Rightarrow> field path)"

definition encodeRequest :: "GuestFilesystemRequest \<Rightarrow> byte list option" where
  "encodeRequest request =
     Option.bind (bodyOf request) (\<lambda>body.
       map_option (\<lambda>len. FS_MAGIC @ [VERBS request] @ len @ body) (writeUInt32BE (int (length body))))"

definition fitsOneRequest :: "GuestFilesystemRequest \<Rightarrow> bool option" where
  "fitsOneRequest request = map_option (\<lambda>body. length body \<le> BODY_MAX_BYTES) (bodyOf request)"

section \<open>Replies\<close>

datatype GuestFilesystemError =
    GuestFilesystemSilent
  | GuestFilesystemRefused byte
  | GuestRequestTooLarge
  | MalformedGuestReply string
  | ThrownRangeError

definition REFUSALS :: "byte \<Rightarrow> string option" where
  "REFUSALS status =
     (if status = 1 then Some ''there is nothing at that path''
      else if status = 2 then Some ''what is there is not the kind of thing that asks for''
      else if status = 3 then Some ''something is there already''
      else if status = 4 then Some ''the directory still holds something''
      else if status = 5 then Some ''that path leads out of the volume''
      else if status = 6 then Some ''the guest could not read the request''
      else if status = 7 then Some ''the guest could not carry it out''
      else None)"

definition GuestFilesystemError_message :: "AppId \<Rightarrow> GuestFilesystemError \<Rightarrow> string" where
  "GuestFilesystemError_message appId e =
     (case e of
        GuestFilesystemSilent \<Rightarrow>
          ''the guest running '' @ appId @ '' took a request about its files and never answered''
      | GuestFilesystemRefused status \<Rightarrow>
          ''the guest running '' @ appId @ '' would not do that with its files: '' @
            (case REFUSALS status of None \<Rightarrow> ''it gave no reason this host understands'' | Some r \<Rightarrow> r)
      | GuestRequestTooLarge \<Rightarrow>
          ''more was asked of the guest running '' @ appId @ '' at once than one request carries''
      | MalformedGuestReply reason \<Rightarrow>
          ''the guest answered about its files with bytes this host cannot read: '' @ reason
      | ThrownRangeError \<Rightarrow> ''The value is out of range.'')"

record ReplyHeader =
  rh_status :: byte
  rh_bodyLength :: nat

definition decodeHeader :: "byte list \<Rightarrow> (GuestFilesystemError, ReplyHeader) result" where
  "decodeHeader header =
     (if length header \<noteq> FS_HEADER_BYTES then Inl (MalformedGuestReply ''the header is the wrong length'')
      else if slice_at 0 4 header \<noteq> FS_MAGIC then Inl (MalformedGuestReply ''invalid magic value'')
      else let bodyLength = read_u 4 5 header in
        if bodyLength > BODY_MAX_BYTES then Inl (MalformedGuestReply ''the body exceeds the limit'')
        else Inr \<lparr>rh_status = header ! 4, rh_bodyLength = bodyLength\<rparr>)"

definition isRefusal :: "byte \<Rightarrow> bool" where "isRefusal status = (status \<noteq> 0)"

text \<open>\<open>wire.receive\<close> hands over exactly so many bytes, or none arrive in time.\<close>

definition wire_receive :: "nat \<Rightarrow> byte list \<Rightarrow> (GuestFilesystemError, byte list \<times> byte list) result" where
  "wire_receive n wire =
     (if length wire < n then Inl GuestFilesystemSilent else Inr (take n wire, drop n wire))"

text \<open>One exchange: \<open>wire\<close> is what the guest sends from here on, and the rest of it is returned.\<close>

definition exchange ::
  "GuestFilesystemRequest \<Rightarrow> byte list \<Rightarrow> (GuestFilesystemError, byte list) result \<times> byte list" where
  "exchange request wire =
     (case fitsOneRequest request of
        None \<Rightarrow> (Inl ThrownRangeError, wire)
      | Some False \<Rightarrow> (Inl GuestRequestTooLarge, wire)
      | Some True \<Rightarrow>
          (case wire_receive FS_HEADER_BYTES wire of
             Inl e \<Rightarrow> (Inl e, wire)
           | Inr (header, wire) \<Rightarrow>
               (case decodeHeader header of
                  Inl e \<Rightarrow> (Inl e, wire)
                | Inr h \<Rightarrow>
                    (case (if rh_bodyLength h = 0 then Inr ([], wire) else wire_receive (rh_bodyLength h) wire) of
                       Inl e \<Rightarrow> (Inl e, wire)
                     | Inr (body, wire) \<Rightarrow>
                         (if isRefusal (rh_status h) then Inl (GuestFilesystemRefused (rh_status h)) else Inr body,
                          wire)))))"

datatype FilesystemEntryKind = FileEntry | DirectoryEntry | OtherEntry

definition KINDS :: "byte \<Rightarrow> FilesystemEntryKind" where
  "KINDS b = (if b = 1 then FileEntry else if b = 2 then DirectoryEntry else OtherEntry)"

definition FS_SIZE_OFFSET :: nat where "FS_SIZE_OFFSET = 1"
definition FS_MODIFIED_OFFSET :: nat where "FS_MODIFIED_OFFSET = 9"
definition DETAILS_BYTES :: nat where "DETAILS_BYTES = 17"

text \<open>An instant can be written down from the first second of the year 0 to the last of 9999.\<close>

definition timestampFrom :: "int \<Rightarrow> Timestamp" where
  "timestampFrom seconds =
     (if -62167219200 \<le> seconds \<and> seconds \<le> 253402300799 then seconds * 1000 else 0)"

record FilesystemDetails =
  fd_kind :: FilesystemEntryKind
  fd_sizeBytes :: nat
  fd_modifiedAt :: Timestamp

definition detailsAt :: "byte list \<Rightarrow> FilesystemDetails" where
  "detailsAt body =
     \<lparr>fd_kind = KINDS (body ! 0), fd_sizeBytes = js_number (read_u 8 FS_SIZE_OFFSET body),
      fd_modifiedAt = timestampFrom (read_i64 FS_MODIFIED_OFFSET body)\<rparr>"

definition decodeDetails :: "byte list \<Rightarrow> (GuestFilesystemError, FilesystemDetails) result" where
  "decodeDetails body =
     (if length body < DETAILS_BYTES then Inl (MalformedGuestReply ''the details are the wrong length'')
      else Inr (detailsAt body))"

definition decodeWritten :: "byte list \<Rightarrow> (GuestFilesystemError, nat) result" where
  "decodeWritten body =
     (if length body < 4 then Inl (MalformedGuestReply ''no count came back from a write'')
      else Inr (read_u 4 0 body))"

record MeasuredBytes =
  mb_totalBytes :: nat
  mb_usedBytes :: nat

definition decodeUsage :: "byte list \<Rightarrow> (GuestFilesystemError, MeasuredBytes) result" where
  "decodeUsage body =
     (if length body < 16 then Inl (MalformedGuestReply ''the usage is the wrong length'')
      else Inr \<lparr>mb_totalBytes = js_number (read_u 8 0 body), mb_usedBytes = js_number (read_u 8 8 body)\<rparr>)"

definition decodeCompute :: "byte list \<Rightarrow> (GuestFilesystemError, MeasuredCompute) result" where
  "decodeCompute body =
     (if length body < 32 then Inl (MalformedGuestReply ''the compute reading is the wrong length'')
      else Inr \<lparr>mc_memoryTotalBytes = int (js_number (read_u 8 0 body)),
             mc_memoryUsedBytes = int (js_number (read_u 8 8 body)),
             mc_cpuTotalTicks = int (js_number (read_u 8 16 body)),
             mc_cpuBusyTicks = int (js_number (read_u 8 24 body))\<rparr>)"

section \<open>Listings\<close>

record FilesystemEntry =
  fe_name :: "byte list"
  fe_details :: FilesystemDetails

record DirectoryListing =
  dl_path :: "byte list"
  dl_entries :: "FilesystemEntry list"
  dl_truncated :: bool

definition DIRECTORY_ENTRY_LIMIT :: nat where "DIRECTORY_ENTRY_LIMIT = 1000"
definition MKFS_ROOT_ENTRIES :: "byte list list" where
  "MKFS_ROOT_ENTRIES = [[0x6C, 0x6F, 0x73, 0x74, 0x2B, 0x66, 0x6F, 0x75, 0x6E, 0x64]]"
definition GUEST_PATH_ROOT :: "byte list" where "GUEST_PATH_ROOT = [0x2F]"
definition NAME_LENGTH_OFFSET :: nat where "NAME_LENGTH_OFFSET = 17"

text \<open>The loop of \<open>decodeListing\<close>, where \<open>rest\<close> is the body from \<open>offset\<close> on.\<close>

function listing_loop :: "bool \<Rightarrow> FilesystemEntry list \<Rightarrow> bool \<Rightarrow> byte list \<Rightarrow>
    (GuestFilesystemError, FilesystemEntry list \<times> bool) result" where
  "listing_loop atRoot entries truncated rest =
     (if rest = [] then Inr (entries, truncated)
      else if NAME_LENGTH_OFFSET \<ge> length rest then Inl (MalformedGuestReply ''an entry was cut short'')
      else let nameLength = unat (rest ! NAME_LENGTH_OFFSET); nameAt = NAME_LENGTH_OFFSET + 1 in
        if nameLength = 0 \<or> nameAt + nameLength > length rest
        then Inl (MalformedGuestReply ''an entry names nothing readable'')
        else let name = utf8_text (slice_at nameAt nameLength rest) in
          if length entries = DIRECTORY_ENTRY_LIMIT then Inr (entries, True)
          else listing_loop atRoot
            (if atRoot \<and> name \<in> set MKFS_ROOT_ENTRIES then entries
             else entries @ [\<lparr>fe_name = name, fe_details = detailsAt rest\<rparr>])
            truncated (drop (nameAt + nameLength) rest))"
  by pat_completeness auto
termination
  by (relation "measure (\<lambda>(_, _, _, rest). length rest)") (auto simp: NAME_LENGTH_OFFSET_def)

declare listing_loop.simps [simp del]

definition decodeListing :: "byte list \<Rightarrow> byte list \<Rightarrow> (GuestFilesystemError, DirectoryListing) result" where
  "decodeListing body path =
     (if length body < 1 then Inl (MalformedGuestReply ''a listing came back with nothing in it'')
      else case listing_loop (path = GUEST_PATH_ROOT) [] (body ! 0 \<noteq> 0) (drop 1 body) of
        Inl e \<Rightarrow> Inl e
      | Inr (entries, truncated) \<Rightarrow>
          Inr \<lparr>dl_path = path, dl_entries = entries, dl_truncated = truncated\<rparr>)"

text \<open>The client's members, each one exchange and the reading of its body.\<close>

definition then_decode ::
  "(GuestFilesystemError, byte list) result \<times> byte list \<Rightarrow> (byte list \<Rightarrow> (GuestFilesystemError, 'a) result) \<Rightarrow>
    (GuestFilesystemError, 'a) result \<times> byte list" where
  "then_decode x decode = (bind_result (fst x) decode, snd x)"

definition files_list :: "byte list \<Rightarrow> byte list \<Rightarrow> (GuestFilesystemError, DirectoryListing) result \<times> byte list" where
  "files_list path wire = then_decode (exchange (FsList path) wire) (\<lambda>body. decodeListing body path)"

definition files_stat :: "byte list \<Rightarrow> byte list \<Rightarrow> (GuestFilesystemError, FilesystemDetails) result \<times> byte list" where
  "files_stat path wire = then_decode (exchange (FsStat path) wire) decodeDetails"

definition files_usage :: "byte list \<Rightarrow> (GuestFilesystemError, MeasuredBytes) result \<times> byte list" where
  "files_usage wire = then_decode (exchange FsUsage wire) decodeUsage"

definition files_compute :: "byte list \<Rightarrow> (GuestFilesystemError, MeasuredCompute) result \<times> byte list" where
  "files_compute wire = then_decode (exchange FsCompute wire) decodeCompute"

definition files_read ::
  "byte list \<Rightarrow> int \<Rightarrow> int \<Rightarrow> byte list \<Rightarrow> (GuestFilesystemError, byte list) result \<times> byte list" where
  "files_read path from len wire = exchange (FsRead path from (min len GUEST_FILESYSTEM_CHUNK_BYTES)) wire"

definition files_write ::
  "byte list \<Rightarrow> int \<Rightarrow> byte list \<Rightarrow> bool \<Rightarrow> byte list \<Rightarrow> (GuestFilesystemError, nat) result \<times> byte list" where
  "files_write path from content cutting wire =
     then_decode (exchange (FsWrite path from content cutting) wire) decodeWritten"

definition files_makeDirectory :: "byte list \<Rightarrow> byte list \<Rightarrow> (GuestFilesystemError, unit) result \<times> byte list" where
  "files_makeDirectory path wire = then_decode (exchange (FsMakeDirectory path) wire) (\<lambda>_. Inr ())"

definition files_remove :: "byte list \<Rightarrow> byte list \<Rightarrow> (GuestFilesystemError, unit) result \<times> byte list" where
  "files_remove path wire = then_decode (exchange (FsRemove path) wire) (\<lambda>_. Inr ())"

definition files_move :: "byte list \<Rightarrow> byte list \<Rightarrow> byte list \<Rightarrow> (GuestFilesystemError, unit) result \<times> byte list" where
  "files_move path destination wire = then_decode (exchange (FsMove path destination) wire) (\<lambda>_. Inr ())"

section \<open>The guest: reading a request\<close>

definition INT64_MAX :: "64 word" where "INT64_MAX = 2 ^ 63 - 1"
definition PATH_MAX_BYTES :: nat where "PATH_MAX_BYTES = 4096"

record operation =
  op_path :: "byte list"
  op_destination :: "byte list"
  op_offset :: "64 word"
  op_length :: "32 word"
  op_flags :: byte
  op_content :: "byte list"

definition no_operation :: operation where
  "no_operation = \<lparr>op_path = [], op_destination = [], op_offset = 0, op_length = 0, op_flags = 0, op_content = []\<rparr>"

text \<open>A cursor is what is left to read.\<close>

definition c_take :: "nat \<Rightarrow> byte list \<Rightarrow> (byte list \<times> byte list) option" where
  "c_take count cursor = (if length cursor < count then None else Some (take count cursor, drop count cursor))"

definition c_decode :: "byte list \<Rightarrow> 64 word" where
  "c_decode bytes = foldl (\<lambda>value b. push_bit 8 value OR ucast b) 0 bytes"

definition take_u8 :: "byte list \<Rightarrow> (byte \<times> byte list) option" where
  "take_u8 cursor = map_option (\<lambda>(bytes, cursor). (bytes ! 0, cursor)) (c_take 1 cursor)"

definition take_u32 :: "byte list \<Rightarrow> (32 word \<times> byte list) option" where
  "take_u32 cursor = map_option (\<lambda>(bytes, cursor). (ucast (c_decode bytes), cursor)) (c_take 4 cursor)"

definition take_offset :: "byte list \<Rightarrow> (64 word \<times> byte list) option" where
  "take_offset cursor =
     Option.bind (c_take 8 cursor) (\<lambda>(bytes, cursor).
       if c_decode bytes \<le> INT64_MAX then Some (c_decode bytes, cursor) else None)"

definition take_field :: "byte list \<Rightarrow> (byte list \<times> byte list) option" where
  "take_field cursor = Option.bind (take_u32 cursor) (\<lambda>(len, cursor). c_take (unat len) cursor)"

definition copy_path :: "byte list \<Rightarrow> byte list option" where
  "copy_path bytes =
     (if length bytes = 0 \<or> length bytes \<ge> PATH_MAX_BYTES \<or> bytes ! 0 \<noteq> 0x2F then None
      else if 0 \<in> set bytes then None else Some bytes)"

definition take_path :: "byte list \<Rightarrow> (byte list \<times> byte list) option" where
  "take_path cursor =
     Option.bind (take_field cursor) (\<lambda>(bytes, cursor). map_option (\<lambda>path. (path, cursor)) (copy_path bytes))"

definition names_a_path :: "byte \<Rightarrow> bool" where
  "names_a_path verb = (verb \<noteq> 8 \<and> verb \<noteq> 9)"

definition parse_operation :: "byte \<Rightarrow> byte list \<Rightarrow> operation option" where
  "parse_operation verb body =
     Option.bind (if names_a_path verb then take_path body else Some ([], body)) (\<lambda>(path, body).
       Option.bind
         (let asked = no_operation\<lparr>op_path := path\<rparr> in
          if verb = 3 then
            Option.bind (take_offset body) (\<lambda>(off, body).
              map_option (\<lambda>(len, body). (asked\<lparr>op_offset := off, op_length := len\<rparr>, body)) (take_u32 body))
          else if verb = 4 then
            Option.bind (take_offset body) (\<lambda>(off, body). Option.bind (take_u8 body) (\<lambda>(flags, body).
              map_option (\<lambda>(content, body).
                (asked\<lparr>op_offset := off, op_flags := flags, op_content := content\<rparr>, body)) (take_field body)))
          else if verb = 7 then
            map_option (\<lambda>(destination, body). (asked\<lparr>op_destination := destination\<rparr>, body)) (take_path body)
          else Some (asked, body))
         (\<lambda>(asked, body). if body = [] then Some asked else None))"

datatype received = ExchangeEnded | ExchangeUnframed | ExchangeRead byte "byte list" "byte list"

text \<open>\<open>sent\<close> is what the host has sent; a read that never fills up ends the exchange.\<close>

definition receive_request :: "byte list \<Rightarrow> received" where
  "receive_request sent =
     (case c_take FS_HEADER_BYTES sent of
        None \<Rightarrow> ExchangeEnded
      | Some (header, sent) \<Rightarrow>
          if take 4 header \<noteq> FS_MAGIC then ExchangeUnframed
          else let len = (ucast (c_decode (slice_at 5 4 header)) :: 32 word) in
            if unat len > BODY_MAX_BYTES then ExchangeUnframed
            else case c_take (unat len) sent of
                None \<Rightarrow> ExchangeEnded
              | Some (body, sent) \<Rightarrow> ExchangeRead (header ! 4) body sent)"

section \<open>The guest: writing a reply\<close>

definition put_wide :: "64 word \<Rightarrow> nat \<Rightarrow> byte list" where
  "put_wide value count = map (\<lambda>index. ucast (drop_bit (8 * (count - index - 1)) value)) [0..<count]"

definition send_reply :: "byte \<Rightarrow> byte list \<Rightarrow> byte list" where
  "send_reply status body =
     (let len = if status = 0 then length body else 0 in
      FS_MAGIC @ [status] @ put_wide (word_of_nat len) 4 @ take len body)"

record fs_stat =
  fs_kind :: FilesystemEntryKind
  fs_size :: int
  fs_mtime :: int

definition kind_of :: "FilesystemEntryKind \<Rightarrow> byte" where
  "kind_of kind = (case kind of DirectoryEntry \<Rightarrow> 2 | FileEntry \<Rightarrow> 1 | OtherEntry \<Rightarrow> 3)"

definition put_details :: "fs_stat \<Rightarrow> byte list" where
  "put_details st =
     [kind_of (fs_kind st)] @ put_wide (word_of_int (fs_size st)) 8 @ put_wide (word_of_int (fs_mtime st)) 8"

definition entry_bytes :: "byte list \<times> fs_stat \<Rightarrow> byte list" where
  "entry_bytes e = put_details (snd e) @ [word_of_nat (length (fst e))] @ fst e"

definition is_self_or_parent :: "byte list \<Rightarrow> bool" where
  "is_self_or_parent name = (name = [0x2E] \<or> name = [0x2E, 0x2E])"

text \<open>The directory as \<open>getdents\<close> names it, each name with what \<open>fstatat\<close> said of it (\<open>None\<close> for one
  that is gone). The first component is what is written behind the truncation byte.\<close>

fun list_directory :: "byte list \<Rightarrow> (byte list \<times> fs_stat option) list \<Rightarrow> byte list \<times> bool" where
  "list_directory written [] = (written, False)"
| "list_directory written ((name, st) # behind) =
     (if is_self_or_parent name then list_directory written behind
      else case st of
        None \<Rightarrow> list_directory written behind
      | Some st \<Rightarrow>
          if length name = 0 \<or> length name > 255 then list_directory written behind
          else if BODY_MAX_BYTES - (1 + length written) < DETAILS_BYTES + 1 + length name
          then (written, True)
          else list_directory (written @ entry_bytes (name, st)) behind)"

definition listing_body :: "(byte list \<times> fs_stat option) list \<Rightarrow> byte list" where
  "listing_body dirents =
     (case list_directory [] dirents of (written, truncated) \<Rightarrow> (if truncated then 1 else 0) # written)"

section \<open>Both ends agree\<close>

lemma c_decode_value: "c_decode bytes = word_of_nat (be_value bytes)"
proof (induction bytes rule: rev_induct)
  case (snoc b bytes)
  have "push_bit 8 v OR ucast b = v * 256 + (ucast b :: 64 word)" for v :: "64 word"
  proof -
    have "push_bit 8 v AND (ucast b :: 64 word) = 0"
      by (rule bit_word_eqI) (auto simp: bit_simps dest: bit_imp_le_length)
    then have "push_bit 8 v OR ucast b = push_bit 8 v + (ucast b :: 64 word)"
      by (simp add: disjunctive_add_eq_or)
    then show ?thesis by (simp add: push_bit_eq_mult)
  qed
  then have "c_decode (bytes @ [b]) = c_decode bytes * 256 + ucast b"
    by (simp add: c_decode_def)
  also have "\<dots> = word_of_nat (be_value (bytes @ [b]))" by (simp add: snoc)
  finally show ?case .
qed (simp add: c_decode_def)

lemma unat_c_decode: "length bytes \<le> 8 \<Longrightarrow> unat (c_decode bytes) = be_value bytes"
proof -
  assume "length bytes \<le> 8"
  then have "256 ^ length bytes \<le> (256 :: nat) ^ 8" by (intro power_increasing) simp_all
  then have "be_value bytes < 2 ^ 64" using be_value_less [of bytes] by simp
  then show ?thesis by (simp add: c_decode_value unat_of_nat)
qed

lemma put_wide_be: "put_wide v count = be_bytes count (unat v)"
proof (induction count arbitrary: v)
  case (Suc k)
  have "put_wide v (Suc k) = put_wide (drop_bit 8 v) k @ [ucast v]"
  proof -
    have "8 * (Suc k - index - 1) = 8 * (k - index - 1) + 8" if "index < k" for index
      using that by simp
    then show ?thesis by (simp add: put_wide_def)
  qed
  moreover have "unat (drop_bit 8 v) = unat v div 256"
    by (simp only: unat_drop_bit_eq) (simp add: drop_bit_eq_div)
  moreover have "(ucast v :: byte) = word_of_nat (unat v)" by simp
  ultimately show ?case by (simp only: Suc be_bytes.simps)
qed (simp add: put_wide_def)

lemma c_take_append: "length a = n \<Longrightarrow> c_take n (a @ b) = Some (a, b)"
  by (simp add: c_take_def)

lemma take_u32_be:
  assumes "n < 2 ^ 32"
  shows "take_u32 (be_bytes 4 n @ r) = Some (word_of_nat n, r)"
proof -
  have "be_value (be_bytes 4 n) = n" using assms by (simp add: be_value_be_bytes_id)
  moreover have "take_bit 64 n = n" using assms by (simp add: take_bit_nat_eq_self_iff)
  ultimately show ?thesis
    by (simp add: take_u32_def c_take_append c_decode_value unsigned_of_nat)
qed

lemma take_offset_be:
  assumes "n < 2 ^ 63"
  shows "take_offset (be_bytes 8 n @ r) = Some (word_of_nat n, r)"
proof -
  have n: "c_decode (be_bytes 8 n) = word_of_nat n"
    using assms by (simp add: c_decode_value be_value_be_bytes_id)
  have "unat (word_of_nat n :: 64 word) = n" using assms by (simp add: unat_of_nat)
  then have "(word_of_nat n :: 64 word) \<le> INT64_MAX"
    using assms by (simp add: word_le_nat_alt INT64_MAX_def)
  then show ?thesis by (simp add: take_offset_def c_take_append n)
qed

lemma field_Some: "field bytes = Some f \<Longrightarrow> length bytes < 2 ^ 32 \<and> f = be_bytes 4 (length bytes) @ bytes"
  by (auto simp: field_def writeUInt32BE_def split: if_splits)

lemma take_field_field: "field bytes = Some f \<Longrightarrow> take_field (f @ r) = Some (bytes, r)"
  by (auto dest!: field_Some simp: take_field_def take_u32_be c_take_append unat_of_nat)

text \<open>The paths the guest takes: absolute, without a NUL, and short enough for its buffer.\<close>

definition path_taken :: "byte list \<Rightarrow> bool" where
  "path_taken path = (path \<noteq> [] \<and> length path < PATH_MAX_BYTES \<and> path ! 0 = 0x2F \<and> 0 \<notin> set path)"

lemma take_path_field: "path_taken path \<Longrightarrow> field path = Some f \<Longrightarrow> take_path (f @ r) = Some (path, r)"
  by (simp add: take_path_def take_field_field copy_path_def path_taken_def)

fun request_paths :: "GuestFilesystemRequest \<Rightarrow> byte list list" where
  "request_paths (FsList path) = [path]"
| "request_paths (FsStat path) = [path]"
| "request_paths (FsRead path _ _) = [path]"
| "request_paths (FsWrite path _ _ _) = [path]"
| "request_paths (FsMakeDirectory path) = [path]"
| "request_paths (FsRemove path) = [path]"
| "request_paths (FsMove path destination) = [path, destination]"
| "request_paths FsUsage = []"
| "request_paths FsCompute = []"

fun request_offset :: "GuestFilesystemRequest \<Rightarrow> int" where
  "request_offset (FsRead _ from _) = from"
| "request_offset (FsWrite _ from _ _) = from"
| "request_offset _ = 0"

text \<open>What the guest is to make of a request.\<close>

fun asked_of :: "GuestFilesystemRequest \<Rightarrow> operation" where
  "asked_of (FsRead path from len) =
     no_operation\<lparr>op_path := path, op_offset := word_of_int from, op_length := word_of_int len\<rparr>"
| "asked_of (FsWrite path from content cutting) =
     no_operation\<lparr>op_path := path, op_offset := word_of_int from,
       op_flags := if cutting then TRUNCATE else NO_FLAGS, op_content := content\<rparr>"
| "asked_of (FsMove path destination) = no_operation\<lparr>op_path := path, op_destination := destination\<rparr>"
| "asked_of FsUsage = no_operation"
| "asked_of FsCompute = no_operation"
| "asked_of (FsList path) = no_operation\<lparr>op_path := path\<rparr>"
| "asked_of (FsStat path) = no_operation\<lparr>op_path := path\<rparr>"
| "asked_of (FsMakeDirectory path) = no_operation\<lparr>op_path := path\<rparr>"
| "asked_of (FsRemove path) = no_operation\<lparr>op_path := path\<rparr>"

lemma parse_operation_body:
  assumes body: "bodyOf r = Some body" and paths: "list_all path_taken (request_paths r)"
    and offset: "request_offset r < 2 ^ 63"
  shows "parse_operation (VERBS r) body = Some (asked_of r)"
proof (cases r)
  case (FsRead path off len)
  then obtain f where f: "field path = Some f" "0 \<le> off" "0 \<le> len" "len < 2 ^ 32"
      "body = f @ be_bytes 8 (nat off) @ be_bytes 4 (nat len)"
    using body by (auto simp: bodyOf_def bind_eq_Some_conv offsetOf_def lengthOf_def
      writeBigUInt64BE_def writeUInt32BE_def split: if_splits)
  moreover have "nat off < 2 ^ 63" "nat len < 2 ^ 32"
    using f FsRead offset by (simp_all add: nat_less_iff)
  ultimately show ?thesis
    using FsRead paths take_u32_be [of "nat len" "[]"]
    by (simp add: parse_operation_def VERBS_def names_a_path_def take_path_field take_offset_be)
next
  case (FsWrite path off content cutting)
  then obtain f c where f: "field path = Some f" "0 \<le> off" "field content = Some c"
      "body = f @ be_bytes 8 (nat off) @ [if cutting then TRUNCATE else NO_FLAGS] @ c"
    using body by (auto simp: bodyOf_def bind_eq_Some_conv offsetOf_def writeBigUInt64BE_def split: if_splits)
  moreover have "nat off < 2 ^ 63" using f FsWrite offset by (simp add: nat_less_iff)
  moreover have "take_u8 ((if cutting then TRUNCATE else NO_FLAGS) # c) =
      Some (if cutting then TRUNCATE else NO_FLAGS, c)"
    by (simp add: take_u8_def c_take_def)
  ultimately show ?thesis
    using FsWrite paths take_field_field [of content c "[]"]
    by (simp add: parse_operation_def VERBS_def names_a_path_def take_path_field take_offset_be)
next
  case (FsMove path destination)
  then obtain f d where "field path = Some f" "field destination = Some d" "body = f @ d"
    using body by (auto simp: bodyOf_def bind_eq_Some_conv)
  then show ?thesis
    using FsMove paths take_path_field [of destination d "[]"] take_path_field [of path f d]
    by (simp add: parse_operation_def VERBS_def names_a_path_def)
next
  case (FsList path)
  then show ?thesis
    using body paths take_path_field [of path body "[]"]
    by (simp add: parse_operation_def VERBS_def names_a_path_def bodyOf_def)
next
  case (FsStat path)
  then show ?thesis
    using body paths take_path_field [of path body "[]"]
    by (simp add: parse_operation_def VERBS_def names_a_path_def bodyOf_def)
next
  case (FsMakeDirectory path)
  then show ?thesis
    using body paths take_path_field [of path body "[]"]
    by (simp add: parse_operation_def VERBS_def names_a_path_def bodyOf_def)
next
  case (FsRemove path)
  then show ?thesis
    using body paths take_path_field [of path body "[]"]
    by (simp add: parse_operation_def VERBS_def names_a_path_def bodyOf_def)
qed (use body in \<open>simp_all add: parse_operation_def VERBS_def names_a_path_def bodyOf_def no_operation_def\<close>)

lemma length_FS_MAGIC [simp]: "length FS_MAGIC = 4"
  by (simp add: FS_MAGIC_def)

lemma fs_header_fields:
  assumes "n < 2 ^ 32"
  shows "length (FS_MAGIC @ [code] @ be_bytes 4 n) = FS_HEADER_BYTES"
    and "take 4 (FS_MAGIC @ [code] @ be_bytes 4 n) = FS_MAGIC"
    and "(FS_MAGIC @ [code] @ be_bytes 4 n) ! 4 = code"
    and "slice_at 5 4 (FS_MAGIC @ [code] @ be_bytes 4 n) = be_bytes 4 n"
    and "read_u 4 5 (FS_MAGIC @ [code] @ be_bytes 4 n) = n"
proof -
  show "slice_at 5 4 (FS_MAGIC @ [code] @ be_bytes 4 n) = be_bytes 4 n"
    using slice_at_append [of "FS_MAGIC @ [code]" 5 "be_bytes 4 n" 4 "[]"] by simp
  then show "read_u 4 5 (FS_MAGIC @ [code] @ be_bytes 4 n) = n"
    using assms by (simp add: read_u_def be_value_be_bytes_id)
qed (simp_all add: FS_HEADER_BYTES_def nth_append)

lemma receive_request_frame:
  assumes "length body \<le> BODY_MAX_BYTES"
  shows "receive_request (FS_MAGIC @ [verb] @ be_bytes 4 (length body) @ body @ later) = ExchangeRead verb body later"
proof -
  let ?header = "FS_MAGIC @ [verb] @ be_bytes 4 (length body)"
  have small: "length body < 2 ^ 32" using assms by (simp add: BODY_MAX_BYTES_def)
  have "c_take FS_HEADER_BYTES (?header @ body @ later) = Some (?header, body @ later)"
    by (rule c_take_append) (rule fs_header_fields(1) [OF small])
  moreover have "c_decode (be_bytes 4 (length body)) = word_of_nat (length body)"
    using small by (simp add: c_decode_value be_value_be_bytes_id)
  moreover have "unat (ucast (word_of_nat (length body) :: 64 word) :: 32 word) = length body"
    using small by (simp add: unsigned_of_nat take_bit_nat_eq_self_iff)
  ultimately show ?thesis
    using assms fs_header_fields(2-4) [OF small, of verb]
    by (simp add: receive_request_def c_take_append Let_def)
qed

lemma encodeRequest_frame:
  assumes "fitsOneRequest r = Some True"
  obtains body where "bodyOf r = Some body" "length body \<le> BODY_MAX_BYTES"
    "encodeRequest r = Some (FS_MAGIC @ [VERBS r] @ be_bytes 4 (length body) @ body)"
proof -
  obtain body where body: "bodyOf r = Some body" "length body \<le> BODY_MAX_BYTES"
    using assms by (auto simp: fitsOneRequest_def)
  then show ?thesis
    using that by (simp add: encodeRequest_def writeUInt32BE_def BODY_MAX_BYTES_def)
qed

lemma decodeHeader_header:
  assumes "n \<le> BODY_MAX_BYTES"
  shows "decodeHeader (FS_MAGIC @ [code] @ be_bytes 4 n) = Inr \<lparr>rh_status = code, rh_bodyLength = n\<rparr>"
  using assms fs_header_fields [of n code] by (simp add: decodeHeader_def slice_at_def BODY_MAX_BYTES_def)

lemma wire_receive_append: "length a = n \<Longrightarrow> wire_receive n (a @ b) = Inr (a, b)"
  by (simp add: wire_receive_def)

lemma exchange_reply:
  assumes "fitsOneRequest r = Some True" and "length body \<le> BODY_MAX_BYTES"
  shows "exchange r (send_reply status body @ later) =
    (if status = 0 then Inr body else Inl (GuestFilesystemRefused status), later)"
proof -
  let ?n = "if status = 0 then length body else 0"
  let ?header = "FS_MAGIC @ [status] @ be_bytes 4 ?n"
  have small: "?n < 2 ^ 32" using assms(2) by (simp add: BODY_MAX_BYTES_def)
  then have "unat (word_of_nat ?n :: 64 word) = ?n" by (simp add: unat_of_nat)
  then have reply: "send_reply status body = ?header @ take ?n body"
    by (simp add: send_reply_def put_wide_be Let_def)
  have "wire_receive FS_HEADER_BYTES (?header @ take ?n body @ later) = Inr (?header, take ?n body @ later)"
    by (rule wire_receive_append) (rule fs_header_fields(1) [OF small])
  moreover have "decodeHeader ?header = Inr \<lparr>rh_status = status, rh_bodyLength = ?n\<rparr>"
    by (rule decodeHeader_header) (use assms(2) in simp)
  ultimately show ?thesis
    using assms(1) reply by (simp add: exchange_def wire_receive_def isRefusal_def)
qed

text \<open>
  C34. The two programs agree about a request and its reply. A request that fits, with paths the guest takes,
  is encoded without an exception, and the guest reads exactly the operation that was asked for, with
  nothing left over and nothing taken from what follows. Whatever the guest then answers within a frame,
  the host gets: the body if it was done, the refusal otherwise, and the connection is at the start of
  the next reply.
\<close>

theorem files_exchange_agrees:
  assumes "fitsOneRequest r = Some True" and "list_all path_taken (request_paths r)"
    and "request_offset r < 2 ^ 63" and "length reply \<le> BODY_MAX_BYTES"
  shows "(\<exists>frame body. encodeRequest r = Some frame \<and>
      receive_request (frame @ next_requests) = ExchangeRead (VERBS r) body next_requests \<and>
      parse_operation (VERBS r) body = Some (asked_of r)) \<and>
    exchange r (send_reply status reply @ next_replies) =
      (if status = 0 then Inr reply else Inl (GuestFilesystemRefused status), next_replies)"
proof -
  obtain body where body: "bodyOf r = Some body" "length body \<le> BODY_MAX_BYTES"
      "encodeRequest r = Some (FS_MAGIC @ [VERBS r] @ be_bytes 4 (length body) @ body)"
    using assms(1) by (rule encodeRequest_frame)
  then show ?thesis
    using parse_operation_body [OF body(1) assms(2,3)] receive_request_frame [OF body(2), of "VERBS r" next_requests]
      exchange_reply [OF assms(1,4)] by simp
qed

section \<open>Listings round trip\<close>

definition stat_ok :: "fs_stat \<Rightarrow> bool" where
  "stat_ok st = (0 \<le> fs_size st \<and> fs_size st < 2 ^ 63 \<and> - (2 ^ 63) \<le> fs_mtime st \<and> fs_mtime st < 2 ^ 63)"

definition described :: "fs_stat \<Rightarrow> FilesystemDetails" where
  "described st =
     \<lparr>fd_kind = fs_kind st, fd_sizeBytes = js_number (nat (fs_size st)),
      fd_modifiedAt = timestampFrom (fs_mtime st)\<rparr>"

lemma put_wide_int: "put_wide (word_of_int i) 8 = be_bytes 8 (twos64 i)"
  by (simp add: put_wide_be twos64_def unsigned_of_int take_bit_eq_mod)

lemma details_round_trip:
  assumes "stat_ok st"
  shows "detailsAt (put_details st @ tail) = described st"
proof -
  have size: "twos64 (fs_size st) = nat (fs_size st)"
    using assms by (simp add: stat_ok_def twos64_def mod_pos_pos_trivial)
  have "read_u 8 1 ([k] @ be_bytes 8 (twos64 (fs_size st)) @ r) = nat (fs_size st)" for k r
    using read_u_append [of "[k]" 1 "twos64 (fs_size st)" 8 r, OF _ twos64_less] by (simp add: size)
  moreover have "read_i64 9 ([k] @ be_bytes 8 n @ be_bytes 8 (twos64 (fs_mtime st)) @ r) = fs_mtime st" for k n r
    using read_i64_append [of "[k] @ be_bytes 8 n" 9 "fs_mtime st" r] assms by (simp add: stat_ok_def)
  moreover have "KINDS (kind_of k) = k" for k by (cases k) (simp_all add: KINDS_def kind_of_def)
  ultimately show ?thesis
    by (simp add: detailsAt_def put_details_def described_def put_wide_int
      FS_SIZE_OFFSET_def FS_MODIFIED_OFFSET_def)
qed

lemma length_put_details [simp]: "length (put_details st) = 17"
  by (simp add: put_details_def put_wide_int)

definition hidden :: "bool \<Rightarrow> byte list \<Rightarrow> bool" where
  "hidden atRoot name = (atRoot \<and> utf8_text name \<in> set MKFS_ROOT_ENTRIES)"

definition shown :: "bool \<Rightarrow> (byte list \<times> fs_stat) list \<Rightarrow> FilesystemEntry list" where
  "shown atRoot es =
     map (\<lambda>e. \<lparr>fe_name = utf8_text (fst e), fe_details = described (snd e)\<rparr>)
       (filter (\<lambda>e. \<not> hidden atRoot (fst e)) es)"

definition entry_ok :: "byte list \<times> fs_stat \<Rightarrow> bool" where
  "entry_ok e = (1 \<le> length (fst e) \<and> length (fst e) \<le> 255 \<and> stat_ok (snd e))"

lemma listing_loop_entry:
  assumes "entry_ok e"
  shows "listing_loop atRoot entries truncated (entry_bytes e @ tail) =
    (if length entries = DIRECTORY_ENTRY_LIMIT then Inr (entries, True)
     else listing_loop atRoot (entries @ shown atRoot [e]) truncated tail)"
proof -
  let ?rest = "entry_bytes e @ tail" and ?name = "fst e"
  have rest: "?rest = put_details (snd e) @ [word_of_nat (length ?name)] @ ?name @ tail"
    by (simp add: entry_bytes_def)
  have "?rest ! 17 = word_of_nat (length ?name)" by (simp add: rest nth_append)
  then have len: "unat (?rest ! NAME_LENGTH_OFFSET) = length ?name"
    using assms by (simp add: NAME_LENGTH_OFFSET_def entry_ok_def unat_of_nat_byte)
  have "slice_at 18 (length ?name) ?rest = ?name"
    using slice_at_append [of "put_details (snd e) @ [word_of_nat (length ?name)]" 18 ?name "length ?name" tail]
    by (simp add: rest)
  moreover have "drop (18 + length ?name) ?rest = tail" by (simp add: rest)
  moreover have "detailsAt ?rest = described (snd e)"
    using assms details_round_trip [of "snd e"] by (simp add: rest entry_ok_def)
  moreover have "length ?rest = 18 + length ?name + length tail" by (simp add: rest)
  ultimately show ?thesis
    using assms len
    by (subst listing_loop.simps)
      (auto simp: Let_def NAME_LENGTH_OFFSET_def entry_ok_def shown_def hidden_def simp del: append_assoc)
qed

lemma shown_Cons: "shown atRoot (e # es) = shown atRoot [e] @ shown atRoot es"
  by (simp add: shown_def)

lemma length_shown_one: "length (shown atRoot [e]) \<le> 1"
  by (simp add: shown_def)

lemma listing_loop_entries:
  assumes "list_all entry_ok es" and "length entries \<le> DIRECTORY_ENTRY_LIMIT"
  shows "listing_loop atRoot entries truncated (concat (map entry_bytes es)) =
    Inr (take DIRECTORY_ENTRY_LIMIT (entries @ shown atRoot es),
      truncated \<or> es \<noteq> [] \<and> DIRECTORY_ENTRY_LIMIT \<le> length (entries @ shown atRoot (butlast es)))"
  using assms
proof (induction es arbitrary: entries)
  case Nil
  then show ?case by (simp add: listing_loop.simps shown_def)
next
  case (Cons e es)
  show ?case
  proof (cases "length entries = DIRECTORY_ENTRY_LIMIT")
    case True
    then show ?thesis using Cons.prems by (simp add: listing_loop_entry)
  next
    case False
    then have "length (entries @ shown atRoot [e]) \<le> DIRECTORY_ENTRY_LIMIT"
      using Cons.prems(2) length_shown_one [of atRoot e] by simp
    from Cons.IH [OF _ this] show ?thesis
      using Cons.prems False
      by (simp add: listing_loop_entry shown_Cons [of atRoot e es]) 
        (auto simp: shown_Cons [of atRoot e "butlast es"] shown_def)
  qed
qed

text \<open>What a directory holds that can be described.\<close>

fun present :: "(byte list \<times> fs_stat option) list \<Rightarrow> (byte list \<times> fs_stat) list" where
  "present [] = []"
| "present ((name, st) # behind) =
     (case st of
        Some st \<Rightarrow>
          if is_self_or_parent name \<or> length name = 0 \<or> length name > 255 then present behind
          else (name, st) # present behind
      | None \<Rightarrow> present behind)"

definition dirent_ok :: "byte list \<times> fs_stat option \<Rightarrow> bool" where
  "dirent_ok d = (case snd d of None \<Rightarrow> True | Some st \<Rightarrow> stat_ok st)"

lemma length_entry_bytes [simp]: "length (entry_bytes e) = 18 + length (fst e)"
  by (simp add: entry_bytes_def)

lemma list_directory_spec:
  assumes "list_directory written dirents = (w, truncated)" and "list_all dirent_ok dirents"
    and "1 + length written \<le> BODY_MAX_BYTES"
  shows "\<exists>k. w = written @ concat (map entry_bytes (take k (present dirents))) \<and>
    list_all entry_ok (take k (present dirents)) \<and> 1 + length w \<le> BODY_MAX_BYTES \<and>
    (truncated \<or> length (present dirents) \<le> k)"
  using assms
proof (induction written dirents rule: list_directory.induct)
  case (2 written name st behind)
  let ?skip = "is_self_or_parent name \<or> st = None \<or> length name = 0 \<or> length name > 255"
  show ?case
  proof (cases ?skip)
    case True
    then have "list_directory written ((name, st) # behind) = list_directory written behind"
      and "present ((name, st) # behind) = present behind"
      by (auto split: option.splits)
    then show ?thesis using True 2 by (cases st) (auto split: if_splits)
  next
    case False
    then obtain d where d: "st = Some d" by auto
    have ok: "entry_ok (name, d)" using 2(6) False d by (simp add: entry_ok_def dirent_ok_def Suc_le_eq)
    have here: "present ((name, st) # behind) = (name, d) # present behind" using False d by auto
    show ?thesis
    proof (cases "BODY_MAX_BYTES - (1 + length written) < DETAILS_BYTES + 1 + length name")
      case True
      then have "w = written" "truncated" using 2(5) False d by auto
      then show ?thesis using 2(7) by (intro exI [of _ 0]) simp
    next
      case room: False
      have "1 + length (written @ entry_bytes (name, d)) \<le> BODY_MAX_BYTES"
        using room 2(7) by (simp add: DETAILS_BYTES_def)
      moreover have "list_directory (written @ entry_bytes (name, d)) behind = (w, truncated)"
        using 2(5) False d room by auto
      ultimately have "\<exists>k. w = (written @ entry_bytes (name, d)) @ concat (map entry_bytes (take k (present behind))) \<and>
        list_all entry_ok (take k (present behind)) \<and> 1 + length w \<le> BODY_MAX_BYTES \<and>
        (truncated \<or> length (present behind) \<le> k)"
        by (intro 2(4)) (use False d room 2(6) in auto)
      then obtain k where
        "w = (written @ entry_bytes (name, d)) @ concat (map entry_bytes (take k (present behind)))"
        "list_all entry_ok (take k (present behind))" "1 + length w \<le> BODY_MAX_BYTES"
        "truncated \<or> length (present behind) \<le> k"
        by blast
      then show ?thesis using ok here by (intro exI [of _ "Suc k"]) simp
    qed
  qed
qed (auto intro: exI [of _ 0])

lemma decodeListing_body:
  assumes "list_all dirent_ok dirents"
  obtains k where "length (listing_body dirents) \<le> BODY_MAX_BYTES"
    "decodeListing (listing_body dirents) path = Inr
      \<lparr>dl_path = path,
       dl_entries = take DIRECTORY_ENTRY_LIMIT (shown (path = GUEST_PATH_ROOT) (take k (present dirents))),
       dl_truncated = snd (list_directory [] dirents) \<or> take k (present dirents) \<noteq> [] \<and>
         DIRECTORY_ENTRY_LIMIT \<le> length (shown (path = GUEST_PATH_ROOT) (butlast (take k (present dirents))))\<rparr>"
    "snd (list_directory [] dirents) \<or> length (present dirents) \<le> k"
proof -
  obtain w t where wt: "list_directory [] dirents = (w, t)" by force
  obtain k where k: "w = concat (map entry_bytes (take k (present dirents)))"
      "list_all entry_ok (take k (present dirents))" "1 + length w \<le> BODY_MAX_BYTES"
      "t \<or> length (present dirents) \<le> k"
    using list_directory_spec [OF wt assms] by (auto simp: BODY_MAX_BYTES_def)
  have "listing_body dirents = (if t then 1 else 0) # w" by (simp add: listing_body_def wt)
  moreover have "((if t then 1 else 0 :: byte) = 0) = (\<not> t)" by simp
  ultimately show ?thesis
    using that [of k] k wt listing_loop_entries [OF k(2), of "[]" "path = GUEST_PATH_ROOT" t]
    by (simp add: decodeListing_def)
qed

lemma shown_append: "shown atRoot (es @ fs) = shown atRoot es @ shown atRoot fs"
  by (simp add: shown_def)

lemma shown_prefix: "\<exists>j. shown atRoot (take k es) = take j (shown atRoot es)"
proof -
  have "shown atRoot es = shown atRoot (take k es) @ shown atRoot (drop k es)"
    by (metis append_take_drop_id shown_append)
  then show ?thesis by (metis append_eq_conv_conj)
qed

lemma shown_butlast: "es \<noteq> [] \<Longrightarrow> length (shown atRoot es) \<le> Suc (length (shown atRoot (butlast es)))"
  using length_shown_one [of atRoot "last es"] shown_append [of atRoot "butlast es" "[last es]"] by simp

text \<open>
  C35. A directory listed across the two programs is the directory: the listing is the entries the guest's
  kernel named, in its order, less what cannot be described, less \<open>lost+found\<close> at the root and nowhere
  else; it never holds more than the limit, and one that is not marked as truncated holds all of them.
  Names survive as they are when they are text, sizes up to the precision of a number, dates that can be
  written down, the ones before 1970 included.
\<close>

theorem listing_is_the_directory:
  assumes "fitsOneRequest (FsList path) = Some True" and "list_all dirent_ok dirents"
  shows "\<exists>listing. files_list path (send_reply 0 (listing_body dirents) @ later) = (Inr listing, later) \<and>
    dl_path listing = path \<and> length (dl_entries listing) \<le> DIRECTORY_ENTRY_LIMIT \<and>
    (\<exists>k. dl_entries listing = take k (shown (path = GUEST_PATH_ROOT) (present dirents))) \<and>
    (dl_truncated listing \<or> dl_entries listing = shown (path = GUEST_PATH_ROOT) (present dirents))"
proof -
  let ?root = "path = GUEST_PATH_ROOT"
  obtain k where k: "length (listing_body dirents) \<le> BODY_MAX_BYTES"
    "decodeListing (listing_body dirents) path = Inr
      \<lparr>dl_path = path, dl_entries = take DIRECTORY_ENTRY_LIMIT (shown ?root (take k (present dirents))),
       dl_truncated = snd (list_directory [] dirents) \<or> take k (present dirents) \<noteq> [] \<and>
         DIRECTORY_ENTRY_LIMIT \<le> length (shown ?root (butlast (take k (present dirents))))\<rparr>"
    "snd (list_directory [] dirents) \<or> length (present dirents) \<le> k"
    using decodeListing_body [OF assms(2)] by metis
  let ?es = "take k (present dirents)"
  let ?listing = "\<lparr>dl_path = path, dl_entries = take DIRECTORY_ENTRY_LIMIT (shown ?root ?es),
    dl_truncated = snd (list_directory [] dirents) \<or> ?es \<noteq> [] \<and>
      DIRECTORY_ENTRY_LIMIT \<le> length (shown ?root (butlast ?es))\<rparr>"
  obtain j where j: "shown ?root ?es = take j (shown ?root (present dirents))" using shown_prefix by blast
  have all: "take DIRECTORY_ENTRY_LIMIT (shown ?root ?es) = shown ?root (present dirents)"
    if "\<not> (snd (list_directory [] dirents) \<or> ?es \<noteq> [] \<and> DIRECTORY_ENTRY_LIMIT \<le> length (shown ?root (butlast ?es)))"
    using that k(3) shown_butlast [of ?es ?root] by (cases "?es = []") (auto simp: shown_def)
  have "files_list path (send_reply 0 (listing_body dirents) @ later) =
      (decodeListing (listing_body dirents) path, later)"
    using exchange_reply [OF assms(1) k(1), of 0 later] by (simp add: files_list_def then_decode_def)
  also have "\<dots> = (Inr ?listing, later)" by (simp only: k(2))
  finally have "files_list path (send_reply 0 (listing_body dirents) @ later) = (Inr ?listing, later)" .
  moreover have "\<exists>i. dl_entries ?listing = take i (shown ?root (present dirents))"
    unfolding DirectoryListing.simps j by (metis take_take)
  moreover have "dl_truncated ?listing \<or> dl_entries ?listing = shown ?root (present dirents)"
    unfolding DirectoryListing.simps using all by blast
  ultimately show ?thesis by (intro exI [of _ ?listing]) simp
qed

definition write_example :: GuestFilesystemRequest where
  "write_example = FsWrite [0x2F, 0x61] 5 [1, 2, 3] True"

lemma write_example_fits: "fitsOneRequest write_example = Some True"
  by (simp add: write_example_def fitsOneRequest_def bodyOf_def field_def offsetOf_def
    writeUInt32BE_def writeBigUInt64BE_def BODY_MAX_BYTES_def)

theorem files_exchange_agrees_witness:
  "(\<exists>frame body. encodeRequest write_example = Some frame \<and>
      receive_request (frame @ [78]) = ExchangeRead 4 body [78] \<and>
      parse_operation 4 body =
        Some \<lparr>op_path = [0x2F, 0x61], op_destination = [], op_offset = 5, op_length = 0, op_flags = 1,
          op_content = [1, 2, 3]\<rparr>) \<and>
    exchange write_example (send_reply 0 [0, 0, 0, 3] @ [78]) = (Inr [0, 0, 0, 3], [78])"
proof -
  have "list_all path_taken (request_paths write_example)" "request_offset write_example < 2 ^ 63"
    by (simp_all add: write_example_def path_taken_def PATH_MAX_BYTES_def)
  from files_exchange_agrees [OF write_example_fits this, of "[0, 0, 0, 3]" "[78]" 0 "[78]"]
  show ?thesis
    by (simp add: BODY_MAX_BYTES_def write_example_def VERBS_def no_operation_def TRUNCATE_def)
qed

definition dirents_example :: "(byte list \<times> fs_stat option) list" where
  "dirents_example =
     [([0x2E], Some \<lparr>fs_kind = DirectoryEntry, fs_size = 4096, fs_mtime = 0\<rparr>),
      ([0x61], Some \<lparr>fs_kind = FileEntry, fs_size = 7, fs_mtime = -1\<rparr>), ([0x62], None)]"

theorem listing_is_the_directory_witness:
  "\<exists>listing. files_list [0x2F] (send_reply 0 (listing_body dirents_example)) = (Inr listing, []) \<and>
    (dl_truncated listing \<or> dl_entries listing =
      [\<lparr>fe_name = [0x61],
        fe_details = \<lparr>fd_kind = FileEntry, fd_sizeBytes = 7, fd_modifiedAt = -1000\<rparr>\<rparr>])"
proof -
  have "fitsOneRequest (FsList [0x2F]) = Some True"
    by (simp add: fitsOneRequest_def bodyOf_def field_def writeUInt32BE_def BODY_MAX_BYTES_def)
  moreover have "list_all dirent_ok dirents_example"
    by (simp add: dirents_example_def dirent_ok_def stat_ok_def)
  moreover have "shown ([0x2F] = GUEST_PATH_ROOT) (present dirents_example) =
      [\<lparr>fe_name = [0x61], fe_details = \<lparr>fd_kind = FileEntry, fd_sizeBytes = 7, fd_modifiedAt = -1000\<rparr>\<rparr>]"
  proof -
    have "utf8_text [0x61] = [0x61]" by (intro utf8_text_valid utf8_valid_ascii) simp
    then show ?thesis
      by (simp add: shown_def hidden_def dirents_example_def is_self_or_parent_def described_def
        timestampFrom_def js_number_def MKFS_ROOT_ENTRIES_def)
  qed
  ultimately show ?thesis
    using listing_is_the_directory [of "[0x2F]" dirents_example "[]"] by auto
qed

text \<open>The longest path the wire's schema lets through is longer than the guest's buffer: a path of 4096
  bytes is encoded and sent, and the guest cannot read the request.\<close>

lemma longest_path_is_malformed:
  assumes "length path = PATH_MAX_BYTES"
  shows "fitsOneRequest (FsList path) = Some True \<and>
    (\<exists>body. bodyOf (FsList path) = Some body \<and> parse_operation 1 body = None)"
proof -
  obtain f where f: "field path = Some f"
    using assms by (simp add: field_def writeUInt32BE_def PATH_MAX_BYTES_def)
  then have "take_field f = Some (path, [])" using take_field_field [OF f, of "[]"] by simp
  then have "take_path f = None" using assms by (simp add: take_path_def copy_path_def)
  then show ?thesis
    using f assms field_Some [OF f]
    by (simp add: fitsOneRequest_def bodyOf_def parse_operation_def names_a_path_def BODY_MAX_BYTES_def
      PATH_MAX_BYTES_def)
qed

end
