(* ===== verification/Lifecycle.thy ===== *)
theory Lifecycle
  imports Instance_Record
begin

text \<open>
  Where a release is in its life: \<open>apps/api/src/lib/deployments/lifecycle.ts\<close> and the reading of a host's
  report in \<open>apps/api/src/services/deployments.service.ts\<close>, as functions of what was read from the
  database and of the report. An instant is in milliseconds.
\<close>

section \<open>The states\<close>

datatype DeploymentState =
  DeploymentPending | DeploymentStarting | DeploymentRunning | DeploymentStopped
  | DeploymentSuperseded | DeploymentFailed

definition terminal :: "DeploymentState \<Rightarrow> bool" where
  "terminal state = (state = DeploymentSuperseded \<or> state = DeploymentFailed)"

definition STARTUP_DEADLINE_MS :: int where "STARTUP_DEADLINE_MS = 5 * 60 * 1000"

record DeploymentLifecycle =
  dl_state :: DeploymentState
  dl_desiredRunning :: bool
  dl_createdAt :: int
  dl_stateChangedAt :: int

definition overdue :: "DeploymentLifecycle \<Rightarrow> int \<Rightarrow> bool" where
  "overdue l now =
     (let since = max (dl_createdAt l) (dl_stateChangedAt l) in
      dl_desiredRunning l \<and> now - since \<ge> STARTUP_DEADLINE_MS)"

definition stoppedOnPurpose :: "DeploymentLifecycle \<Rightarrow> InstanceState option \<Rightarrow> bool" where
  "stoppedOnPurpose l reported = (\<not> dl_desiredRunning l \<and> reported = Some Stopped)"

definition whileServing :: "DeploymentLifecycle \<Rightarrow> InstanceState option \<Rightarrow> DeploymentState" where
  "whileServing l reported =
     (if reported = Some Failed then DeploymentFailed
      else if stoppedOnPurpose l reported then DeploymentStopped else DeploymentRunning)"

definition whileStopped :: "InstanceState option \<Rightarrow> DeploymentState" where
  "whileStopped reported =
     (case reported of
        Some Running \<Rightarrow> DeploymentRunning
      | Some Idle \<Rightarrow> DeploymentRunning
      | Some Failed \<Rightarrow> DeploymentFailed
      | Some Pending \<Rightarrow> DeploymentStarting
      | Some Starting \<Rightarrow> DeploymentStarting
      | _ \<Rightarrow> DeploymentStopped)"

definition whileComingUp :: "DeploymentLifecycle \<Rightarrow> InstanceState option \<Rightarrow> int \<Rightarrow> DeploymentState" where
  "whileComingUp l reported now =
     (case reported of
        None \<Rightarrow> if overdue l now then DeploymentFailed else dl_state l
      | Some state \<Rightarrow>
          (case state of
             Pending \<Rightarrow> DeploymentStarting
           | Starting \<Rightarrow> DeploymentStarting
           | Running \<Rightarrow> DeploymentRunning
           | Idle \<Rightarrow> DeploymentRunning
           | Failed \<Rightarrow> DeploymentFailed
           | _ \<Rightarrow> if stoppedOnPurpose l reported then DeploymentStopped
                  else if overdue l now then DeploymentFailed else dl_state l))"

definition advanceState :: "DeploymentLifecycle \<Rightarrow> InstanceState option \<Rightarrow> int \<Rightarrow> DeploymentState" where
  "advanceState l reported now =
     (case dl_state l of
        DeploymentSuperseded \<Rightarrow> dl_state l
      | DeploymentFailed \<Rightarrow> dl_state l
      | DeploymentRunning \<Rightarrow> whileServing l reported
      | DeploymentStopped \<Rightarrow> whileStopped reported
      | DeploymentPending \<Rightarrow> whileComingUp l reported now
      | DeploymentStarting \<Rightarrow> whileComingUp l reported now)"

lemmas lifecycle_defs = advanceState_def whileServing_def whileStopped_def whileComingUp_def
  stoppedOnPurpose_def

section \<open>A report, read\<close>

record LiveDeploymentRow =
  ld_id :: DeploymentId
  ld_app_id :: AppId
  ld_state :: DeploymentState
  ld_created_at :: int
  ld_state_changed_at :: int
  ld_desired_running :: bool

record ReportedDeployment =
  rd_deploymentId :: DeploymentId
  rd_state :: DeploymentState
  rd_instanceState :: InstanceState
  rd_hostPort :: "HostPort option"
  rd_guestIpv4 :: "Ipv4Address option"
  rd_publicIpv4 :: "Ipv4Address option"
  rd_extraPublicPort :: "HostPort option"
  rd_restartCount :: int
  rd_message :: "string option"
  rd_startedAt :: "Timestamp option"
  rd_lastHealthyAt :: "Timestamp option"

definition NEVER_STARTED :: string where
  "NEVER_STARTED = ''No host started this deployment in time.''"

definition DATA_NOT_CREATED :: string where
  "DATA_NOT_CREATED = ''The host could not create this app's data''"

text \<open>A failure is the deployment and the message it is given.\<close>

definition dataNotCreated ::
  "LiveDeploymentRow \<Rightarrow> (AppId, ReportedVolume) jsmap \<Rightarrow> (DeploymentId \<times> string) option" where
  "dataNotCreated row volumes =
     (case (if ld_state row = DeploymentPending then js_get volumes (ld_app_id row) else None) of
        None \<Rightarrow> None
      | Some volume \<Rightarrow>
          Some (ld_id row,
            case rv_message volume of None \<Rightarrow> DATA_NOT_CREATED @ ''.''
            | Some message \<Rightarrow> DATA_NOT_CREATED @ '': '' @ message @ ''.''))"

definition toReportedDeployment :: "'share ReportedInstance \<Rightarrow> DeploymentState \<Rightarrow> ReportedDeployment" where
  "toReportedDeployment i state =
     \<lparr>rd_deploymentId = ri_deploymentId i, rd_state = state, rd_instanceState = ri_state i,
      rd_hostPort = ri_hostPort i, rd_guestIpv4 = ri_guestIpv4 i, rd_publicIpv4 = ri_publicIpv4 i,
      rd_extraPublicPort = ri_extraPublicPort i, rd_restartCount = ri_restartCount i,
      rd_message = ri_message i, rd_startedAt = ri_startedAt i, rd_lastHealthyAt = ri_lastHealthyAt i\<rparr>"

definition servedFrom :: "'share ReportedInstance option \<Rightarrow> Timestamp \<Rightarrow> Timestamp" where
  "servedFrom i reportedAt =
     (case i of None \<Rightarrow> reportedAt
      | Some i \<Rightarrow> (case ri_lastHealthyAt i of None \<Rightarrow> reportedAt | Some at \<Rightarrow> at))"

definition instances_of :: "'share HostReportedState \<Rightarrow> (DeploymentId, 'share ReportedInstance) jsmap" where
  "instances_of reported =
     js_new_map (map (\<lambda>i. (ri_deploymentId i, i)) (hr_instances reported))"

definition unprovisioned_of :: "'share HostReportedState \<Rightarrow> (AppId, ReportedVolume) jsmap" where
  "unprovisioned_of reported =
     js_new_map (map (\<lambda>v. (rv_appId v, v)) (filter (\<lambda>v. rv_state v = VolumeFailed) (hr_volumes reported)))"

definition lifecycle_of :: "LiveDeploymentRow \<Rightarrow> DeploymentLifecycle" where
  "lifecycle_of row =
     \<lparr>dl_state = ld_state row, dl_desiredRunning = ld_desired_running row,
      dl_createdAt = ld_created_at row, dl_stateChangedAt = ld_state_changed_at row\<rparr>"

text \<open>What the loop of \<open>applyHostReport\<close> makes of one live release: what was observed, whether it began
  to serve, and how it failed.\<close>

datatype row_reading = Reading (read_observed: "ReportedDeployment option") (read_activated: bool)
  (read_failed: "(DeploymentId \<times> string) option")

definition read_row :: "'share HostReportedState \<Rightarrow> int \<Rightarrow> LiveDeploymentRow \<Rightarrow> row_reading" where
  "read_row reported now row =
     (case dataNotCreated row (unprovisioned_of reported) of
        Some notCreated \<Rightarrow> Reading None False (Some notCreated)
      | None \<Rightarrow>
          (let i = js_get (instances_of reported) (ld_id row);
               state = advanceState (lifecycle_of row) (map_option ri_state i) now;
               activated = (state \<noteq> ld_state row \<and> state = DeploymentRunning) in
           case i of
             Some i \<Rightarrow> Reading (Some (toReportedDeployment i state)) activated None
           | None \<Rightarrow> Reading None activated
               (if state = DeploymentFailed then Some (ld_id row, NEVER_STARTED) else None)))"

section \<open>Properties\<close>

text \<open>
  A release only moves the way its life goes. One that is over stays as it is, whatever is reported, and
  no report supersedes one. It fails only because the host says so or, while it is coming up, because it
  was asked to run at least the startup deadline ago, and one no host has mentioned by then does fail. It
  is stopped only by a stop the owner asked for and the host confirmed. It serves only once the host
  says that the microVM runs or waits to be asked for, and it never goes back to waiting for a host.
\<close>

theorem release_life:
  assumes "advanceState l reported now = s"
  shows "(terminal (dl_state l) \<longrightarrow> s = dl_state l) \<and>
    (s = DeploymentSuperseded \<longrightarrow> dl_state l = DeploymentSuperseded) \<and>
    (s = DeploymentPending \<longrightarrow> dl_state l = DeploymentPending) \<and>
    (s = DeploymentFailed \<and> dl_state l \<noteq> DeploymentFailed \<longrightarrow>
       reported = Some Failed \<or>
       dl_state l \<in> {DeploymentPending, DeploymentStarting} \<and> dl_desiredRunning l \<and>
       dl_createdAt l + STARTUP_DEADLINE_MS \<le> now \<and> dl_stateChangedAt l + STARTUP_DEADLINE_MS \<le> now) \<and>
    (dl_state l \<in> {DeploymentPending, DeploymentStarting} \<and> reported = None \<and> overdue l now \<longrightarrow>
       s = DeploymentFailed) \<and>
    (s = DeploymentStopped \<and> dl_state l \<noteq> DeploymentStopped \<longrightarrow>
       \<not> dl_desiredRunning l \<and> reported = Some Stopped) \<and>
    (s = DeploymentRunning \<and> dl_state l \<noteq> DeploymentRunning \<longrightarrow>
       reported = Some Running \<or> reported = Some Idle)"
  using assms
  by (cases "dl_state l"; cases reported)
    (auto simp: lifecycle_defs terminal_def overdue_def Let_def max_def split: InstanceState.splits if_splits)

theorem release_life_witness:
  "advanceState \<lparr>dl_state = DeploymentStarting, dl_desiredRunning = True, dl_createdAt = 0,
       dl_stateChangedAt = 1000\<rparr> None 300000 = DeploymentStarting \<and>
   advanceState \<lparr>dl_state = DeploymentStarting, dl_desiredRunning = True, dl_createdAt = 0,
       dl_stateChangedAt = 1000\<rparr> None 301000 = DeploymentFailed"
  using release_life [of "\<lparr>dl_state = DeploymentStarting, dl_desiredRunning = True, dl_createdAt = 0,
    dl_stateChangedAt = 1000\<rparr>" None 301000, OF refl]
  by (simp add: overdue_def STARTUP_DEADLINE_MS_def lifecycle_defs)

lemma advance_terminal: "terminal (dl_state l) \<Longrightarrow> advanceState l reported now = dl_state l"
  by (auto simp: terminal_def advanceState_def)

lemma advance_not_superseded:
  "dl_state l \<noteq> DeploymentSuperseded \<Longrightarrow> advanceState l reported now \<noteq> DeploymentSuperseded"
  by (cases "dl_state l"; cases reported)
    (auto simp: lifecycle_defs split: InstanceState.splits if_splits)

lemma read_row_ids:
  "read_observed (read_row reported now row) = Some r \<Longrightarrow> rd_deploymentId r = ld_id row"
  "read_failed (read_row reported now row) = Some f \<Longrightarrow> fst f = ld_id row"
proof -
  have key: "js_get (instances_of reported) d = Some i \<Longrightarrow> ri_deploymentId i = d" for d i
    by (auto simp: instances_of_def js_simps dest!: map_of_SomeD)
  show "read_observed (read_row reported now row) = Some r \<Longrightarrow> rd_deploymentId r = ld_id row"
    by (auto simp: read_row_def Let_def toReportedDeployment_def dest: key split: option.splits if_splits)
  show "read_failed (read_row reported now row) = Some f \<Longrightarrow> fst f = ld_id row"
    by (auto simp: read_row_def Let_def dataNotCreated_def split: option.splits if_splits)
qed

end
