(* ===== verification/Secrets.thy ===== *)
theory Secrets
  imports Protocol "HOL-Library.Sublist"
begin

text \<open>
  A tenant's environment: which names and values one may hold (\<open>packages/protocol/src/schemas/app.ts\<close>,
  \<open>lib/runtime-values.ts\<close>), and how it is sealed for the database
  (\<open>apps/api/src/lib/tenant-secrets.ts\<close>, \<open>lib/app-config.ts\<close>).

  Text is the string of its UTF-8 bytes. The cipher of \<open>node:crypto\<close> is a parameter: \<open>seal key iv
  plaintext\<close> is the ciphertext and its authentication tag, \<open>unseal key iv tag ciphertext\<close> the plaintext
  or, where the tag does not authenticate it, nothing; \<open>authenticated_cipher\<close> is what AES-GCM promises
  of them.
\<close>

section \<open>Base64\<close>

definition BASE64 :: string where
  "BASE64 = ''ABCDEFGHIJKLMNOPQRSTUVWXYZabcdefghijklmnopqrstuvwxyz0123456789+/''"

fun sextets :: "nat list \<Rightarrow> nat list" where
  "sextets [] = []"
| "sextets [a] = [a div 4, (a mod 4) * 16]"
| "sextets [a, b] = [a div 4, (a mod 4) * 16 + b div 16, (b mod 16) * 4]"
| "sextets (a # b # c # rest) =
     [a div 4, (a mod 4) * 16 + b div 16, (b mod 16) * 4 + c div 64, c mod 64] @ sextets rest"

fun octets :: "nat list \<Rightarrow> nat list" where
  "octets [] = []"
| "octets [x] = []"
| "octets [x, y] = [x * 4 + y div 16]"
| "octets [x, y, z] = [x * 4 + y div 16, (y mod 16) * 16 + z div 4]"
| "octets (x # y # z # w # rest) =
     [x * 4 + y div 16, (y mod 16) * 16 + z div 4, (z mod 4) * 64 + w] @ octets rest"

definition pad64 :: "string \<Rightarrow> string" where
  "pad64 s = s @ replicate ((4 - length s mod 4) mod 4) (CHR ''='')"

text \<open>\<open>Buffer.toString('base64')\<close>, and \<open>Buffer.from(_, 'base64')\<close>, which takes the two characters of the
  url alphabet for the ones they stand for and passes over what is in neither, the padding too.\<close>

definition to_base64 :: "string \<Rightarrow> string" where
  "to_base64 s = pad64 (map (\<lambda>i. BASE64 ! i) (sextets (map of_char s)))"

definition sextet_of :: "char \<Rightarrow> nat option" where
  "sextet_of c = map_of (zip (BASE64 @ ''-_'') ([0..<64] @ [62, 63])) c"

definition from_base64 :: "string \<Rightarrow> string" where
  "from_base64 s = map char_of (octets (List.map_filter sextet_of s))"

lemma byte_parts:
  fixes x :: nat
  assumes "x < 256"
  shows "x div 16 div 16 = 0" "x div 16 mod 16 = x div 16" "x div 64 div 4 = 0" "x div 64 mod 4 = x div 64"
  using assms by auto

lemma octets_of_sextets: "\<forall>b \<in> set bs. b < 256 \<Longrightarrow> octets (sextets bs) = bs"
  by (induction bs rule: sextets.induct) (simp_all add: byte_parts)

lemma sextets_bounded: "\<forall>b \<in> set bs. b < 256 \<Longrightarrow> \<forall>i \<in> set (sextets bs). i < 64"
  by (induction bs rule: sextets.induct) auto

lemma sextet_of_alphabet: "i < 64 \<Longrightarrow> sextet_of (BASE64 ! i) = Some i"
proof -
  have "\<forall>i \<in> set [0..<64]. sextet_of (BASE64 ! i) = Some i"
    by code_simp
  then show "i < 64 \<Longrightarrow> sextet_of (BASE64 ! i) = Some i"
    by simp
qed

lemma from_to_base64: "from_base64 (to_base64 s) = s"
proof -
  let ?bs = "map of_char s :: nat list"
  have "\<forall>b \<in> set ?bs. b < 256"
    by auto
  note bounds = octets_of_sextets [OF this] sextets_bounded [OF this]
  have pad: "List.map_filter sextet_of (replicate n (CHR ''='')) = []" for n
  proof -
    have "sextet_of (CHR ''='') = None"
      by code_simp
    then show ?thesis
      by (induction n) (simp_all add: List.map_filter_simps)
  qed
  have app: "List.map_filter f (xs @ ys) = List.map_filter f xs @ List.map_filter f ys" for f :: "char \<Rightarrow> nat option" and xs ys
    by (simp add: List.map_filter_def)
  have chars: "\<forall>i \<in> set is. i < 64 \<Longrightarrow> List.map_filter sextet_of (map ((!) BASE64) is) = is" for "is"
    by (induction "is") (simp_all add: List.map_filter_simps sextet_of_alphabet)
  show ?thesis
    using bounds
    by (simp add: from_base64_def to_base64_def pad64_def app pad chars)
qed

lemma to_base64_alphabet: "set (to_base64 s) \<subseteq> insert (CHR ''='') (set BASE64)"
proof -
  have "length BASE64 = 64"
    by code_simp
  then show ?thesis
    using sextets_bounded [of "map of_char s"]
    by (fastforce simp: to_base64_def pad64_def)
qed

section \<open>The envelope\<close>

definition ENVELOPE_VERSION :: string where "ENVELOPE_VERSION = ''v1''"
definition ENVELOPE_SEPARATOR :: char where "ENVELOPE_SEPARATOR = CHR ''.''"
definition TAG_BYTES :: nat where "TAG_BYTES = 16"

fun split_at :: "char \<Rightarrow> string \<Rightarrow> string list" where
  "split_at sep [] = [[]]"
| "split_at sep (c # s) =
     (if c = sep then [] # split_at sep s
      else case split_at sep s of p # ps \<Rightarrow> (c # p) # ps | [] \<Rightarrow> [[c]])"

definition join_with :: "char \<Rightarrow> string list \<Rightarrow> string" where
  "join_with sep parts = concat (case parts of [] \<Rightarrow> [] | p # ps \<Rightarrow> p # map (\<lambda>q. sep # q) ps)"

lemma split_plain: "sep \<notin> set p \<Longrightarrow> split_at sep p = [p]"
  by (induction p) auto

lemma split_join_head: "sep \<notin> set p \<Longrightarrow> split_at sep (p @ sep # rest) = p # split_at sep rest"
  by (induction p) auto

type_synonym ('key) seal_with = "'key \<Rightarrow> string \<Rightarrow> string \<Rightarrow> string \<times> string"
type_synonym ('key) unseal_with = "'key \<Rightarrow> string \<Rightarrow> string \<Rightarrow> string \<Rightarrow> string option"

definition sealSecret :: "'key seal_with \<Rightarrow> 'key \<Rightarrow> string \<Rightarrow> string \<Rightarrow> string" where
  "sealSecret seal key iv plaintext =
     (case seal key iv plaintext of (sealed, tag) \<Rightarrow>
        join_with ENVELOPE_SEPARATOR [ENVELOPE_VERSION, to_base64 iv, to_base64 tag, to_base64 sealed])"

datatype secret_error = UnknownScheme | NoUsableTag | NotAuthentic | BadEnvironmentName

definition openSecret :: "'key unseal_with \<Rightarrow> 'key \<Rightarrow> string \<Rightarrow> (secret_error, string) result" where
  "openSecret unseal key sealed =
     (case split_at ENVELOPE_SEPARATOR sealed of
        version # iv # tag # rest \<Rightarrow>
          if version \<noteq> ENVELOPE_VERSION then Inl UnknownScheme
          else if length (from_base64 tag) \<noteq> TAG_BYTES then Inl NoUsableTag
          else (case unseal key (from_base64 iv) (from_base64 tag)
                  (from_base64 (case rest of [] \<Rightarrow> [] | ciphertext # _ \<Rightarrow> ciphertext)) of
                  None \<Rightarrow> Inl NotAuthentic
                | Some plaintext \<Rightarrow> Inr plaintext)
      | _ \<Rightarrow> Inl UnknownScheme)"

text \<open>What AES-GCM promises: a tag of sixteen bytes, and that what was sealed opens again.\<close>

definition authenticated_cipher :: "'key seal_with \<Rightarrow> 'key unseal_with \<Rightarrow> bool" where
  "authenticated_cipher seal unseal \<longleftrightarrow>
     (\<forall>key iv plaintext sealed tag. seal key iv plaintext = (sealed, tag) \<longrightarrow>
        length tag = TAG_BYTES \<and> unseal key iv tag sealed = Some plaintext)"

lemma open_sealed:
  assumes "authenticated_cipher seal unseal"
  shows "openSecret unseal key (sealSecret seal key iv plaintext) = Inr plaintext"
proof -
  obtain sealed tag where s: "seal key iv plaintext = (sealed, tag)"
    by (cases "seal key iv plaintext")
  have dot: "ENVELOPE_SEPARATOR \<notin> set (to_base64 t)" for t
  proof -
    have "CHR ''.'' \<notin> insert (CHR ''='') (set BASE64)"
      by code_simp
    then show ?thesis
      using to_base64_alphabet [of t] by (auto simp: ENVELOPE_SEPARATOR_def)
  qed
  have v: "ENVELOPE_SEPARATOR \<notin> set ENVELOPE_VERSION"
    by code_simp
  have "split_at ENVELOPE_SEPARATOR (sealSecret seal key iv plaintext) =
    [ENVELOPE_VERSION, to_base64 iv, to_base64 tag, to_base64 sealed]"
    by (simp add: sealSecret_def s join_with_def split_join_head split_plain dot v)
  then show ?thesis
    using assms s by (simp add: authenticated_cipher_def openSecret_def from_to_base64)
qed

section \<open>Names and values\<close>

definition name_char :: "char \<Rightarrow> bool" where
  "name_char c =
     (let n = of_char c :: nat in 65 \<le> n \<and> n \<le> 90 \<or> 97 \<le> n \<and> n \<le> 122 \<or> 48 \<le> n \<and> n \<le> 57 \<or> n = 95)"

text \<open>\<open>ENVIRONMENT_NAME_PATTERN\<close>.\<close>

definition valid_name :: "string \<Rightarrow> bool" where
  "valid_name name =
     (case name of [] \<Rightarrow> False
      | c # rest \<Rightarrow>
          name \<noteq> ''__proto__'' \<and> name_char c \<and> \<not> (48 \<le> (of_char c :: nat) \<and> (of_char c :: nat) \<le> 57) \<and>
          list_all name_char rest)"

definition RUNTIME_VALUE_NAMES :: "string list" where
  "RUNTIME_VALUE_NAMES =
     [''NIBRUN_DATA_DIR'', ''NIBRUN_EXTRA_PUBLIC_PORT'', ''NIBRUN_HOSTNAME'', ''NIBRUN_HTTP_PORT'',
      ''NIBRUN_PUBLIC_IPV4'']"

definition interpolableRuntimeValue :: "string \<Rightarrow> string" where
  "interpolableRuntimeValue name = ''$'' @ ''{'' @ name @ ''}''"

text \<open>What a dollar sign may not be followed by: \<open>{NIBRUN_}\<close> with name characters before the brace.\<close>

definition runtime_reference :: "string \<Rightarrow> bool" where
  "runtime_reference s =
     (prefix (''{'' @ ''NIBRUN_'') s \<and>
      (case dropWhile name_char (drop (length (''{'' @ ''NIBRUN_'')) s) of [] \<Rightarrow> False | c # _ \<Rightarrow> c = CHR ''}''))"

text \<open>\<open>TENANT_VALUE_PATTERN\<close>.\<close>

fun valid_value :: "string \<Rightarrow> bool" where
  "valid_value [] = True"
| "valid_value (c # s) =
     (if c \<noteq> CHR ''$'' \<or> \<not> runtime_reference s then valid_value s
      else list_ex (\<lambda>name. prefix (interpolableRuntimeValue name) (c # s)) RUNTIME_VALUE_NAMES \<and>
           valid_value s)"

text \<open>The length JavaScript counts, in UTF-16 units.\<close>

fun text_length :: "string \<Rightarrow> int" where
  "text_length [] = 0"
| "text_length (c # s) =
     (let n = of_char c :: int in
      (if 128 \<le> n \<and> n < 192 then 0 else if 240 \<le> n then 2 else 1) + text_length s)"

definition MAX_SECRET_LENGTH :: int where "MAX_SECRET_LENGTH = 32768"

definition valid_environment :: "(string, string) jsmap \<Rightarrow> bool" where
  "valid_environment environment =
     list_all (\<lambda>(name, v). valid_name name \<and> valid_value v \<and> text_length v \<le> MAX_SECRET_LENGTH) environment"

definition EXTRA_PUBLIC_PORT_VALUES :: "string list" where
  "EXTRA_PUBLIC_PORT_VALUES = [''NIBRUN_EXTRA_PUBLIC_PORT'', ''NIBRUN_PUBLIC_IPV4'']"

definition namesExtraPublicPortValues :: "string \<Rightarrow> bool" where
  "namesExtraPublicPortValues v =
     list_ex (\<lambda>s. list_ex (\<lambda>name. prefix (interpolableRuntimeValue name) s) EXTRA_PUBLIC_PORT_VALUES) (suffixes v)"

section \<open>Environments\<close>

definition sealEnvironment ::
  "'key seal_with \<Rightarrow> 'key \<Rightarrow> string list \<Rightarrow> (string, string) jsmap \<Rightarrow> (string, string) jsmap" where
  "sealEnvironment seal key ivs environment =
     map (\<lambda>(iv, name, v). (name, sealSecret seal key iv v)) (zip ivs environment)"

fun openAll :: "'key unseal_with \<Rightarrow> 'key \<Rightarrow> (string, string) jsmap \<Rightarrow> (secret_error, (string, string) jsmap) result" where
  "openAll unseal key [] = Inr []"
| "openAll unseal key ((name, sealed) # rest) =
     bind_result (openSecret unseal key sealed)
       (\<lambda>v. bind_result (openAll unseal key rest) (\<lambda>opened. Inr ((name, v) # opened)))"

definition openEnvironment ::
  "'key unseal_with \<Rightarrow> 'key \<Rightarrow> (string, string) jsmap \<Rightarrow> (secret_error, (string, string) jsmap) result" where
  "openEnvironment unseal key sealed =
     bind_result (openAll unseal key sealed)
       (\<lambda>opened. if valid_environment opened then Inr opened else Inl BadEnvironmentName)"

text \<open>Rows of one relation grouped by whom they belong to.\<close>

definition sealedEnvironmentBy ::
  "('row \<Rightarrow> string) \<Rightarrow> ('row \<Rightarrow> string) \<Rightarrow> ('row \<Rightarrow> string) \<Rightarrow> 'row list \<Rightarrow> (string, (string, string) jsmap) jsmap" where
  "sealedEnvironmentBy owner name sealed rows =
     fold (\<lambda>row byOwner.
       let environment = (case js_get byOwner (owner row) of None \<Rightarrow> [] | Some e \<Rightarrow> e) in
       js_set (owner row) (js_set (name row) (sealed row) environment) byOwner) rows []"

text \<open>An edit: a variable set, or taken away by a null.\<close>

definition splitEnvironmentPatch ::
  "(string, string option) jsmap \<Rightarrow> (string, string) jsmap \<times> string list" where
  "splitEnvironmentPatch environment =
     (List.map_filter (\<lambda>(name, v). map_option (Pair name) v) environment,
      map fst (filter (\<lambda>(_, v). v = None) environment))"

definition REDACTED :: string where "REDACTED = ''[redacted]''"

definition refuseRedactedValues :: "(string, string) jsmap \<Rightarrow> string list option" where
  "refuseRedactedValues environment =
     (let echoed = map fst (filter (\<lambda>(_, v). v = REDACTED) environment) in
      if echoed = [] then None else Some echoed)"

definition refuseValuesNeedingAPort :: "(string, string) jsmap \<Rightarrow> bool \<Rightarrow> string list option" where
  "refuseValuesNeedingAPort environment hasExtraPublicPort =
     (if hasExtraPublicPort then None
      else let naming = map fst (filter (\<lambda>(_, v). namesExtraPublicPortValues v) environment) in
        if naming = [] then None else Some naming)"

section \<open>Properties\<close>

lemma open_sealed_all:
  "authenticated_cipher seal unseal \<Longrightarrow> length environment \<le> length ivs \<Longrightarrow>
    openAll unseal key (sealEnvironment seal key ivs environment) = Inr environment"
proof (induction environment arbitrary: ivs)
  case (Cons e environment)
  then show ?case
    by (cases ivs; cases e) (simp_all add: sealEnvironment_def open_sealed)
qed (simp add: sealEnvironment_def)

lemma open_all_names: "openAll unseal key sealed = Inr opened \<Longrightarrow> map fst opened = map fst sealed"
  by (induction unseal key sealed arbitrary: opened rule: openAll.induct) (auto simp: bind_result_Inr_iff)

text \<open>
  C40. What an owner sets is what a host is handed. With a cipher that opens what it sealed and an iv for each
  value, the environment stored for an app opens to the one that was set, variable by variable and byte
  by byte, when its names and values are ones the schema allows; one with a name or a value the schema
  does not allow is refused whole and never handed over with the variable missing.
\<close>

theorem environment_round_trip:
  assumes "authenticated_cipher seal unseal" and "length environment \<le> length ivs"
  shows "openEnvironment unseal key (sealEnvironment seal key ivs environment) =
    (if valid_environment environment then Inr environment else Inl BadEnvironmentName)"
  using assms by (simp add: openEnvironment_def open_sealed_all)

theorem environment_round_trip_witness:
  "openEnvironment (\<lambda>key iv tag c. if tag = replicate 16 (CHR ''t'') then Some c else None) ()
     (sealEnvironment (\<lambda>key iv p. (p, replicate 16 (CHR ''t''))) () [''a'', ''b'']
       [(''PORT'', ''3000''), (''URL'', ''https://example.com'')]) =
   Inr [(''PORT'', ''3000''), (''URL'', ''https://example.com'')]"
proof -
  have "authenticated_cipher (\<lambda>(key :: unit) iv p. (p, replicate 16 (CHR ''t'')))
    (\<lambda>key iv tag c. if tag = replicate 16 (CHR ''t'') then Some c else None)"
    by (simp add: authenticated_cipher_def TAG_BYTES_def)
  moreover have "valid_environment [(''PORT'', ''3000''), (''URL'', ''https://example.com'')]"
    by code_simp
  ultimately show ?thesis
    using environment_round_trip [of "\<lambda>(key :: unit) iv p. (p, replicate 16 (CHR ''t''))"
      "\<lambda>key iv tag c. if tag = replicate 16 (CHR ''t'') then Some c else None"
      "[(''PORT'', ''3000''), (''URL'', ''https://example.com'')]" "[''a'', ''b'']" "()"]
    by simp
qed

end
