(* ===== verification/Tables.thy ===== *)
theory Tables
  imports Lifecycle Secrets
begin

text \<open>
  The control plane's database, as the repositories of \<open>apps/api/src/repositories\<close> read and write it, with
  the column types of \<open>apps/api/src/db/queries.gen.ts\<close>.

  A table is the list of its rows. An id is a \<open>uuidv7\<close>, so rows are kept in the order of their ids, which
  is the order they were made in; \<open>ORDER BY id DESC LIMIT 1\<close> is the last row that matches. A method runs
  in one transaction behind the lock on the app's row and is one step; one that throws leaves the
  database as it was. The ids and the instant a row is made with are arguments. The environment
  variables of a configuration, a table of their own, are kept with it. A view is a function of the
  tables. What the triggers write, \<open>updated_at\<close>, is written here for \<open>apps\<close>, where it is read.
\<close>

section \<open>Rows\<close>

type_synonym OwnerId = string
type_synonym ArtifactId = string
type_synonym ImportId = string
type_synonym ConfigId = string
type_synonym SealedSecret = string
type_synonym SealedEnvironment = "(string, SealedSecret) jsmap"

datatype AppState = AppActive | AppSuspended | AppDeleting | AppDeleted

datatype AppActivation = AlwaysActivation | OnRequestActivation

datatype AppHostnameState = HostnamePending | HostnameActive | HostnameFailed

datatype VolumeStorageMigrationState =
  MigrationPending | MigrationCompleted | MigrationFailed | MigrationCancelled

record ProfileRow =
  pf_owner :: OwnerId
  pf_quotaApps :: int
  pf_appLifetimeSeconds :: "int option"

record AppRow =
  ap_id :: AppId
  ap_owner :: OwnerId
  ap_name :: string
  ap_slug :: string
  ap_state :: AppState
  ap_activation :: AppActivation
  ap_idleTimeoutMs :: int
  ap_createdAt :: int
  ap_updatedAt :: int
  ap_dataInitializedAt :: "int option"
  ap_migrationState :: "VolumeStorageMigrationState option"
  ap_migrationMessage :: "string option"
  ap_migrationStartedAt :: "int option"
  ap_migrationHostId :: "HostId option"

record ArtifactRow =
  ar_id :: ArtifactId
  ar_appId :: AppId
  ar_digest :: "Sha256Digest option"
  ar_sizeBytes :: int
  ar_objectKey :: "ObjectKey option"
  ar_filename :: string
  ar_sourceDigest :: "string option"
  ar_createdAt :: int

type_synonym ImportRow = ArtifactRow

text \<open>How an app is run, by column.\<close>

record RunConfigColumns =
  http_port :: HttpPort
  has_extra_public_port :: bool
  args :: "string list"
  vcpu_count :: int
  memory_mib :: int
  health_check_path :: "string option"
  health_check_interval_ms :: int
  health_check_timeout_ms :: int
  health_check_grace_period_ms :: int
  health_check_healthy_threshold :: int
  health_check_unhealthy_threshold :: int
  restart_max_restarts :: int
  restart_initial_backoff_ms :: int
  restart_max_backoff_ms :: int
  restart_backoff_factor :: int
  restart_reset_after_ms :: int

text \<open>Where an app's volume is stored, all null for the shared storage; secrets are sealed.\<close>

record StoredVolumeStorage =
  volume_storage_endpoint :: "string option"
  volume_storage_bucket :: "string option"
  volume_storage_prefix :: "string option"
  volume_storage_region :: "string option"
  volume_storage_auth_kind :: "string option"
  volume_storage_access_key_id :: "string option"
  volume_storage_secret_access_key :: "SealedSecret option"
  volume_storage_session_token :: "SealedSecret option"
  volume_storage_encryption_password :: "SealedSecret option"

definition no_storage :: StoredVolumeStorage where
  "no_storage =
     \<lparr>volume_storage_endpoint = None, volume_storage_bucket = None, volume_storage_prefix = None,
      volume_storage_region = None, volume_storage_auth_kind = None, volume_storage_access_key_id = None,
      volume_storage_secret_access_key = None, volume_storage_session_token = None,
      volume_storage_encryption_password = None\<rparr>"

record ConfigRow =
  cf_id :: ConfigId
  cf_appId :: AppId
  cf_run :: RunConfigColumns
  cf_environment :: SealedEnvironment
  cf_storage :: StoredVolumeStorage
  cf_createdAt :: int

record HostnameRow =
  hm_appId :: AppId
  hm_hostname :: string
  hm_kind :: AppHostnameKind
  hm_state :: AppHostnameState
  hm_cloudflareId :: "string option"

record DeploymentRow =
  dp_id :: DeploymentId
  dp_appId :: AppId
  dp_artifactId :: ArtifactId
  dp_configId :: ConfigId
  dp_initialData :: "ImportId option"
  dp_rollbackOf :: "DeploymentId option"
  dp_grantId :: "string option"
  dp_mcpClientId :: "string option"
  dp_mcpChatId :: "string option"
  dp_hostId :: HostId
  dp_state :: DeploymentState
  dp_instanceState :: "InstanceState option"
  dp_hostPort :: "HostPort option"
  dp_guestIpv4 :: "Ipv4Address option"
  dp_publicIpv4 :: "Ipv4Address option"
  dp_extraPublicPort :: "HostPort option"
  dp_restartCount :: int
  dp_message :: "string option"
  dp_startedAt :: "Timestamp option"
  dp_lastHealthyAt :: "Timestamp option"
  dp_activatedAt :: "Timestamp option"
  dp_createdAt :: int

record ExportRow =
  ex_id :: ExportId
  ex_appId :: AppId
  ex_artifactId :: ArtifactId
  ex_configId :: "ConfigId option"
  ex_state :: ExportState
  ex_checkpointId :: "CheckpointId option"
  ex_sizeBytes :: "int option"
  ex_message :: "string option"
  ex_readyAt :: "Timestamp option"
  ex_expiresAt :: int
  ex_createdAt :: int

record HostRow =
  hs_id :: HostId
  hs_originId :: string
  hs_reportedState :: HostState
  hs_lastSeenAt :: "int option"

text \<open>A grant is as the view \<open>valid_github_deployment_grants\<close> shows it.\<close>

record Grant =
  gr_id :: string
  gr_appId :: AppId
  gr_owner :: OwnerId

record Database =
  db_profiles :: "ProfileRow list"
  db_apps :: "AppRow list"
  db_configs :: "ConfigRow list"
  db_hostnames :: "HostnameRow list"
  db_artifacts :: "ArtifactRow list"
  db_imports :: "ImportRow list"
  db_deployments :: "DeploymentRow list"
  db_exports :: "ExportRow list"
  db_hosts :: "HostRow list"
  db_grants :: "Grant list"

text \<open>What a transaction raises: a refusal the caller is told, a unique index, or a broken database.\<close>

definition empty_database :: "ProfileRow list \<Rightarrow> Database" where
  "empty_database profiles =
     \<lparr>db_profiles = profiles, db_apps = [], db_configs = [], db_hostnames = [], db_artifacts = [],
      db_imports = [], db_deployments = [], db_exports = [], db_hosts = [], db_grants = []\<rparr>"

datatype db_error = ConflictError string | UniqueViolation string | DatabaseError string

section \<open>Reading\<close>

definition live :: "DeploymentRow \<Rightarrow> bool" where
  "live d = (\<not> terminal (dp_state d))"

definition newest :: "('a \<Rightarrow> bool) \<Rightarrow> 'a list \<Rightarrow> 'a option" where
  "newest p rows = (case filter p rows of [] \<Rightarrow> None | r # rs \<Rightarrow> Some (last (r # rs)))"

definition owned_app :: "Database \<Rightarrow> AppId \<Rightarrow> OwnerId \<Rightarrow> AppRow option" where
  "owned_app db appId ownerId =
     find (\<lambda>a. ap_id a = appId \<and> ap_owner a = ownerId \<and> ap_state a \<noteq> AppDeleted) (db_apps db)"

definition newest_deployment :: "Database \<Rightarrow> AppId \<Rightarrow> DeploymentRow option" where
  "newest_deployment db appId = newest (\<lambda>d. dp_appId d = appId) (db_deployments db)"

definition newest_config :: "Database \<Rightarrow> AppId \<Rightarrow> ConfigRow option" where
  "newest_config db appId = newest (\<lambda>c. cf_appId c = appId) (db_configs db)"

definition config_by_id :: "Database \<Rightarrow> ConfigId \<Rightarrow> ConfigRow option" where
  "config_by_id db configId = find (\<lambda>c. cf_id c = configId) (db_configs db)"

text \<open>The view \<open>app_hosts\<close>: an app is on the host of its latest deployment.\<close>

definition app_host :: "Database \<Rightarrow> AppId \<Rightarrow> HostId option" where
  "app_host db appId = map_option dp_hostId (newest_deployment db appId)"

definition alreadyDeployed :: "Database \<Rightarrow> AppId \<Rightarrow> bool" where
  "alreadyDeployed db appId = list_ex (\<lambda>d. dp_appId d = appId) (db_deployments db)"

definition export_in_flight :: "ExportRow \<Rightarrow> bool" where
  "export_in_flight e = (ex_state e = ExportPending \<or> ex_state e = ExportPreparing)"

section \<open>Writing\<close>

definition update_apps :: "int \<Rightarrow> (AppRow \<Rightarrow> bool) \<Rightarrow> (AppRow \<Rightarrow> AppRow) \<Rightarrow> Database \<Rightarrow> Database" where
  "update_apps now p change db =
     db\<lparr>db_apps := map (\<lambda>a. if p a then (change a)\<lparr>ap_updatedAt := now\<rparr> else a) (db_apps db)\<rparr>"

definition lockApp :: "Database \<Rightarrow> AppId \<Rightarrow> OwnerId \<Rightarrow> AppRow option" where
  "lockApp db appId ownerId = owned_app db appId ownerId"

definition STORAGE_MIGRATION_PENDING :: string where
  "STORAGE_MIGRATION_PENDING = ''Cannot change this app while its storage migration is pending.''"

definition lockAppForMutation :: "Database \<Rightarrow> AppId \<Rightarrow> OwnerId \<Rightarrow> (db_error, bool) result" where
  "lockAppForMutation db appId ownerId =
     (case lockApp db appId ownerId of
        None \<Rightarrow> Inr False
      | Some a \<Rightarrow>
          if ap_migrationState a = Some MigrationPending then Inl (ConflictError STORAGE_MIGRATION_PENDING)
          else Inr True)"

section \<open>Configurations\<close>

text \<open>\<open>toRunConfig\<close> of \<open>lib/app-config.ts\<close> leaves the environment to its caller: it is empty here.\<close>

definition toRunConfig :: "RunConfigColumns \<Rightarrow> AppConfig" where
  "toRunConfig row =
     \<lparr>cfg_httpPort = http_port row, cfg_hasExtraPublicPort = has_extra_public_port row, cfg_args = args row,
      cfg_environment = [],
      cfg_resources = \<lparr>vcpuCount = vcpu_count row, memoryMib = memory_mib row\<rparr>,
      cfg_healthCheck = \<lparr>hc_path = health_check_path row, hc_intervalMs = health_check_interval_ms row,
        hc_timeoutMs = health_check_timeout_ms row, hc_gracePeriodMs = health_check_grace_period_ms row,
        hc_healthyThreshold = health_check_healthy_threshold row,
        hc_unhealthyThreshold = health_check_unhealthy_threshold row\<rparr>,
      cfg_restartPolicy = \<lparr>rp_maxRestarts = restart_max_restarts row,
        rp_initialBackoffMs = restart_initial_backoff_ms row, rp_maxBackoffMs = restart_max_backoff_ms row,
        rp_backoffFactor = restart_backoff_factor row, rp_resetAfterMs = restart_reset_after_ms row\<rparr>\<rparr>"

text \<open>The columns the statements that insert a configuration write it to.\<close>

definition config_columns :: "AppConfig \<Rightarrow> RunConfigColumns" where
  "config_columns config =
     \<lparr>http_port = cfg_httpPort config, has_extra_public_port = cfg_hasExtraPublicPort config,
      args = cfg_args config, vcpu_count = vcpuCount (cfg_resources config),
      memory_mib = memoryMib (cfg_resources config), health_check_path = hc_path (cfg_healthCheck config),
      health_check_interval_ms = hc_intervalMs (cfg_healthCheck config),
      health_check_timeout_ms = hc_timeoutMs (cfg_healthCheck config),
      health_check_grace_period_ms = hc_gracePeriodMs (cfg_healthCheck config),
      health_check_healthy_threshold = hc_healthyThreshold (cfg_healthCheck config),
      health_check_unhealthy_threshold = hc_unhealthyThreshold (cfg_healthCheck config),
      restart_max_restarts = rp_maxRestarts (cfg_restartPolicy config),
      restart_initial_backoff_ms = rp_initialBackoffMs (cfg_restartPolicy config),
      restart_max_backoff_ms = rp_maxBackoffMs (cfg_restartPolicy config),
      restart_backoff_factor = rp_backoffFactor (cfg_restartPolicy config),
      restart_reset_after_ms = rp_resetAfterMs (cfg_restartPolicy config)\<rparr>"

lemma columns_of_run_config [simp]: "config_columns (toRunConfig row) = row"
  by (simp add: config_columns_def toRunConfig_def)

text \<open>What an edit sets and takes away; \<open>environment\<close> is what it sets, sealed, and the names it removes.\<close>

record SealedConfigPatch =
  pt_httpPort :: "HttpPort option"
  pt_hasExtraPublicPort :: "bool option"
  pt_args :: "string list option"
  pt_environment :: "(SealedEnvironment \<times> string list) option"

definition empty_patch :: SealedConfigPatch where
  "empty_patch = \<lparr>pt_httpPort = None, pt_hasExtraPublicPort = None, pt_args = None, pt_environment = None\<rparr>"

definition patched_config :: "SealedConfigPatch \<Rightarrow> AppConfig \<Rightarrow> AppConfig" where
  "patched_config patch config =
     config\<lparr>cfg_httpPort := (case pt_httpPort patch of None \<Rightarrow> cfg_httpPort config | Some p \<Rightarrow> p),
            cfg_hasExtraPublicPort := (case pt_hasExtraPublicPort patch of
              None \<Rightarrow> cfg_hasExtraPublicPort config | Some p \<Rightarrow> p),
            cfg_args := (case pt_args patch of None \<Rightarrow> cfg_args config | Some p \<Rightarrow> p)\<rparr>"

text \<open>The variables of the version before that the edit does not name, and then those it sets.\<close>

definition carryEnvironmentForward :: "SealedEnvironment \<Rightarrow> string list \<Rightarrow> SealedEnvironment" where
  "carryEnvironmentForward old names = filter (\<lambda>(name, _). name \<in> set names) old"

definition patched_environment :: "SealedConfigPatch \<Rightarrow> SealedEnvironment \<Rightarrow> SealedEnvironment" where
  "patched_environment patch old =
     (let environment = (case pt_environment patch of None \<Rightarrow> ([], []) | Some e \<Rightarrow> e);
          edited = map fst (fst environment) @ snd environment in
      carryEnvironmentForward old (filter (\<lambda>name. name \<notin> set edited) (map fst old)) @ fst environment)"

definition appendConfigVersion ::
  "ConfigId \<Rightarrow> int \<Rightarrow> AppId \<Rightarrow> SealedConfigPatch \<Rightarrow> StoredVolumeStorage option \<Rightarrow> Database \<Rightarrow>
     (db_error, Database) result" where
  "appendConfigVersion newId now appId patch storage db =
     (case newest_config db appId of
        None \<Rightarrow> Inl (DatabaseError ''An app exists with no config.'')
      | Some current \<Rightarrow>
          Inr (db\<lparr>db_configs := db_configs db @
            [\<lparr>cf_id = newId, cf_appId = appId,
              cf_run = config_columns (patched_config patch (toRunConfig (cf_run current))),
              cf_environment = patched_environment patch (cf_environment current),
              cf_storage = (case storage of None \<Rightarrow> cf_storage current | Some s \<Rightarrow> s),
              cf_createdAt = now\<rparr>]\<rparr>))"

section \<open>The newest row\<close>

named_theorems newest_simps \<open>the newest row of a table that was changed\<close>

lemma newest_Nil [newest_simps]: "newest p [] = None"
  by (simp add: newest_def)

lemma newest_append [newest_simps]:
  "newest p (xs @ [x]) = (if p x then Some x else newest p xs)"
proof -
  have "newest p rows = (if filter p rows = [] then None else Some (last (filter p rows)))" for rows
    by (simp add: newest_def split: list.split)
  then show ?thesis
    by simp
qed

lemma newest_map:
  "(\<And>x. x \<in> set xs \<Longrightarrow> p (f x) = p x) \<Longrightarrow> newest p (map f xs) = map_option f (newest p xs)"
proof (induction xs rule: rev_induct)
  case (snoc x xs)
  then have "newest p (map f (xs @ [x])) = (if p (f x) then Some (f x) else newest p (map f xs))"
    by (simp add: newest_append)
  then show ?case
    using snoc by (simp add: newest_append)
qed (simp add: newest_Nil)

lemma newest_filter:
  "(\<And>x. p x \<Longrightarrow> q x) \<Longrightarrow> newest p (filter q xs) = newest p xs"
  by (induction xs rule: rev_induct) (auto simp: newest_simps)

lemma newest_filter_out:
  "(\<And>x. p x \<Longrightarrow> \<not> q x) \<Longrightarrow> newest p (filter q xs) = None"
  by (induction xs rule: rev_induct) (auto simp: newest_simps)

lemma newest_None: "newest p xs = None \<longleftrightarrow> (\<forall>x \<in> set xs. \<not> p x)"
  by (induction xs rule: rev_induct) (auto simp: newest_simps)

lemma newest_Some: "newest p xs = Some x \<Longrightarrow> x \<in> set xs \<and> p x"
  by (induction xs rule: rev_induct) (auto simp: newest_simps split: if_splits)

lemma owned_app_Some:
  "owned_app db appId ownerId = Some a \<Longrightarrow>
    a \<in> set (db_apps db) \<and> ap_id a = appId \<and> ap_owner a = ownerId \<and> ap_state a \<noteq> AppDeleted"
  by (auto simp: owned_app_def find_Some_iff)

lemma lock_Inr:
  "lockAppForMutation db appId ownerId = Inr b \<Longrightarrow>
    (b \<longleftrightarrow> owned_app db appId ownerId \<noteq> None) \<and>
    (\<forall>a. owned_app db appId ownerId = Some a \<longrightarrow> ap_migrationState a \<noteq> Some MigrationPending)"
  by (auto simp: lockAppForMutation_def lockApp_def split: option.splits if_splits)

end
