(* ===== verification/Wire.thy ===== *)
theory Wire
  imports Secrets
begin

text \<open>
  The schemas the messages are made of: the scalar types of \<open>packages/protocol/src/lib/wire.ts\<close> and the
  parts of a configuration in \<open>schemas/app.ts\<close> and \<open>schemas/instance.ts\<close>, as the checks TypeBox makes of a
  value. A pattern is spelled out on the characters it names; \<open>maxLength\<close> counts UTF-16 units
  (\<open>text_length\<close>), which for the patterns here are characters.
\<close>

section \<open>Scalars\<close>

definition MAX_IDENTIFIER_LENGTH :: nat where "MAX_IDENTIFIER_LENGTH = 63"
definition SHA256_HEX_LENGTH :: nat where "SHA256_HEX_LENGTH = 64"
definition MAX_HOSTNAME_LENGTH :: nat where "MAX_HOSTNAME_LENGTH = 253"
definition MAX_OBJECT_KEY_LENGTH :: int where "MAX_OBJECT_KEY_LENGTH = 1024"
definition MAX_FILENAME_LENGTH :: nat where "MAX_FILENAME_LENGTH = 127"
definition MIN_PORT :: nat where "MIN_PORT = 1"
definition MAX_PORT :: nat where "MAX_PORT = 65535"

definition digit_char :: "char \<Rightarrow> bool" where
  "digit_char c = (let n = of_char c :: int in 48 \<le> n \<and> n \<le> 57)"

definition lower_char :: "char \<Rightarrow> bool" where
  "lower_char c = (let n = of_char c :: int in 97 \<le> n \<and> n \<le> 122)"

definition upper_char :: "char \<Rightarrow> bool" where
  "upper_char c = (let n = of_char c :: int in 65 \<le> n \<and> n \<le> 90)"

definition alnum_char :: "char \<Rightarrow> bool" where
  "alnum_char c = (digit_char c \<or> lower_char c \<or> upper_char c)"

text \<open>\<open>^[0-9A-Za-z][0-9A-Za-z_-]{0,62}$\<close>.\<close>

definition IdentifierSchema :: "string \<Rightarrow> bool" where
  "IdentifierSchema s =
     (case s of [] \<Rightarrow> False
      | c # rest \<Rightarrow> alnum_char c \<and> list_all (\<lambda>c. alnum_char c \<or> c = CHR ''_'' \<or> c = CHR ''-'') rest \<and>
          length s \<le> MAX_IDENTIFIER_LENGTH)"

text \<open>\<open>^[0-9a-f]{64}$\<close>.\<close>

definition hex_char :: "char \<Rightarrow> bool" where
  "hex_char c = (digit_char c \<or> (let n = of_char c :: int in 97 \<le> n \<and> n \<le> 102))"

definition Sha256DigestSchema :: "string \<Rightarrow> bool" where
  "Sha256DigestSchema s = (length s = SHA256_HEX_LENGTH \<and> list_all hex_char s)"

definition ByteSizeSchema :: "int \<Rightarrow> bool" where
  "ByteSizeSchema n = (0 \<le> n)"

text \<open>A label of \<open>HOSTNAME_PATTERN\<close>: lower case, digits and dashes, up to 63, with no dash at either end; and
  at least two of them.\<close>

definition hostname_label :: "string \<Rightarrow> bool" where
  "hostname_label s =
     (s \<noteq> [] \<and> length s \<le> 63 \<and> list_all (\<lambda>c. lower_char c \<or> digit_char c \<or> c = CHR ''-'') s \<and>
      hd s \<noteq> CHR ''-'' \<and> last s \<noteq> CHR ''-'')"

definition HostnameSchema :: "string \<Rightarrow> bool" where
  "HostnameSchema s =
     (2 \<le> length (split_at (CHR ''.'') s) \<and> list_all hostname_label (split_at (CHR ''.'') s) \<and>
      length s \<le> MAX_HOSTNAME_LENGTH)"

definition ObjectKeySchema :: "string \<Rightarrow> bool" where
  "ObjectKeySchema s = (1 \<le> text_length s \<and> text_length s \<le> MAX_OBJECT_KEY_LENGTH)"

text \<open>\<open>^[0-9A-Za-z][0-9A-Za-z._-]{0,126}$\<close>.\<close>

definition filename_char :: "char \<Rightarrow> bool" where
  "filename_char c = (alnum_char c \<or> c \<in> {CHR ''.'', CHR ''_'', CHR ''-''})"

definition FilenameSchema :: "string \<Rightarrow> bool" where
  "FilenameSchema name =
     (case name of [] \<Rightarrow> False
      | c # rest \<Rightarrow> alnum_char c \<and> list_all filename_char rest \<and> length name \<le> MAX_FILENAME_LENGTH)"

definition HttpPortSchema :: "HttpPort \<Rightarrow> bool" where
  "HttpPortSchema p = (MIN_PORT \<le> p \<and> p \<le> MAX_PORT)"

section \<open>A configuration\<close>

definition MAX_ARGUMENTS :: nat where "MAX_ARGUMENTS = 64"
definition MAX_ARGUMENT_LENGTH :: int where "MAX_ARGUMENT_LENGTH = 4096"
definition MIN_IDLE_TIMEOUT_MS :: int where "MIN_IDLE_TIMEOUT_MS = 60000"
definition MAX_IDLE_TIMEOUT_MS :: int where "MAX_IDLE_TIMEOUT_MS = 86400000"
definition MIN_VCPU_COUNT :: int where "MIN_VCPU_COUNT = 1"
definition MAX_VCPU_COUNT :: int where "MAX_VCPU_COUNT = 32"
definition MIN_MEMORY_MIB :: int where "MIN_MEMORY_MIB = 128"
definition MAX_MEMORY_MIB :: int where "MAX_MEMORY_MIB = 16384"
definition MAX_HTTP_PATH_LENGTH :: int where "MAX_HTTP_PATH_LENGTH = 1024"

definition AppHostnameSchema :: "AppHostname \<Rightarrow> bool" where
  "AppHostnameSchema h = HostnameSchema (hn_hostname h)"

definition TenantEnvironmentSchema :: "(string, string) jsmap \<Rightarrow> bool" where
  "TenantEnvironmentSchema environment = valid_environment environment"

definition TenantArgumentsSchema :: "string list \<Rightarrow> bool" where
  "TenantArgumentsSchema args =
     (length args \<le> MAX_ARGUMENTS \<and> list_all (\<lambda>a. text_length a \<le> MAX_ARGUMENT_LENGTH) args)"

definition IdleTimeoutMsSchema :: "int \<Rightarrow> bool" where
  "IdleTimeoutMsSchema ms = (MIN_IDLE_TIMEOUT_MS \<le> ms \<and> ms \<le> MAX_IDLE_TIMEOUT_MS)"

definition InstanceResourcesSchema :: "InstanceResources \<Rightarrow> bool" where
  "InstanceResourcesSchema r =
     (MIN_VCPU_COUNT \<le> vcpuCount r \<and> vcpuCount r \<le> MAX_VCPU_COUNT \<and>
      MIN_MEMORY_MIB \<le> memoryMib r \<and> memoryMib r \<le> MAX_MEMORY_MIB)"

definition HealthCheckSchema :: "HealthCheck \<Rightarrow> bool" where
  "HealthCheckSchema hc =
     ((case hc_path hc of None \<Rightarrow> True | Some p \<Rightarrow> 1 \<le> text_length p \<and> text_length p \<le> MAX_HTTP_PATH_LENGTH) \<and>
      valid_HealthCheck hc)"

definition RestartPolicySchema :: "RestartPolicy \<Rightarrow> bool" where
  "RestartPolicySchema p =
     (0 \<le> rp_maxRestarts p \<and> 0 \<le> rp_initialBackoffMs p \<and> 0 \<le> rp_maxBackoffMs p \<and>
      1 \<le> rp_backoffFactor p \<and> 0 \<le> rp_resetAfterMs p)"

definition AppConfigSchema :: "AppConfig \<Rightarrow> bool" where
  "AppConfigSchema c =
     (HttpPortSchema (cfg_httpPort c) \<and> TenantArgumentsSchema (cfg_args c) \<and>
      TenantEnvironmentSchema (cfg_environment c) \<and> InstanceResourcesSchema (cfg_resources c) \<and>
      HealthCheckSchema (cfg_healthCheck c) \<and> RestartPolicySchema (cfg_restartPolicy c))"

lemma text_length_bounds: "0 \<le> text_length s" "text_length s \<le> 2 * int (length s)"
  by (induction s) (auto simp: Let_def)

lemma text_length_ascii_head: "(of_char c :: int) < 128 \<Longrightarrow> 1 \<le> text_length (c # s)"
  using text_length_bounds(1) [of s] by (simp add: Let_def)

end
