(* ===== verification/Apps.thy ===== *)
theory Apps
  imports Tables Wire
begin

text \<open>
  Apps: \<open>apps/api/src/repositories/apps.repository.ts\<close>, \<open>app-hostnames.repository.ts\<close> where an app is
  removed, and \<open>apps/api/src/services/apps.service.ts\<close>. The names an app is tried under are the rolls of
  the dice, one for each attempt; the buckets and the edge are outside the database, and what they refuse
  is an argument.
\<close>

section \<open>Creating one\<close>

record NewApp =
  na_ownerId :: OwnerId
  na_name :: string
  na_slug :: string
  na_hostname :: string
  na_config :: AppConfig
  na_environment :: SealedEnvironment
  na_anonymousAppsAtMost :: "int option"

datatype AppCreation = AppCreated AppRow HostnameRow | OverQuota | AtCapacity

text \<open>The views \<open>app_quotas\<close> and \<open>app_deadlines\<close>.\<close>

definition apps_held :: "Database \<Rightarrow> OwnerId \<Rightarrow> int" where
  "apps_held db ownerId =
     int (length (filter (\<lambda>a. ap_owner a = ownerId \<and> ap_state a \<noteq> AppDeleted) (db_apps db)))"

definition profile_of :: "Database \<Rightarrow> OwnerId \<Rightarrow> ProfileRow option" where
  "profile_of db ownerId = find (\<lambda>p. pf_owner p = ownerId) (db_profiles db)"

definition apps_left :: "Database \<Rightarrow> ProfileRow \<Rightarrow> int" where
  "apps_left db p = max (pf_quotaApps p - apps_held db (pf_owner p)) 0"

definition app_deadline :: "Database \<Rightarrow> AppRow \<Rightarrow> int option" where
  "app_deadline db a =
     (case profile_of db (ap_owner a) of None \<Rightarrow> None
      | Some p \<Rightarrow> map_option (\<lambda>secs. ap_createdAt a + 1000 * secs) (pf_appLifetimeSeconds p))"

definition appsAllowed :: "Database \<Rightarrow> OwnerId \<Rightarrow> int option" where
  "appsAllowed db ownerId = map_option pf_quotaApps (profile_of db ownerId)"

definition ownerHasRoom :: "Database \<Rightarrow> OwnerId \<Rightarrow> (db_error, bool) result" where
  "ownerHasRoom db ownerId =
     (case profile_of db ownerId of
        None \<Rightarrow> Inl (DatabaseError ''The owner creating an app has no profile.'')
      | Some p \<Rightarrow> Inr (apps_left db p \<noteq> 0))"

definition strangersHold :: "Database \<Rightarrow> int \<Rightarrow> bool" where
  "strangersHold db threshold =
     (threshold \<le> int (length (filter (\<lambda>a. ap_state a \<noteq> AppDeleted \<and> app_deadline db a \<noteq> None) (db_apps db))))"

definition new_app_row :: "AppId \<Rightarrow> int \<Rightarrow> NewApp \<Rightarrow> AppRow" where
  "new_app_row newId now input =
     \<lparr>ap_id = newId, ap_owner = na_ownerId input, ap_name = na_name input, ap_slug = na_slug input,
      ap_state = AppActive, ap_activation = OnRequestActivation, ap_idleTimeoutMs = 300000,
      ap_createdAt = now, ap_updatedAt = now, ap_dataInitializedAt = None, ap_migrationState = None,
      ap_migrationMessage = None, ap_migrationStartedAt = None, ap_migrationHostId = None\<rparr>"

definition create_app ::
  "AppId \<Rightarrow> ConfigId \<Rightarrow> int \<Rightarrow> NewApp \<Rightarrow> Database \<Rightarrow> (db_error, AppCreation) result \<times> Database" where
  "create_app newId newConfigId now input db =
     (case ownerHasRoom db (na_ownerId input) of
        Inl e \<Rightarrow> (Inl e, db)
      | Inr False \<Rightarrow> (Inr OverQuota, db)
      | Inr True \<Rightarrow>
          if (case na_anonymousAppsAtMost input of None \<Rightarrow> False | Some n \<Rightarrow> strangersHold db n)
          then (Inr AtCapacity, db)
          else if list_ex (\<lambda>a. ap_slug a = na_slug input) (db_apps db)
          then (Inl (UniqueViolation ''apps_slug_key''), db)
          else if list_ex (\<lambda>h. hm_hostname h = na_hostname input) (db_hostnames db)
          then (Inl (UniqueViolation ''app_hostnames_hostname_key''), db)
          else
            (let a = new_app_row newId now input;
                 c = \<lparr>cf_id = newConfigId, cf_appId = newId, cf_run = config_columns (na_config input),
                      cf_environment = na_environment input, cf_storage = no_storage, cf_createdAt = now\<rparr>;
                 h = \<lparr>hm_appId = newId, hm_hostname = na_hostname input, hm_kind = PlatformHostname,
                      hm_state = HostnameActive, hm_cloudflareId = None\<rparr> in
             (Inr (AppCreated a h),
              db\<lparr>db_apps := db_apps db @ [a], db_configs := db_configs db @ [c],
                db_hostnames := db_hostnames db @ [h]\<rparr>)))"

definition DEFAULT_HTTP_PORT :: nat where "DEFAULT_HTTP_PORT = 3000"
definition DEFAULT_VOLUME_SIZE_BYTES :: int where "DEFAULT_VOLUME_SIZE_BYTES = 8589934592"

definition DEFAULT_INSTANCE_RESOURCES :: InstanceResources where
  "DEFAULT_INSTANCE_RESOURCES = \<lparr>vcpuCount = 1, memoryMib = 256\<rparr>"

definition DEFAULT_HEALTH_CHECK :: HealthCheck where
  "DEFAULT_HEALTH_CHECK = \<lparr>hc_path = None, hc_intervalMs = 5000, hc_timeoutMs = 2000, hc_gracePeriodMs = 30000,
     hc_healthyThreshold = 1, hc_unhealthyThreshold = 3\<rparr>"

definition DEFAULT_RESTART_POLICY :: RestartPolicy where
  "DEFAULT_RESTART_POLICY = \<lparr>rp_maxRestarts = 5, rp_initialBackoffMs = 500, rp_maxBackoffMs = 30000,
     rp_backoffFactor = 2, rp_resetAfterMs = 60000\<rparr>"

record NewAppConfig =
  nc_httpPort :: "HttpPort option"
  nc_hasExtraPublicPort :: "bool option"
  nc_args :: "string list option"
  nc_environment :: "(string, string) jsmap option"

definition configWithDefaults :: "NewAppConfig \<Rightarrow> AppConfig" where
  "configWithDefaults patch =
     \<lparr>cfg_httpPort = (case nc_httpPort patch of None \<Rightarrow> DEFAULT_HTTP_PORT | Some p \<Rightarrow> p),
      cfg_hasExtraPublicPort = (case nc_hasExtraPublicPort patch of None \<Rightarrow> False | Some p \<Rightarrow> p),
      cfg_args = (case nc_args patch of None \<Rightarrow> [] | Some a \<Rightarrow> a), cfg_environment = [],
      cfg_resources = DEFAULT_INSTANCE_RESOURCES, cfg_healthCheck = DEFAULT_HEALTH_CHECK,
      cfg_restartPolicy = DEFAULT_RESTART_POLICY\<rparr>"

text \<open>An app of somebody with no identity is given no port besides HTTP.\<close>

definition withoutExtraPort :: "AppConfig \<Rightarrow> AppConfig" where
  "withoutExtraPort config =
     config\<lparr>cfg_hasExtraPublicPort := False,
            cfg_environment := filter (\<lambda>(_, v). \<not> namesExtraPublicPortValues v) (cfg_environment config)\<rparr>"

definition MAX_SLUG_ATTEMPTS :: nat where "MAX_SLUG_ATTEMPTS = 5"
definition MAX_ANONYMOUS_APPS :: int where "MAX_ANONYMOUS_APPS = 15"

datatype app_error =
  RedactedEcho "string list" | NeedsAPort "string list" | QuotaExceeded int | PlatformFull
  | NoFreeHostname | MalformedHostname | NotFoundApp | BeingDeleted | AppDb db_error | NoQuota

definition SLUG_CONSTRAINTS :: "string list" where
  "SLUG_CONSTRAINTS = [''apps_slug_key'', ''app_hostnames_hostname_key'']"

definition declined :: "Database \<Rightarrow> bool \<Rightarrow> OwnerId \<Rightarrow> app_error" where
  "declined db atCapacity ownerId =
     (if atCapacity then PlatformFull
      else case appsAllowed db ownerId of None \<Rightarrow> NoQuota | Some allowed \<Rightarrow> QuotaExceeded allowed)"

text \<open>The loop over the attempts: a taken name is a re-roll. \<open>input\<close> is what a slug makes of the request, or
  nothing where its hostname does not parse, which fails it.\<close>

fun try_slugs ::
  "AppId \<Rightarrow> ConfigId \<Rightarrow> int \<Rightarrow> (string \<Rightarrow> NewApp option) \<Rightarrow> string list \<Rightarrow> Database \<Rightarrow>
     (app_error, AppRow \<times> HostnameRow) result \<times> Database" where
  "try_slugs newId newConfigId now input [] db = (Inl NoFreeHostname, db)"
| "try_slugs newId newConfigId now input (slug # slugs) db =
     (case input slug of
        None \<Rightarrow> (Inl MalformedHostname, db)
      | Some new \<Rightarrow>
          (case create_app newId newConfigId now new db of
             (Inr (AppCreated a h), db') \<Rightarrow> (Inr (a, h), db')
           | (Inr OverQuota, db') \<Rightarrow> (Inl (declined db' False (na_ownerId new)), db')
           | (Inr AtCapacity, db') \<Rightarrow> (Inl (declined db' True (na_ownerId new)), db')
           | (Inl (UniqueViolation c), db') \<Rightarrow>
               if c \<in> set SLUG_CONSTRAINTS then try_slugs newId newConfigId now input slugs db'
               else (Inl (AppDb (UniqueViolation c)), db')
           | (Inl e, db') \<Rightarrow> (Inl (AppDb e), db')))"

text \<open>\<open>Value.Parse\<close> of the hostname: a slug that makes none fails.\<close>

definition platformHostname :: "string \<Rightarrow> string \<Rightarrow> string option" where
  "platformHostname slug appHostDomain =
     (let hostname = slug @ ''.'' @ appHostDomain in
      if HostnameSchema hostname then Some hostname else None)"

definition create ::
  "'key seal_with \<Rightarrow> 'key \<Rightarrow> string list \<Rightarrow> string \<Rightarrow> AppId \<Rightarrow> ConfigId \<Rightarrow> int \<Rightarrow> string list \<Rightarrow>
     OwnerId \<Rightarrow> bool \<Rightarrow> string \<Rightarrow> NewAppConfig \<Rightarrow> Database \<Rightarrow>
     (app_error, AppRow \<times> HostnameRow) result \<times> Database" where
  "create seal secretsKey ivs appHostDomain newId newConfigId now rolls ownerId isAnonymous name config db =
     (let asked = (configWithDefaults config)
            \<lparr>cfg_environment := (case nc_environment config of None \<Rightarrow> [] | Some e \<Rightarrow> e)\<rparr>;
          kept = (if isAnonymous then withoutExtraPort asked else asked);
          environment = cfg_environment kept in
      case refuseRedactedValues environment of
        Some names \<Rightarrow> (Inl (RedactedEcho names), db)
      | None \<Rightarrow>
          (case refuseValuesNeedingAPort environment (cfg_hasExtraPublicPort kept) of
             Some names \<Rightarrow> (Inl (NeedsAPort names), db)
           | None \<Rightarrow>
               try_slugs newId newConfigId now
                 (\<lambda>slug. map_option (\<lambda>hostname.
                    \<lparr>na_ownerId = ownerId, na_name = name, na_slug = slug,
                     na_hostname = hostname, na_config = kept,
                     na_environment = sealEnvironment seal secretsKey ivs environment,
                     na_anonymousAppsAtMost = (if isAnonymous then Some MAX_ANONYMOUS_APPS else None)\<rparr>)
                   (platformHostname slug appHostDomain))
                 (take MAX_SLUG_ATTEMPTS rolls) db))"

section \<open>Changing one\<close>

text \<open>\<open>patch\<close> is what the edit says of the configuration, \<open>None\<close> where it says nothing.\<close>

definition update_app ::
  "ConfigId \<Rightarrow> int \<Rightarrow> AppId \<Rightarrow> OwnerId \<Rightarrow> string option \<Rightarrow> SealedConfigPatch option \<Rightarrow> Database \<Rightarrow>
     (db_error, bool) result \<times> Database" where
  "update_app newConfigId now appId ownerId name patch db =
     (case lockAppForMutation db appId ownerId of
        Inl e \<Rightarrow> (Inl e, db)
      | Inr False \<Rightarrow> (Inr False, db)
      | Inr True \<Rightarrow>
          (case (case patch of None \<Rightarrow> Inr db | Some p \<Rightarrow> appendConfigVersion newConfigId now appId p None db) of
             Inl e \<Rightarrow> (Inl e, db)
           | Inr db' \<Rightarrow>
               (Inr True, update_apps now (\<lambda>a. ap_id a = appId \<and> ap_owner a = ownerId \<and> ap_state a \<noteq> AppDeleted)
                 (\<lambda>a. a\<lparr>ap_name := (case name of None \<Rightarrow> ap_name a | Some n \<Rightarrow> n)\<rparr>) db')))"

record AppConfigPatch =
  ac_httpPort :: "HttpPort option"
  ac_hasExtraPublicPort :: "bool option"
  ac_args :: "string list option"
  ac_environment :: "(string, string option) jsmap option"

definition refuseValuesTheEditLeavesUngiven ::
  "Database \<Rightarrow> AppId \<Rightarrow> OwnerId \<Rightarrow> AppConfigPatch \<Rightarrow> app_error option" where
  "refuseValuesTheEditLeavesUngiven db appId ownerId patch =
     (let naming = List.map_filter (\<lambda>(name, v). case v of None \<Rightarrow> None
            | Some v \<Rightarrow> if namesExtraPublicPortValues v then Some (name, v) else None)
            (case ac_environment patch of None \<Rightarrow> [] | Some e \<Rightarrow> e) in
      if naming = [] then None
      else case (case ac_hasExtraPublicPort patch of
                   Some p \<Rightarrow> Some p
                 | None \<Rightarrow> (case (owned_app db appId ownerId, newest_config db appId) of
                             (Some _, Some c) \<Rightarrow> Some (has_extra_public_port (cf_run c))
                           | _ \<Rightarrow> None)) of
        None \<Rightarrow> Some NotFoundApp
      | Some hasPort \<Rightarrow> map_option NeedsAPort (refuseValuesNeedingAPort naming hasPort))"

definition sealed_patch ::
  "'key seal_with \<Rightarrow> 'key \<Rightarrow> string list \<Rightarrow> AppConfigPatch \<Rightarrow> (app_error, SealedConfigPatch) result" where
  "sealed_patch seal secretsKey ivs patch =
     (let sealed = (\<lambda>environment. \<lparr>pt_httpPort = ac_httpPort patch,
            pt_hasExtraPublicPort = ac_hasExtraPublicPort patch, pt_args = ac_args patch,
            pt_environment = environment\<rparr>) in
      case ac_environment patch of
        None \<Rightarrow> Inr (sealed None)
      | Some environment \<Rightarrow>
          (case splitEnvironmentPatch environment of (sets, removed) \<Rightarrow>
             (case refuseRedactedValues sets of
                Some names \<Rightarrow> Inl (RedactedEcho names)
              | None \<Rightarrow> Inr (sealed (Some (sealEnvironment seal secretsKey ivs sets, removed))))))"

definition update ::
  "'key seal_with \<Rightarrow> 'key \<Rightarrow> string list \<Rightarrow> ConfigId \<Rightarrow> int \<Rightarrow> AppId \<Rightarrow> OwnerId \<Rightarrow> string option \<Rightarrow>
     AppConfigPatch option \<Rightarrow> Database \<Rightarrow> (app_error, unit) result \<times> Database" where
  "update seal secretsKey ivs newConfigId now appId ownerId name patch db =
     (case (case patch of None \<Rightarrow> None | Some p \<Rightarrow> refuseValuesTheEditLeavesUngiven db appId ownerId p) of
        Some e \<Rightarrow> (Inl e, db)
      | None \<Rightarrow>
          (case (case patch of None \<Rightarrow> Inr None
                 | Some p \<Rightarrow> map_sum id Some (sealed_patch seal secretsKey ivs p)) of
             Inl e \<Rightarrow> (Inl e, db)
           | Inr sealed \<Rightarrow>
               (case update_app newConfigId now appId ownerId name sealed db of
                  (Inl e, db') \<Rightarrow> (Inl (AppDb e), db')
                | (Inr False, db') \<Rightarrow> (Inl NotFoundApp, db')
                | (Inr True, db') \<Rightarrow> (Inr (), db'))))"

definition OWNED_APP_STATES :: "AppState list" where "OWNED_APP_STATES = [AppActive, AppSuspended]"
definition LIVE_APP_STATES :: "AppState list" where "LIVE_APP_STATES = [AppActive, AppSuspended, AppDeleting]"

definition updateState ::
  "int \<Rightarrow> AppId \<Rightarrow> OwnerId \<Rightarrow> AppState \<Rightarrow> AppState list \<Rightarrow> Database \<Rightarrow> (db_error, bool) result \<times> Database" where
  "updateState now appId ownerId state froms db =
     (case lockAppForMutation db appId ownerId of
        Inl e \<Rightarrow> (Inl e, db)
      | Inr False \<Rightarrow> (Inr False, db)
      | Inr True \<Rightarrow>
          (let p = (\<lambda>a. ap_id a = appId \<and> ap_owner a = ownerId \<and> ap_state a \<in> set froms) in
           (Inr (list_ex p (db_apps db)), update_apps now p (\<lambda>a. a\<lparr>ap_state := state\<rparr>) db)))"

definition isOwnedBy :: "Database \<Rightarrow> AppId \<Rightarrow> OwnerId \<Rightarrow> bool" where
  "isOwnedBy db appId ownerId = (owned_app db appId ownerId \<noteq> None)"

datatype OwnedAppState = OwnedActive | OwnedSuspended

definition owned_state :: "OwnedAppState \<Rightarrow> AppState" where
  "owned_state s = (case s of OwnedActive \<Rightarrow> AppActive | OwnedSuspended \<Rightarrow> AppSuspended)"

definition setState ::
  "int \<Rightarrow> AppId \<Rightarrow> OwnerId \<Rightarrow> OwnedAppState \<Rightarrow> Database \<Rightarrow> (app_error, unit) result \<times> Database" where
  "setState now appId ownerId state db =
     (case updateState now appId ownerId (owned_state state) OWNED_APP_STATES db of
        (Inl e, db') \<Rightarrow> (Inl (AppDb e), db')
      | (Inr True, db') \<Rightarrow> (Inr (), db')
      | (Inr False, db') \<Rightarrow> (Inl (if isOwnedBy db' appId ownerId then BeingDeleted else NotFoundApp), db'))"

definition reassign :: "int \<Rightarrow> OwnerId \<Rightarrow> OwnerId \<Rightarrow> Database \<Rightarrow> Database" where
  "reassign now froms to db = update_apps now (\<lambda>a. ap_owner a = froms) (\<lambda>a. a\<lparr>ap_owner := to\<rparr>) db"

section \<open>What hosts say of its volume\<close>

definition stampDataInitialized :: "int \<Rightarrow> AppId list \<Rightarrow> HostId \<Rightarrow> Database \<Rightarrow> Database" where
  "stampDataInitialized now appIds hostId db =
     update_apps now (\<lambda>a. ap_id a \<in> set appIds \<and> ap_dataInitializedAt a = None \<and> app_host db (ap_id a) = Some hostId)
       (\<lambda>a. a\<lparr>ap_dataInitializedAt := Some now\<rparr>) db"

definition recordDataInitialized :: "int \<Rightarrow> ReportedVolume list \<Rightarrow> HostId \<Rightarrow> Database \<Rightarrow> Database" where
  "recordDataInitialized now volumes hostId db =
     (let ready = map rv_appId (filter (\<lambda>v. rv_state v = VolumeReady) volumes) in
      if ready = [] then db else stampDataInitialized now ready hostId db)"

section \<open>Deleting one\<close>

definition finishDeletingVolume :: "int \<Rightarrow> AppId \<Rightarrow> HostId \<Rightarrow> Database \<Rightarrow> Database" where
  "finishDeletingVolume now appId hostId db =
     update_apps now (\<lambda>a. ap_id a = appId \<and> ap_state a = AppDeleting \<and> app_host db appId = Some hostId)
       (\<lambda>a. a\<lparr>ap_state := AppDeleted\<rparr>) db"

definition completeDeletions :: "int \<Rightarrow> ReportedVolume list \<Rightarrow> HostId \<Rightarrow> Database \<Rightarrow> Database" where
  "completeDeletions now volumes hostId db =
     fold (\<lambda>v db. if rv_state v \<noteq> VolumeDeleted then db else finishDeletingVolume now (rv_appId v) hostId db)
       volumes db"

text \<open>The view \<open>finishable_deletions\<close>: being deleted, with no volume a host is told of.\<close>

definition deletion_finishable :: "Database \<Rightarrow> AppId \<Rightarrow> bool" where
  "deletion_finishable db appId =
     (list_ex (\<lambda>a. ap_id a = appId \<and> ap_state a = AppDeleting) (db_apps db) \<and> \<not> alreadyDeployed db appId)"

definition finishDeleting :: "int \<Rightarrow> AppId \<Rightarrow> Database \<Rightarrow> Database" where
  "finishDeleting now appId db =
     update_apps now (\<lambda>a. ap_id a = appId \<and> ap_state a = AppDeleting \<and> deletion_finishable db appId)
       (\<lambda>a. a\<lparr>ap_state := AppDeleted\<rparr>) db"

definition FINISH_BATCH :: nat where "FINISH_BATCH = 8"

definition finishDeletions :: "int \<Rightarrow> Database \<Rightarrow> Database" where
  "finishDeletions now db =
     fold (finishDeleting now) (take FINISH_BATCH (filter (deletion_finishable db) (map ap_id (db_apps db)))) db"

definition failInFlight :: "AppId \<Rightarrow> string \<Rightarrow> Database \<Rightarrow> Database" where
  "failInFlight appId message db =
     db\<lparr>db_exports := map (\<lambda>e. if ex_appId e = appId \<and> export_in_flight e
       then e\<lparr>ex_state := ExportFailed, ex_message := Some message\<rparr> else e) (db_exports db)\<rparr>"

definition APP_DELETED :: string where
  "APP_DELETED = ''The app was deleted while this export was still being written.''"

definition delete_app :: "int \<Rightarrow> AppId \<Rightarrow> OwnerId \<Rightarrow> Database \<Rightarrow> (app_error, unit) result \<times> Database" where
  "delete_app now appId ownerId db =
     (case updateState now appId ownerId AppDeleting LIVE_APP_STATES db of
        (Inl e, db') \<Rightarrow> (Inl (AppDb e), db')
      | (Inr False, db') \<Rightarrow> (Inl NotFoundApp, db')
      | (Inr True, db') \<Rightarrow>
          (let db'' = failInFlight appId APP_DELETED db' in
           (Inr (), if deletion_finishable db'' appId then finishDeleting now appId db'' else db'')))"

definition EXPIRE_BATCH :: nat where "EXPIRE_BATCH = 8"

text \<open>The view \<open>expirable_apps\<close>.\<close>

definition expirable :: "int \<Rightarrow> Database \<Rightarrow> AppRow \<Rightarrow> bool" where
  "expirable now db a =
     (ap_state a \<noteq> AppDeleted \<and> ap_state a \<noteq> AppDeleting \<and>
      (case app_deadline db a of None \<Rightarrow> False | Some at \<Rightarrow> at \<le> now))"

definition expire :: "int \<Rightarrow> Database \<Rightarrow> Database" where
  "expire now db =
     fold (\<lambda>a db. snd (delete_app now (ap_id a) (ap_owner a) db))
       (take EXPIRE_BATCH (filter (expirable now db) (db_apps db))) db"

section \<open>What a deleted app leaves behind\<close>

record Buckets =
  bk_artifacts :: "ObjectKey list"
  bk_exports :: "ObjectKey list"
  bk_imports :: "ObjectKey list"

record Leftovers =
  lo_artifacts :: "ObjectKey list"
  lo_exports :: "ObjectKey list"
  lo_imports :: "ObjectKey list"

definition export_key :: "ExportRow \<Rightarrow> ObjectKey" where
  "export_key e = ''exports/'' @ ex_appId e @ ''/'' @ ex_id e @ ''.tar.gz''"

definition keys_of_app :: "AppId \<Rightarrow> ArtifactRow list \<Rightarrow> ObjectKey list" where
  "keys_of_app appId rows =
     List.map_filter (\<lambda>r. if ar_appId r = appId then ar_objectKey r else None) rows"

definition listLeftovers :: "Database \<Rightarrow> AppId \<Rightarrow> Leftovers" where
  "listLeftovers db appId =
     \<lparr>lo_artifacts = filter (\<lambda>k. \<not> list_ex (\<lambda>r. ar_appId r \<noteq> appId \<and> ar_objectKey r = Some k) (db_artifacts db))
        (remdups (keys_of_app appId (db_artifacts db))),
      lo_exports = map export_key (filter (\<lambda>e. ex_appId e = appId) (db_exports db)),
      lo_imports = keys_of_app appId (db_imports db)\<rparr>"

definition purge :: "AppId \<Rightarrow> Database \<Rightarrow> Database" where
  "purge appId db =
     db\<lparr>db_exports := filter (\<lambda>e. ex_appId e \<noteq> appId) (db_exports db),
       db_deployments := filter (\<lambda>d. dp_appId d \<noteq> appId) (db_deployments db),
       db_imports := filter (\<lambda>i. ar_appId i \<noteq> appId) (db_imports db),
       db_artifacts := filter (\<lambda>r. ar_appId r \<noteq> appId) (db_artifacts db)\<rparr>"

text \<open>A custom name is taken off the edge first; one the edge refuses to give up stays.\<close>

definition disposable :: "Database \<Rightarrow> AppId \<Rightarrow> bool" where
  "disposable db appId =
     list_ex (\<lambda>a. ap_id a = appId \<and> (ap_state a = AppDeleting \<or> ap_state a = AppDeleted)) (db_apps db)"

definition releaseHostnames :: "(string \<Rightarrow> bool) \<Rightarrow> AppId \<Rightarrow> Database \<Rightarrow> Database" where
  "releaseHostnames edge_removes appId db =
     (if \<not> disposable db appId then db
      else db\<lparr>db_hostnames := filter (\<lambda>h. \<not> (hm_appId h = appId \<and>
        (case hm_cloudflareId h of None \<Rightarrow> True | Some c \<Rightarrow> edge_removes c))) (db_hostnames db)\<rparr>)"

text \<open>The view \<open>purgeable_apps\<close>.\<close>

definition purgeable :: "Database \<Rightarrow> AppId \<Rightarrow> bool" where
  "purgeable db appId =
     (list_ex (\<lambda>a. ap_id a = appId \<and> ap_state a = AppDeleted) (db_apps db) \<and>
      (list_ex (\<lambda>r. ar_appId r = appId) (db_artifacts db) \<or>
       list_ex (\<lambda>e. ex_appId e = appId) (db_exports db) \<or>
       list_ex (\<lambda>h. hm_appId h = appId) (db_hostnames db) \<or>
       list_ex (\<lambda>i. ar_appId i = appId) (db_imports db)))"

text \<open>Every removal is asked for; a bucket that refuses one ends the pass for this app.\<close>

definition purgeApp ::
  "(string \<Rightarrow> bool) \<Rightarrow> (ObjectKey \<Rightarrow> bool) \<Rightarrow> AppId \<Rightarrow> Buckets \<times> Database \<Rightarrow> Buckets \<times> Database" where
  "purgeApp edge_removes removes appId s =
     (case s of (buckets, db) \<Rightarrow>
        let db' = releaseHostnames edge_removes appId db;
            leftovers = listLeftovers db' appId;
            gone = (\<lambda>keys stored. filter (\<lambda>k. \<not> (k \<in> set keys \<and> removes k)) stored);
            buckets' = \<lparr>bk_artifacts = gone (lo_artifacts leftovers) (bk_artifacts buckets),
                       bk_exports = gone (lo_exports leftovers) (bk_exports buckets),
                       bk_imports = gone (lo_imports leftovers) (bk_imports buckets)\<rparr> in
        if list_all removes (lo_exports leftovers @ lo_artifacts leftovers @ lo_imports leftovers)
        then (buckets', purge appId db') else (buckets', db'))"

definition PURGE_BATCH :: nat where "PURGE_BATCH = 8"

definition purgeDeleted ::
  "(string \<Rightarrow> bool) \<Rightarrow> (ObjectKey \<Rightarrow> bool) \<Rightarrow> Buckets \<times> Database \<Rightarrow> Buckets \<times> Database" where
  "purgeDeleted edge_removes removes s =
     fold (purgeApp edge_removes removes)
       (take PURGE_BATCH (filter (purgeable (snd s)) (map ap_id (db_apps (snd s))))) s"

section \<open>Purging\<close>

definition artifact_keys :: "Database \<Rightarrow> AppId set \<Rightarrow> ObjectKey set" where
  "artifact_keys db apps = {k. \<exists>r \<in> set (db_artifacts db). ar_appId r \<in> apps \<and> ar_objectKey r = Some k}"

definition import_keys :: "Database \<Rightarrow> AppId set \<Rightarrow> ObjectKey set" where
  "import_keys db apps = {k. \<exists>r \<in> set (db_imports db). ar_appId r \<in> apps \<and> ar_objectKey r = Some k}"

definition export_keys :: "Database \<Rightarrow> AppId set \<Rightarrow> ObjectKey set" where
  "export_keys db apps = {export_key e |e. e \<in> set (db_exports db) \<and> ex_appId e \<in> apps}"

text \<open>An app's id has no slash in it, and an import's object is its own.\<close>

definition keys_apart :: "Database \<Rightarrow> bool" where
  "keys_apart db \<longleftrightarrow>
     list_all (\<lambda>e. CHR ''/'' \<notin> set (ex_appId e)) (db_exports db) \<and>
     list_all (\<lambda>i. list_all (\<lambda>j. ar_objectKey i = ar_objectKey j \<and> ar_objectKey i \<noteq> None \<longrightarrow> ar_appId i = ar_appId j)
       (db_imports db)) (db_imports db)"

lemma export_key_app:
  assumes "CHR ''/'' \<notin> set (ex_appId e)" and "CHR ''/'' \<notin> set (ex_appId f)" and "export_key e = export_key f"
  shows "ex_appId e = ex_appId f"
proof -
  have "takeWhile (\<lambda>c. c \<noteq> CHR ''/'') (drop (length ''exports/'') (export_key g)) = ex_appId g"
    if "CHR ''/'' \<notin> set (ex_appId g)" for g
  proof -
    have "takeWhile (\<lambda>c. c \<noteq> CHR ''/'') (ex_appId g) = ex_appId g"
      unfolding takeWhile_eq_all_conv using that by metis
    then show ?thesis
      by (simp only: export_key_def append_eq_conv_conj append_Cons append_Nil takeWhile_tail drop_append) simp
  qed
  then show ?thesis using assms by metis
qed

lemma leftover_keys:
  "set (lo_artifacts (listLeftovers db a)) = artifact_keys db {a} - artifact_keys db (- {a})"
  "set (lo_exports (listLeftovers db a)) = export_keys db {a}"
  "set (lo_imports (listLeftovers db a)) = import_keys db {a}"
  by (auto simp: listLeftovers_def keys_of_app_def set_map_filter artifact_keys_def export_keys_def import_keys_def
      list_ex_iff split: if_splits)

lemma released_tables:
  "db_artifacts (releaseHostnames edge a db) = db_artifacts db" "db_imports (releaseHostnames edge a db) = db_imports db"
  "db_exports (releaseHostnames edge a db) = db_exports db" "db_apps (releaseHostnames edge a db) = db_apps db"
  "db_deployments (releaseHostnames edge a db) = db_deployments db"
  by (simp_all add: releaseHostnames_def)

lemma released_keys:
  "artifact_keys (releaseHostnames edge a db) = artifact_keys db" "import_keys (releaseHostnames edge a db) = import_keys db"
  "export_keys (releaseHostnames edge a db) = export_keys db"
  by (simp_all add: fun_eq_iff artifact_keys_def import_keys_def export_keys_def released_tables)

lemma purged_keys:
  "artifact_keys (purge a db) apps = artifact_keys db (apps - {a})"
  "import_keys (purge a db) apps = import_keys db (apps - {a})"
  "export_keys (purge a db) apps = export_keys db (apps - {a})"
  by (auto simp: purge_def artifact_keys_def import_keys_def export_keys_def)

lemma purged_apps: "db_apps (purge a db) = db_apps db"
  by (simp add: purge_def)

lemma keys_apart_other:
  assumes "keys_apart db" and "a \<notin> apps"
  shows "import_keys db {a} \<inter> import_keys db apps = {}" "export_keys db {a} \<inter> export_keys db apps = {}"
proof -
  show "import_keys db {a} \<inter> import_keys db apps = {}"
    using assms by (fastforce simp: keys_apart_def import_keys_def list_all_iff)
  show "export_keys db {a} \<inter> export_keys db apps = {}"
    using assms by (auto simp: keys_apart_def export_keys_def list_all_iff) (metis export_key_app)
qed

text \<open>What one app's purge does to the buckets and to the rows.\<close>

lemma purgeApp_cases:
  assumes "purgeApp edge removes a (b, db) = (b', db')"
  obtains (refused) k where "k \<in> artifact_keys db {a} \<union> export_keys db {a} \<union> import_keys db {a}" "\<not> removes k"
      "db' = releaseHostnames edge a db"
      "set (bk_artifacts b) - (artifact_keys db {a} - artifact_keys db (- {a})) \<subseteq> set (bk_artifacts b')"
      "set (bk_exports b) - export_keys db {a} \<subseteq> set (bk_exports b')"
      "set (bk_imports b) - import_keys db {a} \<subseteq> set (bk_imports b')"
      "set (bk_artifacts b') \<subseteq> set (bk_artifacts b)" "set (bk_exports b') \<subseteq> set (bk_exports b)"
      "set (bk_imports b') \<subseteq> set (bk_imports b)"
  | (gone) "db' = purge a (releaseHostnames edge a db)"
      "set (bk_artifacts b') = set (bk_artifacts b) - (artifact_keys db {a} - artifact_keys db (- {a}))"
      "set (bk_exports b') = set (bk_exports b) - export_keys db {a}"
      "set (bk_imports b') = set (bk_imports b) - import_keys db {a}"
proof (cases "list_all removes (lo_exports (listLeftovers (releaseHostnames edge a db) a) @
    lo_artifacts (listLeftovers (releaseHostnames edge a db) a) @ lo_imports (listLeftovers (releaseHostnames edge a db) a))")
  case True
  then show ?thesis
    using assms by (intro gone) (auto simp: purgeApp_def Let_def list_all_iff leftover_keys released_keys)
next
  case False
  then obtain k where "k \<in> artifact_keys db {a} \<union> export_keys db {a} \<union> import_keys db {a}" "\<not> removes k"
    by (auto simp: list_all_iff leftover_keys released_keys)
  then show ?thesis
    using False assms
    by (intro refused [of k]) (auto simp: purgeApp_def Let_def leftover_keys released_keys)
qed

text \<open>What a pass over a bucket keeps, \<open>named\<close> being the objects the rows of some apps name: the rows of the
  apps it is not about and what they name, and an object that was named is still named where it is
  still stored.\<close>

definition keeps ::
  "(AppId set \<Rightarrow> ObjectKey set) \<Rightarrow> (AppId set \<Rightarrow> ObjectKey set) \<Rightarrow> AppId set \<Rightarrow> ObjectKey set \<Rightarrow> ObjectKey set \<Rightarrow> bool" where
  "keeps named named' apps stored stored' \<longleftrightarrow>
     (\<forall>kept. kept \<subseteq> apps \<longrightarrow> named' kept = named kept) \<and> (\<forall>kept. named' kept \<subseteq> named kept) \<and>
     named apps \<inter> stored \<subseteq> stored' \<and> stored' \<subseteq> stored \<and> named UNIV \<inter> stored' \<subseteq> named' UNIV"

lemma keeps_refl: "keeps named named apps stored stored"
  by (simp add: keeps_def)

lemma keeps_parts:
  assumes "keeps n n' apps s s'"
  shows "kept \<subseteq> apps \<Longrightarrow> n' kept = n kept" "n' kept \<subseteq> n kept" "n apps \<inter> s \<subseteq> s'" "s' \<subseteq> s" "n UNIV \<inter> s' \<subseteq> n' UNIV"
  using assms unfolding keeps_def by simp_all

lemma keeps_trans:
  assumes "keeps n n' apps s s'" and "keeps n' n'' apps s' s''"
  shows "keeps n n'' apps s s''"
  unfolding keeps_def
proof (intro conjI allI impI)
  note k = keeps_parts [OF assms(1)] and k' = keeps_parts [OF assms(2)]
  show "n'' kept = n kept" if "kept \<subseteq> apps" for kept using k(1) [OF that] k'(1) [OF that] by simp
  show "n'' kept \<subseteq> n kept" for kept using k(2) k'(2) by (rule subset_trans [rotated])
  show "n apps \<inter> s \<subseteq> s''" using k(3) k'(3) k(1) [OF order_refl] by auto
  show "s'' \<subseteq> s" using k(4) k'(4) by (rule subset_trans [rotated])
  show "n UNIV \<inter> s'' \<subseteq> n'' UNIV" using k(5) k'(4,5) by auto
qed

definition spares :: "AppId set \<Rightarrow> Buckets \<times> Database \<Rightarrow> Buckets \<times> Database \<Rightarrow> bool" where
  "spares apps s s' \<longleftrightarrow>
     (keys_apart (snd s) \<longrightarrow> keys_apart (snd s')) \<and> db_apps (snd s') = db_apps (snd s) \<and>
     keeps (artifact_keys (snd s)) (artifact_keys (snd s')) apps (set (bk_artifacts (fst s))) (set (bk_artifacts (fst s'))) \<and>
     keeps (import_keys (snd s)) (import_keys (snd s')) apps (set (bk_imports (fst s))) (set (bk_imports (fst s'))) \<and>
     keeps (export_keys (snd s)) (export_keys (snd s')) apps (set (bk_exports (fst s))) (set (bk_exports (fst s')))"

lemma spares_refl: "spares apps s s"
  by (simp add: spares_def keeps_refl)

lemma spares_trans:
  assumes "spares apps s s'" and "spares apps s' s''"
  shows "spares apps s s''"
proof -
  note k = assms(1) [unfolded spares_def] and k' = assms(2) [unfolded spares_def]
  have "db_apps (snd s'') = db_apps (snd s)"
    using k k' by (elim conjE) (simp only:)
  then show ?thesis
    unfolding spares_def using k k' by (elim conjE, intro conjI) ((blast | assumption | rule keeps_trans; assumption)+)
qed

lemma keys_split:
  "artifact_keys db UNIV = artifact_keys db (- {a}) \<union> artifact_keys db {a}"
  "import_keys db UNIV = import_keys db (- {a}) \<union> import_keys db {a}"
  "export_keys db UNIV = export_keys db (- {a}) \<union> export_keys db {a}"
  by (auto simp: artifact_keys_def import_keys_def export_keys_def)

lemma keys_mono:
  "A \<subseteq> B \<Longrightarrow> artifact_keys db A \<subseteq> artifact_keys db B" "A \<subseteq> B \<Longrightarrow> import_keys db A \<subseteq> import_keys db B"
  "A \<subseteq> B \<Longrightarrow> export_keys db A \<subseteq> export_keys db B"
  by (auto simp: artifact_keys_def import_keys_def export_keys_def)

lemma purge_keys_apart: "keys_apart db \<Longrightarrow> keys_apart (purge a db)" "keys_apart (releaseHostnames edge a db) = keys_apart db"
  by (auto simp: keys_apart_def purge_def released_tables list_all_iff)

lemma keeps_removal:
  assumes mono: "\<And>A B. A \<subseteq> B \<Longrightarrow> named A \<subseteq> named B" and split: "named UNIV = named (- {a}) \<union> named {a}"
    and a: "a \<notin> apps" and named': "\<And>kept. named' kept = named (kept - {a})"
    and stored': "stored' = stored - own" and own: "named {a} - named (- {a}) \<subseteq> own" "own \<inter> named (- {a}) = {}"
  shows "keeps named named' apps stored stored'"
  unfolding keeps_def
proof (intro conjI allI impI)
  show "named' kept = named kept" if "kept \<subseteq> apps" for kept
  proof -
    have "kept - {a} = kept" using that a by auto
    then show ?thesis unfolding named' by simp
  qed
  show "named' kept \<subseteq> named kept" for kept unfolding named' by (rule mono) auto
  have "named apps \<subseteq> named (- {a})" by (rule mono) (use a in auto)
  then show "named apps \<inter> stored \<subseteq> stored'" "stored' \<subseteq> stored" using own(2) stored' by auto
  have "named' UNIV = named (- {a})" unfolding named' by (simp add: Compl_eq_Diff_UNIV)
  then show "named UNIV \<inter> stored' \<subseteq> named' UNIV" using split own(1) stored' by auto
qed

lemma keeps_refused:
  assumes mono: "\<And>A B. A \<subseteq> B \<Longrightarrow> named A \<subseteq> named B" and a: "a \<notin> apps"
    and stored': "stored - own \<subseteq> stored'" "stored' \<subseteq> stored" and own: "own \<inter> named (- {a}) = {}"
  shows "keeps named named apps stored stored'"
proof -
  have "named apps \<subseteq> named (- {a})" by (rule mono) (use a in auto)
  then show ?thesis using own stored' by (auto simp: keeps_def)
qed

lemma purgeApp_spares:
  assumes apart: "keys_apart db" and a: "a \<notin> apps"
  shows "spares apps (b, db) (purgeApp edge removes a (b, db))"
proof -
  obtain b' db' where r: "purgeApp edge removes a (b, db) = (b', db')" by fastforce
  have own: "import_keys db {a} \<inter> import_keys db (- {a}) = {}" "export_keys db {a} \<inter> export_keys db (- {a}) = {}"
    using keys_apart_other [OF apart, of a "- {a}"] by simp_all
  from r show ?thesis
  proof (cases rule: purgeApp_cases)
    case (refused k)
    show ?thesis
      unfolding r spares_def fst_conv snd_conv refused(3) released_keys purge_keys_apart released_tables
      using refused(4-9) own
      by (intro conjI keeps_refused [OF keys_mono(1) a] keeps_refused [OF keys_mono(2) a] keeps_refused [OF keys_mono(3) a]) auto
  next
    case gone
    show ?thesis
      unfolding r spares_def fst_conv snd_conv gone
      by (intro conjI keeps_removal [OF keys_mono(1) keys_split(1) a] keeps_removal [OF keys_mono(2) keys_split(2) a]
          keeps_removal [OF keys_mono(3) keys_split(3) a])
        (use own in \<open>auto simp: purge_keys_apart purged_keys released_keys released_tables purged_apps\<close>)
  qed
qed

lemma purge_all_spares:
  assumes "keys_apart (snd s)" and "set ids \<inter> apps = {}"
  shows "spares apps s (fold (purgeApp edge removes) ids s)"
  using assms
proof (induction ids arbitrary: s)
  case (Cons i ids)
  obtain b db where s: "s = (b, db)" by fastforce
  have step: "spares apps s (purgeApp edge removes i s)"
    unfolding s using Cons.prems s by (intro purgeApp_spares) auto
  then have "keys_apart (snd (purgeApp edge removes i s))"
    using Cons.prems(1) by (simp add: spares_def)
  from spares_trans [OF step Cons.IH [OF this]] Cons.prems(2) show ?case by simp
qed (simp add: spares_refl)

lemma purgeApp_answered:
  assumes "\<And>k. removes k"
  shows "snd (purgeApp edge removes a s) = purge a (releaseHostnames edge a (snd s))"
  using assms by (cases s) (simp add: purgeApp_def Let_def list_all_iff)

definition leftover_rows :: "AppId \<Rightarrow> Database \<Rightarrow> bool" where
  "leftover_rows i db \<longleftrightarrow>
     (\<exists>r \<in> set (db_artifacts db). ar_appId r = i) \<or> (\<exists>r \<in> set (db_imports db). ar_appId r = i) \<or>
     (\<exists>e \<in> set (db_exports db). ex_appId e = i)"

definition deleted_apps :: "Database \<Rightarrow> AppId set" where
  "deleted_apps db = {ap_id a |a. a \<in> set (db_apps db) \<and> ap_state a = AppDeleted}"

lemma purge_all_answered:
  assumes "\<And>k. removes k"
  shows "leftover_rows i (snd (fold (purgeApp edge removes) ids s)) \<longleftrightarrow> i \<notin> set ids \<and> leftover_rows i (snd s)"
proof (induction ids arbitrary: s)
  case (Cons j ids)
  have "leftover_rows i (purge j (releaseHostnames edge j db)) \<longleftrightarrow> i \<noteq> j \<and> leftover_rows i db" for db
    by (auto simp: leftover_rows_def purge_def released_tables)
  with Cons show ?case by (auto simp: purgeApp_answered [OF assms])
qed simp

text \<open>
  C18. A purge takes what only deleted apps name and loses track of nothing. After a pass over the deleted
  apps, every row of an app that is not deleted names what it named, and every object it names that was
  stored still is; and every object of the buckets that a row named before is gone or is still named by
  a row, so that a pass a bucket refused is taken up by the next one. Where the buckets refuse nothing
  and a pass is large enough, no row of a deleted app is left.
\<close>

theorem purge_spares_what_is_named:
  assumes "keys_apart db" and "purgeDeleted edge removes (buckets, db) = (buckets', db')"
  shows "artifact_keys db' (- deleted_apps db) = artifact_keys db (- deleted_apps db) \<and>
    import_keys db' (- deleted_apps db) = import_keys db (- deleted_apps db) \<and>
    export_keys db' (- deleted_apps db) = export_keys db (- deleted_apps db) \<and>
    artifact_keys db (- deleted_apps db) \<inter> set (bk_artifacts buckets) \<subseteq> set (bk_artifacts buckets') \<and>
    import_keys db (- deleted_apps db) \<inter> set (bk_imports buckets) \<subseteq> set (bk_imports buckets') \<and>
    export_keys db (- deleted_apps db) \<inter> set (bk_exports buckets) \<subseteq> set (bk_exports buckets') \<and>
    artifact_keys db UNIV \<inter> set (bk_artifacts buckets') \<subseteq> artifact_keys db' UNIV \<and>
    import_keys db UNIV \<inter> set (bk_imports buckets') \<subseteq> import_keys db' UNIV \<and>
    export_keys db UNIV \<inter> set (bk_exports buckets') \<subseteq> export_keys db' UNIV \<and>
    ((\<forall>k. removes k) \<and> length (filter (purgeable db) (map ap_id (db_apps db))) \<le> PURGE_BATCH \<longrightarrow>
       (\<forall>i \<in> deleted_apps db. \<not> leftover_rows i db'))"
proof -
  let ?ids = "take PURGE_BATCH (filter (purgeable db) (map ap_id (db_apps db)))"
  have pass: "fold (purgeApp edge removes) ?ids (buckets, db) = (buckets', db')"
    using assms(2) by (simp add: purgeDeleted_def)
  have "purgeable db i \<Longrightarrow> i \<in> deleted_apps db" for i
    by (auto simp: purgeable_def deleted_apps_def list_ex_iff)
  then have "set ?ids \<inter> (- deleted_apps db) = {}"
    using set_take_subset [of PURGE_BATCH "filter (purgeable db) (map ap_id (db_apps db))"] by auto
  then have "spares (- deleted_apps db) (buckets, db) (buckets', db')"
    unfolding pass [symmetric] using assms(1) by (intro purge_all_spares) auto
  moreover have "\<not> leftover_rows i db'"
    if "\<forall>k. removes k" and n: "length (filter (purgeable db) (map ap_id (db_apps db))) \<le> PURGE_BATCH"
      and i: "i \<in> deleted_apps db" for i
  proof -
    have "i \<in> set ?ids" if "leftover_rows i db"
      using that i n by (auto simp: leftover_rows_def purgeable_def deleted_apps_def list_ex_iff)
    then show ?thesis
      using that(1) purge_all_answered [of removes i edge ?ids "(buckets, db)"] by (auto simp: pass)
  qed
  ultimately show ?thesis by (auto simp: spares_def keeps_def)
qed

definition purge_example_binary :: "AppId \<Rightarrow> ObjectKey \<Rightarrow> ArtifactRow" where
  "purge_example_binary i k = \<lparr>ar_id = i @ k, ar_appId = i, ar_digest = Some k, ar_sizeBytes = 1,
     ar_objectKey = Some k, ar_filename = ''bin'', ar_sourceDigest = None, ar_createdAt = 0\<rparr>"

definition purge_example :: Database where
  "purge_example = (empty_database [])
     \<lparr>db_apps := [\<lparr>ap_id = ''gone'', ap_owner = ''me'', ap_name = ''Gone'', ap_slug = ''gone'', ap_state = AppDeleted,
        ap_activation = AlwaysActivation, ap_idleTimeoutMs = 0, ap_createdAt = 0, ap_updatedAt = 0,
        ap_dataInitializedAt = None, ap_migrationState = None, ap_migrationMessage = None,
        ap_migrationStartedAt = None, ap_migrationHostId = None\<rparr>],
      db_artifacts := [purge_example_binary ''gone'' ''own'', purge_example_binary ''gone'' ''shared'',
        purge_example_binary ''here'' ''shared''],
      db_imports := [purge_example_binary ''gone'' ''data'']\<rparr>"

definition purge_example_buckets :: Buckets where
  "purge_example_buckets = \<lparr>bk_artifacts = [''own'', ''shared''], bk_exports = [], bk_imports = [''data'']\<rparr>"

theorem purge_spares_what_is_named_witness:
  "''shared'' \<in> set (bk_artifacts (fst (purgeDeleted (\<lambda>_. True) (\<lambda>_. True) (purge_example_buckets, purge_example)))) \<and>
   \<not> leftover_rows ''gone'' (snd (purgeDeleted (\<lambda>_. True) (\<lambda>_. True) (purge_example_buckets, purge_example)))"
proof -
  let ?p = "purgeDeleted (\<lambda>_. True) (\<lambda>_. True) (purge_example_buckets, purge_example)"
  have "keys_apart purge_example"
    "length (filter (purgeable purge_example) (map ap_id (db_apps purge_example))) \<le> PURGE_BATCH"
    by code_simp+
  moreover have "''shared'' \<in> artifact_keys purge_example (- deleted_apps purge_example)"
    by (auto simp: artifact_keys_def deleted_apps_def purge_example_def purge_example_binary_def)
  moreover have "''gone'' \<in> deleted_apps purge_example"
    by (simp add: deleted_apps_def purge_example_def)
  moreover have "''shared'' \<in> set (bk_artifacts purge_example_buckets)"
    by (simp add: purge_example_buckets_def)
  ultimately show ?thesis
    using purge_spares_what_is_named [of purge_example "\<lambda>_. True" "\<lambda>_. True" purge_example_buckets "fst ?p" "snd ?p"]
    by auto
qed

end
