(* ===== verification/Deployments.thy ===== *)
theory Deployments
  imports Apps
begin

text \<open>
  Releases: \<open>apps/api/src/repositories/deployments.repository.ts\<close> and
  \<open>apps/api/src/services/deployments.service.ts\<close>. The index \<open>deployments_live_idx\<close> refuses a second
  live release of an app.
\<close>

section \<open>Creating a release\<close>

record CreateDeployment =
  cd_appId :: AppId
  cd_ownerId :: OwnerId
  cd_artifactId :: ArtifactId
  cd_initialDataFrom :: "ImportId option"
  cd_onlyOne :: bool
  cd_grantId :: "string option"
  cd_mcpClientId :: "string option"
  cd_mcpChatId :: "string option"

datatype CreatedDeployment =
  Created DeploymentRow | NoArtifact | NoGrant | NoImport | NoHost | DataExists | Held

definition validDeploymentGrant :: "Database \<Rightarrow> AppId \<Rightarrow> OwnerId \<Rightarrow> string option \<Rightarrow> bool" where
  "validDeploymentGrant db appId ownerId grantId =
     (case grantId of None \<Rightarrow> True
      | Some g \<Rightarrow> list_ex (\<lambda>r. gr_id r = g \<and> gr_appId r = appId \<and> gr_owner r = ownerId) (db_grants db))"

definition seedRefusal :: "Database \<Rightarrow> AppId \<Rightarrow> OwnerId \<Rightarrow> ImportId \<Rightarrow> CreatedDeployment option" where
  "seedRefusal db appId ownerId initialDataFrom =
     (case owned_app db appId ownerId of
        None \<Rightarrow> Some DataExists
      | Some a \<Rightarrow>
          if ap_dataInitializedAt a \<noteq> None then Some DataExists
          else if list_ex (\<lambda>i. ar_id i = initialDataFrom \<and> ar_appId i = appId \<and> ar_digest i \<noteq> None) (db_imports db)
          then None else Some NoImport)"

definition creationRefusal :: "Database \<Rightarrow> CreateDeployment \<Rightarrow> CreatedDeployment option" where
  "creationRefusal db input =
     (case (case cd_initialDataFrom input of None \<Rightarrow> None
            | Some i \<Rightarrow> seedRefusal db (cd_appId input) (cd_ownerId input) i) of
        Some refusal \<Rightarrow> Some refusal
      | None \<Rightarrow> if cd_onlyOne input \<and> alreadyDeployed db (cd_appId input) then Some Held else None)"

definition HOST_REPORT_MAX_AGE_MS :: int where "HOST_REPORT_MAX_AGE_MS = 15000 * 3"

text \<open>The most recently seen of the ready hosts, the first of them where two were seen together.\<close>

fun most_recent :: "HostRow option \<Rightarrow> HostRow list \<Rightarrow> HostRow option" where
  "most_recent best [] = best"
| "most_recent best (h # hs) =
     most_recent
       (case best of None \<Rightarrow> Some h
        | Some b \<Rightarrow> if the (hs_lastSeenAt b) < the (hs_lastSeenAt h) then Some h else Some b) hs"

definition readyHost :: "Database \<Rightarrow> int \<Rightarrow> HostId option" where
  "readyHost db now =
     map_option hs_id (most_recent None (filter (\<lambda>h. hs_reportedState h = HostReady \<and>
       (case hs_lastSeenAt h of None \<Rightarrow> False | Some at \<Rightarrow> at \<ge> now - HOST_REPORT_MAX_AGE_MS)) (db_hosts db)))"

definition hostForDeployment :: "Database \<Rightarrow> AppId \<Rightarrow> OwnerId \<Rightarrow> int \<Rightarrow> HostId option" where
  "hostForDeployment db appId ownerId now =
     (case (if owned_app db appId ownerId = None then None
            else newest_deployment db appId) of
        Some previous \<Rightarrow> Some (dp_hostId previous)
      | None \<Rightarrow> readyHost db now)"

definition supersedeLiveDeployment :: "AppId \<Rightarrow> OwnerId \<Rightarrow> Database \<Rightarrow> Database" where
  "supersedeLiveDeployment appId ownerId db =
     (if owned_app db appId ownerId = None then db
      else db\<lparr>db_deployments := map (\<lambda>d. if dp_appId d = appId \<and> live d
        then d\<lparr>dp_state := DeploymentSuperseded\<rparr> else d) (db_deployments db)\<rparr>)"

text \<open>\<open>INSERT\<close> through the index \<open>deployments_live_idx\<close>.\<close>

definition insert_deployment_row :: "DeploymentRow \<Rightarrow> Database \<Rightarrow> (db_error, Database) result" where
  "insert_deployment_row d db =
     (if list_ex (\<lambda>e. dp_appId e = dp_appId d \<and> live e) (db_deployments db) then Inl (UniqueViolation ''deployments_live_idx'')
      else Inr (db\<lparr>db_deployments := db_deployments db @ [d]\<rparr>))"

definition new_deployment :: "DeploymentId \<Rightarrow> int \<Rightarrow> AppId \<Rightarrow> ArtifactId \<Rightarrow> ConfigId \<Rightarrow> HostId \<Rightarrow> DeploymentRow" where
  "new_deployment newId now appId artifactId configId hostId =
     \<lparr>dp_id = newId, dp_appId = appId, dp_artifactId = artifactId, dp_configId = configId,
      dp_initialData = None, dp_rollbackOf = None, dp_grantId = None, dp_mcpClientId = None,
      dp_mcpChatId = None, dp_hostId = hostId, dp_state = DeploymentPending, dp_instanceState = None,
      dp_hostPort = None, dp_guestIpv4 = None, dp_publicIpv4 = None, dp_extraPublicPort = None,
      dp_restartCount = 0, dp_message = None, dp_startedAt = None, dp_lastHealthyAt = None,
      dp_activatedAt = None, dp_createdAt = now\<rparr>"

definition deployable :: "Database \<Rightarrow> AppId \<Rightarrow> ArtifactId \<Rightarrow> bool" where
  "deployable db appId artifactId =
     list_ex (\<lambda>r. ar_id r = artifactId \<and> ar_appId r = appId \<and> ar_digest r \<noteq> None) (db_artifacts db)"

definition insertDeployment ::
  "DeploymentId \<Rightarrow> int \<Rightarrow> CreateDeployment \<Rightarrow> Database \<Rightarrow> (db_error, CreatedDeployment) result \<times> Database" where
  "insertDeployment newId now input db =
     (let appId = cd_appId input; ownerId = cd_ownerId input in
      if owned_app db appId ownerId = None \<or> \<not> deployable db appId (cd_artifactId input)
      then (Inr NoArtifact, db)
      else if \<not> validDeploymentGrant db appId ownerId (cd_grantId input) then (Inr NoGrant, db)
      else case creationRefusal db input of
        Some refusal \<Rightarrow> (Inr refusal, db)
      | None \<Rightarrow>
          (case lockAppForMutation db appId ownerId of
             Inl e \<Rightarrow> (Inl e, db)
           | Inr _ \<Rightarrow>
               (case hostForDeployment db appId ownerId now of
                  None \<Rightarrow> (Inr NoHost, db)
                | Some hostId \<Rightarrow>
                    (let db' = supersedeLiveDeployment appId ownerId db in
                     case newest_config db' appId of
                       None \<Rightarrow> (Inr NoArtifact, db')
                     | Some c \<Rightarrow>
                         (let d = (new_deployment newId now appId (cd_artifactId input) (cf_id c) hostId)
                                \<lparr>dp_initialData := cd_initialDataFrom input, dp_grantId := cd_grantId input,
                                 dp_mcpClientId := cd_mcpClientId input, dp_mcpChatId := cd_mcpChatId input\<rparr> in
                          case insert_deployment_row d db' of
                            Inl e \<Rightarrow> (Inl e, db)
                          | Inr db'' \<Rightarrow> (Inr (Created d), db''))))))"

text \<open>The rollback keeps the volume's storage: where the replayed configuration names another one, a
  new configuration is written with the old settings and the current storage.\<close>

definition insertRollback ::
  "DeploymentId \<Rightarrow> ConfigId \<Rightarrow> int \<Rightarrow> AppId \<Rightarrow> OwnerId \<Rightarrow> DeploymentId \<Rightarrow> Database \<Rightarrow>
     (db_error, DeploymentRow option) result \<times> Database" where
  "insertRollback newId newConfigId now appId ownerId rollbackOf db =
     (case (if owned_app db appId ownerId = None then None
            else find (\<lambda>d. dp_id d = rollbackOf \<and> dp_appId d = appId) (db_deployments db)) of
        None \<Rightarrow> (Inr None, db)
      | Some src \<Rightarrow>
          (case lockAppForMutation db appId ownerId of
             Inl e \<Rightarrow> (Inl e, db)
           | Inr _ \<Rightarrow>
               (let db' = supersedeLiveDeployment appId ownerId db in
                case newest_deployment db' appId of
                  None \<Rightarrow> (Inr None, db')
                | Some latest \<Rightarrow>
                    (let written = (case (config_by_id db' (dp_configId src), config_by_id db' (dp_configId latest)) of
                           (Some previous, Some storage) \<Rightarrow>
                             if cf_storage previous \<noteq> cf_storage storage
                             then Some \<lparr>cf_id = newConfigId, cf_appId = cf_appId previous,
                               cf_run = cf_run previous, cf_environment = cf_environment previous,
                               cf_storage = cf_storage storage, cf_createdAt = now\<rparr>
                             else None
                         | _ \<Rightarrow> None);
                         db'' = (case written of None \<Rightarrow> db' | Some c \<Rightarrow> db'\<lparr>db_configs := db_configs db' @ [c]\<rparr>);
                         d = (new_deployment newId now appId (dp_artifactId src)
                               (case written of None \<Rightarrow> dp_configId src | Some c \<Rightarrow> cf_id c) (dp_hostId latest))
                               \<lparr>dp_rollbackOf := Some (dp_id src)\<rparr> in
                     case insert_deployment_row d db'' of
                       Inl e \<Rightarrow> (Inl e, db)
                     | Inr db3 \<Rightarrow> (Inr (Some d), db3)))))"

datatype deployment_error =
  AnotherDeployment | InvalidGrant | NothingToDeploy | OneDeployment | NoExecutionHost
  | NoSuchImport | DataAlreadyExists | OnlyBinaries | DeploymentDb db_error

definition conflict_of :: "db_error \<Rightarrow> deployment_error" where
  "conflict_of e = (if e = UniqueViolation ''deployments_live_idx'' then AnotherDeployment else DeploymentDb e)"

definition created :: "(db_error, CreatedDeployment) result \<Rightarrow> (deployment_error, DeploymentRow) result" where
  "created outcome =
     (case outcome of
        Inl e \<Rightarrow> Inl (conflict_of e)
      | Inr (Created d) \<Rightarrow> Inr d
      | Inr NoGrant \<Rightarrow> Inl InvalidGrant
      | Inr NoArtifact \<Rightarrow> Inl NothingToDeploy
      | Inr Held \<Rightarrow> Inl OneDeployment
      | Inr NoHost \<Rightarrow> Inl NoExecutionHost
      | Inr NoImport \<Rightarrow> Inl NoSuchImport
      | Inr DataExists \<Rightarrow> Inl DataAlreadyExists)"

definition published :: "(db_error, DeploymentRow option) result \<Rightarrow> (deployment_error, DeploymentRow) result" where
  "published row =
     (case row of Inl e \<Rightarrow> Inl (conflict_of e) | Inr None \<Rightarrow> Inl NothingToDeploy | Inr (Some d) \<Rightarrow> Inr d)"

datatype DeploymentSource = DeployArtifact ArtifactId "ImportId option" | RollbackOf DeploymentId

definition plain_deployment :: "AppId \<Rightarrow> OwnerId \<Rightarrow> ArtifactId \<Rightarrow> CreateDeployment" where
  "plain_deployment appId ownerId artifactId =
     \<lparr>cd_appId = appId, cd_ownerId = ownerId, cd_artifactId = artifactId, cd_initialDataFrom = None,
      cd_onlyOne = False, cd_grantId = None, cd_mcpClientId = None, cd_mcpChatId = None\<rparr>"

definition createOrRollback ::
  "DeploymentId \<Rightarrow> ConfigId \<Rightarrow> int \<Rightarrow> AppId \<Rightarrow> OwnerId \<Rightarrow> bool \<Rightarrow> DeploymentSource \<Rightarrow> Database \<Rightarrow>
     (deployment_error, DeploymentRow) result \<times> Database" where
  "createOrRollback newId newConfigId now appId ownerId isAnonymous source db =
     (case source of
        RollbackOf rollbackOf \<Rightarrow>
          if isAnonymous then (Inl OneDeployment, db)
          else apfst published (insertRollback newId newConfigId now appId ownerId rollbackOf db)
      | DeployArtifact artifactId initialDataFrom \<Rightarrow>
          apfst created (insertDeployment newId now ((plain_deployment appId ownerId artifactId)
            \<lparr>cd_initialDataFrom := initialDataFrom, cd_onlyOne := isAnonymous\<rparr>) db))"

definition createWithMcpClient ::
  "DeploymentId \<Rightarrow> int \<Rightarrow> AppId \<Rightarrow> OwnerId \<Rightarrow> ArtifactId \<Rightarrow> string \<Rightarrow> string option \<Rightarrow> Database \<Rightarrow>
     (deployment_error, DeploymentRow) result \<times> Database" where
  "createWithMcpClient newId now appId ownerId artifactId clientId chatId db =
     apfst created (insertDeployment newId now ((plain_deployment appId ownerId artifactId)
       \<lparr>cd_mcpClientId := Some clientId, cd_mcpChatId := chatId\<rparr>) db)"

definition createWithDeploymentGrant ::
  "DeploymentId \<Rightarrow> int \<Rightarrow> AppId \<Rightarrow> OwnerId \<Rightarrow> string \<Rightarrow> DeploymentSource \<Rightarrow> Database \<Rightarrow>
     (deployment_error, DeploymentRow) result \<times> Database" where
  "createWithDeploymentGrant newId now appId ownerId grantId source db =
     (case source of
        DeployArtifact artifactId None \<Rightarrow>
          apfst created (insertDeployment newId now ((plain_deployment appId ownerId artifactId)
            \<lparr>cd_grantId := Some grantId\<rparr>) db)
      | _ \<Rightarrow> (Inl OnlyBinaries, db))"

section \<open>Reading and writing what a host reports\<close>

definition listLive :: "HostId \<Rightarrow> Database \<Rightarrow> LiveDeploymentRow list" where
  "listLive hostId db =
     concat (map (\<lambda>d. case find (\<lambda>a. ap_id a = dp_appId d) (db_apps db) of
         None \<Rightarrow> []
       | Some a \<Rightarrow>
           if live d \<and> dp_hostId d = hostId
           then [\<lparr>ld_id = dp_id d, ld_app_id = dp_appId d, ld_state = dp_state d,
                  ld_created_at = dp_createdAt d, ld_state_changed_at = ap_updatedAt a,
                  ld_desired_running = (ap_state a = AppActive)\<rparr>]
           else []) (db_deployments db))"

text \<open>\<open>UPDATE nibrun.deployments\<close> of one row by its id, where it is live and on the host.\<close>

definition update_live :: "DeploymentId \<Rightarrow> HostId \<Rightarrow> (DeploymentRow \<Rightarrow> DeploymentRow) \<Rightarrow> Database \<Rightarrow> Database" where
  "update_live i hostId change db =
     db\<lparr>db_deployments := map (\<lambda>d. if dp_id d = i \<and> live d \<and> dp_hostId d = hostId then change d else d)
       (db_deployments db)\<rparr>"

definition reported_columns :: "ReportedDeployment \<Rightarrow> DeploymentRow \<Rightarrow> DeploymentRow" where
  "reported_columns r d =
     d\<lparr>dp_state := rd_state r, dp_instanceState := Some (rd_instanceState r), dp_hostPort := rd_hostPort r,
       dp_guestIpv4 := rd_guestIpv4 r, dp_publicIpv4 := rd_publicIpv4 r,
       dp_extraPublicPort := rd_extraPublicPort r, dp_restartCount := rd_restartCount r,
       dp_message := rd_message r, dp_startedAt := rd_startedAt r, dp_lastHealthyAt := rd_lastHealthyAt r\<rparr>"

definition applyReport :: "ReportedDeployment list \<Rightarrow> HostId \<Rightarrow> Database \<Rightarrow> Database" where
  "applyReport reported hostId db =
     fold (\<lambda>r. update_live (rd_deploymentId r) hostId (reported_columns r)) reported db"

definition stampActivation :: "DeploymentId \<Rightarrow> Timestamp \<Rightarrow> HostId \<Rightarrow> Database \<Rightarrow> Database" where
  "stampActivation i at hostId db =
     update_live i hostId (\<lambda>d. if dp_activatedAt d = None then d\<lparr>dp_activatedAt := Some at\<rparr> else d) db"

definition failDeployment :: "DeploymentId \<Rightarrow> string \<Rightarrow> HostId \<Rightarrow> Database \<Rightarrow> Database" where
  "failDeployment i message hostId db =
     update_live i hostId (\<lambda>d. d\<lparr>dp_state := DeploymentFailed, dp_message := Some message\<rparr>) db"

definition applyHostReport :: "int \<Rightarrow> 'share HostReportedState \<Rightarrow> Database \<Rightarrow> Database" where
  "applyHostReport now reported db =
     (let hostId = hr_hostId reported;
          rows = listLive hostId db;
          readings = map (\<lambda>row. (row, read_row reported now row)) rows;
          observed = List.map_filter (\<lambda>(_, r). read_observed r) readings;
          activated = List.map_filter (\<lambda>(row, r). if read_activated r then Some (ld_id row) else None) readings;
          failed = List.map_filter (\<lambda>(_, r). read_failed r) readings in
      fold (\<lambda>(i, message). failDeployment i message hostId) failed
        (fold (\<lambda>i. stampActivation i (servedFrom (js_get (instances_of reported) i) (hr_reportedAt reported)) hostId)
          activated (applyReport observed hostId db)))"

end
