(* ===== verification/Storage_Migration.thy ===== *)
theory Storage_Migration
  imports Deployments
begin

text \<open>
  Moving an app's volume to storage of the owner's:
  \<open>apps/api/src/repositories/volume-storage-migrations.repository.ts\<close>,
  \<open>apps/api/src/services/volume-storage-migrations.service.ts\<close> and \<open>lib/volume-storage-migration.ts\<close>. The
  destination's prefix, made from a random id, is part of the destination it is given.
\<close>

section \<open>The repository\<close>

text \<open>The release an app is on and its configuration.\<close>

definition deployedConfig :: "Database \<Rightarrow> AppId \<Rightarrow> OwnerId \<Rightarrow> (DeploymentRow \<times> ConfigRow) option" where
  "deployedConfig db appId ownerId =
     (case owned_app db appId ownerId of
        None \<Rightarrow> None
      | Some a \<Rightarrow>
          if ap_state a \<noteq> AppActive \<and> ap_state a \<noteq> AppSuspended then None
          else (case newest_deployment db appId of
                  None \<Rightarrow> None
                | Some d \<Rightarrow>
                    (case find (\<lambda>c. cf_id c = dp_configId d \<and> cf_appId c = appId) (db_configs db) of
                       None \<Rightarrow> None | Some c \<Rightarrow> Some (d, c))))"

text \<open>The app and its newest configuration, where a migration was ever asked for.\<close>

definition read_migration :: "Database \<Rightarrow> AppId \<Rightarrow> OwnerId \<Rightarrow> (AppRow \<times> ConfigRow) option" where
  "read_migration db appId ownerId =
     (case owned_app db appId ownerId of
        None \<Rightarrow> None
      | Some a \<Rightarrow>
          if ap_migrationState a = None then None
          else map_option (Pair a) (newest_config db appId))"

definition of_owner :: "AppId \<Rightarrow> OwnerId \<Rightarrow> AppRow \<Rightarrow> bool" where
  "of_owner appId ownerId a = (ap_id a = appId \<and> ap_owner a = ownerId)"

definition EXPORT_IN_PROGRESS :: string where
  "EXPORT_IN_PROGRESS = ''Cannot migrate app storage while an export is in progress.''"

definition request_migration ::
  "ConfigId \<Rightarrow> int \<Rightarrow> AppId \<Rightarrow> OwnerId \<Rightarrow> StoredVolumeStorage \<Rightarrow> Database \<Rightarrow>
     (db_error, (AppRow \<times> ConfigRow) option) result \<times> Database" where
  "request_migration newConfigId now appId ownerId destination db =
     (case lockApp db appId ownerId of
        None \<Rightarrow> (Inr None, db)
      | Some a \<Rightarrow>
          if ap_state a \<noteq> AppActive \<and> ap_state a \<noteq> AppSuspended then (Inr None, db)
          else if ap_migrationState a = Some MigrationPending then (Inr (read_migration db appId ownerId), db)
          else (case deployedConfig db appId ownerId of
                  None \<Rightarrow> (Inr None, db)
                | Some (_, source) \<Rightarrow>
                    if volume_storage_endpoint (cf_storage source) \<noteq> None then (Inr None, db)
                    else if list_ex (\<lambda>e. ex_appId e = appId \<and> export_in_flight e) (db_exports db)
                    then (Inl (ConflictError EXPORT_IN_PROGRESS), db)
                    else (case appendConfigVersion newConfigId now appId empty_patch (Some destination) db of
                            Inl e \<Rightarrow> (Inl e, db)
                          | Inr db' \<Rightarrow>
                              (let db'' = update_apps now (of_owner appId ownerId)
                                 (\<lambda>a. a\<lparr>ap_migrationState := Some MigrationPending, ap_migrationMessage := None,
                                        ap_migrationStartedAt := None, ap_migrationHostId := None\<rparr>) db' in
                               (Inr (read_migration db'' appId ownerId), db'')))))"

definition start_migration ::
  "int \<Rightarrow> AppId \<Rightarrow> OwnerId \<Rightarrow> ConfigId \<Rightarrow> HostId \<Rightarrow> Database \<Rightarrow> bool \<times> Database" where
  "start_migration now appId ownerId configId hostId db =
     (case lockApp db appId ownerId of
        None \<Rightarrow> (False, db)
      | Some a \<Rightarrow>
          if ap_migrationState a \<noteq> Some MigrationPending \<or> ap_migrationStartedAt a \<noteq> None then (False, db)
          else (case read_migration db appId ownerId of
                  None \<Rightarrow> (False, db)
                | Some (_, c) \<Rightarrow>
                    if cf_id c \<noteq> configId then (False, db)
                    else (True, update_apps now (of_owner appId ownerId)
                      (\<lambda>a. a\<lparr>ap_migrationStartedAt := Some now, ap_migrationHostId := Some hostId\<rparr>) db)))"

text \<open>Whether the attempt is this host's, started, and not given up: what \<open>cutover\<close> and \<open>complete\<close> ask.\<close>

definition attempt_of :: "Database \<Rightarrow> AppId \<Rightarrow> OwnerId \<Rightarrow> ConfigId \<Rightarrow> HostId \<Rightarrow> AppRow option" where
  "attempt_of db appId ownerId configId hostId =
     (case lockApp db appId ownerId of
        None \<Rightarrow> None
      | Some a \<Rightarrow>
          if ap_migrationState a \<noteq> Some MigrationPending \<and> ap_migrationState a \<noteq> Some MigrationCompleted \<or>
             ap_migrationStartedAt a = None \<or> ap_migrationHostId a \<noteq> Some hostId then None
          else (case read_migration db appId ownerId of
                  None \<Rightarrow> None
                | Some (_, c) \<Rightarrow>
                    if cf_id c \<noteq> configId \<or> volume_storage_endpoint (cf_storage c) = None then None else Some a))"

definition APP_CHANGED :: string where
  "APP_CHANGED = ''The app changed before its storage migration could switch deployments.''"

definition deployDestination ::
  "DeploymentId \<Rightarrow> int \<Rightarrow> AppId \<Rightarrow> OwnerId \<Rightarrow> ConfigId \<Rightarrow> ArtifactId \<Rightarrow> Database \<Rightarrow>
     (db_error, DeploymentId) result \<times> Database" where
  "deployDestination newId now appId ownerId configId artifactId db =
     (let db' = supersedeLiveDeployment appId ownerId db in
      case owned_app db' appId ownerId of
        None \<Rightarrow> (Inl (ConflictError APP_CHANGED), db)
      | Some a \<Rightarrow>
          if ap_state a \<noteq> AppActive \<and> ap_state a \<noteq> AppSuspended then (Inl (ConflictError APP_CHANGED), db)
          else (case newest_deployment db' appId of
                  None \<Rightarrow> (Inl (DatabaseError ''host_id''), db)
                | Some previous \<Rightarrow>
                    (case insert_deployment_row
                            (new_deployment newId now appId artifactId configId (dp_hostId previous)) db' of
                       Inl e \<Rightarrow> (Inl e, db)
                     | Inr db'' \<Rightarrow> (Inr newId, db''))))"

definition cutover ::
  "DeploymentId \<Rightarrow> int \<Rightarrow> AppId \<Rightarrow> OwnerId \<Rightarrow> ConfigId \<Rightarrow> HostId \<Rightarrow> Database \<Rightarrow>
     (db_error, DeploymentId option) result \<times> Database" where
  "cutover newId now appId ownerId configId hostId db =
     (case attempt_of db appId ownerId configId hostId of
        None \<Rightarrow> (Inr None, db)
      | Some a \<Rightarrow>
          (case deployedConfig db appId ownerId of
             None \<Rightarrow> (Inr None, db)
           | Some (d, deployed) \<Rightarrow>
               if cf_id deployed = configId then (Inr (Some (dp_id d)), db)
               else if ap_migrationState a \<noteq> Some MigrationPending \<or>
                       volume_storage_endpoint (cf_storage deployed) \<noteq> None then (Inr None, db)
               else apfst (map_sum id Some)
                      (deployDestination newId now appId ownerId configId (dp_artifactId d) db)))"

definition complete_migration ::
  "int \<Rightarrow> AppId \<Rightarrow> OwnerId \<Rightarrow> ConfigId \<Rightarrow> HostId \<Rightarrow> Database \<Rightarrow> bool \<times> Database" where
  "complete_migration now appId ownerId configId hostId db =
     (case attempt_of db appId ownerId configId hostId of
        None \<Rightarrow> (False, db)
      | Some a \<Rightarrow>
          (case deployedConfig db appId ownerId of
             None \<Rightarrow> (False, db)
           | Some (_, deployed) \<Rightarrow>
               if cf_id deployed \<noteq> configId then (False, db)
               else if ap_migrationState a = Some MigrationCompleted then (True, db)
               else (True, update_apps now (of_owner appId ownerId)
                      (\<lambda>a. a\<lparr>ap_migrationState := Some MigrationCompleted, ap_migrationMessage := None\<rparr>) db)))"

datatype aborted = AbortFailed | AbortCancelled

definition aborted_state :: "aborted \<Rightarrow> VolumeStorageMigrationState" where
  "aborted_state s = (case s of AbortFailed \<Rightarrow> MigrationFailed | AbortCancelled \<Rightarrow> MigrationCancelled)"

definition restore ::
  "ConfigId \<Rightarrow> int \<Rightarrow> AppId \<Rightarrow> OwnerId \<Rightarrow> ConfigId \<Rightarrow> aborted \<Rightarrow> string option \<Rightarrow> int option \<Rightarrow>
     HostId option \<Rightarrow> Database \<Rightarrow> (db_error, bool) result \<times> Database" where
  "restore newConfigId now appId ownerId configId state message unstartedBefore hostId db =
     (case lockApp db appId ownerId of
        None \<Rightarrow> (Inr False, db)
      | Some a \<Rightarrow>
          if ap_migrationState a \<noteq> Some MigrationPending then (Inr False, db)
          else if hostId \<noteq> (if ap_migrationStartedAt a = None then None else ap_migrationHostId a)
          then (Inr False, db)
          else (case read_migration db appId ownerId of
                  None \<Rightarrow> (Inr False, db)
                | Some (_, c) \<Rightarrow>
                    if cf_id c \<noteq> configId then (Inr False, db)
                    else if (case unstartedBefore of None \<Rightarrow> False | Some t \<Rightarrow> cf_createdAt c \<ge> t) then (Inr False, db)
                    else (case deployedConfig db appId ownerId of
                            None \<Rightarrow> (Inr False, db)
                          | Some (_, source) \<Rightarrow>
                              if volume_storage_endpoint (cf_storage source) \<noteq> None then (Inr False, db)
                              else (case appendConfigVersion newConfigId now appId empty_patch
                                           (Some (cf_storage source)) db of
                                      Inl e \<Rightarrow> (Inl e, db)
                                    | Inr db' \<Rightarrow>
                                        (Inr True, update_apps now (of_owner appId ownerId)
                                          (\<lambda>a. a\<lparr>ap_migrationState := Some (aborted_state state),
                                                 ap_migrationMessage := message\<rparr>) db')))))"

definition abort_migration ::
  "ConfigId \<Rightarrow> int \<Rightarrow> AppId \<Rightarrow> OwnerId \<Rightarrow> ConfigId \<Rightarrow> aborted \<Rightarrow> string option \<Rightarrow> Database \<Rightarrow>
     (db_error, bool) result \<times> Database" where
  "abort_migration newConfigId now appId ownerId configId state message db =
     restore newConfigId now appId ownerId configId state message None None db"

definition abortUnstarted ::
  "ConfigId \<Rightarrow> int \<Rightarrow> AppId \<Rightarrow> OwnerId \<Rightarrow> ConfigId \<Rightarrow> aborted \<Rightarrow> string option \<Rightarrow> int \<Rightarrow> Database \<Rightarrow>
     (db_error, bool) result \<times> Database" where
  "abortUnstarted newConfigId now appId ownerId configId state message createdBefore db =
     restore newConfigId now appId ownerId configId state message (Some createdBefore) None db"

definition abortStarted ::
  "ConfigId \<Rightarrow> int \<Rightarrow> AppId \<Rightarrow> OwnerId \<Rightarrow> ConfigId \<Rightarrow> aborted \<Rightarrow> string option \<Rightarrow> HostId \<Rightarrow> Database \<Rightarrow>
     (db_error, bool) result \<times> Database" where
  "abortStarted newConfigId now appId ownerId configId state message hostId db =
     restore newConfigId now appId ownerId configId state message None (Some hostId) db"

definition listUnstarted :: "int \<Rightarrow> nat \<Rightarrow> Database \<Rightarrow> (AppId \<times> OwnerId \<times> ConfigId) list" where
  "listUnstarted createdBefore limit db =
     take limit (List.map_filter (\<lambda>c.
       case find (\<lambda>a. ap_id a = cf_appId c) (db_apps db) of
         None \<Rightarrow> None
       | Some a \<Rightarrow>
           if newest_config db (ap_id a) = Some c \<and>
              ap_migrationState a = Some MigrationPending \<and> ap_migrationStartedAt a = None \<and>
              (ap_state a = AppActive \<or> ap_state a = AppSuspended) \<and> cf_createdAt c < createdBefore
           then Some (ap_id a, ap_owner a, cf_id c) else None) (db_configs db))"

section \<open>The service\<close>

datatype migration_error = MigrationNotFound | MigrationMoved | MigrationDb db_error

definition cancel ::
  "ConfigId \<Rightarrow> int \<Rightarrow> AppId \<Rightarrow> OwnerId \<Rightarrow> ConfigId \<Rightarrow> Database \<Rightarrow> (migration_error, unit) result \<times> Database" where
  "cancel newConfigId now appId ownerId configId db =
     (case read_migration db appId ownerId of
        None \<Rightarrow> (Inl MigrationNotFound, db)
      | Some (a, _) \<Rightarrow>
          if ap_migrationState a = Some MigrationCancelled then (Inr (), db)
          else (case abort_migration newConfigId now appId ownerId configId AbortCancelled None db of
                  (Inl e, db') \<Rightarrow> (Inl (MigrationDb e), db')
                | (Inr True, db') \<Rightarrow> (Inr (), db')
                | (Inr False, db') \<Rightarrow> (Inl MigrationMoved, db')))"

definition QUEUED_TIMEOUT_MS :: int where "QUEUED_TIMEOUT_MS = 15 * 60000"
definition RECOVERY_BATCH_SIZE :: nat where "RECOVERY_BATCH_SIZE = 8"

definition DID_NOT_START :: string where
  "DID_NOT_START = ''Storage migration did not start within 15 minutes. Please retry.''"

text \<open>The ids its configurations are written with are an argument, one for each migration found.\<close>

definition sweepAbandoned :: "ConfigId list \<Rightarrow> int \<Rightarrow> Database \<Rightarrow> Database" where
  "sweepAbandoned newConfigIds now db =
     (let createdBefore = now - QUEUED_TIMEOUT_MS in
      fold (\<lambda>(newConfigId, appId, ownerId, configId) db.
          snd (abortUnstarted newConfigId now appId ownerId configId AbortFailed (Some DID_NOT_START) createdBefore db))
        (zip newConfigIds (listUnstarted createdBefore RECOVERY_BATCH_SIZE db)) db)"

end
