(* ===== verification/Exports.thy ===== *)
theory Exports
  imports Deployments
begin

text \<open>
  Bundles of an app's data: \<open>apps/api/src/repositories/exports.repository.ts\<close> and
  \<open>apps/api/src/services/exports.service.ts\<close>. The index \<open>exports_in_flight_idx\<close> admits one unfinished
  export of an app.
\<close>

definition in_flight_of :: "Database \<Rightarrow> AppId \<Rightarrow> ExportRow option" where
  "in_flight_of db appId = find (\<lambda>e. ex_appId e = appId \<and> export_in_flight e) (db_exports db)"

definition findInFlight :: "Database \<Rightarrow> AppId \<Rightarrow> OwnerId \<Rightarrow> ExportRow option" where
  "findInFlight db appId ownerId =
     (if owned_app db appId ownerId = None then None else in_flight_of db appId)"

definition request_export ::
  "ExportId \<Rightarrow> int \<Rightarrow> AppId \<Rightarrow> OwnerId \<Rightarrow> int \<Rightarrow> Database \<Rightarrow> (db_error, ExportRow option) result \<times> Database" where
  "request_export newId now appId ownerId expiresAt db =
     (case lockAppForMutation db appId ownerId of
        Inl e \<Rightarrow> (Inl e, db)
      | Inr _ \<Rightarrow>
          (case (if owned_app db appId ownerId = None then None else newest_deployment db appId) of
             None \<Rightarrow> (Inr (findInFlight db appId ownerId), db)
           | Some d \<Rightarrow>
               if in_flight_of db appId \<noteq> None then (Inr (findInFlight db appId ownerId), db)
               else (let e = \<lparr>ex_id = newId, ex_appId = appId, ex_artifactId = dp_artifactId d,
                          ex_configId = Some (dp_configId d), ex_state = ExportPending, ex_checkpointId = None,
                          ex_sizeBytes = None, ex_message = None, ex_readyAt = None,
                          ex_expiresAt = expiresAt, ex_createdAt = now\<rparr> in
                     (Inr (Some e), db\<lparr>db_exports := db_exports db @ [e]\<rparr>))))"

text \<open>One statement for each export a host names, where it is unfinished and the app is on that host.\<close>

definition applyExportReport :: "ReportedExport list \<Rightarrow> HostId \<Rightarrow> Database \<Rightarrow> Database" where
  "applyExportReport reported hostId db =
     fold (\<lambda>r db. db\<lparr>db_exports := map (\<lambda>e.
         if ex_id e = re_exportId r \<and> export_in_flight e \<and> app_host db (ex_appId e) = Some hostId
         then e\<lparr>ex_state := re_state r, ex_checkpointId := re_checkpointId r, ex_sizeBytes := re_sizeBytes r,
                ex_readyAt := re_readyAt r, ex_message := re_message r\<rparr>
         else e) (db_exports db)\<rparr>) reported db"

section \<open>The service\<close>

definition MS_PER_DAY :: int where "MS_PER_DAY = 86400000"

datatype export_error = NothingToExport | ExportAppNotFound | ExportNotFound | ExportDb db_error

record OwnedExport =
  oe_id :: ExportId
  oe_state :: ExportState
  oe_sizeBytes :: "int option"
  oe_download :: "ObjectKey option"

definition toOwnedExport :: "int \<Rightarrow> ExportRow \<Rightarrow> OwnedExport" where
  "toOwnedExport now row =
     (let expired = ex_expiresAt row \<le> now;
          state = (if expired \<and> ex_state row \<noteq> ExportFailed then ExportExpired else ex_state row) in
      \<lparr>oe_id = ex_id row, oe_state = state, oe_sizeBytes = ex_sizeBytes row,
       oe_download = (if state = ExportReady then Some (export_key row) else None)\<rparr>)"

definition requestExport ::
  "int \<Rightarrow> ExportId \<Rightarrow> int \<Rightarrow> AppId \<Rightarrow> OwnerId \<Rightarrow> Database \<Rightarrow> (export_error, OwnedExport) result \<times> Database" where
  "requestExport retentionDays newId now appId ownerId db =
     (case request_export newId now appId ownerId (now + retentionDays * MS_PER_DAY) db of
        (Inl e, db') \<Rightarrow> (Inl (ExportDb e), db')
      | (Inr (Some row), db') \<Rightarrow> (Inr (toOwnedExport now row), db')
      | (Inr None, db') \<Rightarrow>
          (Inl (if isOwnedBy db' appId ownerId then NothingToExport else ExportAppNotFound), db'))"

definition applyHostExports :: "'share HostReportedState \<Rightarrow> Database \<Rightarrow> Database" where
  "applyHostExports reported db =
     (if hr_exports reported = [] then db
      else applyExportReport (hr_exports reported) (hr_hostId reported) db)"

end
