(* ===== verification/Hosts.thy ===== *)
theory Hosts
  imports Tables
begin

text \<open>
  Hosts and their sessions: \<open>apps/api/src/lib/agent/sessions.ts\<close>, \<open>session-token.ts\<close> and
  \<open>protocol-version.ts\<close>, and what \<open>apps/api/src/repositories/agent.repository.ts\<close> and
  \<open>apps/api/src/services/agent.service.ts\<close> do with them.
\<close>

section \<open>Sessions\<close>

record OpenSession =
  os_hostId :: HostId
  os_expiresAt :: int

type_synonym AgentSessions = "(string, OpenSession) jsmap"

definition open_session :: "string \<Rightarrow> HostId \<Rightarrow> int \<Rightarrow> AgentSessions \<Rightarrow> AgentSessions" where
  "open_session sessionToken hostId expiresAt sessions =
     js_set sessionToken \<lparr>os_hostId = hostId, os_expiresAt = expiresAt\<rparr> sessions"

definition hostFor :: "string \<Rightarrow> int \<Rightarrow> AgentSessions \<Rightarrow> HostId option \<times> AgentSessions" where
  "hostFor sessionToken now sessions =
     (case js_get sessions sessionToken of
        None \<Rightarrow> (None, sessions)
      | Some session \<Rightarrow>
          if os_expiresAt session \<le> now then (None, js_delete sessionToken sessions)
          else (Some (os_hostId session), sessions))"

definition BEARER_PREFIX :: string where "BEARER_PREFIX = ''Bearer ''"

definition sessionTokenFrom :: "string option \<Rightarrow> string option" where
  "sessionTokenFrom authorization =
     (case authorization of None \<Rightarrow> None
      | Some a \<Rightarrow> if prefix BEARER_PREFIX a then Some (drop (length BEARER_PREFIX) a) else None)"

section \<open>Hosts\<close>

definition hostForIdentity :: "Database \<Rightarrow> string \<Rightarrow> HostId option" where
  "hostForIdentity db identity =
     (case find (\<lambda>h. hs_id h = identity) (db_hosts db) of
        Some h \<Rightarrow> Some (hs_id h)
      | None \<Rightarrow> map_option hs_id (find (\<lambda>h. hs_originId h = identity) (db_hosts db)))"

definition registerHost :: "HostId \<Rightarrow> string \<Rightarrow> Database \<Rightarrow> HostId \<times> Database" where
  "registerHost newId originId db =
     (case hostForIdentity db originId of
        Some h \<Rightarrow> (h, db)
      | None \<Rightarrow> (newId, db\<lparr>db_hosts := db_hosts db @
          [\<lparr>hs_id = newId, hs_originId = originId, hs_reportedState = HostRegistering, hs_lastSeenAt = None\<rparr>]\<rparr>))"

definition observeReport :: "int \<Rightarrow> 'share HostReportedState \<Rightarrow> Database \<Rightarrow> Database" where
  "observeReport now reported db =
     db\<lparr>db_hosts := map (\<lambda>h. if hs_id h = hr_hostId reported
       then h\<lparr>hs_reportedState := hr_state reported, hs_lastSeenAt := Some now\<rparr> else h) (db_hosts db)\<rparr>"

definition SESSION_LIFETIME_MS :: int where "SESSION_LIFETIME_MS = 60 * 60 * 1000"

definition openSession ::
  "HostId \<Rightarrow> string \<Rightarrow> int \<Rightarrow> string \<Rightarrow> AgentSessions \<times> Database \<Rightarrow> HostId \<times> AgentSessions \<times> Database" where
  "openSession newId sessionToken now originId s =
     (case s of (sessions, db) \<Rightarrow>
        case registerHost newId originId db of (hostId, db') \<Rightarrow>
          (hostId, open_session sessionToken hostId (now + SESSION_LIFETIME_MS) sessions, db'))"

section \<open>Properties\<close>

lemma host_found:
  "h \<in> set hosts \<Longrightarrow> hs_id h = i \<Longrightarrow> \<exists>g. find (\<lambda>g. hs_id g = i) hosts = Some g \<and> hs_id g = i"
  by (induction hosts) auto

lemma registered_host:
  assumes "registerHost newId origin db = (hostId, db')"
  shows "hostForIdentity db' origin = Some hostId \<and> hostForIdentity db' hostId = Some hostId"
proof (cases "hostForIdentity db origin")
  case None
  let ?h = "\<lparr>hs_id = newId, hs_originId = origin, hs_reportedState = HostRegistering, hs_lastSeenAt = None\<rparr>"
  have db': "db' = db\<lparr>db_hosts := db_hosts db @ [?h]\<rparr>" and n: "hostId = newId"
    using assms None by (auto simp: registerHost_def)
  have "find (\<lambda>h. hs_id h = origin) (db_hosts db) = None" "find (\<lambda>h. hs_originId h = origin) (db_hosts db) = None"
    using None by (auto simp: hostForIdentity_def split: option.splits)
  then show ?thesis
    using host_found [of ?h "db_hosts db @ [?h]" newId]
    by (auto simp: hostForIdentity_def db' n find_append split: option.splits)
next
  case (Some h)
  then have "db' = db" "h = hostId"
    using assms by (auto simp: registerHost_def)
  moreover have "\<exists>g \<in> set (db_hosts db). hs_id g = hostId"
    using Some \<open>h = hostId\<close>
    by (auto simp: hostForIdentity_def find_Some_iff split: option.splits)
  ultimately show ?thesis
    using Some host_found by (fastforce simp: hostForIdentity_def split: option.splits)
qed

text \<open>
  A session is the host that opened it, for as long as it was told. The token answers that host's id
  until its lifetime is over and nothing from then on, whatever other sessions are opened or looked up
  meanwhile under other tokens; and a host that comes back under the identity it first presented, or
  under the id it was given, is the same host.
\<close>

theorem session_is_the_host:
  assumes "openSession newId token now origin (sessions, db) = (hostId, sessions', db')"
    and "later = fold (\<lambda>(t, h, at). if t = token then id else open_session t h at) opened sessions'"
  shows "fst (hostFor token at later) = (if at < now + 3600000 then Some hostId else None) \<and>
    hostForIdentity db' origin = Some hostId \<and> hostForIdentity db' hostId = Some hostId"
proof -
  have kept: "js_get (fold (\<lambda>(t, h, at). if t = token then id else open_session t h at) opened s) token = js_get s token" for s
    by (induction opened arbitrary: s) (auto simp: open_session_def)
  have r: "registerHost newId origin db = (hostId, db')" and s': "sessions' =
      open_session token hostId (now + SESSION_LIFETIME_MS) sessions"
    using assms(1) by (auto simp: openSession_def split: prod.splits)
  have "js_get later token = Some \<lparr>os_hostId = hostId, os_expiresAt = now + SESSION_LIFETIME_MS\<rparr>"
    by (simp add: assms(2) kept s' open_session_def)
  then have "fst (hostFor token at later) = (if at < now + 3600000 then Some hostId else None)"
    by (simp add: hostFor_def SESSION_LIFETIME_MS_def)
  then show ?thesis
    using registered_host [OF r] by simp
qed

theorem session_is_the_host_witness:
  "fst (hostFor ''t1'' 3599999 (open_session ''t2'' ''h9'' 7 (fst (snd (openSession ''h1'' ''t1'' 0 ''i-0a''
      ([], \<lparr>db_profiles = [], db_apps = [], db_configs = [], db_hostnames = [], db_artifacts = [], db_imports = [],
        db_deployments = [], db_exports = [], db_hosts = [], db_grants = []\<rparr>)))))) = Some ''h1''"
proof -
  let ?db = "\<lparr>db_profiles = [], db_apps = [], db_configs = [], db_hostnames = [], db_artifacts = [], db_imports = [],
    db_deployments = [], db_exports = [], db_hosts = [], db_grants = []\<rparr>"
  let ?o = "openSession ''h1'' ''t1'' 0 ''i-0a'' ([], ?db)"
  have "?o = (fst ?o, fst (snd ?o), snd (snd ?o))" and "fst ?o = ''h1''"
    by (simp_all add: openSession_def registerHost_def hostForIdentity_def)
  then show ?thesis
    using session_is_the_host [of "''h1''" "''t1''" 0 "''i-0a''" "[]" ?db "fst ?o" "fst (snd ?o)" "snd (snd ?o)"
      _ "[(''t2'', ''h9'', 7)]" 3599999, OF _ refl]
    by simp
qed

end
