(* ===== verification/Database_Invariant.thy ===== *)
theory Database_Invariant
  imports Storage_Migration Exports Hosts
begin

text \<open>
  The invariant \<open>db_ok\<close> of the control plane's database, and what one write to one table does to it. The
  locale \<open>release_update\<close> is the contract of every \<open>UPDATE\<close> of the releases.
\<close>

section \<open>Releases under a write\<close>

text \<open>What every \<open>UPDATE\<close> of the releases keeps: which release it is, and one that is over.\<close>

locale release_update =
  fixes change :: "DeploymentRow \<Rightarrow> DeploymentRow"
  assumes same_release: "dp_id (change d) = dp_id d \<and> dp_appId (change d) = dp_appId d \<and>
      dp_artifactId (change d) = dp_artifactId d \<and> dp_configId (change d) = dp_configId d \<and>
      dp_hostId (change d) = dp_hostId d \<and> dp_initialData (change d) = dp_initialData d \<and>
      dp_createdAt (change d) = dp_createdAt d"
    and over_is_kept: "\<not> live d \<Longrightarrow> change d = d"
    and stamped_once: "dp_activatedAt d \<noteq> None \<Longrightarrow> dp_activatedAt (change d) = dp_activatedAt d"
begin

lemma not_revived: "live (change d) \<Longrightarrow> live d"
  using over_is_kept [of d] by metis

lemma newest_kept: "newest (\<lambda>d. dp_appId d = a) (map change ds) = map_option change (newest (\<lambda>d. dp_appId d = a) ds)"
  by (rule newest_map) (simp add: same_release)

lemma ids_kept: "map dp_id (map change ds) = map dp_id ds" "map dp_appId (map change ds) = map dp_appId ds"
  by (simp_all add: same_release)

end

lemma release_update_id: "release_update (\<lambda>d. d)"
  by unfold_locales simp_all

lemma release_update_comp:
  assumes "release_update f" and "release_update g"
  shows "release_update (\<lambda>d. g (f d))"
proof -
  note fg = release_update.same_release [OF assms(1)] release_update.same_release [OF assms(2)]
    release_update.over_is_kept [OF assms(1)] release_update.over_is_kept [OF assms(2)]
    release_update.stamped_once [OF assms(1)] release_update.stamped_once [OF assms(2)]
  show ?thesis
    by unfold_locales (simp_all add: fg)
qed

definition stood_down :: "AppId \<Rightarrow> DeploymentRow \<Rightarrow> DeploymentRow" where
  "stood_down a d = (if dp_appId d = a \<and> live d then d\<lparr>dp_state := DeploymentSuperseded\<rparr> else d)"

interpretation superseding: release_update "stood_down a" for a
  by unfold_locales (simp_all add: stood_down_def)

lemma supersede_unfold:
  "supersedeLiveDeployment a ow db =
     (if owned_app db a ow = None then db else db\<lparr>db_deployments := map (stood_down a) (db_deployments db)\<rparr>)"
  by (simp add: supersedeLiveDeployment_def stood_down_def [abs_def])

lemma stood_down_dead: "dp_appId (stood_down a d) = a \<Longrightarrow> \<not> live (stood_down a d)"
  using superseding.same_release [of a d] by (auto simp: stood_down_def live_def terminal_def)

interpretation reporting: release_update
  "\<lambda>d. if dp_id d = i \<and> live d \<and> dp_hostId d = h then reported_columns r d else d" for i h r
  by unfold_locales (simp_all add: reported_columns_def)

interpretation stamping: release_update
  "\<lambda>d. if dp_id d = i \<and> live d \<and> dp_hostId d = h
       then (if dp_activatedAt d = None then d\<lparr>dp_activatedAt := Some at\<rparr> else d) else d" for i h at
  by unfold_locales auto

interpretation failing: release_update
  "\<lambda>d. if dp_id d = i \<and> live d \<and> dp_hostId d = h
       then d\<lparr>dp_state := DeploymentFailed, dp_message := Some m\<rparr> else d" for i h m
  by unfold_locales simp_all

text \<open>A live release has no release of its app after it.\<close>

fun live_newest :: "DeploymentRow list \<Rightarrow> bool" where
  "live_newest [] \<longleftrightarrow> True"
| "live_newest (d # ds) \<longleftrightarrow> (live d \<longrightarrow> list_all (\<lambda>e. dp_appId e \<noteq> dp_appId d) ds) \<and> live_newest ds"

lemma live_newest_map: "release_update f \<Longrightarrow> live_newest ds \<Longrightarrow> live_newest (map f ds)"
proof (induction ds)
  case (Cons d ds)
  note f = release_update.same_release [OF Cons.prems(1)] release_update.not_revived [OF Cons.prems(1), of d]
  from Cons show ?case
    by (auto simp: list_all_iff f dest: f(2))
qed simp

lemma live_newest_add:
  "live_newest ds \<Longrightarrow> (\<And>e. e \<in> set ds \<Longrightarrow> dp_appId e = dp_appId d \<Longrightarrow> \<not> live e) \<Longrightarrow> live_newest (ds @ [d])"
  by (induction ds) auto

lemma live_newest_filter: "live_newest ds \<Longrightarrow> live_newest (filter p ds)"
  by (induction ds) (auto simp: list_all_iff)

lemma newest_Cons:
  "newest p (x # xs) = (case newest p xs of Some y \<Rightarrow> Some y | None \<Rightarrow> if p x then Some x else None)"
  by (auto simp: newest_def split: list.splits)

lemma live_is_newest:
  "live_newest ds \<Longrightarrow> d \<in> set ds \<Longrightarrow> live d \<Longrightarrow> newest (\<lambda>e. dp_appId e = dp_appId d) ds = Some d"
proof (induction ds)
  case (Cons e ds)
  show ?case
  proof (cases "d \<in> set ds")
    case True
    with Cons show ?thesis by (simp add: newest_Cons)
  next
    case False
    with Cons have "d = e" "newest (\<lambda>x. dp_appId x = dp_appId d) ds = None"
      by (auto simp: newest_None list_all_iff)
    then show ?thesis by (simp add: newest_Cons)
  qed
qed simp

section \<open>The invariant\<close>

definition pending :: "AppRow \<Rightarrow> bool" where
  "pending a = (ap_migrationState a = Some MigrationPending)"

text \<open>Where the volume of an app is, and where its next release would find it.\<close>

definition deployed_storage :: "Database \<Rightarrow> AppId \<Rightarrow> StoredVolumeStorage option" where
  "deployed_storage db appId =
     (case newest_deployment db appId of None \<Rightarrow> None
      | Some d \<Rightarrow> map_option cf_storage (config_by_id db (dp_configId d)))"

definition aligned :: "Database \<Rightarrow> AppId \<Rightarrow> bool" where
  "aligned db appId =
     (case deployed_storage db appId of None \<Rightarrow> True
      | Some s \<Rightarrow> map_option cf_storage (newest_config db appId) = Some s)"

definition keys_ok :: "Database \<Rightarrow> bool" where
  "keys_ok db \<longleftrightarrow> distinct (map ap_id (db_apps db)) \<and> distinct (map cf_id (db_configs db)) \<and>
     distinct (map dp_id (db_deployments db)) \<and>
     distinct (map ex_appId (filter export_in_flight (db_exports db)))"

definition refs_ok :: "Database \<Rightarrow> bool" where
  "refs_ok db \<longleftrightarrow>
     list_all (\<lambda>c. cf_appId c \<in> ap_id ` set (db_apps db)) (db_configs db) \<and>
     list_all (\<lambda>d. dp_appId d \<in> ap_id ` set (db_apps db) \<and>
       list_ex (\<lambda>c. cf_id c = dp_configId d \<and> cf_appId c = dp_appId d) (db_configs db)) (db_deployments db)"

definition migrations_ok :: "Database \<Rightarrow> bool" where
  "migrations_ok db \<longleftrightarrow>
     list_all (\<lambda>a. newest_config db (ap_id a) \<noteq> None \<and>
       (pending a \<longrightarrow> ap_state a = AppActive \<or> ap_state a = AppSuspended) \<and>
       (\<not> pending a \<longrightarrow> aligned db (ap_id a))) (db_apps db)"

definition db_ok :: "Database \<Rightarrow> bool" where
  "db_ok db \<longleftrightarrow> keys_ok db \<and> refs_ok db \<and> live_newest (db_deployments db) \<and> migrations_ok db"

lemmas db_ok_defs = db_ok_def keys_ok_def refs_ok_def migrations_ok_def

section \<open>One write to one table\<close>

lemma reads_configs:
  "db_configs db' = db_configs db \<Longrightarrow> newest_config db' = newest_config db"
  "db_configs db' = db_configs db \<Longrightarrow> config_by_id db' = config_by_id db"
  by (simp_all add: fun_eq_iff newest_config_def config_by_id_def)

lemma reads_deployments:
  "db_deployments db' = db_deployments db \<Longrightarrow> newest_deployment db' = newest_deployment db"
  "db_deployments db' = db_deployments db \<Longrightarrow> app_host db' = app_host db"
  by (simp_all add: fun_eq_iff newest_deployment_def app_host_def)

lemma reads_storage:
  assumes "db_configs db' = db_configs db" and "db_deployments db' = db_deployments db"
  shows "deployed_storage db' = deployed_storage db" "aligned db' = aligned db"
  using reads_configs [OF assms(1)] reads_deployments [OF assms(2)]
  by (simp_all add: deployed_storage_def [abs_def] aligned_def [abs_def] cong: option.case_cong)

text \<open>Tables the invariant does not read.\<close>

lemma ok_elsewhere:
  assumes "db_ok db" and "db_apps db' = db_apps db" and "db_configs db' = db_configs db"
    and "db_deployments db' = db_deployments db"
    and "distinct (map ex_appId (filter export_in_flight (db_exports db')))"
  shows "db_ok db'"
  using assms reads_configs [OF assms(3)] reads_storage [OF assms(3,4)] by (simp add: db_ok_defs)

text \<open>Apps, changed in place.\<close>

lemma ok_apps:
  assumes ok: "db_ok db"
    and ids: "\<And>a. a \<in> set (db_apps db) \<Longrightarrow> ap_id (g a) = ap_id a"
    and moved: "\<And>a. a \<in> set (db_apps db) \<Longrightarrow>
      (pending (g a) \<longrightarrow> ap_state (g a) = AppActive \<or> ap_state (g a) = AppSuspended) \<and>
      (\<not> pending (g a) \<longrightarrow> \<not> pending a \<or> aligned db (ap_id a))"
  shows "db_ok (db\<lparr>db_apps := map g (db_apps db)\<rparr>)"
proof -
  have m: "map ap_id (map g (db_apps db)) = map ap_id (db_apps db)"
    using ids by simp
  then have s: "ap_id ` g ` set (db_apps db) = ap_id ` set (db_apps db)" "distinct (map (ap_id \<circ> g) (db_apps db)) =
      distinct (map ap_id (db_apps db))"
    by (metis list.set_map, metis map_map)
  have al: "aligned (db\<lparr>db_apps := x\<rparr>) i = aligned db i" "newest_config (db\<lparr>db_apps := x\<rparr>) i = newest_config db i" for x i
    by (simp_all add: reads_configs [of "db\<lparr>db_apps := x\<rparr>" db] reads_storage [of "db\<lparr>db_apps := x\<rparr>" db])
  have "migrations_ok (db\<lparr>db_apps := map g (db_apps db)\<rparr>)"
    using ok ids moved unfolding migrations_ok_def db_ok_def
    by (auto simp: list_all_iff al image_iff split: if_splits)
  then show ?thesis
    using ok s by (simp add: db_ok_def keys_ok_def refs_ok_def)
qed

text \<open>Releases, changed in place.\<close>

lemma ok_releases:
  assumes ok: "db_ok db" and f: "release_update f"
  shows "db_ok (db\<lparr>db_deployments := map f (db_deployments db)\<rparr>)"
proof -
  note f' = release_update.same_release [OF f]
  let ?db = "db\<lparr>db_deployments := map f (db_deployments db)\<rparr>"
  have cs: "newest_config ?db = newest_config db" "config_by_id ?db = config_by_id db"
    by (rule reads_configs; simp)+
  have st: "deployed_storage ?db i = deployed_storage db i" for i
    by (simp add: deployed_storage_def newest_deployment_def cs release_update.newest_kept [OF f] f' split: option.split)
  have al: "aligned ?db i = aligned db i" for i
    by (simp add: aligned_def st cs cong: option.case_cong)
  show ?thesis
    using ok live_newest_map [OF f, of "db_deployments db"]
    by (simp add: db_ok_defs list_all_iff al cs f' comp_def)
qed

text \<open>A configuration, added.\<close>

lemma config_lookup:
  "distinct (map cf_id cs) \<Longrightarrow> c \<in> set cs \<Longrightarrow> cf_id c = i \<Longrightarrow> find (\<lambda>c. cf_id c = i) cs = Some c"
  by (induction cs) auto

lemma ok_config:
  assumes ok: "db_ok db" and fresh: "cf_id c \<notin> cf_id ` set (db_configs db)"
    and app: "cf_appId c \<in> ap_id ` set (db_apps db)"
    and st: "\<And>a. a \<in> set (db_apps db) \<Longrightarrow> ap_id a = cf_appId c \<Longrightarrow> \<not> pending a \<Longrightarrow>
      deployed_storage db (ap_id a) = None \<or> deployed_storage db (ap_id a) = Some (cf_storage c)"
  shows "db_ok (db\<lparr>db_configs := db_configs db @ [c]\<rparr>)"
proof -
  let ?db = "db\<lparr>db_configs := db_configs db @ [c]\<rparr>"
  have known: "d \<in> set (db_deployments db) \<Longrightarrow> config_by_id ?db (dp_configId d) = config_by_id db (dp_configId d)" for d
    using ok unfolding db_ok_def refs_ok_def
    by (auto simp: config_by_id_def list_all_iff list_ex_iff find_append find_None_iff split: option.splits)
  have ds: "deployed_storage ?db i = deployed_storage db i" for i
    using known newest_Some [of "\<lambda>d. dp_appId d = i" "db_deployments db"]
    by (auto simp: deployed_storage_def newest_deployment_def split: option.splits)
  have nc: "newest_config ?db i = (if cf_appId c = i then Some c else newest_config db i)" for i
    by (simp add: newest_config_def newest_append)
  have "migrations_ok ?db"
    using ok st unfolding db_ok_def migrations_ok_def aligned_def ds nc
    by (auto simp: list_all_iff split: if_splits option.splits)
  then show ?thesis
    using ok fresh app unfolding db_ok_def keys_ok_def refs_ok_def by (auto simp: list_all_iff list_ex_iff)
qed

text \<open>A release, added to an app that has none that lives.\<close>

lemma ok_release:
  assumes ok: "db_ok db" and fresh: "dp_id d \<notin> dp_id ` set (db_deployments db)"
    and app: "dp_appId d \<in> ap_id ` set (db_apps db)"
    and none: "\<And>e. e \<in> set (db_deployments db) \<Longrightarrow> dp_appId e = dp_appId d \<Longrightarrow> \<not> live e"
    and c: "c \<in> set (db_configs db)" "cf_id c = dp_configId d" "cf_appId c = dp_appId d"
    and st: "\<And>a. a \<in> set (db_apps db) \<Longrightarrow> ap_id a = dp_appId d \<Longrightarrow> \<not> pending a \<Longrightarrow>
      map_option cf_storage (newest_config db (ap_id a)) = Some (cf_storage c)"
  shows "db_ok (db\<lparr>db_deployments := db_deployments db @ [d]\<rparr>)"
proof -
  let ?db = "db\<lparr>db_deployments := db_deployments db @ [d]\<rparr>"
  have "config_by_id db (dp_configId d) = Some c"
    using ok c config_lookup [of "db_configs db" c] by (simp add: db_ok_def keys_ok_def config_by_id_def)
  moreover have "config_by_id ?db = config_by_id db"
    by (rule reads_configs) simp
  ultimately have ds: "deployed_storage ?db i = (if dp_appId d = i then Some (cf_storage c) else deployed_storage db i)" for i
    by (simp add: deployed_storage_def newest_deployment_def newest_append cong: option.case_cong)
  have nc: "newest_config ?db i = newest_config db i" for i
    by (simp add: newest_config_def)
  have "migrations_ok ?db"
    using ok st unfolding db_ok_def migrations_ok_def aligned_def ds nc
    by (auto simp: list_all_iff split: if_splits option.splits)
  then show ?thesis
    using ok fresh app c live_newest_add [of "db_deployments db" d] none
    unfolding db_ok_def keys_ok_def refs_ok_def by (auto simp: list_all_iff list_ex_iff)
qed

text \<open>All releases of an app, taken away.\<close>

lemma ok_purged:
  assumes ok: "db_ok db"
  shows "db_ok (purge appId db)"
proof -
  let ?ds = "filter (\<lambda>d. dp_appId d \<noteq> appId) (db_deployments db)"
  have ds: "newest_deployment (purge appId db) i = (if i = appId then None else newest_deployment db i)" for i
    by (auto simp: newest_deployment_def purge_def newest_filter newest_filter_out)
  have cs: "config_by_id (purge appId db) = config_by_id db" "newest_config (purge appId db) = newest_config db"
    by (rule reads_configs; simp add: purge_def)+
  have al: "aligned db i \<Longrightarrow> aligned (purge appId db) i" for i
    by (simp add: aligned_def deployed_storage_def ds cs cong: option.case_cong)
  have ex: "distinct (map ex_appId (filter export_in_flight es)) \<Longrightarrow>
      distinct (map ex_appId (filter export_in_flight (filter p es)))" for p es
    by (induction es) auto
  have "migrations_ok (purge appId db)"
    using ok al unfolding db_ok_def migrations_ok_def cs by (auto simp: purge_def list_all_iff)
  moreover have "keys_ok (purge appId db)" "refs_ok (purge appId db)"
    using ok ex unfolding db_ok_def keys_ok_def refs_ok_def
    by (simp_all add: purge_def list_all_iff distinct_map_filter)
  ultimately show ?thesis
    using ok by (simp add: db_ok_def live_newest_filter) (simp add: purge_def live_newest_filter)
qed

section \<open>The writes of the repositories\<close>

lemma app_unique:
  assumes "db_ok db" and "a \<in> set (db_apps db)" and "b \<in> set (db_apps db)" and "ap_id a = ap_id b"
  shows "a = b"
  using assms by (auto simp: db_ok_def keys_ok_def distinct_map dest: inj_onD)

lemma ok_update_apps:
  assumes ok: "db_ok db"
    and ids: "\<And>a. ap_id (change a) = ap_id a"
    and moved: "\<And>a. a \<in> set (db_apps db) \<Longrightarrow> p a \<Longrightarrow>
      (pending (change a) \<longrightarrow> ap_state (change a) = AppActive \<or> ap_state (change a) = AppSuspended) \<and>
      (\<not> pending (change a) \<longrightarrow> \<not> pending a \<or> aligned db (ap_id a))"
  shows "db_ok (update_apps now p change db)"
proof -
  have up: "pending (b\<lparr>ap_updatedAt := now\<rparr>) = pending b" for b :: AppRow
    by (simp add: pending_def)
  have "list_all (\<lambda>a. pending a \<longrightarrow> ap_state a = AppActive \<or> ap_state a = AppSuspended) (db_apps db)"
    using ok by (auto simp: db_ok_def migrations_ok_def list_all_iff)
  then show ?thesis
    unfolding update_apps_def
    by (intro ok_apps [OF ok]) (auto simp: ids up list_all_iff dest: moved)
qed

text \<open>Changes of an app that leave its migration alone.\<close>

lemma ok_update_apps_plain:
  assumes "db_ok db" and "\<And>a. ap_id (change a) = ap_id a" and "\<And>a. pending (change a) = pending a"
    and "\<And>a. a \<in> set (db_apps db) \<Longrightarrow> p a \<Longrightarrow> pending a \<Longrightarrow> ap_state (change a) = ap_state a"
  shows "db_ok (update_apps now p change db)"
proof -
  have "list_all (\<lambda>a. pending a \<longrightarrow> ap_state a = AppActive \<or> ap_state a = AppSuspended) (db_apps db)"
    using assms(1) by (auto simp: db_ok_def migrations_ok_def list_all_iff)
  then show ?thesis
    using assms by (intro ok_update_apps) (auto simp: list_all_iff)
qed

lemma ok_updateState:
  assumes "db_ok db"
  shows "db_ok (snd (updateState now a ow s froms db))"
proof (cases "lockAppForMutation db a ow = Inr True")
  case True
  then obtain r where r: "owned_app db a ow = Some r" "\<not> pending r"
    using lock_Inr [OF True] by (auto simp: pending_def)
  have "b = r" if "b \<in> set (db_apps db)" "ap_id b = a" for b
    using owned_app_Some [OF r(1)] that by (intro app_unique [OF assms]) simp_all
  then have "db_ok (update_apps now (\<lambda>b. ap_id b = a \<and> ap_owner b = ow \<and> ap_state b \<in> set froms)
      (\<lambda>b. b\<lparr>ap_state := s\<rparr>) db)"
    using r(2) by (intro ok_update_apps_plain [OF assms]) (auto simp: pending_def)
  then show ?thesis
    using True by (simp add: updateState_def Let_def)
next
  case False
  then show ?thesis
    using assms by (auto simp: updateState_def split: sum.splits bool.splits)
qed

lemma ok_deleted:
  assumes "db_ok db" and "\<And>a. p a \<Longrightarrow> ap_state a = AppDeleting"
  shows "db_ok (update_apps now p (\<lambda>a. a\<lparr>ap_state := AppDeleted\<rparr>) db)"
proof -
  have "\<not> (p a \<and> pending a)" if "a \<in> set (db_apps db)" for a
    using that assms by (auto simp: db_ok_def migrations_ok_def list_all_iff)
  then show ?thesis
    using assms by (intro ok_update_apps_plain) (auto simp: pending_def)
qed

lemma ok_deployments_fold:
  assumes "\<And>x db. x \<in> set xs \<Longrightarrow> db_ok db \<Longrightarrow> db_ok (f x db)" and "db_ok db"
  shows "db_ok (fold f xs db)"
  using assms by (induction xs arbitrary: db) auto

lemma ok_reports:
  assumes "db_ok db"
  shows "db_ok (applyReport rs h db)" "db_ok (stampActivation i at h db)" "db_ok (failDeployment i m h db)"
proof -
  show "db_ok (applyReport rs h db)"
    unfolding applyReport_def update_live_def
    by (rule ok_deployments_fold [OF _ assms]) (rule ok_releases [OF _ reporting.release_update_axioms])
  show "db_ok (stampActivation i at h db)"
    unfolding stampActivation_def update_live_def by (rule ok_releases [OF assms stamping.release_update_axioms])
  show "db_ok (failDeployment i m h db)"
    unfolding failDeployment_def update_live_def by (rule ok_releases [OF assms failing.release_update_axioms])
qed

lemma ok_supersede:
  assumes "db_ok db"
  shows "db_ok (supersedeLiveDeployment a ow db)"
  using assms ok_releases [OF _ superseding.release_update_axioms]
  by (simp add: supersede_unfold)

lemma superseded_none_live:
  "owned_app db a ow \<noteq> None \<Longrightarrow> e \<in> set (db_deployments (supersedeLiveDeployment a ow db)) \<Longrightarrow> dp_appId e = a \<Longrightarrow> \<not> live e"
  by (simp add: supersede_unfold image_iff split: if_splits) (metis stood_down_dead)

lemma superseded_tables:
  "db_apps (supersedeLiveDeployment a ow db) = db_apps db"
  "db_configs (supersedeLiveDeployment a ow db) = db_configs db"
  "db_exports (supersedeLiveDeployment a ow db) = db_exports db"
  "dp_id ` set (db_deployments (supersedeLiveDeployment a ow db)) = dp_id ` set (db_deployments db)"
  "map_option dp_hostId (newest_deployment (supersedeLiveDeployment a ow db) i) = map_option dp_hostId (newest_deployment db i)"
  "map_option dp_configId (newest_deployment (supersedeLiveDeployment a ow db) i) = map_option dp_configId (newest_deployment db i)"
  using superseding.newest_kept [of i a "db_deployments db"]
  by (simp_all add: supersede_unfold newest_deployment_def image_image option.map_comp comp_def
      superseding.same_release)

text \<open>An insert after everything of the app was stood down meets nothing in the index.\<close>

lemma insert_after_supersede:
  "owned_app db (dp_appId d) ow \<noteq> None \<Longrightarrow>
    insert_deployment_row d (supersedeLiveDeployment (dp_appId d) ow db) =
      Inr ((supersedeLiveDeployment (dp_appId d) ow db)
        \<lparr>db_deployments := db_deployments (supersedeLiveDeployment (dp_appId d) ow db) @ [d]\<rparr>)"
  using superseded_none_live by (fastforce simp: insert_deployment_row_def list_ex_iff)

text \<open>A release takes the place of the app's live one.\<close>

definition takes_over :: "Database \<Rightarrow> OwnerId \<Rightarrow> DeploymentRow \<Rightarrow> Database \<Rightarrow> bool" where
  "takes_over db ow d db' \<longleftrightarrow>
     owned_app db (dp_appId d) ow \<noteq> None \<and> live d \<and>
     db' = (let db1 = supersedeLiveDeployment (dp_appId d) ow db in db1\<lparr>db_deployments := db_deployments db1 @ [d]\<rparr>)"

lemma ok_takes_over:
  assumes ok: "db_ok db" and t: "takes_over db ow d db'" and fresh: "dp_id d \<notin> dp_id ` set (db_deployments db)"
    and c: "c \<in> set (db_configs db)" "cf_id c = dp_configId d" "cf_appId c = dp_appId d"
    and st: "\<And>a. a \<in> set (db_apps db) \<Longrightarrow> ap_id a = dp_appId d \<Longrightarrow> \<not> pending a \<Longrightarrow>
      map_option cf_storage (newest_config db (ap_id a)) = Some (cf_storage c)"
  shows "db_ok db'"
proof -
  let ?s = "supersedeLiveDeployment (dp_appId d) ow db"
  from t obtain a where a: "owned_app db (dp_appId d) ow = Some a"
    by (auto simp: takes_over_def)
  have nc: "newest_config ?s = newest_config db"
    by (rule reads_configs) (simp add: superseded_tables)
  have "db_ok (?s\<lparr>db_deployments := db_deployments ?s @ [d]\<rparr>)"
  proof (rule ok_release [OF ok_supersede [OF ok], of _ _ _ c])
    show "dp_appId d \<in> ap_id ` set (db_apps ?s)"
      using owned_app_Some [OF a] by (force simp: superseded_tables)
    show "\<not> live e" if "e \<in> set (db_deployments ?s)" "dp_appId e = dp_appId d" for e
      using superseded_none_live [of db "dp_appId d" ow e] that a by simp
  qed (use fresh c st nc in \<open>simp_all add: superseded_tables\<close>)
  then show ?thesis
    using t by (simp add: takes_over_def Let_def)
qed

lemma new_deployment_fields [simp]:
  "dp_id (new_deployment i now a ar c h) = i" "dp_appId (new_deployment i now a ar c h) = a"
  "dp_configId (new_deployment i now a ar c h) = c" "dp_hostId (new_deployment i now a ar c h) = h"
  "dp_artifactId (new_deployment i now a ar c h) = ar" "dp_state (new_deployment i now a ar c h) = DeploymentPending"
  "live (new_deployment i now a ar c h)"
  by (simp_all add: new_deployment_def live_def terminal_def)

lemma has_config:
  assumes "db_ok db" and "owned_app db a ow = Some r"
  obtains c where "newest_config db a = Some c" "c \<in> set (db_configs db)" "cf_appId c = a"
proof -
  have "newest_config db a \<noteq> None"
    using assms owned_app_Some [OF assms(2)] by (auto simp: db_ok_def migrations_ok_def list_all_iff)
  then show ?thesis
    using that newest_Some [of "\<lambda>c. cf_appId c = a" "db_configs db"] by (auto simp: newest_config_def)
qed

text \<open>Deploying changes nothing, or the new release takes over with the app's newest configuration, on the
  host the app is on.\<close>

lemma deploy_effect:
  assumes ok: "db_ok db" and r: "insertDeployment i now input db = (res, db')"
  obtains (unchanged) "db' = db" "\<And>d. res \<noteq> Inr (Created d)"
  | (deployed) d c a where "res = Inr (Created d)" "takes_over db (cd_ownerId input) d db'" "dp_id d = i"
      "dp_appId d = cd_appId input" "newest_config db (dp_appId d) = Some c" "dp_configId d = cf_id c"
      "owned_app db (dp_appId d) (cd_ownerId input) = Some a" "\<not> pending a"
      "hostForDeployment db (dp_appId d) (cd_ownerId input) now = Some (dp_hostId d)"
      "dp_state d = DeploymentPending" "dp_initialData d = cd_initialDataFrom input"
proof -
  let ?a = "cd_appId input" and ?ow = "cd_ownerId input"
  let ?s = "supersedeLiveDeployment ?a ?ow db"
  have nc: "newest_config ?s = newest_config db"
    by (rule reads_configs) (simp add: superseded_tables)
  show ?thesis
  proof (cases "db' = db \<and> (\<forall>d. res \<noteq> Inr (Created d))")
    case True
    then show ?thesis
      using unchanged by simp
  next
    case False
    have refused: "creationRefusal db input \<noteq> Some (Created d)" for d
      by (auto simp: creationRefusal_def seedRefusal_def split: option.splits if_splits)
    from False r obtain a where a: "owned_app db ?a ?ow = Some a"
      by (auto simp: insertDeployment_def Let_def split: if_splits)
    from False r a obtain h u where h: "hostForDeployment db ?a ?ow now = Some h"
      and l: "lockAppForMutation db ?a ?ow = Inr u"
      using refused
      by (auto simp: insertDeployment_def Let_def split: if_splits option.splits sum.splits)
    obtain c where c: "newest_config db ?a = Some c"
      using has_config [OF ok a] by blast
    let ?d = "(new_deployment i now ?a (cd_artifactId input) (cf_id c) h)
      \<lparr>dp_initialData := cd_initialDataFrom input, dp_grantId := cd_grantId input,
       dp_mcpClientId := cd_mcpClientId input, dp_mcpChatId := cd_mcpChatId input\<rparr>"
    have ins: "insert_deployment_row ?d ?s = Inr (?s\<lparr>db_deployments := db_deployments ?s @ [?d]\<rparr>)"
      using insert_after_supersede [of db ?d ?ow] a by simp
    have "res = Inr (Created ?d) \<and> db' = ?s\<lparr>db_deployments := db_deployments ?s @ [?d]\<rparr>"
      using False r a h l c nc ins refused
      by (auto simp: insertDeployment_def Let_def split: if_splits option.splits)
    moreover have "live ?d"
      by (simp add: live_def terminal_def)
    ultimately show ?thesis
      using deployed [of ?d c a] a c h lock_Inr [OF l] by (auto simp: takes_over_def Let_def pending_def)
  qed
qed

end
