(* ===== verification/Control_Plane.thy ===== *)
theory Control_Plane
  imports Database_Invariant
begin

text \<open>
  The control plane as a state machine over its database. A request is one transaction of one of the
  repositories, with the ids and the instant it is given; requests of different callers interleave
  in any order. \<open>elsewhere\<close> is whatever the repositories that are not modelled write to the other
  tables: uploads, names, grants, profiles and hosts.
\<close>

section \<open>Requests\<close>

datatype request =
    CreateApp AppId ConfigId int NewApp
  | UpdateApp ConfigId int AppId OwnerId "string option" "SealedConfigPatch option"
  | MoveApp int AppId OwnerId OwnedAppState
  | AskDeletion int AppId OwnerId
  | EndExports AppId string
  | FinishDeletion int AppId
  | VolumeGone int AppId HostId
  | StampData int "AppId list" HostId
  | Reassign int OwnerId OwnerId
  | PurgeRows AppId
  | Deploy DeploymentId int CreateDeployment
  | Rollback DeploymentId ConfigId int AppId OwnerId DeploymentId
  | ReportReleases "ReportedDeployment list" HostId
  | StampActivation DeploymentId Timestamp HostId
  | FailRelease DeploymentId string HostId
  | RequestExport ExportId int AppId OwnerId int
  | ReportExports "ReportedExport list" HostId
  | RequestMigration ConfigId int AppId OwnerId StoredVolumeStorage
  | StartMigration int AppId OwnerId ConfigId HostId
  | CutOver DeploymentId int AppId OwnerId ConfigId HostId
  | CompleteMigration int AppId OwnerId ConfigId HostId
  | RestoreStorage ConfigId int AppId OwnerId ConfigId aborted "string option" "int option" "HostId option"
  | RegisterHost HostId string

fun perform :: "request \<Rightarrow> Database \<Rightarrow> Database" where
  "perform (CreateApp i c now input) db = snd (create_app i c now input db)"
| "perform (UpdateApp c now a ow name patch) db = snd (update_app c now a ow name patch db)"
| "perform (MoveApp now a ow state) db = snd (setState now a ow state db)"
| "perform (AskDeletion now a ow) db = snd (updateState now a ow AppDeleting LIVE_APP_STATES db)"
| "perform (EndExports a message) db = failInFlight a message db"
| "perform (FinishDeletion now a) db = finishDeleting now a db"
| "perform (VolumeGone now a h) db = finishDeletingVolume now a h db"
| "perform (StampData now as h) db = stampDataInitialized now as h db"
| "perform (Reassign now x y) db = reassign now x y db"
| "perform (PurgeRows a) db = purge a db"
| "perform (Deploy i now input) db = snd (insertDeployment i now input db)"
| "perform (Rollback i c now a ow r) db = snd (insertRollback i c now a ow r db)"
| "perform (ReportReleases rs h) db = applyReport rs h db"
| "perform (StampActivation i at h) db = stampActivation i at h db"
| "perform (FailRelease i m h) db = failDeployment i m h db"
| "perform (RequestExport i now a ow at) db = snd (request_export i now a ow at db)"
| "perform (ReportExports rs h) db = applyExportReport rs h db"
| "perform (RequestMigration c now a ow st) db = snd (request_migration c now a ow st db)"
| "perform (StartMigration now a ow c h) db = snd (start_migration now a ow c h db)"
| "perform (CutOver i now a ow c h) db = snd (cutover i now a ow c h db)"
| "perform (CompleteMigration now a ow c h) db = snd (complete_migration now a ow c h db)"
| "perform (RestoreStorage c now a ow cc s m u h) db = snd (restore c now a ow cc s m u h db)"
| "perform (RegisterHost i o') db = snd (registerHost i o' db)"

text \<open>The ids a request is given are new, rows are purged only of an app that is deleted, and what a
  volume is to be moved to is a storage.\<close>

fun admissible :: "request \<Rightarrow> Database \<Rightarrow> bool" where
  "admissible (CreateApp i c now input) db \<longleftrightarrow>
     i \<notin> ap_id ` set (db_apps db) \<and> c \<notin> cf_id ` set (db_configs db)"
| "admissible (UpdateApp c now a ow name patch) db \<longleftrightarrow> c \<notin> cf_id ` set (db_configs db)"
| "admissible (PurgeRows a) db \<longleftrightarrow> list_ex (\<lambda>r. ap_id r = a \<and> ap_state r = AppDeleted) (db_apps db)"
| "admissible (Deploy i now input) db \<longleftrightarrow> i \<notin> dp_id ` set (db_deployments db)"
| "admissible (Rollback i c now a ow r) db \<longleftrightarrow>
     i \<notin> dp_id ` set (db_deployments db) \<and> c \<notin> cf_id ` set (db_configs db)"
| "admissible (RequestMigration c now a ow st) db \<longleftrightarrow>
     c \<notin> cf_id ` set (db_configs db) \<and> volume_storage_endpoint st \<noteq> None"
| "admissible (CutOver i now a ow c h) db \<longleftrightarrow> i \<notin> dp_id ` set (db_deployments db)"
| "admissible (RestoreStorage c now a ow cc s m u h) db \<longleftrightarrow> c \<notin> cf_id ` set (db_configs db)"
| "admissible _ db \<longleftrightarrow> True"

text \<open>Another repository writes to the tables that are not modelled as requests.\<close>

definition elsewhere :: "Database \<Rightarrow> Database \<Rightarrow> bool" where
  "elsewhere db db' \<longleftrightarrow> db_apps db' = db_apps db \<and> db_configs db' = db_configs db \<and>
     db_deployments db' = db_deployments db \<and> db_exports db' = db_exports db"

inductive control_step :: "Database \<Rightarrow> request option \<Rightarrow> Database \<Rightarrow> bool" where
  request: "admissible r db \<Longrightarrow> control_step db (Some r) (perform r db)"
| other: "elsewhere db db' \<Longrightarrow> control_step db None db'"

inductive_cases control_stepE: "control_step db r db'"

inductive reachable :: "Database \<Rightarrow> bool" where
  initial: "reachable (empty_database profiles)"
| further: "reachable db \<Longrightarrow> control_step db r db' \<Longrightarrow> reachable db'"


section \<open>Every request keeps the invariant\<close>

lemma config_of_release:
  assumes "db_ok db" and "d \<in> set (db_deployments db)"
  obtains c where "config_by_id db (dp_configId d) = Some c" "c \<in> set (db_configs db)"
    "cf_id c = dp_configId d" "cf_appId c = dp_appId d"
proof -
  obtain c where c: "c \<in> set (db_configs db)" "cf_id c = dp_configId d" "cf_appId c = dp_appId d"
    using assms by (auto simp: db_ok_def refs_ok_def list_all_iff list_ex_iff)
  then show ?thesis
    using that assms(1) config_lookup [of "db_configs db" c] by (simp add: db_ok_def keys_ok_def config_by_id_def)
qed

lemma deployed_storage_known:
  assumes "db_ok db" and "newest_deployment db a = Some d"
  obtains c where "config_by_id db (dp_configId d) = Some c" "deployed_storage db a = Some (cf_storage c)"
    "c \<in> set (db_configs db)" "cf_id c = dp_configId d" "cf_appId c = a" "dp_appId d = a"
proof -
  have d: "d \<in> set (db_deployments db)" "dp_appId d = a"
    using newest_Some [of "\<lambda>d. dp_appId d = a" "db_deployments db" d] assms(2)
    by (simp_all add: newest_deployment_def)
  obtain c where "config_by_id db (dp_configId d) = Some c" "c \<in> set (db_configs db)"
    "cf_id c = dp_configId d" "cf_appId c = dp_appId d"
    by (rule config_of_release [OF assms(1) d(1)])
  then show ?thesis
    using that [of c] d assms(2) by (simp add: deployed_storage_def)
qed

lemma not_pending_aligned:
  "db_ok db \<Longrightarrow> a \<in> set (db_apps db) \<Longrightarrow> \<not> pending a \<Longrightarrow> deployed_storage db (ap_id a) = Some s \<Longrightarrow>
    map_option cf_storage (newest_config db (ap_id a)) = Some s"
  by (auto simp: db_ok_def migrations_ok_def list_all_iff aligned_def)

lemma supersede_configs:
  "supersedeLiveDeployment a ow (db\<lparr>db_configs := cs\<rparr>) = (supersedeLiveDeployment a ow db)\<lparr>db_configs := cs\<rparr>"
  by (simp add: supersede_unfold owned_app_def)

text \<open>Rolling back changes nothing, or a release with the replayed binary takes over on the same host, its
  storage the one the volume is on; the configuration is the replayed one or a new one with its settings.\<close>

lemma rollback_effect:
  assumes ok: "db_ok db" and r: "insertRollback i c' now a ow rb db = (res, db')"
  obtains (unchanged) "db' = db" "\<And>d. res \<noteq> Inr (Some d)"
  | (replayed) d c db1 ap src latest where "res = Inr (Some d)" "takes_over db1 ow d db'" "dp_id d = i" "dp_appId d = a"
      "owned_app db a ow = Some ap" "\<not> pending ap" "c \<in> set (db_configs db1)" "cf_id c = dp_configId d"
      "cf_appId c = a" "deployed_storage db a = Some (cf_storage c)"
      "src \<in> set (db_deployments db)" "dp_id src = rb" "dp_appId src = a" "dp_artifactId d = dp_artifactId src"
      "newest_deployment db a = Some latest" "dp_hostId d = dp_hostId latest"
      "db1 = db \<or> cf_id c = c' \<and> db1 = db\<lparr>db_configs := db_configs db @ [c]\<rparr>" "dp_initialData d = None"
proof -
  let ?s = "supersedeLiveDeployment a ow db"
  show ?thesis
  proof (cases "db' = db \<and> (\<forall>d. res \<noteq> Inr (Some d))")
    case True
    then show ?thesis
      using unchanged by simp
  next
    case False
    from False r obtain ap src u where ap: "owned_app db a ow = Some ap"
      and f: "find (\<lambda>d. dp_id d = rb \<and> dp_appId d = a) (db_deployments db) = Some src"
      and l: "lockAppForMutation db a ow = Inr u"
      by (auto simp: insertRollback_def split: if_splits option.splits sum.splits)
    from f have src: "src \<in> set (db_deployments db)" "dp_id src = rb" "dp_appId src = a"
      by (auto simp: find_Some_iff)
    have "newest_deployment db a \<noteq> None"
      using src by (auto simp: newest_deployment_def newest_None)
    then obtain latest where latest: "newest_deployment db a = Some latest"
      by blast
    obtain previous where previous: "config_by_id db (dp_configId src) = Some previous"
      "previous \<in> set (db_configs db)" "cf_id previous = dp_configId src" "cf_appId previous = a"
      using config_of_release [OF ok src(1)] src(3) by metis
    obtain storage where storage: "config_by_id db (dp_configId latest) = Some storage"
      "deployed_storage db a = Some (cf_storage storage)"
      using deployed_storage_known [OF ok latest] by metis
    have cs: "config_by_id ?s = config_by_id db"
      by (rule reads_configs) (simp add: superseded_tables)
    obtain sl where sl: "newest_deployment ?s a = Some sl" "dp_hostId sl = dp_hostId latest"
      "dp_configId sl = dp_configId latest"
      using superseded_tables(5,6) [of a ow db a] latest by (auto simp: map_option_eq_Some)
    let ?c = "if cf_storage previous \<noteq> cf_storage storage
      then \<lparr>cf_id = c', cf_appId = a, cf_run = cf_run previous, cf_environment = cf_environment previous,
        cf_storage = cf_storage storage, cf_createdAt = now\<rparr> else previous"
    let ?db1 = "if cf_storage previous \<noteq> cf_storage storage then db\<lparr>db_configs := db_configs db @ [?c]\<rparr> else db"
    let ?d = "(new_deployment i now a (dp_artifactId src) (cf_id ?c) (dp_hostId latest))\<lparr>dp_rollbackOf := Some rb\<rparr>"
    let ?s1 = "supersedeLiveDeployment a ow ?db1"
    have own: "owned_app ?db1 a ow = Some ap"
      using ap by (simp add: owned_app_def)
    have ins: "insert_deployment_row ?d ?s1 = Inr (?s1\<lparr>db_deployments := db_deployments ?s1 @ [?d]\<rparr>)"
      using insert_after_supersede [of ?db1 ?d ow] own by simp
    have "res = Inr (Some ?d) \<and> db' = ?s1\<lparr>db_deployments := db_deployments ?s1 @ [?d]\<rparr>"
      using r ap f l latest sl previous src ins cs storage
      by (cases "cf_storage previous = cf_storage storage")
        (simp_all add: insertRollback_def Let_def supersede_configs superseded_tables)
    then show ?thesis
      using replayed [of ?d ?db1 ap ?c src latest] own ap src latest previous storage lock_Inr [OF l]
      by (simp add: takes_over_def Let_def pending_def live_def terminal_def new_deployment_def)
  qed
qed

lemma deployedConfig_known:
  assumes ok: "db_ok db" and dc: "deployedConfig db a ow = Some (d, c)"
  shows "newest_deployment db a = Some d" "deployed_storage db a = Some (cf_storage c)" "c \<in> set (db_configs db)"
    "cf_appId c = a" "\<exists>ap. owned_app db a ow = Some ap \<and> (ap_state ap = AppActive \<or> ap_state ap = AppSuspended)"
proof -
  show d: "newest_deployment db a = Some d"
    and "\<exists>ap. owned_app db a ow = Some ap \<and> (ap_state ap = AppActive \<or> ap_state ap = AppSuspended)"
    using dc by (auto simp: deployedConfig_def split: option.splits if_splits)
  have "find (\<lambda>c. cf_id c = dp_configId d \<and> cf_appId c = a) (db_configs db) = Some c"
    using dc by (auto simp: deployedConfig_def split: option.splits if_splits)
  then have c: "c \<in> set (db_configs db)" "cf_id c = dp_configId d" "cf_appId c = a"
    by (auto simp: find_Some_iff)
  then show "c \<in> set (db_configs db)" "cf_appId c = a"
    by simp_all
  have "config_by_id db (dp_configId d) = Some c"
    using ok c config_lookup [of "db_configs db" c] by (simp add: db_ok_def keys_ok_def config_by_id_def)
  then show "deployed_storage db a = Some (cf_storage c)"
    by (simp add: deployed_storage_def d)
qed

text \<open>Cutting over changes nothing, or a release with the destination's configuration takes over.\<close>

lemma cutover_effect:
  assumes ok: "db_ok db" and r: "cutover i now a ow cid h db = (res, db')"
  obtains (unchanged) "db' = db"
  | (moved) d c ap where "takes_over db ow d db'" "dp_id d = i" "dp_appId d = a" "owned_app db a ow = Some ap"
      "pending ap" "ap_migrationStartedAt ap \<noteq> None" "ap_migrationHostId ap = Some h"
      "newest_config db a = Some c" "cf_id c = dp_configId d" "dp_configId d = cid"
      "volume_storage_endpoint (cf_storage c) \<noteq> None"
      "\<exists>s. deployed_storage db a = Some s \<and> volume_storage_endpoint s = None"
      "\<exists>latest. newest_deployment db a = Some latest \<and> dp_hostId d = dp_hostId latest \<and>
         dp_artifactId d = dp_artifactId latest"
proof (cases "db' = db")
  case True
  then show ?thesis
    by (rule unchanged)
next
  case False
  let ?s = "supersedeLiveDeployment a ow db"
  from False r obtain ap where at: "attempt_of db a ow cid h = Some ap"
    by (auto simp: cutover_def split: option.splits)
  from False r at obtain d0 c0 where dc: "deployedConfig db a ow = Some (d0, c0)" "cf_id c0 \<noteq> cid"
    "ap_migrationState ap = Some MigrationPending" "volume_storage_endpoint (cf_storage c0) = None"
    and dd: "db' = snd (deployDestination i now a ow cid (dp_artifactId d0) db)"
    by (auto simp: cutover_def apfst_def map_prod_def split: option.splits prod.splits if_splits)
  obtain c where ap: "owned_app db a ow = Some ap" and started: "ap_migrationStartedAt ap \<noteq> None"
    "ap_migrationHostId ap = Some h" and c: "newest_config db a = Some c" "cf_id c = cid"
    "volume_storage_endpoint (cf_storage c) \<noteq> None"
    using at by (auto simp: attempt_of_def lockApp_def read_migration_def split: option.splits if_splits)
  note known = deployedConfig_known [OF ok dc(1)]
  have d0: "newest_deployment db a = Some d0" and state: "ap_state ap = AppActive \<or> ap_state ap = AppSuspended"
    using known(1,5) ap by auto
  let ?d = "new_deployment i now a (dp_artifactId d0) cid (dp_hostId d0)"
  obtain sl where sl: "newest_deployment ?s a = Some sl" "dp_hostId sl = dp_hostId d0"
    using superseded_tables(5) [of a ow db a] d0 by (auto simp: map_option_eq_Some)
  have own: "owned_app ?s a ow = Some ap"
    using ap by (simp add: owned_app_def superseded_tables)
  have "insert_deployment_row ?d ?s = Inr (?s\<lparr>db_deployments := db_deployments ?s @ [?d]\<rparr>)"
    using insert_after_supersede [of db ?d ow] ap by simp
  then have "db' = ?s\<lparr>db_deployments := db_deployments ?s @ [?d]\<rparr>"
    using dd own state sl by (auto simp: deployDestination_def Let_def)
  then show ?thesis
    using moved [of ?d ap c] ap started c dc(3,4) d0 known(2)
    by (simp add: takes_over_def Let_def pending_def)
qed

lemma ok_deploy:
  assumes ok: "db_ok db" and fresh: "i \<notin> dp_id ` set (db_deployments db)"
  shows "db_ok (snd (insertDeployment i now input db))"
proof (cases "insertDeployment i now input db")
  case (Pair res db')
  from ok Pair show ?thesis
  proof (cases rule: deploy_effect)
    case (deployed d c a)
    have "cf_appId c = dp_appId d" "c \<in> set (db_configs db)"
      using newest_Some [of "\<lambda>c. cf_appId c = dp_appId d" "db_configs db" c] deployed(5)
      by (simp_all add: newest_config_def)
    with deployed have "db_ok db'"
      by (intro ok_takes_over [OF ok deployed(2), of c]) (auto simp: fresh)
    with Pair show ?thesis by simp
  qed (use ok Pair in simp)
qed

lemma ok_rollback:
  assumes ok: "db_ok db" and fresh: "i \<notin> dp_id ` set (db_deployments db)" "c' \<notin> cf_id ` set (db_configs db)"
  shows "db_ok (snd (insertRollback i c' now a ow rb db))"
proof (cases "insertRollback i c' now a ow rb db")
  case (Pair res db')
  from ok Pair show ?thesis
  proof (cases rule: rollback_effect)
    case (replayed d c db1 ap src latest)
    have apr: "ap \<in> set (db_apps db)" "ap_id ap = a"
      using owned_app_Some [OF replayed(5)] by simp_all
    have only: "b = ap" if "b \<in> set (db_apps db)" "ap_id b = a" for b
      using that apr by (intro app_unique [OF ok]) simp_all
    have ok1: "db_ok db1"
    proof (cases "db1 = db")
      case False
      with replayed(17) have c: "cf_id c = c'" "db1 = db\<lparr>db_configs := db_configs db @ [c]\<rparr>"
        by simp_all
      show ?thesis
        unfolding c(2) using apr replayed(9,10) fresh c(1)
        by (intro ok_config [OF ok]) (auto dest: only)
    qed (simp add: ok)
    have "map_option cf_storage (newest_config db a) = Some (cf_storage c)"
      using not_pending_aligned [OF ok apr(1) replayed(6)] replayed(10) apr(2) by simp
    then have "map_option cf_storage (newest_config db1 a) = Some (cf_storage c)"
      using replayed(9,17) by (auto simp: newest_config_def newest_append)
    moreover have "dp_id ` set (db_deployments db1) = dp_id ` set (db_deployments db)"
      using replayed(17) by auto
    ultimately have "db_ok db'"
      using replayed(3,4,7,8,9) fresh(1)
      by (intro ok_takes_over [OF ok1 replayed(2), of c]) simp_all
    with Pair show ?thesis by simp
  qed (use ok Pair in simp)
qed

lemma ok_cutover:
  assumes ok: "db_ok db" and fresh: "i \<notin> dp_id ` set (db_deployments db)"
  shows "db_ok (snd (cutover i now a ow cid h db))"
proof (cases "cutover i now a ow cid h db")
  case (Pair res db')
  from ok Pair show ?thesis
  proof (cases rule: cutover_effect)
    case (moved d c ap)
    have c: "cf_appId c = a" "c \<in> set (db_configs db)"
      using newest_Some [of "\<lambda>c. cf_appId c = a" "db_configs db" c] moved(8) by (simp_all add: newest_config_def)
    have "db_ok db'"
      using moved(2,3,8,9) fresh c by (intro ok_takes_over [OF ok moved(1), of c]) auto
    with Pair show ?thesis by simp
  qed (use ok Pair in simp)
qed

lemma append_effect:
  assumes "appendConfigVersion c now a patch st db = Inr db'"
  obtains cur c1 where "newest_config db a = Some cur" "cf_id c1 = c" "cf_appId c1 = a"
    "cf_storage c1 = (case st of None \<Rightarrow> cf_storage cur | Some s \<Rightarrow> s)" "db' = db\<lparr>db_configs := db_configs db @ [c1]\<rparr>"
proof (cases "newest_config db a")
  case (Some cur)
  with assms have "db' = db\<lparr>db_configs := db_configs db @ [\<lparr>cf_id = c, cf_appId = a,
      cf_run = config_columns (patched_config patch (toRunConfig (cf_run cur))),
      cf_environment = patched_environment patch (cf_environment cur),
      cf_storage = (case st of None \<Rightarrow> cf_storage cur | Some s \<Rightarrow> s), cf_createdAt = now\<rparr>]\<rparr>"
    by (simp add: appendConfigVersion_def)
  then show ?thesis
    by (rule that [OF Some, rotated 3]) simp_all
qed (use assms in \<open>simp add: appendConfigVersion_def\<close>)

lemma owned_only:
  assumes "db_ok db" and "owned_app db a ow = Some r"
  shows "r \<in> set (db_apps db)" "ap_id r = a" "b \<in> set (db_apps db) \<Longrightarrow> ap_id b = a \<Longrightarrow> b = r"
  using owned_app_Some [OF assms(2)] app_unique [OF assms(1), of b r] by simp_all

lemma ok_update_app:
  assumes ok: "db_ok db" and fresh: "c \<notin> cf_id ` set (db_configs db)"
  shows "db_ok (snd (update_app c now a ow name patch db))"
proof (cases "lockAppForMutation db a ow = Inr True")
  case True
  then obtain r where r: "owned_app db a ow = Some r" "\<not> pending r"
    using lock_Inr [OF True] by (auto simp: pending_def)
  note own = owned_only [OF ok r(1)]
  have touched: "db_ok (update_apps now p (\<lambda>a. a\<lparr>ap_name := n a\<rparr>) db1)" if "db_ok db1" for db1 p n
    using that by (intro ok_update_apps_plain) (simp_all add: pending_def)
  show ?thesis
  proof (cases patch)
    case (Some pt)
    show ?thesis
    proof (cases "appendConfigVersion c now a pt None db")
      case (Inr db1)
      then obtain cur c1 where e: "newest_config db a = Some cur" "cf_id c1 = c" "cf_appId c1 = a"
        "cf_storage c1 = cf_storage cur" "db1 = db\<lparr>db_configs := db_configs db @ [c1]\<rparr>"
        by (rule append_effect) simp
      have "db_ok db1"
        unfolding e(5)
      proof (rule ok_config [OF ok])
        show "deployed_storage db (ap_id b) = None \<or> deployed_storage db (ap_id b) = Some (cf_storage c1)"
          if "b \<in> set (db_apps db)" "ap_id b = cf_appId c1" "\<not> pending b" for b
          using not_pending_aligned [OF ok that(1,3)] that(2) e by (cases "deployed_storage db (ap_id b)") auto
      qed (use own e fresh in auto)
      then show ?thesis
        using True Some Inr touched by (simp add: update_app_def)
    qed (use True Some ok in \<open>simp add: update_app_def\<close>)
  qed (use True ok touched in \<open>simp add: update_app_def\<close>)
next
  case False
  then show ?thesis
    using ok by (auto simp: update_app_def split: sum.splits bool.splits)
qed

lemma ok_migration_steps:
  assumes ok: "db_ok db"
  shows "db_ok (snd (start_migration now a ow cid h db))" "db_ok (snd (complete_migration now a ow cid h db))"
proof -
  have "db_ok (update_apps now (of_owner a ow) (\<lambda>a. a\<lparr>ap_migrationStartedAt := x, ap_migrationHostId := y\<rparr>) db)" for x y
    using ok by (intro ok_update_apps_plain) (simp_all add: pending_def)
  then show "db_ok (snd (start_migration now a ow cid h db))"
    using ok by (auto simp: start_migration_def split: option.splits)
  show "db_ok (snd (complete_migration now a ow cid h db))"
  proof (cases "snd (complete_migration now a ow cid h db) = db")
    case False
    then obtain ap d c where at: "attempt_of db a ow cid h = Some ap" "deployedConfig db a ow = Some (d, c)" "cf_id c = cid"
      and e: "snd (complete_migration now a ow cid h db) = update_apps now (of_owner a ow)
        (\<lambda>a. a\<lparr>ap_migrationState := Some MigrationCompleted, ap_migrationMessage := None\<rparr>) db"
      by (auto simp: complete_migration_def split: option.splits prod.splits if_splits)
    obtain c1 where c1: "newest_config db a = Some c1" "cf_id c1 = cid"
      using at(1) by (auto simp: attempt_of_def lockApp_def read_migration_def split: option.splits if_splits)
    have "c1 \<in> set (db_configs db)"
      using newest_Some [of "\<lambda>c. cf_appId c = a" "db_configs db" c1] c1(1) by (simp add: newest_config_def)
    then have "c1 = c"
      using deployedConfig_known(3) [OF ok at(2)] at(3) c1(2) ok
      by (metis db_ok_def distinct_map inj_onD keys_ok_def)
    then have "aligned db a"
      using deployedConfig_known(2) [OF ok at(2)] c1 by (simp add: aligned_def)
    then show ?thesis
      unfolding e by (intro ok_update_apps [OF ok]) (auto simp: pending_def of_owner_def)
  qed (simp add: ok)
qed

lemma ok_restore:
  assumes ok: "db_ok db" and fresh: "c \<notin> cf_id ` set (db_configs db)"
  shows "db_ok (snd (restore c now a ow cid s m u h db))"
proof (cases "snd (restore c now a ow cid s m u h db) = db")
  case False
  then obtain ap d src db1 where ap: "owned_app db a ow = Some ap" "pending ap"
    and dc: "deployedConfig db a ow = Some (d, src)"
    and ap1: "appendConfigVersion c now a empty_patch (Some (cf_storage src)) db = Inr db1"
    and e: "snd (restore c now a ow cid s m u h db) = update_apps now (of_owner a ow)
      (\<lambda>a. a\<lparr>ap_migrationState := Some (aborted_state s), ap_migrationMessage := m\<rparr>) db1"
    by (auto simp: restore_def lockApp_def pending_def split: option.splits prod.splits if_splits sum.splits)
  note own = owned_only [OF ok ap(1)]
  obtain c1 where c1: "cf_id c1 = c" "cf_appId c1 = a" "cf_storage c1 = cf_storage src"
    "db1 = db\<lparr>db_configs := db_configs db @ [c1]\<rparr>"
    using ap1 by (rule append_effect) simp
  have ok1: "db_ok db1"
    unfolding c1(4)
  proof (rule ok_config [OF ok])
    show "deployed_storage db (ap_id b) = None \<or> deployed_storage db (ap_id b) = Some (cf_storage c1)"
      if "b \<in> set (db_apps db)" "ap_id b = cf_appId c1" "\<not> pending b" for b
      using own(3) [OF that(1)] that(2,3) c1(2) ap(2) by simp
  qed (use own(1,2) c1 fresh in \<open>auto simp: image_iff\<close>)
  have "deployed_storage db1 a = Some (cf_storage src)"
  proof -
    obtain x where x: "newest_deployment db1 a = Some x" "x = d"
      using deployedConfig_known(1) [OF ok dc] c1(4) by (simp add: newest_deployment_def)
    obtain y where "config_by_id db1 (dp_configId d) = Some y" "deployed_storage db1 a = Some (cf_storage y)"
      "y \<in> set (db_configs db1)" "cf_id y = dp_configId d"
      using deployed_storage_known [OF ok1 x(1)] x(2) by metis
    moreover have "find (\<lambda>c. cf_id c = dp_configId d) (db_configs db) = Some z \<Longrightarrow>
        config_by_id db1 (dp_configId d) = Some z" for z
      by (simp add: c1(4) config_by_id_def find_append)
    ultimately show ?thesis
      using deployedConfig_known(1,2) [OF ok dc] by (auto simp: deployed_storage_def config_by_id_def)
  qed
  then have "aligned db1 a"
    using c1 by (simp add: aligned_def newest_config_def newest_append)
  then show ?thesis
    unfolding e by (intro ok_update_apps [OF ok1]) (auto simp: pending_def of_owner_def aborted_state_def split: aborted.splits)
qed (simp add: ok)

lemma update_apps_ids:
  "(\<And>a. ap_id (change a) = ap_id a) \<Longrightarrow>
    ap_id ` set (db_apps (update_apps now p change db)) = ap_id ` set (db_apps db)"
proof -
  assume ids: "\<And>a. ap_id (change a) = ap_id a"
  have "map ap_id (db_apps (update_apps now p change db)) = map ap_id (db_apps db)"
    by (simp add: update_apps_def ids)
  then show ?thesis
    by (metis list.set_map)
qed

lemma ok_request_migration:
  assumes ok: "db_ok db" and fresh: "c \<notin> cf_id ` set (db_configs db)"
  shows "db_ok (snd (request_migration c now a ow st db))"
proof (cases "snd (request_migration c now a ow st db) = db")
  case False
  then obtain ap db1 where ap: "owned_app db a ow = Some ap" "ap_state ap = AppActive \<or> ap_state ap = AppSuspended"
    and ap1: "appendConfigVersion c now a empty_patch (Some st) db = Inr db1"
    and e: "snd (request_migration c now a ow st db) = update_apps now (of_owner a ow)
      (\<lambda>a. a\<lparr>ap_migrationState := Some MigrationPending, ap_migrationMessage := None,
             ap_migrationStartedAt := None, ap_migrationHostId := None\<rparr>) db1"
    by (auto simp: request_migration_def lockApp_def Let_def split: option.splits prod.splits if_splits sum.splits)
  note own = owned_only [OF ok ap(1)]
  obtain c1 where c1: "cf_id c1 = c" "cf_appId c1 = a" "db1 = db\<lparr>db_configs := db_configs db @ [c1]\<rparr>"
    using ap1 by (rule append_effect) simp
  let ?p = "\<lambda>a. a\<lparr>ap_migrationState := Some MigrationPending, ap_migrationMessage := None,
    ap_migrationStartedAt := None, ap_migrationHostId := None\<rparr>"
  let ?db = "update_apps now (of_owner a ow) ?p db"
  have "db_ok ?db"
  proof (rule ok_update_apps [OF ok])
    show "(pending (?p b) \<longrightarrow> ap_state (?p b) = AppActive \<or> ap_state (?p b) = AppSuspended) \<and>
        (\<not> pending (?p b) \<longrightarrow> \<not> pending b \<or> aligned db (ap_id b))"
      if "b \<in> set (db_apps db)" "of_owner a ow b" for b
      using own(3) [OF that(1)] that(2) ap(2) by (simp add: pending_def of_owner_def)
  qed simp
  then have "db_ok (?db\<lparr>db_configs := db_configs ?db @ [c1]\<rparr>)"
  proof (rule ok_config)
    show "cf_appId c1 \<in> ap_id ` set (db_apps ?db)"
      using own(1,2) c1(2) by (subst update_apps_ids) auto
    show "deployed_storage ?db (ap_id b) = None \<or> deployed_storage ?db (ap_id b) = Some (cf_storage c1)"
      if b: "b \<in> set (db_apps ?db)" "ap_id b = cf_appId c1" "\<not> pending b" for b
    proof -
      obtain b0 where b0: "b0 \<in> set (db_apps db)" "b = (if of_owner a ow b0 then (?p b0)\<lparr>ap_updatedAt := now\<rparr> else b0)"
        using b(1) unfolding update_apps_def by auto
      have "ap_id b0 = a"
        using b0(2) b(2) c1(2) by (simp split: if_splits)
      then have "of_owner a ow b0"
        using own(3) [OF b0(1)] owned_app_Some [OF ap(1)] by (simp add: of_owner_def)
      then show ?thesis
        using b(3) b0(2) by (simp add: pending_def)
    qed
  qed (use c1 fresh in \<open>simp add: update_apps_def\<close>)
  moreover have "?db\<lparr>db_configs := db_configs ?db @ [c1]\<rparr> = update_apps now (of_owner a ow) ?p db1"
    by (simp add: update_apps_def c1(3))
  ultimately show ?thesis
    by (simp add: e)
qed (simp add: ok)

lemma ok_create_app:
  assumes ok: "db_ok db" and fresh: "i \<notin> ap_id ` set (db_apps db)" "c \<notin> cf_id ` set (db_configs db)"
  shows "db_ok (snd (create_app i c now input db))"
proof (cases "snd (create_app i c now input db) = db")
  case False
  then obtain ap c1 hs where e: "snd (create_app i c now input db) =
      db\<lparr>db_apps := db_apps db @ [ap], db_configs := db_configs db @ [c1], db_hostnames := hs\<rparr>"
    and ap: "ap_id ap = i" "ap_migrationState ap = None" and c1: "cf_id c1 = c" "cf_appId c1 = i"
    by (auto simp: create_app_def new_app_row_def Let_def split: sum.splits bool.splits option.splits if_splits)
  let ?db = "db\<lparr>db_apps := db_apps db @ [ap], db_configs := db_configs db @ [c1], db_hostnames := hs\<rparr>"
  have none: "newest_deployment db i = None"
    using ok fresh(1) by (auto simp: newest_deployment_def newest_None db_ok_def refs_ok_def list_all_iff)
  have nc: "newest_config ?db j = (if j = i then Some c1 else newest_config db j)" for j
    using c1 by (simp add: newest_config_def newest_append)
  have nd: "newest_deployment ?db = newest_deployment db"
    by (rule reads_deployments) simp
  have ds: "deployed_storage ?db j = deployed_storage db j" for j
  proof (cases "newest_deployment db j")
    case (Some d)
    then obtain x where x: "config_by_id db (dp_configId d) = Some x"
      using deployed_storage_known [OF ok] by metis
    then have "config_by_id ?db (dp_configId d) = Some x"
      by (simp add: config_by_id_def find_append)
    with x Some show ?thesis
      by (simp add: deployed_storage_def nd)
  qed (simp add: deployed_storage_def nd)
  have "migrations_ok ?db"
    using ok fresh ap c1 none unfolding db_ok_def migrations_ok_def aligned_def ds nc
    by (auto simp: list_all_iff pending_def deployed_storage_def split: option.splits)
  then show ?thesis
    using ok fresh ap c1 unfolding e db_ok_def keys_ok_def refs_ok_def by (auto simp: list_all_iff list_ex_iff)
qed (simp add: ok)

lemma ok_exports_map:
  assumes "db_ok db" and "\<And>e. ex_appId (f e) = ex_appId e" and "\<And>e. export_in_flight (f e) \<Longrightarrow> export_in_flight e"
  shows "db_ok (db\<lparr>db_exports := map f (db_exports db)\<rparr>)"
proof (rule ok_elsewhere [OF assms(1)])
  have sub: "ex_appId ` set (filter export_in_flight (map f es)) \<subseteq> ex_appId ` set (filter export_in_flight es)" for es
    using assms(2,3) by (force simp: image_iff)
  have "distinct (map ex_appId (filter export_in_flight es)) \<Longrightarrow>
      distinct (map ex_appId (filter export_in_flight (map f es)))" for es
  proof (induction es)
    case (Cons e es)
    then show ?case
      using sub [of es] assms(2,3) [of e] by (cases "export_in_flight e") (auto simp: image_subset_iff)
  qed simp
  then show "distinct (map ex_appId (filter export_in_flight (db_exports (db\<lparr>db_exports := map f (db_exports db)\<rparr>))))"
    using assms(1) by (simp add: db_ok_def keys_ok_def)
qed simp_all

lemma ok_exports:
  assumes ok: "db_ok db"
  shows "db_ok (failInFlight a m db)" "db_ok (applyExportReport rs h db)"
    "db_ok (snd (request_export i now a ow at db))"
proof -
  show "db_ok (failInFlight a m db)"
    unfolding failInFlight_def by (rule ok_exports_map [OF ok]) (auto split: if_splits)
  show "db_ok (applyExportReport rs h db)"
    unfolding applyExportReport_def
    by (rule ok_deployments_fold [OF _ ok], rule ok_exports_map) (auto split: if_splits)
  show "db_ok (snd (request_export i now a ow at db))"
  proof (cases "snd (request_export i now a ow at db) = db")
    case False
    then obtain e where e: "snd (request_export i now a ow at db) = db\<lparr>db_exports := db_exports db @ [e]\<rparr>"
      and n: "ex_appId e = a" "in_flight_of db a = None"
      by (auto simp: request_export_def Let_def split: sum.splits option.splits if_splits)
    have "a \<notin> ex_appId ` set (filter export_in_flight (db_exports db))"
      using n(2) by (auto simp: in_flight_of_def find_None_iff)
    then show ?thesis
      unfolding e using ok n(1) by (intro ok_elsewhere [OF ok]) (auto simp: db_ok_def keys_ok_def)
  qed (simp add: ok)
qed

lemma ok_plain_apps:
  assumes "db_ok db"
  shows "db_ok (stampDataInitialized now as h db)" "db_ok (reassign now x y db)" "db_ok (finishDeleting now a db)"
    "db_ok (finishDeletingVolume now a h db)" "db_ok (snd (setState now a ow s db))" "db_ok (snd (registerHost i z db))"
proof -
  show "db_ok (stampDataInitialized now as h db)" "db_ok (reassign now x y db)"
    unfolding stampDataInitialized_def reassign_def
    by (rule ok_update_apps_plain [OF assms]; simp add: pending_def)+
  show "db_ok (finishDeleting now a db)" "db_ok (finishDeletingVolume now a h db)"
    unfolding finishDeleting_def finishDeletingVolume_def by (rule ok_deleted [OF assms]; simp)+
  show "db_ok (snd (setState now a ow s db))"
    using ok_updateState [OF assms, of now a ow "owned_state s" OWNED_APP_STATES]
    by (auto simp: setState_def split: prod.splits sum.splits bool.splits)
  show "db_ok (snd (registerHost i z db))"
    using assms ok_elsewhere [OF assms, of "snd (registerHost i z db)"]
    by (cases "hostForIdentity db z") (simp_all add: registerHost_def db_ok_def keys_ok_def)
qed

lemma ok_perform: "db_ok db \<Longrightarrow> admissible r db \<Longrightarrow> db_ok (perform r db)"
  by (cases r)
    (simp_all add: ok_create_app ok_update_app ok_plain_apps ok_updateState ok_exports ok_purged ok_deploy
      ok_rollback ok_reports ok_request_migration ok_migration_steps ok_cutover ok_restore)

lemma ok_step: "db_ok db \<Longrightarrow> control_step db r db' \<Longrightarrow> db_ok db'"
proof (erule control_stepE)
  assume "db_ok db" and "elsewhere db db'"
  then show "db_ok db'"
    by - (rule ok_elsewhere [of db], simp_all add: elsewhere_def db_ok_def keys_ok_def)
qed (simp add: ok_perform)

lemma reachable_ok: "reachable db \<Longrightarrow> db_ok db"
proof (induction rule: reachable.induct)
  case (initial profiles)
  show ?case
    by (simp add: empty_database_def db_ok_defs)
qed (rule ok_step)

section \<open>What a request does to the releases\<close>

lemma takes_over_releases:
  "takes_over db ow d db' \<Longrightarrow> db_deployments db' = map (stood_down (dp_appId d)) (db_deployments db) @ [d]"
  "takes_over db ow d db' \<Longrightarrow> db_apps db' = db_apps db"
  "takes_over db ow d db' \<Longrightarrow> db_configs db' = db_configs db"
  by (auto simp: takes_over_def supersede_unfold)

lemma releases_unchanged:
  "db_deployments (snd (create_app i c now input db)) = db_deployments db"
  "db_deployments (snd (update_app c now a ow name patch db)) = db_deployments db"
  "db_deployments (snd (updateState now a ow s froms db)) = db_deployments db"
  "db_deployments (snd (setState now a ow os db)) = db_deployments db"
  "db_deployments (failInFlight a m db) = db_deployments db"
  "db_deployments (finishDeleting now a db) = db_deployments db"
  "db_deployments (finishDeletingVolume now a h db) = db_deployments db"
  "db_deployments (stampDataInitialized now as h db) = db_deployments db"
  "db_deployments (reassign now x y db) = db_deployments db"
  "db_deployments (snd (request_export e now a ow at db)) = db_deployments db"
  "db_deployments (snd (request_migration c now a ow st db)) = db_deployments db"
  "db_deployments (snd (start_migration now a ow c h db)) = db_deployments db"
  "db_deployments (snd (complete_migration now a ow c h db)) = db_deployments db"
  "db_deployments (snd (restore c now a ow cc ab mm u hh db)) = db_deployments db"
  "db_deployments (snd (registerHost i z db)) = db_deployments db"
  by (auto simp: create_app_def update_app_def updateState_def setState_def failInFlight_def finishDeleting_def
      finishDeletingVolume_def stampDataInitialized_def reassign_def request_export_def request_migration_def
      start_migration_def complete_migration_def restore_def registerHost_def update_apps_def Let_def
      appendConfigVersion_def
      split: option.splits sum.splits bool.splits prod.splits if_splits)

lemma exports_leave_releases: "db_deployments (applyExportReport rs h db) = db_deployments db"
  unfolding applyExportReport_def by (induction rs arbitrary: db) simp_all

lemma reports_releases:
  "\<exists>f. release_update f \<and> db_deployments (applyReport rs h db) = map f (db_deployments db)"
proof -
  have "\<exists>f. release_update f \<and> db_deployments (fold (\<lambda>r. update_live (rd_deploymentId r) h (reported_columns r)) rs db) =
      map f (db_deployments db)"
  proof (induction rs arbitrary: db)
    case Nil
    show ?case
      using release_update_id by (intro exI [of _ "\<lambda>d. d"]) simp
  next
    case (Cons r rs)
    let ?g = "\<lambda>d. if dp_id d = rd_deploymentId r \<and> live d \<and> dp_hostId d = h then reported_columns r d else d"
    obtain f where f: "release_update f"
      "db_deployments (fold (\<lambda>r. update_live (rd_deploymentId r) h (reported_columns r)) (r # rs) db) =
        map f (db_deployments (update_live (rd_deploymentId r) h (reported_columns r) db))"
      using Cons.IH by auto
    then have "db_deployments (fold (\<lambda>r. update_live (rd_deploymentId r) h (reported_columns r)) (r # rs) db) =
        map (\<lambda>d. f (?g d)) (db_deployments db)"
      by (simp add: update_live_def comp_def)
    then show ?case
      using release_update_comp [OF reporting.release_update_axioms f(1), of "rd_deploymentId r" h r] by blast
  qed
  then show ?thesis
    by (simp add: applyReport_def)
qed

text \<open>Every request keeps the releases there are, and three kinds add one; only a purge takes any away.\<close>

lemma perform_releases:
  assumes ok: "db_ok db" and adm: "admissible r db"
  obtains (kept) f where "release_update f" "db_deployments (perform r db) = map f (db_deployments db)"
  | (deployed) i now input d c a where "r = Deploy i now input" "takes_over db (cd_ownerId input) d (perform r db)"
      "newest_config db (dp_appId d) = Some c" "dp_configId d = cf_id c"
      "owned_app db (dp_appId d) (cd_ownerId input) = Some a" "\<not> pending a"
      "hostForDeployment db (dp_appId d) (cd_ownerId input) now = Some (dp_hostId d)"
  | (replayed) i c' now a ow rb d c db1 latest where "r = Rollback i c' now a ow rb" "takes_over db1 ow d (perform r db)"
      "dp_appId d = a" "c \<in> set (db_configs db1)" "cf_id c = dp_configId d" "deployed_storage db a = Some (cf_storage c)"
      "newest_deployment db a = Some latest" "dp_hostId d = dp_hostId latest"
      "db1 = db \<or> db1 = db\<lparr>db_configs := db_configs db @ [c]\<rparr>"
  | (moved) i now a ow cid h d c ap where "r = CutOver i now a ow cid h" "takes_over db ow d (perform r db)"
      "dp_appId d = a" "owned_app db a ow = Some ap" "pending ap" "ap_migrationStartedAt ap \<noteq> None"
      "ap_migrationHostId ap = Some h" "newest_config db a = Some c" "cf_id c = dp_configId d"
      "volume_storage_endpoint (cf_storage c) \<noteq> None"
      "\<exists>s. deployed_storage db a = Some s \<and> volume_storage_endpoint s = None"
      "\<exists>latest. newest_deployment db a = Some latest \<and> dp_hostId d = dp_hostId latest"
  | (purged) a where "r = PurgeRows a"
proof -
  have same: thesis if "db_deployments (perform r db) = db_deployments db"
    using kept [OF release_update_id] that by simp
  show thesis
  proof (cases r)
    case (Deploy i now input)
    obtain res db' where p: "insertDeployment i now input db = (res, db')"
      by fastforce
    from ok p show thesis
      by (cases rule: deploy_effect) (use same deployed Deploy p in auto)
  next
    case (Rollback i c' now a ow rb)
    obtain res db' where p: "insertRollback i c' now a ow rb db = (res, db')"
      by fastforce
    from ok p show thesis
    proof (cases rule: rollback_effect)
      case (replayed d c db1 ap src latest)
      then show thesis
        using that(3) [of i c' now a ow rb db1 d c latest] Rollback p by auto
    qed (use same Rollback p in simp)
  next
    case (CutOver i now a ow cid h)
    obtain res db' where p: "cutover i now a ow cid h db = (res, db')"
      by fastforce
    from ok p show thesis
    proof (cases rule: cutover_effect)
      case (moved d c ap)
      then show thesis
        using that(4) [of i now a ow cid h d ap c] CutOver p by auto
    qed (use same CutOver p in simp)
  next
    case (ReportReleases rs h)
    then show thesis
      using reports_releases [of rs h db] kept by auto
  next
    case (StampActivation i at h)
    then show thesis
      using kept [OF stamping.release_update_axioms [of i h at]] by (simp add: stampActivation_def update_live_def)
  next
    case (FailRelease i m h)
    then show thesis
      using kept [OF failing.release_update_axioms [of i h m]] by (simp add: failDeployment_def update_live_def)
  qed (use same purged in \<open>simp_all add: releases_unchanged exports_leave_releases\<close>)
qed

lemma reports_leave_configs:
  "db_configs (applyReport rs h db) = db_configs db" "db_configs (applyExportReport es h db) = db_configs db"
proof -
  show "db_configs (applyReport rs h db) = db_configs db"
    unfolding applyReport_def by (induction rs arbitrary: db) (simp_all add: update_live_def)
  show "db_configs (applyExportReport es h db) = db_configs db"
    unfolding applyExportReport_def by (induction es arbitrary: db) simp_all
qed

lemma configs_grow: "\<exists>cs. db_configs (perform r db) = db_configs db @ cs"
proof (cases r)
  case (Deploy i now input)
  then show ?thesis
    by (auto simp: insertDeployment_def Let_def superseded_tables insert_deployment_row_def
        split: option.splits sum.splits if_splits)
next
  case (Rollback i c' now a ow rb)
  then show ?thesis
    by (auto simp: insertRollback_def Let_def superseded_tables insert_deployment_row_def
        split: option.splits sum.splits if_splits prod.splits)
next
  case (CutOver i now a ow cid h)
  then show ?thesis
    by (auto simp: cutover_def deployDestination_def Let_def superseded_tables insert_deployment_row_def
        split: option.splits sum.splits if_splits prod.splits)
next
  case (ReportReleases rs h)
  then show ?thesis
    by (simp add: reports_leave_configs)
next
  case (ReportExports rs h)
  then show ?thesis
    by (simp add: reports_leave_configs)
qed (auto simp: create_app_def update_app_def updateState_def setState_def failInFlight_def finishDeleting_def
      finishDeletingVolume_def stampDataInitialized_def reassign_def request_export_def request_migration_def
      start_migration_def complete_migration_def restore_def registerHost_def update_apps_def Let_def
      appendConfigVersion_def purge_def stampActivation_def failDeployment_def update_live_def
      split: option.splits sum.splits bool.splits prod.splits if_splits)

lemma config_kept:
  assumes ok: "db_ok db" and d: "newest_deployment db a = Some d" and grown: "db_configs db' = db_configs db @ cs"
    and d': "newest_deployment db' a = Some d'" and "dp_configId d' = dp_configId d"
  shows "deployed_storage db' a = deployed_storage db a"
proof -
  obtain c where "config_by_id db (dp_configId d) = Some c" "deployed_storage db a = Some (cf_storage c)"
    using deployed_storage_known [OF ok d] by metis
  then show ?thesis
    using assms by (simp add: deployed_storage_def config_by_id_def find_append)
qed

section \<open>Properties\<close>

text \<open>The newest release after a request, where nothing was purged.\<close>

lemma newest_after_kept:
  assumes "release_update f" and "db_deployments db' = map f (db_deployments db)"
  shows "newest_deployment db' a = map_option f (newest_deployment db a)"
  using release_update.newest_kept [OF assms(1)] assms(2) by (simp add: newest_deployment_def)

lemma newest_after_takeover:
  assumes "takes_over db ow d db'"
  shows "newest_deployment db' a =
    (if dp_appId d = a then Some d else map_option (stood_down (dp_appId d)) (newest_deployment db a))"
  using takes_over_releases(1) [OF assms] superseding.newest_kept [of a "dp_appId d" "db_deployments db"]
  by (simp add: newest_deployment_def newest_append)

lemma deploy_never_conflicts: "fst (insertDeployment i now input db) \<noteq> Inl (UniqueViolation x)"
proof (cases "owned_app db (cd_appId input) (cd_ownerId input)")
  case (Some a)
  have "insert_deployment_row d (supersedeLiveDeployment (cd_appId input) (cd_ownerId input) db) \<noteq> Inl e"
    if "dp_appId d = cd_appId input" for d e
    using insert_after_supersede [of db d "cd_ownerId input"] that Some by simp
  moreover have "lockAppForMutation db (cd_appId input) (cd_ownerId input) \<noteq> Inl (UniqueViolation x)"
    by (simp add: lockAppForMutation_def split: option.split)
  ultimately show ?thesis
    by (auto simp: insertDeployment_def Let_def split: option.splits sum.splits if_splits)
qed (simp add: insertDeployment_def Let_def)

text \<open>
  C2. One release of an app serves. In every state the control plane can be in, whatever requests were made
  and however they interleaved, a release that is not over is the newest one of its app, so an app has
  at most one; at most one of its exports is unfinished; and an app whose volume is being moved is
  neither being deleted nor deleted. No deployment made from such a state meets the index that refuses a
  second live release.
\<close>

theorem one_release_serves:
  assumes "reachable db"
  shows "(\<forall>d \<in> set (db_deployments db). live d \<longrightarrow> newest_deployment db (dp_appId d) = Some d) \<and>
    (\<forall>e \<in> set (db_exports db). \<forall>f \<in> set (db_exports db).
       export_in_flight e \<and> export_in_flight f \<and> ex_appId e = ex_appId f \<longrightarrow> e = f) \<and>
    (\<forall>a \<in> set (db_apps db). ap_migrationState a = Some MigrationPending \<longrightarrow>
       ap_state a = AppActive \<or> ap_state a = AppSuspended) \<and>
    created (fst (insertDeployment i now input db)) \<noteq> Inl AnotherDeployment"
proof -
  have ok: "db_ok db"
    by (rule reachable_ok [OF assms])
  have "created (fst (insertDeployment i now input db)) \<noteq> Inl AnotherDeployment"
    using deploy_never_conflicts [of i now input db]
    by (cases "fst (insertDeployment i now input db)") (auto simp: created_def conflict_of_def split: CreatedDeployment.splits)
  moreover have "\<forall>e \<in> set (db_exports db). \<forall>f \<in> set (db_exports db).
       export_in_flight e \<and> export_in_flight f \<and> ex_appId e = ex_appId f \<longrightarrow> e = f"
    using ok by (auto simp: db_ok_def keys_ok_def distinct_map inj_on_def)
  ultimately show ?thesis
    using ok live_is_newest [of "db_deployments db"]
    by (auto simp: db_ok_def migrations_ok_def list_all_iff pending_def newest_deployment_def)
qed

text \<open>
  C6. A volume stays on its host. While an app has releases, no request moves it to another host: a new
  release, a rollback and a cutover are all placed on the host of the release before, and reports change
  no placement. Only when the rows of a deleted app are purged is there no host left.
\<close>

theorem volume_stays_on_its_host:
  assumes "reachable db" and "control_step db r db'" and "app_host db a = Some h"
  shows "app_host db' a = Some h \<or>
    r = Some (PurgeRows a) \<and> (\<exists>ap \<in> set (db_apps db). ap_id ap = a \<and> ap_state ap = AppDeleted)"
  using assms(2)
proof cases
  case (request q)
  have ok: "db_ok db"
    by (rule reachable_ok [OF assms(1)])
  obtain n where n: "newest_deployment db a = Some n" "dp_hostId n = h"
    using assms(3) by (auto simp: app_host_def)
  from ok request(3) show ?thesis
  proof (cases rule: perform_releases)
    case (kept f)
    then show ?thesis
      using newest_after_kept [OF kept] release_update.same_release [OF kept(1)] n request(2) by (simp add: app_host_def)
  next
    case (deployed i now input d c ap)
    then show ?thesis
      using newest_after_takeover [OF deployed(2)] n request(2) superseding.same_release
      by (auto simp: app_host_def hostForDeployment_def)
  next
    case (replayed i c' now b ow rb d c db1 latest)
    moreover have "newest_deployment db1 = newest_deployment db"
      using replayed(9) by (auto intro!: reads_deployments)
    ultimately show ?thesis
      using newest_after_takeover [OF replayed(2)] n request(2) superseding.same_release
      by (auto simp: app_host_def)
  next
    case (moved i now b ow cid hh d c ap)
    then show ?thesis
      using newest_after_takeover [OF moved(2)] n request(2) superseding.same_release by (auto simp: app_host_def)
  next
    case (purged b)
    have "newest_deployment (purge b db) a = (if a = b then None else newest_deployment db a)"
      by (auto simp: newest_deployment_def purge_def newest_filter newest_filter_out)
    then show ?thesis
      using purged n request by (auto simp: app_host_def list_ex_iff)
  qed
next
  case other
  then show ?thesis
    using assms(3) reads_deployments(2) [of db' db] by (simp add: elsewhere_def)
qed

lemma storage_after_takeover:
  assumes ok: "db_ok db" and t: "takes_over db ow d db'" and c: "c \<in> set (db_configs db)" "cf_id c = dp_configId d"
  shows "deployed_storage db' a = (if dp_appId d = a then Some (cf_storage c) else deployed_storage db a)"
proof -
  have cb: "config_by_id db' = config_by_id db"
    by (rule reads_configs) (simp add: takes_over_releases(3) [OF t])
  have "config_by_id db (dp_configId d) = Some c"
    using ok c config_lookup [of "db_configs db" c] by (simp add: db_ok_def keys_ok_def config_by_id_def)
  then show ?thesis
    unfolding deployed_storage_def newest_after_takeover [OF t] cb
    by (cases "newest_deployment db a") (simp_all add: superseding.same_release)
qed

lemma storage_after_rollback:
  assumes ok: "db_ok db" and ok': "db_ok db'" and t: "takes_over db1 ow d db'" and c: "c \<in> set (db_configs db1)" "cf_id c = dp_configId d"
    and st: "deployed_storage db (dp_appId d) = Some (cf_storage c)"
    and db1: "db1 = db \<or> db1 = db\<lparr>db_configs := db_configs db @ [c]\<rparr>" and cs: "db_configs db' = db_configs db @ cs"
    and n: "newest_deployment db a = Some n"
  shows "deployed_storage db' a = deployed_storage db a"
proof (cases "dp_appId d = a")
  case True
  have "newest_deployment db' a = Some d"
    using newest_after_takeover [OF t, of a] True by simp
  moreover have "c \<in> set (db_configs db')"
    using takes_over_releases(3) [OF t] c(1) by simp
  ultimately have "deployed_storage db' a = Some (cf_storage c)"
    using ok' c(2) config_lookup [of "db_configs db'" c]
    by (simp add: db_ok_def keys_ok_def deployed_storage_def config_by_id_def)
  then show ?thesis
    using st True by simp
next
  case False
  have "newest_deployment db1 a = Some n"
    using n db1 by (auto simp: newest_deployment_def)
  then show ?thesis
    using newest_after_takeover [OF t, of a] False superseding.same_release
    by (intro config_kept [OF ok n cs, of "stood_down (dp_appId d) n"]) simp_all
qed

lemma storage_after_purge:
  "deployed_storage (purge b db) a = (if a = b then None else deployed_storage db a)"
proof -
  have nd: "newest_deployment (purge b db) a = (if a = b then None else newest_deployment db a)"
    by (auto simp: newest_deployment_def purge_def newest_filter newest_filter_out)
  have "config_by_id (purge b db) = config_by_id db"
    by (rule reads_configs) (simp add: purge_def)
  then show ?thesis
    by (simp add: deployed_storage_def nd cong: option.case_cong)
qed

text \<open>
  C7. A volume's storage moves only by a cutover. Where an app's volume is stored, which is what the
  configuration of its newest release says, is changed by one request only: the cutover of a
  migration that is pending and was started by the very host that asks for it, from the shared
  storage to one of the owner's. A redeploy, an edit of the configuration, a rollback to a release from
  before the migration, and giving a migration up all leave it where it is.
\<close>

theorem storage_moves_only_by_cutover:
  assumes "reachable db" and "control_step db r db'"
    and "deployed_storage db a = Some s" and "deployed_storage db' a = Some s'" and "s \<noteq> s'"
  shows "\<exists>i now ow cid h ap. r = Some (CutOver i now a ow cid h) \<and> owned_app db a ow = Some ap \<and>
    ap_migrationState ap = Some MigrationPending \<and> ap_migrationStartedAt ap \<noteq> None \<and>
    ap_migrationHostId ap = Some h \<and>
    volume_storage_endpoint s = None \<and> volume_storage_endpoint s' \<noteq> None"
  using assms(2)
proof cases
  case (request q)
  have ok: "db_ok db"
    by (rule reachable_ok [OF assms(1)])
  obtain n where n: "newest_deployment db a = Some n"
    using assms(3) by (auto simp: deployed_storage_def split: option.splits)
  from ok request(3) show ?thesis
  proof (cases rule: perform_releases)
    case (kept f)
    obtain cs where cs: "db_configs db' = db_configs db @ cs"
      using configs_grow request(2) by blast
    have "deployed_storage db' a = deployed_storage db a"
      using newest_after_kept [OF kept] release_update.same_release [OF kept(1)] n request(2)
      by (intro config_kept [OF ok n cs, of "f n"]) simp_all
    then show ?thesis
      using assms(3-5) by simp
  next
    case (deployed i now input d c ap)
    have ap: "ap \<in> set (db_apps db)" "ap_id ap = dp_appId d"
      using owned_app_Some [OF deployed(5)] by simp_all
    have "c \<in> set (db_configs db)"
      using newest_Some [of "\<lambda>c. cf_appId c = dp_appId d" "db_configs db" c] deployed(3) by (simp add: newest_config_def)
    then show ?thesis
      using storage_after_takeover [OF ok deployed(2), of c a] not_pending_aligned [OF ok ap(1) deployed(6), of s]
        deployed(3,4) ap(2) request(2) assms(3-5) by (auto split: if_splits)
  next
    case (replayed i c' now b ow rb d c db1 latest)
    obtain cs where "db_configs db' = db_configs db @ cs"
      using configs_grow request(2) by blast
    then have "deployed_storage db' a = deployed_storage db a"
      using storage_after_rollback [OF ok ok_step [OF ok assms(2)] _ replayed(4,5) _ replayed(9) _ n] replayed(2,3,6) request(2)
      by simp
    then show ?thesis
      using assms(3-5) by simp
  next
    case (moved i now b ow cid h d c ap)
    have "c \<in> set (db_configs db)"
      using newest_Some [of "\<lambda>c. cf_appId c = b" "db_configs db" c] moved(8) by (simp add: newest_config_def)
    then show ?thesis
      using storage_after_takeover [OF ok moved(2), of c a] moved request(1,2) assms(3-5)
      by (auto simp: pending_def split: if_splits)
  next
    case (purged b)
    then show ?thesis
      using storage_after_purge [of b db a] assms(3-5) request(2) by (simp split: if_splits)
  qed
next
  case other
  then show ?thesis
    using assms(3-5) reads_storage(1) [of db' db] by (simp add: elsewhere_def)
qed

text \<open>
  C3. What is written of a release is kept. Every release there was is still there after a request, with the
  app, the binary, the configuration, the host and the moment it was made with: one that was
  superseded or failed is the very same row, whatever a host goes on to report about it, and the moment
  one began to serve is written once. Only the purge of its app, when that is deleted, removes it.
\<close>

theorem releases_are_kept:
  assumes "reachable db" and "control_step db r db'" and "d \<in> set (db_deployments db)"
    and "r \<noteq> Some (PurgeRows (dp_appId d))"
  shows "\<exists>d' \<in> set (db_deployments db'). dp_id d' = dp_id d \<and> dp_appId d' = dp_appId d \<and>
    dp_artifactId d' = dp_artifactId d \<and> dp_configId d' = dp_configId d \<and> dp_hostId d' = dp_hostId d \<and>
    dp_createdAt d' = dp_createdAt d \<and> (terminal (dp_state d) \<longrightarrow> d' = d) \<and>
    (dp_activatedAt d \<noteq> None \<longrightarrow> dp_activatedAt d' = dp_activatedAt d)"
  using assms(2)
proof cases
  case (request q)
  have ok: "db_ok db"
    by (rule reachable_ok [OF assms(1)])
  have by_update: ?thesis if "release_update f" "f d \<in> set (db_deployments db')" for f
    using that(2) release_update.same_release [OF that(1), of d] release_update.over_is_kept [OF that(1), of d]
      release_update.stamped_once [OF that(1), of d]
    by (intro bexI [of _ "f d"]) (auto simp: live_def)
  from ok request(3) show ?thesis
  proof (cases rule: perform_releases)
    case (kept f)
    then show ?thesis
      using by_update [of f] assms(3) request(2) by simp
  next
    case (deployed i now input e c ap)
    then show ?thesis
      using by_update [OF superseding.release_update_axioms, of "dp_appId e"] takes_over_releases(1) [OF deployed(2)]
        assms(3) request(2) by simp
  next
    case (replayed i c' now b ow rb e c db1 latest)
    then have "db_deployments db1 = db_deployments db"
      by auto
    then show ?thesis
      using by_update [OF superseding.release_update_axioms, of "dp_appId e"] takes_over_releases(1) [OF replayed(2)]
        assms(3) request(2) by simp
  next
    case (moved i now b ow cid h e c ap)
    then show ?thesis
      using by_update [OF superseding.release_update_axioms, of "dp_appId e"] takes_over_releases(1) [OF moved(2)]
        assms(3) request(2) by simp
  next
    case (purged b)
    then show ?thesis
      using by_update [OF release_update_id] assms(3,4) request(1,2) by (simp add: purge_def)
  qed
next
  case other
  then show ?thesis
    using assms(3) by (auto simp: elsewhere_def)
qed

section \<open>The life of an app\<close>

definition id_state :: "AppRow \<Rightarrow> AppId \<times> AppState" where
  "id_state a = (ap_id a, ap_state a)"

lemma update_apps_states:
  "(\<And>a. id_state (change a) = id_state a) \<Longrightarrow>
    map id_state (db_apps (update_apps now p change db)) = map id_state (db_apps db)"
  by (simp add: update_apps_def) (simp add: id_state_def)

lemma append_apps: "appendConfigVersion c now a patch st db = Inr db' \<Longrightarrow> db_apps db' = db_apps db"
  by (erule append_effect) simp

lemma states_unchanged:
  "map id_state (db_apps (snd (update_app c now a ow name patch db))) = map id_state (db_apps db)"
  "map id_state (db_apps (stampDataInitialized now as h db)) = map id_state (db_apps db)"
  "map id_state (db_apps (reassign now x y db)) = map id_state (db_apps db)"
  "map id_state (db_apps (snd (request_migration c now a ow st db))) = map id_state (db_apps db)"
  "map id_state (db_apps (snd (start_migration now a ow c h db))) = map id_state (db_apps db)"
  "map id_state (db_apps (snd (complete_migration now a ow c h db))) = map id_state (db_apps db)"
  "map id_state (db_apps (snd (restore c now a ow cc ab mm u hh db))) = map id_state (db_apps db)"
proof -
  have up1: "db_apps db1 = db_apps db \<Longrightarrow> (\<And>a. id_state (change a) = id_state a) \<Longrightarrow>
      map id_state (db_apps (update_apps now p change db1)) = map id_state (db_apps db)" for db1 p change
    by (simp add: update_apps_states)
  show "map id_state (db_apps (snd (update_app c now a ow name patch db))) = map id_state (db_apps db)"
    unfolding update_app_def
    by (simp split: option.split sum.split bool.split) (auto intro!: up1 dest: append_apps simp: id_state_def)
  show "map id_state (db_apps (stampDataInitialized now as h db)) = map id_state (db_apps db)"
    "map id_state (db_apps (reassign now x y db)) = map id_state (db_apps db)"
    unfolding stampDataInitialized_def reassign_def by (simp_all add: update_apps_states id_state_def)
  show "map id_state (db_apps (snd (request_migration c now a ow st db))) = map id_state (db_apps db)"
    unfolding request_migration_def Let_def
    by (simp split: option.split sum.split prod.split) (auto intro!: up1 dest: append_apps simp: id_state_def)
  show "map id_state (db_apps (snd (start_migration now a ow c h db))) = map id_state (db_apps db)"
    "map id_state (db_apps (snd (complete_migration now a ow c h db))) = map id_state (db_apps db)"
    unfolding start_migration_def complete_migration_def
    by (simp_all add: update_apps_states id_state_def split: option.split prod.split)
  show "map id_state (db_apps (snd (restore c now a ow cc ab mm u hh db))) = map id_state (db_apps db)"
    unfolding restore_def
    by (simp split: option.split sum.split prod.split) (auto intro!: up1 dest: append_apps simp: id_state_def)
qed

lemma apps_untouched:
  "db_apps (failInFlight a m db) = db_apps db" "db_apps (purge a db) = db_apps db"
  "db_apps (snd (insertDeployment i now input db)) = db_apps db"
  "db_apps (snd (insertRollback i c now a ow rb db)) = db_apps db"
  "db_apps (snd (cutover i now a ow cid h db)) = db_apps db"
  "db_apps (applyReport rs h db) = db_apps db" "db_apps (stampActivation i at h db) = db_apps db"
  "db_apps (failDeployment i m h db) = db_apps db" "db_apps (snd (request_export e now a ow xt db)) = db_apps db"
  "db_apps (applyExportReport es h db) = db_apps db" "db_apps (snd (registerHost hi z db)) = db_apps db"
proof -
  show "db_apps (applyReport rs h db) = db_apps db"
    unfolding applyReport_def by (induction rs arbitrary: db) (simp_all add: update_live_def)
  show "db_apps (applyExportReport es h db) = db_apps db"
    unfolding applyExportReport_def by (induction es arbitrary: db) simp_all
  show "db_apps (snd (insertDeployment i now input db)) = db_apps db"
    "db_apps (snd (insertRollback i c now a ow rb db)) = db_apps db"
    "db_apps (snd (cutover i now a ow cid h db)) = db_apps db"
    by (auto simp: insertDeployment_def insertRollback_def cutover_def deployDestination_def Let_def superseded_tables
        insert_deployment_row_def split: option.splits sum.splits if_splits prod.splits)
qed (auto simp: failInFlight_def purge_def stampActivation_def failDeployment_def update_live_def request_export_def
    registerHost_def Let_def split: option.splits sum.splits if_splits)

lemma updateState_apps:
  "db_apps (snd (updateState now a ow s froms db)) = db_apps db \<or>
   db_apps (snd (updateState now a ow s froms db)) =
     map (\<lambda>r. if ap_id r = a \<and> ap_owner r = ow \<and> ap_state r \<in> set froms
       then r\<lparr>ap_state := s, ap_updatedAt := now\<rparr> else r) (db_apps db)"
  by (auto simp: updateState_def update_apps_def Let_def split: sum.splits bool.splits)

text \<open>Of an app that is in another state afterwards: something was written to the apps, and it was the one
  the write was about.\<close>

lemma state_written:
  assumes ok: "db_ok db" and a: "a \<in> set (db_apps db)" and a': "a' \<in> set apps'" "ap_id a' = ap_id a" "ap_state a' \<noteq> ap_state a"
  shows "map id_state apps' \<noteq> map id_state (db_apps db)"
proof
  assume "map id_state apps' = map id_state (db_apps db)"
  then have "id_state a' \<in> id_state ` set (db_apps db)"
    using a'(1) by (metis list.set_map imageI)
  then obtain b where b: "b \<in> set (db_apps db)" "ap_id b = ap_id a" "ap_state b = ap_state a'"
    using a'(2) by (auto simp: id_state_def)
  from app_unique [OF ok b(1) a b(2)] b(3) a'(3) show False
    by simp
qed

lemma state_write_of:
  assumes ok: "db_ok db" and a: "a \<in> set (db_apps db)" and a': "a' \<in> set apps'" "ap_id a' = ap_id a" "ap_state a' \<noteq> ap_state a"
    and m: "apps' = map (\<lambda>b. if p b then b\<lparr>ap_state := s, ap_updatedAt := now\<rparr> else b) (db_apps db)"
  shows "ap_state a' = s \<and> p a"
proof -
  obtain b where b: "b \<in> set (db_apps db)" "a' = (if p b then b\<lparr>ap_state := s, ap_updatedAt := now\<rparr> else b)"
    using a'(1) unfolding m by auto
  then have "b = a"
    using app_unique [OF ok b(1) a] a'(2) by (simp split: if_splits)
  then show ?thesis
    using b(2) a'(3) by (simp split: if_splits)
qed

lemma moveApp_apps:
  "db_apps (snd (setState now b ow s db)) = db_apps (snd (updateState now b ow (owned_state s) OWNED_APP_STATES db))"
  by (auto simp: setState_def split: prod.splits sum.splits bool.splits)

lemma finishable_has_no_host: "deletion_finishable db b \<Longrightarrow> app_host db b = None"
  by (simp add: app_host_def newest_deployment_def newest_None deletion_finishable_def alreadyDeployed_def list_ex_iff)

lemma app_state_moves:
  assumes "reachable db" and "control_step db r db'"
    and "a \<in> set (db_apps db)" and "a' \<in> set (db_apps db')" and "ap_id a' = ap_id a" and "ap_state a' \<noteq> ap_state a"
  shows "(\<exists>now s. r = Some (MoveApp now (ap_id a) (ap_owner a) s) \<and>
      (ap_state a = AppActive \<or> ap_state a = AppSuspended) \<and> ap_state a' = owned_state s) \<or>
    (\<exists>now. r = Some (AskDeletion now (ap_id a) (ap_owner a)) \<and> ap_state a \<noteq> AppDeleted \<and> ap_state a' = AppDeleting) \<or>
    ap_state a = AppDeleting \<and> ap_state a' = AppDeleted \<and>
      ((\<exists>now h. r = Some (VolumeGone now (ap_id a) h) \<and> app_host db (ap_id a) = Some h) \<or>
       (\<exists>now. r = Some (FinishDeletion now (ap_id a)) \<and> app_host db (ap_id a) = None))"
  using assms(2)
proof cases
  case (request q)
  have ok: "db_ok db"
    by (rule reachable_ok [OF assms(1)])
  note same = state_written [OF ok assms(3-6)] and changed = state_write_of [OF ok assms(3-6)]
  show ?thesis
  proof (cases q)
    case (CreateApp i c now input)
    have "a' = new_app_row i now input \<or> a' \<in> set (db_apps db)"
      using assms(4) request(2) CreateApp
      by (auto simp: create_app_def Let_def split: sum.splits bool.splits option.splits if_splits)
    moreover have "ap_id a' \<noteq> i"
      using assms(3,5) request(3) CreateApp by auto
    ultimately show ?thesis
      using app_unique [OF ok assms(3), of a'] assms(5,6) by (auto simp: new_app_row_def)
  next
    case (MoveApp now b ow s)
    then have "db_apps db' = map (\<lambda>r. if ap_id r = b \<and> ap_owner r = ow \<and> ap_state r \<in> set OWNED_APP_STATES
        then r\<lparr>ap_state := owned_state s, ap_updatedAt := now\<rparr> else r) (db_apps db)"
      using updateState_apps [of now b ow "owned_state s" OWNED_APP_STATES db] same request(2)
      by (metis moveApp_apps perform.simps(3))
    from changed [OF this] show ?thesis
      using request(1) MoveApp by (simp add: OWNED_APP_STATES_def)
  next
    case (AskDeletion now b ow)
    then have "db_apps db' = map (\<lambda>r. if ap_id r = b \<and> ap_owner r = ow \<and> ap_state r \<in> set LIVE_APP_STATES
        then r\<lparr>ap_state := AppDeleting, ap_updatedAt := now\<rparr> else r) (db_apps db)"
      using updateState_apps [of now b ow AppDeleting LIVE_APP_STATES db] same request(2) by (metis perform.simps(4))
    from changed [OF this] show ?thesis
      using request(1) AskDeletion by (auto simp: LIVE_APP_STATES_def)
  next
    case (FinishDeletion now b)
    then show ?thesis
      using changed [where p = "\<lambda>a. ap_id a = b \<and> ap_state a = AppDeleting \<and> deletion_finishable db b" and s = AppDeleted and now = now]
        request(1,2) finishable_has_no_host by (simp add: finishDeleting_def update_apps_def)
  next
    case (VolumeGone now b h)
    then show ?thesis
      using changed [where p = "\<lambda>a. ap_id a = b \<and> ap_state a = AppDeleting \<and> app_host db b = Some h" and s = AppDeleted and now = now]
        request(1,2) by (simp add: finishDeletingVolume_def update_apps_def)
  qed (use same request(2) in \<open>simp_all add: states_unchanged apps_untouched\<close>)
next
  case other
  then show ?thesis
    using app_unique [OF reachable_ok [OF assms(1)] assms(3), of a'] assms(4-6) by (simp add: elsewhere_def)
qed

text \<open>
  C4. An app lives the way its owner and its host say. The state of an app changes only when its owner
  suspends or resumes it, which is refused once it is being deleted; when its owner asks for its
  deletion; and from being deleted to deleted, when the host it is on says its volume is gone or when it
  never had a release and so no host has a volume of it. Nothing brings a deleted app back.
\<close>

theorem app_life:
  assumes "reachable db" and "control_step db r db'"
    and "a \<in> set (db_apps db)" and "a' \<in> set (db_apps db')" and "ap_id a' = ap_id a" and "ap_state a' \<noteq> ap_state a"
  shows "(\<exists>now s. r = Some (MoveApp now (ap_id a) (ap_owner a) s) \<and>
      (ap_state a = AppActive \<or> ap_state a = AppSuspended) \<and> ap_state a' = owned_state s) \<or>
    (\<exists>now. r = Some (AskDeletion now (ap_id a) (ap_owner a)) \<and> ap_state a \<noteq> AppDeleted \<and> ap_state a' = AppDeleting) \<or>
    ap_state a = AppDeleting \<and> ap_state a' = AppDeleted \<and>
      ((\<exists>now h. r = Some (VolumeGone now (ap_id a) h) \<and> app_host db (ap_id a) = Some h) \<or>
       (\<exists>now. r = Some (FinishDeletion now (ap_id a)) \<and> app_host db (ap_id a) = None))"
  by (rule app_state_moves [OF assms])

section \<open>A run\<close>

text \<open>Requests made one after the other, each admissible when it is made.\<close>

fun run :: "request list \<Rightarrow> Database \<Rightarrow> Database option" where
  "run [] db = Some db"
| "run (r # rs) db = (if admissible r db then run rs (perform r db) else None)"

lemma run_reachable: "reachable db \<Longrightarrow> run rs db = Some db' \<Longrightarrow> reachable db'"
  by (induction rs arbitrary: db) (auto split: if_splits intro: further request)

definition example_created :: "Database option" where
  "example_created =
     run [CreateApp ''app'' ''cfg'' 0 \<lparr>na_ownerId = ''me'', na_name = ''Blog'', na_slug = ''blog-x1'',
            na_hostname = ''blog-x1.example.com'', na_config = configWithDefaults \<lparr>nc_httpPort = None,
            nc_hasExtraPublicPort = None, nc_args = None, nc_environment = None\<rparr>, na_environment = [],
            na_anonymousAppsAtMost = None\<rparr>]
       (empty_database [\<lparr>pf_owner = ''me'', pf_quotaApps = 3, pf_appLifetimeSeconds = None\<rparr>])"

text \<open>A binary was uploaded and a host has reported itself ready.\<close>

definition example_ready :: Database where
  "example_ready = (the example_created)
     \<lparr>db_hosts := [\<lparr>hs_id = ''h1'', hs_originId = ''i-0a'', hs_reportedState = HostReady, hs_lastSeenAt = Some 1000\<rparr>],
      db_artifacts := [\<lparr>ar_id = ''bin'', ar_appId = ''app'', ar_digest = Some ''0f'', ar_sizeBytes = 10,
        ar_objectKey = Some ''0f'', ar_filename = ''blog'', ar_sourceDigest = None, ar_createdAt = 0\<rparr>]\<rparr>"

definition example_storage :: StoredVolumeStorage where
  "example_storage = no_storage\<lparr>volume_storage_endpoint := Some ''https://s3.example.com'',
     volume_storage_bucket := Some ''mine'', volume_storage_prefix := Some ''apps/app/''\<rparr>"

definition example_deploy :: request where
  "example_deploy = Deploy ''d1'' 2000 (plain_deployment ''app'' ''me'' ''bin'')"

definition example_cutover :: request where
  "example_cutover = CutOver ''d2'' 5000 ''app'' ''me'' ''cfg2'' ''h1''"

definition example_deployed :: Database where
  "example_deployed = the (run [example_deploy] example_ready)"

definition example_moving :: Database where
  "example_moving = the (run [example_deploy, RequestMigration ''cfg2'' 3000 ''app'' ''me'' example_storage,
     StartMigration 4000 ''app'' ''me'' ''cfg2'' ''h1''] example_ready)"

lemma example_runs:
  "example_created \<noteq> None" "run [example_deploy] example_ready \<noteq> None"
  "run [example_deploy, RequestMigration ''cfg2'' 3000 ''app'' ''me'' example_storage,
     StartMigration 4000 ''app'' ''me'' ''cfg2'' ''h1''] example_ready \<noteq> None"
  by code_simp+

lemma example_ready_reachable: "reachable example_ready"
proof -
  have "reachable (the example_created)"
    using example_runs(1) run_reachable [OF initial] unfolding example_created_def by fastforce
  then show ?thesis
    by (rule further [OF _ other]) (simp add: elsewhere_def example_ready_def)
qed

lemma example_reachable: "reachable example_deployed" "reachable example_moving"
  unfolding example_deployed_def example_moving_def
  using example_runs(2,3) run_reachable [OF example_ready_reachable] by fastforce+

theorem one_release_serves_witness:
  "reachable example_deployed \<and> length (db_deployments example_deployed) = 1 \<and>
   list_all live (db_deployments example_deployed) \<and>
   list_all (\<lambda>d. newest_deployment example_deployed (dp_appId d) = Some d) (db_deployments example_deployed)"
proof -
  have "length (db_deployments example_deployed) = 1 \<and> list_all live (db_deployments example_deployed)"
    by code_simp
  then show ?thesis
    using one_release_serves [OF example_reachable(1)] example_reachable(1) by (auto simp: list_all_iff)
qed

theorem volume_stays_on_its_host_witness:
  "app_host example_moving ''app'' = Some ''h1'' \<and> app_host (perform example_cutover example_moving) ''app'' = Some ''h1''"
proof -
  have h: "app_host example_moving ''app'' = Some ''h1''"
    by code_simp
  have "admissible example_cutover example_moving"
    by code_simp
  then have "control_step example_moving (Some example_cutover) (perform example_cutover example_moving)"
    by (rule request)
  then show ?thesis
    using volume_stays_on_its_host [OF example_reachable(2) _ h] h by (auto simp: example_cutover_def)
qed

theorem storage_moves_only_by_cutover_witness:
  "\<exists>ap. owned_app example_moving ''app'' ''me'' = Some ap \<and> ap_migrationState ap = Some MigrationPending \<and>
     ap_migrationHostId ap = Some ''h1'' \<and>
     deployed_storage example_moving ''app'' = Some no_storage \<and>
     deployed_storage (perform example_cutover example_moving) ''app'' = Some example_storage"
proof -
  have s: "deployed_storage example_moving ''app'' = Some no_storage"
    "deployed_storage (perform example_cutover example_moving) ''app'' = Some example_storage"
    "no_storage \<noteq> example_storage"
    by code_simp+
  have "admissible example_cutover example_moving"
    by code_simp
  then have "control_step example_moving (Some example_cutover) (perform example_cutover example_moving)"
    by (rule request)
  then show ?thesis
    using storage_moves_only_by_cutover [OF example_reachable(2) _ s] s by (auto simp: example_cutover_def)
qed

theorem releases_are_kept_witness:
  "\<exists>d' \<in> set (db_deployments (perform example_cutover example_moving)).
     dp_id d' = ''d1'' \<and> dp_hostId d' = ''h1'' \<and> dp_configId d' = ''cfg''"
proof -
  have d: "hd (db_deployments example_moving) \<in> set (db_deployments example_moving)"
    "dp_id (hd (db_deployments example_moving)) = ''d1''" "dp_hostId (hd (db_deployments example_moving)) = ''h1''"
    "dp_configId (hd (db_deployments example_moving)) = ''cfg''"
    by code_simp+
  have "admissible example_cutover example_moving"
    by code_simp
  then have "control_step example_moving (Some example_cutover) (perform example_cutover example_moving)"
    by (rule request)
  from releases_are_kept [OF example_reachable(2) this d(1)] show ?thesis
    using d(2-4) by (simp add: example_cutover_def) blast
qed

text \<open>The app of the example, suspended; and the app asked to be deleted, whose host then reports its volume
  gone.\<close>

definition example_suspended :: Database where
  "example_suspended = perform (MoveApp 9 ''app'' ''me'' OwnedSuspended) example_deployed"

definition example_asked :: Database where
  "example_asked = perform (AskDeletion 9 ''app'' ''me'') example_deployed"

definition example_gone :: Database where
  "example_gone = perform (VolumeGone 10 ''app'' ''h1'') example_asked"

lemma example_life_steps:
  "control_step example_deployed (Some (MoveApp 9 ''app'' ''me'' OwnedSuspended)) example_suspended"
  "control_step example_asked (Some (VolumeGone 10 ''app'' ''h1'')) example_gone"
  "reachable example_asked"
proof -
  show "control_step example_deployed (Some (MoveApp 9 ''app'' ''me'' OwnedSuspended)) example_suspended"
    unfolding example_suspended_def by (rule request) simp
  have "control_step example_deployed (Some (AskDeletion 9 ''app'' ''me'')) example_asked"
    unfolding example_asked_def by (rule request) simp
  then show "reachable example_asked" by (rule further [OF example_reachable(1)])
  have "admissible (VolumeGone 10 ''app'' ''h1'') example_asked" by code_simp
  then show "control_step example_asked (Some (VolumeGone 10 ''app'' ''h1'')) example_gone"
    unfolding example_gone_def by (rule request)
qed

theorem app_life_witness:
  "ap_state (hd (db_apps example_deployed)) = AppActive \<and> ap_state (hd (db_apps example_suspended)) = AppSuspended \<and>
   ap_state (hd (db_apps example_asked)) = AppDeleting \<and> ap_state (hd (db_apps example_gone)) = AppDeleted \<and>
   app_host example_asked ''app'' = Some ''h1''"
proof -
  let ?a = "hd (db_apps example_deployed)" and ?b = "hd (db_apps example_suspended)"
  let ?c = "hd (db_apps example_asked)" and ?d = "hd (db_apps example_gone)"
  have m: "?a \<in> set (db_apps example_deployed)" "?b \<in> set (db_apps example_suspended)"
    "ap_id ?b = ap_id ?a" "ap_state ?b \<noteq> ap_state ?a"
    by code_simp+
  have "(ap_state ?a = AppActive \<or> ap_state ?a = AppSuspended) \<and> ap_state ?b = AppSuspended"
    using app_life [OF example_reachable(1) example_life_steps(1) m] by (auto simp: owned_state_def)
  moreover have n: "?c \<in> set (db_apps example_asked)" "?d \<in> set (db_apps example_gone)"
    "ap_id ?d = ap_id ?c" "ap_state ?d \<noteq> ap_state ?c" and i: "ap_id ?c = ''app''"
    by code_simp+
  have "ap_state ?c = AppDeleting \<and> ap_state ?d = AppDeleted \<and> app_host example_asked ''app'' = Some ''h1''"
    using app_life [OF example_life_steps(3,2) n] i by auto
  ultimately show ?thesis using m(4) by auto
qed

end
