(* ===== verification/Desired_State.thy ===== *)
theory Desired_State
  imports Control_Plane
begin

text \<open>
  What a host is told to do: the views \<open>desired_deployments\<close>, \<open>desired_volumes\<close>, \<open>desired_hostnames\<close>,
  \<open>desired_environment\<close> and \<open>desired_exports\<close> as \<open>selectDesiredState\<close> of
  \<open>apps/api/src/repositories/agent.repository.ts\<close> reads them, and the messages
  \<open>lib/deployments/desired-state.ts\<close>, \<open>lib/exports/desired-state.ts\<close> and \<open>lib/volume-storage.ts\<close> make of
  them. The transaction is one snapshot of the database.
\<close>

section \<open>The views\<close>

record DesiredDeploymentRow =
  dd_release :: DeploymentRow
  dd_app :: AppRow
  dd_artifact :: ArtifactRow
  dd_config :: ConfigRow

definition app_by_id :: "Database \<Rightarrow> AppId \<Rightarrow> AppRow option" where
  "app_by_id db appId = find (\<lambda>a. ap_id a = appId) (db_apps db)"

definition standing :: "Database \<Rightarrow> AppId \<Rightarrow> DeploymentRow option" where
  "standing db appId =
     newest (\<lambda>d. dp_appId d = appId \<and> dp_state d \<noteq> DeploymentSuperseded) (db_deployments db)"

definition desired_deployment_of :: "Database \<Rightarrow> DeploymentRow \<Rightarrow> DesiredDeploymentRow option" where
  "desired_deployment_of db d =
     (case app_by_id db (dp_appId d) of None \<Rightarrow> None
      | Some a \<Rightarrow> (case find (\<lambda>r. ar_id r = dp_artifactId d) (db_artifacts db) of None \<Rightarrow> None
      | Some ar \<Rightarrow> (case config_by_id db (dp_configId d) of None \<Rightarrow> None
      | Some c \<Rightarrow>
          if dp_state d \<noteq> DeploymentSuperseded \<and> (ap_state a = AppActive \<or> ap_state a = AppSuspended) \<and>
             standing db (dp_appId d) = Some d
          then Some \<lparr>dd_release = d, dd_app = a, dd_artifact = ar, dd_config = c\<rparr> else None)))"

definition desired_deployments :: "Database \<Rightarrow> DesiredDeploymentRow list" where
  "desired_deployments db = List.map_filter (desired_deployment_of db) (db_deployments db)"

definition on_host :: "Database \<Rightarrow> HostId \<Rightarrow> AppId \<Rightarrow> bool" where
  "on_host db hostId appId = (app_host db appId = Some hostId)"

definition latest_on_host :: "Database \<Rightarrow> HostId \<Rightarrow> DeploymentId \<Rightarrow> bool" where
  "latest_on_host db hostId deploymentId =
     list_ex (\<lambda>d. dp_id d = deploymentId \<and> newest_deployment db (dp_appId d) = Some d \<and> dp_hostId d = hostId)
       (db_deployments db)"

record DesiredVolumeRow =
  dw_appId :: AppId
  dw_state :: AppState
  dw_seed :: "ImportRow option"
  dw_storage :: "StoredVolumeStorage option"

definition usable_import :: "Database \<Rightarrow> DeploymentRow \<Rightarrow> ImportRow option" where
  "usable_import db d =
     (case dp_initialData d of None \<Rightarrow> None
      | Some i \<Rightarrow> find (\<lambda>r. ar_id r = i \<and> ar_digest r \<noteq> None \<and> ar_objectKey r \<noteq> None) (db_imports db))"

definition desired_volumes :: "Database \<Rightarrow> DesiredVolumeRow list" where
  "desired_volumes db =
     List.map_filter (\<lambda>a.
       if ap_state a \<noteq> AppDeleted \<and> alreadyDeployed db (ap_id a)
       then Some \<lparr>dw_appId = ap_id a, dw_state = ap_state a,
         dw_seed = (if ap_dataInitializedAt a \<noteq> None then None
           else case newest (\<lambda>d. dp_appId d = ap_id a \<and> dp_state d \<noteq> DeploymentSuperseded \<and> usable_import db d \<noteq> None)
                  (db_deployments db) of
             None \<Rightarrow> None | Some d \<Rightarrow> usable_import db d),
         dw_storage = deployed_storage db (ap_id a)\<rparr>
       else None) (db_apps db)"

definition desired_hostnames :: "Database \<Rightarrow> (AppId \<times> AppHostname) list" where
  "desired_hostnames db =
     concat (map (\<lambda>h. map (\<lambda>_. (hm_appId h, \<lparr>hn_hostname = hm_hostname h, hn_kind = hm_kind h\<rparr>))
         (filter (\<lambda>r. ap_id (dd_app r) = hm_appId h) (desired_deployments db)))
       (filter (\<lambda>h. hm_state h = HostnameActive) (db_hostnames db)))"

text \<open>Rows of \<open>desired_environment\<close> and \<open>desired_export_environment\<close>: whose, the name, and the sealed value.\<close>

definition desired_environment :: "Database \<Rightarrow> (DeploymentId \<times> string \<times> SealedSecret) list" where
  "desired_environment db =
     concat (map (\<lambda>r. map (\<lambda>(name, v). (dp_id (dd_release r), name, v)) (cf_environment (dd_config r)))
       (desired_deployments db))"

record DesiredExportRow =
  dx_export :: ExportRow
  dx_artifact :: ArtifactRow

definition desired_exports :: "int \<Rightarrow> Database \<Rightarrow> DesiredExportRow list" where
  "desired_exports now db =
     List.map_filter (\<lambda>e.
       case (app_by_id db (ex_appId e), find (\<lambda>r. ar_id r = ex_artifactId e) (db_artifacts db)) of
         (Some a, Some ar) \<Rightarrow>
           if now < ex_expiresAt e \<and> ap_state a \<noteq> AppDeleted then Some \<lparr>dx_export = e, dx_artifact = ar\<rparr> else None
       | _ \<Rightarrow> None) (db_exports db)"

definition desired_export_environment :: "int \<Rightarrow> Database \<Rightarrow> (ExportId \<times> string \<times> SealedSecret) list" where
  "desired_export_environment now db =
     concat (map (\<lambda>r. case ex_configId (dx_export r) of None \<Rightarrow> []
         | Some configId \<Rightarrow>
             (case config_by_id db configId of None \<Rightarrow> []
              | Some c \<Rightarrow> map (\<lambda>(name, v). (ex_id (dx_export r), name, v)) (cf_environment c)))
       (desired_exports now db))"

section \<open>The messages\<close>

datatype desired_error = EnvironmentUnreadable secret_error | StorageUnreadable

definition volumeIdOf :: "AppId \<Rightarrow> VolumeId" where "volumeIdOf appId = appId"

definition secret_ok :: "string \<Rightarrow> bool" where
  "secret_ok s = (1 \<le> text_length s \<and> text_length s \<le> MAX_SECRET_LENGTH)"

text \<open>What \<open>\\s\<close> matches of the ASCII characters.\<close>

definition js_space :: "char \<Rightarrow> bool" where
  "js_space c = (let n = of_char c :: nat in n = 32 \<or> 9 \<le> n \<and> n \<le> 13)"

definition endpoint_ok :: "string \<Rightarrow> bool" where
  "endpoint_ok s = (prefix ''https://'' s \<and> length s > 8 \<and> \<not> list_ex js_space (drop 8 s))"

definition bucket_char :: "char \<Rightarrow> bool" where
  "bucket_char c = (let n = of_char c :: nat in 97 \<le> n \<and> n \<le> 122 \<or> 48 \<le> n \<and> n \<le> 57)"

definition bucket_ok :: "string \<Rightarrow> bool" where
  "bucket_ok s = (3 \<le> length s \<and> length s \<le> 63 \<and> bucket_char (hd s) \<and> bucket_char (last s) \<and>
     list_all (\<lambda>c. bucket_char c \<or> c = CHR ''.'' \<or> c = CHR ''-'') s)"

definition S3VolumeStorageSchema :: "S3VolumeStorage \<Rightarrow> bool" where
  "S3VolumeStorageSchema s =
     (endpoint_ok (s3_endpoint s) \<and> bucket_ok (s3_bucket s) \<and>
      ObjectKeySchema (s3_prefix s) \<and>
      (case s3_region s of None \<Rightarrow> True | Some r \<Rightarrow> 1 \<le> text_length r) \<and>
      (case s3_auth s of
         AccessKeyAuth k v \<Rightarrow> secret_ok k \<and> secret_ok v
       | SessionAuth k v t \<Rightarrow> secret_ok k \<and> secret_ok v \<and> secret_ok t
       | AnonymousAuth \<Rightarrow> True) \<and>
      secret_ok (s3_encryptionPassword s))"

text \<open>The union of the schema: each kind of access has its own columns and no others.\<close>

definition auth_of :: "string option \<Rightarrow> string option \<Rightarrow> string option \<Rightarrow> string option \<Rightarrow> S3VolumeAuth option" where
  "auth_of kind accessKeyId secretAccessKey sessionToken =
     (case (accessKeyId, secretAccessKey, sessionToken) of
        (Some k, Some v, None) \<Rightarrow> if kind = Some ''access-key'' then Some (AccessKeyAuth k v) else None
      | (Some k, Some v, Some t) \<Rightarrow> if kind = Some ''session'' then Some (SessionAuth k v t) else None
      | (None, None, None) \<Rightarrow> if kind = Some ''anonymous'' then Some AnonymousAuth else None
      | _ \<Rightarrow> None)"

definition open_column :: "'key unseal_with \<Rightarrow> 'key \<Rightarrow> SealedSecret option \<Rightarrow> (secret_error, string option) result" where
  "open_column unseal key column =
     (case column of None \<Rightarrow> Inr None | Some sealed \<Rightarrow> map_sum id Some (openSecret unseal key sealed))"

definition toVolumeStorage ::
  "'key unseal_with \<Rightarrow> 'key \<Rightarrow> StoredVolumeStorage \<Rightarrow> (desired_error, S3VolumeStorage option) result" where
  "toVolumeStorage unseal key row =
     (case volume_storage_endpoint row of
        None \<Rightarrow> Inr None
      | Some endpoint \<Rightarrow>
          (case (open_column unseal key (volume_storage_secret_access_key row),
                 open_column unseal key (volume_storage_session_token row),
                 open_column unseal key (volume_storage_encryption_password row)) of
             (Inr secretAccessKey, Inr sessionToken, Inr (Some password)) \<Rightarrow>
               (case (volume_storage_bucket row, volume_storage_prefix row,
                      auth_of (volume_storage_auth_kind row) (volume_storage_access_key_id row)
                        secretAccessKey sessionToken) of
                  (Some bucket, Some px, Some auth) \<Rightarrow>
                    (let storage = \<lparr>s3_endpoint = endpoint, s3_bucket = bucket, s3_prefix = px,
                           s3_region = volume_storage_region row, s3_auth = auth, s3_encryptionPassword = password\<rparr> in
                     if S3VolumeStorageSchema storage then Inr (Some storage) else Inl StorageUnreadable)
                | _ \<Rightarrow> Inl StorageUnreadable)
           | _ \<Rightarrow> Inl StorageUnreadable))"

definition seedOf :: "ImportRow option \<Rightarrow> DesiredArtifact option" where
  "seedOf seed =
     (case seed of None \<Rightarrow> None
      | Some r \<Rightarrow>
          (case (ar_digest r, ar_objectKey r) of
             (Some digest, Some key) \<Rightarrow>
               Some \<lparr>art_digest = digest, art_sizeBytes = ar_sizeBytes r, art_objectKey = key, art_filename = ar_filename r\<rparr>
           | _ \<Rightarrow> None))"

definition toDesiredVolume ::
  "'key unseal_with \<Rightarrow> 'key \<Rightarrow> DesiredVolumeRow \<Rightarrow> (desired_error, DesiredVolume) result" where
  "toDesiredVolume unseal key row =
     bind_result (case dw_storage row of None \<Rightarrow> Inr None | Some columns \<Rightarrow> toVolumeStorage unseal key columns)
       (\<lambda>storage. Inr \<lparr>dv_volumeId = volumeIdOf (dw_appId row), dv_appId = dw_appId row,
          dv_sizeBytes = DEFAULT_VOLUME_SIZE_BYTES,
          dv_desiredState = (if dw_state row = AppDeleting then Absent else Present),
          dv_seed = seedOf (dw_seed row), dv_storage = storage\<rparr>)"

definition desiredInstanceState :: "DesiredDeploymentRow \<Rightarrow> DesiredInstanceState" where
  "desiredInstanceState row =
     (if dp_state (dd_release row) = DeploymentFailed \<or> ap_state (dd_app row) \<noteq> AppActive then DesiredStopped
      else if ap_activation (dd_app row) = OnRequestActivation then DesiredOnRequest else DesiredRunning)"

definition hostnamesByApp :: "(AppId \<times> AppHostname) list \<Rightarrow> (AppId, AppHostname list) jsmap" where
  "hostnamesByApp rows =
     fold (\<lambda>(appId, hostname) byApp.
       js_set appId ((case js_get byApp appId of None \<Rightarrow> [] | Some hs \<Rightarrow> hs) @ [hostname]) byApp) rows []"

definition environmentBy :: "(string \<times> string \<times> SealedSecret) list \<Rightarrow> (string, SealedEnvironment) jsmap" where
  "environmentBy rows = sealedEnvironmentBy fst (\<lambda>r. fst (snd r)) (\<lambda>r. snd (snd r)) rows"

definition or_empty :: "(string, SealedEnvironment) jsmap \<Rightarrow> string \<Rightarrow> SealedEnvironment" where
  "or_empty environments i = (case js_get environments i of None \<Rightarrow> [] | Some e \<Rightarrow> e)"

definition artifact_message :: "ArtifactRow \<Rightarrow> DesiredArtifact" where
  "artifact_message r =
     \<lparr>art_digest = (case ar_digest r of None \<Rightarrow> [] | Some d \<Rightarrow> d), art_sizeBytes = ar_sizeBytes r,
      art_objectKey = (case ar_objectKey r of None \<Rightarrow> [] | Some k \<Rightarrow> k), art_filename = ar_filename r\<rparr>"

definition toDesiredConfig ::
  "'key unseal_with \<Rightarrow> 'key \<Rightarrow> RunConfigColumns \<Rightarrow> SealedEnvironment \<Rightarrow> (desired_error, AppConfig) result" where
  "toDesiredConfig unseal key row sealed =
     (case openEnvironment unseal key sealed of
        Inl e \<Rightarrow> Inl (EnvironmentUnreadable e)
      | Inr environment \<Rightarrow> Inr ((toRunConfig row)\<lparr>cfg_environment := environment\<rparr>))"

definition toDesiredInstance ::
  "'key unseal_with \<Rightarrow> 'key \<Rightarrow> (AppId, AppHostname list) jsmap \<Rightarrow> (string, SealedEnvironment) jsmap \<Rightarrow>
     DesiredDeploymentRow \<Rightarrow> (desired_error, DesiredInstance) result" where
  "toDesiredInstance unseal key hostnames environments row =
     (let appId = dp_appId (dd_release row); desiredState = desiredInstanceState row in
      bind_result (toDesiredConfig unseal key (cf_run (dd_config row)) (or_empty environments (dp_id (dd_release row))))
        (\<lambda>config. Inr \<lparr>di_appId = appId, di_deploymentId = dp_id (dd_release row), di_volumeId = volumeIdOf appId,
           di_desiredState = desiredState,
           di_idleTimeoutMs = (if desiredState = DesiredOnRequest then Some (ap_idleTimeoutMs (dd_app row)) else None),
           di_artifact = artifact_message (dd_artifact row), di_config = config,
           di_hostnames = (case js_get hostnames appId of None \<Rightarrow> [] | Some hs \<Rightarrow> hs)\<rparr>))"

definition bundleEnvironment ::
  "'key unseal_with \<Rightarrow> 'key \<Rightarrow> (string, SealedEnvironment) jsmap \<Rightarrow> ExportRow \<Rightarrow> (string, string) jsmap option" where
  "bundleEnvironment unseal key environments row =
     (if ex_configId row = None then None
      else case openEnvironment unseal key (or_empty environments (ex_id row)) of
        Inl _ \<Rightarrow> None | Inr environment \<Rightarrow> Some environment)"

definition toDesiredExport ::
  "'key unseal_with \<Rightarrow> 'key \<Rightarrow> (string, SealedEnvironment) jsmap \<Rightarrow> DesiredExportRow \<Rightarrow> DesiredExport" where
  "toDesiredExport unseal key environments row =
     (let e = dx_export row; desiredState = (if export_in_flight e then Present else Absent) in
      \<lparr>de_exportId = ex_id e, de_appId = ex_appId e, de_volumeId = volumeIdOf (ex_appId e),
       de_objectKey = export_key e, de_artifact = artifact_message (dx_artifact row),
       de_environment = (if desiredState = Present then bundleEnvironment unseal key environments e else None),
       de_desiredState = desiredState\<rparr>)"

fun map_result :: "('a \<Rightarrow> ('e, 'b) result) \<Rightarrow> 'a list \<Rightarrow> ('e, 'b list) result" where
  "map_result f [] = Inr []"
| "map_result f (x # xs) = bind_result (f x) (\<lambda>y. bind_result (map_result f xs) (\<lambda>ys. Inr (y # ys)))"

definition selectDesiredState ::
  "'key unseal_with \<Rightarrow> 'key \<Rightarrow> int \<Rightarrow> HostId \<Rightarrow> Database \<Rightarrow> (desired_error, HostDesiredState) result" where
  "selectDesiredState unseal key now hostId db =
     (let deployments = filter (\<lambda>r. latest_on_host db hostId (dp_id (dd_release r))) (desired_deployments db);
          volumes = filter (\<lambda>v. on_host db hostId (dw_appId v)) (desired_volumes db);
          hostnameRows = filter (\<lambda>h. on_host db hostId (fst h)) (desired_hostnames db);
          environmentRows = filter (\<lambda>e. latest_on_host db hostId (fst e)) (desired_environment db);
          exports = filter (\<lambda>x. on_host db hostId (ex_appId (dx_export x))) (desired_exports now db);
          exportEnvironmentRows = filter (\<lambda>e. list_ex (\<lambda>x. ex_id x = fst e \<and> on_host db hostId (ex_appId x)) (db_exports db))
            (desired_export_environment now db);
          hostnames = hostnamesByApp hostnameRows;
          environments = environmentBy environmentRows;
          exportEnvironments = environmentBy exportEnvironmentRows in
      bind_result (map_result (toDesiredVolume unseal key) volumes) (\<lambda>volumes.
      bind_result (map_result (toDesiredInstance unseal key hostnames environments) deployments) (\<lambda>instances.
      Inr \<lparr>hd_hostId = hostId, hd_volumes = volumes, hd_instances = instances, hd_checkpoints = [],
           hd_exports = map (toDesiredExport unseal key exportEnvironments) exports\<rparr>)))"

section \<open>The rows behind a document\<close>

lemma map_result_all2: "map_result f xs = Inr ys \<longleftrightarrow> list_all2 (\<lambda>x y. f x = Inr y) xs ys"
  by (induction xs arbitrary: ys) (auto simp: bind_result_Inr_iff list_all2_Cons1)

lemma map_result_Inl: "(\<exists>e. map_result f xs = Inl e) \<longleftrightarrow> (\<exists>x \<in> set xs. \<exists>e. f x = Inl e)"
proof (induction xs)
  case (Cons x xs)
  then show ?case by (cases "f x"; cases "map_result f xs") auto
qed simp

lemma map_result_keys:
  assumes "map_result f xs = Inr ys" and "\<And>x y. f x = Inr y \<Longrightarrow> k y = j x"
  shows "map k ys = map j xs"
  using assms by (induction xs arbitrary: ys) (auto simp: bind_result_Inr_iff)

lemma map_result_in: "map_result f xs = Inr ys \<Longrightarrow> y \<in> set ys \<Longrightarrow> \<exists>x \<in> set xs. f x = Inr y"
  by (induction xs arbitrary: ys) (auto simp: bind_result_Inr_iff)

lemma map_result_out: "map_result f xs = Inr ys \<Longrightarrow> x \<in> set xs \<Longrightarrow> \<exists>y \<in> set ys. f x = Inr y"
  by (induction xs arbitrary: ys) (auto simp: bind_result_Inr_iff)

lemma map_filter_keys: "(\<And>x y. f x = Some y \<Longrightarrow> k y = j x) \<Longrightarrow> map k (List.map_filter f xs) = map j (filter (\<lambda>x. f x \<noteq> None) xs)"
  by (induction xs) (auto simp: List.map_filter_simps split: option.splits)

lemma app_by_id_Some: "app_by_id db i = Some a \<Longrightarrow> a \<in> set (db_apps db) \<and> ap_id a = i"
  by (auto simp: app_by_id_def find_Some_iff)

lemma app_by_id_in: "db_ok db \<Longrightarrow> a \<in> set (db_apps db) \<Longrightarrow> app_by_id db (ap_id a) = Some a"
proof -
  assume ok: "db_ok db" and a: "a \<in> set (db_apps db)"
  then obtain b where b: "app_by_id db (ap_id a) = Some b"
    by (cases "app_by_id db (ap_id a)") (auto simp: app_by_id_def find_None_iff)
  then show ?thesis using app_unique [OF ok, of b a] a app_by_id_Some [OF b] by simp
qed

lemma desired_deployment_of_Some:
  "desired_deployment_of db d = Some r \<longleftrightarrow>
     dd_release r = d \<and> app_by_id db (dp_appId d) = Some (dd_app r) \<and>
     find (\<lambda>r. ar_id r = dp_artifactId d) (db_artifacts db) = Some (dd_artifact r) \<and>
     config_by_id db (dp_configId d) = Some (dd_config r) \<and> dp_state d \<noteq> DeploymentSuperseded \<and>
     (ap_state (dd_app r) = AppActive \<or> ap_state (dd_app r) = AppSuspended) \<and> standing db (dp_appId d) = Some d"
  by (cases r) (auto simp: desired_deployment_of_def split: option.splits)

lemma desired_row:
  assumes "r \<in> set (desired_deployments db)"
  shows "dd_release r \<in> set (db_deployments db)" "dd_app r \<in> set (db_apps db)"
    "ap_id (dd_app r) = dp_appId (dd_release r)"
    "ap_state (dd_app r) = AppActive \<or> ap_state (dd_app r) = AppSuspended"
    "standing db (dp_appId (dd_release r)) = Some (dd_release r)"
    "dp_state (dd_release r) \<noteq> DeploymentSuperseded"
    "config_by_id db (dp_configId (dd_release r)) = Some (dd_config r)"
    "find (\<lambda>a. ar_id a = dp_artifactId (dd_release r)) (db_artifacts db) = Some (dd_artifact r)"
  using assms
  by (auto simp: desired_deployments_def set_map_filter desired_deployment_of_Some dest: app_by_id_Some)

lemma desired_releases:
  "map dd_release (desired_deployments db) = filter (\<lambda>d. desired_deployment_of db d \<noteq> None) (db_deployments db)"
  unfolding desired_deployments_def
  by (subst map_filter_keys [where j = "\<lambda>d. d"]) (auto simp: desired_deployment_of_Some)

text \<open>One row for each app.\<close>

lemma desired_apps_distinct:
  assumes "db_ok db"
  shows "distinct (map (\<lambda>r. dp_appId (dd_release r)) (desired_deployments db))"
proof -
  have "distinct (db_deployments db)"
    using assms by (auto simp: db_ok_def keys_ok_def distinct_map)
  then have d: "distinct (map dd_release (desired_deployments db))"
    by (subst desired_releases) simp
  have "inj_on dp_appId (set (map dd_release (desired_deployments db)))"
  proof (rule inj_onI)
    fix d e
    assume "d \<in> set (map dd_release (desired_deployments db))" "e \<in> set (map dd_release (desired_deployments db))"
      and "dp_appId d = dp_appId e"
    then have "standing db (dp_appId e) = Some d" "standing db (dp_appId e) = Some e"
      using desired_row(5) by fastforce+
    then show "d = e" by simp
  qed
  with d have "distinct (map dp_appId (map dd_release (desired_deployments db)))"
    by (simp add: distinct_map comp_inj_on)
  then show ?thesis by (simp add: comp_def)
qed

lemma volume_row:
  assumes "w \<in> set (desired_volumes db)"
  obtains a where "a \<in> set (db_apps db)" "ap_id a = dw_appId w" "ap_state a = dw_state w"
    "ap_state a \<noteq> AppDeleted" "alreadyDeployed db (ap_id a)" "dw_storage w = deployed_storage db (ap_id a)"
  using assms by (auto simp: desired_volumes_def set_map_filter split: if_splits)

lemma volume_row_exists:
  assumes "a \<in> set (db_apps db)" and "ap_state a \<noteq> AppDeleted" and "alreadyDeployed db (ap_id a)"
  obtains w where "w \<in> set (desired_volumes db)" "dw_appId w = ap_id a" "dw_state w = ap_state a"
    "dw_storage w = deployed_storage db (ap_id a)"
  using assms by (fastforce simp: desired_volumes_def set_map_filter)

lemma volume_rows_distinct:
  assumes "db_ok db"
  shows "distinct (map dw_appId (desired_volumes db))"
proof -
  have "map dw_appId (desired_volumes db) =
      map ap_id (filter (\<lambda>a. ap_state a \<noteq> AppDeleted \<and> alreadyDeployed db (ap_id a)) (db_apps db))"
    unfolding desired_volumes_def
    by (subst map_filter_keys [where j = ap_id]) (auto split: if_splits intro!: arg_cong [where f = "map ap_id"] filter_cong)
  then show ?thesis
    using assms by (auto simp: db_ok_def keys_ok_def distinct_map intro: inj_on_subset)
qed

section \<open>The environment of a release\<close>

lemma js_set_new: "k \<notin> fst ` set m \<Longrightarrow> js_set k v m = m @ [(k, v)]"
  by (induction m) auto

lemma js_new_map_snoc: "js_new_map (es @ [(k, v)]) = js_set k v (js_new_map es)"
  by (simp add: js_new_map_def js_set_all_def)

lemma js_new_map_empty: "js_new_map [] = []"
  by (simp add: js_new_map_def js_set_all_def)

lemma js_new_map_distinct: "distinct (map fst es) \<Longrightarrow> js_new_map es = es"
proof (induction es rule: rev_induct)
  case (snoc e es)
  then show ?case by (cases e) (simp add: js_new_map_snoc js_set_new)
qed (simp add: js_new_map_empty)

lemma grouped_rows:
  "js_get (environmentBy rows) i =
     (let mine = map snd (filter (\<lambda>r. fst r = i) rows) in if mine = [] then None else Some (js_new_map mine))"
proof (induction rows rule: rev_induct)
  case (snoc row rows)
  obtain j name v where row: "row = (j, name, v)" by (cases row) auto
  have step: "environmentBy (rows @ [(j, name, v)]) =
      js_set j (js_set name v (case js_get (environmentBy rows) j of None \<Rightarrow> [] | Some e \<Rightarrow> e)) (environmentBy rows)"
    by (simp add: environmentBy_def sealedEnvironmentBy_def Let_def)
  show ?case
    unfolding row step using snoc js_new_map_snoc [of "[]" name v]
    by (auto simp: Let_def js_new_map_snoc js_new_map_empty split: option.splits if_splits)
qed (simp add: environmentBy_def sealedEnvironmentBy_def)

lemma rows_of_one:
  assumes "distinct (map k rows)" and "r \<in> set rows"
  shows "filter (\<lambda>e. fst e = k r) (concat (map (\<lambda>r. map (Pair (k r)) (g r)) rows)) = map (Pair (k r)) (g r)"
  using assms
proof (induction rows)
  case (Cons q rows)
  have none: "filter (\<lambda>e. fst e = k r) (concat (map (\<lambda>r. map (Pair (k r)) (g r)) qs)) = []"
    if "k r \<notin> k ` set qs" for qs
    using that by (induction qs) (auto simp: filter_map comp_def)
  show ?case
  proof (cases "r = q")
    case True
    with Cons.prems(1) none [of rows] show ?thesis by (simp add: filter_map comp_def)
  next
    case False
    with Cons.prems have "k q \<noteq> k r" by auto
    with Cons False show ?thesis by (simp add: filter_map comp_def)
  qed
qed simp

text \<open>The variables of a configuration have one value each: the primary key of their table.\<close>

definition environments_keyed :: "Database \<Rightarrow> bool" where
  "environments_keyed db = list_all (\<lambda>c. distinct (map fst (cf_environment c))) (db_configs db)"

lemma environments_keyed_of:
  "environments_keyed db \<Longrightarrow> config_by_id db i = Some c \<Longrightarrow> distinct (map fst (cf_environment c))"
  by (auto simp: environments_keyed_def config_by_id_def list_all_iff dest: find_Some_in)

lemma release_ids_distinct:
  assumes "db_ok db"
  shows "distinct (map (\<lambda>r. dp_id (dd_release r)) (desired_deployments db))"
proof -
  have "distinct (map dp_id (filter (\<lambda>d. desired_deployment_of db d \<noteq> None) (db_deployments db)))"
    using assms by (simp add: db_ok_def keys_ok_def distinct_map_filter)
  then have "distinct (map dp_id (map dd_release (desired_deployments db)))"
    by (simp only: desired_releases)
  then show ?thesis by (simp add: comp_def)
qed

lemma environment_of_release:
  assumes ok: "db_ok db" and keyed: "environments_keyed db" and r: "r \<in> set (desired_deployments db)"
    and on: "latest_on_host db hostId (dp_id (dd_release r))"
  shows "or_empty (environmentBy (filter (\<lambda>e. latest_on_host db hostId (fst e)) (desired_environment db)))
      (dp_id (dd_release r)) = cf_environment (dd_config r)"
proof -
  let ?i = "dp_id (dd_release r)" and ?e = "cf_environment (dd_config r)"
  have rows: "desired_environment db =
      concat (map (\<lambda>r. map (Pair (dp_id (dd_release r))) (cf_environment (dd_config r))) (desired_deployments db))"
    by (simp add: desired_environment_def case_prod_eta)
  have "filter (\<lambda>e. fst e = ?i) (filter (\<lambda>e. latest_on_host db hostId (fst e)) (desired_environment db)) =
      filter (\<lambda>e. fst e = ?i) (desired_environment db)"
    using on by (auto intro: filter_cong)
  also have "\<dots> = map (Pair ?i) ?e"
    unfolding rows by (rule rows_of_one [OF release_ids_distinct [OF ok] r])
  finally show ?thesis
    using environments_keyed_of [OF keyed desired_row(7) [OF r]]
    by (simp add: or_empty_def grouped_rows comp_def js_new_map_distinct Let_def)
qed

section \<open>What a document is made of\<close>

lemma toDesiredVolume_Inr:
  assumes "toDesiredVolume unseal key w = Inr v"
  shows "dv_appId v = dw_appId w" "dv_volumeId v = dw_appId w"
    "dv_desiredState v = (if dw_state w = AppDeleting then Absent else Present)"
    "dw_storage w = None \<Longrightarrow> dv_storage v = None"
    "dw_storage w = Some columns \<Longrightarrow> toVolumeStorage unseal key columns = Inr (dv_storage v)"
  using assms by (auto simp: toDesiredVolume_def bind_result_Inr_iff volumeIdOf_def split: option.splits)

lemma toDesiredInstance_Inr:
  assumes "toDesiredInstance unseal key hostnames environments r = Inr i"
  shows "di_appId i = dp_appId (dd_release r)" "di_deploymentId i = dp_id (dd_release r)"
    "di_volumeId i = dp_appId (dd_release r)" "di_desiredState i = desiredInstanceState r"
    "di_idleTimeoutMs i = (if desiredInstanceState r = DesiredOnRequest then Some (ap_idleTimeoutMs (dd_app r)) else None)"
    "openEnvironment unseal key (or_empty environments (dp_id (dd_release r))) = Inr (cfg_environment (di_config i))"
    "di_artifact i = artifact_message (dd_artifact r)"
    "di_config i = (toRunConfig (cf_run (dd_config r)))\<lparr>cfg_environment := cfg_environment (di_config i)\<rparr>"
    "di_hostnames i = (case js_get hostnames (dp_appId (dd_release r)) of None \<Rightarrow> [] | Some hs \<Rightarrow> hs)"
  using assms
  by (auto simp: toDesiredInstance_def toDesiredConfig_def Let_def bind_result_Inr_iff volumeIdOf_def
      split: sum.splits)

lemma toDesiredInstance_Inl:
  "(\<exists>e. toDesiredInstance unseal key hostnames environments r = Inl e) \<longleftrightarrow>
     (\<exists>e. openEnvironment unseal key (or_empty environments (dp_id (dd_release r))) = Inl e)"
  by (auto simp: toDesiredInstance_def toDesiredConfig_def Let_def split: sum.splits)

lemma toDesiredVolume_Inl:
  "(\<exists>e. toDesiredVolume unseal key w = Inl e) \<longleftrightarrow>
     (\<exists>columns e. dw_storage w = Some columns \<and> toVolumeStorage unseal key columns = Inl e)"
proof (cases "dw_storage w")
  case (Some columns)
  then show ?thesis
    by (cases "toVolumeStorage unseal key columns") (auto simp: toDesiredVolume_def)
qed (simp add: toDesiredVolume_def)

text \<open>The rows a host is sent: the apps placed on it, and of each the latest release.\<close>

definition volumes_of :: "HostId \<Rightarrow> Database \<Rightarrow> DesiredVolumeRow list" where
  "volumes_of hostId db = filter (\<lambda>v. on_host db hostId (dw_appId v)) (desired_volumes db)"

definition releases_of :: "HostId \<Rightarrow> Database \<Rightarrow> DesiredDeploymentRow list" where
  "releases_of hostId db =
     filter (\<lambda>r. latest_on_host db hostId (dp_id (dd_release r))) (desired_deployments db)"

definition environments_of :: "HostId \<Rightarrow> Database \<Rightarrow> (string, SealedEnvironment) jsmap" where
  "environments_of hostId db =
     environmentBy (filter (\<lambda>e. latest_on_host db hostId (fst e)) (desired_environment db))"

definition hostnames_of :: "HostId \<Rightarrow> Database \<Rightarrow> (AppId, AppHostname list) jsmap" where
  "hostnames_of hostId db = hostnamesByApp (filter (\<lambda>h. on_host db hostId (fst h)) (desired_hostnames db))"

definition exports_of :: "int \<Rightarrow> HostId \<Rightarrow> Database \<Rightarrow> DesiredExportRow list" where
  "exports_of now hostId db = filter (\<lambda>x. on_host db hostId (ex_appId (dx_export x))) (desired_exports now db)"

definition export_environments_of :: "int \<Rightarrow> HostId \<Rightarrow> Database \<Rightarrow> (string, SealedEnvironment) jsmap" where
  "export_environments_of now hostId db =
     environmentBy (filter (\<lambda>e. list_ex (\<lambda>x. ex_id x = fst e \<and> on_host db hostId (ex_appId x)) (db_exports db))
       (desired_export_environment now db))"

lemmas host_rows = volumes_of_def releases_of_def environments_of_def hostnames_of_def exports_of_def
  export_environments_of_def

lemma selectDesiredState_rows:
  "selectDesiredState unseal key now hostId db =
     bind_result (map_result (toDesiredVolume unseal key) (volumes_of hostId db)) (\<lambda>volumes.
     bind_result (map_result (toDesiredInstance unseal key (hostnames_of hostId db) (environments_of hostId db))
         (releases_of hostId db)) (\<lambda>instances.
     Inr \<lparr>hd_hostId = hostId, hd_volumes = volumes, hd_instances = instances, hd_checkpoints = [],
          hd_exports = map (toDesiredExport unseal key (export_environments_of now hostId db)) (exports_of now hostId db)\<rparr>))"
  by (simp add: selectDesiredState_def Let_def host_rows)

lemma document_Inr:
  assumes "selectDesiredState unseal key now hostId db = Inr doc"
  shows "hd_hostId doc = hostId"
    "map_result (toDesiredVolume unseal key) (volumes_of hostId db) = Inr (hd_volumes doc)"
    "map_result (toDesiredInstance unseal key (hostnames_of hostId db) (environments_of hostId db)) (releases_of hostId db) =
       Inr (hd_instances doc)"
    "hd_exports doc = map (toDesiredExport unseal key (export_environments_of now hostId db)) (exports_of now hostId db)"
  using assms by (auto simp: selectDesiredState_rows bind_result_Inr_iff)

lemma document_Inl:
  "(\<exists>e. selectDesiredState unseal key now hostId db = Inl e) \<longleftrightarrow>
     (\<exists>w \<in> set (volumes_of hostId db). \<exists>e. toDesiredVolume unseal key w = Inl e) \<or>
     (\<exists>r \<in> set (releases_of hostId db).
        \<exists>e. openEnvironment unseal key (or_empty (environments_of hostId db) (dp_id (dd_release r))) = Inl e)"
proof -
  let ?vs = "map_result (toDesiredVolume unseal key) (volumes_of hostId db)"
  let ?is = "map_result (toDesiredInstance unseal key (hostnames_of hostId db) (environments_of hostId db))
    (releases_of hostId db)"
  have "(\<exists>e. selectDesiredState unseal key now hostId db = Inl e) \<longleftrightarrow> (\<exists>e. ?vs = Inl e) \<or> (\<exists>e. ?is = Inl e)"
    unfolding selectDesiredState_rows by (cases ?vs; cases ?is) simp_all
  then show ?thesis by (simp only: map_result_Inl toDesiredInstance_Inl)
qed

lemma latest_row:
  assumes "db_ok db" and "d \<in> set (db_deployments db)"
  shows "latest_on_host db hostId (dp_id d) \<longleftrightarrow> newest_deployment db (dp_appId d) = Some d \<and> dp_hostId d = hostId"
proof -
  have "e = d" if "e \<in> set (db_deployments db)" "dp_id e = dp_id d" for e
    using assms that by (auto simp: db_ok_def keys_ok_def distinct_map dest: inj_onD)
  with assms(2) show ?thesis by (auto simp: latest_on_host_def list_ex_iff)
qed

lemma release_row:
  assumes "db_ok db" and "r \<in> set (releases_of hostId db)"
  shows "r \<in> set (desired_deployments db)"
    "newest_deployment db (dp_appId (dd_release r)) = Some (dd_release r)" "dp_hostId (dd_release r) = hostId"
    "app_host db (dp_appId (dd_release r)) = Some hostId"
proof -
  show row: "r \<in> set (desired_deployments db)" using assms(2) by (simp add: releases_of_def)
  have "latest_on_host db hostId (dp_id (dd_release r))"
    using assms(2) by (simp add: releases_of_def)
  then show "newest_deployment db (dp_appId (dd_release r)) = Some (dd_release r)" "dp_hostId (dd_release r) = hostId"
    by (simp_all add: latest_row [OF assms(1) desired_row(1) [OF row]])
  then show "app_host db (dp_appId (dd_release r)) = Some hostId" by (simp add: app_host_def)
qed

lemma environment_handed:
  assumes "db_ok db" and "environments_keyed db" and "r \<in> set (releases_of hostId db)"
  shows "or_empty (environments_of hostId db) (dp_id (dd_release r)) = cf_environment (dd_config r)"
  using assms environment_of_release [of db r hostId] by (simp add: environments_of_def releases_of_def)

lemma hosted_is_deployed: "app_host db a = Some h \<Longrightarrow> alreadyDeployed db a"
  by (auto simp: app_host_def alreadyDeployed_def newest_deployment_def list_ex_iff dest!: newest_Some)

text \<open>The hostnames of an app: the rows that answer, in the order of the table.\<close>

definition answering :: "Database \<Rightarrow> AppId \<Rightarrow> AppHostname list" where
  "answering db appId =
     map (\<lambda>h. \<lparr>hn_hostname = hm_hostname h, hn_kind = hm_kind h\<rparr>)
       (filter (\<lambda>h. hm_state h = HostnameActive \<and> hm_appId h = appId) (db_hostnames db))"

lemma grouped_hostnames:
  "(case js_get (hostnamesByApp rows) a of None \<Rightarrow> [] | Some hs \<Rightarrow> hs) = map snd (filter (\<lambda>r. fst r = a) rows)"
proof (induction rows rule: rev_induct)
  case (snoc row rows)
  obtain b h where row: "row = (b, h)" by (cases row)
  have "hostnamesByApp (rows @ [row]) =
      js_set b ((case js_get (hostnamesByApp rows) b of None \<Rightarrow> [] | Some hs \<Rightarrow> hs) @ [h]) (hostnamesByApp rows)"
    by (simp add: hostnamesByApp_def row)
  then show ?case using snoc row by (cases "a = b") (simp_all split: option.splits)
qed (simp add: hostnamesByApp_def)

lemma one_row_of_an_app:
  assumes "distinct (map k rows)" and "r \<in> set rows"
  shows "filter (\<lambda>q. k q = k r) rows = [r]"
  using assms
proof (induction rows)
  case (Cons q rows)
  show ?case
  proof (cases "r = q")
    case True
    then have "filter (\<lambda>p. k p = k r) rows = []" using Cons.prems(1) by (auto simp: filter_empty_conv image_iff)
    then show ?thesis using True by simp
  next
    case False
    then have "k q \<noteq> k r" using Cons.prems by auto
    then show ?thesis using Cons False by auto
  qed
qed simp

lemma hostnames_handed:
  assumes "db_ok db" and "r \<in> set (releases_of hostId db)"
  shows "(case js_get (hostnames_of hostId db) (dp_appId (dd_release r)) of None \<Rightarrow> [] | Some hs \<Rightarrow> hs) =
    answering db (dp_appId (dd_release r))"
proof -
  let ?a = "dp_appId (dd_release r)"
  have r: "r \<in> set (desired_deployments db)" "on_host db hostId ?a"
    using release_row [OF assms] by (simp_all add: on_host_def)
  have app: "ap_id (dd_app q) = dp_appId (dd_release q)" if "q \<in> set (desired_deployments db)" for q
    using desired_row(3) [OF that] .
  have "distinct (map (\<lambda>q. ap_id (dd_app q)) (desired_deployments db))"
    using desired_apps_distinct [OF assms(1)] by (simp cong: map_cong add: app)
  from one_row_of_an_app [OF this r(1)] have one: "filter (\<lambda>q. ap_id (dd_app q) = ?a) (desired_deployments db) = [r]"
    using app [OF r(1)] by simp
  have "filter (\<lambda>x. fst x = ?a) (filter (\<lambda>h. on_host db hostId (fst h)) (desired_hostnames db)) =
      filter (\<lambda>x. fst x = ?a) (desired_hostnames db)"
    using r(2) by (auto intro: filter_cong)
  also have "map snd \<dots> = answering db ?a"
  proof -
    have each: "map snd (filter (\<lambda>x. fst x = ?a) (concat (map (\<lambda>h. map (\<lambda>_. (hm_appId h, g h))
          (filter (\<lambda>q. ap_id (dd_app q) = hm_appId h) (desired_deployments db)))
        (filter (\<lambda>h. hm_state h = HostnameActive) hs)))) =
      map g (filter (\<lambda>h. hm_state h = HostnameActive \<and> hm_appId h = ?a) hs)" for g :: "HostnameRow \<Rightarrow> AppHostname" and hs
      by (induction hs) (auto simp: one filter_map comp_def)
    show ?thesis unfolding desired_hostnames_def answering_def by (rule each)
  qed
  finally show ?thesis by (simp add: hostnames_of_def grouped_hostnames)
qed

section \<open>Properties\<close>

lemma volume_told:
  assumes "selectDesiredState unseal key now hostId db = Inr doc" and "v \<in> set (hd_volumes doc)"
  obtains a where "a \<in> set (db_apps db)" "ap_id a = dv_appId v" "dv_volumeId v = dv_appId v"
    "app_host db (ap_id a) = Some hostId" "ap_state a \<noteq> AppDeleted"
    "dv_desiredState v = (if ap_state a = AppDeleting then Absent else Present)"
proof -
  obtain w where w: "w \<in> set (volumes_of hostId db)" "toDesiredVolume unseal key w = Inr v"
    using map_result_in [OF document_Inr(2) [OF assms(1)] assms(2)] by blast
  then have row: "w \<in> set (desired_volumes db)" "app_host db (dw_appId w) = Some hostId"
    by (simp_all add: volumes_of_def on_host_def)
  from row(1) obtain a where "a \<in> set (db_apps db)" "ap_id a = dw_appId w" "ap_state a = dw_state w" "ap_state a \<noteq> AppDeleted"
    by (rule volume_row)
  then show ?thesis
    using that toDesiredVolume_Inr(1,2,3) [OF w(2)] row(2) by simp
qed

lemma volume_sent:
  assumes "selectDesiredState unseal key now hostId db = Inr doc" and "a \<in> set (db_apps db)"
    and "ap_state a \<noteq> AppDeleted" and "app_host db (ap_id a) = Some hostId"
  obtains v where "v \<in> set (hd_volumes doc)" "dv_appId v = ap_id a" "dv_volumeId v = ap_id a"
    "dv_desiredState v = (if ap_state a = AppDeleting then Absent else Present)"
proof -
  obtain w where "w \<in> set (desired_volumes db)" "dw_appId w = ap_id a" and st: "dw_state w = ap_state a"
    by (rule volume_row_exists [OF assms(2,3) hosted_is_deployed [OF assms(4)]])
  then have w: "w \<in> set (volumes_of hostId db)" "dw_appId w = ap_id a"
    using assms(4) by (simp_all add: volumes_of_def on_host_def)
  obtain v where v: "v \<in> set (hd_volumes doc)" "toDesiredVolume unseal key w = Inr v"
    using map_result_out [OF document_Inr(2) [OF assms(1)] w(1)] by blast
  show ?thesis
    by (rule that [OF v(1)]) (simp_all add: toDesiredVolume_Inr(1,2,3) [OF v(2)] w(2) st)
qed

lemma instance_told:
  assumes "db_ok db" and "selectDesiredState unseal key now hostId db = Inr doc" and "i \<in> set (hd_instances doc)"
  obtains r where "r \<in> set (releases_of hostId db)"
    "toDesiredInstance unseal key (hostnames_of hostId db) (environments_of hostId db) r = Inr i"
    "newest_deployment db (di_appId i) = Some (dd_release r)" "app_host db (di_appId i) = Some hostId"
    "dd_app r \<in> set (db_apps db)" "ap_id (dd_app r) = di_appId i"
    "ap_state (dd_app r) = AppActive \<or> ap_state (dd_app r) = AppSuspended"
proof -
  obtain r where r: "r \<in> set (releases_of hostId db)"
    "toDesiredInstance unseal key (hostnames_of hostId db) (environments_of hostId db) r = Inr i"
    using map_result_in [OF document_Inr(3) [OF assms(2)] assms(3)] by blast
  note row = release_row [OF assms(1) r(1)]
  show ?thesis
    by (rule that [OF r]) (simp_all add: toDesiredInstance_Inr(1) [OF r(2)] row desired_row [OF row(1)])
qed

lemma instance_has_volume:
  assumes "db_ok db" and "selectDesiredState unseal key now hostId db = Inr doc" and i: "i \<in> set (hd_instances doc)"
  shows "\<exists>v \<in> set (hd_volumes doc). dv_volumeId v = di_volumeId i \<and> dv_appId v = di_appId i \<and> dv_desiredState v = Present"
proof -
  obtain r where r: "toDesiredInstance unseal key (hostnames_of hostId db) (environments_of hostId db) r = Inr i"
      "app_host db (di_appId i) = Some hostId" "dd_app r \<in> set (db_apps db)" "ap_id (dd_app r) = di_appId i"
      "ap_state (dd_app r) = AppActive \<or> ap_state (dd_app r) = AppSuspended"
    by (rule instance_told [OF assms])
  then have "ap_state (dd_app r) \<noteq> AppDeleted" "app_host db (ap_id (dd_app r)) = Some hostId" by auto
  from volume_sent [OF assms(2) r(3) this] obtain v where "v \<in> set (hd_volumes doc)" "dv_appId v = di_appId i"
      "dv_volumeId v = di_appId i" "dv_desiredState v = (if ap_state (dd_app r) = AppDeleting then Absent else Present)"
    using r(4) by metis
  then show ?thesis using r(5) toDesiredInstance_Inr(1,3) [OF r(1)] by (intro bexI [of _ v]) auto
qed

text \<open>
  C17. Two hosts are never told to hold one volume. In every reachable database the document of a host names
  an app and a volume at most once and lists the volume of every instance as one to keep, and no app and
  no volume of it is in the document of another host read from that database.
\<close>

theorem one_host_per_app:
  assumes "reachable db" and "selectDesiredState unseal key now hostId db = Inr doc"
  shows "distinct (map di_appId (hd_instances doc)) \<and> distinct (map dv_volumeId (hd_volumes doc)) \<and>
    (\<forall>i \<in> set (hd_instances doc). \<exists>v \<in> set (hd_volumes doc).
       dv_volumeId v = di_volumeId i \<and> dv_appId v = di_appId i \<and> dv_desiredState v = Present) \<and>
    (selectDesiredState unseal key now' otherHost db = Inr doc' \<and> otherHost \<noteq> hostId \<longrightarrow>
       dv_volumeId ` set (hd_volumes doc) \<inter> dv_volumeId ` set (hd_volumes doc') = {} \<and>
       di_appId ` set (hd_instances doc) \<inter> di_appId ` set (hd_instances doc') = {})"
proof (intro conjI ballI impI)
  note ok = reachable_ok [OF assms(1)]
  have "map di_appId (hd_instances doc) = map (\<lambda>r. dp_appId (dd_release r)) (releases_of hostId db)"
    by (rule map_result_keys [OF document_Inr(3) [OF assms(2)]]) (rule toDesiredInstance_Inr(1))
  then show "distinct (map di_appId (hd_instances doc))"
    using desired_apps_distinct [OF ok] by (simp add: releases_of_def distinct_map_filter)
  have "map dv_volumeId (hd_volumes doc) = map dw_appId (volumes_of hostId db)"
    by (rule map_result_keys [OF document_Inr(2) [OF assms(2)]]) (rule toDesiredVolume_Inr(2))
  then show "distinct (map dv_volumeId (hd_volumes doc))"
    using volume_rows_distinct [OF ok] by (simp add: volumes_of_def distinct_map_filter)
  show "\<exists>v \<in> set (hd_volumes doc). dv_volumeId v = di_volumeId i \<and> dv_appId v = di_appId i \<and> dv_desiredState v = Present"
    if "i \<in> set (hd_instances doc)" for i
    using ok assms(2) that by (rule instance_has_volume)
next
  assume other: "selectDesiredState unseal key now' otherHost db = Inr doc' \<and> otherHost \<noteq> hostId"
  have v: "app_host db (dv_volumeId v) = Some h"
    if "selectDesiredState unseal key n h db = Inr d" "v \<in> set (hd_volumes d)" for n h d v
    using that by (rule volume_told) simp
  have i: "app_host db (di_appId i) = Some h"
    if "selectDesiredState unseal key n h db = Inr d" "i \<in> set (hd_instances d)" for n h d i
    using reachable_ok [OF assms(1)] that by (rule instance_told)
  show "dv_volumeId ` set (hd_volumes doc) \<inter> dv_volumeId ` set (hd_volumes doc') = {}"
    using v [OF assms(2)] v [OF conjunct1 [OF other]] other by (force simp: disjoint_iff image_iff)
  show "di_appId ` set (hd_instances doc) \<inter> di_appId ` set (hd_instances doc') = {}"
    using i [OF assms(2)] i [OF conjunct1 [OF other]] other by (force simp: disjoint_iff image_iff)
qed

text \<open>The instance of an app placed on a host is sent exactly when its newest release should be there.\<close>

definition runs_somewhere :: "Database \<Rightarrow> AppRow \<Rightarrow> DeploymentRow \<Rightarrow> bool" where
  "runs_somewhere db a d =
     ((ap_state a = AppActive \<or> ap_state a = AppSuspended) \<and> newest_deployment db (ap_id a) = Some d \<and>
      dp_state d \<noteq> DeploymentSuperseded \<and> find (\<lambda>r. ar_id r = dp_artifactId d) (db_artifacts db) \<noteq> None)"

lemma newest_filtered: "newest p xs = Some x \<Longrightarrow> q x \<Longrightarrow> newest (\<lambda>x. p x \<and> q x) xs = Some x"
  by (induction xs rule: rev_induct) (auto simp: newest_simps split: if_splits)

lemma newest_is_standing:
  "newest_deployment db a = Some d \<Longrightarrow> dp_state d \<noteq> DeploymentSuperseded \<Longrightarrow> standing db a = Some d"
  unfolding newest_deployment_def standing_def by (rule newest_filtered)

lemma instance_sent:
  assumes "db_ok db" and "selectDesiredState unseal key now hostId db = Inr doc" and "a \<in> set (db_apps db)"
    and "app_host db (ap_id a) = Some hostId" and "runs_somewhere db a d"
  shows "\<exists>i \<in> set (hd_instances doc). di_appId i = ap_id a"
proof -
  have d: "d \<in> set (db_deployments db)" "dp_appId d = ap_id a" "newest_deployment db (ap_id a) = Some d"
    using assms(5) newest_Some [of "\<lambda>d. dp_appId d = ap_id a"] by (auto simp: runs_somewhere_def newest_deployment_def)
  obtain ar where ar: "find (\<lambda>r. ar_id r = dp_artifactId d) (db_artifacts db) = Some ar"
    using assms(5) by (auto simp: runs_somewhere_def)
  obtain c where c: "config_by_id db (dp_configId d) = Some c"
  proof -
    have "\<exists>c \<in> set (db_configs db). cf_id c = dp_configId d"
      using assms(1) d(1) by (fastforce simp: db_ok_def refs_ok_def list_all_iff list_ex_iff)
    then show ?thesis using that by (cases "config_by_id db (dp_configId d)") (auto simp: config_by_id_def find_None_iff)
  qed
  let ?r = "\<lparr>dd_release = d, dd_app = a, dd_artifact = ar, dd_config = c\<rparr>"
  have "desired_deployment_of db d = Some ?r"
    using assms(5) ar c d newest_is_standing [OF d(3)] app_by_id_in [OF assms(1,3)]
    by (simp add: desired_deployment_of_Some runs_somewhere_def)
  then have "?r \<in> set (desired_deployments db)"
    using d(1) by (auto simp: desired_deployments_def set_map_filter)
  moreover have "latest_on_host db hostId (dp_id d)"
    using latest_row [OF assms(1) d(1)] d(2,3) assms(4) by (simp add: app_host_def)
  ultimately have "?r \<in> set (releases_of hostId db)" by (simp add: releases_of_def)
  from map_result_out [OF document_Inr(3) [OF assms(2)] this] obtain i where "i \<in> set (hd_instances doc)"
      "toDesiredInstance unseal key (hostnames_of hostId db) (environments_of hostId db) ?r = Inr i"
    by blast
  then show ?thesis using toDesiredInstance_Inr(1) d(2) by fastforce
qed

text \<open>
  C16. A host is told what the owner asked for. For an app placed on the host: its volume is listed unless the
  app is deleted, and as one to remove exactly while the app is being deleted. An instance of it is listed
  exactly when the app is active or suspended and its newest release is not superseded and has its
  artifact; it is of that release, with the artifact, the columns of its configuration, the hostnames
  that answer for the app and what the values stored with that configuration open to; and it is stopped
  exactly when the release failed or the owner suspended the app, and started by a request exactly when
  the owner chose that for an app that is neither.
\<close>

theorem document_is_what_was_asked:
  assumes "reachable db" and "environments_keyed db" and "selectDesiredState unseal key now hostId db = Inr doc"
    and "a \<in> set (db_apps db)" and "app_host db (ap_id a) = Some hostId"
  shows "((\<exists>v \<in> set (hd_volumes doc). dv_appId v = ap_id a) \<longleftrightarrow> ap_state a \<noteq> AppDeleted) \<and>
    (\<forall>v \<in> set (hd_volumes doc). dv_appId v = ap_id a \<longrightarrow> (dv_desiredState v = Absent \<longleftrightarrow> ap_state a = AppDeleting)) \<and>
    ((\<exists>i \<in> set (hd_instances doc). di_appId i = ap_id a) \<longleftrightarrow>
       (ap_state a = AppActive \<or> ap_state a = AppSuspended) \<and>
       (\<exists>d. newest_deployment db (ap_id a) = Some d \<and> dp_state d \<noteq> DeploymentSuperseded \<and>
          find (\<lambda>r. ar_id r = dp_artifactId d) (db_artifacts db) \<noteq> None)) \<and>
    (\<forall>i \<in> set (hd_instances doc). di_appId i = ap_id a \<longrightarrow>
       (\<exists>d c. newest_deployment db (ap_id a) = Some d \<and> di_deploymentId i = dp_id d \<and>
          config_by_id db (dp_configId d) = Some c \<and>
          (di_desiredState i = DesiredStopped \<longleftrightarrow> dp_state d = DeploymentFailed \<or> ap_state a = AppSuspended) \<and>
          (di_desiredState i = DesiredOnRequest \<longleftrightarrow>
             dp_state d \<noteq> DeploymentFailed \<and> ap_state a = AppActive \<and> ap_activation a = OnRequestActivation) \<and>
          map_option artifact_message (find (\<lambda>r. ar_id r = dp_artifactId d) (db_artifacts db)) = Some (di_artifact i) \<and>
          di_hostnames i = answering db (ap_id a) \<and>
          di_config i = (toRunConfig (cf_run c))\<lparr>cfg_environment := cfg_environment (di_config i)\<rparr> \<and>
          openEnvironment unseal key (cf_environment c) = Inr (cfg_environment (di_config i))))"
proof -
  note ok = reachable_ok [OF assms(1)]
  have told: "ap_state a \<noteq> AppDeleted \<and> (dv_desiredState v = Absent \<longleftrightarrow> ap_state a = AppDeleting)"
    if v: "v \<in> set (hd_volumes doc)" "dv_appId v = ap_id a" for v
  proof -
    obtain b where "b \<in> set (db_apps db)" "ap_id b = dv_appId v" "ap_state b \<noteq> AppDeleted"
        "dv_desiredState v = (if ap_state b = AppDeleting then Absent else Present)"
      by (rule volume_told [OF assms(3) v(1)])
    then show ?thesis using app_unique [OF ok, of b a] assms(4) v(2) by simp
  qed
  have volumes: "(\<exists>v \<in> set (hd_volumes doc). dv_appId v = ap_id a) \<longleftrightarrow> ap_state a \<noteq> AppDeleted"
    using told volume_sent [OF assms(3,4) _ assms(5)] by metis
  have one: "\<exists>d c. runs_somewhere db a d \<and> newest_deployment db (ap_id a) = Some d \<and> di_deploymentId i = dp_id d \<and>
      config_by_id db (dp_configId d) = Some c \<and>
      (di_desiredState i = DesiredStopped \<longleftrightarrow> dp_state d = DeploymentFailed \<or> ap_state a = AppSuspended) \<and>
      (di_desiredState i = DesiredOnRequest \<longleftrightarrow>
         dp_state d \<noteq> DeploymentFailed \<and> ap_state a = AppActive \<and> ap_activation a = OnRequestActivation) \<and>
      map_option artifact_message (find (\<lambda>r. ar_id r = dp_artifactId d) (db_artifacts db)) = Some (di_artifact i) \<and>
      di_hostnames i = answering db (ap_id a) \<and>
      di_config i = (toRunConfig (cf_run c))\<lparr>cfg_environment := cfg_environment (di_config i)\<rparr> \<and>
      openEnvironment unseal key (cf_environment c) = Inr (cfg_environment (di_config i))"
    if i: "i \<in> set (hd_instances doc)" "di_appId i = ap_id a" for i
  proof -
    obtain r where r: "r \<in> set (releases_of hostId db)"
        "toDesiredInstance unseal key (hostnames_of hostId db) (environments_of hostId db) r = Inr i"
        "newest_deployment db (di_appId i) = Some (dd_release r)"
        "dd_app r \<in> set (db_apps db)" "ap_id (dd_app r) = di_appId i"
        "ap_state (dd_app r) = AppActive \<or> ap_state (dd_app r) = AppSuspended"
      by (rule instance_told [OF ok assms(3) i(1)])
    have a: "dd_app r = a" using app_unique [OF ok r(4) assms(4)] r(5) i(2) by simp
    note told = toDesiredInstance_Inr [OF r(2)] and row = desired_row [OF release_row(1) [OF ok r(1)]]
    have "di_hostnames i = answering db (ap_id a)"
      using hostnames_handed [OF ok r(1)] told(1,9) i(2) by simp
    then show ?thesis
    proof (intro exI [of _ "dd_release r"] exI [of _ "dd_config r"] conjI)
      show "di_config i = (toRunConfig (cf_run (dd_config r)))\<lparr>cfg_environment := cfg_environment (di_config i)\<rparr>"
        by (rule told(8))
    qed (use told(2,4,6,7) row(6,7,8) r(3,6) i(2) a environment_handed [OF ok assms(2) r(1)] in
      \<open>auto simp: desiredInstanceState_def runs_somewhere_def\<close>)
  qed
  have runs: "(\<exists>i \<in> set (hd_instances doc). di_appId i = ap_id a) \<longleftrightarrow> (\<exists>d. runs_somewhere db a d)"
    using one instance_sent [OF ok assms(3-5)] by blast
  show ?thesis
  proof (intro conjI ballI impI)
    show "(\<exists>v \<in> set (hd_volumes doc). dv_appId v = ap_id a) \<longleftrightarrow> ap_state a \<noteq> AppDeleted" by (rule volumes)
    show "dv_desiredState v = Absent \<longleftrightarrow> ap_state a = AppDeleting" if "v \<in> set (hd_volumes doc)" "dv_appId v = ap_id a" for v
      using told [OF that] by simp
    show "(\<exists>i \<in> set (hd_instances doc). di_appId i = ap_id a) \<longleftrightarrow>
       (ap_state a = AppActive \<or> ap_state a = AppSuspended) \<and>
       (\<exists>d. newest_deployment db (ap_id a) = Some d \<and> dp_state d \<noteq> DeploymentSuperseded \<and>
          find (\<lambda>r. ar_id r = dp_artifactId d) (db_artifacts db) \<noteq> None)"
      unfolding runs runs_somewhere_def by blast
  next
    fix i assume "i \<in> set (hd_instances doc)" "di_appId i = ap_id a"
    from one [OF this] show "\<exists>d c. newest_deployment db (ap_id a) = Some d \<and> di_deploymentId i = dp_id d \<and>
          config_by_id db (dp_configId d) = Some c \<and>
          (di_desiredState i = DesiredStopped \<longleftrightarrow> dp_state d = DeploymentFailed \<or> ap_state a = AppSuspended) \<and>
          (di_desiredState i = DesiredOnRequest \<longleftrightarrow>
             dp_state d \<noteq> DeploymentFailed \<and> ap_state a = AppActive \<and> ap_activation a = OnRequestActivation) \<and>
          map_option artifact_message (find (\<lambda>r. ar_id r = dp_artifactId d) (db_artifacts db)) = Some (di_artifact i) \<and>
          di_hostnames i = answering db (ap_id a) \<and>
          di_config i = (toRunConfig (cf_run c))\<lparr>cfg_environment := cfg_environment (di_config i)\<rparr> \<and>
          openEnvironment unseal key (cf_environment c) = Inr (cfg_environment (di_config i))"
      by (elim exE conjE) (intro exI conjI)
  qed
qed

section \<open>The schema of a document\<close>

definition DesiredArtifactSchema :: "DesiredArtifact \<Rightarrow> bool" where
  "DesiredArtifactSchema a =
     (Sha256DigestSchema (art_digest a) \<and> ByteSizeSchema (art_sizeBytes a) \<and>
      ObjectKeySchema (art_objectKey a) \<and> FilenameSchema (art_filename a))"

definition DesiredInstanceSchema :: "DesiredInstance \<Rightarrow> bool" where
  "DesiredInstanceSchema i =
     (IdentifierSchema (di_appId i) \<and> IdentifierSchema (di_deploymentId i) \<and> IdentifierSchema (di_volumeId i) \<and>
      (case di_idleTimeoutMs i of None \<Rightarrow> True | Some ms \<Rightarrow> IdleTimeoutMsSchema ms) \<and>
      DesiredArtifactSchema (di_artifact i) \<and> AppConfigSchema (di_config i) \<and>
      list_all AppHostnameSchema (di_hostnames i))"

definition DesiredVolumeSchema :: "DesiredVolume \<Rightarrow> bool" where
  "DesiredVolumeSchema v =
     (IdentifierSchema (dv_volumeId v) \<and> IdentifierSchema (dv_appId v) \<and> ByteSizeSchema (dv_sizeBytes v) \<and>
      (case dv_seed v of None \<Rightarrow> True | Some seed \<Rightarrow> DesiredArtifactSchema seed) \<and>
      (case dv_storage v of None \<Rightarrow> True | Some storage \<Rightarrow> S3VolumeStorageSchema storage))"

definition DesiredCheckpointSchema :: "DesiredCheckpoint \<Rightarrow> bool" where
  "DesiredCheckpointSchema c = (IdentifierSchema (dc_checkpointId c) \<and> IdentifierSchema (dc_volumeId c))"

definition DesiredExportSchema :: "DesiredExport \<Rightarrow> bool" where
  "DesiredExportSchema e =
     (IdentifierSchema (de_exportId e) \<and> IdentifierSchema (de_appId e) \<and> IdentifierSchema (de_volumeId e) \<and>
      ObjectKeySchema (de_objectKey e) \<and> DesiredArtifactSchema (de_artifact e) \<and>
      (case de_environment e of None \<Rightarrow> True | Some environment \<Rightarrow> TenantEnvironmentSchema environment))"

definition HostDesiredStateSchema :: "HostDesiredState \<Rightarrow> bool" where
  "HostDesiredStateSchema doc =
     (IdentifierSchema (hd_hostId doc) \<and> list_all DesiredVolumeSchema (hd_volumes doc) \<and>
      list_all DesiredInstanceSchema (hd_instances doc) \<and> list_all DesiredCheckpointSchema (hd_checkpoints doc) \<and>
      list_all DesiredExportSchema (hd_exports doc))"

text \<open>
  What the columns hold: the \<open>CHECK\<close> constraints of \<open>0006_create_nibrun_app_configs.sql\<close> and
  \<open>0035_apps_choose_how_they_start.sql\<close>, and for the columns that have none what their writers put there (ids
  that are uuids, hostnames and file names that were parsed, digests that were computed, keys that are
  made of them, arguments within the schema of the request). An artifact that a release or an export
  names has its bytes.
\<close>

definition columns_typed :: "RunConfigColumns \<Rightarrow> bool" where
  "columns_typed c =
     (1 \<le> http_port c \<and> http_port c \<le> 65535 \<and>
      length (args c) \<le> 64 \<and> list_all (\<lambda>a. text_length a \<le> 4096) (args c) \<and>
      1 \<le> vcpu_count c \<and> vcpu_count c \<le> 32 \<and> 128 \<le> memory_mib c \<and> memory_mib c \<le> 16384 \<and>
      (case health_check_path c of None \<Rightarrow> True | Some p \<Rightarrow> 1 \<le> text_length p \<and> text_length p \<le> 1024) \<and>
      100 \<le> health_check_interval_ms c \<and> 100 \<le> health_check_timeout_ms c \<and> 0 \<le> health_check_grace_period_ms c \<and>
      1 \<le> health_check_healthy_threshold c \<and> 1 \<le> health_check_unhealthy_threshold c \<and>
      0 \<le> restart_max_restarts c \<and> 0 \<le> restart_initial_backoff_ms c \<and> 0 \<le> restart_max_backoff_ms c \<and>
      1 \<le> restart_backoff_factor c \<and> 0 \<le> restart_reset_after_ms c)"

definition artifact_typed :: "ArtifactRow \<Rightarrow> bool" where
  "artifact_typed r =
     ((case ar_digest r of None \<Rightarrow> True | Some digest \<Rightarrow> Sha256DigestSchema digest) \<and> 0 \<le> ar_sizeBytes r \<and>
      (case ar_objectKey r of None \<Rightarrow> True | Some key \<Rightarrow> ObjectKeySchema key) \<and> FilenameSchema (ar_filename r))"

definition rows_typed :: "Database \<Rightarrow> bool" where
  "rows_typed db =
     (list_all (\<lambda>a. IdentifierSchema (ap_id a) \<and> 60000 \<le> ap_idleTimeoutMs a \<and> ap_idleTimeoutMs a \<le> 86400000) (db_apps db) \<and>
      list_all (\<lambda>c. columns_typed (cf_run c)) (db_configs db) \<and>
      list_all (\<lambda>d. IdentifierSchema (dp_id d)) (db_deployments db) \<and>
      list_all (\<lambda>e. IdentifierSchema (ex_id e)) (db_exports db) \<and>
      list_all (\<lambda>h. HostnameSchema (hm_hostname h)) (db_hostnames db) \<and>
      list_all artifact_typed (db_imports db) \<and>
      list_all (\<lambda>r. artifact_typed r \<and>
        (ar_id r \<in> set (map dp_artifactId (db_deployments db) @ map ex_artifactId (db_exports db)) \<longrightarrow>
          ar_digest r \<noteq> None \<and> ar_objectKey r \<noteq> None)) (db_artifacts db))"

lemma config_typed:
  "columns_typed c \<Longrightarrow> valid_environment environment \<Longrightarrow> AppConfigSchema ((toRunConfig c)\<lparr>cfg_environment := environment\<rparr>)"
  by (auto simp: columns_typed_def AppConfigSchema_def toRunConfig_def HttpPortSchema_def MIN_PORT_def MAX_PORT_def
      TenantArgumentsSchema_def MAX_ARGUMENTS_def MAX_ARGUMENT_LENGTH_def TenantEnvironmentSchema_def
      InstanceResourcesSchema_def MIN_VCPU_COUNT_def MAX_VCPU_COUNT_def MIN_MEMORY_MIB_def MAX_MEMORY_MIB_def
      HealthCheckSchema_def valid_HealthCheck_def MAX_HTTP_PATH_LENGTH_def RestartPolicySchema_def split: option.split)

lemma artifact_message_typed:
  "artifact_typed r \<Longrightarrow> ar_digest r \<noteq> None \<Longrightarrow> ar_objectKey r \<noteq> None \<Longrightarrow> DesiredArtifactSchema (artifact_message r)"
  by (auto simp: artifact_typed_def artifact_message_def DesiredArtifactSchema_def ByteSizeSchema_def)

lemma export_key_typed: "IdentifierSchema (ex_appId e) \<Longrightarrow> IdentifierSchema (ex_id e) \<Longrightarrow> ObjectKeySchema (export_key e)"
proof -
  assume "IdentifierSchema (ex_appId e)" "IdentifierSchema (ex_id e)"
  then have "length (ex_appId e) \<le> 63" "length (ex_id e) \<le> 63"
    by (auto simp: IdentifierSchema_def MAX_IDENTIFIER_LENGTH_def split: list.splits)
  then have "length (export_key e) \<le> 142" by (simp add: export_key_def)
  moreover have "1 \<le> text_length (export_key e)"
    unfolding export_key_def append_Cons by (rule text_length_ascii_head) simp
  ultimately show ?thesis
    using text_length_bounds(2) [of "export_key e"] by (simp add: ObjectKeySchema_def MAX_OBJECT_KEY_LENGTH_def)
qed

lemma opened_is_valid: "openEnvironment unseal key sealed = Inr environment \<Longrightarrow> valid_environment environment"
  by (auto simp: openEnvironment_def bind_result_Inr_iff split: if_splits)

lemma stored_storage_valid: "toVolumeStorage unseal key row = Inr (Some s) \<Longrightarrow> S3VolumeStorageSchema s"
  by (auto simp: toVolumeStorage_def Let_def split: option.splits sum.splits if_splits)

lemma volume_seed:
  assumes "w \<in> set (desired_volumes db)"
  shows "dw_seed w = None \<or> (\<exists>d. dw_seed w = usable_import db d)"
  using assms unfolding desired_volumes_def set_map_filter
  by (elim CollectE bexE, auto simp del: not_None_eq split: if_split_asm option.split, blast)

lemma seed_typed:
  assumes "rows_typed db" and "w \<in> set (desired_volumes db)" and "seedOf (dw_seed w) = Some seed"
  shows "DesiredArtifactSchema seed"
proof -
  obtain r where r: "dw_seed w = Some r" "ar_digest r = Some (art_digest seed)" "ar_objectKey r = Some (art_objectKey seed)"
      "art_sizeBytes seed = ar_sizeBytes r" "art_filename seed = ar_filename r"
    using assms(3) by (auto simp: seedOf_def split: option.splits)
  obtain d where "usable_import db d = Some r"
    using volume_seed [OF assms(2)] r(1) by auto
  then have "r \<in> set (db_imports db)"
    by (auto simp: usable_import_def split: option.splits dest: find_Some_in)
  then have "artifact_typed r" using assms(1) by (simp add: rows_typed_def list_all_iff)
  then show ?thesis using r by (simp add: artifact_typed_def DesiredArtifactSchema_def ByteSizeSchema_def)
qed

lemma volume_typed:
  assumes "rows_typed db" and "w \<in> set (desired_volumes db)" and v: "toDesiredVolume unseal key w = Inr v"
  shows "DesiredVolumeSchema v"
proof -
  have "dv_sizeBytes v = DEFAULT_VOLUME_SIZE_BYTES" "dv_seed v = seedOf (dw_seed w)"
    using v by (auto simp: toDesiredVolume_def bind_result_Inr_iff)
  moreover have "IdentifierSchema (dw_appId w)"
    using assms(2) by (rule volume_row) (use assms(1) in \<open>auto simp: rows_typed_def list_all_iff\<close>)
  moreover have "case dv_storage v of None \<Rightarrow> True | Some storage \<Rightarrow> S3VolumeStorageSchema storage"
    using toDesiredVolume_Inr(4,5) [OF v] stored_storage_valid by (cases "dw_storage w"; cases "dv_storage v") auto
  ultimately show ?thesis
    using toDesiredVolume_Inr(1,2) [OF v] seed_typed [OF assms(1,2)]
    by (auto simp: DesiredVolumeSchema_def ByteSizeSchema_def DEFAULT_VOLUME_SIZE_BYTES_def split: option.splits)
qed

lemma instance_typed:
  assumes "db_ok db" and "rows_typed db" and r: "r \<in> set (releases_of hostId db)"
    and i: "toDesiredInstance unseal key (hostnames_of hostId db) (environments_of hostId db) r = Inr i"
  shows "DesiredInstanceSchema i" "di_idleTimeoutMs i = None \<longleftrightarrow> di_desiredState i \<noteq> DesiredOnRequest"
proof -
  note row = desired_row [OF release_row(1) [OF assms(1) r]] and told = toDesiredInstance_Inr [OF i]
  have ids: "IdentifierSchema (di_appId i)" "IdentifierSchema (di_deploymentId i)" "IdentifierSchema (di_volumeId i)"
    using assms(2) row(1-3) told(1-3) unfolding rows_typed_def list_all_iff by metis+
  have "AppConfigSchema (di_config i)"
  proof (subst told(8), rule config_typed)
    show "columns_typed (cf_run (dd_config r))"
      using assms(2) row(7) by (auto simp: rows_typed_def list_all_iff config_by_id_def dest!: find_Some_in)
    show "valid_environment (cfg_environment (di_config i))" by (rule opened_is_valid [OF told(6)])
  qed
  moreover have "DesiredArtifactSchema (di_artifact i)"
    unfolding told(7) using assms(2) row(1,8)
    by (intro artifact_message_typed) (auto simp: rows_typed_def list_all_iff dest!: find_Some_in)
  moreover have "list_all AppHostnameSchema (di_hostnames i)"
    using assms(2) hostnames_handed [OF assms(1) r] told(9)
    by (auto simp: answering_def rows_typed_def list_all_iff AppHostnameSchema_def)
  moreover have "60000 \<le> ap_idleTimeoutMs (dd_app r) \<and> ap_idleTimeoutMs (dd_app r) \<le> 86400000"
    using assms(2) row(2) by (simp add: rows_typed_def list_all_iff)
  ultimately show "DesiredInstanceSchema i"
    using ids told(5)
    by (simp add: DesiredInstanceSchema_def IdleTimeoutMsSchema_def MIN_IDLE_TIMEOUT_MS_def MAX_IDLE_TIMEOUT_MS_def)
  show "di_idleTimeoutMs i = None \<longleftrightarrow> di_desiredState i \<noteq> DesiredOnRequest" using told(4,5) by simp
qed

lemma export_typed:
  assumes "rows_typed db" and "x \<in> set (desired_exports now db)"
  shows "DesiredExportSchema (toDesiredExport unseal key environments x)"
    "de_environment (toDesiredExport unseal key environments x) \<noteq> None \<Longrightarrow>
       de_desiredState (toDesiredExport unseal key environments x) = Present"
proof -
  obtain e a ar where x: "e \<in> set (db_exports db)" "dx_export x = e" "app_by_id db (ex_appId e) = Some a"
      "find (\<lambda>r. ar_id r = ex_artifactId e) (db_artifacts db) = Some ar" "dx_artifact x = ar"
    using assms(2) by (fastforce simp: desired_exports_def set_map_filter split: option.splits if_splits)
  have ids: "IdentifierSchema (ex_appId e)" "IdentifierSchema (ex_id e)"
    using assms(1) x(1) app_by_id_Some [OF x(3)] by (auto simp: rows_typed_def list_all_iff)
  have "DesiredArtifactSchema (artifact_message ar)"
    using assms(1) x(1,4) by (intro artifact_message_typed) (auto simp: rows_typed_def list_all_iff dest!: find_Some_in)
  then show "DesiredExportSchema (toDesiredExport unseal key environments x)"
    using ids x(2,5) export_key_typed [OF ids]
    by (auto simp: DesiredExportSchema_def toDesiredExport_def bundleEnvironment_def volumeIdOf_def
        TenantEnvironmentSchema_def Let_def split: option.splits if_splits sum.splits dest: opened_is_valid)
  show "de_environment (toDesiredExport unseal key environments x) \<noteq> None \<Longrightarrow>
       de_desiredState (toDesiredExport unseal key environments x) = Present"
    by (simp add: toDesiredExport_def Let_def split: if_splits)
qed

text \<open>
  C25. A document that is sent is one the schema of the wire accepts, to the last bound and pattern of it, as
  long as the columns it is made of hold what the constraints of the tables and their writers put there.
  What is decrypted for it needs no such trust: a storage or an environment that is not one is not sent.
  A timeout is given exactly for an app that starts on request, and the variables of a bundle are sent
  only while the bundle is still to be written.
\<close>

theorem documents_are_typed:
  assumes "reachable db" and "rows_typed db" and "IdentifierSchema hostId"
    and "selectDesiredState unseal key now hostId db = Inr doc"
  shows "HostDesiredStateSchema doc \<and>
    list_all (\<lambda>i. di_idleTimeoutMs i = None \<longleftrightarrow> di_desiredState i \<noteq> DesiredOnRequest) (hd_instances doc) \<and>
    list_all (\<lambda>e. de_environment e = None \<or> de_desiredState e = Present) (hd_exports doc)"
proof -
  note ok = reachable_ok [OF assms(1)] and parts = document_Inr [OF assms(4)]
  have "DesiredVolumeSchema v" if "v \<in> set (hd_volumes doc)" for v
    using map_result_in [OF parts(2) that] volume_typed [OF assms(2)] by (auto simp: volumes_of_def)
  moreover have "DesiredInstanceSchema i \<and> (di_idleTimeoutMs i = None \<longleftrightarrow> di_desiredState i \<noteq> DesiredOnRequest)"
    if i: "i \<in> set (hd_instances doc)" for i
  proof -
    obtain r where r: "r \<in> set (releases_of hostId db)"
        "toDesiredInstance unseal key (hostnames_of hostId db) (environments_of hostId db) r = Inr i"
      using map_result_in [OF parts(3) i] by blast
    show ?thesis using instance_typed [OF ok assms(2) r] by simp
  qed
  moreover have "DesiredExportSchema e \<and> (de_environment e = None \<or> de_desiredState e = Present)"
    if ex: "e \<in> set (hd_exports doc)" for e
  proof -
    obtain x where "x \<in> set (desired_exports now db)"
        and e: "e = toDesiredExport unseal key (export_environments_of now hostId db) x"
      using ex by (auto simp: parts(4) exports_of_def)
    from export_typed [OF assms(2) this(1), of unseal key "export_environments_of now hostId db"]
    show ?thesis unfolding e by blast
  qed
  moreover have "hd_checkpoints doc = []"
    using assms(4) by (auto simp: selectDesiredState_rows bind_result_Inr_iff)
  ultimately show ?thesis
    using assms(3) parts(1) by (simp add: HostDesiredStateSchema_def list_all_iff)
qed

lemma unreadable_volume:
  "(\<exists>w \<in> set (volumes_of hostId db). \<exists>e. toDesiredVolume unseal key w = Inl e) \<longleftrightarrow>
    (\<exists>a \<in> set (db_apps db). app_host db (ap_id a) = Some hostId \<and> ap_state a \<noteq> AppDeleted \<and>
       (\<exists>columns e. deployed_storage db (ap_id a) = Some columns \<and> toVolumeStorage unseal key columns = Inl e))"
    (is "?w \<longleftrightarrow> ?a")
proof
  assume ?w
  then obtain w columns e where w: "w \<in> set (desired_volumes db)" "app_host db (dw_appId w) = Some hostId"
      "dw_storage w = Some columns" "toVolumeStorage unseal key columns = Inl e"
    by (auto simp: volumes_of_def on_host_def toDesiredVolume_Inl)
  from w(1) obtain a where "a \<in> set (db_apps db)" "ap_id a = dw_appId w" "ap_state a \<noteq> AppDeleted"
      "dw_storage w = deployed_storage db (ap_id a)"
    by (rule volume_row)
  with w show ?a by (intro bexI [of _ a]) auto
next
  assume ?a
  then obtain a columns e where a: "a \<in> set (db_apps db)" "app_host db (ap_id a) = Some hostId" "ap_state a \<noteq> AppDeleted"
      "deployed_storage db (ap_id a) = Some columns" "toVolumeStorage unseal key columns = Inl e"
    by blast
  obtain w where "w \<in> set (desired_volumes db)" "dw_appId w = ap_id a" "dw_storage w = deployed_storage db (ap_id a)"
    by (rule volume_row_exists [OF a(1,3) hosted_is_deployed [OF a(2)]])
  with a show ?w by (intro bexI [of _ w]) (auto simp: volumes_of_def on_host_def toDesiredVolume_Inl)
qed

text \<open>
  C26. A poll fails over a value that cannot be opened and over nothing else. A host gets no document exactly
  when the storage of a volume it holds is unreadable or the environment of a release it should run does
  not open; the variables of a bundle never fail one.
\<close>

theorem poll_fails_only_over_unreadable_values:
  assumes "reachable db" and "environments_keyed db"
  shows "(\<exists>e. selectDesiredState unseal key now hostId db = Inl e) \<longleftrightarrow>
    (\<exists>a \<in> set (db_apps db). app_host db (ap_id a) = Some hostId \<and> ap_state a \<noteq> AppDeleted \<and>
       (\<exists>columns e. deployed_storage db (ap_id a) = Some columns \<and> toVolumeStorage unseal key columns = Inl e)) \<or>
    (\<exists>r \<in> set (releases_of hostId db). \<exists>e. openEnvironment unseal key (cf_environment (dd_config r)) = Inl e)"
  unfolding document_Inl unreadable_volume using environment_handed [OF reachable_ok [OF assms(1)] assms(2)] by auto

section \<open>A document\<close>

text \<open>A cipher that hides nothing, and an app of which a variable was set before it was released.\<close>

definition example_seal :: "unit seal_with" where
  "example_seal key iv plaintext = (plaintext, replicate 16 (CHR ''t''))"

definition example_unseal :: "unit unseal_with" where
  "example_unseal key iv tag sealed = (if tag = replicate 16 (CHR ''t'') then Some sealed else None)"

definition example_configure :: request where
  "example_configure = UpdateApp ''cfg1'' 1500 ''app'' ''me'' None
     (Some (empty_patch\<lparr>pt_environment := Some ([(''MODE'', sealSecret example_seal () ''iv'' ''blog'')], [])\<rparr>))"

definition example_polled :: Database where
  "example_polled = the (run [example_configure, example_deploy] example_ready)"

definition example_document :: HostDesiredState where
  "example_document = projr (selectDesiredState example_unseal () 3000 ''h1'' example_polled)"

lemma example_polled_reachable: "reachable example_polled"
proof -
  have "run [example_configure, example_deploy] example_ready \<noteq> None" by code_simp
  then show ?thesis
    unfolding example_polled_def using run_reachable [OF example_ready_reachable] by fastforce
qed

lemma example_polled_rows:
  "let db = example_polled; a = hd (db_apps db); r = hd (releases_of ''h1'' db) in
     environments_keyed db \<and> db_apps db \<noteq> [] \<and> app_host db (ap_id a) = Some ''h1'' \<and> ap_id a = ''app'' \<and>
     ap_state a = AppActive \<and> releases_of ''h1'' db \<noteq> [] \<and>
     map_option dp_configId (newest_deployment db ''app'') = Some ''cfg1'' \<and>
     map_option dp_state (newest_deployment db ''app'') = Some DeploymentPending \<and>
     openEnvironment (\<lambda>key iv tag sealed. None) () (cf_environment (dd_config r)) = Inl NotAuthentic"
  by code_simp

lemma example_document_parts:
  "case selectDesiredState example_unseal () 3000 ''h1'' example_polled of Inl e \<Rightarrow> False
   | Inr doc \<Rightarrow> map (\<lambda>i. (di_appId i, di_volumeId i, cfg_environment (di_config i))) (hd_instances doc) =
       [(''app'', ''app'', [(''MODE'', ''blog'')])]"
  by code_simp

lemma example_polled_facts:
  "environments_keyed example_polled"
  "selectDesiredState example_unseal () 3000 ''h1'' example_polled = Inr example_document"
  "map (\<lambda>i. (di_appId i, di_volumeId i, cfg_environment (di_config i))) (hd_instances example_document) =
     [(''app'', ''app'', [(''MODE'', ''blog'')])]"
  using example_polled_rows example_document_parts
  by (auto simp: example_document_def Let_def split: sum.splits)

text \<open>The same app, after its owner asked for its deletion.\<close>

definition example_deleting :: Database where
  "example_deleting = perform (AskDeletion 4000 ''app'' ''me'') example_polled"

definition example_last_document :: HostDesiredState where
  "example_last_document = projr (selectDesiredState example_unseal () 5000 ''h1'' example_deleting)"

lemma example_deleting_step: "control_step example_polled (Some (AskDeletion 4000 ''app'' ''me'')) example_deleting"
  unfolding example_deleting_def by (rule request) simp

lemma example_deleting_reachable: "reachable example_deleting"
  by (rule further [OF example_polled_reachable example_deleting_step])

lemma example_deleting_rows:
  "let db = example_deleting; a = hd (db_apps db) in
     db_apps db \<noteq> [] \<and> ap_id a = ''app'' \<and> ap_state a = AppDeleting \<and> app_host db (ap_id a) = Some ''h1'' \<and>
     \<not> isl (selectDesiredState example_unseal () 5000 ''h1'' db)"
  by code_simp

lemma example_deleting_facts:
  "hd (db_apps example_deleting) \<in> set (db_apps example_deleting)"
  "ap_id (hd (db_apps example_deleting)) = ''app''"
  "ap_state (hd (db_apps example_deleting)) = AppDeleting"
  "app_host example_deleting (ap_id (hd (db_apps example_deleting))) = Some ''h1''"
  "selectDesiredState example_unseal () 5000 ''h1'' example_deleting = Inr example_last_document"
  using example_deleting_rows
  by (auto simp: Let_def example_last_document_def)

lemma example_wants_to_run: "list_all (\<lambda>w. di_desiredState w \<noteq> DesiredStopped) (hd_instances example_document)"
  by code_simp

theorem one_host_per_app_witness:
  "\<exists>v \<in> set (hd_volumes example_document). dv_volumeId v = ''app'' \<and> dv_desiredState v = Present"
proof -
  obtain i where "i \<in> set (hd_instances example_document)" "di_volumeId i = ''app''"
    using example_polled_facts(3) by auto
  then show ?thesis
    using one_host_per_app [OF example_polled_reachable example_polled_facts(2)] by metis
qed

theorem document_is_what_was_asked_witness:
  "\<exists>i c. i \<in> set (hd_instances example_document) \<and> di_desiredState i \<noteq> DesiredStopped \<and>
     config_by_id example_polled ''cfg1'' = Some c \<and>
     openEnvironment example_unseal () (cf_environment c) = Inr (cfg_environment (di_config i)) \<and>
     cfg_environment (di_config i) = [(''MODE'', ''blog'')]"
proof -
  let ?a = "hd (db_apps example_polled)"
  have a: "?a \<in> set (db_apps example_polled)" "app_host example_polled (ap_id ?a) = Some ''h1''" "ap_id ?a = ''app''"
    "ap_state ?a = AppActive"
    using example_polled_rows unfolding Let_def by auto
  obtain i where i: "i \<in> set (hd_instances example_document)" "di_appId i = ap_id ?a"
      "cfg_environment (di_config i) = [(''MODE'', ''blog'')]"
    using example_polled_facts(3) a(3) by auto
  then show ?thesis
    using document_is_what_was_asked [OF example_polled_reachable example_polled_facts(1,2) a(1,2)] a(3,4) example_polled_rows
    by (intro exI [of _ i]) (auto simp: Let_def)
qed

text \<open>The same app with the digest its binary would have.\<close>

definition example_digest :: string where "example_digest = replicate 64 (CHR ''0'')"

definition example_typed :: Database where
  "example_typed = example_polled\<lparr>db_artifacts := map (\<lambda>r. r\<lparr>ar_digest := Some example_digest,
     ar_objectKey := Some example_digest\<rparr>) (db_artifacts example_polled)\<rparr>"

lemma example_columns:
  "columns_typed (config_columns (configWithDefaults
     \<lparr>nc_httpPort = None, nc_hasExtraPublicPort = None, nc_args = None, nc_environment = None\<rparr>))"
  by (simp add: columns_typed_def config_columns_def configWithDefaults_def DEFAULT_HTTP_PORT_def
      DEFAULT_INSTANCE_RESOURCES_def DEFAULT_HEALTH_CHECK_def DEFAULT_RESTART_POLICY_def)

lemma example_artifact: "artifact_typed r"
  if "ar_digest r = Some example_digest" "ar_objectKey r = Some example_digest" "ar_sizeBytes r = 10" "ar_filename r = ''blog''"
proof -
  have "Sha256DigestSchema example_digest" "ObjectKeySchema example_digest" "FilenameSchema ''blog''" by code_simp+
  then show ?thesis using that by (simp add: artifact_typed_def)
qed

lemma example_typed_rows:
  "let db = example_typed; doc = selectDesiredState example_unseal () 3000 ''h1'' db in
     map (\<lambda>a. (ap_id a, ap_idleTimeoutMs a)) (db_apps db) = [(''app'', 300000)] \<and>
     list_all (\<lambda>c. cf_run c = config_columns (configWithDefaults
       \<lparr>nc_httpPort = None, nc_hasExtraPublicPort = None, nc_args = None, nc_environment = None\<rparr>)) (db_configs db) \<and>
     map dp_id (db_deployments db) = [''d1''] \<and> db_exports db = [] \<and> db_imports db = [] \<and>
     map hm_hostname (db_hostnames db) = [''blog-x1.example.com''] \<and>
     map (\<lambda>r. (ar_digest r, ar_objectKey r, ar_sizeBytes r, ar_filename r)) (db_artifacts db) =
       [(Some example_digest, Some example_digest, 10, ''blog'')] \<and>
     \<not> isl doc \<and> map (\<lambda>i. art_digest (di_artifact i)) (hd_instances (projr doc)) = [example_digest]"
  by code_simp

lemma example_typed_facts:
  "rows_typed example_typed" "IdentifierSchema ''h1''"
  "\<not> isl (selectDesiredState example_unseal () 3000 ''h1'' example_typed)"
proof -
  have "IdentifierSchema ''app''" "IdentifierSchema ''d1''" "HostnameSchema ''blog-x1.example.com''" by code_simp+
  then show "rows_typed example_typed"
    using example_typed_rows example_columns example_artifact
    by (auto simp: rows_typed_def list_all_iff map_eq_Cons_conv Let_def)
  show "IdentifierSchema ''h1''" by code_simp
  show "\<not> isl (selectDesiredState example_unseal () 3000 ''h1'' example_typed)"
    using example_typed_rows by (simp add: Let_def)
qed

theorem documents_are_typed_witness:
  "HostDesiredStateSchema (projr (selectDesiredState example_unseal () 3000 ''h1'' example_typed)) \<and>
   map (\<lambda>i. art_digest (di_artifact i)) (hd_instances (projr (selectDesiredState example_unseal () 3000 ''h1'' example_typed))) =
     [replicate 64 (CHR ''0'')]"
proof -
  have r: "reachable example_typed"
    by (rule further [OF example_polled_reachable other]) (simp add: elsewhere_def example_typed_def)
  have doc: "selectDesiredState example_unseal () 3000 ''h1'' example_typed =
      Inr (projr (selectDesiredState example_unseal () 3000 ''h1'' example_typed))"
    using example_typed_facts(3) by (metis sum.collapse(2))
  have "HostDesiredStateSchema (projr (selectDesiredState example_unseal () 3000 ''h1'' example_typed))"
    using documents_are_typed [OF r example_typed_facts(1,2) doc] by simp
  moreover have "map (\<lambda>i. art_digest (di_artifact i))
      (hd_instances (projr (selectDesiredState example_unseal () 3000 ''h1'' example_typed))) = [replicate 64 (CHR ''0'')]"
    using example_typed_rows by (simp add: Let_def example_digest_def)
  ultimately show ?thesis ..
qed

theorem poll_fails_only_over_unreadable_values_witness:
  "\<exists>e. selectDesiredState (\<lambda>key iv tag sealed. None) () 3000 ''h1'' example_polled = Inl e"
proof -
  have "\<exists>r \<in> set (releases_of ''h1'' example_polled).
      \<exists>e. openEnvironment (\<lambda>key iv tag sealed. None) () (cf_environment (dd_config r)) = Inl e"
    using example_polled_rows by (intro bexI [of _ "hd (releases_of ''h1'' example_polled)"]) (auto simp: Let_def)
  then show ?thesis
    unfolding poll_fails_only_over_unreadable_values [OF example_polled_reachable example_polled_facts(1)] by blast
qed

end
