(* ===== verification/App_Configuration.thy ===== *)
theory App_Configuration
  imports Apps
begin

text \<open>
  What creating an app and editing its configuration promise: an app is created whole and within the
  owner's quota or not at all, and an edit of the environment changes the variables it names and no other.
\<close>

section \<open>Creating\<close>

lemma create_app_made:
  assumes "create_app i c now input db = (Inr (AppCreated a h), db')"
  obtains p cf where "profile_of db (na_ownerId input) = Some p" "apps_left db p \<noteq> 0"
    "\<And>n. na_anonymousAppsAtMost input = Some n \<Longrightarrow> \<not> strangersHold db n"
    "a = new_app_row i now input" "na_slug input \<notin> ap_slug ` set (db_apps db)"
    "na_hostname input \<notin> hm_hostname ` set (db_hostnames db)"
    "cf = \<lparr>cf_id = c, cf_appId = i, cf_run = config_columns (na_config input), cf_environment = na_environment input,
       cf_storage = no_storage, cf_createdAt = now\<rparr>"
    "h = \<lparr>hm_appId = i, hm_hostname = na_hostname input, hm_kind = PlatformHostname, hm_state = HostnameActive,
       hm_cloudflareId = None\<rparr>"
    "db' = db\<lparr>db_apps := db_apps db @ [a], db_configs := db_configs db @ [cf], db_hostnames := db_hostnames db @ [h]\<rparr>"
  using assms
  by (fastforce simp: create_app_def ownerHasRoom_def Let_def list_ex_iff image_iff
      split: option.splits sum.splits bool.splits if_splits)

lemma create_app_refused:
  assumes "create_app i c now input db = (r, db')" and "\<And>a h. r \<noteq> Inr (AppCreated a h)"
  shows "db' = db"
  using assms by (auto simp: create_app_def Let_def split: sum.splits bool.splits if_splits)

lemma try_slugs_cases:
  assumes "try_slugs i c now input slugs db = (r, db')"
  obtains (refused) e where "r = Inl e" "db' = db"
  | (made) slug new a h where "slug \<in> set slugs" "input slug = Some new" "r = Inr (a, h)"
      "create_app i c now new db = (Inr (AppCreated a h), db')"
  using assms
proof (induction slugs arbitrary: thesis)
  case (Cons slug slugs)
  show ?case
  proof (cases "input slug")
    case None
    then show ?thesis using Cons.prems(1,3) by auto
  next
    case new: (Some new)
    obtain r1 db1 where c: "create_app i c now new db = (r1, db1)" by fastforce
    show ?thesis
    proof (cases "\<exists>a h. r1 = Inr (AppCreated a h)")
      case True
      then obtain a h where made: "r1 = Inr (AppCreated a h)" by blast
      then have "r = Inr (a, h)" "db1 = db'" using c new Cons.prems(3) by auto
      then show ?thesis using Cons.prems(2) [of slug new a h] c made new by simp
    next
      case False
      then have db1: "db1 = db" using create_app_refused [OF c] by blast
      show ?thesis
      proof (cases "\<exists>k. r1 = Inl (UniqueViolation k) \<and> k \<in> set SLUG_CONSTRAINTS")
        case True
        then have "try_slugs i c now input slugs db = (r, db')" using Cons.prems(3) c db1 new by auto
        then show ?thesis
          by (rule Cons.IH [rotated 2]) (use Cons.prems(1,2) in auto)
      next
        case no: False
        have "r \<in> range Inl \<and> db' = db"
          using Cons.prems(3) c db1 False no new
          by (auto split: sum.splits AppCreation.splits db_error.splits if_splits)
        then show ?thesis using Cons.prems(1) by blast
      qed
    qed
  qed
qed auto

text \<open>
  C20. An app is created whole and within the quota of its owner, or nothing is. A refusal writes nothing. An
  app that is made is exactly three rows more: the app, active and its owner's, under a slug that was
  free; its configuration, with the port, the arguments and the sealed variables that were asked for and
  on shared storage; and its hostname, answering at once, which nobody had. It is one more of its owner's
  and of no one else's, within what the owner is allowed; and one made without an identity is within what
  strangers may hold together and has neither the extra port nor a variable that names it.
\<close>

theorem app_is_created_within_quota:
  assumes "create seal key ivs domain newId newConfigId now rolls ownerId isAnonymous name config db = (res, db')"
  shows "(\<exists>e. res = Inl e) \<and> db' = db \<or>
    (\<exists>a h q cf. res = Inr (a, h) \<and>
       db' = db\<lparr>db_apps := db_apps db @ [a], db_configs := db_configs db @ [cf],
         db_hostnames := db_hostnames db @ [h]\<rparr> \<and>
       ap_id a = newId \<and> ap_owner a = ownerId \<and> ap_name a = name \<and> ap_state a = AppActive \<and>
       ap_slug a \<in> set (take MAX_SLUG_ATTEMPTS rolls) \<and> ap_slug a \<notin> ap_slug ` set (db_apps db) \<and>
       cf_id cf = newConfigId \<and> cf_appId cf = newId \<and> cf_storage cf = no_storage \<and>
       http_port (cf_run cf) = (case nc_httpPort config of None \<Rightarrow> DEFAULT_HTTP_PORT | Some p \<Rightarrow> p) \<and>
       args (cf_run cf) = (case nc_args config of None \<Rightarrow> [] | Some given \<Rightarrow> given) \<and>
       has_extra_public_port (cf_run cf) = (nc_hasExtraPublicPort config = Some True \<and> \<not> isAnonymous) \<and>
       cf_environment cf = sealEnvironment seal key ivs
         (filter (\<lambda>(_, v). \<not> (isAnonymous \<and> namesExtraPublicPortValues v))
           (case nc_environment config of None \<Rightarrow> [] | Some e \<Rightarrow> e)) \<and>
       hm_appId h = newId \<and> hm_state h = HostnameActive \<and>
       platformHostname (ap_slug a) domain = Some (hm_hostname h) \<and>
       hm_hostname h \<notin> hm_hostname ` set (db_hostnames db) \<and>
       appsAllowed db ownerId = Some q \<and> apps_held db' ownerId \<le> q \<and>
       apps_held db' ownerId = apps_held db ownerId + 1 \<and>
       (\<forall>other. other \<noteq> ownerId \<longrightarrow> apps_held db' other = apps_held db other) \<and>
       (isAnonymous \<longrightarrow> \<not> strangersHold db MAX_ANONYMOUS_APPS))"
proof -
  define kept where "kept = (let asked = (configWithDefaults config)
      \<lparr>cfg_environment := (case nc_environment config of None \<Rightarrow> [] | Some e \<Rightarrow> e)\<rparr> in
    if isAnonymous then withoutExtraPort asked else asked)"
  define new where "new = (\<lambda>slug hostname. \<lparr>na_ownerId = ownerId, na_name = name, na_slug = slug,
      na_hostname = hostname, na_config = kept,
      na_environment = sealEnvironment seal key ivs (cfg_environment kept),
      na_anonymousAppsAtMost = (if isAnonymous then Some MAX_ANONYMOUS_APPS else None)\<rparr>)"
  let ?input = "\<lambda>slug. map_option (new slug) (platformHostname slug domain)"
  have r: "create seal key ivs domain newId newConfigId now rolls ownerId isAnonymous name config db =
    (case refuseRedactedValues (cfg_environment kept) of Some names \<Rightarrow> (Inl (RedactedEcho names), db)
     | None \<Rightarrow> (case refuseValuesNeedingAPort (cfg_environment kept) (cfg_hasExtraPublicPort kept) of
         Some names \<Rightarrow> (Inl (NeedsAPort names), db)
       | None \<Rightarrow> try_slugs newId newConfigId now ?input (take MAX_SLUG_ATTEMPTS rolls) db))"
    unfolding create_def Let_def kept_def new_def ..
  have columns: "http_port (config_columns kept) = (case nc_httpPort config of None \<Rightarrow> DEFAULT_HTTP_PORT | Some p \<Rightarrow> p)"
    "args (config_columns kept) = (case nc_args config of None \<Rightarrow> [] | Some given \<Rightarrow> given)"
    "has_extra_public_port (config_columns kept) = (nc_hasExtraPublicPort config = Some True \<and> \<not> isAnonymous)"
    "cfg_environment kept = filter (\<lambda>(_, v). \<not> (isAnonymous \<and> namesExtraPublicPortValues v))
       (case nc_environment config of None \<Rightarrow> [] | Some e \<Rightarrow> e)"
    by (auto simp: kept_def configWithDefaults_def withoutExtraPort_def config_columns_def Let_def
        split: option.split)
  show ?thesis
  proof (cases "(\<exists>e. res = Inl e) \<and> db' = db")
    case False
    then have "try_slugs newId newConfigId now ?input (take MAX_SLUG_ATTEMPTS rolls) db = (res, db')"
      using assms unfolding r by (auto split: option.splits)
    then show ?thesis
    proof (cases rule: try_slugs_cases)
      case (made slug input a h)
      obtain hostname where input: "platformHostname slug domain = Some hostname" "input = new slug hostname"
        using made(2) by auto
      from made(4) show ?thesis
      proof (cases rule: create_app_made)
        case (1 p cf)
        have held: "apps_held db' other = apps_held db other + (if other = ownerId then 1 else 0)" for other
          using 1(4) by (simp add: apps_held_def 1(9) new_app_row_def input(2) new_def)
        have "pf_owner p = ownerId"
          using 1(1) by (auto simp: profile_of_def input(2) new_def dest: find_Some_in)
        then have "apps_held db ownerId < pf_quotaApps p"
          using 1(2) by (simp add: apps_left_def max_def split: if_splits)
        then have "apps_held db' ownerId \<le> pf_quotaApps p" using held by simp
        then show ?thesis
          using 1 held made(1,3) input(1) columns
          by (intro disjI2 exI [of _ a] exI [of _ h] exI [of _ "pf_quotaApps p"] exI [of _ cf])
            (simp add: input(2) new_def new_app_row_def appsAllowed_def)
      qed
    qed (use False in blast)
  qed blast
qed

text \<open>A tenant with room for one more app, and an empty platform.\<close>

definition new_tenant :: Database where
  "new_tenant = empty_database [\<lparr>pf_owner = ''ada'', pf_quotaApps = 1, pf_appLifetimeSeconds = None\<rparr>]"

definition plain_config :: NewAppConfig where
  "plain_config = \<lparr>nc_httpPort = Some 8080, nc_hasExtraPublicPort = None, nc_args = None,
     nc_environment = Some [(''MODE'', ''dev''), (''TOKEN'', ''t0'')]\<rparr>"

definition toy_seal :: "unit seal_with" where
  "toy_seal key iv plaintext = (plaintext, replicate 16 (CHR ''t''))"

definition toy_unseal :: "unit unseal_with" where
  "toy_unseal key iv tag sealed = (if tag = replicate 16 (CHR ''t'') then Some sealed else None)"

lemma toy_cipher: "authenticated_cipher toy_seal toy_unseal"
  by (simp add: authenticated_cipher_def toy_seal_def toy_unseal_def TAG_BYTES_def)

definition first_app :: Database where
  "first_app = snd (create toy_seal () [''i'', ''j''] ''nib.run'' ''app'' ''config'' 5 [''blue-fox''] ''ada'' False
     ''blog'' plain_config new_tenant)"

theorem app_is_created_within_quota_witness:
  "map ap_slug (db_apps first_app) = [''blue-fox''] \<and> map hm_hostname (db_hostnames first_app) = [''blue-fox.nib.run''] \<and>
   map (\<lambda>c. http_port (cf_run c)) (db_configs first_app) = [8080] \<and> apps_held first_app ''ada'' = 1 \<and>
   snd (create toy_seal () [''i'', ''j''] ''nib.run'' ''app2'' ''config2'' 6 [''red-fox''] ''ada'' False
     ''blog'' plain_config first_app) = first_app"
proof -
  let ?make = "\<lambda>i c now rolls. create toy_seal () [''i'', ''j''] ''nib.run'' i c now rolls ''ada'' False ''blog'' plain_config"
  obtain r d where d: "?make ''app'' ''config'' 5 [''blue-fox''] new_tenant = (r, d)"
    by fastforce
  obtain r2 d2 where d2: "?make ''app2'' ''config2'' 6 [''red-fox''] first_app = (r2, d2)"
    by fastforce
  have ran: "case ?make ''app'' ''config'' 5 [''blue-fox''] new_tenant of (r, _) \<Rightarrow> isl r = False"
      "case ?make ''app2'' ''config2'' 6 [''red-fox''] first_app of (r, _) \<Rightarrow> isl r"
      "apps_held new_tenant ''ada'' = 0" "platformHostname ''blue-fox'' ''nib.run'' = Some ''blue-fox.nib.run''"
      "db_apps new_tenant = []" "db_hostnames new_tenant = []" "db_configs new_tenant = []"
    by code_simp+
  have "map ap_slug (db_apps d) = [''blue-fox''] \<and> map hm_hostname (db_hostnames d) = [''blue-fox.nib.run''] \<and>
      map (\<lambda>c. http_port (cf_run c)) (db_configs d) = [8080] \<and> apps_held d ''ada'' = 1"
    using app_is_created_within_quota [OF d] ran d
    by (auto simp: MAX_SLUG_ATTEMPTS_def plain_config_def eval_nat_numeral)
  moreover have "d2 = first_app"
    using app_is_created_within_quota [OF d2] ran d2 by auto
  ultimately show ?thesis using d d2 by (simp add: first_app_def)
qed

section \<open>Editing\<close>

lemma patched_environment_get:
  assumes "(case pt_environment patch of None \<Rightarrow> ([], []) | Some e \<Rightarrow> e) = (sets, removed)"
  shows "js_get (patched_environment patch old) name =
    (if name \<in> fst ` set sets then js_get sets name else if name \<in> set removed then None else js_get old name)"
proof -
  let ?kept = "js_get (carryEnvironmentForward old (filter (\<lambda>n. n \<notin> set (map fst sets @ removed)) (map fst old)))"
  have "?kept name = (if name \<in> fst ` set sets \<union> set removed then None else js_get old name)"
    unfolding carryEnvironmentForward_def js_get_restrict using map_of_eq_None_iff [of old name] by auto
  then show ?thesis
    using assms map_of_eq_None_iff [of sets name]
    by (auto simp: patched_environment_def map_add_def split: option.split)
qed

lemma sealed_names: "length environment \<le> length ivs \<Longrightarrow>
    map fst (sealEnvironment seal key ivs environment) = map fst environment"
  by (induction environment arbitrary: ivs) (auto simp: sealEnvironment_def Suc_le_length_iff)

lemma sealed_opens:
  assumes "authenticated_cipher seal unseal" "length environment \<le> length ivs" "js_get environment name = Some v"
  shows "\<exists>s. js_get (sealEnvironment seal key ivs environment) name = Some s \<and> openSecret unseal key s = Inr v"
  using assms(2,3)
proof (induction environment arbitrary: ivs)
  case (Cons e environment)
  then obtain iv ivs' where "ivs = iv # ivs'" by (auto simp: Suc_le_length_iff)
  then show ?case
    using Cons open_sealed [OF assms(1)] by (cases e) (auto simp: sealEnvironment_def split: if_splits)
qed simp

lemma split_sets:
  "distinct (map fst environment) \<Longrightarrow>
    js_get (fst (splitEnvironmentPatch environment)) name =
      (case js_get environment name of Some (Some v) \<Rightarrow> Some v | _ \<Rightarrow> None)"
  by (induction environment)
    (force simp: splitEnvironmentPatch_def List.map_filter_simps split: option.splits dest: map_of_SomeD)+

lemma split_removed:
  "distinct (map fst environment) \<Longrightarrow>
    name \<in> set (snd (splitEnvironmentPatch environment)) \<longleftrightarrow> js_get environment name = Some None"
  by (force simp: splitEnvironmentPatch_def)

lemma split_shorter: "length (fst (splitEnvironmentPatch environment)) \<le> length environment"
  by (simp add: splitEnvironmentPatch_def List.map_filter_def)

text \<open>What an edit says of the environment.\<close>

definition edited_environment :: "AppConfigPatch \<Rightarrow> (string, string option) jsmap" where
  "edited_environment patch = (case ac_environment patch of None \<Rightarrow> [] | Some e \<Rightarrow> e)"

lemma sealed_patch_fields:
  assumes "sealed_patch seal key ivs patch = Inr sealed"
    and "splitEnvironmentPatch (edited_environment patch) = (sets, removed)"
  shows "pt_httpPort sealed = ac_httpPort patch" "pt_hasExtraPublicPort sealed = ac_hasExtraPublicPort patch"
    "pt_args sealed = ac_args patch"
    "(case pt_environment sealed of None \<Rightarrow> ([], []) | Some e \<Rightarrow> e) = (sealEnvironment seal key ivs sets, removed)"
    "(name, REDACTED) \<notin> set sets"
  using assms
  by (auto simp: sealed_patch_def edited_environment_def splitEnvironmentPatch_def List.map_filter_simps
      sealEnvironment_def refuseRedactedValues_def Let_def filter_empty_conv split: option.splits if_splits)

lemma sealed_patch_environment:
  assumes "authenticated_cipher seal unseal" and sp: "sealed_patch seal key ivs patch = Inr sealed"
    and "distinct (map fst (edited_environment patch))" "length (edited_environment patch) \<le> length ivs"
  shows "case js_get (edited_environment patch) n of
       None \<Rightarrow> js_get (patched_environment sealed old) n = js_get old n
     | Some None \<Rightarrow> js_get (patched_environment sealed old) n = None
     | Some (Some v) \<Rightarrow> v \<noteq> REDACTED \<and>
         (\<exists>s. js_get (patched_environment sealed old) n = Some s \<and> openSecret unseal key s = Inr v)"
proof -
  obtain sets removed where split: "splitEnvironmentPatch (edited_environment patch) = (sets, removed)" by fastforce
  note fields = sealed_patch_fields [OF sp split]
  have short: "length sets \<le> length ivs"
    using split_shorter [of "edited_environment patch"] assms(4) split by simp
  have sets: "js_get sets n = (case js_get (edited_environment patch) n of Some (Some v) \<Rightarrow> Some v | _ \<Rightarrow> None)"
    using split_sets [OF assms(3), of n] split by simp
  have removed: "n \<in> set removed \<longleftrightarrow> js_get (edited_environment patch) n = Some None"
    using split_removed [OF assms(3), of n] split by simp
  have "fst ` set (sealEnvironment seal key ivs sets) = fst ` set sets"
    using sealed_names [OF short, of seal key] by (metis set_map)
  note get = patched_environment_get [OF fields(4), of old n, unfolded this]
  have named: "n \<in> fst ` set sets \<longleftrightarrow> js_get sets n \<noteq> None" by (simp add: map_of_eq_None_iff)
  show ?thesis
  proof (cases "js_get sets n")
    case None
    then show ?thesis using get named sets removed by (auto split: option.splits)
  next
    case (Some v)
    then have "js_get (edited_environment patch) n = Some (Some v)" "v \<noteq> REDACTED"
      using sets fields(5) [of n] by (auto split: option.splits dest: map_of_SomeD)
    then show ?thesis using get named Some sealed_opens [OF assms(1) short Some] by auto
  qed
qed

lemma update_app_appends:
  assumes "update_app c now appId ownerId name (Some patch) db = (Inr True, db')"
  obtains old new where "newest_config db appId = Some old" "db_configs db' = db_configs db @ [new]"
    "newest_config db' appId = Some new" "cf_id new = c" "cf_appId new = appId" "cf_storage new = cf_storage old"
    "cf_run new = config_columns (patched_config patch (toRunConfig (cf_run old)))"
    "cf_environment new = patched_environment patch (cf_environment old)"
  using assms
  by (auto simp: update_app_def appendConfigVersion_def update_apps_def newest_config_def newest_append
      split: option.splits sum.splits bool.splits)

text \<open>
  C19. An edit changes what it names and nothing else. The version it adds is the newest, on the storage of the
  one before; of the run configuration the port, the extra port and the arguments are the given ones
  where they are given; of the environment a variable that is not named keeps the sealed value it had, one
  given as null is gone, and one that is set opens to what was set, which is never the mark readers are
  shown in the place of a secret.
\<close>

theorem edit_changes_only_what_it_names:
  assumes "authenticated_cipher seal unseal"
    and "update seal key ivs c now appId ownerId name (Some patch) db = (Inr (), db')"
    and "distinct (map fst (edited_environment patch))" "length (edited_environment patch) \<le> length ivs"
  shows "\<exists>old new. newest_config db appId = Some old \<and> newest_config db' appId = Some new \<and>
    db_configs db' = db_configs db @ [new] \<and> cf_storage new = cf_storage old \<and>
    cf_run new = (cf_run old)
      \<lparr>http_port := (case ac_httpPort patch of None \<Rightarrow> http_port (cf_run old) | Some p \<Rightarrow> p),
       has_extra_public_port := (case ac_hasExtraPublicPort patch of
         None \<Rightarrow> has_extra_public_port (cf_run old) | Some p \<Rightarrow> p),
       args := (case ac_args patch of None \<Rightarrow> args (cf_run old) | Some p \<Rightarrow> p)\<rparr> \<and>
    (\<forall>n. case js_get (edited_environment patch) n of
       None \<Rightarrow> js_get (cf_environment new) n = js_get (cf_environment old) n
     | Some None \<Rightarrow> js_get (cf_environment new) n = None
     | Some (Some v) \<Rightarrow> v \<noteq> REDACTED \<and>
         (\<exists>s. js_get (cf_environment new) n = Some s \<and> openSecret unseal key s = Inr v))"
proof -
  obtain sealed where sp: "sealed_patch seal key ivs patch = Inr sealed"
      and ua: "update_app c now appId ownerId name (Some sealed) db = (Inr True, db')"
    using assms(2)
    by (cases "sealed_patch seal key ivs patch")
      (auto simp: update_def split: option.splits sum.splits bool.splits prod.splits)
  from ua show ?thesis
  proof (rule update_app_appends)
    fix old new
    assume old: "newest_config db appId = Some old" "db_configs db' = db_configs db @ [new]"
        "newest_config db' appId = Some new" "cf_storage new = cf_storage old"
      and run: "cf_run new = config_columns (patched_config sealed (toRunConfig (cf_run old)))"
      and env: "cf_environment new = patched_environment sealed (cf_environment old)"
    obtain sets removed where "splitEnvironmentPatch (edited_environment patch) = (sets, removed)" by fastforce
    note fields = sealed_patch_fields [OF sp this]
    have "cf_run new = (cf_run old)
      \<lparr>http_port := (case ac_httpPort patch of None \<Rightarrow> http_port (cf_run old) | Some p \<Rightarrow> p),
       has_extra_public_port := (case ac_hasExtraPublicPort patch of
         None \<Rightarrow> has_extra_public_port (cf_run old) | Some p \<Rightarrow> p),
       args := (case ac_args patch of None \<Rightarrow> args (cf_run old) | Some p \<Rightarrow> p)\<rparr>"
      unfolding run by (cases "cf_run old") (simp add: patched_config_def config_columns_def toRunConfig_def fields cong: option.case_cong)
    then show ?thesis
      using old sealed_patch_environment [OF assms(1) sp assms(3,4), where old = "cf_environment old", folded env] by blast
  qed
qed

definition an_edit :: AppConfigPatch where
  "an_edit = \<lparr>ac_httpPort = None, ac_hasExtraPublicPort = None, ac_args = Some [''serve''],
     ac_environment = Some [(''MODE'', Some ''live''), (''TOKEN'', None)]\<rparr>"

theorem edit_changes_only_what_it_names_witness:
  "\<exists>new. newest_config (snd (update toy_seal () [''k'', ''l''] ''config2'' 7 ''app'' ''ada'' None (Some an_edit) first_app))
       ''app'' = Some new \<and>
     js_get (cf_environment new) ''TOKEN'' = None \<and> args (cf_run new) = [''serve''] \<and> http_port (cf_run new) = 8080"
proof -
  obtain r d where d: "update toy_seal () [''k'', ''l''] ''config2'' 7 ''app'' ''ada'' None (Some an_edit) first_app = (r, d)"
    by fastforce
  have ran: "fst (update toy_seal () [''k'', ''l''] ''config2'' 7 ''app'' ''ada'' None (Some an_edit) first_app) = Inr () \<and>
      distinct (map fst (edited_environment an_edit)) \<and> length (edited_environment an_edit) \<le> length [''k'', ''l''] \<and>
      map_option (\<lambda>c. http_port (cf_run c)) (newest_config first_app ''app'') = Some 8080 \<and>
      js_get (edited_environment an_edit) ''TOKEN'' = Some None \<and>
      ac_httpPort an_edit = None \<and> ac_args an_edit = Some [''serve'']"
    by code_simp
  then have "update toy_seal () [''k'', ''l''] ''config2'' 7 ''app'' ''ada'' None (Some an_edit) first_app = (Inr (), d)"
    using d by simp
  from edit_changes_only_what_it_names [OF toy_cipher this] ran
  show ?thesis using d by (auto split: option.splits)
qed

end
