(* ===== verification/Artifact_Inspection.thy ===== *)
theory Artifact_Inspection
  imports Bytes Protocol
begin

text \<open>
  The bytes of a tenant's binary, before they become an artifact: the ELF header
  (\<open>apps/api/src/lib/elf.ts\<close>), the inspection that hashes them chunk by chunk, and the streams around it
  (\<open>apps/api/src/lib/artifact-digest.ts\<close>).

  A \<open>ReadableStream\<close> is the list of its chunks and how it ends. The digest of \<open>Bun.CryptoHasher\<close>, in hex,
  is the parameter \<open>sha\<close>. A read of a \<open>DataView\<close> past its end raises \<open>RangeError\<close>.
\<close>

section \<open>The ELF header\<close>

definition ELF_MAGIC :: "byte list" where "ELF_MAGIC = [0x7F, 0x45, 0x4C, 0x46]"
definition ELF_MAGIC_LENGTH :: nat where "ELF_MAGIC_LENGTH = length ELF_MAGIC"

definition byte_at :: "byte list \<Rightarrow> nat \<Rightarrow> byte option" where
  "byte_at bytes i = (if i < length bytes then Some (bytes ! i) else None)"

definition isElfExecutable :: "byte list \<Rightarrow> bool" where
  "isElfExecutable bytes = list_all (\<lambda>(i, b). byte_at bytes i = Some b) (enumerate 0 ELF_MAGIC)"

definition ELF_CLASS_AT :: nat where "ELF_CLASS_AT = 4"
definition ELF_CLASS_64 :: byte where "ELF_CLASS_64 = 2"
definition ELF_ENDIANNESS_AT :: nat where "ELF_ENDIANNESS_AT = 5"
definition ELF_LITTLE_ENDIAN :: byte where "ELF_LITTLE_ENDIAN = 1"
definition ELF_HEADER_BYTES :: nat where "ELF_HEADER_BYTES = 0x40"
definition MACHINE_AT :: nat where "MACHINE_AT = 0x12"
definition SEGMENT_TABLE_START_AT :: nat where "SEGMENT_TABLE_START_AT = 0x20"
definition SEGMENT_ENTRY_BYTES_AT :: nat where "SEGMENT_ENTRY_BYTES_AT = 0x36"
definition SEGMENT_COUNT_AT :: nat where "SEGMENT_COUNT_AT = 0x38"
definition SEGMENT_ENTRY_MIN_BYTES :: nat where "SEGMENT_ENTRY_MIN_BYTES = 56"
definition SEGMENT_TYPE_INTERPRETER :: nat where "SEGMENT_TYPE_INTERPRETER = 3"
definition SEGMENT_START_AT :: nat where "SEGMENT_START_AT = 8"
definition SEGMENT_BYTES_AT :: nat where "SEGMENT_BYTES_AT = 32"

datatype view_error = RangeError

text \<open>\<open>getUint16\<close>, \<open>getUint32\<close> and \<open>getBigUint64\<close>, little end first, by their width in bytes.\<close>

definition getUint :: "nat \<Rightarrow> nat \<Rightarrow> byte list \<Rightarrow> (view_error, nat) result" where
  "getUint width offset bytes =
     (if offset + width \<le> length bytes then Inr (be_value (rev (slice_at offset width bytes))) else Inl RangeError)"

definition headerOf :: "byte list \<Rightarrow> byte list option" where
  "headerOf bytes =
     (if length bytes < ELF_HEADER_BYTES \<or> byte_at bytes ELF_CLASS_AT \<noteq> Some ELF_CLASS_64 \<or>
         byte_at bytes ELF_ENDIANNESS_AT \<noteq> Some ELF_LITTLE_ENDIAN
      then None else Some bytes)"

definition machineOf :: "byte list \<Rightarrow> (view_error, nat option) result" where
  "machineOf bytes =
     (case headerOf bytes of None \<Rightarrow> Inr None
      | Some view \<Rightarrow> bind_result (getUint 2 MACHINE_AT view) (\<lambda>machine. Inr (Some machine)))"

text \<open>
  The loop over the program headers. An offset of more than 53 bits is rounded on its way into a
  \<open>Number\<close>, and so is a sum with one; neither is within the bytes either way, which are fewer.
\<close>

fun segments :: "byte list \<Rightarrow> nat \<Rightarrow> nat \<Rightarrow> nat \<Rightarrow> nat \<Rightarrow> (view_error, byte list option) result" where
  "segments bytes tableStart entryBytes index 0 = Inr None"
| "segments bytes tableStart entryBytes index (Suc left) =
     (let entry = tableStart + index * entryBytes in
      if length bytes < entry + entryBytes then Inr None
      else bind_result (getUint 4 entry bytes) (\<lambda>type.
        if type \<noteq> SEGMENT_TYPE_INTERPRETER then segments bytes tableStart entryBytes (Suc index) left
        else
          bind_result (getUint 8 (entry + SEGMENT_START_AT) bytes) (\<lambda>start.
          bind_result (getUint 8 (entry + SEGMENT_BYTES_AT) bytes) (\<lambda>len.
            if length bytes < js_number start + js_number len then Inr None
            else Inr (Some (takeWhile (\<lambda>b. b \<noteq> 0)
              (TextDecoder_decode (slice_at (js_number start) (js_number len) bytes))))))))"

definition interpreterOf :: "byte list \<Rightarrow> (view_error, byte list option) result" where
  "interpreterOf bytes =
     (case headerOf bytes of None \<Rightarrow> Inr None
      | Some view \<Rightarrow>
          bind_result (getUint 8 SEGMENT_TABLE_START_AT view) (\<lambda>tableStart.
          bind_result (getUint 2 SEGMENT_ENTRY_BYTES_AT view) (\<lambda>entryBytes.
          bind_result (getUint 2 SEGMENT_COUNT_AT view) (\<lambda>entryCount.
            if entryBytes < SEGMENT_ENTRY_MIN_BYTES then Inr None
            else segments bytes (js_number tableStart) entryBytes 0 entryCount))))"

definition GUEST_INTERPRETERS :: "string list" where
  "GUEST_INTERPRETERS =
     [''/lib64/ld-linux-x86-64.so.2'', ''/usr/lib64/ld-linux-x86-64.so.2'',
      ''/lib/x86_64-linux-gnu/ld-linux-x86-64.so.2'', ''/usr/lib/x86_64-linux-gnu/ld-linux-x86-64.so.2'']"

definition isGuestInterpreter :: "byte list \<Rightarrow> bool" where
  "isGuestInterpreter interpreter = (interpreter \<in> set (map ascii GUEST_INTERPRETERS))"

definition GUEST_MACHINE :: nat where "GUEST_MACHINE = 62"

definition isGuestMachine :: "nat \<Rightarrow> bool" where
  "isGuestMachine machine = (machine = GUEST_MACHINE)"

definition ARM64_MACHINE :: nat where "ARM64_MACHINE = 183"

definition describeMachine :: "nat \<Rightarrow> string" where
  "describeMachine machine = (if machine = ARM64_MACHINE then ''arm64'' else ''ELF machine '' @ show_nat machine)"

section \<open>The inspection\<close>

definition HEADER_BYTES :: nat where "HEADER_BYTES = 65536"

record ArtifactIdentity =
  id_digest :: Sha256Digest
  id_sizeBytes :: nat
  id_objectKey :: ObjectKey

datatype ArtifactInspection =
  StoredInspection ArtifactIdentity | NotExecutable | UnsupportedMachine nat
  | UnsupportedInterpreter "byte list" | TooLarge

definition refuseMachine :: "byte list \<Rightarrow> (view_error, ArtifactInspection option) result" where
  "refuseMachine bytes = bind_result (machineOf bytes) (\<lambda>machine.
     Inr (case machine of None \<Rightarrow> None
          | Some m \<Rightarrow> if isGuestMachine m then None else Some (UnsupportedMachine m)))"

definition refuseInterpreter :: "byte list \<Rightarrow> (view_error, ArtifactInspection option) result" where
  "refuseInterpreter bytes = bind_result (interpreterOf bytes) (\<lambda>interpreter.
     Inr (case interpreter of None \<Rightarrow> None
          | Some i \<Rightarrow> if isGuestInterpreter i then None else Some (UnsupportedInterpreter i)))"

definition refuseHeader :: "byte list \<Rightarrow> (view_error, ArtifactInspection option) result" where
  "refuseHeader bytes = bind_result (refuseMachine bytes) (\<lambda>refusal.
     case refusal of Some r \<Rightarrow> Inr (Some r) | None \<Rightarrow> refuseInterpreter bytes)"

definition refuseChunk ::
  "byte list \<Rightarrow> nat \<Rightarrow> bool \<Rightarrow> nat \<Rightarrow> nat \<Rightarrow> (view_error, ArtifactInspection option) result" where
  "refuseChunk header headerLength headerJustFilled sizeBytes maxSizeBytes =
     (if ELF_MAGIC_LENGTH \<le> headerLength \<and> \<not> isElfExecutable header then Inr (Some NotExecutable)
      else bind_result (if headerJustFilled then refuseHeader header else Inr None) (\<lambda>refusal.
        Inr (case refusal of
          Some r \<Rightarrow> Some r
        | None \<Rightarrow> if maxSizeBytes < sizeBytes then Some TooLarge else None)))"

text \<open>What \<open>reading\<close> closes over; \<open>rd_hashed\<close> is what the hasher was updated with.\<close>

record reading =
  rd_header :: "byte list"
  rd_headerLength :: nat
  rd_sizeBytes :: nat
  rd_hashed :: "byte list"

definition new_reading :: reading where
  "new_reading = \<lparr>rd_header = replicate HEADER_BYTES 0, rd_headerLength = 0, rd_sizeBytes = 0, rd_hashed = []\<rparr>"

definition take_chunk ::
  "nat \<Rightarrow> byte list \<Rightarrow> reading \<Rightarrow> (view_error, ArtifactInspection option \<times> reading) result" where
  "take_chunk maxSizeBytes chunk r =
     (let wasComplete = (rd_headerLength r = HEADER_BYTES);
          taken = (if wasComplete then 0 else min (length chunk) (HEADER_BYTES - rd_headerLength r));
          r' = r\<lparr>rd_header := take (rd_headerLength r) (rd_header r) @ take taken chunk @
                  drop (rd_headerLength r + taken) (rd_header r),
                 rd_headerLength := rd_headerLength r + taken,
                 rd_sizeBytes := rd_sizeBytes r + length chunk\<rparr> in
      bind_result (refuseChunk (rd_header r') (rd_headerLength r')
          (\<not> wasComplete \<and> rd_headerLength r' = HEADER_BYTES) (rd_sizeBytes r') maxSizeBytes) (\<lambda>refusal.
        Inr (case refusal of
          Some x \<Rightarrow> (Some x, r')
        | None \<Rightarrow> (None, r'\<lparr>rd_hashed := rd_hashed r' @ chunk\<rparr>))))"

definition verdict :: "(byte list \<Rightarrow> Sha256Digest) \<Rightarrow> reading \<Rightarrow> (view_error, ArtifactInspection) result" where
  "verdict sha r =
     (let read = take (rd_headerLength r) (rd_header r) in
      if \<not> isElfExecutable read then Inr NotExecutable
      else bind_result (if rd_headerLength r < HEADER_BYTES then refuseHeader read else Inr None) (\<lambda>refusal.
        Inr (case refusal of
          Some x \<Rightarrow> x
        | None \<Rightarrow> StoredInspection
            \<lparr>id_digest = sha (rd_hashed r), id_sizeBytes = rd_sizeBytes r, id_objectKey = sha (rd_hashed r)\<rparr>)))"

fun inspect_from ::
  "(byte list \<Rightarrow> Sha256Digest) \<Rightarrow> nat \<Rightarrow> reading \<Rightarrow> byte list list \<Rightarrow> (view_error, ArtifactInspection) result" where
  "inspect_from sha maxSizeBytes r [] = verdict sha r"
| "inspect_from sha maxSizeBytes r (chunk # chunks) =
     bind_result (take_chunk maxSizeBytes chunk r) (\<lambda>(refusal, r').
       case refusal of Some x \<Rightarrow> Inr x | None \<Rightarrow> inspect_from sha maxSizeBytes r' chunks)"

definition inspectArtifact ::
  "(byte list \<Rightarrow> Sha256Digest) \<Rightarrow> nat \<Rightarrow> byte list list \<Rightarrow> (view_error, ArtifactInspection) result" where
  "inspectArtifact sha maxSizeBytes stream = inspect_from sha maxSizeBytes new_reading stream"

section \<open>Streams\<close>

text \<open>How a stream ends: by closing, or by an error of the source or of what bounds it.\<close>

datatype stream_end = Closed | Interrupted | ArtifactTooLargeError | Broken

type_synonym stream = "byte list list \<times> stream_end"

fun bounded_from :: "nat \<Rightarrow> nat \<Rightarrow> byte list list \<Rightarrow> stream_end \<Rightarrow> stream" where
  "bounded_from maxSizeBytes read [] how = ([], how)"
| "bounded_from maxSizeBytes read (chunk # chunks) how =
     (if maxSizeBytes < read + length chunk then ([], ArtifactTooLargeError)
      else apfst (Cons chunk) (bounded_from maxSizeBytes (read + length chunk) chunks how))"

definition boundedTo :: "nat \<Rightarrow> stream \<Rightarrow> stream" where
  "boundedTo maxSizeBytes source = bounded_from maxSizeBytes 0 (fst source) (snd source)"

text \<open>The source as it was, and what it served, which is read to its end whoever gives up on it.\<close>

definition digesting :: "(byte list \<Rightarrow> Sha256Digest) \<Rightarrow> stream \<Rightarrow> stream \<times> (stream_end, Sha256Digest) result" where
  "digesting sha source =
     (source, if snd source = Closed then Inr (sha (concat (fst source))) else Inl (snd source))"

text \<open>
  The inspection of bytes on their way somewhere else: what comes out at the other end and how it ends
  there, a refusal (\<open>RefusedArtifactError\<close>) as \<open>Inl\<close>, and the verdict, which is settled once a chunk is
  refused or the stream has closed.
\<close>

type_synonym passed = "(byte list list \<times> (ArtifactInspection, stream_end) result) \<times> ArtifactInspection option"

fun pass_through ::
  "(byte list \<Rightarrow> Sha256Digest) \<Rightarrow> nat \<Rightarrow> reading \<Rightarrow> byte list list \<Rightarrow> stream_end \<Rightarrow> passed" where
  "pass_through sha maxSizeBytes r [] how =
     (if how = Closed
      then (case verdict sha r of Inr v \<Rightarrow> (([], Inr Closed), Some v) | Inl _ \<Rightarrow> (([], Inr Broken), None))
      else (([], Inr how), None))"
| "pass_through sha maxSizeBytes r (chunk # chunks) how =
     (case take_chunk maxSizeBytes chunk r of
        Inl _ \<Rightarrow> (([], Inr Broken), None)
      | Inr (Some x, _) \<Rightarrow> (([], Inl x), Some x)
      | Inr (None, r') \<Rightarrow> apfst (apfst (Cons chunk)) (pass_through sha maxSizeBytes r' chunks how))"

definition inspectingPassThrough ::
  "(byte list \<Rightarrow> Sha256Digest) \<Rightarrow> nat \<Rightarrow> stream \<Rightarrow> passed" where
  "inspectingPassThrough sha maxSizeBytes source =
     pass_through sha maxSizeBytes new_reading (fst source) (snd source)"

section \<open>No read is out of range\<close>

lemma getUint_within: "offset + width \<le> length bytes \<Longrightarrow> \<exists>n. getUint width offset bytes = Inr n"
  by (simp add: getUint_def)

lemma headerOf_Some: "headerOf bytes = Some view \<Longrightarrow> view = bytes \<and> ELF_HEADER_BYTES \<le> length bytes"
  by (simp add: headerOf_def split: if_splits)

lemma segments_total:
  "SEGMENT_ENTRY_MIN_BYTES \<le> entryBytes \<Longrightarrow> \<exists>path. segments bytes tableStart entryBytes index left = Inr path"
proof (induction left arbitrary: index)
  case (Suc left)
  let ?entry = "tableStart + index * entryBytes"
  show ?case
  proof (cases "length bytes < ?entry + entryBytes")
    case False
    then have "?entry + 4 \<le> length bytes" "?entry + SEGMENT_START_AT + 8 \<le> length bytes"
      "?entry + SEGMENT_BYTES_AT + 8 \<le> length bytes"
      using Suc.prems by (simp_all add: SEGMENT_START_AT_def SEGMENT_BYTES_AT_def SEGMENT_ENTRY_MIN_BYTES_def)
    then obtain t a b where "getUint 4 ?entry bytes = Inr t" "getUint 8 (?entry + SEGMENT_START_AT) bytes = Inr a"
      "getUint 8 (?entry + SEGMENT_BYTES_AT) bytes = Inr b"
      using getUint_within by metis
    then show ?thesis using False Suc by (simp add: Let_def)
  qed simp
qed simp

lemma interpreterOf_total: "\<exists>path. interpreterOf bytes = Inr path"
proof (cases "headerOf bytes")
  case (Some view)
  note view = headerOf_Some [OF Some]
  then obtain t e c where "getUint 8 SEGMENT_TABLE_START_AT view = Inr t" "getUint 2 SEGMENT_ENTRY_BYTES_AT view = Inr e"
    "getUint 2 SEGMENT_COUNT_AT view = Inr c"
    by (auto simp: getUint_def ELF_HEADER_BYTES_def SEGMENT_TABLE_START_AT_def SEGMENT_ENTRY_BYTES_AT_def SEGMENT_COUNT_AT_def)
  then show ?thesis
    using Some segments_total [of e bytes "js_number t" 0 c] by (auto simp: interpreterOf_def not_less)
qed (simp add: interpreterOf_def)

lemma machineOf_total: "\<exists>machine. machineOf bytes = Inr machine"
  by (auto simp: machineOf_def getUint_def ELF_HEADER_BYTES_def MACHINE_AT_def dest: headerOf_Some split: option.splits)

lemma refuseHeader_total: "\<exists>refusal. refuseHeader bytes = Inr refusal"
proof -
  obtain m i where "machineOf bytes = Inr m" "interpreterOf bytes = Inr i"
    using machineOf_total interpreterOf_total by metis
  then show ?thesis
    by (auto simp: refuseHeader_def refuseMachine_def refuseInterpreter_def split: option.splits)
qed

section \<open>The verdict on the whole\<close>

text \<open>The verdict on bytes that are all there.\<close>

definition inspect_whole ::
  "(byte list \<Rightarrow> Sha256Digest) \<Rightarrow> nat \<Rightarrow> byte list \<Rightarrow> (view_error, ArtifactInspection) result" where
  "inspect_whole sha maxSizeBytes bytes =
     (if \<not> isElfExecutable bytes then Inr NotExecutable
      else bind_result (refuseHeader (take HEADER_BYTES bytes)) (\<lambda>refusal.
        Inr (case refusal of
          Some r \<Rightarrow> r
        | None \<Rightarrow> if maxSizeBytes < length bytes then TooLarge
            else StoredInspection
              \<lparr>id_digest = sha bytes, id_sizeBytes = length bytes, id_objectKey = sha bytes\<rparr>)))"

lemma inspect_whole_total: "\<exists>v. inspect_whole sha maxSizeBytes bytes = Inr v"
proof -
  obtain ref where "refuseHeader (take HEADER_BYTES bytes) = Inr ref" using refuseHeader_total by blast
  then show ?thesis by (simp add: inspect_whole_def)
qed

text \<open>What the bytes so far settle, and what a reading knows of them.\<close>

definition settled_by :: "nat \<Rightarrow> byte list \<Rightarrow> ArtifactInspection option" where
  "settled_by maxSizeBytes bytes =
     (if ELF_MAGIC_LENGTH \<le> length bytes \<and> \<not> isElfExecutable bytes then Some NotExecutable
      else if HEADER_BYTES \<le> length bytes \<and> refuseHeader (take HEADER_BYTES bytes) \<noteq> Inr None
      then (case refuseHeader (take HEADER_BYTES bytes) of Inr r \<Rightarrow> r | Inl _ \<Rightarrow> None)
      else if maxSizeBytes < length bytes then Some TooLarge else None)"

definition reads :: "reading \<Rightarrow> byte list \<Rightarrow> bool" where
  "reads r bytes \<longleftrightarrow>
     rd_headerLength r = min (length bytes) HEADER_BYTES \<and> length (rd_header r) = HEADER_BYTES \<and>
     take (rd_headerLength r) (rd_header r) = take HEADER_BYTES bytes \<and>
     rd_sizeBytes r = length bytes \<and> rd_hashed r = bytes"

lemma isElf_iff: "isElfExecutable bytes \<longleftrightarrow> take 4 bytes = ELF_MAGIC"
proof -
  have "isElfExecutable bytes \<longleftrightarrow> byte_at bytes 0 = Some 0x7F \<and> byte_at bytes 1 = Some 0x45 \<and>
    byte_at bytes 2 = Some 0x4C \<and> byte_at bytes 3 = Some 0x46"
    by (simp add: isElfExecutable_def ELF_MAGIC_def enumerate_Suc_eq numeral_2_eq_2 numeral_3_eq_3)
  also have "\<dots> \<longleftrightarrow> take 4 bytes = ELF_MAGIC"
    by (cases bytes; cases "tl bytes"; cases "tl (tl bytes)"; cases "tl (tl (tl bytes))")
      (auto simp: byte_at_def ELF_MAGIC_def eval_nat_numeral)
  finally show ?thesis .
qed

lemma isElf_prefix: "ELF_MAGIC_LENGTH \<le> length bytes \<Longrightarrow> isElfExecutable (bytes @ rest) = isElfExecutable bytes"
  by (simp add: isElf_iff ELF_MAGIC_LENGTH_def ELF_MAGIC_def)

lemma isElf_length: "isElfExecutable bytes \<Longrightarrow> ELF_MAGIC_LENGTH \<le> length bytes"
  by (auto simp: isElf_iff ELF_MAGIC_LENGTH_def ELF_MAGIC_def dest: arg_cong [of _ _ length])

lemma settled_whole:
  assumes "HEADER_BYTES \<le> maxSizeBytes" and "settled_by maxSizeBytes bytes = Some x"
  shows "inspect_whole sha maxSizeBytes (bytes @ rest) = Inr x"
proof -
  obtain ref where ref: "refuseHeader (take HEADER_BYTES bytes) = Inr ref" using refuseHeader_total by blast
  consider "ELF_MAGIC_LENGTH \<le> length bytes" "\<not> isElfExecutable bytes" "x = NotExecutable"
    | "HEADER_BYTES \<le> length bytes" "ref = Some x" "isElfExecutable bytes"
    | "maxSizeBytes < length bytes" "ref = None" "isElfExecutable bytes" "x = TooLarge"
    using assms ref
    by (auto simp: settled_by_def ELF_MAGIC_LENGTH_def ELF_MAGIC_def HEADER_BYTES_def split: if_splits)
  then show ?thesis
    using assms(1) ref isElf_prefix isElf_length by cases (auto simp: inspect_whole_def)
qed


lemma settled_None_cases:
  assumes "settled_by maxSizeBytes bytes = None"
  shows "ELF_MAGIC_LENGTH \<le> length bytes \<Longrightarrow> isElfExecutable bytes"
    "HEADER_BYTES \<le> length bytes \<Longrightarrow> refuseHeader (take HEADER_BYTES bytes) = Inr None"
    "length bytes \<le> maxSizeBytes"
proof -
  obtain ref where "refuseHeader (take HEADER_BYTES bytes) = Inr ref" using refuseHeader_total by blast
  then show "ELF_MAGIC_LENGTH \<le> length bytes \<Longrightarrow> isElfExecutable bytes"
    "HEADER_BYTES \<le> length bytes \<Longrightarrow> refuseHeader (take HEADER_BYTES bytes) = Inr None"
    "length bytes \<le> maxSizeBytes"
    using assms by (auto simp: settled_by_def split: if_splits)
qed

lemma reads_new: "reads new_reading []"
  by (simp add: reads_def new_reading_def)

text \<open>A chunk of a stream that is still open settles what all the bytes up to it settle.\<close>

lemma take_chunk_settles:
  assumes r: "reads r bytes" and quiet: "settled_by maxSizeBytes bytes = None"
  shows "\<exists>r'. take_chunk maxSizeBytes chunk r = Inr (settled_by maxSizeBytes (bytes @ chunk), r') \<and>
    (settled_by maxSizeBytes (bytes @ chunk) = None \<longrightarrow> reads r' (bytes @ chunk))"
proof -
  let ?h = "rd_headerLength r" and ?all = "bytes @ chunk"
  define taken where "taken = (if ?h = HEADER_BYTES then 0 else min (length chunk) (HEADER_BYTES - ?h))"
  define header where "header = take ?h (rd_header r) @ take taken chunk @ drop (?h + taken) (rd_header r)"
  have len: "?h + taken = min (length ?all) HEADER_BYTES"
    using r by (auto simp: reads_def min_def taken_def)
  have full: "length header = HEADER_BYTES"
    using r by (auto simp: reads_def min_def header_def taken_def)
  have front: "take (?h + taken) header = take HEADER_BYTES ?all"
    using r by (auto simp: reads_def min_def header_def taken_def)
  have magic: "isElfExecutable header = isElfExecutable ?all" if "ELF_MAGIC_LENGTH \<le> ?h + taken"
  proof -
    have n: "4 \<le> ?h + taken" using that by (simp add: ELF_MAGIC_LENGTH_def ELF_MAGIC_def)
    have "take 4 header = take 4 (take (?h + taken) header)" using n by (simp only: take_take) (simp add: min_absorb1)
    also have "\<dots> = take 4 ?all" unfolding front by (simp only: take_take) (simp add: HEADER_BYTES_def)
    finally show ?thesis by (simp add: isElf_iff)
  qed
  have filled: "header = take HEADER_BYTES ?all" if "?h + taken = HEADER_BYTES"
    using front full that by (metis order_refl take_all)
  have old: "refuseHeader (take HEADER_BYTES ?all) = Inr None" if "?h = HEADER_BYTES"
  proof -
    have "HEADER_BYTES \<le> length bytes" using r that by (simp add: reads_def min_def split: if_splits)
    then show ?thesis using settled_None_cases(2) [OF quiet] by simp
  qed
  have reached: "ELF_MAGIC_LENGTH \<le> ?h + taken \<longleftrightarrow> ELF_MAGIC_LENGTH \<le> length ?all" "?h + taken = HEADER_BYTES \<longleftrightarrow> HEADER_BYTES \<le> length ?all"
    unfolding len by (auto simp: ELF_MAGIC_LENGTH_def ELF_MAGIC_def HEADER_BYTES_def)
  obtain ref where ref: "refuseHeader (take HEADER_BYTES ?all) = Inr ref" using refuseHeader_total by blast
  have "refuseChunk header (?h + taken) (?h \<noteq> HEADER_BYTES \<and> ?h + taken = HEADER_BYTES) (rd_sizeBytes r + length chunk) maxSizeBytes
    = Inr (settled_by maxSizeBytes ?all)"
  proof (cases "ELF_MAGIC_LENGTH \<le> length ?all \<and> \<not> isElfExecutable ?all")
    case True
    then show ?thesis using magic reached(1) by (simp add: refuseChunk_def settled_by_def)
  next
    case False
    then have "\<not> (ELF_MAGIC_LENGTH \<le> ?h + taken \<and> \<not> isElfExecutable header)" using magic reached(1) by blast
    moreover have "rd_sizeBytes r + length chunk = length ?all" using r by (simp add: reads_def)
    ultimately show ?thesis
      using False ref filled old reached(2)
      by (cases "?h + taken = HEADER_BYTES"; cases "?h = HEADER_BYTES")
        (simp_all add: refuseChunk_def settled_by_def split: option.split, blast)
  qed
  moreover have "reads (r\<lparr>rd_header := header, rd_headerLength := ?h + taken, rd_sizeBytes := rd_sizeBytes r + length chunk,
      rd_hashed := rd_hashed r @ chunk\<rparr>) ?all"
    using r len full front by (simp add: reads_def)
  ultimately show ?thesis
    unfolding take_chunk_def Let_def taken_def [symmetric] header_def [symmetric] by (simp split: option.split)
qed

lemma verdict_whole:
  assumes r: "reads r bytes" and quiet: "settled_by maxSizeBytes bytes = None"
  shows "verdict sha r = inspect_whole sha maxSizeBytes bytes"
proof -
  note q = settled_None_cases [OF quiet]
  have read: "take (rd_headerLength r) (rd_header r) = take HEADER_BYTES bytes" using r unfolding reads_def by blast
  have "isElfExecutable (take HEADER_BYTES bytes) = isElfExecutable bytes"
    by (simp add: isElf_iff HEADER_BYTES_def)
  moreover have "rd_headerLength r = min (length bytes) HEADER_BYTES" "rd_sizeBytes r = length bytes" "rd_hashed r = bytes"
    using r unfolding reads_def by blast+
  ultimately show ?thesis
    unfolding verdict_def Let_def read inspect_whole_def using q
    by (cases "length bytes < HEADER_BYTES") (auto simp: not_less bind_result_def cong: option.case_cong split: sum.splits)
qed

lemma inspect_from_whole:
  assumes "HEADER_BYTES \<le> maxSizeBytes" and "reads r bytes" and "settled_by maxSizeBytes bytes = None"
  shows "inspect_from sha maxSizeBytes r chunks = inspect_whole sha maxSizeBytes (bytes @ concat chunks)"
  using assms(2,3)
proof (induction chunks arbitrary: r bytes)
  case (Cons chunk chunks)
  obtain r' where step: "take_chunk maxSizeBytes chunk r = Inr (settled_by maxSizeBytes (bytes @ chunk), r')"
      and next_r: "settled_by maxSizeBytes (bytes @ chunk) = None \<longrightarrow> reads r' (bytes @ chunk)"
    using take_chunk_settles [OF Cons.prems] by blast
  show ?case
  proof (cases "settled_by maxSizeBytes (bytes @ chunk)")
    case None
    then show ?thesis using step next_r Cons.IH [of r' "bytes @ chunk"] by simp
  next
    case (Some x)
    then show ?thesis using step settled_whole [OF assms(1) Some, of sha "concat chunks"] by simp
  qed
qed (simp add: verdict_whole)

lemma settled_nothing: "settled_by maxSizeBytes [] = None"
  by (simp add: settled_by_def ELF_MAGIC_LENGTH_def ELF_MAGIC_def HEADER_BYTES_def)

lemma inspectArtifact_whole:
  assumes "HEADER_BYTES \<le> maxSizeBytes"
  shows "inspectArtifact sha maxSizeBytes chunks = inspect_whole sha maxSizeBytes (concat chunks)"
  using inspect_from_whole [OF assms reads_new settled_nothing] by (simp add: inspectArtifact_def)

lemma stored_identity:
  assumes "inspect_whole sha maxSizeBytes bytes = Inr (StoredInspection i)"
  shows "isElfExecutable bytes \<and> length bytes \<le> maxSizeBytes \<and> refuseHeader (take HEADER_BYTES bytes) = Inr None \<and>
    i = \<lparr>id_digest = sha bytes, id_sizeBytes = length bytes, id_objectKey = sha bytes\<rparr>"
proof -
  obtain ref where ref: "refuseHeader (take HEADER_BYTES bytes) = Inr ref" using refuseHeader_total by blast
  then have "ref \<noteq> Some (StoredInspection i)"
    by (auto simp: refuseHeader_def refuseMachine_def refuseInterpreter_def bind_result_Inr_iff split: option.splits if_splits)
  then show ?thesis
    using assms ref by (auto simp: inspect_whole_def split: if_splits option.splits)
qed

text \<open>
  C21. However a binary arrives, it gets one verdict. Read in any chunks, cut anywhere, the inspection answers
  what the bytes as a whole are, never raises on a header that lies about its own tables, and calls them
  stored only when they are an ELF file within the size, of a machine and with a loader the guest has
  where they name one, under the digest of exactly those bytes.
\<close>

theorem one_verdict_however_it_arrives:
  assumes "HEADER_BYTES \<le> maxSizeBytes"
  shows "inspectArtifact sha maxSizeBytes chunks = inspect_whole sha maxSizeBytes (concat chunks) \<and>
    (\<exists>v. inspectArtifact sha maxSizeBytes chunks = Inr v) \<and>
    (\<forall>i. inspectArtifact sha maxSizeBytes chunks = Inr (StoredInspection i) \<longrightarrow>
       isElfExecutable (concat chunks) \<and> length (concat chunks) \<le> maxSizeBytes \<and>
       machineOf (take HEADER_BYTES (concat chunks)) \<in> {Inr None, Inr (Some GUEST_MACHINE)} \<and>
       (\<forall>path. interpreterOf (take HEADER_BYTES (concat chunks)) = Inr (Some path) \<longrightarrow> isGuestInterpreter path) \<and>
       i = \<lparr>id_digest = sha (concat chunks), id_sizeBytes = length (concat chunks), id_objectKey = sha (concat chunks)\<rparr>)"
proof -
  let ?b = "concat chunks" and ?h = "take HEADER_BYTES (concat chunks)"
  obtain m i ref where parts: "machineOf ?h = Inr m" "interpreterOf ?h = Inr i" "refuseHeader ?h = Inr ref"
    using machineOf_total interpreterOf_total refuseHeader_total by metis
  have clear: "m \<in> {None, Some GUEST_MACHINE}" "\<And>p. i = Some p \<Longrightarrow> isGuestInterpreter p" if "ref = None"
    using that parts
    by (auto simp: refuseHeader_def refuseMachine_def refuseInterpreter_def isGuestMachine_def split: option.splits if_splits)
  note inspect_whole_total [of sha maxSizeBytes ?b]
  moreover note stored_identity [of sha maxSizeBytes ?b]
  ultimately show ?thesis
    unfolding inspectArtifact_whole [OF assms] using parts clear by auto
qed

text \<open>The shortest binary that is one: the magic, a 64-bit header of the guest's machine, no segments.\<close>

definition tiny_elf :: "byte list" where
  "tiny_elf = ELF_MAGIC @ [2, 1] @ replicate 12 0 @ [62, 0] @ replicate 44 0"

lemma tiny_elf_whole:
  "inspect_whole sha 268435456 tiny_elf =
    Inr (StoredInspection \<lparr>id_digest = sha tiny_elf, id_sizeBytes = 64, id_objectKey = sha tiny_elf\<rparr>)"
proof -
  have "take HEADER_BYTES tiny_elf = tiny_elf"
    by (simp add: HEADER_BYTES_def tiny_elf_def ELF_MAGIC_def)
  moreover have "isElfExecutable tiny_elf \<and> refuseHeader tiny_elf = Inr None \<and> length tiny_elf = 64"
    by code_simp
  ultimately show ?thesis by (simp add: inspect_whole_def)
qed

theorem one_verdict_however_it_arrives_witness:
  "inspectArtifact (\<lambda>_. ''d'') 268435456 [take 3 tiny_elf, [], drop 3 tiny_elf] =
     Inr (StoredInspection \<lparr>id_digest = ''d'', id_sizeBytes = 64, id_objectKey = ''d''\<rparr>)"
  using one_verdict_however_it_arrives [of 268435456 "\<lambda>_. ''d''" "[take 3 tiny_elf, [], drop 3 tiny_elf]"]
  by (simp add: HEADER_BYTES_def tiny_elf_whole)

lemma settled_not_stored: "settled_by maxSizeBytes bytes \<noteq> Some (StoredInspection i)"
proof -
  obtain ref where "refuseHeader (take HEADER_BYTES bytes) = Inr ref" using refuseHeader_total by blast
  then show ?thesis
    by (auto simp: settled_by_def refuseHeader_def refuseMachine_def refuseInterpreter_def bind_result_Inr_iff
        split: if_splits option.splits)
qed

text \<open>What passes through is inspected as what is read back.\<close>

lemma pass_through_agrees:
  assumes "HEADER_BYTES \<le> maxSizeBytes" and "reads r bytes" and "settled_by maxSizeBytes bytes = None"
  shows "case pass_through sha maxSizeBytes r chunks how of ((out, e), v) \<Rightarrow>
    (v = Some (StoredInspection i) \<longrightarrow> e = Inr Closed \<and> how = Closed \<and> out = chunks) \<and>
    e \<noteq> Inl (StoredInspection i) \<and>
    (how = Closed \<longrightarrow> (\<exists>x. v = Some x \<and> inspect_from sha maxSizeBytes r chunks = Inr x))"
  using assms(2,3)
proof (induction chunks arbitrary: r bytes)
  case Nil
  obtain v where "inspect_whole sha maxSizeBytes bytes = Inr v"
    using inspect_whole_total by blast
  then show ?case using verdict_whole [OF Nil, of sha] by simp
next
  case (Cons chunk chunks)
  obtain r' where step: "take_chunk maxSizeBytes chunk r = Inr (settled_by maxSizeBytes (bytes @ chunk), r')"
      and next_r: "settled_by maxSizeBytes (bytes @ chunk) = None \<longrightarrow> reads r' (bytes @ chunk)"
    using take_chunk_settles [OF Cons.prems] by blast
  show ?case
  proof (cases "settled_by maxSizeBytes (bytes @ chunk)")
    case None
    then show ?thesis
      using step next_r Cons.IH [of r' "bytes @ chunk"] by (auto split: prod.splits)
  next
    case (Some x)
    then have "x \<noteq> StoredInspection i" using settled_not_stored by metis
    then show ?thesis using step Some by simp
  qed
qed

end
