(* ===== verification/Artifacts.thy ===== *)
theory Artifacts
  imports Apps Artifact_Inspection
begin

text \<open>
  Artifacts: \<open>apps/api/src/repositories/artifacts.repository.ts\<close>, \<open>cached-binaries.repository.ts\<close>,
  \<open>artifact-storage.repository.ts\<close>, \<open>apps/api/src/lib/remote-fetch.ts\<close> and
  \<open>apps/api/src/services/artifacts.service.ts\<close>.

  Requests run at once, each waiting on the store or the database in between, so a request under way is a
  \<open>task\<close> and every call it makes is a step of its own: \<open>advance\<close> makes the next one. What a tenant puts at
  a signed url and what a purge removes are steps between them. The store answers each call with the
  object as it is at that moment. \<open>sha\<close> is the digest in hex and \<open>unwrap\<close> the walk into an archive; the column
  \<open>original_file_url\<close> is written and shown and nothing reads it, and it is left out. A row with no digest has
  no size either, which reads as zero.
\<close>

section \<open>Rows\<close>

datatype PendingArtifactInsert = PendingCreated ArtifactRow | NoApp | Held

definition app_is_live :: "Database \<Rightarrow> AppId \<Rightarrow> OwnerId \<Rightarrow> bool" where
  "app_is_live db appId ownerId =
     list_ex (\<lambda>a. ap_id a = appId \<and> ap_owner a = ownerId \<and> ap_state a \<noteq> AppDeleted) (db_apps db)"

definition insertPending ::
  "ArtifactId \<Rightarrow> int \<Rightarrow> AppId \<Rightarrow> OwnerId \<Rightarrow> string \<Rightarrow> Sha256Digest option \<Rightarrow> bool \<Rightarrow> Database \<Rightarrow>
     PendingArtifactInsert \<times> Database" where
  "insertPending newId now appId ownerId originalFileName sourceDigest onlyOne db =
     (if \<not> app_is_live db appId ownerId then (NoApp, db)
      else if onlyOne \<and> list_ex (\<lambda>ar. ar_appId ar = appId) (db_artifacts db) then (Held, db)
      else let row = \<lparr>ar_id = newId, ar_appId = appId, ar_digest = None, ar_sizeBytes = 0, ar_objectKey = None,
                     ar_filename = originalFileName, ar_sourceDigest = sourceDigest, ar_createdAt = now\<rparr> in
        (PendingCreated row, db\<lparr>db_artifacts := db_artifacts db @ [row]\<rparr>))"

definition pending_of :: "Database \<Rightarrow> AppId \<Rightarrow> ArtifactId \<Rightarrow> OwnerId \<Rightarrow> ArtifactRow \<Rightarrow> bool" where
  "pending_of db appId artifactId ownerId ar =
     (ar_id ar = artifactId \<and> ar_appId ar = appId \<and> app_is_live db appId ownerId \<and> ar_digest ar = None)"

definition complete ::
  "AppId \<Rightarrow> ArtifactId \<Rightarrow> OwnerId \<Rightarrow> ArtifactIdentity \<Rightarrow> Database \<Rightarrow> ArtifactRow option \<times> Database" where
  "complete appId artifactId ownerId identity db =
     (let write = (\<lambda>ar. ar\<lparr>ar_digest := Some (id_digest identity), ar_sizeBytes := int (id_sizeBytes identity),
            ar_objectKey := Some (id_objectKey identity)\<rparr>);
          p = pending_of db appId artifactId ownerId in
      (map_option write (find p (db_artifacts db)),
       db\<lparr>db_artifacts := map (\<lambda>ar. if p ar then write ar else ar) (db_artifacts db)\<rparr>))"

definition remove_artifact :: "AppId \<Rightarrow> ArtifactId \<Rightarrow> OwnerId \<Rightarrow> Database \<Rightarrow> Database" where
  "remove_artifact appId artifactId ownerId db =
     db\<lparr>db_artifacts := filter (\<lambda>ar. \<not> pending_of db appId artifactId ownerId ar) (db_artifacts db)\<rparr>"

definition findPending :: "AppId \<Rightarrow> ArtifactId \<Rightarrow> OwnerId \<Rightarrow> Database \<Rightarrow> ArtifactRow option" where
  "findPending appId artifactId ownerId db = find (pending_of db appId artifactId ownerId) (db_artifacts db)"

definition MS_PER_SECOND :: int where "MS_PER_SECOND = 1000"

definition listAbandoned :: "int \<Rightarrow> int \<Rightarrow> Database \<Rightarrow> ArtifactRow list" where
  "listAbandoned olderThanSeconds now db =
     filter (\<lambda>ar. ar_digest ar = None \<and> ar_createdAt ar < now - olderThanSeconds * MS_PER_SECOND) (db_artifacts db)"

definition removeAbandoned :: "ArtifactId \<Rightarrow> Database \<Rightarrow> Database" where
  "removeAbandoned artifactId db =
     db\<lparr>db_artifacts := filter (\<lambda>ar. \<not> (ar_id ar = artifactId \<and> ar_digest ar = None)) (db_artifacts db)\<rparr>"

definition listByApp :: "AppId \<Rightarrow> OwnerId \<Rightarrow> Database \<Rightarrow> ArtifactRow list" where
  "listByApp appId ownerId db =
     rev (filter (\<lambda>ar. ar_appId ar = appId \<and> app_is_live db appId ownerId \<and> ar_digest ar \<noteq> None) (db_artifacts db))"

definition artifact_by_id :: "AppId \<Rightarrow> ArtifactId \<Rightarrow> OwnerId \<Rightarrow> Database \<Rightarrow> ArtifactRow option" where
  "artifact_by_id appId artifactId ownerId db =
     find (\<lambda>ar. ar_id ar = artifactId \<and> ar_appId ar = appId \<and> app_is_live db appId ownerId \<and> ar_digest ar \<noteq> None)
       (db_artifacts db)"

text \<open>The view \<open>cached_binaries\<close>, of which \<open>LIMIT 1\<close> takes any row: \<open>choice\<close> says which.\<close>

definition cached_binaries :: "Database \<Rightarrow> ArtifactRow list" where
  "cached_binaries db =
     filter (\<lambda>ar. ar_sourceDigest ar \<noteq> None \<and> ar_objectKey ar \<noteq> None \<and>
       list_ex (\<lambda>d. dp_artifactId d = ar_id ar \<and> dp_activatedAt d \<noteq> None) (db_deployments db) \<and>
       list_ex (\<lambda>a. ap_id a = ar_appId ar \<and> ap_state a \<noteq> AppDeleted) (db_apps db)) (db_artifacts db)"

definition findBySourceDigest :: "nat \<Rightarrow> Sha256Digest \<Rightarrow> Database \<Rightarrow> ArtifactRow option" where
  "findBySourceDigest choice sourceDigest db =
     (case filter (\<lambda>ar. ar_sourceDigest ar = Some sourceDigest) (cached_binaries db) of
        [] \<Rightarrow> None
      | r # rs \<Rightarrow> Some ((r # rs) ! (choice mod length (r # rs))))"

section \<open>The store\<close>

type_synonym objects = "(ObjectKey, byte list) jsmap"

definition UPLOAD_URL_TTL_SECONDS :: int where "UPLOAD_URL_TTL_SECONDS = 900"

text \<open>
  A signed url: the key, when it was signed and for how long it is good, and the length it names. The
  signature covers \<open>content-length\<close>, so the store takes a body of that length and no other, for as long as
  the url is good.
\<close>

record signed_upload =
  su_objectKey :: ObjectKey
  su_sizeBytes :: nat
  su_signingDate :: int
  su_expiresIn :: int

definition signUpload :: "int \<Rightarrow> ObjectKey \<Rightarrow> nat \<Rightarrow> int option \<Rightarrow> signed_upload option" where
  "signUpload now objectKey sizeBytes expiresAt =
     (let expiresIn = (case expiresAt of None \<Rightarrow> UPLOAD_URL_TTL_SECONDS
          | Some e \<Rightarrow> min UPLOAD_URL_TTL_SECONDS ((e - now) div MS_PER_SECOND)) in
      if expiresIn \<le> 0 then None
      else Some \<lparr>su_objectKey = objectKey, su_sizeBytes = sizeBytes, su_signingDate = now, su_expiresIn = expiresIn\<rparr>)"

definition signed_for :: "int \<Rightarrow> ObjectKey \<Rightarrow> byte list \<Rightarrow> signed_upload \<Rightarrow> bool" where
  "signed_for now key bytes u =
     (su_objectKey u = key \<and> length bytes = su_sizeBytes u \<and>
      now \<le> su_signingDate u + su_expiresIn u * MS_PER_SECOND)"

definition put_signed :: "int \<Rightarrow> signed_upload list \<Rightarrow> ObjectKey \<Rightarrow> byte list \<Rightarrow> objects \<Rightarrow> objects" where
  "put_signed now urls key bytes store =
     (if list_ex (signed_for now key bytes) urls then js_set key bytes store else store)"

section \<open>Fetches at once\<close>

definition MAX_CONCURRENT_FETCHES :: int where "MAX_CONCURRENT_FETCHES = 8"
definition MAX_CONCURRENT_FETCHES_PER_OWNER :: int where "MAX_CONCURRENT_FETCHES_PER_OWNER = 3"

record RemoteFetchSlots =
  rf_inFlight :: int
  rf_byOwner :: "(OwnerId, int) jsmap"

datatype fetch_refusal = OwnerFetching | PlatformFetching

definition take_slot :: "OwnerId \<Rightarrow> RemoteFetchSlots \<Rightarrow> (fetch_refusal, RemoteFetchSlots) result" where
  "take_slot ownerId s =
     (let own = (case js_get (rf_byOwner s) ownerId of None \<Rightarrow> 0 | Some n \<Rightarrow> n) in
      if MAX_CONCURRENT_FETCHES_PER_OWNER \<le> own then Inl OwnerFetching
      else if MAX_CONCURRENT_FETCHES \<le> rf_inFlight s then Inl PlatformFetching
      else Inr (s\<lparr>rf_inFlight := rf_inFlight s + 1, rf_byOwner := js_set ownerId (own + 1) (rf_byOwner s)\<rparr>))"

definition release_slot :: "OwnerId \<Rightarrow> RemoteFetchSlots \<Rightarrow> RemoteFetchSlots" where
  "release_slot ownerId s =
     (let own = (case js_get (rf_byOwner s) ownerId of None \<Rightarrow> 1 | Some n \<Rightarrow> n) - 1 in
      s\<lparr>rf_inFlight := rf_inFlight s - 1,
        rf_byOwner := (if own \<le> 0 then js_delete ownerId (rf_byOwner s) else js_set ownerId own (rf_byOwner s))\<rparr>)"

section \<open>Requests\<close>

definition MAX_ARTIFACT_SIZE_BYTES :: nat where "MAX_ARTIFACT_SIZE_BYTES = 256 * 1048576"
definition ABANDONED_AFTER_SECONDS :: int where "ABANDONED_AFTER_SECONDS = 86400"
definition UPLOAD_PREFIX :: string where "UPLOAD_PREFIX = ''uploads''"

definition stagingKey :: "AppId \<Rightarrow> ArtifactId \<Rightarrow> ObjectKey" where
  "stagingKey appId artifactId = UPLOAD_PREFIX @ ''/'' @ appId @ ''/'' @ artifactId"

datatype artifact_error =
  NoSuchApp | NoSuchUpload | NothingUploaded | BinaryTooLarge | OneBinary | GrantExpired | GrantsOnlyUpload
  | RefusedBytes ArtifactInspection | InterruptedSource | WrongDigest Sha256Digest Sha256Digest
  | WrongPublishedDigest Sha256Digest Sha256Digest | NothingExecutable | WalkedTooFar | EntryTooLarge
  | ExpandsTooFar | UnreadableArchive | SourceRefused | TooManyFetches fetch_refusal | StoreFailed

definition takenPlace :: "PendingArtifactInsert \<Rightarrow> (artifact_error, ArtifactRow) result" where
  "takenPlace inserted =
     (case inserted of Held \<Rightarrow> Inl OneBinary | NoApp \<Rightarrow> Inl NoSuchApp | PendingCreated row \<Rightarrow> Inr row)"

datatype saidBy = Caller | Release

type_synonym Expectation = "Sha256Digest \<times> saidBy"
type_synonym DigestCheck = "Expectation \<times> (stream_end, Sha256Digest) result"

definition checking_source ::
  "(byte list \<Rightarrow> Sha256Digest) \<Rightarrow> stream \<Rightarrow> Expectation option \<Rightarrow> stream \<times> DigestCheck option" where
  "checking_source sha source expected =
     (case expected of None \<Rightarrow> (source, None)
      | Some e \<Rightarrow> (case digesting sha source of (body, served) \<Rightarrow> (body, Some (e, served))))"

definition stream_failure :: "stream_end \<Rightarrow> artifact_error" where
  "stream_failure e =
     (case e of Interrupted \<Rightarrow> InterruptedSource | ArtifactTooLargeError \<Rightarrow> BinaryTooLarge | _ \<Rightarrow> StoreFailed)"

definition heldToDigest :: "DigestCheck option \<Rightarrow> artifact_error option" where
  "heldToDigest check =
     (case check of None \<Rightarrow> None
      | Some ((digest, saidBy), served) \<Rightarrow>
          (case served of Inl e \<Rightarrow> Some (stream_failure e)
           | Inr s \<Rightarrow> if s = digest then None
               else Some (case saidBy of Caller \<Rightarrow> WrongDigest digest s | Release \<Rightarrow> WrongPublishedDigest digest s)))"

text \<open>The archive walk: the bytes themselves, or what was found inside them, by its name.\<close>

datatype Unwrapping =
  NotAnArchive stream | Unwrapped string stream | NoExecutable | WalkTooFar | EntryTooLong | ExpandsTooMuch | Unreadable

type_synonym unwrap_with = "stream \<Rightarrow> (stream_end, Unwrapping) result"

definition entryName :: "string \<Rightarrow> string option" where
  "entryName name = (if FilenameSchema name then Some name else None)"

definition CONTAINER_SUFFIXES :: "string list" where
  "CONTAINER_SUFFIXES = [''.tar.gz'', ''.tgz'', ''.tar'', ''.zip'', ''.gz'']"

definition unpacked :: "string \<Rightarrow> string" where
  "unpacked named =
     (case find (\<lambda>candidate. suffix candidate named) CONTAINER_SUFFIXES of
        None \<Rightarrow> named
      | Some s \<Rightarrow> (case entryName (take (length named - length s) named) of None \<Rightarrow> named | Some n \<Rightarrow> n))"

definition unwrapped :: "unwrap_with \<Rightarrow> stream \<Rightarrow> string \<Rightarrow> (artifact_error, stream \<times> string) result" where
  "unwrapped unwrap source named =
     (case unwrap source of
        Inl e \<Rightarrow> Inl (stream_failure e)
      | Inr (NotAnArchive body) \<Rightarrow> Inr (body, unpacked named)
      | Inr (Unwrapped name body) \<Rightarrow> Inr (body, case entryName name of None \<Rightarrow> unpacked named | Some n \<Rightarrow> n)
      | Inr NoExecutable \<Rightarrow> Inl NothingExecutable
      | Inr WalkTooFar \<Rightarrow> Inl WalkedTooFar
      | Inr EntryTooLong \<Rightarrow> Inl EntryTooLarge
      | Inr ExpandsTooMuch \<Rightarrow> Inl ExpandsTooFar
      | Inr Unreadable \<Rightarrow> Inl UnreadableArchive)"

text \<open>
  A fetch: the url as the source it opens, \<open>None\<close> where it could not be followed, the size it declares, the
  digest it is held to and the one that is written down, which is the same unless the url carried a
  password.
\<close>

record fetch_request =
  fr_source :: "stream option"
  fr_declaredSizeBytes :: "nat option"
  fr_filename :: string
  fr_expected :: "Expectation option"
  fr_carriesCredentials :: bool

definition fr_sourceDigest :: "fetch_request \<Rightarrow> Sha256Digest option" where
  "fr_sourceDigest r = (if fr_carriesCredentials r then None else map_option fst (fr_expected r))"

text \<open>What a request does next.\<close>

datatype phase =
    ReuseDue fetch_request
  | ReuseHeadDue fetch_request ArtifactRow
  | ReuseInsertDue ArtifactRow
  | FetchDue fetch_request
  | SourceDue fetch_request
  | InsertDue stream string "DigestCheck option" "Sha256Digest option"
  | StageDue stream "DigestCheck option"
  | HeadDue ArtifactIdentity
  | CopyDue ArtifactIdentity
  | WriteDue ArtifactIdentity "byte list"
  | RegisterDue ArtifactIdentity
  | CleanupDue "ArtifactRow option"
  | AnswerDue
  | DiscardDue "artifact_error option"
  | RemoveDue "artifact_error option"
  | SweepDiscardDue
  | SweepRemoveDue

record task =
  tk_appId :: AppId
  tk_artifactId :: ArtifactId
  tk_ownerId :: OwnerId
  tk_onlyOne :: bool
  tk_staging :: bool
  tk_holdsSlot :: bool
  tk_phase :: phase

datatype outcome = Answered ArtifactRow | Done | Refused artifact_error

text \<open>What the requests share, and what a single call is given and answered: whether the store removes
  what it is asked to, and whether the call of the step, to the store or to the database, fails.\<close>

record shared =
  sh_store :: objects
  sh_db :: Database
  sh_slots :: RemoteFetchSlots

record call =
  cl_removes :: bool
  cl_fails :: bool
  cl_newId :: ArtifactId
  cl_now :: int
  cl_choice :: nat

definition tk_staged :: "task \<Rightarrow> ObjectKey" where
  "tk_staged t = stagingKey (tk_appId t) (tk_artifactId t)"

definition alreadyStored :: "task \<Rightarrow> Database \<Rightarrow> outcome" where
  "alreadyStored t db =
     (case artifact_by_id (tk_appId t) (tk_artifactId t) (tk_ownerId t) db of
        None \<Rightarrow> Refused NoSuchUpload | Some row \<Rightarrow> Answered row)"

definition cached_identity :: "ArtifactRow \<Rightarrow> ArtifactIdentity" where
  "cached_identity cached =
     \<lparr>id_digest = (case ar_digest cached of None \<Rightarrow> [] | Some d \<Rightarrow> d), id_sizeBytes = nat (ar_sizeBytes cached),
      id_objectKey = (case ar_objectKey cached of None \<Rightarrow> [] | Some k \<Rightarrow> k)\<rparr>"

text \<open>What \<open>promote\<close> begins with.\<close>

definition promote :: "ArtifactInspection \<Rightarrow> phase" where
  "promote inspection =
     (case inspection of StoredInspection i \<Rightarrow> HeadDue i | refusal \<Rightarrow> DiscardDue (Some (RefusedBytes refusal)))"

text \<open>What \<open>fetchInto\<close> does before there is a row.\<close>

definition fetched_source ::
  "(byte list \<Rightarrow> Sha256Digest) \<Rightarrow> unwrap_with \<Rightarrow> fetch_request \<Rightarrow> (artifact_error, phase) result" where
  "fetched_source sha unwrap r =
     (case fr_source r of
        None \<Rightarrow> Inl SourceRefused
      | Some source \<Rightarrow>
          if (case fr_declaredSizeBytes r of None \<Rightarrow> False | Some n \<Rightarrow> MAX_ARTIFACT_SIZE_BYTES < n)
          then Inl BinaryTooLarge
          else (case checking_source sha (boundedTo MAX_ARTIFACT_SIZE_BYTES source) (fr_expected r) of (body, check) \<Rightarrow>
            bind_result (unwrapped unwrap body (fr_filename r)) (\<lambda>(held, filename).
              Inr (InsertDue held filename check (fr_sourceDigest r)))))"

text \<open>
  The write to the staging key with the inspection in its way, and the check of the download behind it. A
  write that does not end leaves the key as it was.
\<close>

definition stageOrGiveUp ::
  "(byte list \<Rightarrow> Sha256Digest) \<Rightarrow> ObjectKey \<Rightarrow> stream \<Rightarrow> DigestCheck option \<Rightarrow> objects \<Rightarrow> phase \<times> objects" where
  "stageOrGiveUp sha staged body check store =
     (case inspectingPassThrough sha MAX_ARTIFACT_SIZE_BYTES body of ((out, how), inspection) \<Rightarrow>
        let store' = (if how = Inr Closed then js_set staged (concat out) store else store) in
        (case (case how of Inl i \<Rightarrow> Inr i | Inr e \<Rightarrow> (case inspection of
                 Some i \<Rightarrow> if e = Closed then Inr i else Inl e | None \<Rightarrow> Inl e)) of
           Inl e \<Rightarrow> (DiscardDue (Some (stream_failure e)), store')
         | Inr i \<Rightarrow>
             (case heldToDigest check of Some e \<Rightarrow> (DiscardDue (Some e), store') | None \<Rightarrow> (promote i, store'))))"

definition discard :: "bool \<Rightarrow> ObjectKey \<Rightarrow> objects \<Rightarrow> objects" where
  "discard removes key store = (if removes then js_delete key store else store)"

definition goes_on :: "task \<Rightarrow> phase \<Rightarrow> task + outcome" where
  "goes_on t p = Inl (t\<lparr>tk_phase := p\<rparr>)"

text \<open>
  The row a request takes its place with, and what it does with it: an app that is gone or holds its one
  binary ends the request.
\<close>

definition takes_place ::
  "call \<Rightarrow> task \<Rightarrow> string \<Rightarrow> Sha256Digest option \<Rightarrow> bool \<Rightarrow> phase \<Rightarrow> shared \<Rightarrow> (task + outcome) \<times> shared" where
  "takes_place c t filename sourceDigest staging p s =
     (case insertPending (cl_newId c) (cl_now c) (tk_appId t) (tk_ownerId t) filename sourceDigest (tk_onlyOne t)
         (sh_db s) of (inserted, db') \<Rightarrow>
        ((case takenPlace inserted of
            Inl e \<Rightarrow> Inr (Refused e)
          | Inr row \<Rightarrow> goes_on (t\<lparr>tk_artifactId := ar_id row, tk_staging := staging\<rparr>) p), s\<lparr>sh_db := db'\<rparr>))"

text \<open>The next call of a request that is answered, and the request that goes on or what it answers.\<close>

definition advance_call ::
  "(byte list \<Rightarrow> Sha256Digest) \<Rightarrow> unwrap_with \<Rightarrow> call \<Rightarrow> task \<Rightarrow> shared \<Rightarrow> (task + outcome) \<times> shared" where
  "advance_call sha unwrap c t s =
     (case tk_phase t of
        ReuseDue r \<Rightarrow>
          (goes_on t (case fr_sourceDigest r of
             None \<Rightarrow> FetchDue r
           | Some d \<Rightarrow> (case findBySourceDigest (cl_choice c) d (sh_db s) of
               None \<Rightarrow> FetchDue r | Some cached \<Rightarrow> ReuseHeadDue r cached)), s)
      | ReuseHeadDue r cached \<Rightarrow>
          (goes_on t (if js_has (sh_store s) (id_objectKey (cached_identity cached)) then ReuseInsertDue cached
             else FetchDue r), s)
      | ReuseInsertDue cached \<Rightarrow>
          takes_place c t (ar_filename cached) (ar_sourceDigest cached) False (RegisterDue (cached_identity cached)) s
      | FetchDue r \<Rightarrow>
          (case take_slot (tk_ownerId t) (sh_slots s) of
             Inl e \<Rightarrow> (Inr (Refused (TooManyFetches e)), s)
           | Inr held \<Rightarrow> (goes_on (t\<lparr>tk_holdsSlot := True\<rparr>) (SourceDue r), s\<lparr>sh_slots := held\<rparr>))
      | SourceDue r \<Rightarrow>
          ((case fetched_source sha unwrap r of Inl e \<Rightarrow> Inr (Refused e) | Inr p \<Rightarrow> goes_on t p), s)
      | InsertDue body filename check sourceDigest \<Rightarrow>
          takes_place c t filename sourceDigest True (StageDue body check) s
      | StageDue body check \<Rightarrow>
          (case stageOrGiveUp sha (tk_staged t) body check (sh_store s) of (p, store) \<Rightarrow>
             (goes_on t p, s\<lparr>sh_store := store\<rparr>))
      | HeadDue i \<Rightarrow>
          (goes_on t (if js_has (sh_store s) (id_objectKey i) then RegisterDue i else CopyDue i), s)
      | CopyDue i \<Rightarrow>
          ((case js_get (sh_store s) (tk_staged t) of
              None \<Rightarrow> Inr (Refused StoreFailed)
            | Some bytes \<Rightarrow> goes_on t (WriteDue i bytes)), s)
      | WriteDue i bytes \<Rightarrow>
          (goes_on t (RegisterDue i), s\<lparr>sh_store := js_set (id_objectKey i) bytes (sh_store s)\<rparr>)
      | RegisterDue i \<Rightarrow>
          (case complete (tk_appId t) (tk_artifactId t) (tk_ownerId t) i (sh_db s) of (row, db') \<Rightarrow>
             (goes_on t (CleanupDue row), s\<lparr>sh_db := db'\<rparr>))
      | CleanupDue row \<Rightarrow>
          ((case row of Some r \<Rightarrow> Inr (Answered r) | None \<Rightarrow> goes_on t AnswerDue),
           s\<lparr>sh_store := discard (cl_removes c \<and> tk_staging t) (tk_staged t) (sh_store s)\<rparr>)
      | AnswerDue \<Rightarrow> (Inr (alreadyStored t (sh_db s)), s)
      | DiscardDue e \<Rightarrow>
          (goes_on t (RemoveDue e), s\<lparr>sh_store := discard (cl_removes c) (tk_staged t) (sh_store s)\<rparr>)
      | RemoveDue e \<Rightarrow>
          (Inr (case e of None \<Rightarrow> Done | Some e \<Rightarrow> Refused e),
           s\<lparr>sh_db := remove_artifact (tk_appId t) (tk_artifactId t) (tk_ownerId t) (sh_db s)\<rparr>)
      | SweepDiscardDue \<Rightarrow>
          (goes_on t SweepRemoveDue, s\<lparr>sh_store := discard (cl_removes c) (tk_staged t) (sh_store s)\<rparr>)
      | SweepRemoveDue \<Rightarrow> (Inr Done, s\<lparr>sh_db := removeAbandoned (tk_artifactId t) (sh_db s)\<rparr>))"

text \<open>
  The steps whose call can fail the request: taking a fetch slot calls nobody, and \<open>discard\<close> only logs that
  an object could not be removed, which is \<open>cl_removes\<close>.
\<close>

definition call_fails :: "call \<Rightarrow> phase \<Rightarrow> bool" where
  "call_fails c p =
     (cl_fails c \<and>
      (case p of FetchDue _ \<Rightarrow> False | CleanupDue _ \<Rightarrow> False | DiscardDue _ \<Rightarrow> False | SweepDiscardDue \<Rightarrow> False | _ \<Rightarrow> True))"

text \<open>
  The next step of a request. A head, a read, a write or a query that fails ends the request where it is,
  with what it has stored and written so far; only the write to the staging key is abandoned, with its row.
\<close>

definition advance ::
  "(byte list \<Rightarrow> Sha256Digest) \<Rightarrow> unwrap_with \<Rightarrow> call \<Rightarrow> task \<Rightarrow> shared \<Rightarrow> (task + outcome) \<times> shared" where
  "advance sha unwrap c t s =
     (if call_fails c (tk_phase t)
      then (case tk_phase t of
          StageDue _ _ \<Rightarrow> (goes_on t (DiscardDue (Some StoreFailed)), s)
        | _ \<Rightarrow> (Inr (Refused StoreFailed), s))
      else advance_call sha unwrap c t s)"

section \<open>Requests as they begin\<close>

definition new_task :: "AppId \<Rightarrow> ArtifactId \<Rightarrow> OwnerId \<Rightarrow> bool \<Rightarrow> phase \<Rightarrow> task" where
  "new_task appId artifactId ownerId onlyOne p =
     \<lparr>tk_appId = appId, tk_artifactId = artifactId, tk_ownerId = ownerId, tk_onlyOne = onlyOne, tk_staging = True,
      tk_holdsSlot = False, tk_phase = p\<rparr>"

definition artifacts_create ::
  "call \<Rightarrow> AppId \<Rightarrow> OwnerId \<Rightarrow> int option \<Rightarrow> bool \<Rightarrow> string \<Rightarrow> nat \<Rightarrow> Database \<Rightarrow>
     (artifact_error, ArtifactId \<times> signed_upload) result \<times> Database" where
  "artifacts_create c appId ownerId grantExpiresAt isAnonymous filename sizeBytes db =
     (if \<not> isOwnedBy db appId ownerId then (Inl NoSuchApp, db)
      else if MAX_ARTIFACT_SIZE_BYTES < sizeBytes then (Inl BinaryTooLarge, db)
      else (case insertPending (cl_newId c) (cl_now c) appId ownerId filename None isAnonymous db of (inserted, db') \<Rightarrow>
        (case takenPlace inserted of
           Inl e \<Rightarrow> (Inl e, db')
         | Inr row \<Rightarrow>
             (case signUpload (cl_now c) (stagingKey appId (ar_id row)) sizeBytes grantExpiresAt of
                None \<Rightarrow> (Inl GrantExpired, db')
              | Some url \<Rightarrow> (Inr (ar_id row, url), db')))))"

text \<open>What a completion reads before it decides: the row, and the staged object, which it inspects.\<close>

definition completeUpload ::
  "(byte list \<Rightarrow> Sha256Digest) \<Rightarrow> bool \<Rightarrow> AppId \<Rightarrow> OwnerId \<Rightarrow> ArtifactId \<Rightarrow> shared \<Rightarrow> task + outcome" where
  "completeUpload sha fails appId ownerId artifactId s =
     (let t = new_task appId artifactId ownerId False AnswerDue in
      if fails then Inr (Refused StoreFailed)
      else case findPending appId artifactId ownerId (sh_db s) of
        None \<Rightarrow> Inl t
      | Some _ \<Rightarrow>
          (case js_get (sh_store s) (stagingKey appId artifactId) of
             None \<Rightarrow> Inr (Refused NothingUploaded)
           | Some bytes \<Rightarrow>
               (case inspectArtifact sha MAX_ARTIFACT_SIZE_BYTES [bytes] of
                  Inl _ \<Rightarrow> Inr (Refused StoreFailed)
                | Inr inspection \<Rightarrow> goes_on t (promote inspection))))"

definition createFromUrl ::
  "AppId \<Rightarrow> OwnerId \<Rightarrow> bool \<Rightarrow> bool \<Rightarrow> fetch_request \<Rightarrow> Database \<Rightarrow> task + outcome" where
  "createFromUrl appId ownerId hasGrant isAnonymous r db =
     (if hasGrant then Inr (Refused GrantsOnlyUpload)
      else if \<not> isOwnedBy db appId ownerId then Inr (Refused NoSuchApp)
      else Inl (new_task appId [] ownerId isAnonymous (ReuseDue r)))"

definition failUpload :: "AppId \<Rightarrow> OwnerId \<Rightarrow> ArtifactId \<Rightarrow> Database \<Rightarrow> task + outcome" where
  "failUpload appId ownerId artifactId db =
     (case findPending appId artifactId ownerId db of
        None \<Rightarrow> Inr (Refused NoSuchUpload)
      | Some _ \<Rightarrow> Inl (new_task appId artifactId ownerId False (DiscardDue None)))"

definition sweepAbandoned :: "int \<Rightarrow> Database \<Rightarrow> task list" where
  "sweepAbandoned now db =
     map (\<lambda>row. new_task (ar_appId row) (ar_id row) [] False SweepDiscardDue)
       (listAbandoned ABANDONED_AFTER_SECONDS now db)"

section \<open>Everything at once\<close>

record artifact_state =
  as_shared :: shared
  as_tasks :: "task list"
  as_purges :: "(AppId \<times> ObjectKey list) list"
  as_signed :: "signed_upload list"

text \<open>
  \<open>Uploads\<close> is somebody who puts an object to a row's staging key at a time, with one of the urls signed so
  far, if one allows it; \<open>CompletesUpload\<close> says whether its reads fail; \<open>Elsewhere\<close> is whatever other services write. A purge lists what is left of an app and then removes it.
\<close>

datatype artifact_event =
    CreatesUpload call AppId OwnerId "int option" bool string nat
  | Uploads int AppId ArtifactId "byte list"
  | CompletesUpload bool AppId OwnerId ArtifactId
  | Fetches AppId OwnerId bool bool fetch_request
  | FailsUpload AppId OwnerId ArtifactId
  | Sweeps int
  | Advances nat call
  | ListsLeftovers AppId
  | RemovesLeftovers "ObjectKey \<Rightarrow> bool"
  | Elsewhere Database

definition begins :: "task + outcome \<Rightarrow> artifact_state \<Rightarrow> artifact_state" where
  "begins t s = (case t of Inl t \<Rightarrow> s\<lparr>as_tasks := as_tasks s @ [t]\<rparr> | Inr _ \<Rightarrow> s)"

definition advance_nth ::
  "(byte list \<Rightarrow> Sha256Digest) \<Rightarrow> unwrap_with \<Rightarrow> nat \<Rightarrow> call \<Rightarrow> artifact_state \<Rightarrow> artifact_state" where
  "advance_nth sha unwrap n c s =
     (if length (as_tasks s) \<le> n then s
      else let t = as_tasks s ! n in
        (case advance sha unwrap c t (as_shared s) of
           (Inl t', sh) \<Rightarrow> s\<lparr>as_shared := sh, as_tasks := (as_tasks s)[n := t']\<rparr>
         | (Inr _, sh) \<Rightarrow>
             s\<lparr>as_shared := (if tk_holdsSlot t then sh\<lparr>sh_slots := release_slot (tk_ownerId t) (sh_slots sh)\<rparr> else sh),
               as_tasks := take n (as_tasks s) @ drop (Suc n) (as_tasks s)\<rparr>))"

definition remove_leftovers :: "(ObjectKey \<Rightarrow> bool) \<Rightarrow> AppId \<Rightarrow> ObjectKey list \<Rightarrow> shared \<Rightarrow> shared" where
  "remove_leftovers removes appId keys sh =
     sh\<lparr>sh_store := filter (\<lambda>(k, _). \<not> (k \<in> set keys \<and> removes k)) (sh_store sh),
        sh_db := (if list_all removes keys then purge appId (sh_db sh) else sh_db sh)\<rparr>"

fun artifact_step ::
  "(byte list \<Rightarrow> Sha256Digest) \<Rightarrow> unwrap_with \<Rightarrow> artifact_event \<Rightarrow> artifact_state \<Rightarrow> artifact_state" where
  "artifact_step sha unwrap (CreatesUpload c appId ownerId grant anonymous filename sizeBytes) s =
     (case artifacts_create c appId ownerId grant anonymous filename sizeBytes (sh_db (as_shared s)) of (r, db) \<Rightarrow>
        s\<lparr>as_shared := (as_shared s)\<lparr>sh_db := db\<rparr>,
          as_signed := as_signed s @ (case r of Inl _ \<Rightarrow> [] | Inr (_, url) \<Rightarrow> [url])\<rparr>)"
| "artifact_step sha unwrap (Uploads now appId artifactId bytes) s =
     s\<lparr>as_shared := (as_shared s)
       \<lparr>sh_store := put_signed now (as_signed s) (stagingKey appId artifactId) bytes (sh_store (as_shared s))\<rparr>\<rparr>"
| "artifact_step sha unwrap (CompletesUpload fails appId ownerId artifactId) s =
     begins (completeUpload sha fails appId ownerId artifactId (as_shared s)) s"
| "artifact_step sha unwrap (Fetches appId ownerId hasGrant anonymous r) s =
     begins (createFromUrl appId ownerId hasGrant anonymous r (sh_db (as_shared s))) s"
| "artifact_step sha unwrap (FailsUpload appId ownerId artifactId) s =
     begins (failUpload appId ownerId artifactId (sh_db (as_shared s))) s"
| "artifact_step sha unwrap (Sweeps now) s =
     s\<lparr>as_tasks := as_tasks s @ sweepAbandoned now (sh_db (as_shared s))\<rparr>"
| "artifact_step sha unwrap (Advances n c) s = advance_nth sha unwrap n c s"
| "artifact_step sha unwrap (ListsLeftovers appId) s =
     (if purgeable (sh_db (as_shared s)) appId
      then s\<lparr>as_purges := as_purges s @ [(appId, lo_artifacts (listLeftovers (sh_db (as_shared s)) appId))]\<rparr> else s)"
| "artifact_step sha unwrap (RemovesLeftovers removes) s =
     (case as_purges s of [] \<Rightarrow> s
      | (appId, keys) # rest \<Rightarrow>
          s\<lparr>as_shared := remove_leftovers removes appId keys (as_shared s), as_purges := rest\<rparr>)"
| "artifact_step sha unwrap (Elsewhere db) s =
     s\<lparr>as_shared := (as_shared s)\<lparr>sh_db := db\<lparr>db_artifacts := db_artifacts (sh_db (as_shared s))\<rparr>\<rparr>\<rparr>"

definition artifact_run ::
  "(byte list \<Rightarrow> Sha256Digest) \<Rightarrow> unwrap_with \<Rightarrow> artifact_event list \<Rightarrow> artifact_state \<Rightarrow> artifact_state" where
  "artifact_run sha unwrap es s = fold (artifact_step sha unwrap) es s"

section \<open>What the store holds\<close>

text \<open>A digest in hex has no slash, and a staging key has one.\<close>

definition slashed :: "ObjectKey \<Rightarrow> bool" where "slashed k \<longleftrightarrow> CHR ''/'' \<in> set k"

definition plain_identity :: "ArtifactIdentity \<Rightarrow> bool" where
  "plain_identity i \<longleftrightarrow> id_objectKey i = id_digest i \<and> \<not> slashed (id_digest i)"

text \<open>What is stored under a digest is what it is the digest of.\<close>

definition honest :: "(byte list \<Rightarrow> Sha256Digest) \<Rightarrow> objects \<Rightarrow> bool" where
  "honest sha store \<longleftrightarrow> (\<forall>k b. \<not> slashed k \<and> js_get store k = Some b \<longrightarrow> sha b = k)"

definition rows_ok :: "Database \<Rightarrow> bool" where
  "rows_ok db \<longleftrightarrow> (\<forall>ar \<in> set (db_artifacts db).
     ar_objectKey ar = ar_digest ar \<and> (\<forall>d. ar_digest ar = Some d \<longrightarrow> \<not> slashed d))"

definition rows_stored :: "objects \<Rightarrow> Database \<Rightarrow> bool" where
  "rows_stored store db \<longleftrightarrow> (\<forall>ar \<in> set (db_artifacts db). \<forall>d.
     ar_digest ar = Some d \<and> ar_appId ar \<notin> deleted_apps db \<longrightarrow> js_has store d)"

definition shared_ok :: "(byte list \<Rightarrow> Sha256Digest) \<Rightarrow> shared \<Rightarrow> bool" where
  "shared_ok sha sh \<longleftrightarrow> honest sha (sh_store sh) \<and> rows_ok (sh_db sh) \<and> rows_stored (sh_store sh) (sh_db sh)"

definition task_ok :: "(byte list \<Rightarrow> Sha256Digest) \<Rightarrow> objects \<Rightarrow> task \<Rightarrow> bool" where
  "task_ok sha store t =
     (case tk_phase t of
        HeadDue i \<Rightarrow> plain_identity i \<and> (\<forall>b. js_get store (tk_staged t) = Some b \<longrightarrow> sha b = id_digest i)
      | CopyDue i \<Rightarrow> plain_identity i \<and> (\<forall>b. js_get store (tk_staged t) = Some b \<longrightarrow> sha b = id_digest i)
      | WriteDue i b \<Rightarrow> plain_identity i \<and> sha b = id_digest i
      | RegisterDue i \<Rightarrow> plain_identity i \<and> js_has store (id_objectKey i)
      | ReuseHeadDue r cached \<Rightarrow> plain_identity (cached_identity cached)
      | ReuseInsertDue cached \<Rightarrow> plain_identity (cached_identity cached) \<and> js_has store (id_objectKey (cached_identity cached))
      | _ \<Rightarrow> True)"

text \<open>The key a task has inspected and not copied yet.\<close>

definition inspected_key :: "task \<Rightarrow> ObjectKey option" where
  "inspected_key t = (case tk_phase t of HeadDue _ \<Rightarrow> Some (tk_staged t) | CopyDue _ \<Rightarrow> Some (tk_staged t) | _ \<Rightarrow> None)"

text \<open>What one step may do to the store: digests stay, and no staging key but \<open>w\<close> is written.\<close>

definition kept :: "ObjectKey option \<Rightarrow> objects \<Rightarrow> objects \<Rightarrow> bool" where
  "kept w store store' \<longleftrightarrow>
     (\<forall>k. \<not> slashed k \<and> js_has store k \<longrightarrow> js_has store' k) \<and>
     (\<forall>k b. slashed k \<and> w \<noteq> Some k \<and> js_get store' k = Some b \<longrightarrow> js_get store k = Some b)"

lemma slashed_staging [simp]: "slashed (stagingKey a i)" "slashed (tk_staged t)"
  by (simp_all add: slashed_def stagingKey_def tk_staged_def)

lemma kept_refl [simp]: "kept w store store"
  by (simp add: kept_def)

lemma kept_discard [simp]: "kept w store (discard removes (tk_staged t) store)"
    "kept w store (discard removes (stagingKey a i) store)"
  by (auto simp: kept_def discard_def js_has_def js_simps)

lemma kept_staging [simp]: "kept (Some (tk_staged t)) store (js_set (tk_staged t) b store)"
    "kept (Some (stagingKey a i)) store (js_set (stagingKey a i) b store)"
  by (auto simp: kept_def js_has_def js_simps)

lemma kept_digest [simp]: "\<not> slashed k \<Longrightarrow> kept w store (js_set k b store)"
  by (auto simp: kept_def js_has_def js_simps)

lemma task_ok_kept:
  assumes "task_ok sha store t" "kept w store store'" "w = None \<or> inspected_key t \<noteq> w"
  shows "task_ok sha store' t"
proof (cases "tk_phase t")
  case (HeadDue i)
  then show ?thesis using assms by (auto simp: task_ok_def kept_def inspected_key_def)
next
  case (CopyDue i)
  then show ?thesis using assms by (auto simp: task_ok_def kept_def inspected_key_def)
qed (use assms in \<open>auto simp: task_ok_def kept_def plain_identity_def\<close>)

lemma honest_discard: "honest sha store \<Longrightarrow> honest sha (discard removes k store)"
  by (auto simp: honest_def discard_def js_simps split: if_splits)

lemma honest_staging: "slashed k \<Longrightarrow> honest sha store \<Longrightarrow> honest sha (js_set k b store)"
  by (auto simp: honest_def js_simps split: if_splits)

lemma honest_digest: "honest sha store \<Longrightarrow> honest sha (js_set (sha b) b store)"
  by (auto simp: honest_def js_simps split: if_splits)

lemma rows_stored_kept: "rows_ok db \<Longrightarrow> rows_stored store db \<Longrightarrow> kept w store store' \<Longrightarrow> rows_stored store' db"
  by (auto simp: rows_stored_def rows_ok_def kept_def)

lemma rows_inserted:
  assumes "insertPending newId now a own f sd one db = (ins, db')"
  shows "rows_ok db \<Longrightarrow> rows_ok db'" "rows_stored store db \<Longrightarrow> rows_stored store db'"
    "deleted_apps db' = deleted_apps db"
    "\<And>ar k. ar \<in> set (db_artifacts db') \<Longrightarrow> ar_objectKey ar = Some k \<Longrightarrow> ar \<in> set (db_artifacts db)"
  using assms
  by (auto simp: insertPending_def rows_ok_def rows_stored_def deleted_apps_def Let_def split: if_splits)

lemma rows_completed:
  assumes "complete a art own i db = (row, db')" "plain_identity i" "js_has store (id_objectKey i)"
  shows "rows_ok db \<Longrightarrow> rows_ok db'" "rows_stored store db \<Longrightarrow> rows_stored store db'"
  using assms
  by (auto simp: complete_def rows_ok_def rows_stored_def deleted_apps_def plain_identity_def Let_def)

lemma rows_removed:
  "rows_ok db \<Longrightarrow> rows_ok (remove_artifact a art own db)" "rows_ok db \<Longrightarrow> rows_ok (removeAbandoned art db)"
  "rows_stored store db \<Longrightarrow> rows_stored store (remove_artifact a art own db)"
  "rows_stored store db \<Longrightarrow> rows_stored store (removeAbandoned art db)"
  by (auto simp: remove_artifact_def removeAbandoned_def rows_ok_def rows_stored_def deleted_apps_def)

section \<open>Every call keeps it\<close>

definition staged_write :: "task \<Rightarrow> ObjectKey option" where
  "staged_write t = (case tk_phase t of StageDue _ _ \<Rightarrow> Some (tk_staged t) | _ \<Rightarrow> None)"

lemma header_within_limit: "HEADER_BYTES \<le> MAX_ARTIFACT_SIZE_BYTES"
  by (simp add: HEADER_BYTES_def MAX_ARTIFACT_SIZE_BYTES_def)

lemma promote_head: "promote v = HeadDue i \<longleftrightarrow> v = StoredInspection i"
  by (simp add: promote_def split: ArtifactInspection.split)

lemma promote_cases: "(\<exists>i. promote v = HeadDue i \<and> v = StoredInspection i) \<or> (\<exists>e. promote v = DiscardDue e)"
  by (simp add: promote_def split: ArtifactInspection.split)

lemma inspected_identity:
  assumes "\<And>b. \<not> slashed (sha b)" "inspectArtifact sha MAX_ARTIFACT_SIZE_BYTES chunks = Inr (StoredInspection i)"
  shows "plain_identity i" "id_digest i = sha (concat chunks)"
  using assms stored_identity [of sha MAX_ARTIFACT_SIZE_BYTES "concat chunks" i]
  by (auto simp: inspectArtifact_whole [OF header_within_limit] plain_identity_def)

lemma passed_through:
  assumes "inspectingPassThrough sha MAX_ARTIFACT_SIZE_BYTES body = ((out, how), Some (StoredInspection i))"
  shows "how = Inr Closed" "inspectArtifact sha MAX_ARTIFACT_SIZE_BYTES out = Inr (StoredInspection i)"
proof -
  have p: "pass_through sha MAX_ARTIFACT_SIZE_BYTES new_reading (fst body) (snd body) = ((out, how), Some (StoredInspection i))"
    using assms by (simp add: inspectingPassThrough_def)
  note agrees = pass_through_agrees [OF header_within_limit reads_new settled_nothing, where sha = sha and chunks = "fst body" and how = "snd body" and i = i,
    unfolded p prod.case]
  from agrees show "how = Inr Closed" by simp
  from agrees show "inspectArtifact sha MAX_ARTIFACT_SIZE_BYTES out = Inr (StoredInspection i)"
    by (simp add: inspectArtifact_def)
qed

lemma passed_refused:
  "inspectingPassThrough sha MAX_ARTIFACT_SIZE_BYTES body = ((out, how), v) \<Longrightarrow> how \<noteq> Inl (StoredInspection i)"
  using pass_through_agrees [OF header_within_limit reads_new settled_nothing, where sha = sha and chunks = "fst body" and how = "snd body" and i = i]
  by (simp add: inspectingPassThrough_def)

lemma staged_sound:
  assumes "\<And>b. \<not> slashed (sha b)" "honest sha store"
    and r: "stageOrGiveUp sha (tk_staged t) body check store = (p, store')"
  shows "honest sha store' \<and> kept (Some (tk_staged t)) store store' \<and> task_ok sha store' (t\<lparr>tk_phase := p\<rparr>)"
proof -
  obtain out how inspection where io: "inspectingPassThrough sha MAX_ARTIFACT_SIZE_BYTES body = ((out, how), inspection)"
    by (metis surj_pair)
  have store': "store' = (if how = Inr Closed then js_set (tk_staged t) (concat out) store else store)"
    using r io by (auto simp: stageOrGiveUp_def Let_def split: option.splits sum.splits if_splits)
  have "task_ok sha store' (t\<lparr>tk_phase := p\<rparr>)"
  proof (cases "\<exists>i. p = HeadDue i")
    case True
    then obtain i where i: "p = HeadDue i" by blast
    have how: "how = Inr Closed" "inspection = Some (StoredInspection i)"
      using r io i passed_refused [OF io, of i]
      by (auto simp: stageOrGiveUp_def Let_def promote_head split: option.splits sum.splits if_splits)
    note inspected_identity [OF assms(1) passed_through(2) [OF io [unfolded how(2)]]]
    then show ?thesis using i how store' by (auto simp: task_ok_def tk_staged_def js_simps)
  next
    case False
    then have "\<exists>e. p = DiscardDue e"
      using r io promote_cases [of "case how of Inl i \<Rightarrow> i | Inr _ \<Rightarrow> the inspection"]
      by (auto simp: stageOrGiveUp_def Let_def split: option.splits sum.splits if_splits)
    then show ?thesis by (auto simp: task_ok_def)
  qed
  then show ?thesis using store' assms(2) by (auto simp: honest_staging)
qed

lemma cached_plain:
  assumes "rows_ok db" "findBySourceDigest choice d db = Some cached"
  shows "plain_identity (cached_identity cached)"
proof -
  have "cached \<in> set (cached_binaries db)"
  proof -
    let ?rows = "filter (\<lambda>ar. ar_sourceDigest ar = Some d) (cached_binaries db)"
    have "?rows \<noteq> []" "cached = ?rows ! (choice mod length ?rows)"
      using assms(2) by (auto simp: findBySourceDigest_def split: list.splits)
    then have "cached \<in> set ?rows" by (metis length_greater_0_conv mod_less_divisor nth_mem)
    then show ?thesis by simp
  qed
  then have "cached \<in> set (db_artifacts db)" "ar_objectKey cached \<noteq> None" by (auto simp: cached_binaries_def)
  then show ?thesis
    using assms(1) by (fastforce simp: rows_ok_def plain_identity_def cached_identity_def)
qed

lemma takes_place_sound:
  assumes "takes_place c t f sd staging p s = (r, s')" "shared_ok sha s"
  shows "shared_ok sha s'" "sh_store s' = sh_store s" "r = Inl t' \<Longrightarrow> tk_phase t' = p"
  using assms rows_inserted [of "cl_newId c" "cl_now c" "tk_appId t" "tk_ownerId t" f sd "tk_onlyOne t" "sh_db s"]
  by (auto simp: takes_place_def shared_ok_def goes_on_def split: prod.splits sum.splits)

lemma advance_call_sound:
  assumes sha: "\<And>b. \<not> slashed (sha b)" and s: "shared_ok sha s" and t: "task_ok sha (sh_store s) t"
    and r: "advance_call sha unwrap c t s = (r, s')"
  shows "shared_ok sha s' \<and> kept (staged_write t) (sh_store s) (sh_store s') \<and>
    (\<forall>t'. r = Inl t' \<longrightarrow> task_ok sha (sh_store s') t')"
proof -
  have db: "rows_ok (sh_db s)" "rows_stored (sh_store s) (sh_db s)" "honest sha (sh_store s)"
    using s by (auto simp: shared_ok_def)
  show ?thesis
  proof (cases "tk_phase t")
    case (ReuseDue f)
    then show ?thesis
      using r s cached_plain [OF db(1)]
      by (auto simp: advance_call_def goes_on_def task_ok_def staged_write_def split: option.splits)
  next
    case (ReuseInsertDue cached)
    with r have tp: "takes_place c t (ar_filename cached) (ar_sourceDigest cached) False (RegisterDue (cached_identity cached)) s
      = (r, s')" by (simp add: advance_call_def)
    show ?thesis
      using takes_place_sound [OF tp s] t ReuseInsertDue by (auto simp: task_ok_def staged_write_def)
  next
    case (InsertDue body f check sd)
    with r have tp: "takes_place c t f sd True (StageDue body check) s = (r, s')" by (simp add: advance_call_def)
    show ?thesis
      using takes_place_sound [OF tp s] InsertDue by (auto simp: task_ok_def staged_write_def)
  next
    case (StageDue body check)
    then obtain p store where st: "stageOrGiveUp sha (tk_staged t) body check (sh_store s) = (p, store)"
        and s': "s' = s\<lparr>sh_store := store\<rparr>" "r = Inl (t\<lparr>tk_phase := p\<rparr>)"
      using r by (auto simp: advance_call_def goes_on_def split: prod.splits)
    show ?thesis
      using staged_sound [OF sha db(3) st] rows_stored_kept [OF db(1,2)] db s' StageDue
      by (auto simp: shared_ok_def staged_write_def)
  next
    case (WriteDue i b)
    then have "id_objectKey i = sha b" "\<not> slashed (sha b)" using t by (auto simp: task_ok_def plain_identity_def)
    then show ?thesis
      using r t WriteDue db rows_stored_kept [OF db(1,2)] honest_digest [OF db(3), of b]
      by (auto simp: advance_call_def goes_on_def task_ok_def staged_write_def shared_ok_def js_has_def js_simps)
  next
    case (RegisterDue i)
    obtain row db' where c: "complete (tk_appId t) (tk_artifactId t) (tk_ownerId t) i (sh_db s) = (row, db')" by fastforce
    show ?thesis
      using r t RegisterDue db rows_completed [OF c]
      by (auto simp: advance_call_def goes_on_def task_ok_def staged_write_def shared_ok_def c)
  next
    case (CleanupDue row)
    then show ?thesis
      using r db honest_discard rows_stored_kept [OF db(1,2) kept_discard(1)]
      by (auto simp: advance_call_def goes_on_def task_ok_def staged_write_def shared_ok_def split: option.splits)
  next
    case (SourceDue f)
    then show ?thesis
      using r s by (auto simp: advance_call_def goes_on_def task_ok_def staged_write_def fetched_source_def bind_result_Inr_iff
          split: option.splits sum.splits if_splits prod.splits)
  qed (use r s t db honest_discard rows_stored_kept [OF db(1,2) kept_discard(1)] rows_removed in
    \<open>auto simp: advance_call_def goes_on_def task_ok_def staged_write_def shared_ok_def tk_staged_def split: option.splits sum.splits\<close>)
qed

lemma advance_sound:
  assumes sha: "\<And>b. \<not> slashed (sha b)" and s: "shared_ok sha s" and t: "task_ok sha (sh_store s) t"
    and r: "advance sha unwrap c t s = (r, s')"
  shows "shared_ok sha s' \<and> kept (staged_write t) (sh_store s) (sh_store s') \<and>
    (\<forall>t'. r = Inl t' \<longrightarrow> task_ok sha (sh_store s') t')"
proof (cases "call_fails c (tk_phase t)")
  case True
  then have "s' = s" "\<And>t'. r = Inl t' \<Longrightarrow> \<exists>e. t' = t\<lparr>tk_phase := DiscardDue e\<rparr>"
    using r by (auto simp: advance_def goes_on_def split: phase.splits)
  then show ?thesis using s by (fastforce simp: task_ok_def)
qed (use advance_call_sound [OF sha s t] r in \<open>simp add: advance_def\<close>)

section \<open>Every request at once\<close>

definition purge_ok :: "Database \<Rightarrow> AppId \<times> ObjectKey list \<Rightarrow> bool" where
  "purge_ok db p \<longleftrightarrow> fst p \<in> deleted_apps db \<and>
     (\<forall>ar \<in> set (db_artifacts db). \<forall>k \<in> set (snd p). ar_objectKey ar = Some k \<longrightarrow> ar_appId ar = fst p)"

definition artifacts_ok :: "(byte list \<Rightarrow> Sha256Digest) \<Rightarrow> artifact_state \<Rightarrow> bool" where
  "artifacts_ok sha s \<longleftrightarrow>
     shared_ok sha (as_shared s) \<and> (\<forall>t \<in> set (as_tasks s). task_ok sha (sh_store (as_shared s)) t) \<and>
     (\<forall>p \<in> set (as_purges s). purge_ok (sh_db (as_shared s)) p) \<and> (as_purges s = [] \<or> as_tasks s = [])"

text \<open>
  What the steps rely on. Nobody writes the staging key of a request that has inspected it and not copied
  it yet; no request is under way from the listing of an app's leftovers to their removal; and no other
  service brings a deleted app back.
\<close>

fun orderly :: "artifact_event \<Rightarrow> artifact_state \<Rightarrow> bool" where
  "orderly (Uploads _ appId artifactId _) s =
     list_all (\<lambda>t. inspected_key t \<noteq> Some (stagingKey appId artifactId)) (as_tasks s)"
| "orderly (CompletesUpload _ _ _ _) s = (as_purges s = [])"
| "orderly (Fetches _ _ _ _ _) s = (as_purges s = [])"
| "orderly (FailsUpload _ _ _) s = (as_purges s = [])"
| "orderly (Sweeps _) s = (as_purges s = [])"
| "orderly (Advances n _) s =
     (n < length (as_tasks s) \<longrightarrow> staged_write (as_tasks s ! n) = None \<or>
        list_all (\<lambda>t. inspected_key t \<noteq> staged_write (as_tasks s ! n)) (as_tasks s))"
| "orderly (ListsLeftovers _) s = (as_tasks s = [])"
| "orderly (Elsewhere db) s = (deleted_apps (sh_db (as_shared s)) \<subseteq> deleted_apps db)"
| "orderly (CreatesUpload _ _ _ _ _ _ _) s = True"
| "orderly (RemovesLeftovers _) s = True"

fun orderly_run ::
  "(byte list \<Rightarrow> Sha256Digest) \<Rightarrow> unwrap_with \<Rightarrow> artifact_event list \<Rightarrow> artifact_state \<Rightarrow> bool" where
  "orderly_run sha unwrap [] s = True"
| "orderly_run sha unwrap (e # es) s = (orderly e s \<and> orderly_run sha unwrap es (artifact_step sha unwrap e s))"

lemma begun_ok:
  assumes "artifacts_ok sha s" "as_purges s = []" "\<And>t. b = Inl t \<Longrightarrow> task_ok sha (sh_store (as_shared s)) t"
  shows "artifacts_ok sha (begins b s)"
  using assms by (cases b) (auto simp: begins_def artifacts_ok_def)

lemma completion_begins:
  assumes "\<And>b. \<not> slashed (sha b)" "completeUpload sha fails a own art s = Inl t"
  shows "task_ok sha (sh_store s) t"
proof (cases "findPending a art own (sh_db s)")
  case None
  then show ?thesis using assms(2) by (auto simp: completeUpload_def task_ok_def new_task_def Let_def split: if_splits)
next
  case (Some row)
  then obtain bytes v where b: "js_get (sh_store s) (stagingKey a art) = Some bytes"
      and v: "inspectArtifact sha MAX_ARTIFACT_SIZE_BYTES [bytes] = Inr v"
      and t: "t = (new_task a art own False AnswerDue)\<lparr>tk_phase := promote v\<rparr>"
    using assms(2) by (auto simp: completeUpload_def goes_on_def Let_def split: option.splits sum.splits if_splits)
  from promote_cases [of v] show ?thesis
  proof (elim disjE exE conjE)
    fix i
    assume i: "promote v = HeadDue i" "v = StoredInspection i"
    then show ?thesis
      using inspected_identity [OF assms(1) v [unfolded i(2)]] b t by (simp add: task_ok_def tk_staged_def new_task_def)
  qed (simp add: t task_ok_def)
qed

lemma advance_nth_ok:
  assumes sha: "\<And>b. \<not> slashed (sha b)" and s: "artifacts_ok sha s" and o: "orderly (Advances n c) s"
  shows "artifacts_ok sha (advance_nth sha unwrap n c s)"
proof (cases "length (as_tasks s) \<le> n")
  case False
  define t where "t = as_tasks s ! n"
  have t: "t \<in> set (as_tasks s)" using False by (simp add: t_def)
  obtain r sh where adv: "advance sha unwrap c t (as_shared s) = (r, sh)" by fastforce
  have here: "shared_ok sha (as_shared s)" "task_ok sha (sh_store (as_shared s)) t" "as_purges s = []"
    using s t by (auto simp: artifacts_ok_def)
  note step = advance_sound [OF sha here(1,2) adv]
  have others: "task_ok sha (sh_store sh) u" if "u \<in> set (as_tasks s)" for u
  proof (rule task_ok_kept)
    show "task_ok sha (sh_store (as_shared s)) u" using s that by (simp add: artifacts_ok_def)
    show "kept (staged_write t) (sh_store (as_shared s)) (sh_store sh)" using step by simp
    show "staged_write t = None \<or> inspected_key u \<noteq> staged_write t"
      using o False that by (auto simp: t_def list_all_iff)
  qed
  show ?thesis
  proof (cases r)
    case (Inl t')
    have "u = t' \<or> u \<in> set (as_tasks s)" if "u \<in> set ((as_tasks s)[n := t'])" for u
      using that set_update_subset_insert [of "as_tasks s" n t'] by auto
    then show ?thesis
      using Inl False adv here(3) step others
      by (fastforce simp: advance_nth_def artifacts_ok_def t_def [symmetric] Let_def)
  next
    case (Inr out)
    have "shared_ok sha (sh\<lparr>sh_slots := x\<rparr>)" for x using step by (simp add: shared_ok_def)
    moreover have "set (take n (as_tasks s) @ drop (Suc n) (as_tasks s)) \<subseteq> set (as_tasks s)"
      by (auto dest: in_set_takeD in_set_dropD)
    ultimately show ?thesis
      using Inr False adv here(3) step others
      by (auto simp: advance_nth_def artifacts_ok_def t_def [symmetric] Let_def)
  qed
qed (simp add: advance_nth_def s)

lemma leftovers_removed_ok:
  assumes s: "artifacts_ok sha s" and p: "as_purges s = (a, keys) # rest"
  shows "artifacts_ok sha (s\<lparr>as_shared := remove_leftovers removes a keys (as_shared s), as_purges := rest\<rparr>)"
proof -
  let ?sh = "as_shared s" and ?sh' = "remove_leftovers removes a keys (as_shared s)"
  have ok: "shared_ok sha ?sh" "as_tasks s = []" "purge_ok (sh_db ?sh) (a, keys)" "\<forall>q \<in> set rest. purge_ok (sh_db ?sh) q"
    using s p by (auto simp: artifacts_ok_def)
  have get: "js_get (sh_store ?sh') k = (if k \<in> set keys \<and> removes k then None else js_get (sh_store ?sh) k)" for k
    using js_get_restrict [of "{k. \<not> (k \<in> set keys \<and> removes k)}" "sh_store ?sh" k] by (simp add: remove_leftovers_def)
  have rows: "set (db_artifacts (sh_db ?sh')) \<subseteq> set (db_artifacts (sh_db ?sh))"
      "deleted_apps (sh_db ?sh') = deleted_apps (sh_db ?sh)"
    by (auto simp: remove_leftovers_def purge_def deleted_apps_def)
  have "js_has (sh_store ?sh') d"
    if ar: "ar \<in> set (db_artifacts (sh_db ?sh'))" "ar_digest ar = Some d" "ar_appId ar \<notin> deleted_apps (sh_db ?sh')" for ar d
  proof -
    have mem: "ar \<in> set (db_artifacts (sh_db ?sh))" using ar(1) rows(1) by blast
    then have "ar_objectKey ar = Some d" "js_has (sh_store ?sh) d"
      using ok(1) ar(2,3) rows(2) by (auto simp: shared_ok_def rows_ok_def rows_stored_def)
    moreover have "d \<notin> set keys" using ok(3) mem calculation(1) ar(3) rows(2) by (auto simp: purge_ok_def)
    ultimately show ?thesis using get [of d] by (simp add: js_has_def)
  qed
  then have "rows_stored (sh_store ?sh') (sh_db ?sh')" by (simp add: rows_stored_def)
  moreover have "honest sha (sh_store ?sh')" using ok(1) get by (auto simp: shared_ok_def honest_def split: if_splits)
  moreover have "rows_ok (sh_db ?sh')" using ok(1) rows(1) by (auto simp: shared_ok_def rows_ok_def)
  moreover have "purge_ok (sh_db ?sh') q" if "q \<in> set rest" for q
    using ok(4) that rows by (auto simp: purge_ok_def)
  ultimately show ?thesis using ok(2) by (simp add: artifacts_ok_def shared_ok_def)
qed

lemma artifact_step_ok:
  assumes sha: "\<And>b. \<not> slashed (sha b)" and s: "artifacts_ok sha s" and o: "orderly e s"
  shows "artifacts_ok sha (artifact_step sha unwrap e s)"
proof (cases e)
  case (CreatesUpload c appId ownerId grant anonymous filename sizeBytes)
  let ?db = "sh_db (as_shared s)"
  obtain ins db' where i: "insertPending (cl_newId c) (cl_now c) appId ownerId filename None anonymous ?db = (ins, db')"
    by fastforce
  have urls: "artifacts_ok sha (u\<lparr>as_signed := x\<rparr>) = artifacts_ok sha u" for u x by (simp add: artifacts_ok_def)
  obtain r db where made: "artifacts_create c appId ownerId grant anonymous filename sizeBytes ?db = (r, db)"
    by fastforce
  then have "db \<in> {?db, db'}"
    by (auto simp: artifacts_create_def i split: sum.splits option.splits if_splits)
  moreover have "artifacts_ok sha (s\<lparr>as_shared := (as_shared s)\<lparr>sh_db := db'\<rparr>\<rparr>)"
    using s rows_inserted [OF i]
    by (auto simp: artifacts_ok_def shared_ok_def purge_ok_def)
  moreover have "artifacts_ok sha (s\<lparr>as_shared := (as_shared s)\<lparr>sh_db := ?db\<rparr>\<rparr>)" using s by simp
  ultimately have "artifacts_ok sha (s\<lparr>as_shared := (as_shared s)\<lparr>sh_db := db\<rparr>\<rparr>)" by blast
  then show ?thesis
    using urls [where u = "s\<lparr>as_shared := (as_shared s)\<lparr>sh_db := db\<rparr>\<rparr>"] by (simp add: CreatesUpload made)
next
  case (Uploads now appId artifactId bytes)
  let ?key = "stagingKey appId artifactId"
  let ?store' = "put_signed now (as_signed s) ?key bytes (sh_store (as_shared s))"
  have k: "kept (Some ?key) (sh_store (as_shared s)) ?store'" by (simp add: put_signed_def)
  have "task_ok sha ?store' t" if "t \<in> set (as_tasks s)" for t
    using s o that by (intro task_ok_kept [OF _ k]) (auto simp: artifacts_ok_def Uploads list_all_iff)
  moreover have "honest sha ?store'" if "honest sha (sh_store (as_shared s))"
    using that by (simp add: put_signed_def honest_staging)
  ultimately show ?thesis
    using s rows_stored_kept [OF _ _ k, of "sh_db (as_shared s)"]
    by (auto simp: Uploads artifacts_ok_def shared_ok_def)
next
  case (CompletesUpload fails appId ownerId artifactId)
  then show ?thesis
    using o completion_begins [OF sha] by (auto intro!: begun_ok [OF s])
next
  case (Fetches appId ownerId hasGrant anonymous r)
  then show ?thesis
    using o by (auto simp: createFromUrl_def new_task_def task_ok_def split: if_splits intro!: begun_ok [OF s])
next
  case (FailsUpload appId ownerId artifactId)
  then show ?thesis
    using o by (auto simp: failUpload_def new_task_def task_ok_def split: option.splits intro!: begun_ok [OF s])
next
  case (Sweeps now)
  then show ?thesis
    using o s by (auto simp: artifacts_ok_def sweepAbandoned_def new_task_def task_ok_def)
next
  case (Advances n c)
  then show ?thesis using advance_nth_ok [OF sha s] o by simp
next
  case (ListsLeftovers appId)
  have "purge_ok (sh_db (as_shared s)) (appId, lo_artifacts (listLeftovers (sh_db (as_shared s)) appId))"
    if "purgeable (sh_db (as_shared s)) appId"
    using that by (auto simp: purge_ok_def purgeable_def deleted_apps_def list_ex_iff leftover_keys artifact_keys_def)
  then show ?thesis
    using s o by (auto simp: ListsLeftovers artifacts_ok_def)
next
  case (RemovesLeftovers removes)
  then show ?thesis
    using s leftovers_removed_ok [OF s] by (auto split: list.split)
next
  case (Elsewhere db)
  let ?old = "sh_db (as_shared s)" and ?db' = "db\<lparr>db_artifacts := db_artifacts (sh_db (as_shared s))\<rparr>"
  have deleted: "deleted_apps ?old \<subseteq> deleted_apps ?db'" using o by (simp add: Elsewhere deleted_apps_def)
  then have "rows_stored (sh_store (as_shared s)) ?old \<Longrightarrow> rows_stored (sh_store (as_shared s)) ?db'"
    "purge_ok ?old p \<Longrightarrow> purge_ok ?db' p" for p
    by (auto simp: rows_stored_def purge_ok_def)
  moreover have "rows_ok ?db' = rows_ok ?old" by (simp add: rows_ok_def)
  ultimately show ?thesis using s by (simp add: Elsewhere artifacts_ok_def shared_ok_def)
qed

lemma artifact_run_ok:
  assumes "\<And>b. \<not> slashed (sha b)" "artifacts_ok sha s" "orderly_run sha unwrap es s"
  shows "artifacts_ok sha (artifact_run sha unwrap es s)"
  using assms(2,3)
  by (induction es arbitrary: s) (simp_all add: artifact_run_def artifact_step_ok [OF assms(1)])

text \<open>A platform on which nothing has been uploaded yet.\<close>

definition no_fetches :: RemoteFetchSlots where "no_fetches = \<lparr>rf_inFlight = 0, rf_byOwner = []\<rparr>"

definition artifacts_start :: "Database \<Rightarrow> artifact_state" where
  "artifacts_start db =
     \<lparr>as_shared = \<lparr>sh_store = [], sh_db = db\<lparr>db_artifacts := []\<rparr>, sh_slots = no_fetches\<rparr>, as_tasks = [], as_purges = [],
      as_signed = []\<rparr>"

text \<open>
  C5. An artifact is stored, and is what its digest says. After every interleaving of uploads, completions,
  retries, fetches, reuses, sweeps and purges in which nobody writes a staging key between its inspection
  and its copy and no request is under way during a purge, the object every registered artifact of an
  app that is not deleted names is in the store, under its digest and with the bytes that digest is of;
  and no object of the store is under a digest that is not its own.
\<close>

theorem registered_binaries_are_stored:
  assumes "\<And>b. CHR ''/'' \<notin> set (sha b)" and "orderly_run sha unwrap es (artifacts_start db)"
    and "artifact_run sha unwrap es (artifacts_start db) = s"
  shows "(\<forall>ar \<in> set (db_artifacts (sh_db (as_shared s))). \<forall>d.
      ar_digest ar = Some d \<and> ar_appId ar \<notin> deleted_apps (sh_db (as_shared s)) \<longrightarrow>
      ar_objectKey ar = Some d \<and> (\<exists>b. js_get (sh_store (as_shared s)) d = Some b \<and> sha b = d)) \<and>
    (\<forall>k b. CHR ''/'' \<notin> set k \<and> js_get (sh_store (as_shared s)) k = Some b \<longrightarrow> sha b = k)"
proof -
  have "artifacts_ok sha (artifacts_start db)"
    by (simp add: artifacts_ok_def artifacts_start_def shared_ok_def honest_def rows_ok_def rows_stored_def)
  from artifact_run_ok [OF _ this assms(2)] have ok: "artifacts_ok sha s"
    using assms(1,3) by (simp add: slashed_def)
  then have honest: "\<forall>k b. CHR ''/'' \<notin> set k \<and> js_get (sh_store (as_shared s)) k = Some b \<longrightarrow> sha b = k"
    by (simp add: artifacts_ok_def shared_ok_def honest_def slashed_def)
  moreover have "ar_objectKey ar = Some d \<and> (\<exists>b. js_get (sh_store (as_shared s)) d = Some b \<and> sha b = d)"
    if ar: "ar \<in> set (db_artifacts (sh_db (as_shared s)))" "ar_digest ar = Some d"
      "ar_appId ar \<notin> deleted_apps (sh_db (as_shared s))" for ar d
  proof -
    have "ar_objectKey ar = Some d" "CHR ''/'' \<notin> set d" "js_has (sh_store (as_shared s)) d"
      using ok ar by (auto simp: artifacts_ok_def shared_ok_def rows_ok_def rows_stored_def slashed_def)
    then show ?thesis using honest by (auto simp: js_has_def)
  qed
  ultimately show ?thesis by blast
qed

text \<open>One tenant with one app, and a deleted app beside it.\<close>

definition an_app :: "AppId \<Rightarrow> AppState \<Rightarrow> AppRow" where
  "an_app i state = \<lparr>ap_id = i, ap_owner = ''me'', ap_name = i, ap_slug = i, ap_state = state,
     ap_activation = AlwaysActivation, ap_idleTimeoutMs = 0, ap_createdAt = 0, ap_updatedAt = 0,
     ap_dataInitializedAt = None, ap_migrationState = None, ap_migrationMessage = None,
     ap_migrationStartedAt = None, ap_migrationHostId = None\<rparr>"

definition two_apps :: Database where
  "two_apps = (empty_database [])\<lparr>db_apps := [an_app ''app'' AppActive, an_app ''old'' AppDeleted]\<rparr>"

definition a_call :: "ArtifactId \<Rightarrow> call" where
  "a_call i = \<lparr>cl_removes = True, cl_fails = False, cl_newId = i, cl_now = 0, cl_choice = 0\<rparr>"

definition no_archives :: unwrap_with where "no_archives body = Inr (NotAnArchive body)"

definition both_live :: Database where
  "both_live = (empty_database [])\<lparr>db_apps := [an_app ''app'' AppActive, an_app ''old'' AppActive]\<rparr>"

text \<open>An upload of \<open>bytes\<close>, its completion, and the calls the first request makes next.\<close>

definition upload_of :: "AppId \<Rightarrow> byte list \<Rightarrow> artifact_event list" where
  "upload_of i bytes =
     [CreatesUpload (a_call (i @ ''-bin'')) i ''me'' None False ''bin'' (length bytes), Uploads 0 i (i @ ''-bin'') bytes]"

definition completion_of :: "AppId \<Rightarrow> artifact_event" where
  "completion_of i = CompletesUpload False i ''me'' (i @ ''-bin'')"

definition next_calls :: "nat \<Rightarrow> artifact_event list" where
  "next_calls n = replicate n (Advances 0 (a_call []))"

lemma next_calls:
  "next_calls (Suc 0) = [Advances 0 (a_call [])]" "next_calls 2 = [Advances 0 (a_call []), Advances 0 (a_call [])]"
  "next_calls 5 = [Advances 0 (a_call []), Advances 0 (a_call []), Advances 0 (a_call []), Advances 0 (a_call []),
     Advances 0 (a_call [])]"
  by (simp_all add: next_calls_def eval_nat_numeral)

lemma only_task:
  "advance_nth sha unwrap 0 c \<lparr>as_shared = sh, as_tasks = [t], as_purges = ps, as_signed = us\<rparr> =
    (case advance sha unwrap c t sh of
       (Inl t', sh') \<Rightarrow> \<lparr>as_shared = sh', as_tasks = [t'], as_purges = ps, as_signed = us\<rparr>
     | (Inr _, sh') \<Rightarrow> \<lparr>as_shared = (if tk_holdsSlot t then sh'\<lparr>sh_slots := release_slot (tk_ownerId t) (sh_slots sh')\<rparr> else sh'),
         as_tasks = [], as_purges = ps, as_signed = us\<rparr>)"
  by (simp add: advance_nth_def Let_def split: prod.split sum.split)

lemma upload_phases:
  assumes "\<not> cl_fails c"
  shows "tk_phase t = HeadDue i \<Longrightarrow> advance sha unwrap c t s =
    (goes_on t (if js_has (sh_store s) (id_objectKey i) then RegisterDue i else CopyDue i), s)"
  and "tk_phase t = CopyDue i \<Longrightarrow> js_get (sh_store s) (tk_staged t) = Some bytes \<Longrightarrow>
    advance sha unwrap c t s = (goes_on t (WriteDue i bytes), s)"
  and "tk_phase t = WriteDue i bytes \<Longrightarrow> advance sha unwrap c t s =
    (goes_on t (RegisterDue i), s\<lparr>sh_store := js_set (id_objectKey i) bytes (sh_store s)\<rparr>)"
  and "tk_phase t = RegisterDue i \<Longrightarrow> complete (tk_appId t) (tk_artifactId t) (tk_ownerId t) i (sh_db s) = (row, db) \<Longrightarrow>
    advance sha unwrap c t s = (goes_on t (CleanupDue row), s\<lparr>sh_db := db\<rparr>)"
  and "tk_phase t = CleanupDue (Some r) \<Longrightarrow> advance sha unwrap c t s =
    (Inr (Answered r), s\<lparr>sh_store := discard (cl_removes c \<and> tk_staging t) (tk_staged t) (sh_store s)\<rparr>)"
  using assms by (simp_all add: advance_def advance_call_def call_fails_def)

lemmas run_simps = artifact_run_def artifacts_start_def upload_of_def completion_of_def next_calls two_apps_def both_live_def
  an_app_def a_call_def empty_database_def artifacts_create_def isOwnedBy_def owned_app_def insertPending_def app_is_live_def
  takenPlace_def signUpload_def signed_for_def put_signed_def UPLOAD_URL_TTL_SECONDS_def MS_PER_SECOND_def completeUpload_def findPending_def pending_of_def new_task_def
  goes_on_def begins_def only_task upload_phases promote_def complete_def tk_staged_def discard_def alreadyStored_def
  artifact_by_id_def Let_def

lemma tiny_upload:
  "inspectArtifact sha MAX_ARTIFACT_SIZE_BYTES [tiny_elf] =
    Inr (StoredInspection \<lparr>id_digest = sha tiny_elf, id_sizeBytes = 64, id_objectKey = sha tiny_elf\<rparr>)"
proof -
  have "inspectArtifact sha 268435456 [tiny_elf] = inspect_whole sha 268435456 tiny_elf"
    using inspectArtifact_whole [of 268435456 sha "[tiny_elf]"] by (simp add: HEADER_BYTES_def)
  then show ?thesis by (simp add: tiny_elf_whole MAX_ARTIFACT_SIZE_BYTES_def)
qed

lemma tiny_length: "length tiny_elf = 64"
  by (simp add: tiny_elf_def ELF_MAGIC_def)

lemma tiny_size: "\<not> MAX_ARTIFACT_SIZE_BYTES < length tiny_elf"
  by (simp add: tiny_length MAX_ARTIFACT_SIZE_BYTES_def)

theorem registered_binaries_are_stored_witness:
  "\<exists>b. js_get (sh_store (as_shared (artifact_run (\<lambda>_. ''d'') no_archives
     (upload_of ''app'' tiny_elf @ completion_of ''app'' # next_calls 5) (artifacts_start two_apps)))) ''d'' = Some b"
proof -
  let ?es = "upload_of ''app'' tiny_elf @ completion_of ''app'' # next_calls 5"
  let ?s = "artifact_run (\<lambda>_. ''d'') no_archives ?es (artifacts_start two_apps)"
  have apart: "''d'' \<noteq> stagingKey a i" "stagingKey a i \<noteq> ''d''" for a i
    by (simp_all add: stagingKey_def UPLOAD_PREFIX_def)
  note evaluate = run_simps js_has_def js_simps tiny_upload tiny_size apart
  have "orderly_run (\<lambda>_. ''d'') no_archives ?es (artifacts_start two_apps)"
    by (simp add: evaluate staged_write_def)
  from registered_binaries_are_stored [OF _ this refl]
  have stored: "\<forall>ar \<in> set (db_artifacts (sh_db (as_shared ?s))). \<forall>d.
      ar_digest ar = Some d \<and> ar_appId ar \<notin> deleted_apps (sh_db (as_shared ?s)) \<longrightarrow>
      ar_objectKey ar = Some d \<and> (\<exists>b. js_get (sh_store (as_shared ?s)) d = Some b \<and> ''d'' = d)"
    by simp
  have "map (\<lambda>ar. (ar_digest ar, ar_appId ar)) (db_artifacts (sh_db (as_shared ?s))) = [(Some ''d'', ''app'')] \<and>
      map (\<lambda>a. (ap_id a, ap_state a)) (db_apps (sh_db (as_shared ?s))) = [(''app'', AppActive), (''old'', AppDeleted)]"
    by (simp add: evaluate)
  then have "\<exists>ar \<in> set (db_artifacts (sh_db (as_shared ?s))). ar_digest ar = Some ''d'' \<and>
      ar_appId ar \<notin> deleted_apps (sh_db (as_shared ?s))"
    by (auto simp: map_eq_Cons_conv deleted_apps_def)
  with stored show ?thesis by blast
qed

text \<open>
  C22. A second upload is stored under the digest of the first. The url an upload was signed for stays good after
  its completion has begun, and the completion inspects the staged object once and copies it afterwards:
  whoever puts other bytes of the same length there in between, while the url is good, has them stored
  under the digest of the first ones, where every app that deploys those from then on finds the object in
  place and registers it without a look.
\<close>

theorem rewritten_upload_takes_the_digest:
  assumes "inspectArtifact sha MAX_ARTIFACT_SIZE_BYTES [good] = Inr (StoredInspection identity)"
    and "CHR ''/'' \<notin> set (sha good)"
    and "length other = length good" and "now \<le> UPLOAD_URL_TTL_SECONDS * MS_PER_SECOND"
    and "artifact_run sha no_archives
      (upload_of ''app'' good @ [completion_of ''app'', Uploads now ''app'' ''app-bin'' other] @ next_calls 5)
      (artifacts_start two_apps) = s"
  shows "js_get (sh_store (as_shared s)) (sha good) = Some other \<and> as_tasks s = [] \<and>
    map ar_digest (db_artifacts (sh_db (as_shared s))) = [Some (sha good)]"
proof -
  have id: "id_digest identity = sha good" "id_objectKey identity = sha good" "\<not> MAX_ARTIFACT_SIZE_BYTES < length good"
    using stored_identity [of sha MAX_ARTIFACT_SIZE_BYTES good identity] assms(1)
    by (simp_all add: inspectArtifact_whole [OF header_within_limit])
  have apart: "sha good \<noteq> stagingKey a i" "stagingKey a i \<noteq> sha good" for a i
    using assms(2) slashed_staging(1) [of a i] by (auto simp: slashed_def)
  show ?thesis
    using assms(1,3-5) id apart
    by (auto simp: run_simps js_has_def js_simps)
qed

theorem rewritten_upload_takes_the_digest_witness:
  "js_get (sh_store (as_shared (artifact_run (\<lambda>b. if b = tiny_elf then ''d'' else ''e'') no_archives
     (upload_of ''app'' tiny_elf @ [completion_of ''app'', Uploads 60000 ''app'' ''app-bin'' (replicate 64 0)] @ next_calls 5)
     (artifacts_start two_apps)))) ''d'' = Some (replicate 64 0)"
  using rewritten_upload_takes_the_digest [OF tiny_upload _ _ _ refl,
      of "\<lambda>b. if b = tiny_elf then ''d'' else ''e''" "replicate 64 0" 60000] tiny_length
  by (simp add: UPLOAD_URL_TTL_SECONDS_def MS_PER_SECOND_def)

text \<open>
  C23. A purge can take the binary another app is registering. The last app that names an object is listed for
  removal; a completion of the same bytes, begun after the listing, finds the object in place and does
  not copy it; the purge removes it; and the completion registers an artifact whose object is gone, which
  no host will ever be able to fetch.
\<close>

theorem purge_takes_what_is_being_registered:
  assumes "inspectArtifact sha MAX_ARTIFACT_SIZE_BYTES [good] = Inr (StoredInspection identity)"
    and "CHR ''/'' \<notin> set (sha good)"
    and "artifact_run sha no_archives
      (upload_of ''old'' good @ [completion_of ''old''] @ next_calls 5 @ [Elsewhere two_apps] @
       upload_of ''app'' good @ [ListsLeftovers ''old'', completion_of ''app''] @ next_calls 1 @
       [RemovesLeftovers (\<lambda>_. True)] @ next_calls 2)
      (artifacts_start both_live) = s"
  shows "map (\<lambda>ar. (ar_appId ar, ar_digest ar)) (db_artifacts (sh_db (as_shared s))) = [(''app'', Some (sha good))] \<and>
    js_get (sh_store (as_shared s)) (sha good) = None \<and> as_tasks s = []"
proof -
  have id: "id_digest identity = sha good" "id_objectKey identity = sha good" "\<not> MAX_ARTIFACT_SIZE_BYTES < length good"
    using stored_identity [of sha MAX_ARTIFACT_SIZE_BYTES good identity] assms(1)
    by (simp_all add: inspectArtifact_whole [OF header_within_limit])
  have apart: "sha good \<noteq> stagingKey a i" "stagingKey a i \<noteq> sha good" for a i
    using assms(2) slashed_staging(1) [of a i] by (auto simp: slashed_def)
  have keys: "stagingKey ''old'' ''old-bin'' \<noteq> stagingKey ''app'' ''app-bin''"
    by (simp add: stagingKey_def UPLOAD_PREFIX_def)
  show ?thesis
    using assms(1,3) id apart keys
    by (auto simp: run_simps js_has_def js_simps purgeable_def listLeftovers_def keys_of_app_def
        List.map_filter_simps remove_leftovers_def purge_def)
qed

theorem purge_takes_what_is_being_registered_witness:
  "js_get (sh_store (as_shared (artifact_run (\<lambda>_. ''d'') no_archives
     (upload_of ''old'' tiny_elf @ [completion_of ''old''] @ next_calls 5 @ [Elsewhere two_apps] @
      upload_of ''app'' tiny_elf @ [ListsLeftovers ''old'', completion_of ''app''] @ next_calls 1 @
      [RemovesLeftovers (\<lambda>_. True)] @ next_calls 2) (artifacts_start both_live)))) ''d'' = None"
  using purge_takes_what_is_being_registered [OF tiny_upload _ refl, of "\<lambda>_. ''d''"] by simp

section \<open>Fetches under way\<close>

definition holding :: "task list \<Rightarrow> int" where
  "holding ts = int (length (filter tk_holdsSlot ts))"

definition held_by :: "OwnerId \<Rightarrow> task list \<Rightarrow> int" where
  "held_by own ts = int (length (filter (\<lambda>t. tk_holdsSlot t \<and> tk_ownerId t = own) ts))"

definition before_slot :: "phase \<Rightarrow> bool" where
  "before_slot p = (case p of ReuseDue _ \<Rightarrow> True | ReuseHeadDue _ _ \<Rightarrow> True | FetchDue _ \<Rightarrow> True | _ \<Rightarrow> False)"

definition slots_count :: "RemoteFetchSlots \<Rightarrow> task list \<Rightarrow> bool" where
  "slots_count sl ts \<longleftrightarrow>
     (\<forall>t \<in> set ts. before_slot (tk_phase t) \<longrightarrow> \<not> tk_holdsSlot t) \<and>
     rf_inFlight sl = holding ts \<and> holding ts \<le> MAX_CONCURRENT_FETCHES \<and>
     (\<forall>own. (case js_get (rf_byOwner sl) own of None \<Rightarrow> 0 | Some n \<Rightarrow> n) = held_by own ts \<and>
        held_by own ts \<le> MAX_CONCURRENT_FETCHES_PER_OWNER)"

lemma counts_replace:
  "n < length ts \<Longrightarrow> holding (ts[n := t]) = holding ts - of_bool (tk_holdsSlot (ts ! n)) + of_bool (tk_holdsSlot t)"
  "n < length ts \<Longrightarrow> held_by own (ts[n := t]) = held_by own ts - of_bool (tk_holdsSlot (ts ! n) \<and> tk_ownerId (ts ! n) = own) +
    of_bool (tk_holdsSlot t \<and> tk_ownerId t = own)"
  "n < length ts \<Longrightarrow> holding (take n ts @ drop (Suc n) ts) = holding ts - of_bool (tk_holdsSlot (ts ! n))"
  "n < length ts \<Longrightarrow> held_by own (take n ts @ drop (Suc n) ts) =
    held_by own ts - of_bool (tk_holdsSlot (ts ! n) \<and> tk_ownerId (ts ! n) = own)"
proof -
  assume n: "n < length ts"
  have ts: "filter p ts = filter p (take n ts) @ filter p [ts ! n] @ filter p (drop (Suc n) ts)" for p
    by (subst id_take_nth_drop [OF n]) simp
  show "holding (ts[n := t]) = holding ts - of_bool (tk_holdsSlot (ts ! n)) + of_bool (tk_holdsSlot t)"
    "held_by own (ts[n := t]) = held_by own ts - of_bool (tk_holdsSlot (ts ! n) \<and> tk_ownerId (ts ! n) = own) +
      of_bool (tk_holdsSlot t \<and> tk_ownerId t = own)"
    "holding (take n ts @ drop (Suc n) ts) = holding ts - of_bool (tk_holdsSlot (ts ! n))"
    "held_by own (take n ts @ drop (Suc n) ts) =
      held_by own ts - of_bool (tk_holdsSlot (ts ! n) \<and> tk_ownerId (ts ! n) = own)"
    by (simp_all add: holding_def held_by_def ts upd_conv_take_nth_drop [OF n])
qed

text \<open>A call takes a slot, keeps what it has, or ends the request.\<close>

lemma advance_call_slots:
  assumes "advance_call sha unwrap c t s = (r, s')" "before_slot (tk_phase t) \<longrightarrow> \<not> tk_holdsSlot t"
  shows "(sh_slots s' = sh_slots s \<and> (\<forall>t'. r = Inl t' \<longrightarrow> tk_holdsSlot t' = tk_holdsSlot t \<and> tk_ownerId t' = tk_ownerId t \<and>
       (before_slot (tk_phase t') \<longrightarrow> \<not> tk_holdsSlot t'))) \<or>
    (\<exists>t'. r = Inl t' \<and> \<not> tk_holdsSlot t \<and> tk_holdsSlot t' \<and> tk_ownerId t' = tk_ownerId t \<and> \<not> before_slot (tk_phase t') \<and>
       take_slot (tk_ownerId t) (sh_slots s) = Inr (sh_slots s'))"
proof (cases "tk_phase t")
  case (StageDue body check)
  then show ?thesis
    using assms promote_cases
    by (auto simp: advance_call_def goes_on_def stageOrGiveUp_def before_slot_def Let_def promote_def
        split: prod.splits option.splits sum.splits if_splits ArtifactInspection.splits)
next
  case (SourceDue f)
  then show ?thesis
    using assms by (auto simp: advance_call_def goes_on_def before_slot_def fetched_source_def bind_result_Inr_iff
        split: option.splits sum.splits if_splits prod.splits)
next
  case (InsertDue body f check sd)
  then show ?thesis
    using assms by (auto simp: advance_call_def goes_on_def before_slot_def takes_place_def split: sum.splits prod.splits)
next
  case (ReuseInsertDue cached)
  then show ?thesis
    using assms by (auto simp: advance_call_def goes_on_def before_slot_def takes_place_def split: sum.splits prod.splits)
qed (use assms in \<open>auto simp: advance_call_def goes_on_def before_slot_def split: option.splits sum.splits prod.splits if_splits\<close>)

lemma advance_slots:
  assumes "advance sha unwrap c t s = (r, s')" "before_slot (tk_phase t) \<longrightarrow> \<not> tk_holdsSlot t"
  shows "(sh_slots s' = sh_slots s \<and> (\<forall>t'. r = Inl t' \<longrightarrow> tk_holdsSlot t' = tk_holdsSlot t \<and> tk_ownerId t' = tk_ownerId t \<and>
       (before_slot (tk_phase t') \<longrightarrow> \<not> tk_holdsSlot t'))) \<or>
    (\<exists>t'. r = Inl t' \<and> \<not> tk_holdsSlot t \<and> tk_holdsSlot t' \<and> tk_ownerId t' = tk_ownerId t \<and> \<not> before_slot (tk_phase t') \<and>
       take_slot (tk_ownerId t) (sh_slots s) = Inr (sh_slots s'))"
proof (cases "call_fails c (tk_phase t)")
  case True
  then show ?thesis
    using assms(1) by (auto simp: advance_def goes_on_def before_slot_def split: phase.splits)
qed (use advance_call_slots [OF _ assms(2)] assms(1) in \<open>simp add: advance_def\<close>)

lemma slot_taken:
  assumes "take_slot own sl = Inr sl'"
  shows "rf_inFlight sl' = rf_inFlight sl + 1" "rf_inFlight sl < MAX_CONCURRENT_FETCHES"
    "(case js_get (rf_byOwner sl') o' of None \<Rightarrow> 0 | Some n \<Rightarrow> n) =
      (case js_get (rf_byOwner sl) o' of None \<Rightarrow> 0 | Some n \<Rightarrow> n) + of_bool (o' = own)"
    "(case js_get (rf_byOwner sl) own of None \<Rightarrow> 0 | Some n \<Rightarrow> n) < MAX_CONCURRENT_FETCHES_PER_OWNER"
  using assms by (auto simp: take_slot_def Let_def js_simps split: if_splits option.splits)

lemma slot_released:
  assumes "0 < (case js_get (rf_byOwner sl) own of None \<Rightarrow> 0 | Some n \<Rightarrow> n)"
  shows "rf_inFlight (release_slot own sl) = rf_inFlight sl - 1"
    "(case js_get (rf_byOwner (release_slot own sl)) o' of None \<Rightarrow> 0 | Some n \<Rightarrow> n) =
      (case js_get (rf_byOwner sl) o' of None \<Rightarrow> 0 | Some n \<Rightarrow> n) - of_bool (o' = own)"
  using assms by (auto simp: release_slot_def Let_def js_simps split: option.splits)

lemma advance_nth_slots:
  assumes "slots_count (sh_slots (as_shared s)) (as_tasks s)"
  shows "slots_count (sh_slots (as_shared (advance_nth sha unwrap n c s))) (as_tasks (advance_nth sha unwrap n c s))"
proof (cases "length (as_tasks s) \<le> n")
  case False
  define t where "t = as_tasks s ! n"
  have n: "n < length (as_tasks s)" and t: "t \<in> set (as_tasks s)" using False by (auto simp: t_def)
  note counts = counts_replace [OF n, folded t_def]
  obtain r sh where adv: "advance sha unwrap c t (as_shared s) = (r, sh)" by fastforce
  have fresh: "before_slot (tk_phase t) \<longrightarrow> \<not> tk_holdsSlot t" using assms t by (simp add: slots_count_def)
  note here = assms [unfolded slots_count_def]
  show ?thesis
  proof (cases r)
    case (Inl t')
    have tasks: "u = t' \<or> u \<in> set (as_tasks s)" if "u \<in> set ((as_tasks s)[n := t'])" for u
      using that set_update_subset_insert [of "as_tasks s" n t'] by auto
    have result: "advance_nth sha unwrap n c s = s\<lparr>as_shared := sh, as_tasks := (as_tasks s)[n := t']\<rparr>"
      using adv Inl False by (simp add: advance_nth_def t_def [symmetric] Let_def)
    from advance_slots [OF adv fresh] show ?thesis
    proof (elim disjE exE conjE)
      assume "sh_slots sh = sh_slots (as_shared s)"
        "\<forall>t'. r = Inl t' \<longrightarrow> tk_holdsSlot t' = tk_holdsSlot t \<and> tk_ownerId t' = tk_ownerId t \<and>
          (before_slot (tk_phase t') \<longrightarrow> \<not> tk_holdsSlot t')"
      then show ?thesis using here tasks Inl by (auto simp: result slots_count_def counts)
    next
      fix u
      assume u: "r = Inl u" "\<not> tk_holdsSlot t" "tk_holdsSlot u" "tk_ownerId u = tk_ownerId t" "\<not> before_slot (tk_phase u)"
        and taken: "take_slot (tk_ownerId t) (sh_slots (as_shared s)) = Inr (sh_slots sh)"
      have "u = t'" using u(1) Inl by simp
      then show ?thesis
        using here tasks u slot_taken [OF taken] by (auto simp: result slots_count_def counts)
    qed
  next
    case (Inr out)
    have same: "sh_slots sh = sh_slots (as_shared s)" using advance_slots [OF adv fresh] Inr by auto
    have held: "0 < held_by (tk_ownerId t) (as_tasks s)" if "tk_holdsSlot t"
      using that t by (auto simp: held_by_def filter_empty_conv)
    have sub: "set (take n (as_tasks s) @ drop (Suc n) (as_tasks s)) \<subseteq> set (as_tasks s)"
      by (auto dest: in_set_takeD in_set_dropD)
    have result: "advance_nth sha unwrap n c s =
      s\<lparr>as_shared := (if tk_holdsSlot t then sh\<lparr>sh_slots := release_slot (tk_ownerId t) (sh_slots sh)\<rparr> else sh),
        as_tasks := take n (as_tasks s) @ drop (Suc n) (as_tasks s)\<rparr>"
      using adv Inr False by (simp add: advance_nth_def t_def [symmetric] Let_def)
    show ?thesis
    proof (cases "tk_holdsSlot t")
      case True
      have "0 < (case js_get (rf_byOwner (sh_slots (as_shared s))) (tk_ownerId t) of None \<Rightarrow> 0 | Some n \<Rightarrow> n)"
        using here held [OF True] by simp
      note released = slot_released [OF this]
      have "held_by (tk_ownerId t) (as_tasks s) - 1 \<le> MAX_CONCURRENT_FETCHES_PER_OWNER"
        using here by (meson diff_le_eq le_add_same_cancel1 order_trans zero_le_one)
      then show ?thesis
        using here sub True same released by (auto simp: result slots_count_def counts)
    next
      case False
      then show ?thesis using here sub same by (auto simp: result slots_count_def counts)
    qed
  qed
qed (use assms in \<open>simp add: advance_nth_def\<close>)

lemma begun_slots:
  "slots_count sl (as_tasks s) \<Longrightarrow> (\<And>t. b = Inl t \<Longrightarrow> \<not> tk_holdsSlot t) \<Longrightarrow> slots_count sl (as_tasks (begins b s))"
  by (cases b) (auto simp: begins_def slots_count_def holding_def held_by_def)

lemma begins_shared [simp]: "as_shared (begins b s) = as_shared s"
  by (simp add: begins_def split: sum.split)

lemma completion_holds_nothing:
  "completeUpload sha fails a own art s = Inl t \<Longrightarrow> \<not> tk_holdsSlot t"
  "createFromUrl a own g an r db = Inl t \<Longrightarrow> \<not> tk_holdsSlot t"
  "failUpload a own art db = Inl t \<Longrightarrow> \<not> tk_holdsSlot t"
  by (auto simp: completeUpload_def createFromUrl_def failUpload_def goes_on_def new_task_def Let_def
      split: option.splits sum.splits if_splits)

lemma artifact_step_slots:
  assumes "slots_count (sh_slots (as_shared s)) (as_tasks s)"
  shows "slots_count (sh_slots (as_shared (artifact_step sha unwrap e s))) (as_tasks (artifact_step sha unwrap e s))"
proof (cases e)
  case (Sweeps now)
  have "\<not> tk_holdsSlot t \<and> \<not> before_slot (tk_phase t)" if "t \<in> set (sweepAbandoned now db)" for t db
    using that by (auto simp: sweepAbandoned_def new_task_def before_slot_def)
  then show ?thesis
    using assms by (auto simp: Sweeps slots_count_def holding_def held_by_def filter_empty_conv)
next
  case (RemovesLeftovers removes)
  then show ?thesis using assms by (auto simp: remove_leftovers_def split: list.split)
qed (use assms completion_holds_nothing in \<open>auto simp: advance_nth_slots split: prod.splits intro!: begun_slots\<close>)

text \<open>
  C24. Fetches are bounded whatever happens. Under every sequence of requests and calls, however they
  interleave, succeed or fail, the count of fetches is the number of requests that hold a slot, for the
  platform and for each owner, and never more than the platform and an owner may have at once; so a
  slot is given back once and is never lost.
\<close>

theorem fetches_within_limits:
  assumes "artifact_run sha unwrap es (artifacts_start db) = s"
  shows "rf_inFlight (sh_slots (as_shared s)) = int (length (filter tk_holdsSlot (as_tasks s))) \<and>
    rf_inFlight (sh_slots (as_shared s)) \<le> MAX_CONCURRENT_FETCHES \<and>
    (\<forall>own. int (length (filter (\<lambda>t. tk_holdsSlot t \<and> tk_ownerId t = own) (as_tasks s))) =
        (case js_get (rf_byOwner (sh_slots (as_shared s))) own of None \<Rightarrow> 0 | Some n \<Rightarrow> n) \<and>
      int (length (filter (\<lambda>t. tk_holdsSlot t \<and> tk_ownerId t = own) (as_tasks s))) \<le> MAX_CONCURRENT_FETCHES_PER_OWNER)"
proof -
  have "slots_count (sh_slots (as_shared (fold (artifact_step sha unwrap) es u))) (as_tasks (fold (artifact_step sha unwrap) es u))"
    if "slots_count (sh_slots (as_shared u)) (as_tasks u)" for u
    using that by (induction es arbitrary: u) (simp_all add: artifact_step_slots)
  moreover have "slots_count (sh_slots (as_shared (artifacts_start db))) (as_tasks (artifacts_start db))"
    by (simp add: artifacts_start_def slots_count_def holding_def held_by_def no_fetches_def MAX_CONCURRENT_FETCHES_def
        MAX_CONCURRENT_FETCHES_PER_OWNER_def)
  ultimately have "slots_count (sh_slots (as_shared s)) (as_tasks s)" using assms unfolding artifact_run_def by blast
  then show ?thesis by (auto simp: slots_count_def holding_def held_by_def)
qed

definition a_fetch :: fetch_request where
  "a_fetch = \<lparr>fr_source = None, fr_declaredSizeBytes = None, fr_filename = ''bin'', fr_expected = None,
     fr_carriesCredentials = False\<rparr>"

definition fetching :: artifact_state where
  "fetching = artifact_run (\<lambda>_. ''d'') no_archives (Fetches ''app'' ''me'' False False a_fetch # next_calls 2) (artifacts_start two_apps)"

theorem fetches_within_limits_witness: "rf_inFlight (sh_slots (as_shared fetching)) = 1"
proof -
  have "length (filter tk_holdsSlot (as_tasks fetching)) = 1"
    by code_simp
  then show ?thesis
    using fetches_within_limits [of "\<lambda>_. ''d''" no_archives "Fetches ''app'' ''me'' False False a_fetch # next_calls 2" two_apps fetching]
    by (simp add: fetching_def)
qed

end
