(* ===== verification/Host_Files.thy ===== *)
theory Host_Files
  imports Bytes "HOL-Library.Sublist"
begin

text \<open>
  The files of the host, as the calls of \<open>@effect/platform\<close>'s \<open>FileSystem\<close> find and leave them.

  A file system is what every resolved path holds. A path is walked a name at a time and every symbolic link
  on it is followed, the last one only where the call follows it; \<open>mkdir\<close>, \<open>open\<close>, \<open>chmod\<close> and \<open>chown\<close> do
  as POSIX and \<open>node:fs\<close> document them. The agent runs as root, so no permission refuses it; whatever else
  refuses a call (a full disk, a name that is too long, a NUL in it) is the answer \<open>refuses\<close> of the host, and
  a call that fails leaves the files as they were.
\<close>

type_synonym name = "byte list"
type_synonym path = "name list"

record Owner =
  uid :: nat
  gid :: nat

definition ROOT_USER :: Owner where "ROOT_USER = \<lparr>uid = 0, gid = 0\<rparr>"

datatype node =
    RegularFile nat Owner "byte list"
  | Directory nat Owner
  | SymbolicLink "byte list"

type_synonym files = "path \<rightharpoonup> node"

datatype errno = ENOENT | EEXIST | ENOTDIR | EISDIR | ELOOP | EOTHER

datatype call =
    Mkdir path nat | Create path | Chmod path nat | Chown path Owner | Symlink "byte list" path
  | Remove path | ReadFile path

record Host =
  umask :: nat
  refuses :: "files \<Rightarrow> call \<Rightarrow> bool"

definition SLASH :: byte where "SLASH = 0x2F"
definition DOT :: name where "DOT = [0x2E]"
definition DOTDOT :: name where "DOTDOT = [0x2E, 0x2E]"

definition and_not :: "nat \<Rightarrow> nat \<Rightarrow> nat" where "and_not mode bits = mode XOR (mode AND bits)"

section \<open>Effects on files\<close>

text \<open>A computation leaves files behind whether it fails or not.\<close>

type_synonym ('e, 'a) io = "files \<Rightarrow> files \<times> ('e, 'a) result"

definition return_io :: "'a \<Rightarrow> ('e, 'a) io" where "return_io a fs = (fs, Inr a)"
definition fail_io :: "'e \<Rightarrow> ('e, 'a) io" where "fail_io e fs = (fs, Inl e)"

definition bind_io :: "('e, 'a) io \<Rightarrow> ('a \<Rightarrow> ('e, 'b) io) \<Rightarrow> ('e, 'b) io" where
  "bind_io m k fs = (case m fs of (fs', Inl e) \<Rightarrow> (fs', Inl e) | (fs', Inr a) \<Rightarrow> k a fs')"

definition map_error :: "('e \<Rightarrow> 'f) \<Rightarrow> ('e, 'a) io \<Rightarrow> ('f, 'a) io" where
  "map_error f m fs = apsnd (map_sum f id) (m fs)"

text \<open>\<open>Effect.ignore\<close> and \<open>Effect.ensuring\<close>: a failure is dropped; the finalizer runs whatever happened.\<close>

definition ignore_io :: "('e, 'a) io \<Rightarrow> ('f, unit) io" where
  "ignore_io m fs = (fst (m fs), Inr ())"

definition ensuring_io :: "('e, 'a) io \<Rightarrow> ('e, unit) io \<Rightarrow> ('e, 'a) io" where
  "ensuring_io m finalizer fs = (case m fs of (fs', r) \<Rightarrow> (fst (finalizer fs'), r))"

section \<open>Paths\<close>

definition MAX_LINKS :: nat where "MAX_LINKS = 40"

function walk :: "files \<Rightarrow> bool \<Rightarrow> nat \<Rightarrow> path \<Rightarrow> name list \<Rightarrow> (errno, path) result" where
  "walk fs follow links dir [] = Inr dir"
| "walk fs follow links dir (n # ns) =
     (if n = [] \<or> n = DOT then walk fs follow links dir ns
      else if n = DOTDOT then walk fs follow links (butlast dir) ns
      else case fs (dir @ [n]) of
        None \<Rightarrow> if ns = [] then Inr (dir @ [n]) else Inl ENOENT
      | Some (RegularFile _ _ _) \<Rightarrow> if ns = [] then Inr (dir @ [n]) else Inl ENOTDIR
      | Some (Directory _ _) \<Rightarrow> walk fs follow links (dir @ [n]) ns
      | Some (SymbolicLink target) \<Rightarrow>
          if ns = [] \<and> \<not> follow then Inr (dir @ [n])
          else if links = 0 then Inl ELOOP
          else if target = [] then Inl ENOENT
          else walk fs follow (links - 1) (if hd target = SLASH then [] else dir) (js_split SLASH target @ ns))"
  by pat_completeness auto
termination
  by (relation "measures [\<lambda>(fs, follow, links, dir, ns). links, \<lambda>(fs, follow, links, dir, ns). length ns]") auto

declare walk.simps(2) [simp del]

definition resolve :: "bool \<Rightarrow> path \<Rightarrow> files \<Rightarrow> (errno, path) result" where
  "resolve follow p fs = walk fs follow MAX_LINKS [] p"

section \<open>Calls\<close>

definition sys_mkdir :: "Host \<Rightarrow> path \<Rightarrow> nat \<Rightarrow> (errno, unit) io" where
  "sys_mkdir H p mode fs =
     (case resolve False p fs of
        Inl e \<Rightarrow> (fs, Inl e)
      | Inr q \<Rightarrow>
          if fs q \<noteq> None then (fs, Inl EEXIST)
          else if refuses H fs (Mkdir p mode) then (fs, Inl EOTHER)
          else (fs(q \<mapsto> Directory (and_not mode (umask H)) ROOT_USER), Inr ()))"

definition is_directory :: "files \<Rightarrow> path \<Rightarrow> bool" where
  "is_directory fs q = (case fs q of Some (Directory _ _) \<Rightarrow> True | _ \<Rightarrow> False)"

definition stat_directory :: "path \<Rightarrow> files \<Rightarrow> bool" where
  "stat_directory p fs = (case resolve True p fs of Inr q \<Rightarrow> is_directory fs q | Inl _ \<Rightarrow> False)"

text \<open>\<open>makeDirectory\<close> with \<open>recursive\<close>: every missing directory of the path is made with the same mode, one
  that is there is left as it is.\<close>

primrec mkdirs :: "Host \<Rightarrow> nat \<Rightarrow> path \<Rightarrow> name list \<Rightarrow> (errno, unit) io" where
  "mkdirs H mode dir [] = return_io ()"
| "mkdirs H mode dir (n # ns) =
     bind_io (\<lambda>fs. if stat_directory (dir @ [n]) fs then (fs, Inr ()) else sys_mkdir H (dir @ [n]) mode fs)
       (\<lambda>_. mkdirs H mode (dir @ [n]) ns)"

definition makeDirectory :: "Host \<Rightarrow> path \<Rightarrow> nat \<Rightarrow> (errno, unit) io" where
  "makeDirectory H p mode = mkdirs H mode [] p"

fun with_owner :: "Owner \<Rightarrow> node \<Rightarrow> node" where
  "with_owner who (RegularFile mode _ bytes) = RegularFile mode who bytes"
| "with_owner who (Directory mode _) = Directory mode who"
| "with_owner who (SymbolicLink target) = SymbolicLink target"

fun with_mode :: "nat \<Rightarrow> node \<Rightarrow> node" where
  "with_mode mode (RegularFile _ who bytes) = RegularFile mode who bytes"
| "with_mode mode (Directory _ who) = Directory mode who"
| "with_mode mode (SymbolicLink target) = SymbolicLink target"

definition change_node :: "(node \<Rightarrow> node) \<Rightarrow> (files \<Rightarrow> bool) \<Rightarrow> path \<Rightarrow> (errno, unit) io" where
  "change_node f refused p fs =
     (case resolve True p fs of
        Inl e \<Rightarrow> (fs, Inl e)
      | Inr q \<Rightarrow>
          (case fs q of
             None \<Rightarrow> (fs, Inl ENOENT)
           | Some n \<Rightarrow> if refused fs then (fs, Inl EOTHER) else (fs(q \<mapsto> f n), Inr ())))"

definition fs_chown :: "Host \<Rightarrow> path \<Rightarrow> Owner \<Rightarrow> (errno, unit) io" where
  "fs_chown H p who = change_node (with_owner who) (\<lambda>fs. refuses H fs (Chown p who)) p"

definition fs_chmod :: "Host \<Rightarrow> path \<Rightarrow> nat \<Rightarrow> (errno, unit) io" where
  "fs_chmod H p mode = change_node (with_mode mode) (\<lambda>fs. refuses H fs (Chmod p mode)) p"

text \<open>\<open>fs.sink\<close> opens with \<open>'w'\<close>: a file that is there is emptied, one that is not is made, and a symbolic
  link is followed to either.\<close>

definition CREATED_MODE :: nat where "CREATED_MODE = 0x1B6"

definition fs_write :: "Host \<Rightarrow> path \<Rightarrow> byte list \<Rightarrow> (errno, unit) io" where
  "fs_write H p bytes fs =
     (case resolve True p fs of
        Inl e \<Rightarrow> (fs, Inl e)
      | Inr q \<Rightarrow>
          (if refuses H fs (Create p) then (fs, Inl EOTHER)
           else case fs q of
             None \<Rightarrow> (fs(q \<mapsto> RegularFile (and_not CREATED_MODE (umask H)) ROOT_USER bytes), Inr ())
           | Some (RegularFile mode who _) \<Rightarrow> (fs(q \<mapsto> RegularFile mode who bytes), Inr ())
           | Some (Directory _ _) \<Rightarrow> (fs, Inl EISDIR)
           | Some (SymbolicLink _) \<Rightarrow> (fs, Inl ELOOP)))"

definition fs_symlink :: "Host \<Rightarrow> byte list \<Rightarrow> path \<Rightarrow> (errno, unit) io" where
  "fs_symlink H target p fs =
     (case resolve False p fs of
        Inl e \<Rightarrow> (fs, Inl e)
      | Inr q \<Rightarrow>
          if fs q \<noteq> None then (fs, Inl EEXIST)
          else if target = [] then (fs, Inl ENOENT)
          else if refuses H fs (Symlink target p) then (fs, Inl EOTHER)
          else (fs(q \<mapsto> SymbolicLink target), Inr ()))"

text \<open>\<open>remove\<close> with \<open>recursive\<close> and \<open>force\<close>: the path and everything under it; a link is removed, not followed,
  and a path that is not there is no failure.\<close>

definition fs_remove :: "Host \<Rightarrow> path \<Rightarrow> (errno, unit) io" where
  "fs_remove H p fs =
     (case resolve False p fs of
        Inl ENOENT \<Rightarrow> (fs, Inr ())
      | Inl e \<Rightarrow> (fs, Inl e)
      | Inr q \<Rightarrow>
          if fs q = None then (fs, Inr ())
          else if refuses H fs (Remove p) then (fs, Inl EOTHER)
          else (\<lambda>r. if prefix q r then None else fs r, Inr ()))"

definition fs_readFile :: "Host \<Rightarrow> path \<Rightarrow> files \<Rightarrow> byte list option" where
  "fs_readFile H p fs =
     (case resolve True p fs of
        Inl _ \<Rightarrow> None
      | Inr q \<Rightarrow>
          (case fs q of
             Some (RegularFile _ _ bytes) \<Rightarrow> if refuses H fs (ReadFile p) then None else Some bytes
           | _ \<Rightarrow> None))"


section \<open>Paths without links\<close>

definition plain :: "name \<Rightarrow> bool" where "plain n \<longleftrightarrow> n \<noteq> [] \<and> n \<noteq> DOT \<and> n \<noteq> DOTDOT"

definition is_link :: "files \<Rightarrow> path \<Rightarrow> bool" where
  "is_link fs p \<longleftrightarrow> (\<exists>target. fs p = Some (SymbolicLink target))"

text \<open>Every directory above a path is there, and is one.\<close>

definition below_directories :: "files \<Rightarrow> path \<Rightarrow> bool" where
  "below_directories fs p \<longleftrightarrow> (\<forall>q. strict_prefix q p \<longrightarrow> is_directory fs q)"

lemma is_directory_iff: "is_directory fs q \<longleftrightarrow> (\<exists>mode who. fs q = Some (Directory mode who))"
  by (auto simp: is_directory_def split: option.splits node.splits)

lemma directory_not_link: "is_directory fs p \<Longrightarrow> \<not> is_link fs p"
  by (auto simp: is_directory_iff is_link_def)

lemma walk_literal:
  assumes "list_all plain ns" and "\<forall>q. q \<noteq> [] \<longrightarrow> strict_prefix q ns \<longrightarrow> is_directory fs (dir @ q)"
    and "follow \<longrightarrow> \<not> is_link fs (dir @ ns)"
  shows "walk fs follow links dir ns = Inr (dir @ ns)"
  using assms
proof (induction ns arbitrary: dir)
  case (Cons n ns)
  have n: "n \<noteq> []" "n \<noteq> DOT" "n \<noteq> DOTDOT" using Cons.prems(1) by (simp_all add: plain_def)
  show ?case
  proof (cases "ns = []")
    case True
    then show ?thesis
      using n Cons.prems(3) by (auto simp: walk.simps(2) is_link_def split: option.splits node.splits)
  next
    case False
    then have "is_directory fs (dir @ [n])" using Cons.prems(2) by (auto simp: strict_prefix_def)
    moreover have "walk fs follow links (dir @ [n]) ns = Inr ((dir @ [n]) @ ns)"
    proof (rule Cons.IH)
      show "\<forall>q. q \<noteq> [] \<longrightarrow> strict_prefix q ns \<longrightarrow> is_directory fs ((dir @ [n]) @ q)"
        using Cons.prems(2) [rule_format, of "n # _"] by simp
    qed (use Cons.prems in auto)
    ultimately show ?thesis using n by (auto simp: walk.simps(2) is_directory_iff)
  qed
qed simp

lemma resolve_literal:
  assumes "list_all plain p" "below_directories fs p" "follow \<longrightarrow> \<not> is_link fs p"
  shows "resolve follow p fs = Inr p"
  unfolding resolve_def using walk_literal [of p fs "[]" follow MAX_LINKS] assms by (simp add: below_directories_def)

lemma below_directories_snoc: "below_directories fs (p @ [n]) \<longleftrightarrow> (\<forall>q. prefix q p \<longrightarrow> is_directory fs q)"
  unfolding below_directories_def strict_prefix_def prefix_snoc by (metis append_self_conv not_Cons_self2 prefix_order.dual_order.refl prefix_snoc same_prefix_nil)

lemma below_directories_mono:
  "below_directories fs p \<Longrightarrow> (\<And>q. is_directory fs q \<Longrightarrow> is_directory fs' q) \<Longrightarrow> below_directories fs' p"
  by (auto simp: below_directories_def)

text \<open>What making the directories of a path changes: missing ones are there, and nothing else.\<close>

definition made :: "nat \<Rightarrow> path \<Rightarrow> path \<Rightarrow> files \<Rightarrow> files \<Rightarrow> bool" where
  "made mode dir p fs fs' \<longleftrightarrow>
     (\<forall>q. fs' q = fs q \<or> (fs q = None \<and> strict_prefix dir q \<and> prefix q p \<and> fs' q = Some (Directory mode ROOT_USER)))"

lemma made_refl [simp]: "made mode dir p fs fs"
  by (simp add: made_def)

lemma madeD:
  "made mode dir p fs fs' \<Longrightarrow>
    fs' q = fs q \<or> (fs q = None \<and> strict_prefix dir q \<and> prefix q p \<and> fs' q = Some (Directory mode ROOT_USER))"
  by (simp add: made_def)

lemma made_directory: "made mode dir p fs fs' \<Longrightarrow> is_directory fs q \<Longrightarrow> is_directory fs' q"
  by (drule madeD [where q = q]) (auto simp: is_directory_iff)

lemma made_link: "made mode dir p fs fs' \<Longrightarrow> is_link fs' q \<longleftrightarrow> is_link fs q"
  by (drule madeD [where q = q], elim disjE conjE) (simp_all add: is_link_def)

lemma made_above: "made mode (dir @ [n]) p fs fs' \<Longrightarrow> made mode dir p fs fs'"
  unfolding made_def by (auto simp: strict_prefix_def dest: append_prefixD)

lemma mkdirs_literal:
  assumes "list_all plain (dir @ ns)" and "\<forall>q. prefix q dir \<longrightarrow> is_directory fs q"
    and "\<forall>q. prefix q (dir @ ns) \<longrightarrow> \<not> is_link fs q" and "mkdirs H mode dir ns fs = (fs', r)"
  shows "made (and_not mode (umask H)) dir (dir @ ns) fs fs' \<and>
    (if r = Inr () then \<forall>q. prefix q (dir @ ns) \<longrightarrow> is_directory fs' q else fs' (dir @ ns) = fs (dir @ ns))"
  using assms
proof (induction ns arbitrary: dir fs)
  case Nil
  then show ?case by (auto simp: return_io_def)
next
  case (Cons n ns)
  let ?p = "dir @ [n]" and ?m = "and_not mode (umask H)"
  have p: "list_all plain ?p" "below_directories fs ?p" using Cons.prems(1,2) by (auto simp: below_directories_snoc)
  have nl: "\<not> is_link fs ?p" using Cons.prems(3) by auto
  have res: "resolve follow ?p fs = Inr ?p" for follow by (rule resolve_literal [OF p]) (simp add: nl)
  let ?step = "if stat_directory ?p fs then (fs, Inr ()) else sys_mkdir H ?p mode fs"
  consider (there) "?step = (fs, Inr ())" "is_directory fs ?p" | (failed) e where "?step = (fs, Inl e)"
    | (new) "?step = (fs(?p \<mapsto> Directory ?m ROOT_USER), Inr ())" "fs ?p = None"
    by (cases "is_directory fs ?p"; cases "fs ?p"; cases "refuses H fs (Mkdir ?p mode)")
      (simp_all add: stat_directory_def sys_mkdir_def res)
  then show ?case
  proof cases
    case there
    then have "mkdirs H mode ?p ns fs = (fs', r)" using Cons.prems(4) by (simp add: bind_io_def)
    moreover have "\<forall>q. prefix q ?p \<longrightarrow> is_directory fs q" using Cons.prems(2) there(2) by (auto simp: prefix_snoc)
    ultimately show ?thesis
      using Cons.IH [of ?p fs] Cons.prems(1,3) made_above by auto
  next
    case failed
    then show ?thesis using Cons.prems(4) by (auto simp: bind_io_def)
  next
    case new
    let ?fs = "fs(?p \<mapsto> Directory ?m ROOT_USER)"
    have run: "mkdirs H mode ?p ns ?fs = (fs', r)" using Cons.prems(4) new by (simp add: bind_io_def)
    have names: "list_all plain (?p @ ns)" using Cons.prems(1) by simp
    have dirs: "\<forall>q. prefix q ?p \<longrightarrow> is_directory ?fs q"
      using Cons.prems(2) by (auto simp: prefix_snoc is_directory_iff)
    have links: "\<forall>q. prefix q (?p @ ns) \<longrightarrow> \<not> is_link ?fs q" using Cons.prems(3) by (auto simp: is_link_def)
    have IH: "made ?m ?p (dir @ n # ns) ?fs fs' \<and>
        (if r = Inr () then \<forall>q. prefix q (dir @ n # ns) \<longrightarrow> is_directory fs' q
         else fs' (dir @ n # ns) = ?fs (dir @ n # ns))"
      using Cons.IH [OF names dirs links run] unfolding append_assoc append_Cons append_Nil .
    have "made ?m dir (dir @ n # ns) fs fs'"
      unfolding made_def
    proof
      fix q
      show "fs' q = fs q \<or> fs q = None \<and> strict_prefix dir q \<and> prefix q (dir @ n # ns) \<and> fs' q = Some (Directory ?m ROOT_USER)"
        using madeD [OF made_above [OF conjunct1 [OF IH]], of q] new(2) by (cases "q = ?p") (auto simp: strict_prefix_def)
    qed
    moreover have "ns \<noteq> []" if "r \<noteq> Inr ()" using that run by (auto simp: return_io_def)
    ultimately show ?thesis using IH by (auto split: if_splits)
  qed
qed


text \<open>Calls on a path whose directories are there and which is no link act on that path.\<close>

lemma change_literal:
  assumes "list_all plain p" "below_directories fs p" "\<not> is_link fs p" "change_node f refused p fs = (fs', r)"
  shows "(\<exists>e. r = Inl e \<and> fs' = fs) \<or> (\<exists>n. fs p = Some n \<and> fs' = fs(p \<mapsto> f n) \<and> r = Inr ())"
  using assms resolve_literal [of p fs True] by (auto simp: change_node_def split: option.splits if_splits)

lemma write_literal:
  assumes "list_all plain p" "below_directories fs p" "\<not> is_link fs p" "fs_write H p bytes fs = (fs', r)"
  shows "(\<exists>e. r = Inl e \<and> fs' = fs) \<or>
    (\<exists>mode who. fs' = fs(p \<mapsto> RegularFile mode who bytes) \<and> r = Inr () \<and> \<not> is_directory fs p)"
  using assms resolve_literal [of p fs True]
  by (auto simp: fs_write_def is_directory_iff split: option.splits if_splits node.splits)

lemma symlink_literal:
  assumes "list_all plain p" "below_directories fs p" "fs_symlink H target p fs = (fs', r)"
  shows "(\<exists>e. r = Inl e \<and> fs' = fs) \<or> (fs p = None \<and> fs' = fs(p \<mapsto> SymbolicLink target) \<and> r = Inr ())"
  using assms resolve_literal [of p fs False] by (auto simp: fs_symlink_def split: if_splits)

lemma makeDirectory_literal:
  assumes "list_all plain p" "is_directory fs []" "\<forall>q. prefix q p \<longrightarrow> \<not> is_link fs q" "makeDirectory H p mode fs = (fs', r)"
  shows "made (and_not mode (umask H)) [] p fs fs'" "r = Inr () \<Longrightarrow> prefix q p \<Longrightarrow> is_directory fs' q"
    "r \<noteq> Inr () \<Longrightarrow> fs' p = fs p"
  using mkdirs_literal [of "[]" p fs H mode fs' r] assms by (auto simp: makeDirectory_def split: if_splits)


lemma readFile_literal:
  assumes "list_all plain p" "below_directories fs p" "fs p = Some (RegularFile mode who bytes)"
    and "fs_readFile H p fs = Some archive"
  shows "archive = bytes"
  using assms resolve_literal [of p fs True] by (auto simp: fs_readFile_def is_link_def split: if_splits)

lemma walk_unlinked:
  assumes "list_all plain ns" and "\<forall>q. prefix q ns \<longrightarrow> \<not> is_link fs (dir @ q)" and "walk fs follow links dir ns = Inr q"
  shows "q = dir @ ns"
  using assms
proof (induction ns arbitrary: dir)
  case (Cons n ns)
  have n: "n \<noteq> []" "n \<noteq> DOT" "n \<noteq> DOTDOT" using Cons.prems(1) by (simp_all add: plain_def)
  have "\<not> is_link fs (dir @ [n])" using Cons.prems(2) by (auto simp: prefix_Cons)
  show ?case
  proof (cases "fs (dir @ [n])")
    case (Some node)
    show ?thesis
    proof (cases node)
      case (Directory m w)
      have "\<forall>q. prefix q ns \<longrightarrow> \<not> is_link fs ((dir @ [n]) @ q)"
        using Cons.prems(2) by (auto dest: spec [of _ "n # _"])
      with Cons.IH [of "dir @ [n]"] Cons.prems(1,3) Some Directory n show ?thesis by (simp add: walk.simps(2))
    next
      case (RegularFile m w b)
      then show ?thesis using Cons.prems(3) Some n by (simp add: walk.simps(2) split: if_splits)
    next
      case (SymbolicLink t)
      then show ?thesis using \<open>\<not> is_link fs (dir @ [n])\<close> Some by (simp add: is_link_def)
    qed
  qed (use Cons.prems(3) n in \<open>simp add: walk.simps(2) split: if_splits\<close>)
qed simp

lemma remove_missing:
  assumes "list_all plain p" "\<forall>q. prefix q p \<longrightarrow> \<not> is_link fs q" "fs p = None"
  shows "fst (fs_remove H p fs) = fs"
  using walk_unlinked [OF assms(1), of fs "[]" False MAX_LINKS] assms(2,3)
  by (auto simp: fs_remove_def resolve_def split: sum.splits errno.splits)

lemma remove_literal:
  assumes "list_all plain p" "below_directories fs p"
  shows "fst (fs_remove H p fs) = fs \<or> fst (fs_remove H p fs) = (\<lambda>q. if prefix p q then None else fs q)"
    and "\<not> refuses H fs (Remove p) \<Longrightarrow> fs p \<noteq> None \<Longrightarrow> fst (fs_remove H p fs) = (\<lambda>q. if prefix p q then None else fs q)"
  using resolve_literal [OF assms, of False] by (auto simp: fs_remove_def)

end
