(* ===== verification/Js_Text.thy ===== *)
theory Js_Text
  imports Bytes
begin

text \<open>
  Text as the runtime computes with it where that is not its UTF-8 bytes: the code points of a text and its
  UTF-16 code units, which \<open>sort\<close> compares, and \<open>Number\<close> of a text as far as \<open>Number.isSafeInteger\<close> asks.
\<close>

lemma utf8_continue_code [code]:
  "utf8_continue n lo hi bs =
     (if n = 0 then ([], bs)
      else case bs of [] \<Rightarrow> ([], [])
        | b # bs \<Rightarrow>
            if lo \<le> b \<and> b \<le> hi
            then case utf8_continue (n - 1) 0x80 0xBF bs of (taken, rest) \<Rightarrow> (b # taken, rest)
            else ([], b # bs))"
  by (cases n; cases bs) simp_all

section \<open>Code points and code units\<close>

fun code_point :: "byte list \<Rightarrow> nat" where
  "code_point [a] = unat a"
| "code_point [a, b] = (unat a - 0xC0) * 64 + (unat b - 0x80)"
| "code_point [a, b, c] = (unat a - 0xE0) * 4096 + (unat b - 0x80) * 64 + (unat c - 0x80)"
| "code_point [a, b, c, d] =
     (unat a - 0xF0) * 262144 + (unat b - 0x80) * 4096 + (unat c - 0x80) * 64 + (unat d - 0x80)"
| "code_point _ = 0xFFFD"

definition code_points :: "byte list \<Rightarrow> nat list" where
  "code_points text = map (case_sum (\<lambda>_. 0xFFFD) code_point) (utf8_pieces text)"

definition code_units :: "byte list \<Rightarrow> nat list" where
  "code_units text =
     concat (map (\<lambda>p. if p < 0x10000 then [p]
                      else [0xD800 + (p - 0x10000) div 1024, 0xDC00 + (p - 0x10000) mod 1024]) (code_points text))"

lemma ascii_pieces: "list_all (\<lambda>b. b < 0x80) bs \<Longrightarrow> utf8_pieces bs = map (\<lambda>b. Inr [b]) bs"
  by (induction bs) (auto simp: utf8_pieces_def split: prod.splits)

lemma ascii_code_points: "list_all (\<lambda>b. b < 0x80) bs \<Longrightarrow> code_points bs = map unat bs"
  by (simp add: code_points_def ascii_pieces)

lemma code_units_Nil: "code_units q = [] \<longleftrightarrow> q = []"
proof
  assume "code_units q = []"
  then have "utf8_pieces q = []" by (cases "utf8_pieces q") (simp_all add: code_units_def code_points_def split: if_splits)
  then show "q = []" using utf8_pieces_concat [of q] by simp
qed (simp add: code_units_def code_points_def utf8_pieces_def)

text \<open>A decoded text is encoded again as itself.\<close>

definition encoded :: "byte list \<Rightarrow> bool" where
  "encoded p \<longleftrightarrow> (\<forall>rest. utf8_scan (p @ rest) = apfst (Cons (Inr p)) (utf8_scan rest))"

lemma utf8_continue_again:
  "utf8_continue n lo hi bs = (taken, rest) \<Longrightarrow> length taken = n \<Longrightarrow> utf8_continue n lo hi (taken @ x) = (taken, x)"
  by (induction n lo hi bs arbitrary: taken rest rule: utf8_continue.induct) (auto split: if_splits prod.splits)

lemma encoded_pieces: "Inr p \<in> set (fst (utf8_scan bs)) \<Longrightarrow> encoded p"
proof (induction bs rule: utf8_scan.induct)
  case (2 b bs)
  show ?case
  proof (cases "b < 0x80 \<or> utf8_lead b = None")
    case True
    then show ?thesis using 2 by (auto simp: encoded_def split: if_splits)
  next
    case False
    then obtain n lo hi where lead: "\<not> b < 0x80" "utf8_lead b = Some (n, lo, hi)" by auto
    obtain taken rest where cont: "utf8_continue n lo hi bs = (taken, rest)" by force
    consider (all) "length taken = n" | (cut) "length taken \<noteq> n" "rest = []" | (bad) "length taken \<noteq> n" "rest \<noteq> []"
      by blast
    then show ?thesis
    proof cases
      case all
      then have "encoded (b # taken)" using lead utf8_continue_again [OF cont all] by (simp add: encoded_def)
      then show ?thesis using 2(3) [OF lead refl refl cont [symmetric] all] 2(5) lead cont all by auto
    next
      case bad
      then show ?thesis using 2(4) [OF lead refl refl cont [symmetric] bad] 2(5) lead cont by auto
    qed (use 2(5) lead cont in auto)
  qed
qed simp

lemma encoded_REPLACEMENT: "encoded REPLACEMENT"
proof -
  have lead: "utf8_lead 0xEF = Some (2, 0x80, 0xBF)" by (simp add: utf8_lead_def)
  have "utf8_continue (Suc (Suc 0)) 0x80 0xBF (0xBF # 0xBD # rest) = ([0xBF, 0xBD], rest)" for rest
    by simp
  from this [folded numeral_2_eq_2] show ?thesis by (simp add: encoded_def REPLACEMENT_def lead)
qed

lemma scan_encoded: "list_all encoded ps \<Longrightarrow> utf8_scan (concat ps) = (map Inr ps, [])"
  by (induction ps) (simp_all add: encoded_def)

lemma utf8_valid_text: "utf8_valid (utf8_text bs)"
proof -
  let ?ps = "map (case_sum (\<lambda>_. REPLACEMENT) id) (utf8_pieces bs)"
  obtain qs held where scan: "utf8_scan bs = (qs, held)" by force
  have "Inr p \<in> set (utf8_pieces bs) \<Longrightarrow> encoded p" for p
    using encoded_pieces [of p bs] scan by (auto simp: utf8_pieces_def split: if_splits)
  then have "list_all encoded ?ps"
    using encoded_REPLACEMENT by (auto simp: list_all_iff split: sum.splits)
  from scan_encoded [OF this] show ?thesis
    by (auto simp: utf8_text_def utf8_valid_def utf8_pieces_def list_all_iff)
qed

section \<open>Numbers\<close>

definition js_white :: "nat \<Rightarrow> bool" where
  "js_white c =
     (9 \<le> c \<and> c \<le> 13 \<or> c = 0x20 \<or> c = 0xA0 \<or> c = 0x1680 \<or> 0x2000 \<le> c \<and> c \<le> 0x200A \<or> c = 0x2028 \<or> c = 0x2029 \<or>
      c = 0x202F \<or> c = 0x205F \<or> c = 0x3000 \<or> c = 0xFEFF)"

definition trimmed :: "('a \<Rightarrow> bool) \<Rightarrow> 'a list \<Rightarrow> 'a list" where
  "trimmed space s = rev (dropWhile space (rev (dropWhile space s)))"

definition digit_value :: "nat \<Rightarrow> nat option" where
  "digit_value c =
     (if 48 \<le> c \<and> c \<le> 57 then Some (c - 48)
      else if 97 \<le> c \<and> c \<le> 102 then Some (c - 87)
      else if 65 \<le> c \<and> c \<le> 70 then Some (c - 55) else None)"

definition is_digit :: "nat \<Rightarrow> nat \<Rightarrow> bool" where
  "is_digit radix c = (case digit_value c of None \<Rightarrow> False | Some d \<Rightarrow> d < radix)"

definition radix_value :: "nat \<Rightarrow> nat list \<Rightarrow> nat" where
  "radix_value radix = foldl (\<lambda>v c. v * radix + the (digit_value c)) 0"

text \<open>A fraction is rounded to a \<open>Number\<close> of 53 bits, to the even one of two that are equally near; it is
  scaled up until it has that many bits, as far as the smallest exponent. Of what \<open>Number.isSafeInteger\<close>
  refuses nothing else is asked.\<close>

primrec scale :: "nat \<Rightarrow> nat \<Rightarrow> nat \<Rightarrow> nat" where
  "scale 0 num den = 0"
| "scale (Suc left) num den = (if 2 ^ 52 * den \<le> num then 0 else Suc (scale left (2 * num) den))"

definition round_safe :: "nat \<Rightarrow> nat \<Rightarrow> nat option" where
  "round_safe num den =
     (let e = scale 1074 num den; n = num * 2 ^ e; q = n div den; r = n mod den;
          rounded = (if den < 2 * r \<or> 2 * r = den \<and> odd q then q + 1 else q) in
      if num = 0 then Some 0
      else if 2 ^ e dvd rounded \<and> rounded div 2 ^ e \<le> MAX_SAFE_INTEGER then Some (rounded div 2 ^ e) else None)"

definition exponent_of :: "nat list \<Rightarrow> int option" where
  "exponent_of s =
     (case s of [] \<Rightarrow> Some 0
      | c # rest \<Rightarrow>
          if c \<noteq> 0x65 \<and> c \<noteq> 0x45 then None
          else let (sign, digits) = (case rest of [] \<Rightarrow> (1, [])
                   | d # ds \<Rightarrow> if d = 0x2D then (- 1, ds) else if d = 0x2B then (1, ds) else (1, rest)) in
            if digits \<noteq> [] \<and> list_all (is_digit 10) digits then Some (sign * int (radix_value 10 digits)) else None)"

definition decimal_safe :: "nat list \<Rightarrow> nat option" where
  "decimal_safe s =
     (let whole = takeWhile (is_digit 10) s; r = dropWhile (is_digit 10) s;
          (part, rest) = (case r of [] \<Rightarrow> ([], [])
            | c # cs \<Rightarrow> if c = 0x2E then (takeWhile (is_digit 10) cs, dropWhile (is_digit 10) cs) else ([], r)) in
      if whole @ part = [] then None
      else case exponent_of rest of
        None \<Rightarrow> None
      | Some e \<Rightarrow>
          (let m = radix_value 10 (whole @ part); x = e - int (length part) in
           if 0 \<le> x then round_safe (m * 10 ^ nat x) 1 else round_safe m (10 ^ nat (- x))))"

definition radix_safe :: "nat \<Rightarrow> nat list \<Rightarrow> int option" where
  "radix_safe radix digits =
     (if digits \<noteq> [] \<and> list_all (is_digit radix) digits \<and> radix_value radix digits \<le> MAX_SAFE_INTEGER
      then Some (int (radix_value radix digits)) else None)"

text \<open>\<open>Number(text)\<close> where \<open>Number.isSafeInteger\<close> holds of it, \<open>None\<close> where it does not.\<close>

definition js_safe_integer :: "nat list \<Rightarrow> int option" where
  "js_safe_integer text =
     (case trimmed js_white text of
        [] \<Rightarrow> Some 0
      | c # s \<Rightarrow>
          if c = 48 \<and> s \<noteq> [] \<and> hd s \<in> {0x78, 0x58} then radix_safe 16 (tl s)
          else if c = 48 \<and> s \<noteq> [] \<and> hd s \<in> {0x6F, 0x4F} then radix_safe 8 (tl s)
          else if c = 48 \<and> s \<noteq> [] \<and> hd s \<in> {0x62, 0x42} then radix_safe 2 (tl s)
          else if c = 0x2D then map_option (\<lambda>n. - int n) (decimal_safe s)
          else if c = 0x2B then map_option int (decimal_safe s)
          else map_option int (decimal_safe (c # s)))"

end
