(* ===== verification/Archive_Tar.thy ===== *)
theory Archive_Tar
  imports Js_Text
begin

text \<open>
  A tarball read forwards, once: what the readers agree on (\<open>apps/agent/src/lib/volumes/archive.ts\<close>) and the
  reader of tar (\<open>apps/agent/src/lib/volumes/tar.ts\<close>).

  A stream is the chunks it hands over and how it ends. Text is its UTF-8 bytes. The contents of an entry
  are the pieces its generator yields and the failure it ends with, if it does: whether the consumer reads
  them or leaves them for the walk to pass over, the reader goes on from the same place.
\<close>

section \<open>Entries\<close>

datatype ArchiveEntryKind = KFile | KDirectory | KSymlink | KUnsupported

datatype read_failure = UnreadableArchive string | OtherFailure

record ArchiveEntry =
  e_path :: "byte list"
  e_kind :: ArchiveEntryKind
  e_mode :: nat
  e_sizeBytes :: nat
  e_linkTarget :: "byte list"
  e_content :: "byte list list \<times> read_failure option"

section \<open>Fields of a header\<close>

definition BLOCK_BYTES :: nat where "BLOCK_BYTES = 512"
definition NAME_AT :: nat where "NAME_AT = 0"
definition NAME_BYTES :: nat where "NAME_BYTES = 100"
definition MODE_AT :: nat where "MODE_AT = 100"
definition MODE_BYTES :: nat where "MODE_BYTES = 8"
definition SIZE_AT :: nat where "SIZE_AT = 124"
definition SIZE_BYTES :: nat where "SIZE_BYTES = 12"
definition TYPE_AT :: nat where "TYPE_AT = 156"
definition LINK_AT :: nat where "LINK_AT = 157"
definition LINK_BYTES :: nat where "LINK_BYTES = 100"
definition PREFIX_AT :: nat where "PREFIX_AT = 345"
definition PREFIX_BYTES :: nat where "PREFIX_BYTES = 155"

definition TYPE_FILE :: byte where "TYPE_FILE = 0x30"
definition TYPE_FILE_UNSET :: byte where "TYPE_FILE_UNSET = 0"
definition TYPE_DIRECTORY :: byte where "TYPE_DIRECTORY = 0x35"
definition TYPE_SYMLINK :: byte where "TYPE_SYMLINK = 0x32"
definition TYPE_LONG_NAME :: byte where "TYPE_LONG_NAME = 0x4C"
definition TYPE_LONG_LINK :: byte where "TYPE_LONG_LINK = 0x4B"
definition TYPE_PAX_EXTENDED :: byte where "TYPE_PAX_EXTENDED = 0x78"
definition TYPE_PAX_GLOBAL :: byte where "TYPE_PAX_GLOBAL = 0x67"

definition MAX_LONG_FIELD_BYTES :: nat where "MAX_LONG_FIELD_BYTES = 4096"
definition MAX_PAX_HEADER_BYTES :: nat where "MAX_PAX_HEADER_BYTES = 8192"

definition BASE_256_MARKER :: byte where "BASE_256_MARKER = 0x80"
definition MODE_BITS :: nat where "MODE_BITS = 0x1FF"

record Header =
  h_path :: "byte list"
  h_type :: byte
  h_mode :: nat
  h_sizeBytes :: nat
  h_linkTarget :: "byte list"

record Announced =
  a_path :: "byte list option"
  a_linkTarget :: "byte list option"
  a_sizeBytes :: "nat option"

definition nothing_announced :: Announced where
  "nothing_announced = \<lparr>a_path = None, a_linkTarget = None, a_sizeBytes = None\<rparr>"

definition textIn :: "byte list \<Rightarrow> byte list" where
  "textIn field = utf8_text (takeWhile (\<lambda>b. b \<noteq> 0) field)"

definition textAt :: "byte list \<Rightarrow> nat \<Rightarrow> nat \<Rightarrow> byte list" where
  "textAt block from bytes = textIn (slice_at from bytes block)"

text \<open>The white space \<open>trim\<close> takes off a text that is one byte to a character.\<close>

definition latin1_space :: "byte \<Rightarrow> bool" where
  "latin1_space b = (b = 0x20 \<or> 9 \<le> b \<and> b \<le> 13 \<or> b = 0xA0)"

definition octal_digit :: "byte \<Rightarrow> bool" where "octal_digit b = (0x30 \<le> b \<and> b \<le> 0x37)"

definition octal_value :: "byte list \<Rightarrow> nat" where
  "octal_value = foldl (\<lambda>v b. v * 8 + (unat b - 0x30)) 0"

definition octalAt :: "byte list \<Rightarrow> nat \<Rightarrow> nat \<Rightarrow> (read_failure, nat) result" where
  "octalAt block from bytes =
     (let field = slice_at from bytes block;
          first = (case field of [] \<Rightarrow> 0 | b # _ \<Rightarrow> b);
          digits = trimmed latin1_space (map (\<lambda>b. if b = 0 then 0x20 else b) field) in
      if first AND BASE_256_MARKER \<noteq> 0
      then Inl (UnreadableArchive ''has a header field written in a form nibrun does not read'')
      else if digits = [] then Inr 0
      else if \<not> list_all octal_digit digits then Inl (UnreadableArchive ''has a header field that is not a number'')
      else Inr (octal_value digits))"

definition headerIn :: "byte list \<Rightarrow> (read_failure, Header) result" where
  "headerIn block =
     (let name = textAt block NAME_AT NAME_BYTES; pre = textAt block PREFIX_AT PREFIX_BYTES in
      bind_result (octalAt block MODE_AT MODE_BYTES) (\<lambda>mode.
      bind_result (octalAt block SIZE_AT SIZE_BYTES) (\<lambda>sizeBytes.
        Inr \<lparr>h_path = (if pre \<noteq> [] then pre @ ascii ''/'' @ name else name),
             h_type = (if TYPE_AT < length block then block ! TYPE_AT else 0),
             h_mode = mode, h_sizeBytes = sizeBytes,
             h_linkTarget = textAt block LINK_AT LINK_BYTES\<rparr>)))"

definition kindOf :: "byte \<Rightarrow> ArchiveEntryKind" where
  "kindOf type =
     (if type = TYPE_FILE \<or> type = TYPE_FILE_UNSET then KFile
      else if type = TYPE_DIRECTORY then KDirectory
      else if type = TYPE_SYMLINK then KSymlink else KUnsupported)"

definition paddingAfter :: "nat \<Rightarrow> nat" where
  "paddingAfter sizeBytes = (BLOCK_BYTES - sizeBytes mod BLOCK_BYTES) mod BLOCK_BYTES"

definition isEnd :: "byte list \<Rightarrow> bool" where "isEnd block = list_all (\<lambda>b. b = 0) block"

section \<open>Records of a pax header\<close>

definition index_of :: "byte \<Rightarrow> nat \<Rightarrow> byte list \<Rightarrow> nat option" where
  "index_of b from bs = find (\<lambda>i. bs ! i = b) [from..<length bs]"

lemma index_of_bounds: "index_of b from bs = Some i \<Longrightarrow> from \<le> i \<and> i < length bs \<and> bs ! i = b"
  unfolding index_of_def by (auto simp: find_Some_iff nth_append)

function paxRecords_from ::
  "byte list \<Rightarrow> nat \<Rightarrow> (byte list \<rightharpoonup> byte list) \<Rightarrow> (byte list \<rightharpoonup> byte list)" where
  "paxRecords_from pax from records =
     (if length pax \<le> from then records
      else case index_of 0x20 from pax of
        None \<Rightarrow> records
      | Some space \<Rightarrow>
          (case js_safe_integer (map unat (slice_at from (space - from) pax)) of
             None \<Rightarrow> records
           | Some len \<Rightarrow>
               if len \<le> 0 \<or> length pax < from + nat len then records
               else let body = slice_at (space + 1) (from + nat len - 1 - (space + 1)) pax in
                 paxRecords_from pax (from + nat len)
                   (case index_of 0x3D 0 body of
                      Some equals \<Rightarrow>
                        if 0 < equals
                        then records(utf8_text (take equals body) \<mapsto> utf8_text (drop (equals + 1) body))
                        else records
                    | None \<Rightarrow> records)))"
  by pat_completeness auto
termination
  by (relation "measure (\<lambda>(pax, from, records). length pax - from)") auto

declare paxRecords_from.simps [simp del]

definition paxRecords :: "byte list \<Rightarrow> (byte list \<rightharpoonup> byte list)" where
  "paxRecords pax = paxRecords_from pax 0 Map.empty"

definition PAX_PATH :: "byte list" where "PAX_PATH = ascii ''path''"
definition PAX_LINK_PATH :: "byte list" where "PAX_LINK_PATH = ascii ''linkpath''"
definition PAX_SIZE :: "byte list" where "PAX_SIZE = ascii ''size''"

definition announcedBy :: "(byte list \<rightharpoonup> byte list) \<Rightarrow> Announced" where
  "announcedBy records =
     \<lparr>a_path = records PAX_PATH,
      a_linkTarget = records PAX_LINK_PATH,
      a_sizeBytes =
        (case records PAX_SIZE of
           None \<Rightarrow> None
         | Some text \<Rightarrow>
             (case js_safe_integer (code_points text) of
                None \<Rightarrow> None
              | Some n \<Rightarrow> if 0 \<le> n then Some (nat n) else None))\<rparr>"

text \<open>\<open>{ ...announced, ...announcement }\<close>\<close>

definition or_else :: "'a option \<Rightarrow> 'a option \<Rightarrow> 'a option" where
  "or_else a b = (case a of None \<Rightarrow> b | Some _ \<Rightarrow> a)"

definition merged :: "Announced \<Rightarrow> Announced \<Rightarrow> Announced" where
  "merged announced announcement =
     \<lparr>a_path = or_else (a_path announcement) (a_path announced),
      a_linkTarget = or_else (a_linkTarget announcement) (a_linkTarget announced),
      a_sizeBytes = or_else (a_sizeBytes announcement) (a_sizeBytes announced)\<rparr>"

section \<open>The reader\<close>

record Tar =
  t_held :: "byte list"
  t_chunks :: "byte list list"
  t_ending :: "read_failure option"
  t_ended :: bool
  t_unread :: nat

definition pull :: "Tar \<Rightarrow> (read_failure, bool \<times> Tar) result" where
  "pull t =
     (if t_ended t then Inr (False, t)
      else case t_chunks t of
        [] \<Rightarrow> (case t_ending t of None \<Rightarrow> Inr (False, t\<lparr>t_ended := True\<rparr>) | Some failure \<Rightarrow> Inl failure)
      | chunk # chunks \<Rightarrow> Inr (True, t\<lparr>t_held := t_held t @ chunk, t_chunks := chunks\<rparr>))"

lemma pull_shorter: "pull t = Inr (True, u) \<Longrightarrow> length (t_chunks u) < length (t_chunks t)"
  by (auto simp: pull_def split: if_splits list.splits option.splits)

function take_bytes :: "nat \<Rightarrow> Tar \<Rightarrow> (read_failure, byte list option \<times> Tar) result" where
  "take_bytes count t =
     (if count \<le> length (t_held t)
      then Inr (Some (take count (t_held t)), t\<lparr>t_held := drop count (t_held t)\<rparr>)
      else case pull t of
        Inl failure \<Rightarrow> Inl failure
      | Inr (pulled, u) \<Rightarrow> if pulled then take_bytes count u else Inr (None, u))"
  by pat_completeness auto
termination
  by (relation "measure (\<lambda>(count, t). length (t_chunks t))") (auto dest: pull_shorter)

function fill :: "Tar \<Rightarrow> (read_failure, bool \<times> Tar) result" where
  "fill t =
     (if t_held t \<noteq> [] then Inr (True, t)
      else case pull t of
        Inl failure \<Rightarrow> Inl failure
      | Inr (pulled, u) \<Rightarrow> if pulled then fill u else Inr (False, u))"
  by pat_completeness auto
termination
  by (relation "measure (\<lambda>t. length (t_chunks t))") (auto dest: pull_shorter)

declare take_bytes.simps [simp del] fill.simps [simp del]

definition pieceOfEntry :: "Tar \<Rightarrow> (read_failure, byte list option \<times> Tar) result" where
  "pieceOfEntry t =
     (if t_unread t = 0 then Inr (None, t)
      else case fill t of
        Inl failure \<Rightarrow> Inl failure
      | Inr (False, u) \<Rightarrow> Inl (UnreadableArchive ''ended inside the entry it was describing'')
      | Inr (True, u) \<Rightarrow>
          (let piece = take (min (t_unread u) (length (t_held u))) (t_held u) in
           Inr (Some piece, u\<lparr>t_held := drop (length piece) (t_held u), t_unread := t_unread u - length piece\<rparr>)))"

lemma pull_unread: "pull t = Inr (b, u) \<Longrightarrow> t_unread u = t_unread t"
  by (auto simp: pull_def split: if_splits list.splits option.splits)

lemma fill_unread: "fill t = Inr (b, u) \<Longrightarrow> t_unread u = t_unread t \<and> (b \<longrightarrow> t_held u \<noteq> [])"
proof (induction t rule: fill.induct)
  case (1 t)
  show ?case
  proof (cases "t_held t \<noteq> []")
    case False
    obtain p v where p: "pull t = Inr (p, v)"
      using 1(2) False by (auto simp: fill.simps [of t] split: sum.splits)
    then have v: "t_unread v = t_unread t" by (rule pull_unread)
    show ?thesis
    proof (cases p)
      case True
      then have "fill v = Inr (b, u)" using 1(2) False p by (simp add: fill.simps [of t])
      from 1(1) [OF _ p refl True this] show ?thesis using False v by simp
    next
      case False
      with p v 1(2) \<open>\<not> t_held t \<noteq> []\<close> show ?thesis by (simp add: fill.simps [of t])
    qed
  qed (use 1(2) in \<open>simp add: fill.simps [of t]\<close>)
qed

lemma piece_less: "pieceOfEntry t = Inr (Some piece, u) \<Longrightarrow> t_unread u < t_unread t"
  by (auto simp: pieceOfEntry_def Let_def split: if_splits sum.splits bool.splits prod.splits dest: fill_unread)

text \<open>The pieces of an entry until there are none, which is what \<open>content\<close>, \<open>walkPast\<close> and the two readers of
  an announcement do with them.\<close>

function pieces :: "Tar \<Rightarrow> byte list list \<times> (read_failure, Tar) result" where
  "pieces t =
     (case pieceOfEntry t of
        Inl failure \<Rightarrow> ([], Inl failure)
      | Inr (None, u) \<Rightarrow> ([], Inr u)
      | Inr (Some piece, u) \<Rightarrow> apfst (Cons piece) (pieces u))"
  by pat_completeness auto
termination
  by (relation "measure t_unread") (auto dest: piece_less)

declare pieces.simps [simp del]


definition walkPast :: "nat \<Rightarrow> Tar \<Rightarrow> (read_failure, Tar) result" where
  "walkPast padding t =
     bind_result (snd (pieces t)) (\<lambda>u.
       if padding = 0 then Inr u
       else bind_result (take_bytes padding u) (\<lambda>(taken, v).
         if taken = None then Inl (UnreadableArchive ''ended inside the padding after an entry'') else Inr v))"

definition longFieldIn :: "nat \<Rightarrow> Tar \<Rightarrow> (read_failure, byte list \<times> Tar) result" where
  "longFieldIn sizeBytes t =
     (if MAX_LONG_FIELD_BYTES < sizeBytes
      then Inl (UnreadableArchive ''carries a path longer than any filesystem would take'')
      else let (ps, r) = pieces (t\<lparr>t_unread := sizeBytes\<rparr>) in
        bind_result r (\<lambda>u. bind_result (walkPast (paddingAfter sizeBytes) u) (\<lambda>v. Inr (textIn (concat ps), v))))"

definition paxAnnouncementIn :: "nat \<Rightarrow> Tar \<Rightarrow> (read_failure, Announced \<times> Tar) result" where
  "paxAnnouncementIn sizeBytes t =
     (let t = t\<lparr>t_unread := sizeBytes\<rparr> in
      if MAX_PAX_HEADER_BYTES < sizeBytes
      then bind_result (walkPast (paddingAfter sizeBytes) t) (\<lambda>v. Inr (nothing_announced, v))
      else let (ps, r) = pieces t in
        bind_result r (\<lambda>u. bind_result (walkPast (paddingAfter sizeBytes) u)
          (\<lambda>v. Inr (announcedBy (paxRecords (concat ps)), v))))"

definition announcementIn :: "Header \<Rightarrow> Tar \<Rightarrow> (read_failure, Announced option \<times> Tar) result" where
  "announcementIn header t =
     (if h_type header = TYPE_LONG_NAME
      then bind_result (longFieldIn (h_sizeBytes header) t)
        (\<lambda>(text, u). Inr (Some (nothing_announced\<lparr>a_path := Some text\<rparr>), u))
      else if h_type header = TYPE_LONG_LINK
      then bind_result (longFieldIn (h_sizeBytes header) t)
        (\<lambda>(text, u). Inr (Some (nothing_announced\<lparr>a_linkTarget := Some text\<rparr>), u))
      else if h_type header = TYPE_PAX_EXTENDED
      then bind_result (paxAnnouncementIn (h_sizeBytes header) t) (\<lambda>(a, u). Inr (Some a, u))
      else if h_type header = TYPE_PAX_GLOBAL
      then bind_result (walkPast (paddingAfter (h_sizeBytes header)) (t\<lparr>t_unread := h_sizeBytes header\<rparr>))
        (\<lambda>u. Inr (Some nothing_announced, u))
      else Inr (None, t))"

definition entryFrom :: "Header \<Rightarrow> Announced \<Rightarrow> nat \<Rightarrow> byte list list \<times> read_failure option \<Rightarrow> ArchiveEntry" where
  "entryFrom header announced sizeBytes content =
     \<lparr>e_path = (case a_path announced of Some p \<Rightarrow> p | None \<Rightarrow> h_path header),
      e_kind = kindOf (h_type header),
      e_mode = h_mode header AND MODE_BITS,
      e_sizeBytes = sizeBytes,
      e_linkTarget = (case a_linkTarget announced of Some l \<Rightarrow> l | None \<Rightarrow> h_linkTarget header),
      e_content = content\<rparr>"

definition failure_of :: "('e, 'a) result \<Rightarrow> 'e option" where
  "failure_of r = (case r of Inl e \<Rightarrow> Some e | Inr _ \<Rightarrow> None)"

section \<open>What is left of a stream\<close>

text \<open>Every operation of the reader is a function of the bytes that are left, however they are cut.\<close>

definition t_rest :: "Tar \<Rightarrow> byte list" where "t_rest t = t_held t @ concat (t_chunks t)"

definition tar_ok :: "Tar \<Rightarrow> bool" where "tar_ok t = (t_ended t \<longrightarrow> t_chunks t = [] \<and> t_ending t = None)"

definition same_but :: "nat \<Rightarrow> Tar \<Rightarrow> Tar \<Rightarrow> bool" where
  "same_but n t u \<longleftrightarrow> tar_ok u \<and> t_ending u = t_ending t \<and> n \<le> length (t_rest t) \<and> t_rest u = drop n (t_rest t)"

lemma same_butD:
  assumes "same_but n t u"
  shows "tar_ok u" "t_ending u = t_ending t" "n \<le> length (t_rest t)" "t_rest u = drop n (t_rest t)"
  using assms by (simp_all add: same_but_def)

lemma same_but_trans: "same_but n t u \<Longrightarrow> same_but m u v \<Longrightarrow> same_but (n + m) t v"
  by (auto simp: same_but_def add.commute)

lemma pull_cases:
  assumes "tar_ok t"
  obtains (pulled) u where "pull t = Inr (True, u)" "same_but 0 t u" "t_unread u = t_unread t"
      "length (t_chunks u) < length (t_chunks t)" "length (t_held t) \<le> length (t_held u)"
  | (none) u where "pull t = Inr (False, u)" "same_but 0 t u" "t_unread u = t_unread t" "t_ending t = None"
      "t_rest t = t_held t" "t_held u = t_held t"
  | (failed) failure where "pull t = Inl failure" "t_ending t = Some failure" "t_rest t = t_held t"
proof (cases "t_ended t \<or> t_chunks t = []")
  case True
  then show ?thesis
    using assms none [of "t\<lparr>t_ended := True\<rparr>"] failed
    by (cases "t_ended t"; cases "t_ending t") (auto simp: pull_def tar_ok_def same_but_def t_rest_def)
next
  case False
  then obtain c cs where "t_chunks t = c # cs" by (cases "t_chunks t") auto
  then show ?thesis
    using False assms pulled [of "t\<lparr>t_held := t_held t @ c, t_chunks := cs\<rparr>"]
    by (auto simp: pull_def tar_ok_def same_but_def t_rest_def)
qed

lemma take_bytes_rest:
  "tar_ok t \<Longrightarrow>
    (if count \<le> length (t_rest t)
     then \<exists>u. take_bytes count t = Inr (Some (take count (t_rest t)), u) \<and> same_but count t u \<and> t_unread u = t_unread t
     else case t_ending t of
       Some failure \<Rightarrow> take_bytes count t = Inl failure
     | None \<Rightarrow> \<exists>u. take_bytes count t = Inr (None, u))"
proof (induction count t rule: take_bytes.induct)
  case (1 count t)
  show ?case
  proof (cases "count \<le> length (t_held t)")
    case True
    then show ?thesis using 1(2)
      by (auto simp: take_bytes.simps [of count t] t_rest_def same_but_def tar_ok_def)
  next
    case False
    show ?thesis
      using 1(2)
    proof (cases rule: pull_cases)
      case (pulled u)
      note s = same_butD [OF pulled(2)]
      have "take_bytes count t = take_bytes count u"
        using False pulled by (simp add: take_bytes.simps [of count t])
      then show ?thesis using 1(1) [OF False pulled(1) refl] s pulled(3)
        by (auto simp: same_but_def split: if_splits option.splits)
    qed (use False in \<open>auto simp: take_bytes.simps [of count t]\<close>)
  qed
qed


lemma fill_rest:
  "tar_ok t \<Longrightarrow>
    (if t_rest t \<noteq> []
     then \<exists>u. fill t = Inr (True, u) \<and> same_but 0 t u \<and> t_unread u = t_unread t \<and> t_held u \<noteq> []
     else case t_ending t of
       Some failure \<Rightarrow> fill t = Inl failure
     | None \<Rightarrow> \<exists>u. fill t = Inr (False, u))"
proof (induction t rule: fill.induct)
  case (1 t)
  show ?case
  proof (cases "t_held t \<noteq> []")
    case True
    then show ?thesis using 1(2) by (auto simp: fill.simps [of t] same_but_def t_rest_def)
  next
    case False
    show ?thesis
      using 1(2)
    proof (cases rule: pull_cases)
      case (pulled u)
      note s = same_butD [OF pulled(2)]
      have "fill t = fill u" using False pulled by (simp add: fill.simps [of t])
      then show ?thesis using 1(1) [OF False pulled(1) refl] s pulled(3)
        by (auto simp: same_but_def split: if_splits option.splits)
    qed (use False in \<open>auto simp: fill.simps [of t]\<close>)
  qed
qed

text \<open>What the pieces of an entry come to: its bytes where they are all there, and otherwise what is there
  and the failure.\<close>

definition short_failure :: "read_failure option \<Rightarrow> read_failure" where
  "short_failure ending =
     (case ending of Some failure \<Rightarrow> failure | None \<Rightarrow> UnreadableArchive ''ended inside the entry it was describing'')"

lemma piece_cases:
  assumes "tar_ok t"
  obtains (none) "t_unread t = 0" "pieceOfEntry t = Inr (None, t)"
  | (short) "t_unread t \<noteq> 0" "t_rest t = []" "pieceOfEntry t = Inl (short_failure (t_ending t))"
  | (piece) p u where "pieceOfEntry t = Inr (Some p, u)" "same_but (length p) t u" "p = take (length p) (t_rest t)"
      "length p \<le> t_unread t" "t_unread u = t_unread t - length p"
proof (cases "t_unread t = 0 \<or> t_rest t = []")
  case True
  show ?thesis
  proof (cases "t_unread t = 0")
    case False
    then have "pieceOfEntry t = Inl (short_failure (t_ending t))"
      using True fill_rest [OF assms] by (auto simp: pieceOfEntry_def short_failure_def split: option.splits)
    with False True show ?thesis by (intro short) simp_all
  qed (simp add: none pieceOfEntry_def)
next
  case False
  then obtain u where u: "fill t = Inr (True, u)" "same_but 0 t u" "t_unread u = t_unread t" "t_held u \<noteq> []"
    using fill_rest [OF assms] by auto
  let ?p = "take (min (t_unread u) (length (t_held u))) (t_held u)"
  have "t_rest t = t_held u @ concat (t_chunks u)" using u(2) by (simp add: same_but_def t_rest_def)
  then show ?thesis
    using False u piece [of ?p "u\<lparr>t_held := drop (length ?p) (t_held u), t_unread := t_unread u - length ?p\<rparr>"]
    by (auto simp: pieceOfEntry_def Let_def same_but_def t_rest_def tar_ok_def)
qed

lemma pieces_rest:
  "tar_ok t \<Longrightarrow>
    concat (fst (pieces t)) = take (t_unread t) (t_rest t) \<and>
    (if t_unread t \<le> length (t_rest t)
     then \<exists>u. snd (pieces t) = Inr u \<and> same_but (t_unread t) t u \<and> t_unread u = 0
     else snd (pieces t) = Inl (short_failure (t_ending t)))"
proof (induction t rule: pieces.induct)
  case (1 t)
  from \<open>tar_ok t\<close> show ?case
  proof (cases rule: piece_cases)
    case none
    then show ?thesis using 1(2) by (auto simp: pieces.simps [of t] same_but_def)
  next
    case short
    then show ?thesis by (simp add: pieces.simps [of t])
  next
    case (piece p u)
    note s = same_butD [OF piece(2)]
    have p: "length p \<le> length (t_rest t)" using s(3) .
    have "concat (fst (pieces t)) = p @ concat (fst (pieces u))" and r: "snd (pieces t) = snd (pieces u)"
      using piece(1) by (simp_all add: pieces.simps [of t] split: prod.splits)
    moreover have "p @ take (t_unread t - length p) (drop (length p) (t_rest t)) = take (t_unread t) (t_rest t)"
      using piece(3,4) by (metis append_take_drop_id le_add_diff_inverse take_add)
    ultimately show ?thesis
      using 1(1) [OF piece(1) refl refl s(1)] s piece p same_but_trans [OF piece(2)]
      by (auto split: if_splits) (metis le_add_diff_inverse)
  qed
qed


text \<open>The bytes of an entry and the padding behind it, as the whole of what is left has them.\<close>

definition padding_failure :: "read_failure option \<Rightarrow> read_failure" where
  "padding_failure ending =
     (case ending of Some failure \<Rightarrow> failure | None \<Rightarrow> UnreadableArchive ''ended inside the padding after an entry'')"

definition entry_data ::
  "nat \<Rightarrow> nat \<Rightarrow> read_failure option \<Rightarrow> byte list \<Rightarrow> (read_failure, byte list \<times> byte list) result" where
  "entry_data sizeBytes padding ending bs =
     (if length bs < sizeBytes then Inl (short_failure ending)
      else if length bs < sizeBytes + padding then Inl (padding_failure ending)
      else Inr (take sizeBytes bs, drop (sizeBytes + padding) bs))"

lemma walkPast_rest:
  assumes "tar_ok t"
  shows "case entry_data (t_unread t) padding (t_ending t) (t_rest t) of
     Inl failure \<Rightarrow> walkPast padding t = Inl failure
   | Inr (_, rest) \<Rightarrow> \<exists>u. walkPast padding t = Inr u \<and> tar_ok u \<and> t_ending u = t_ending t \<and> t_rest u = rest"
proof (cases "t_unread t \<le> length (t_rest t)")
  case True
  then obtain u where u: "snd (pieces t) = Inr u" "same_but (t_unread t) t u" using pieces_rest [OF assms] by auto
  note s = same_butD [OF u(2)]
  show ?thesis
    using True u(1) s take_bytes_rest [OF s(1), of padding]
    by (auto simp: entry_data_def walkPast_def padding_failure_def same_but_def add.commute less_diff_conv
        split: if_splits option.splits)
next
  case False
  then show ?thesis using pieces_rest [OF assms] by (simp add: entry_data_def walkPast_def)
qed

lemma pieces_then_walk:
  assumes "tar_ok t" and "t_unread t \<le> length (t_rest t)"
  obtains u where "snd (pieces t) = Inr u" "concat (fst (pieces t)) = take (t_unread t) (t_rest t)"
    "walkPast padding u = walkPast padding t"
proof -
  obtain u where u: "snd (pieces t) = Inr u" "same_but (t_unread t) t u" "t_unread u = 0"
    using pieces_rest [OF assms(1)] assms(2) by auto
  have "pieces u = ([], Inr u)" using u(3) by (simp add: pieces.simps [of u] pieceOfEntry_def)
  then have "walkPast padding u = walkPast padding t" using u(1) by (simp add: walkPast_def)
  then show ?thesis using that [OF u(1)] pieces_rest [OF assms(1)] by blast
qed

text \<open>An announcement is read from the bytes of its entry.\<close>

definition announcement_of :: "Header \<Rightarrow> byte list \<Rightarrow> Announced" where
  "announcement_of header bytes =
     (if h_type header = TYPE_LONG_NAME then nothing_announced\<lparr>a_path := Some (textIn bytes)\<rparr>
      else if h_type header = TYPE_LONG_LINK then nothing_announced\<lparr>a_linkTarget := Some (textIn bytes)\<rparr>
      else if h_type header = TYPE_PAX_EXTENDED \<and> h_sizeBytes header \<le> MAX_PAX_HEADER_BYTES
      then announcedBy (paxRecords bytes)
      else nothing_announced)"

definition announces :: "Header \<Rightarrow> bool" where
  "announces header = (h_type header \<in> {TYPE_LONG_NAME, TYPE_LONG_LINK, TYPE_PAX_EXTENDED, TYPE_PAX_GLOBAL})"

definition too_long :: "Header \<Rightarrow> bool" where
  "too_long header =
     (h_type header \<in> {TYPE_LONG_NAME, TYPE_LONG_LINK} \<and> MAX_LONG_FIELD_BYTES < h_sizeBytes header)"

definition announced_in ::
  "Header \<Rightarrow> read_failure option \<Rightarrow> byte list \<Rightarrow> (read_failure, Announced \<times> byte list) result" where
  "announced_in header ending bs =
     (if too_long header then Inl (UnreadableArchive ''carries a path longer than any filesystem would take'')
      else bind_result (entry_data (h_sizeBytes header) (paddingAfter (h_sizeBytes header)) ending bs)
        (\<lambda>(bytes, rest). Inr (announcement_of header bytes, rest)))"

lemmas tar_types = TYPE_LONG_NAME_def TYPE_LONG_LINK_def TYPE_PAX_EXTENDED_def TYPE_PAX_GLOBAL_def

definition read_then_walk :: "(byte list \<Rightarrow> 'a) \<Rightarrow> nat \<Rightarrow> Tar \<Rightarrow> (read_failure, 'a \<times> Tar) result" where
  "read_then_walk f padding t =
     (let (ps, r) = pieces t in
      bind_result r (\<lambda>u. bind_result (walkPast padding u) (\<lambda>v. Inr (f (concat ps), v))))"

lemma read_then_walk_rest:
  assumes "tar_ok t"
  shows "case entry_data (t_unread t) padding (t_ending t) (t_rest t) of
     Inl failure \<Rightarrow> read_then_walk f padding t = Inl failure
   | Inr (bytes, rest) \<Rightarrow>
       \<exists>u. read_then_walk f padding t = Inr (f bytes, u) \<and> tar_ok u \<and> t_ending u = t_ending t \<and> t_rest u = rest"
proof (cases "t_unread t \<le> length (t_rest t)")
  case True
  obtain u where "snd (pieces t) = Inr u" "concat (fst (pieces t)) = take (t_unread t) (t_rest t)"
      "walkPast padding u = walkPast padding t"
    by (rule pieces_then_walk [OF assms True])
  then have "read_then_walk f padding t =
      bind_result (walkPast padding t) (\<lambda>v. Inr (f (take (t_unread t) (t_rest t)), v))"
    by (simp add: read_then_walk_def Let_def split_beta)
  then show ?thesis
    using walkPast_rest [OF assms, of padding] by (auto simp: entry_data_def split: if_splits sum.splits)
next
  case False
  then show ?thesis
    using pieces_rest [OF assms] by (simp add: entry_data_def read_then_walk_def Let_def split_beta)
qed

lemma announcementIn_rest:
  assumes "tar_ok t"
  shows "if announces header
    then case announced_in header (t_ending t) (t_rest t) of
        Inl failure \<Rightarrow> announcementIn header t = Inl failure
      | Inr (a, rest) \<Rightarrow>
          \<exists>u. announcementIn header t = Inr (Some a, u) \<and> tar_ok u \<and> t_ending u = t_ending t \<and> t_rest u = rest
    else announcementIn header t = Inr (None, t)"
proof -
  let ?size = "h_sizeBytes header"
  let ?t = "t\<lparr>t_unread := ?size\<rparr>"
  have t: "tar_ok ?t" "t_ending ?t = t_ending t" "t_rest ?t = t_rest t" "t_unread ?t = ?size"
    using assms by (simp_all add: tar_ok_def t_rest_def)
  have long: "\<not> too_long header \<Longrightarrow> longFieldIn ?size t = read_then_walk textIn (paddingAfter ?size) ?t"
    if "h_type header \<in> {TYPE_LONG_NAME, TYPE_LONG_LINK}"
    using that by (auto simp: longFieldIn_def read_then_walk_def too_long_def)
  have pax: "paxAnnouncementIn ?size t =
      (if MAX_PAX_HEADER_BYTES < ?size
       then bind_result (walkPast (paddingAfter ?size) ?t) (\<lambda>v. Inr (nothing_announced, v))
       else read_then_walk (\<lambda>bs. announcedBy (paxRecords bs)) (paddingAfter ?size) ?t)"
    by (simp add: paxAnnouncementIn_def read_then_walk_def Let_def)
  note walk = walkPast_rest [OF t(1), of "paddingAfter ?size", unfolded t]
  note read = read_then_walk_rest [OF t(1), where padding = "paddingAfter ?size", unfolded t]
  consider (long) "h_type header \<in> {TYPE_LONG_NAME, TYPE_LONG_LINK}" | (pax) "h_type header = TYPE_PAX_EXTENDED"
    | (global) "h_type header = TYPE_PAX_GLOBAL" | (entry) "\<not> announces header"
    by (auto simp: announces_def)
  then show ?thesis
  proof cases
    case long
    then show ?thesis
      using read [where f = textIn] \<open>h_type header \<in> _ \<Longrightarrow> \<not> too_long header \<Longrightarrow> _\<close> [OF long]
      by (cases "too_long header")
        (auto simp: announces_def announced_in_def announcementIn_def announcement_of_def tar_types longFieldIn_def
          too_long_def split: sum.splits)
  next
    case pax
    then show ?thesis
      using read [where f = "\<lambda>bs. announcedBy (paxRecords bs)"] walk \<open>paxAnnouncementIn ?size t = _\<close>
      by (auto simp: announces_def announced_in_def announcementIn_def announcement_of_def tar_types too_long_def
          split: sum.splits)
  next
    case global
    then show ?thesis
      using walk
      by (auto simp: announces_def announced_in_def announcementIn_def announcement_of_def tar_types too_long_def
          split: sum.splits)
  qed (auto simp: announces_def announcementIn_def)
qed


section \<open>The walk\<close>

text \<open>No operation puts a byte back, which is why the walk ends.\<close>

lemma pull_keeps: "pull t = Inr (b, u) \<Longrightarrow> t_rest u = t_rest t"
  by (auto simp: pull_def t_rest_def split: if_splits list.splits option.splits)

lemma take_bytes_keeps:
  "take_bytes count t = Inr (taken, u) \<Longrightarrow>
    length (t_rest u) \<le> length (t_rest t) \<and> (taken \<noteq> None \<longrightarrow> length (t_rest u) + count = length (t_rest t))"
proof (induction count t rule: take_bytes.induct)
  case (1 count t)
  show ?case
  proof (cases "count \<le> length (t_held t)")
    case True
    then show ?thesis using 1(2) by (auto simp: take_bytes.simps [of count t] t_rest_def)
  next
    case False
    obtain p v where p: "pull t = Inr (p, v)" using 1(2) False by (auto simp: take_bytes.simps [of count t] split: sum.splits)
    show ?thesis
      using 1(1) [OF False p refl] 1(2) False p pull_keeps [OF p]
      by (auto simp: take_bytes.simps [of count t] split: if_splits)
  qed
qed

lemma fill_keeps: "fill t = Inr (b, u) \<Longrightarrow> t_rest u = t_rest t"
proof (induction t rule: fill.induct)
  case (1 t)
  show ?case
  proof (cases "t_held t \<noteq> []")
    case False
    obtain p v where p: "pull t = Inr (p, v)" using 1(2) False by (auto simp: fill.simps [of t] split: sum.splits)
    show ?thesis
      using 1(1) [OF False p refl] 1(2) False p pull_keeps [OF p] by (auto simp: fill.simps [of t] split: if_splits)
  qed (use 1(2) in \<open>simp add: fill.simps [of t]\<close>)
qed

lemma piece_keeps: "pieceOfEntry t = Inr (p, u) \<Longrightarrow> length (t_rest u) \<le> length (t_rest t)"
  by (auto simp: pieceOfEntry_def Let_def t_rest_def split: if_splits sum.splits prod.splits bool.splits
      dest!: fill_keeps [unfolded t_rest_def]) (metis diff_le_self le_add2 le_diff_conv length_append nat_add_left_cancel_le)

lemma pieces_keeps: "snd (pieces t) = Inr u \<Longrightarrow> length (t_rest u) \<le> length (t_rest t)"
proof (induction t rule: pieces.induct)
  case (1 t)
  obtain p v where p: "pieceOfEntry t = Inr (p, v)" using 1(2) by (auto simp: pieces.simps [of t] split: sum.splits)
  show ?case
  proof (cases p)
    case (Some q)
    with 1(2) p have "snd (pieces v) = Inr u" by (simp add: pieces.simps [of t])
    with 1(1) [OF p refl Some] piece_keeps [OF p] show ?thesis by simp
  qed (use 1(2) p piece_keeps [OF p] in \<open>simp add: pieces.simps [of t]\<close>)
qed

lemma walkPast_keeps: "walkPast padding t = Inr u \<Longrightarrow> length (t_rest u) \<le> length (t_rest t)"
  by (auto simp: walkPast_def bind_result_Inr_iff split: if_splits dest!: pieces_keeps dest: take_bytes_keeps)

lemma unread_rest [simp]: "t_rest (t\<lparr>t_unread := n\<rparr>) = t_rest t"
  by (simp add: t_rest_def)

lemma announcement_keeps: "announcementIn header t = Inr (a, u) \<Longrightarrow> length (t_rest u) \<le> length (t_rest t)"
  using pieces_keeps [of "t\<lparr>t_unread := h_sizeBytes header\<rparr>"] walkPast_keeps [of _ "t\<lparr>t_unread := h_sizeBytes header\<rparr>"]
  by (auto simp: announcementIn_def longFieldIn_def paxAnnouncementIn_def bind_result_Inr_iff Let_def split_beta
      split: if_splits dest!: walkPast_keeps)

text \<open>\<open>announced.sizeBytes ?? header.sizeBytes\<close>\<close>

definition sized :: "Announced \<Rightarrow> Header \<Rightarrow> nat" where
  "sized announced header = (case a_sizeBytes announced of Some n \<Rightarrow> n | None \<Rightarrow> h_sizeBytes header)"

function tarEntries_from :: "Announced \<Rightarrow> Tar \<Rightarrow> ArchiveEntry list \<times> read_failure option" where
  "tarEntries_from announced t =
     (case take_bytes BLOCK_BYTES t of
        Inl failure \<Rightarrow> ([], Some failure)
      | Inr (None, _) \<Rightarrow> ([], Some (UnreadableArchive ''ended before it said its entries had''))
      | Inr (Some block, t) \<Rightarrow>
          if isEnd block then ([], None)
          else case headerIn block of
            Inl failure \<Rightarrow> ([], Some failure)
          | Inr header \<Rightarrow>
              (case announcementIn header t of
                 Inl failure \<Rightarrow> ([], Some failure)
               | Inr (Some announcement, t) \<Rightarrow> tarEntries_from (merged announced announcement) t
               | Inr (None, t) \<Rightarrow>
                   (let sizeBytes = sized announced header;
                        t = t\<lparr>t_unread := sizeBytes\<rparr>;
                        entry = entryFrom header announced sizeBytes (apsnd failure_of (pieces t)) in
                    case walkPast (paddingAfter sizeBytes) t of
                      Inl failure \<Rightarrow> ([entry], Some failure)
                    | Inr t \<Rightarrow> apfst (Cons entry) (tarEntries_from nothing_announced t))))"
  by pat_completeness auto
termination
  by (relation "measure (\<lambda>(announced, t). length (t_rest t))")
    (auto simp: BLOCK_BYTES_def dest!: take_bytes_keeps announcement_keeps walkPast_keeps)

declare tarEntries_from.simps [simp del]

definition tarEntries :: "byte list list \<times> read_failure option \<Rightarrow> ArchiveEntry list \<times> read_failure option" where
  "tarEntries source =
     tarEntries_from nothing_announced
       \<lparr>t_held = [], t_chunks = fst source, t_ending = snd source, t_ended = False, t_unread = 0\<rparr>"


section \<open>The listing of a tarball\<close>

text \<open>The same walk over the whole of the bytes, which says what a tarball holds.\<close>

lemma entry_data_shorter: "entry_data n padding ending bs = Inr (bytes, rest) \<Longrightarrow> length rest \<le> length bs"
  by (auto simp: entry_data_def split: if_splits)

lemma announced_in_shorter: "announced_in header ending bs = Inr (a, rest) \<Longrightarrow> length rest \<le> length bs"
  by (auto simp: announced_in_def bind_result_Inr_iff split: if_splits dest: entry_data_shorter)

definition whole_entry :: "Header \<Rightarrow> Announced \<Rightarrow> read_failure option \<Rightarrow> byte list \<Rightarrow> ArchiveEntry" where
  "whole_entry header announced ending bs =
     (let n = sized announced header in
      entryFrom header announced n ([take n bs], if length bs < n then Some (short_failure ending) else None))"

function listing :: "Announced \<Rightarrow> read_failure option \<Rightarrow> byte list \<Rightarrow> ArchiveEntry list \<times> read_failure option" where
  "listing announced ending bs =
     (if length bs < BLOCK_BYTES
      then ([], Some (case ending of Some failure \<Rightarrow> failure
                      | None \<Rightarrow> UnreadableArchive ''ended before it said its entries had''))
      else if isEnd (take BLOCK_BYTES bs) then ([], None)
      else case headerIn (take BLOCK_BYTES bs) of
        Inl failure \<Rightarrow> ([], Some failure)
      | Inr header \<Rightarrow>
          (let bs = drop BLOCK_BYTES bs in
           if announces header
           then case announced_in header ending bs of
               Inl failure \<Rightarrow> ([], Some failure)
             | Inr (announcement, rest) \<Rightarrow> listing (merged announced announcement) ending rest
           else case entry_data (sized announced header) (paddingAfter (sized announced header)) ending bs of
               Inl failure \<Rightarrow> ([whole_entry header announced ending bs], Some failure)
             | Inr (_, rest) \<Rightarrow>
                 apfst (Cons (whole_entry header announced ending bs)) (listing nothing_announced ending rest)))"
  by pat_completeness auto
termination
  by (relation "measure (\<lambda>(announced, ending, bs). length bs)")
    (auto simp: BLOCK_BYTES_def dest!: announced_in_shorter entry_data_shorter)

declare listing.simps [simp del]

text \<open>An entry with its pieces put together.\<close>

definition whole :: "ArchiveEntry \<Rightarrow> ArchiveEntry" where
  "whole e = e\<lparr>e_content := apfst (\<lambda>ps. [concat ps]) (e_content e)\<rparr>"

lemma whole_entryFrom:
  "whole (entryFrom header announced n content) = entryFrom header announced n (apfst (\<lambda>ps. [concat ps]) content)"
  by (simp add: whole_def entryFrom_def)

lemma apfst_map_Cons [simp]: "apfst (map f) (apfst (Cons e) p) = apfst (Cons (f e)) (apfst (map f) p)"
  by (simp add: apfst_def map_prod_def split_beta)

lemma whole_entry_pieces:
  assumes "tar_ok t"
  shows "whole (entryFrom header announced (sized announced header)
      (apsnd failure_of (pieces (t\<lparr>t_unread := sized announced header\<rparr>)))) =
    whole_entry header announced (t_ending t) (t_rest t)"
proof -
  let ?t = "t\<lparr>t_unread := sized announced header\<rparr>"
  have "tar_ok ?t" using assms by (simp add: tar_ok_def)
  from pieces_rest [OF this] show ?thesis
    by (cases "pieces ?t") (auto simp: whole_entryFrom whole_entry_def failure_of_def Let_def split: if_splits)
qed

theorem tar_walk_is_listing:
  "tar_ok t \<Longrightarrow> apfst (map whole) (tarEntries_from announced t) = listing announced (t_ending t) (t_rest t)"
proof (induction announced t rule: tarEntries_from.induct)
  case (1 announced t)
  note block = take_bytes_rest [OF 1(3), of BLOCK_BYTES]
  show ?case
  proof (cases "BLOCK_BYTES \<le> length (t_rest t)")
    case False
    then show ?thesis
      using block by (auto simp: tarEntries_from.simps [of announced t] listing.simps [of announced]
          split: option.splits)
  next
    case True
    let ?block = "take BLOCK_BYTES (t_rest t)"
    obtain u where u: "take_bytes BLOCK_BYTES t = Inr (Some ?block, u)" "same_but BLOCK_BYTES t u"
      using block True by auto
    note s = same_butD [OF u(2)]
    show ?thesis
    proof (cases "isEnd ?block \<or> isl (headerIn ?block)")
      case True
      then show ?thesis
        using u(1) \<open>BLOCK_BYTES \<le> length (t_rest t)\<close>
        by (auto simp: tarEntries_from.simps [of announced t] listing.simps [of announced] split: sum.splits)
    next
      case False
      then obtain header where h: "\<not> isEnd ?block" "headerIn ?block = Inr header" by (cases "headerIn ?block") auto
      note a = announcementIn_rest [OF s(1), of header]
      show ?thesis
      proof (cases "announces header")
        case True
        have "apfst (map whole) (tarEntries_from (merged announced b) v) = listing (merged announced b) (t_ending v) (t_rest v)"
          if "announcementIn header u = Inr (Some b, v)" "tar_ok v" for b v
          by (rule 1(2) [OF u(1) refl refl h(1,2) that(1) refl refl that(2)])
        with True show ?thesis
          using a u(1) h s(2,4) \<open>BLOCK_BYTES \<le> length (t_rest t)\<close>
          by (auto simp: tarEntries_from.simps [of announced t] listing.simps [of announced "t_ending t" "t_rest t"]
              split: sum.splits)
      next
        case False
        let ?n = "sized announced header"
        let ?u = "u\<lparr>t_unread := ?n\<rparr>"
        have n: "announcementIn header u = Inr (None, u)" using a False by simp
        have ok: "tar_ok ?u" "t_ending ?u = t_ending t" using s(1,2) by (simp_all add: tar_ok_def)
        note w = walkPast_rest [OF ok(1), of "paddingAfter ?n"]
        let ?e = "entryFrom header announced ?n (apsnd failure_of (pieces ?u))"
        have "tarEntries_from announced t =
            (case walkPast (paddingAfter ?n) ?u of
               Inl failure \<Rightarrow> ([?e], Some failure)
             | Inr v \<Rightarrow> apfst (Cons ?e) (tarEntries_from nothing_announced v))"
          using u(1) h n by (simp add: tarEntries_from.simps [of announced t] Let_def)
        moreover have "apfst (map whole) (tarEntries_from nothing_announced v) = listing nothing_announced (t_ending v) (t_rest v)"
          if "walkPast (paddingAfter ?n) ?u = Inr v" "tar_ok v" for v
          using 1(1) [OF u(1) refl refl h(1,2) n refl refl refl refl refl, of v] that by simp
        moreover have "whole ?e = whole_entry header announced (t_ending t) (drop BLOCK_BYTES (t_rest t))"
          using whole_entry_pieces [OF s(1), of header announced] s(2,4) by simp
        ultimately show ?thesis
          using w h s(2,4) ok False \<open>BLOCK_BYTES \<le> length (t_rest t)\<close>
          by (auto simp: listing.simps [of announced "t_ending t" "t_rest t"] split: sum.splits prod.splits)
      qed
    qed
  qed
qed

corollary tarEntries_listing:
  "apfst (map whole) (tarEntries (chunks, ending)) = listing nothing_announced ending (concat chunks)"
  by (simp add: tarEntries_def tar_walk_is_listing tar_ok_def t_rest_def)


text \<open>An entry hands over as many bytes as it declared, or fewer and a failure.\<close>

definition delivers :: "ArchiveEntry \<Rightarrow> bool" where
  "delivers e =
     (length (concat (fst (e_content e))) \<le> e_sizeBytes e \<and>
      (snd (e_content e) = None \<longrightarrow> length (concat (fst (e_content e))) = e_sizeBytes e))"

lemma delivers_whole: "delivers (whole e) = delivers e"
  by (cases "e_content e") (simp add: delivers_def whole_def)

lemma delivers_entry: "delivers (whole_entry header announced ending bs)"
  by (simp add: delivers_def whole_entry_def entryFrom_def Let_def)

lemma listing_delivers: "list_all delivers (fst (listing announced ending bs))"
proof (induction announced ending bs rule: listing.induct)
  case (1 announced ending bs)
  show ?case
    by (subst listing.simps) (auto simp: Let_def delivers_entry split: sum.splits prod.splits dest: 1)
qed

lemma tarEntries_deliver: "list_all delivers (fst (tarEntries source))"
proof -
  have "list_all delivers (map whole (fst (tarEntries source)))"
    using listing_delivers [of nothing_announced "snd source" "concat (fst source)"]
      tarEntries_listing [of "fst source" "snd source"] by (metis fst_apfst prod.collapse)
  then show ?thesis by (simp add: list.pred_map comp_def delivers_whole)
qed

section \<open>Tarballs that are written\<close>

text \<open>The layout of \<open>ustar\<close>, with GNU's entry in front of one whose path does not fit.\<close>

definition tar_field :: "nat \<Rightarrow> byte list \<Rightarrow> byte list" where
  "tar_field n bs = bs @ replicate (n - length bs) 0"

primrec octal_digits :: "nat \<Rightarrow> nat \<Rightarrow> byte list" where
  "octal_digits 0 v = []"
| "octal_digits (Suc k) v = octal_digits k (v div 8) @ [word_of_nat (0x30 + v mod 8)]"

definition header_block :: "byte \<Rightarrow> byte list \<Rightarrow> nat \<Rightarrow> nat \<Rightarrow> byte list \<Rightarrow> byte list" where
  "header_block type name mode sizeBytes link =
     tar_field NAME_BYTES name @ (octal_digits 7 mode @ [0]) @ replicate 16 0 @ (octal_digits 11 sizeBytes @ [0]) @
     replicate 20 0 @ [type] @ tar_field LINK_BYTES link @ replicate 255 0"

lemma length_octal_digits [simp]: "length (octal_digits k v) = k"
  by (induction k arbitrary: v) simp_all

lemma octal_digit_of: "octal_digit (word_of_nat (0x30 + v mod 8))"
proof -
  have "v mod 8 < 8" by simp
  then have "unat (word_of_nat (0x30 + v mod 8) :: byte) = 0x30 + v mod 8"
    by (subst unat_of_nat_byte) simp
  then show ?thesis using \<open>v mod 8 < 8\<close> by (simp add: octal_digit_def word_le_nat_alt)
qed

lemma octal_digits_all: "list_all octal_digit (octal_digits k v)"
  by (induction k arbitrary: v) (simp_all add: octal_digit_of del: of_nat_add)

lemma octal_value_digits: "octal_value (octal_digits k v) = v mod 8 ^ k"
proof (induction k arbitrary: v)
  case (Suc k)
  have "unat (word_of_nat (0x30 + v mod 8) :: byte) = 0x30 + v mod 8"
    by (subst unat_of_nat_byte) (simp add: mod_less less_trans [OF mod_less_divisor])
  then have "octal_value (octal_digits (Suc k) v) = v div 8 mod 8 ^ k * 8 + v mod 8"
    using Suc [of "v div 8"] by (simp add: octal_value_def del: of_nat_add)
  also have "\<dots> = v mod 8 ^ Suc k" by (simp add: mod_mult2_eq)
  finally show ?case .
qed (simp add: octal_value_def)

lemma octal_not_space: "octal_digit b \<Longrightarrow> \<not> latin1_space b \<and> b \<noteq> 0 \<and> b AND 0x80 = 0"
proof -
  assume "octal_digit b"
  then have "0x30 \<le> unat b" "unat b \<le> 0x37" by (simp_all add: octal_digit_def word_le_nat_alt)
  then have "unat b = 0x30 \<or> unat b = 0x31 \<or> unat b = 0x32 \<or> unat b = 0x33 \<or> unat b = 0x34 \<or>
      unat b = 0x35 \<or> unat b = 0x36 \<or> unat b = 0x37" by presburger
  then have "b \<in> {0x30, 0x31, 0x32, 0x33, 0x34, 0x35, 0x36, 0x37}" by (simp add: word_unat_eq_iff)
  then show ?thesis by (auto simp: latin1_space_def)
qed


lemma trimmed_field:
  assumes "list_all octal_digit ds" "ds \<noteq> []"
  shows "trimmed latin1_space (ds @ [0x20]) = ds"
proof -
  have front: "dropWhile latin1_space (ds @ xs) = ds @ xs" for xs
    using assms by (cases ds) (auto simp: octal_not_space)
  have behind: "dropWhile latin1_space (rev ds) = rev ds"
    using assms by (cases ds rule: rev_cases) (auto simp: octal_not_space)
  have space: "latin1_space 0x20" by (simp add: latin1_space_def)
  show ?thesis by (simp add: trimmed_def front space behind)
qed

lemma octal_field_read:
  assumes "length a = from" and "v < 8 ^ k" and "0 < k"
  shows "octalAt (a @ (octal_digits k v @ [0]) @ c) from (Suc k) = Inr v"
proof -
  let ?ds = "octal_digits k v"
  have ds: "list_all octal_digit ?ds" "?ds \<noteq> []" using octal_digits_all assms(3) by (auto simp flip: length_greater_0_conv)
  have slice: "slice_at from (Suc k) (a @ (?ds @ [0]) @ c) = ?ds @ [0]"
    using assms(1) by (intro slice_at_append) simp_all
  have "map (\<lambda>b. if b = 0 then 0x20 else b) ?ds = map id ?ds"
    using ds(1) octal_not_space by (intro map_cong) (auto simp: list_all_iff)
  then have m: "trimmed latin1_space (map (\<lambda>b. if b = 0 then 0x20 else b) (?ds @ [0])) = ?ds"
    using trimmed_field [OF ds] by simp
  have "(case ?ds @ [0] of [] \<Rightarrow> 0 | b # _ \<Rightarrow> b) AND BASE_256_MARKER = 0"
    using ds octal_not_space by (cases "?ds") (auto simp: BASE_256_MARKER_def)
  then show ?thesis
    unfolding octalAt_def Let_def slice m using ds assms(2) by (simp add: octal_value_digits)
qed

definition tar_text :: "byte list \<Rightarrow> bool" where "tar_text text = (utf8_valid text \<and> list_all (\<lambda>b. b \<noteq> 0) text)"

lemma textIn_field: "tar_text text \<Longrightarrow> textIn (text @ replicate n 0) = text"
proof -
  assume t: "tar_text text"
  then have "takeWhile (\<lambda>b. b \<noteq> 0) (text @ replicate n 0) = text"
    by (cases n) (simp_all add: tar_text_def list_all_iff)
  then show ?thesis using t by (simp add: textIn_def tar_text_def utf8_text_valid)
qed

lemma length_tar_field: "length bs \<le> n \<Longrightarrow> length (tar_field n bs) = n"
  by (simp add: tar_field_def)

lemma textIn_tar_field: "tar_text text \<Longrightarrow> length text \<le> n \<Longrightarrow> textIn (tar_field n text) = text"
  by (simp add: tar_field_def textIn_field)

lemmas header_fields = NAME_AT_def NAME_BYTES_def MODE_AT_def MODE_BYTES_def SIZE_AT_def SIZE_BYTES_def TYPE_AT_def
  LINK_AT_def LINK_BYTES_def PREFIX_AT_def PREFIX_BYTES_def

lemma header_read:
  assumes name: "tar_text name" "length name \<le> NAME_BYTES" and link: "tar_text link" "length link \<le> LINK_BYTES"
    and "mode < 8 ^ 7" and "sizeBytes < 8 ^ 11"
  shows "headerIn (header_block type name mode sizeBytes link) =
    Inr \<lparr>h_path = name, h_type = type, h_mode = mode, h_sizeBytes = sizeBytes, h_linkTarget = link\<rparr>"
proof -
  let ?name = "tar_field NAME_BYTES name" and ?link = "tar_field LINK_BYTES link"
    and ?mode = "octal_digits 7 mode @ [0]" and ?size = "octal_digits 11 sizeBytes @ [0]"
  let ?block = "header_block type name mode sizeBytes link"
  have n: "length ?name = 100" "length ?link = 100"
    using name(2) link(2) by (simp_all add: length_tar_field header_fields)
  have block: "?block = ?name @ ?mode @ (replicate 16 0 @ ?size @ replicate 20 0 @ [type] @ ?link @ replicate 255 0)"
    by (simp add: header_block_def)
  have 1: "textAt ?block NAME_AT NAME_BYTES = name"
    using n textIn_tar_field [OF name] by (simp add: textAt_def block slice_at_def header_fields)
  have 2: "octalAt ?block MODE_AT MODE_BYTES = Inr mode"
    unfolding block using octal_field_read [of ?name 100 mode 7] n assms(5) by (simp add: header_fields)
  have 3: "octalAt ?block SIZE_AT SIZE_BYTES = Inr sizeBytes"
    unfolding block
    using octal_field_read [of "?name @ ?mode @ replicate 16 0" 124 sizeBytes 11 "replicate 20 0 @ [type] @ ?link @ replicate 255 0"]
      n assms(6) by (simp add: header_fields)
  have 4: "?block ! TYPE_AT = type" "TYPE_AT < length ?block"
    using n by (simp_all add: block nth_append header_fields)
  have 5: "textAt ?block LINK_AT LINK_BYTES = link"
    using n slice_at_append [of "?name @ ?mode @ replicate 16 0 @ ?size @ replicate 20 0 @ [type]" 157 ?link 100 "replicate 255 0"]
      textIn_tar_field [OF link] by (simp add: textAt_def block header_fields)
  have 6: "textAt ?block PREFIX_AT PREFIX_BYTES = []"
    using n by (simp add: textAt_def block slice_at_def header_fields textIn_def utf8_text_def utf8_pieces_def)
  show ?thesis unfolding headerIn_def Let_def 1 2 3 5 6 using 4 by simp
qed


definition tar_padded :: "byte list \<Rightarrow> byte list" where
  "tar_padded bs = bs @ replicate (paddingAfter (length bs)) 0"

definition type_of :: "ArchiveEntryKind \<Rightarrow> byte" where
  "type_of kind =
     (case kind of KFile \<Rightarrow> TYPE_FILE | KDirectory \<Rightarrow> TYPE_DIRECTORY | KSymlink \<Rightarrow> TYPE_SYMLINK | KUnsupported \<Rightarrow> 0x31)"

definition long_name :: "byte list \<Rightarrow> byte list" where
  "long_name path =
     header_block TYPE_LONG_NAME (ascii ''././@LongLink'') 0 (length path + 1) [] @ tar_padded (path @ [0])"

definition tar_entry :: "ArchiveEntry \<Rightarrow> byte list" where
  "tar_entry e =
     (if NAME_BYTES < length (e_path e) then long_name (e_path e) else []) @
     header_block (type_of (e_kind e)) (if NAME_BYTES < length (e_path e) then [] else e_path e) (e_mode e)
       (e_sizeBytes e) (e_linkTarget e) @
     tar_padded (concat (fst (e_content e)))"

definition tar_of :: "ArchiveEntry list \<Rightarrow> byte list" where
  "tar_of es = concat (map tar_entry es) @ replicate (2 * BLOCK_BYTES) 0"

definition tar_plain :: "ArchiveEntry \<Rightarrow> bool" where
  "tar_plain e =
     (tar_text (e_path e) \<and> length (e_path e) < MAX_LONG_FIELD_BYTES \<and> e_mode e \<le> MODE_BITS \<and>
      e_sizeBytes e < 8 ^ 11 \<and> tar_text (e_linkTarget e) \<and> length (e_linkTarget e) \<le> LINK_BYTES \<and>
      e_content e = ([concat (fst (e_content e))], None) \<and> length (concat (fst (e_content e))) = e_sizeBytes e)"

lemma entry_data_padded:
  "length bs = n \<Longrightarrow> entry_data n (paddingAfter n) ending (tar_padded bs @ rest) = Inr (bs, rest)"
  by (auto simp: entry_data_def tar_padded_def)

lemma length_header_block:
  "length name \<le> NAME_BYTES \<Longrightarrow> length link \<le> LINK_BYTES \<Longrightarrow>
    length (header_block type name mode sizeBytes link) = BLOCK_BYTES"
  by (simp add: header_block_def length_tar_field BLOCK_BYTES_def header_fields)

lemma header_block_not_end: "\<not> isEnd (header_block type name mode sizeBytes link)"
proof -
  have "octal_digits 7 mode \<noteq> []" by (simp flip: length_greater_0_conv)
  then obtain b where "b \<in> set (octal_digits 7 mode)" by (cases "octal_digits 7 mode") auto
  moreover from this have "b \<noteq> 0" using octal_digits_all octal_not_space by (metis list_all_iff)
  ultimately show ?thesis by (auto simp: isEnd_def header_block_def list_all_iff)
qed

lemma listing_block:
  assumes "tar_text name" "length name \<le> NAME_BYTES" "tar_text link" "length link \<le> LINK_BYTES"
    and "mode < 8 ^ 7" "sizeBytes < 8 ^ 11"
    and header: "header = \<lparr>h_path = name, h_type = type, h_mode = mode, h_sizeBytes = sizeBytes, h_linkTarget = link\<rparr>"
  shows "listing announced ending (header_block type name mode sizeBytes link @ bs) =
    (if announces header
     then case announced_in header ending bs of
         Inl failure \<Rightarrow> ([], Some failure)
       | Inr (announcement, rest) \<Rightarrow> listing (merged announced announcement) ending rest
     else case entry_data (sized announced header) (paddingAfter (sized announced header)) ending bs of
         Inl failure \<Rightarrow> ([whole_entry header announced ending bs], Some failure)
       | Inr (_, rest) \<Rightarrow>
           apfst (Cons (whole_entry header announced ending bs)) (listing nothing_announced ending rest))"
proof -
  let ?block = "header_block type name mode sizeBytes link"
  have "headerIn ?block = Inr header" using header_read [OF assms(1-6)] header by simp
  moreover have "length ?block = BLOCK_BYTES" using length_header_block [OF assms(2,4)] .
  ultimately show ?thesis
    by (subst listing.simps) (simp add: header_block_not_end Let_def split del: if_split)
qed

lemma tar_text_ascii: "list_all (\<lambda>b. b < 0x80 \<and> b \<noteq> 0) bs \<Longrightarrow> tar_text bs"
  by (simp add: tar_text_def list_all_iff utf8_valid_ascii)

lemma long_name_read:
  assumes "tar_text path" "length path < MAX_LONG_FIELD_BYTES"
  shows "listing nothing_announced ending (long_name path @ bs) = listing (nothing_announced\<lparr>a_path := Some path\<rparr>) ending bs"
proof -
  let ?h = "\<lparr>h_path = ascii ''././@LongLink'', h_type = TYPE_LONG_NAME, h_mode = 0, h_sizeBytes = length path + 1,
    h_linkTarget = []\<rparr>"
  have name: "tar_text (ascii ''././@LongLink'')" "length (ascii ''././@LongLink'') \<le> NAME_BYTES"
    by (rule tar_text_ascii) (simp_all add: ascii_def NAME_BYTES_def)
  have link: "tar_text []" "length [] \<le> LINK_BYTES" by (simp_all add: tar_text_ascii)
  have "length path + 1 < 8 ^ 11" using assms(2) by (simp add: MAX_LONG_FIELD_BYTES_def)
  note block = listing_block [OF name link _ this refl, of 0 nothing_announced ending TYPE_LONG_NAME "tar_padded (path @ [0]) @ bs"]
  have "announced_in ?h ending (tar_padded (path @ [0]) @ bs) = Inr (nothing_announced\<lparr>a_path := Some path\<rparr>, bs)"
    using assms textIn_field [OF assms(1), of 1] entry_data_padded [of "path @ [0]" "length path + 1" ending bs]
    by (simp add: announced_in_def too_long_def announcement_of_def)
  then show ?thesis
    using block by (simp add: long_name_def announces_def merged_def or_else_def nothing_announced_def)
qed

lemma type_of_kind: "kindOf (type_of kind) = kind"
  by (cases kind)
    (simp_all add: kindOf_def type_of_def TYPE_FILE_def TYPE_FILE_UNSET_def TYPE_DIRECTORY_def TYPE_SYMLINK_def)

lemma mode_bits: "mode \<le> MODE_BITS \<Longrightarrow> mode AND MODE_BITS = mode"
proof -
  assume "mode \<le> MODE_BITS"
  then have "mode mod 2 ^ 9 = mode" by (simp add: MODE_BITS_def)
  moreover have "MODE_BITS = mask 9" by (simp add: MODE_BITS_def mask_eq_exp_minus_1)
  ultimately show ?thesis by (metis take_bit_eq_mask take_bit_eq_mod)
qed

lemma tar_entry_read:
  assumes "tar_plain e"
  shows "listing nothing_announced ending (tar_entry e @ rest) = apfst (Cons e) (listing nothing_announced ending rest)"
proof -
  let ?long = "NAME_BYTES < length (e_path e)"
  let ?name = "if ?long then [] else e_path e"
  let ?a = "if ?long then nothing_announced\<lparr>a_path := Some (e_path e)\<rparr> else nothing_announced"
  let ?h = "\<lparr>h_path = ?name, h_type = type_of (e_kind e), h_mode = e_mode e, h_sizeBytes = e_sizeBytes e,
    h_linkTarget = e_linkTarget e\<rparr>"
  let ?data = "concat (fst (e_content e))"
  note plain = assms [unfolded tar_plain_def]
  have name: "tar_text ?name" "length ?name \<le> NAME_BYTES" using plain by (auto simp: tar_text_ascii)
  have link: "tar_text (e_linkTarget e)" "length (e_linkTarget e) \<le> LINK_BYTES" using plain by auto
  have nums: "e_mode e < 8 ^ 7" "e_sizeBytes e < 8 ^ 11" using plain by (auto simp: MODE_BITS_def)
  let ?rest = "header_block (type_of (e_kind e)) ?name (e_mode e) (e_sizeBytes e) (e_linkTarget e) @ tar_padded ?data @ rest"
  have "listing nothing_announced ending (tar_entry e @ rest) = listing ?a ending ?rest"
    using plain long_name_read [of "e_path e" ending ?rest] by (cases "?long") (simp_all add: tar_entry_def)
  moreover have "\<not> announces ?h"
    by (cases "e_kind e") (simp_all add: announces_def type_of_def tar_types TYPE_FILE_def TYPE_DIRECTORY_def TYPE_SYMLINK_def)
  moreover have s: "sized ?a ?h = e_sizeBytes e" by (simp add: sized_def nothing_announced_def)
  moreover have "whole_entry ?h ?a ending (tar_padded ?data @ rest) = e"
  proof -
    have "take (e_sizeBytes e) (tar_padded ?data @ rest) = ?data" "\<not> length (tar_padded ?data @ rest) < e_sizeBytes e"
      using plain by (auto simp: tar_padded_def)
    moreover have "e_content e = ([?data], None)" using plain by blast
    ultimately show ?thesis
      using plain s
      by (cases e) (auto simp: whole_entry_def Let_def entryFrom_def type_of_kind mode_bits nothing_announced_def)
  qed
  ultimately show ?thesis
    using listing_block [OF name link nums refl, of ?a ending "type_of (e_kind e)" "tar_padded ?data @ rest"]
      entry_data_padded [of ?data "e_sizeBytes e" ending rest] plain by simp
qed

lemma tar_of_read: "list_all tar_plain es \<Longrightarrow> listing nothing_announced ending (tar_of es @ rest) = (es, None)"
proof (induction es)
  case Nil
  show ?case by (subst listing.simps) (simp add: tar_of_def isEnd_def BLOCK_BYTES_def list_all_iff)
next
  case (Cons e es)
  then show ?case using tar_entry_read [of e ending "tar_of es @ rest"] by (simp add: tar_of_def)
qed

text \<open>
  C13. A tarball is read back as what was packed: whatever chunks the decompressed stream comes in, whatever
  follows the blocks that end it and however the stream ends, the reader lists exactly the entries that
  were written, in order, each with its path, also one too long for its header, its kind, its permissions,
  its link and its bytes.
\<close>

theorem tarball_is_read_back:
  assumes "list_all tar_plain es" and "concat chunks = tar_of es @ rest"
  shows "apfst (map whole) (tarEntries (chunks, ending)) = (es, None)"
  using tar_of_read [OF assms(1)] by (simp add: tarEntries_listing assms(2))

definition tar_example :: "ArchiveEntry list" where
  "tar_example = [\<lparr>e_path = ascii ''f'', e_kind = KFile, e_mode = 0x1A4, e_sizeBytes = 2, e_linkTarget = [], e_content = ([[1, 2]], None)\<rparr>]"

theorem tarball_is_read_back_witness:
  "apfst (map whole) (tarEntries ([take 7 (tar_of tar_example), drop 7 (tar_of tar_example)], None)) = (tar_example, None)"
proof (rule tarball_is_read_back [where rest = "[]"])
  have "tar_text (ascii ''f'')" "tar_text []" by (rule tar_text_ascii, simp add: ascii_def)+
  then show "list_all tar_plain tar_example"
    by (simp add: tar_example_def tar_plain_def ascii_def MODE_BITS_def MAX_LONG_FIELD_BYTES_def)
qed simp

end
