(* ===== verification/Archive_Zip.thy ===== *)
theory Archive_Zip
  imports Archive_Tar "HOL-Library.List_Lexorder" "HOL-Library.Multiset" "HOL-Library.Sublist"
begin

text \<open>
  A zip read from the index at its end (\<open>apps/agent/src/lib/volumes/zip.ts\<close>).

  The archive is the bytes of the file. How a slice of it is cut into chunks, and what a raw deflate
  stream expands to, are answers of the runtime. Every read of a number is within the buffer it is read
  from, as the code checks before it reads.
\<close>

section \<open>Layout\<close>

definition SIGNATURE_BYTES :: nat where "SIGNATURE_BYTES = 4"

definition LOCAL_HEADER :: "byte list" where "LOCAL_HEADER = [0x50, 0x4B, 3, 4]"
definition DIRECTORY_HEADER :: "byte list" where "DIRECTORY_HEADER = [0x50, 0x4B, 1, 2]"
definition DIRECTORY_END :: "byte list" where "DIRECTORY_END = [0x50, 0x4B, 5, 6]"
definition ZIP64_LOCATOR :: "byte list" where "ZIP64_LOCATOR = [0x50, 0x4B, 6, 7]"
definition ZIP64_DIRECTORY_END :: "byte list" where "ZIP64_DIRECTORY_END = [0x50, 0x4B, 6, 6]"
definition ZIP_MAGIC :: "byte list" where "ZIP_MAGIC = LOCAL_HEADER"

definition DIRECTORY_END_BYTES :: nat where "DIRECTORY_END_BYTES = 22"
definition END_ENTRIES_AT :: nat where "END_ENTRIES_AT = 10"
definition END_DIRECTORY_BYTES_AT :: nat where "END_DIRECTORY_BYTES_AT = 12"
definition END_DIRECTORY_AT :: nat where "END_DIRECTORY_AT = 16"
definition END_COMMENT_LENGTH_AT :: nat where "END_COMMENT_LENGTH_AT = 20"
definition MAX_COMMENT_BYTES :: nat where "MAX_COMMENT_BYTES = 65535"

definition ZIP64_LOCATOR_BYTES :: nat where "ZIP64_LOCATOR_BYTES = 20"
definition ZIP64_LOCATOR_END_AT :: nat where "ZIP64_LOCATOR_END_AT = 8"
definition ZIP64_DIRECTORY_END_BYTES :: nat where "ZIP64_DIRECTORY_END_BYTES = 56"
definition ZIP64_END_ENTRIES_AT :: nat where "ZIP64_END_ENTRIES_AT = 32"
definition ZIP64_END_DIRECTORY_BYTES_AT :: nat where "ZIP64_END_DIRECTORY_BYTES_AT = 40"
definition ZIP64_END_DIRECTORY_AT :: nat where "ZIP64_END_DIRECTORY_AT = 48"

definition DIRECTORY_HEADER_BYTES :: nat where "DIRECTORY_HEADER_BYTES = 46"
definition MADE_BY_AT :: nat where "MADE_BY_AT = 4"
definition FLAGS_AT :: nat where "FLAGS_AT = 8"
definition METHOD_AT :: nat where "METHOD_AT = 10"
definition COMPRESSED_SIZE_AT :: nat where "COMPRESSED_SIZE_AT = 20"
definition UNCOMPRESSED_SIZE_AT :: nat where "UNCOMPRESSED_SIZE_AT = 24"
definition NAME_LENGTH_AT :: nat where "NAME_LENGTH_AT = 28"
definition EXTRA_LENGTH_AT :: nat where "EXTRA_LENGTH_AT = 30"
definition COMMENT_LENGTH_AT :: nat where "COMMENT_LENGTH_AT = 32"
definition EXTERNAL_ATTRIBUTES_AT :: nat where "EXTERNAL_ATTRIBUTES_AT = 38"
definition HEADER_OFFSET_AT :: nat where "HEADER_OFFSET_AT = 42"

definition LOCAL_HEADER_BYTES :: nat where "LOCAL_HEADER_BYTES = 30"
definition LOCAL_NAME_LENGTH_AT :: nat where "LOCAL_NAME_LENGTH_AT = 26"
definition LOCAL_EXTRA_LENGTH_AT :: nat where "LOCAL_EXTRA_LENGTH_AT = 28"

definition IN_ZIP64 :: nat where "IN_ZIP64 = 0xFFFFFFFF"
definition COUNT_IN_ZIP64 :: nat where "COUNT_IN_ZIP64 = 0xFFFF"
definition ZIP64_EXTRA_ID :: nat where "ZIP64_EXTRA_ID = 1"
definition EXTRA_ID_AT :: nat where "EXTRA_ID_AT = 0"
definition EXTRA_BYTES_AT :: nat where "EXTRA_BYTES_AT = 2"
definition EXTRA_HEADER_BYTES :: nat where "EXTRA_HEADER_BYTES = 4"
definition ZIP64_FIELD_BYTES :: nat where "ZIP64_FIELD_BYTES = 8"

definition FLAG_ENCRYPTED :: nat where "FLAG_ENCRYPTED = 1"
definition METHOD_STORED :: nat where "METHOD_STORED = 0"
definition METHOD_DEFLATED :: nat where "METHOD_DEFLATED = 8"

definition MADE_BY_UNIX :: nat where "MADE_BY_UNIX = 3"
definition MADE_BY_SHIFT :: nat where "MADE_BY_SHIFT = 8"
definition ATTRIBUTES_MODE_SHIFT :: nat where "ATTRIBUTES_MODE_SHIFT = 16"
definition FILE_TYPE_MASK :: nat where "FILE_TYPE_MASK = 0xF000"
definition FILE_TYPE_SYMLINK :: nat where "FILE_TYPE_SYMLINK = 0xA000"
definition FILE_TYPE_DIRECTORY :: nat where "FILE_TYPE_DIRECTORY = 0x4000"
definition FILE_TYPE_REGULAR :: nat where "FILE_TYPE_REGULAR = 0x8000"
definition FILE_TYPE_UNSAID :: nat where "FILE_TYPE_UNSAID = 0"
definition PERMISSION_BITS :: nat where "PERMISSION_BITS = 0x1FF"
definition DEFAULT_FILE_MODE :: nat where "DEFAULT_FILE_MODE = 0x1A4"
definition DEFAULT_DIRECTORY_MODE :: nat where "DEFAULT_DIRECTORY_MODE = 0x1ED"

definition BYTES_PER_MIB :: nat where "BYTES_PER_MIB = 1048576"
definition MAX_DIRECTORY_MIB :: nat where "MAX_DIRECTORY_MIB = 64"
definition MAX_DIRECTORY_BYTES :: nat where "MAX_DIRECTORY_BYTES = MAX_DIRECTORY_MIB * BYTES_PER_MIB"
definition MAX_LINK_TARGET_BYTES :: nat where "MAX_LINK_TARGET_BYTES = 4096"

record IndexedEntry =
  i_path :: "byte list"
  i_kind :: ArchiveEntryKind
  i_mode :: nat
  i_sizeBytes :: nat
  i_compressedSizeBytes :: nat
  i_headerAt :: nat
  i_stored :: bool

record DirectoryBounds =
  b_entries :: nat
  b_directoryAt :: nat
  b_directoryBytes :: nat

record Measured =
  m_sizeBytes :: nat
  m_compressedSizeBytes :: nat
  m_headerAt :: nat

text \<open>\<open>readUInt16LE\<close>, \<open>readUInt32LE\<close> and \<open>readBigUInt64LE\<close>, by their width in bytes.\<close>

definition read_le :: "nat \<Rightarrow> nat \<Rightarrow> byte list \<Rightarrow> nat" where
  "read_le width from bs = be_value (rev (slice_at from width bs))"

text \<open>What the runtime makes of bytes: the chunks a slice of a file is streamed in, what a raw deflate stream
  and what a gzip stream expand to and how that ends.\<close>

record Runtime =
  streamed :: "byte list \<Rightarrow> byte list list"
  inflated :: "byte list \<Rightarrow> byte list list \<times> read_failure option"
  gunzipped :: "byte list \<Rightarrow> byte list list \<times> read_failure option"

definition bytesAt :: "byte list \<Rightarrow> int \<Rightarrow> nat \<Rightarrow> (read_failure, byte list) result" where
  "bytesAt file from len =
     (if from < 0 then Inl (UnreadableArchive ''is smaller than the records it would have to carry'')
      else let bs = slice_at (nat from) len file in
        if length bs < len then Inl (UnreadableArchive ''ends before its own index says it does'') else Inr bs)"

section \<open>Where the index is\<close>

definition directoryEndIn :: "byte list \<Rightarrow> nat option" where
  "directoryEndIn tail =
     find (\<lambda>i. slice_at i SIGNATURE_BYTES tail = DIRECTORY_END \<and>
         read_le 2 (i + END_COMMENT_LENGTH_AT) tail = length tail - i - DIRECTORY_END_BYTES)
       (rev [0..<length tail + 1 - DIRECTORY_END_BYTES])"

definition heldInZip64 :: "DirectoryBounds \<Rightarrow> bool" where
  "heldInZip64 bounds =
     (b_entries bounds = COUNT_IN_ZIP64 \<or> b_directoryBytes bounds = IN_ZIP64 \<or> b_directoryAt bounds = IN_ZIP64)"

definition zip64BoundsOf :: "byte list \<Rightarrow> byte list \<Rightarrow> nat \<Rightarrow> (read_failure, DirectoryBounds) result" where
  "zip64BoundsOf file tail i =
     (if i < ZIP64_LOCATOR_BYTES \<or> slice_at (i - ZIP64_LOCATOR_BYTES) SIGNATURE_BYTES tail \<noteq> ZIP64_LOCATOR
      then Inl (UnreadableArchive ''says its index is a zip64 one and does not say where it is'')
      else bind_result
        (bytesAt file (int (js_number (read_le 8 (i - ZIP64_LOCATOR_BYTES + ZIP64_LOCATOR_END_AT) tail)))
          ZIP64_DIRECTORY_END_BYTES) (\<lambda>rec.
        if slice_at 0 SIGNATURE_BYTES rec \<noteq> ZIP64_DIRECTORY_END
        then Inl (UnreadableArchive ''points at a zip64 index record that is not one'')
        else Inr \<lparr>b_entries = js_number (read_le 8 ZIP64_END_ENTRIES_AT rec),
                  b_directoryAt = js_number (read_le 8 ZIP64_END_DIRECTORY_AT rec),
                  b_directoryBytes = js_number (read_le 8 ZIP64_END_DIRECTORY_BYTES_AT rec)\<rparr>))"

definition boundsOf :: "byte list \<Rightarrow> (read_failure, DirectoryBounds) result" where
  "boundsOf file =
     (let tailBytes = min (length file) (DIRECTORY_END_BYTES + MAX_COMMENT_BYTES) in
      bind_result (bytesAt file (int (length file) - int tailBytes) tailBytes) (\<lambda>tail.
        case directoryEndIn tail of
          None \<Rightarrow> Inl (UnreadableArchive ''does not end with the index a zip is read from'')
        | Some i \<Rightarrow>
            (let bounds = \<lparr>b_entries = read_le 2 (i + END_ENTRIES_AT) tail,
                           b_directoryAt = read_le 4 (i + END_DIRECTORY_AT) tail,
                           b_directoryBytes = read_le 4 (i + END_DIRECTORY_BYTES_AT) tail\<rparr> in
             if heldInZip64 bounds then zip64BoundsOf file tail i else Inr bounds)))"

section \<open>What the index says of an entry\<close>

definition methodOf :: "byte list \<Rightarrow> (read_failure, nat) result" where
  "methodOf fixed =
     (let method = read_le 2 METHOD_AT fixed in
      if read_le 2 FLAGS_AT fixed AND FLAG_ENCRYPTED \<noteq> 0
      then Inl (UnreadableArchive ''holds an entry behind a password'')
      else if method \<noteq> METHOD_STORED \<and> method \<noteq> METHOD_DEFLATED
      then Inl (UnreadableArchive ''holds an entry compressed in a way nibrun does not read'')
      else Inr method)"

function zip64FieldIn :: "byte list \<Rightarrow> nat \<Rightarrow> byte list option" where
  "zip64FieldIn extra i =
     (if length extra < i + EXTRA_HEADER_BYTES then None
      else let bytes = read_le 2 (i + EXTRA_BYTES_AT) extra in
        if read_le 2 (i + EXTRA_ID_AT) extra = ZIP64_EXTRA_ID then Some (slice_at (i + EXTRA_HEADER_BYTES) bytes extra)
        else zip64FieldIn extra (i + EXTRA_HEADER_BYTES + bytes))"
  by pat_completeness auto
termination
  by (relation "measure (\<lambda>(extra, i). length extra - i)") (auto simp: EXTRA_HEADER_BYTES_def)

declare zip64FieldIn.simps [simp del]

text \<open>The three that a header may defer, in the order of \<open>MEASURED_IN_ORDER\<close>.\<close>

definition MEASURED_IN_ORDER :: "((Measured \<Rightarrow> nat) \<times> (nat \<Rightarrow> Measured \<Rightarrow> Measured)) list" where
  "MEASURED_IN_ORDER =
     [(m_sizeBytes, \<lambda>n m. m\<lparr>m_sizeBytes := n\<rparr>), (m_compressedSizeBytes, \<lambda>n m. m\<lparr>m_compressedSizeBytes := n\<rparr>),
      (m_headerAt, \<lambda>n m. m\<lparr>m_headerAt := n\<rparr>)]"

definition measuredIn :: "byte list \<Rightarrow> byte list \<Rightarrow> (read_failure, Measured) result" where
  "measuredIn fixed extra =
     (let declared = \<lparr>m_sizeBytes = read_le 4 UNCOMPRESSED_SIZE_AT fixed,
                      m_compressedSizeBytes = read_le 4 COMPRESSED_SIZE_AT fixed,
                      m_headerAt = read_le 4 HEADER_OFFSET_AT fixed\<rparr>;
          deferred = filter (\<lambda>(get, _). get declared = IN_ZIP64) MEASURED_IN_ORDER in
      if deferred = [] then Inr declared
      else case zip64FieldIn extra 0 of
        None \<Rightarrow> Inl (UnreadableArchive ''declares a number it does not carry the zip64 field for'')
      | Some field \<Rightarrow>
          if length field < length deferred * ZIP64_FIELD_BYTES
          then Inl (UnreadableArchive ''declares a number it does not carry the zip64 field for'')
          else Inr (foldl (\<lambda>m (index, _, put). put (js_number (read_le 8 (index * ZIP64_FIELD_BYTES) field)) m)
            declared (enumerate 0 deferred)))"

definition unixModeIn :: "byte list \<Rightarrow> nat option" where
  "unixModeIn fixed =
     (if drop_bit MADE_BY_SHIFT (read_le 2 MADE_BY_AT fixed) \<noteq> MADE_BY_UNIX then None
      else let mode = drop_bit ATTRIBUTES_MODE_SHIFT (read_le 4 EXTERNAL_ATTRIBUTES_AT fixed) in
        if mode = 0 then None else Some mode)"

definition unixKind :: "nat \<Rightarrow> bool \<Rightarrow> ArchiveEntryKind" where
  "unixKind unixMode named =
     (let type = unixMode AND FILE_TYPE_MASK in
      if type = FILE_TYPE_SYMLINK then KSymlink
      else if type = FILE_TYPE_DIRECTORY \<or> named then KDirectory
      else if type = FILE_TYPE_REGULAR \<or> type = FILE_TYPE_UNSAID then KFile else KUnsupported)"

definition describedBy :: "byte list \<Rightarrow> byte list \<Rightarrow> ArchiveEntryKind \<times> nat" where
  "describedBy fixed name =
     (let named = (name \<noteq> [] \<and> last name = 0x2F) in
      case unixModeIn fixed of
        None \<Rightarrow> if named then (KDirectory, DEFAULT_DIRECTORY_MODE) else (KFile, DEFAULT_FILE_MODE)
      | Some unixMode \<Rightarrow> (unixKind unixMode named, unixMode AND PERMISSION_BITS))"

definition entryIn :: "byte list \<Rightarrow> nat \<Rightarrow> (read_failure, IndexedEntry \<times> nat) result" where
  "entryIn directory i =
     (if length directory < i + DIRECTORY_HEADER_BYTES \<or> slice_at i SIGNATURE_BYTES directory \<noteq> DIRECTORY_HEADER
      then Inl (UnreadableArchive ''has an index that stops describing entries part way through'')
      else
        let fixed = slice_at i DIRECTORY_HEADER_BYTES directory;
            nameBytes = read_le 2 NAME_LENGTH_AT fixed;
            extraBytes = read_le 2 EXTRA_LENGTH_AT fixed;
            nameAt = i + DIRECTORY_HEADER_BYTES;
            extraAt = nameAt + nameBytes;
            name = utf8_text (slice_at nameAt nameBytes directory) in
        bind_result (measuredIn fixed (slice_at extraAt extraBytes directory)) (\<lambda>measured.
        bind_result (methodOf fixed) (\<lambda>method.
          Inr (\<lparr>i_path = name, i_kind = fst (describedBy fixed name), i_mode = snd (describedBy fixed name),
                i_sizeBytes = m_sizeBytes measured, i_compressedSizeBytes = m_compressedSizeBytes measured,
                i_headerAt = m_headerAt measured, i_stored = (method = METHOD_STORED)\<rparr>,
               extraAt + extraBytes + read_le 2 COMMENT_LENGTH_AT fixed))))"

primrec entries_from :: "byte list \<Rightarrow> nat \<Rightarrow> nat \<Rightarrow> (read_failure, IndexedEntry list) result" where
  "entries_from directory 0 i = Inr []"
| "entries_from directory (Suc left) i =
     bind_result (entryIn directory i) (\<lambda>(entry, next).
     bind_result (entries_from directory left next) (\<lambda>entries. Inr (entry # entries)))"

text \<open>\<open>sort\<close> compares the UTF-16 code units of the paths.\<close>

definition inOrder :: "IndexedEntry list \<Rightarrow> (read_failure, IndexedEntry list) result" where
  "inOrder entries =
     (if distinct (map i_path entries) then Inr (sort_key (\<lambda>e. code_units (i_path e)) entries)
      else Inl (UnreadableArchive ''names the same path twice''))"

definition indexIn :: "byte list \<Rightarrow> (read_failure, IndexedEntry list) result" where
  "indexIn file =
     bind_result (boundsOf file) (\<lambda>bounds.
     if MAX_DIRECTORY_BYTES < b_directoryBytes bounds
     then Inl (UnreadableArchive ''has an index larger than one an app could be seeded from'')
     else
       bind_result (bytesAt file (int (b_directoryAt bounds)) (b_directoryBytes bounds)) (\<lambda>directory.
       bind_result (entries_from directory (b_entries bounds) 0) inOrder))"

section \<open>Bytes of an entry\<close>

definition dataOffsetOf :: "byte list \<Rightarrow> IndexedEntry \<Rightarrow> (read_failure, nat) result" where
  "dataOffsetOf file entry =
     bind_result (bytesAt file (int (i_headerAt entry)) LOCAL_HEADER_BYTES) (\<lambda>header.
     if slice_at 0 SIGNATURE_BYTES header \<noteq> LOCAL_HEADER
     then Inl (UnreadableArchive ''has an index pointing where no entry begins'')
     else Inr (i_headerAt entry + LOCAL_HEADER_BYTES + read_le 2 LOCAL_NAME_LENGTH_AT header +
       read_le 2 LOCAL_EXTRA_LENGTH_AT header))"

fun cut_at :: "nat \<Rightarrow> nat \<Rightarrow> byte list list \<Rightarrow> read_failure option \<Rightarrow> byte list list \<times> read_failure option" where
  "cut_at sizeBytes held [] ending =
     ([], case ending of
        Some failure \<Rightarrow> Some failure
      | None \<Rightarrow> if held < sizeBytes then Some (UnreadableArchive ''holds an entry shorter than it said it was'') else None)"
| "cut_at sizeBytes held (chunk # chunks) ending =
     (let wanted = take (sizeBytes - held) chunk;
          yielded = (if 0 < length wanted then [wanted] else []) in
      if held + length wanted = sizeBytes then (yielded, None)
      else apfst (append yielded) (cut_at sizeBytes (held + length wanted) chunks ending))"

definition contentOf :: "Runtime \<Rightarrow> byte list \<Rightarrow> IndexedEntry \<Rightarrow> byte list list \<times> read_failure option" where
  "contentOf R file entry =
     (case dataOffsetOf file entry of
        Inl failure \<Rightarrow> ([], Some failure)
      | Inr i \<Rightarrow>
          (let compressed = slice_at i (i_compressedSizeBytes entry) file;
               (chunks, ending) = (if i_stored entry then (streamed R compressed, None) else inflated R compressed) in
           cut_at (i_sizeBytes entry) 0 chunks ending))"

definition linkTargetOf :: "Runtime \<Rightarrow> byte list \<Rightarrow> IndexedEntry \<Rightarrow> (read_failure, byte list) result" where
  "linkTargetOf R file entry =
     (if MAX_LINK_TARGET_BYTES < i_sizeBytes entry
      then Inl (UnreadableArchive ''holds a symlink pointing somewhere no filesystem would take'')
      else case contentOf R file entry of
        (_, Some failure) \<Rightarrow> Inl failure
      | (ps, None) \<Rightarrow> Inr (utf8_text (concat ps)))"

fun zipEntries_from :: "Runtime \<Rightarrow> byte list \<Rightarrow> IndexedEntry list \<Rightarrow> ArchiveEntry list \<times> read_failure option" where
  "zipEntries_from R file [] = ([], None)"
| "zipEntries_from R file (entry # entries) =
     (case if i_kind entry = KSymlink then linkTargetOf R file entry else Inr [] of
        Inl failure \<Rightarrow> ([], Some failure)
      | Inr target \<Rightarrow>
          apfst (Cons \<lparr>e_path = i_path entry, e_kind = i_kind entry, e_mode = i_mode entry,
                       e_sizeBytes = i_sizeBytes entry, e_linkTarget = target, e_content = contentOf R file entry\<rparr>)
            (zipEntries_from R file entries))"

definition zipEntries :: "Runtime \<Rightarrow> byte list \<Rightarrow> ArchiveEntry list \<times> read_failure option" where
  "zipEntries R file =
     (case indexIn file of Inl failure \<Rightarrow> ([], Some failure) | Inr entries \<Rightarrow> zipEntries_from R file entries)"

section \<open>What the reader promises\<close>

lemma cut_at_delivers:
  assumes "held \<le> sizeBytes" and "cut_at sizeBytes held chunks ending = (ps, r)"
  shows "length (concat ps) \<le> sizeBytes - held \<and> (r = None \<longrightarrow> length (concat ps) = sizeBytes - held)"
  using assms
proof (induction sizeBytes held chunks ending arbitrary: ps rule: cut_at.induct)
  case (2 sizeBytes held chunk chunks ending)
  let ?w = "take (sizeBytes - held) chunk"
  show ?case
  proof (cases "held + length ?w = sizeBytes")
    case False
    obtain qs where q: "cut_at sizeBytes (held + length ?w) chunks ending = (qs, r)"
      "ps = (if 0 < length ?w then [?w] else []) @ qs"
      using 2(3) False by (cases "cut_at sizeBytes (held + length ?w) chunks ending") (auto simp: Let_def)
    have "held + length ?w \<le> sizeBytes" using 2(2) by simp
    from 2(1) [OF refl refl False this q(1)] show ?thesis using 2(2) q(2) by auto
  qed (use 2(3) in \<open>auto simp: Let_def\<close>)
qed (auto split: option.splits if_splits)

lemma contentOf_delivers:
  "contentOf R file entry = (ps, r) \<Longrightarrow>
    length (concat ps) \<le> i_sizeBytes entry \<and> (r = None \<longrightarrow> length (concat ps) = i_sizeBytes entry)"
  using cut_at_delivers [of 0 "i_sizeBytes entry"]
  by (fastforce simp: contentOf_def Let_def split: sum.splits prod.splits if_splits)

lemma zipEntries_from_deliver: "list_all delivers (fst (zipEntries_from R file entries))"
  by (induction entries)
    (use contentOf_delivers [OF prod.collapse [symmetric]] in \<open>auto simp: delivers_def split: sum.splits\<close>)

lemma zipEntries_deliver: "list_all delivers (fst (zipEntries R file))"
  by (simp add: zipEntries_def zipEntries_from_deliver split: sum.splits)


text \<open>The order of the index: what sorts in front of everything below it.\<close>

lemma inOrder_facts:
  assumes "inOrder entries = Inr es"
  shows "mset es = mset entries" "distinct (map i_path es)" "sorted (map (\<lambda>e. code_units (i_path e)) es)"
proof -
  have es: "es = sort_key (\<lambda>e. code_units (i_path e)) entries" "distinct (map i_path entries)"
    using assms by (auto simp: inOrder_def split: if_splits)
  then show "mset es = mset entries" "sorted (map (\<lambda>e. code_units (i_path e)) es)" by simp_all
  have "mset (map i_path es) = mset (map i_path entries)" using es(1) by simp
  with es(2) show "distinct (map i_path es)" by (metis mset_eq_imp_distinct_iff)
qed

lemma code_units_append:
  assumes "utf8_valid p"
  shows "code_units (p @ q) = code_units p @ code_units q"
proof -
  obtain ps held where s: "utf8_scan p = (ps, held)" by force
  then have "held = []" using assms by (auto simp: utf8_valid_def utf8_pieces_def list_all_iff split: if_splits)
  then have "utf8_pieces (p @ q) = utf8_pieces p @ utf8_pieces q"
    using s utf8_scan_more [OF s, of q] by (auto simp: utf8_pieces_def split: prod.splits)
  then show ?thesis by (simp add: code_units_def code_points_def)
qed


lemma append_le_self: "xs @ ys \<le> xs \<Longrightarrow> ys = []" for xs :: "nat list"
  by (induction xs) simp_all

text \<open>Where a path is a proper beginning of another, it comes first.\<close>

lemma path_before_what_it_contains:
  assumes "inOrder entries = Inr es" and "\<forall>e \<in> set entries. utf8_valid (i_path e)"
    and "i < length es" "j < length es" "strict_prefix (i_path (es ! i)) (i_path (es ! j))"
  shows "i < j"
proof (rule ccontr)
  assume "\<not> i < j"
  then have "j \<le> i" by simp
  note facts = inOrder_facts [OF assms(1)]
  let ?u = "\<lambda>e. code_units (i_path e)"
  have v: "utf8_valid (i_path (es ! i))" using assms(2,3) facts(1) by (metis mset_eq_setD nth_mem)
  obtain q where q: "i_path (es ! j) = i_path (es ! i) @ q" "q \<noteq> []"
    using assms(5) by (auto simp: strict_prefix_def prefix_def)
  have "?u (es ! j) = ?u (es ! i) @ code_units q" using v q by (simp add: code_units_append)
  moreover have "?u (es ! j) \<le> ?u (es ! i)"
    using facts(3) \<open>j \<le> i\<close> assms(3) by (auto simp: sorted_iff_nth_mono)
  ultimately have "code_units q = []" using append_le_self by metis
  with q(2) show False by (simp add: code_units_Nil)
qed

end
