(* ===== verification/Seed.thy ===== *)
theory Seed
  imports Host_Files Archive_Zip Protocol "HOL-Library.Code_Target_Numeral"
begin

text \<open>
  The starting data of an app, unpacked on the host and written into a fresh filesystem
  (\<open>apps/agent/src/lib/volumes/seed.ts\<close>, \<open>ext4.ts\<close> and the download of \<open>apps/agent/src/lib/vm/artifacts.ts\<close>).

  An effect is a function of the files of the host (\<open>Host_Files\<close>). The archive is read as its readers list
  it. The block device and \<open>mkfs.ext4\<close> answer through the record \<open>Device\<close>, the object store through a
  stream; logging and spans carry no state.
\<close>

section \<open>Limits and refusals\<close>

definition TENANT :: Owner where "TENANT = \<lparr>uid = 65534, gid = 65534\<rparr>"
definition ARCHIVE_FILENAME :: name where "ARCHIVE_FILENAME = ascii ''archive.tar.gz''"
definition TREE_DIRECTORY :: name where "TREE_DIRECTORY = ascii ''tree''"
definition STAGING_MODE :: nat where "STAGING_MODE = 0x1C0"
definition DIRECTORY_MODE :: nat where "DIRECTORY_MODE = 0x1ED"
definition OWNER_ACCESS :: nat where "OWNER_ACCESS = 0x1C0"
definition BYTES_PER_GIB :: nat where "BYTES_PER_GIB = 1073741824"

record SeedLimits =
  maxBytes :: nat
  maxEntries :: nat

definition SEED_LIMITS :: SeedLimits where
  "SEED_LIMITS = \<lparr>maxBytes = 2 * BYTES_PER_GIB, maxEntries = 200000\<rparr>"

datatype seed_failure =
    SeedTooLarge nat
  | SeedTooManyEntries nat
  | SeedEntryRefused string
  | SeedUnreadable read_failure
  | PlatformError errno
  | ArtifactTransferError
  | DigestMismatch string string
  | ArtifactSizeMismatch nat nat
  | SuperblockUnreadable
  | CommandFailed

definition ABSOLUTE_PATH :: string where "ABSOLUTE_PATH = ''an entry whose path starts at the root of a filesystem''"
definition ESCAPING_PATH :: string where "ESCAPING_PATH = ''an entry whose path climbs out of the archive''"
definition THROUGH_A_SYMLINK :: string where "THROUGH_A_SYMLINK = ''an entry reached through a symlink''"
definition ESCAPING_LINK :: string where "ESCAPING_LINK = ''a symlink pointing out of the archive''"
definition NOT_A_FILE :: string where "NOT_A_FILE = ''something that is not a file, a directory or a symlink''"

record Roots =
  names :: "name set"
  root_files :: "name set"

record Unpacked =
  u_bytes :: nat
  u_entries :: nat
  u_symlinks :: "byte list set"
  u_roots :: Roots

definition EMPTY :: Unpacked where
  "EMPTY = \<lparr>u_bytes = 0, u_entries = 0, u_symlinks = {}, u_roots = \<lparr>names = {}, root_files = {}\<rparr>\<rparr>"

section \<open>Paths of an archive\<close>

definition starts_at_root :: "byte list \<Rightarrow> bool" where
  "starts_at_root path = (path \<noteq> [] \<and> hd path = SLASH)"

definition segmentsOf :: "byte list \<Rightarrow> name list option" where
  "segmentsOf path =
     (if starts_at_root path then None
      else let segments = filter (\<lambda>s. s \<noteq> [] \<and> s \<noteq> DOT) (js_split SLASH path) in
        if DOTDOT \<in> set segments then None else Some segments)"

definition joined :: "name list \<Rightarrow> byte list" where "joined segments = js_join [SLASH] segments"

definition reachedThroughSymlink :: "name list \<Rightarrow> byte list set \<Rightarrow> bool" where
  "reachedThroughSymlink segments symlinks =
     list_ex (\<lambda>depth. joined (take depth segments) \<in> symlinks) [1..<length segments]"

text \<open>\<open>posix.normalize\<close> and \<open>posix.join\<close> of \<open>node:path\<close>.\<close>

definition normalized_step :: "bool \<Rightarrow> name list \<Rightarrow> name \<Rightarrow> name list" where
  "normalized_step allowAboveRoot acc s =
     (if s = [] \<or> s = DOT then acc
      else if s = DOTDOT
      then (if acc \<noteq> [] \<and> last acc \<noteq> DOTDOT then butlast acc else if allowAboveRoot then acc @ [DOTDOT] else acc)
      else acc @ [s])"

definition posix_normalize :: "byte list \<Rightarrow> byte list" where
  "posix_normalize path =
     (if path = [] then DOT
      else let absolute = (hd path = SLASH); trailing = (last path = SLASH);
               text = joined (foldl (normalized_step (\<not> absolute)) [] (js_split SLASH path)) in
        if text = [] then (if absolute then [SLASH] else if trailing then DOT @ [SLASH] else DOT)
        else (if absolute then [SLASH] else []) @ text @ (if trailing then [SLASH] else []))"

definition posix_join :: "byte list list \<Rightarrow> byte list" where
  "posix_join parts =
     (let parts = filter (\<lambda>p. p \<noteq> []) parts in if parts = [] then DOT else posix_normalize (joined parts))"

definition pointsInside :: "name list \<Rightarrow> byte list \<Rightarrow> bool" where
  "pointsInside segments target =
     (if starts_at_root target then False
      else let resolved = posix_normalize (posix_join [joined (butlast segments), target]) in
        resolved \<noteq> DOTDOT \<and> \<not> prefix (DOTDOT @ [SLASH]) resolved)"

definition refusalFor :: "byte list \<Rightarrow> string" where
  "refusalFor path = (if starts_at_root path then ABSOLUTE_PATH else ESCAPING_PATH)"

section \<open>Writing an entry\<close>

abbreviation platform :: "(errno, 'a) io \<Rightarrow> (seed_failure, 'a) io" where
  "platform \<equiv> map_error PlatformError"

definition owned :: "Host \<Rightarrow> path \<Rightarrow> Owner \<Rightarrow> (seed_failure, unit) io" where
  "owned H p owner = platform (fs_chown H p owner)"

definition madeDirectory :: "Host \<Rightarrow> path \<Rightarrow> nat \<Rightarrow> Owner \<Rightarrow> (seed_failure, unit) io" where
  "madeDirectory H p mode owner = bind_io (platform (makeDirectory H p mode)) (\<lambda>_. owned H p owner)"

definition wroteFile :: "Host \<Rightarrow> ArchiveEntry \<Rightarrow> path \<Rightarrow> Owner \<Rightarrow> (seed_failure, unit) io" where
  "wroteFile H entry p owner =
     bind_io (madeDirectory H (butlast p) DIRECTORY_MODE owner) (\<lambda>_.
     bind_io (platform (fs_write H p (concat (fst (e_content entry))))) (\<lambda>_.
     case snd (e_content entry) of
       Some cause \<Rightarrow> fail_io (SeedUnreadable cause)
     | None \<Rightarrow> bind_io (platform (fs_chmod H p (e_mode entry))) (\<lambda>_. owned H p owner)))"

definition wroteSymlink :: "Host \<Rightarrow> ArchiveEntry \<Rightarrow> path \<Rightarrow> Owner \<Rightarrow> (seed_failure, unit) io" where
  "wroteSymlink H entry p owner =
     bind_io (madeDirectory H (butlast p) DIRECTORY_MODE owner) (\<lambda>_. platform (fs_symlink H (e_linkTarget entry) p))"

definition wroteEntry :: "Host \<Rightarrow> ArchiveEntry \<Rightarrow> name list \<Rightarrow> path \<Rightarrow> Owner \<Rightarrow> (seed_failure, unit) io" where
  "wroteEntry H entry segments destination owner =
     (let p = destination @ segments in
      if e_kind entry = KDirectory then madeDirectory H p (e_mode entry OR OWNER_ACCESS) owner
      else if e_kind entry = KFile then wroteFile H entry p owner
      else wroteSymlink H entry p owner)"

definition APPLE_DOUBLE_PREFIX :: name where "APPLE_DOUBLE_PREFIX = ascii ''._''"
definition ARCHIVER_LITTER :: "name list" where "ARCHIVER_LITTER = [ascii ''.DS_Store'', ascii ''__MACOSX'']"

definition addedByAnArchiver :: "name \<Rightarrow> bool" where
  "addedByAnArchiver n = (prefix APPLE_DOUBLE_PREFIX n \<or> n \<in> set ARCHIVER_LITTER)"

definition rootsWith :: "Roots \<Rightarrow> ArchiveEntry \<Rightarrow> name list \<Rightarrow> Roots" where
  "rootsWith roots entry segments =
     (case segments of
        [] \<Rightarrow> roots
      | n # _ \<Rightarrow>
          if addedByAnArchiver n then roots
          else let directory = (1 < length segments \<or> e_kind entry = KDirectory) in
            \<lparr>names = insert n (names roots),
             root_files = (if directory then root_files roots else insert n (root_files roots))\<rparr>)"

definition advanced :: "Unpacked \<Rightarrow> ArchiveEntry \<Rightarrow> name list \<Rightarrow> Unpacked" where
  "advanced unpacked entry segments =
     \<lparr>u_bytes = u_bytes unpacked + e_sizeBytes entry,
      u_entries = u_entries unpacked + 1,
      u_symlinks = (if e_kind entry = KSymlink then insert (joined segments) (u_symlinks unpacked) else u_symlinks unpacked),
      u_roots = rootsWith (u_roots unpacked) entry segments\<rparr>"

definition strippedRoot :: "path \<Rightarrow> Roots \<Rightarrow> path" where
  "strippedRoot tree roots =
     (if card (names roots) = 1 \<and> card (root_files roots) = 0 then tree @ [the_elem (names roots)] else tree)"

definition unpackedEntry ::
  "Host \<Rightarrow> Unpacked \<Rightarrow> ArchiveEntry \<Rightarrow> path \<Rightarrow> Owner \<Rightarrow> SeedLimits \<Rightarrow> (seed_failure, Unpacked) io" where
  "unpackedEntry H unpacked entry destination owner limits =
     (if e_kind entry = KUnsupported then fail_io (SeedEntryRefused NOT_A_FILE)
      else case segmentsOf (e_path entry) of
        None \<Rightarrow> fail_io (SeedEntryRefused (refusalFor (e_path entry)))
      | Some segments \<Rightarrow>
          if segments = [] then return_io unpacked
          else if reachedThroughSymlink segments (u_symlinks unpacked) then fail_io (SeedEntryRefused THROUGH_A_SYMLINK)
          else if e_kind entry = KSymlink \<and> \<not> pointsInside segments (e_linkTarget entry)
          then fail_io (SeedEntryRefused ESCAPING_LINK)
          else let next = advanced unpacked entry segments in
            if maxBytes limits < u_bytes next then fail_io (SeedTooLarge (maxBytes limits))
            else if maxEntries limits < u_entries next then fail_io (SeedTooManyEntries (maxEntries limits))
            else bind_io (wroteEntry H entry segments destination owner) (\<lambda>_. return_io next))"

fun unpackedEntries ::
  "Host \<Rightarrow> path \<Rightarrow> Owner \<Rightarrow> SeedLimits \<Rightarrow> ArchiveEntry list \<Rightarrow> Unpacked \<Rightarrow> (seed_failure, Unpacked) io" where
  "unpackedEntries H destination owner limits [] unpacked = return_io unpacked"
| "unpackedEntries H destination owner limits (entry # entries) unpacked =
     bind_io (unpackedEntry H unpacked entry destination owner limits)
       (unpackedEntries H destination owner limits entries)"

definition archiveEntries :: "Runtime \<Rightarrow> byte list \<Rightarrow> ArchiveEntry list \<times> read_failure option" where
  "archiveEntries R archive =
     (if take (length ZIP_MAGIC) archive = ZIP_MAGIC then zipEntries R archive else tarEntries (gunzipped R archive))"

record Seeded =
  s_bytes :: nat
  s_entries :: nat
  s_root :: path

definition unpackSeed ::
  "Host \<Rightarrow> Runtime \<Rightarrow> path \<Rightarrow> path \<Rightarrow> Owner \<Rightarrow> SeedLimits \<Rightarrow> (seed_failure, Seeded) io" where
  "unpackSeed H R archivePath destination owner limits =
     bind_io (platform (makeDirectory H destination STAGING_MODE)) (\<lambda>_.
     bind_io (owned H destination owner) (\<lambda>_ fs.
       case fs_readFile H archivePath fs of
         None \<Rightarrow> (fs, Inl (SeedUnreadable OtherFailure))
       | Some archive \<Rightarrow>
           (case archiveEntries R archive of (entries, ending) \<Rightarrow>
              bind_io (unpackedEntries H destination owner limits entries EMPTY) (\<lambda>unpacked.
              case ending of
                Some cause \<Rightarrow> fail_io (SeedUnreadable cause)
              | None \<Rightarrow>
                  return_io \<lparr>s_bytes = u_bytes unpacked, s_entries = u_entries unpacked,
                    s_root = strippedRoot destination (u_roots unpacked)\<rparr>) fs)))"


section \<open>Segments\<close>

definition clean :: "name \<Rightarrow> bool" where "clean s \<longleftrightarrow> plain s \<and> SLASH \<notin> set s"

lemma js_split_parts: "w \<in> set (js_split sep s) \<Longrightarrow> sep \<notin> set w"
proof (induction s arbitrary: w)
  case (Cons c s)
  then show ?case by (cases "js_split sep s") (auto split: if_splits)
qed simp

lemma segmentsOf_clean: "segmentsOf path = Some segments \<Longrightarrow> list_all clean segments"
  by (auto simp: segmentsOf_def clean_def plain_def list_all_iff Let_def split: if_splits dest: js_split_parts)

lemma js_split_joined:
  assumes "list_all clean (s # ss)"
  shows "js_split SLASH (joined (s # ss)) = s # ss"
  using assms
proof (induction ss arbitrary: s)
  case Nil
  then show ?case by (simp add: joined_def clean_def js_split_no_sep)
next
  case (Cons t ts)
  then show ?case by (simp add: joined_def clean_def js_split_append_sep)
qed

lemma joined_inj:
  assumes "list_all clean xs" "list_all clean ys" "joined xs = joined ys"
  shows "xs = ys"
proof -
  have "js_split SLASH (joined zs) = (if zs = [] then [[]] else zs)" if "list_all clean zs" for zs
    using that js_split_joined by (cases zs) (auto simp: joined_def)
  from this [OF assms(1)] this [OF assms(2)] assms(3)
  have "(if xs = [] then [[]] else xs) = (if ys = [] then [[]] else ys)" by metis
  then show ?thesis using assms(1,2) by (cases xs; cases ys) (auto simp: clean_def plain_def)
qed

lemma clean_plain: "list_all clean ss \<Longrightarrow> list_all plain ss"
  by (auto simp: list_all_iff clean_def)

text \<open>What is recorded of the links is what there is of them.\<close>

definition links_known :: "path \<Rightarrow> byte list set \<Rightarrow> files \<Rightarrow> bool" where
  "links_known destination symlinks fs \<longleftrightarrow>
     (\<forall>ss. is_link fs (destination @ ss) \<longrightarrow> list_all clean ss) \<and>
     symlinks = joined ` {ss. is_link fs (destination @ ss)}"

lemma not_reached_through:
  assumes "links_known destination symlinks fs" "list_all clean segments" "\<not> reachedThroughSymlink segments symlinks"
    and "strict_prefix q segments" "q \<noteq> []"
  shows "\<not> is_link fs (destination @ q)"
proof
  assume "is_link fs (destination @ q)"
  then have "joined q \<in> symlinks" using assms(1) by (auto simp: links_known_def)
  moreover obtain r where r: "segments = q @ r" "r \<noteq> []" using assms(4) by (auto simp: strict_prefix_def prefix_def)
  then have "joined (take (length q) segments) = joined q" "length q \<in> set [1..<length segments]"
    using assms(5) by (auto simp: Suc_le_eq)
  ultimately show False using assms(3) unfolding reachedThroughSymlink_def list_ex_iff by metis
qed

lemma known_link:
  assumes "links_known destination symlinks fs" "list_all clean segments"
  shows "joined segments \<in> symlinks \<longleftrightarrow> is_link fs (destination @ segments)"
  using assms joined_inj unfolding links_known_def by blast

section \<open>What writing an entry changes\<close>

text \<open>A place an entry can be written to: a destination that is there, with names that mean themselves and no
  link above the place.\<close>

definition open_place :: "path \<Rightarrow> name list \<Rightarrow> files \<Rightarrow> bool" where
  "open_place destination segments fs \<longleftrightarrow>
     list_all plain (destination @ segments) \<and> segments \<noteq> [] \<and>
     (\<forall>q. prefix q destination \<longrightarrow> is_directory fs q) \<and>
     (\<forall>q. strict_prefix q (destination @ segments) \<longrightarrow> \<not> is_link fs q)"

definition dir_made :: "path \<Rightarrow> path \<Rightarrow> Owner \<Rightarrow> files \<Rightarrow> files \<Rightarrow> bool" where
  "dir_made destination p owner fs fs' \<longleftrightarrow>
     (\<forall>q. fs' q = fs q \<or>
       (fs q = None \<and> strict_prefix destination q \<and> prefix q p \<and> is_directory fs' q) \<or>
       (q = p \<and> (\<exists>m w. fs q = Some (Directory m w) \<and> fs' q = Some (Directory m owner))))"

lemma madeDirectory_literal:
  assumes "list_all plain p" "\<forall>q. prefix q destination \<longrightarrow> is_directory fs q" "prefix destination p"
    and "\<forall>q. prefix q p \<longrightarrow> \<not> is_link fs q" "madeDirectory H p mode owner fs = (fs', r)"
  shows "dir_made destination p owner fs fs' \<and>
    (r = Inr () \<longrightarrow> (\<forall>q. prefix q p \<longrightarrow> is_directory fs' q) \<and> (\<exists>m. fs' p = Some (Directory m owner)))"
proof -
  let ?m = "and_not mode (umask H)"
  obtain fs1 r1 where run: "makeDirectory H p mode fs = (fs1, r1)" by force
  have root: "is_directory fs []" using assms(2) by simp
  note m = makeDirectory_literal [OF assms(1) root assms(4) run]
  have between: "strict_prefix destination q" if "fs q = None" "prefix q p" for q
    using that assms(2,3) prefix_same_cases [of q p destination] by (auto simp: strict_prefix_def is_directory_iff)
  have first: "fs1 q = fs q \<or> (fs q = None \<and> strict_prefix destination q \<and> prefix q p \<and> is_directory fs1 q)" for q
    using madeD [OF m(1), of q] between [of q] by (auto simp: is_directory_iff)
  show ?thesis
  proof (cases r1)
    case (Inl e)
    then have e: "fs' = fs1" "r = Inl (PlatformError e)"
      using assms(5) run by (simp_all add: madeDirectory_def bind_io_def map_error_def)
    then show ?thesis using first by (simp add: dir_made_def) blast
  next
    case (Inr u)
    then have dirs: "\<forall>q. prefix q p \<longrightarrow> is_directory fs1 q" using m(2) by simp
    obtain fs2 r2 where chown: "fs_chown H p owner fs1 = (fs2, r2)" by force
    have e: "fs' = fs2" "r = map_sum PlatformError id r2"
      using assms(5) run Inr chown by (simp_all add: madeDirectory_def owned_def bind_io_def map_error_def)
    have "below_directories fs1 p" "\<not> is_link fs1 p"
      using dirs by (auto simp: below_directories_def strict_prefix_def directory_not_link)
    from change_literal [OF assms(1) this chown [unfolded fs_chown_def]]
    consider (failed) e where "r2 = Inl e" "fs2 = fs1"
      | (given) n where "fs1 p = Some n" "fs2 = fs1(p \<mapsto> with_owner owner n)" "r2 = Inr ()" by blast
    then show ?thesis
    proof cases
      case failed
      then show ?thesis using first e by (simp add: dir_made_def) blast
    next
      case given
      have "is_directory fs1 p" using dirs by simp
      then obtain m w where n: "n = Directory m w" using given(1) by (auto simp: is_directory_iff)
      have at_p: "fs' p = Some (Directory m owner)" and off_p: "q \<noteq> p \<Longrightarrow> fs' q = fs1 q" for q
        using e(1) given(2) n by auto
      have "dir_made destination p owner fs fs'"
        unfolding dir_made_def
      proof
        fix q
        show "fs' q = fs q \<or> (fs q = None \<and> strict_prefix destination q \<and> prefix q p \<and> is_directory fs' q) \<or>
          (q = p \<and> (\<exists>m w. fs q = Some (Directory m w) \<and> fs' q = Some (Directory m owner)))"
        proof (cases "q = p")
          case True
          then show ?thesis using first [of p] at_p given(1) n by (elim disjE conjE) (simp_all add: is_directory_iff)
        next
          case False
          then show ?thesis using first [of q] off_p [of q] by (auto simp: is_directory_iff)
        qed
      qed
      moreover have "\<forall>q. prefix q p \<longrightarrow> is_directory fs' q"
        using dirs at_p off_p by (metis is_directory_iff)
      ultimately show ?thesis using at_p by blast
    qed
  qed
qed


text \<open>Around the place nothing changes but directories above it that were missing and the owner of the one it
  is in.\<close>

definition around :: "path \<Rightarrow> path \<Rightarrow> Owner \<Rightarrow> files \<Rightarrow> files \<Rightarrow> bool" where
  "around destination p owner fs fs' \<longleftrightarrow>
     (\<forall>q. q \<noteq> p \<longrightarrow> fs' q = fs q \<or>
       (fs q = None \<and> strict_prefix destination q \<and> strict_prefix q p \<and> is_directory fs' q) \<or>
       (q = butlast p \<and> (\<exists>m w. fs q = Some (Directory m w) \<and> fs' q = Some (Directory m owner))))"

definition as_packed :: "Owner \<Rightarrow> ArchiveEntry \<Rightarrow> node \<Rightarrow> bool" where
  "as_packed owner entry n \<longleftrightarrow>
     (case e_kind entry of
        KFile \<Rightarrow> n = RegularFile (e_mode entry) owner (concat (fst (e_content entry))) \<and> snd (e_content entry) = None
      | KDirectory \<Rightarrow> (\<exists>m. n = Directory m owner)
      | KSymlink \<Rightarrow> n = SymbolicLink (e_linkTarget entry)
      | KUnsupported \<Rightarrow> False)"

lemma dir_made_around: "dir_made destination p owner fs fs' \<Longrightarrow> around destination p owner fs fs'"
  unfolding dir_made_def around_def strict_prefix_def by metis

lemma dir_made_link: "dir_made destination p owner fs fs' \<Longrightarrow> is_link fs' q \<longleftrightarrow> is_link fs q"
  unfolding dir_made_def
  by (drule spec [of _ q], elim disjE conjE exE) (simp_all add: is_link_def is_directory_iff, auto)

lemma dir_made_directory: "dir_made destination p owner fs fs' \<Longrightarrow> is_directory fs q \<Longrightarrow> is_directory fs' q"
  unfolding dir_made_def by (drule spec [of _ q]) (auto simp: is_directory_iff)

lemma parent_around:
  assumes "dir_made destination (butlast p) owner fs fs1" "p \<noteq> []" "\<forall>q. q \<noteq> p \<longrightarrow> fs' q = fs1 q"
  shows "around destination p owner fs fs'"
  unfolding around_def
proof (intro allI impI)
  fix q
  assume "q \<noteq> p"
  have "strict_prefix (butlast p) p" using assms(2) by (metis append_butlast_last_id strict_prefixI')
  then have "strict_prefix q p" if "prefix q (butlast p)" using that prefix_order.le_less_trans by blast
  moreover have "fs' q = fs1 q" "is_directory fs' q \<longleftrightarrow> is_directory fs1 q"
    using assms(3) \<open>q \<noteq> p\<close> by (auto simp: is_directory_iff)
  ultimately show "fs' q = fs q \<or> (fs q = None \<and> strict_prefix destination q \<and> strict_prefix q p \<and> is_directory fs' q) \<or>
      (q = butlast p \<and> (\<exists>m w. fs q = Some (Directory m w) \<and> fs' q = Some (Directory m owner)))"
    using assms(1) unfolding dir_made_def by (metis (no_types))
qed

lemma parent_of_place:
  assumes "open_place destination segments fs"
    and "madeDirectory H (butlast (destination @ segments)) mode owner fs = (fs1, r)"
  shows "dir_made destination (butlast (destination @ segments)) owner fs fs1" (is ?made)
    and "r = Inr () \<Longrightarrow> below_directories fs1 (destination @ segments)"
    and "is_link fs1 q \<longleftrightarrow> is_link fs q"
proof -
  let ?d = "butlast (destination @ segments)"
  have d: "?d = destination @ butlast segments" "destination @ segments = ?d @ [last segments]"
    using assms(1) by (simp_all add: open_place_def butlast_append)
  have names: "list_all plain ?d" using assms(1) by (auto simp: open_place_def d(1) list_all_iff dest: in_set_butlastD)
  have links: "\<forall>q. prefix q ?d \<longrightarrow> \<not> is_link fs q"
    using assms(1) d(2) unfolding open_place_def by (metis prefix_order.le_less_trans strict_prefixI')
  have dirs: "\<forall>q. prefix q destination \<longrightarrow> is_directory fs q" using assms(1) by (simp add: open_place_def)
  note m = madeDirectory_literal [OF names dirs _ links assms(2)]
  show made: ?made using m d(1) by simp
  show "r = Inr () \<Longrightarrow> below_directories fs1 (destination @ segments)"
    using m d by (metis below_directories_snoc prefixI)
  show "is_link fs1 q \<longleftrightarrow> is_link fs q" by (rule dir_made_link [OF made])
qed

definition wrote :: "path \<Rightarrow> path \<Rightarrow> Owner \<Rightarrow> ArchiveEntry \<Rightarrow> files \<Rightarrow> files \<times> (seed_failure, unit) result \<Rightarrow> bool" where
  "wrote destination p owner entry fs outcome \<longleftrightarrow>
     (case outcome of (fs', r) \<Rightarrow>
        around destination p owner fs fs' \<and>
        (is_directory fs p \<longrightarrow> is_directory fs' p) \<and>
        (is_link fs' p \<longleftrightarrow> is_link fs p \<or> (r = Inr () \<and> e_kind entry = KSymlink)) \<and>
        (r = Inr () \<longrightarrow> (\<exists>n. fs' p = Some n \<and> as_packed owner entry n) \<and> below_directories fs' p))"

text \<open>Steps on the place alone, after its directory was made.\<close>

lemma on_place:
  assumes "dir_made destination (butlast p) owner fs fs1" "p \<noteq> []" "\<forall>q. q \<noteq> p \<longrightarrow> fs' q = fs1 q"
    and "is_directory fs1 p \<longrightarrow> is_directory fs' p"
    and "is_link fs' p \<longleftrightarrow> is_link fs1 p \<or> (r = Inr () \<and> e_kind entry = KSymlink)"
    and "r = Inr () \<longrightarrow> (\<exists>n. fs' p = Some n \<and> as_packed owner entry n)" and "r = Inr () \<longrightarrow> below_directories fs1 p"
  shows "wrote destination p owner entry fs (fs', r)"
proof -
  have "below_directories fs' p" if "below_directories fs1 p"
    using that assms(3) by (auto simp: below_directories_def is_directory_def strict_prefix_def)
  then show ?thesis
    using parent_around [OF assms(1-3)] assms(4-7) dir_made_directory [OF assms(1), of p] dir_made_link [OF assms(1), of p]
    unfolding wrote_def by auto
qed

lemma place_untouched:
  assumes "dir_made destination (butlast p) owner fs fs1" "p \<noteq> []"
  shows "wrote destination p owner entry fs (fs1, Inl e)"
  by (rule on_place [OF assms]) simp_all

lemma wroteSymlink_literal:
  assumes "open_place destination segments fs" and "e_kind entry = KSymlink"
    and "wroteSymlink H entry (destination @ segments) owner fs = (fs', r)"
  shows "wrote destination (destination @ segments) owner entry fs (fs', r)"
proof -
  let ?p = "destination @ segments"
  obtain fs1 r1 where run: "madeDirectory H (butlast ?p) DIRECTORY_MODE owner fs = (fs1, r1)" by force
  note parent = parent_of_place [OF assms(1) run]
  have p: "?p \<noteq> []" "list_all plain ?p" using assms(1) by (simp_all add: open_place_def)
  show ?thesis
  proof (cases r1)
    case (Inl e)
    then have "fs' = fs1" "r = Inl e" using assms(3) run by (simp_all add: wroteSymlink_def bind_io_def)
    then show ?thesis using place_untouched [OF parent(1) p(1)] by simp
  next
    case (Inr u)
    obtain fs2 r2 where sl: "fs_symlink H (e_linkTarget entry) ?p fs1 = (fs2, r2)" by force
    have e: "fs' = fs2" "r = map_sum PlatformError id r2"
      using assms(3) run Inr sl by (simp_all add: wroteSymlink_def bind_io_def map_error_def)
    from symlink_literal [OF p(2) parent(2) sl] Inr
    consider (failed) e where "r2 = Inl e" "fs2 = fs1"
      | (made) "fs1 ?p = None" "fs2 = fs1(?p \<mapsto> SymbolicLink (e_linkTarget entry))" "r2 = Inr ()" by auto
    then show ?thesis
    proof cases
      case made
      show ?thesis
        by (rule on_place [OF parent(1) p(1)])
          (use made e assms(2) Inr parent(2) in \<open>simp_all add: is_link_def is_directory_iff as_packed_def\<close>)
    qed (use e place_untouched [OF parent(1) p(1)] in simp)
  qed
qed

lemma settle_file:
  assumes "list_all plain p" "below_directories fs p" "fs p = Some (RegularFile mode0 who0 bytes)"
    and "bind_io (platform (fs_chmod H p mode)) (\<lambda>_. owned H p owner) fs = (fs', r)"
  shows "\<exists>mode1 who1. fs' = fs(p \<mapsto> RegularFile mode1 who1 bytes) \<and> (r = Inr () \<longrightarrow> mode1 = mode \<and> who1 = owner)"
proof -
  have nl: "\<not> is_link fs p" using assms(3) by (simp add: is_link_def)
  obtain fs1 r1 where chmod: "fs_chmod H p mode fs = (fs1, r1)" by force
  from change_literal [OF assms(1,2) nl chmod [unfolded fs_chmod_def]]
  consider (failed) e where "r1 = Inl e" "fs1 = fs" | (set) "fs1 = fs(p \<mapsto> RegularFile mode who0 bytes)" "r1 = Inr ()"
    using assms(3) by auto
  then show ?thesis
  proof cases
    case failed
    then have "fs' = fs" "r \<noteq> Inr ()" using assms(4) chmod by (auto simp: bind_io_def map_error_def)
    then show ?thesis using assms(3) by (intro exI [of _ mode0] exI [of _ who0]) (simp add: fun_upd_idem)
  next
    case set
    have below: "below_directories fs1 p"
      using assms(2) unfolding below_directories_def set(1) by (auto simp: is_directory_iff)
    have nl1: "\<not> is_link fs1 p" using set(1) by (simp add: is_link_def)
    obtain fs2 r2 where chown: "fs_chown H p owner fs1 = (fs2, r2)" by force
    have e: "fs' = fs2" "r = map_sum PlatformError id r2"
      using assms(4) chmod set(2) chown by (simp_all add: bind_io_def owned_def map_error_def)
    from change_literal [OF assms(1) below nl1 chown [unfolded fs_chown_def]]
    consider (failed) e where "r2 = Inl e" "fs2 = fs1" | (given) "fs2 = fs(p \<mapsto> RegularFile mode owner bytes)" "r2 = Inr ()"
      using set(1) by auto
    then show ?thesis
    proof cases
      case failed
      then show ?thesis using e set(1) by (intro exI [of _ mode] exI [of _ who0]) simp
    qed (use e in auto)
  qed
qed


lemma wroteFile_literal:
  assumes "open_place destination segments fs" and "e_kind entry = KFile" "\<not> is_link fs (destination @ segments)"
    and "wroteFile H entry (destination @ segments) owner fs = (fs', r)"
  shows "wrote destination (destination @ segments) owner entry fs (fs', r)"
proof -
  let ?p = "destination @ segments" and ?bytes = "concat (fst (e_content entry))"
  obtain fs1 r1 where run: "madeDirectory H (butlast ?p) DIRECTORY_MODE owner fs = (fs1, r1)" by force
  note parent = parent_of_place [OF assms(1) run]
  have p: "?p \<noteq> []" "list_all plain ?p" using assms(1) by (simp_all add: open_place_def)
  have nl: "\<not> is_link fs1 ?p" using assms(3) parent(3) by simp
  obtain fs2 r2 where wr: "fs_write H ?p ?bytes fs1 = (fs2, r2)" by force
  consider (no_parent) e where "r1 = Inl e" | (no_file) e where "r1 = Inr ()" "r2 = Inl e" "fs2 = fs1"
    | (written) m w where "r1 = Inr ()" "r2 = Inr ()" "fs2 = fs1(?p \<mapsto> RegularFile m w ?bytes)" "\<not> is_directory fs1 ?p"
    using write_literal [OF p(2) parent(2) nl wr] by (cases r1) auto
  then show ?thesis
  proof cases
    case no_parent
    then have "fs' = fs1" "r = Inl e" using assms(4) run by (simp_all add: wroteFile_def bind_io_def)
    then show ?thesis using place_untouched [OF parent(1) p(1)] by simp
  next
    case no_file
    then have "fs' = fs1" "r = Inl (PlatformError e)"
      using assms(4) run wr by (simp_all add: wroteFile_def bind_io_def map_error_def)
    then show ?thesis using place_untouched [OF parent(1) p(1)] by simp
  next
    case written
    have below: "below_directories fs2 ?p"
      using parent(2) [OF written(1)] written(3) by (auto simp: below_directories_def is_directory_iff)
    let ?settle = "bind_io (platform (fs_chmod H ?p (e_mode entry))) (\<lambda>_. owned H ?p owner) fs2"
    have rest: "(fs', r) =
        (case snd (e_content entry) of Some cause \<Rightarrow> (fs2, Inl (SeedUnreadable cause)) | None \<Rightarrow> ?settle)"
      using assms(4) run wr written(1,2)
      by (simp add: wroteFile_def bind_io_def map_error_def fail_io_def split: option.splits)
    have "\<exists>mode who. fs' = fs1(?p \<mapsto> RegularFile mode who ?bytes) \<and>
        (r = Inr () \<longrightarrow> mode = e_mode entry \<and> who = owner \<and> snd (e_content entry) = None)"
    proof (cases "snd (e_content entry)")
      case None
      then have "?settle = (fs', r)" using rest by simp
      from settle_file [OF p(2) below _ this] written(3) None show ?thesis by fastforce
    qed (use rest written(3) in auto)
    then obtain mode who where "fs' = fs1(?p \<mapsto> RegularFile mode who ?bytes)"
      "r = Inr () \<longrightarrow> mode = e_mode entry \<and> who = owner \<and> snd (e_content entry) = None" by blast
    then show ?thesis
      using written(1,4) nl assms(2) parent(2)
      by (intro on_place [OF parent(1) p(1)]) (simp_all add: is_link_def is_directory_iff as_packed_def)
  qed
qed

lemma wroteDirectory_literal:
  assumes "open_place destination segments fs" "e_kind entry = KDirectory" "\<not> is_link fs (destination @ segments)"
    and "madeDirectory H (destination @ segments) mode owner fs = (fs', r)"
  shows "wrote destination (destination @ segments) owner entry fs (fs', r)"
proof -
  let ?p = "destination @ segments"
  have names: "list_all plain ?p" and dirs: "\<forall>q. prefix q destination \<longrightarrow> is_directory fs q"
    using assms(1) by (simp_all add: open_place_def)
  have links: "\<forall>q. prefix q ?p \<longrightarrow> \<not> is_link fs q"
    using assms(1,3) unfolding open_place_def strict_prefix_def by metis
  note m = madeDirectory_literal [OF names dirs prefixI [OF refl] links assms(4)]
  then have made: "dir_made destination ?p owner fs fs'" by simp
  show ?thesis
    unfolding wrote_def
    using dir_made_around [OF made] dir_made_directory [OF made, of ?p] dir_made_link [OF made, of ?p] m assms(2)
    by (auto simp: as_packed_def below_directories_def strict_prefix_def)
qed

lemma wroteEntry_literal:
  assumes "open_place destination segments fs" "e_kind entry \<noteq> KUnsupported"
    and "e_kind entry = KSymlink \<or> \<not> is_link fs (destination @ segments)"
    and "wroteEntry H entry segments destination owner fs = (fs', r)"
  shows "wrote destination (destination @ segments) owner entry fs (fs', r)"
  using assms wroteFile_literal [OF assms(1)] wroteSymlink_literal [OF assms(1)] wroteDirectory_literal [OF assms(1)]
  by (cases "e_kind entry") (auto simp: wroteEntry_def Let_def)


section \<open>The tree and nothing else\<close>

definition tree_ok :: "path \<Rightarrow> files \<Rightarrow> Unpacked \<Rightarrow> files \<Rightarrow> bool" where
  "tree_ok destination before unpacked fs \<longleftrightarrow>
     list_all plain destination \<and> (\<forall>q. prefix q destination \<longrightarrow> is_directory fs q) \<and>
     links_known destination (u_symlinks unpacked) fs \<and>
     (\<forall>q. \<not> prefix destination q \<longrightarrow> fs q = before q) \<and>
     finite (names (u_roots unpacked)) \<and> finite (root_files (u_roots unpacked)) \<and>
     (\<forall>n \<in> names (u_roots unpacked) - root_files (u_roots unpacked). is_directory fs (destination @ [n]))"

text \<open>No entry but a link names a path that an earlier entry made a link.\<close>

fun named_once :: "byte list set \<Rightarrow> ArchiveEntry list \<Rightarrow> bool" where
  "named_once links [] = True"
| "named_once links (e # es) =
     (case segmentsOf (e_path e) of
        None \<Rightarrow> True
      | Some segments \<Rightarrow>
          if segments = [] then named_once links es
          else (e_kind e = KSymlink \<or> joined segments \<notin> links) \<and>
            named_once (if e_kind e = KSymlink then insert (joined segments) links else links) es)"

lemma unpackedEntry_cases:
  assumes "unpackedEntry H u e destination owner limits fs = (fs', r)"
  obtains (refused) x where "fs' = fs" "r = Inl x"
  | (root) "fs' = fs" "r = Inr u" "segmentsOf (e_path e) = Some []"
  | (tried) segments r0 where "segmentsOf (e_path e) = Some segments" "segments \<noteq> []" "e_kind e \<noteq> KUnsupported"
      "\<not> reachedThroughSymlink segments (u_symlinks u)" "u_bytes u + e_sizeBytes e \<le> maxBytes limits"
      "u_entries u + 1 \<le> maxEntries limits" "wroteEntry H e segments destination owner fs = (fs', r0)"
      "r = map_sum id (\<lambda>_. advanced u e segments) r0"
proof -
  note defs = unpackedEntry_def fail_io_def return_io_def Let_def
  show ?thesis
  proof (cases "segmentsOf (e_path e)")
    case None
    then show ?thesis using assms refused by (auto simp: defs split: if_splits)
  next
    case (Some segments)
    show ?thesis
    proof (cases "e_kind e = KUnsupported \<or> segments = [] \<or> reachedThroughSymlink segments (u_symlinks u) \<or>
        (e_kind e = KSymlink \<and> \<not> pointsInside segments (e_linkTarget e)) \<or>
        maxBytes limits < u_bytes u + e_sizeBytes e \<or> maxEntries limits < u_entries u + 1")
      case True
      then show ?thesis
        using assms Some refused root by (auto simp: defs advanced_def split: if_splits)
    next
      case False
      obtain fs1 r0 where w: "wroteEntry H e segments destination owner fs = (fs1, r0)" by force
      then have "fs' = fs1" "r = map_sum id (\<lambda>_. advanced u e segments) r0"
        using assms Some False by (cases r0; auto simp: defs bind_io_def advanced_def split: if_splits)+
      then show ?thesis using tried [OF Some] False w by simp
    qed
  qed
qed

lemma open_place_of:
  assumes "tree_ok destination before u fs" "segmentsOf (e_path e) = Some segments" "segments \<noteq> []"
    and "\<not> reachedThroughSymlink segments (u_symlinks u)"
  shows "open_place destination segments fs"
proof -
  have clean: "list_all clean segments" using segmentsOf_clean [OF assms(2)] .
  have known: "links_known destination (u_symlinks u) fs" and dirs: "\<forall>q. prefix q destination \<longrightarrow> is_directory fs q"
    and names: "list_all plain destination"
    using assms(1) by (simp_all add: tree_ok_def)
  have "\<not> is_link fs q" if sp: "strict_prefix q (destination @ segments)" for q
  proof (cases "prefix q destination")
    case True
    then show ?thesis using dirs directory_not_link by blast
  next
    case False
    moreover have "prefix q (destination @ segments)" "q \<noteq> destination @ segments" using sp by (auto simp: strict_prefix_def)
    ultimately obtain ss where "q = destination @ ss" "prefix ss segments" by (auto simp: prefix_append)
    then have "q = destination @ ss" "ss \<noteq> []" "strict_prefix ss segments"
      using False \<open>q \<noteq> destination @ segments\<close> by (auto simp: strict_prefix_def)
    then show ?thesis using not_reached_through [OF known clean assms(4)] by simp
  qed
  then show ?thesis using names dirs clean_plain [OF clean] assms(3) by (simp add: open_place_def)
qed


lemma around_link: "around destination p owner fs fs' \<Longrightarrow> q \<noteq> p \<Longrightarrow> is_link fs' q \<longleftrightarrow> is_link fs q"
  unfolding around_def
  by (drule spec [of _ q], drule (1) mp, elim disjE conjE exE) (simp_all add: is_link_def is_directory_iff, auto)

lemma around_directory: "around destination p owner fs fs' \<Longrightarrow> q \<noteq> p \<Longrightarrow> is_directory fs q \<Longrightarrow> is_directory fs' q"
  unfolding around_def
  by (drule spec [of _ q], drule (1) mp, elim disjE conjE exE) (simp_all add: is_directory_iff)

lemma links_after:
  assumes "wrote destination (destination @ segments) owner e fs (fs', r)" "links_known destination links fs"
    and "list_all clean segments"
  shows "links_known destination (if r = Inr () \<and> e_kind e = KSymlink then insert (joined segments) links else links) fs'"
proof -
  let ?p = "destination @ segments"
  have link: "is_link fs' (destination @ ss) \<longleftrightarrow>
      is_link fs (destination @ ss) \<or> (ss = segments \<and> r = Inr () \<and> e_kind e = KSymlink)" for ss
    using assms(1) around_link [of destination ?p owner fs fs' "destination @ ss"] by (auto simp: wrote_def)
  then have "{ss. is_link fs' (destination @ ss)} = {ss. is_link fs (destination @ ss)} \<union>
      (if r = Inr () \<and> e_kind e = KSymlink then {segments} else {})" by auto
  then show ?thesis using assms(2,3) link by (auto simp: links_known_def)
qed

lemma rootsWith_names:
  assumes "list_all clean segments" "segments \<noteq> []"
  shows "names (rootsWith roots e segments) - root_files (rootsWith roots e segments) \<subseteq>
    (names roots - root_files roots) \<union> {n. n = hd segments \<and> (1 < length segments \<or> e_kind e = KDirectory)}"
    and "finite (names roots) \<Longrightarrow> finite (names (rootsWith roots e segments))"
    and "finite (root_files roots) \<Longrightarrow> finite (root_files (rootsWith roots e segments))"
  using assms(2) by (cases segments; auto simp: rootsWith_def Let_def)+

lemma root_directory:
  assumes "wrote destination (destination @ segments) owner e fs (fs', Inr ())" "segments \<noteq> []"
    and "1 < length segments \<or> e_kind e = KDirectory"
  shows "is_directory fs' (destination @ [hd segments])"
proof (cases "1 < length segments")
  case True
  then have "strict_prefix (destination @ [hd segments]) (destination @ segments)"
    using assms(2) by (cases segments) (auto simp: strict_prefix_def)
  then show ?thesis using assms(1) by (auto simp: wrote_def below_directories_def)
next
  case False
  then have "segments = [hd segments]" using assms(2) by (cases segments) auto
  then show ?thesis using assms False by (auto simp: wrote_def as_packed_def is_directory_iff split: ArchiveEntryKind.splits)
qed

lemma tree_kept:
  assumes "tree_ok destination before u fs" "segmentsOf (e_path e) = Some segments" "segments \<noteq> []"
    and "wrote destination (destination @ segments) owner e fs (fs', r)"
  shows "tree_ok destination before (if r = Inr () then advanced u e segments else u) fs'"
proof -
  let ?p = "destination @ segments"
  note t = assms(1) [unfolded tree_ok_def]
  have clean: "list_all clean segments" using segmentsOf_clean [OF assms(2)] .
  have around: "around destination ?p owner fs fs'" and keep: "is_directory fs ?p \<longrightarrow> is_directory fs' ?p"
    using assms(4) by (auto simp: wrote_def)
  have dir: "is_directory fs' q" if "is_directory fs q" for q
    using around_directory [OF around, of q] keep that by (cases "q = ?p") auto
  have out: "fs' q = fs q" if "\<not> prefix destination q" for q
    using around that assms(3) unfolding around_def
    by (metis butlast_append prefixI prefix_order.less_imp_le)
  have links: "links_known destination (u_symlinks (if r = Inr () then advanced u e segments else u)) fs'"
    using links_after [OF assms(4) _ clean] t by (auto simp: advanced_def)
  have roots: "is_directory fs' (destination @ [n])"
    if "r = Inr ()" "n \<in> names (rootsWith (u_roots u) e segments) - root_files (rootsWith (u_roots u) e segments)" for n
    using that t rootsWith_names(1) [OF clean assms(3), of "u_roots u" e] dir root_directory [OF _ assms(3), of destination owner e fs fs'] assms(4)
    by blast
  show ?thesis
    unfolding tree_ok_def
    using t dir out links roots rootsWith_names(2,3) [OF clean assms(3)] by (auto simp: advanced_def)
qed

lemma unpackedEntry_kept:
  assumes "tree_ok destination before u fs" "unpackedEntry H u e destination owner limits fs = (fs', r)"
    and "named_once (u_symlinks u) (e # es)"
  shows "case r of
      Inl _ \<Rightarrow> tree_ok destination before u fs'
    | Inr u' \<Rightarrow> tree_ok destination before u' fs' \<and> named_once (u_symlinks u') es"
  using assms(2)
proof (cases rule: unpackedEntry_cases)
  case (tried segments r0)
  have clean: "list_all clean segments" using segmentsOf_clean [OF tried(1)] .
  have "links_known destination (u_symlinks u) fs" using assms(1) by (simp add: tree_ok_def)
  then have "e_kind e = KSymlink \<or> \<not> is_link fs (destination @ segments)"
    using assms(3) tried(1,2) known_link [OF _ clean] by (auto split: if_splits)
  then have "wrote destination (destination @ segments) owner e fs (fs', r0)"
    using wroteEntry_literal [OF open_place_of [OF assms(1) tried(1,2,4)] tried(3) _ tried(7)] by simp
  from tree_kept [OF assms(1) tried(1,2) this] show ?thesis
    using tried(1,2,8) assms(3) by (cases r0) (auto simp: advanced_def split: if_splits)
qed (use assms in auto)

lemma unpackedEntries_kept:
  "tree_ok destination before u fs \<Longrightarrow> named_once (u_symlinks u) es \<Longrightarrow>
    unpackedEntries H destination owner limits es u fs = (fs', r) \<Longrightarrow>
    case r of Inl _ \<Rightarrow> \<exists>u'. tree_ok destination before u' fs' | Inr u' \<Rightarrow> tree_ok destination before u' fs'"
proof (induction es arbitrary: u fs)
  case (Cons e es)
  obtain fs1 r1 where step: "unpackedEntry H u e destination owner limits fs = (fs1, r1)" by force
  note kept = unpackedEntry_kept [OF Cons.prems(1) step Cons.prems(2)]
  show ?case
  proof (cases r1)
    case (Inl x)
    then show ?thesis using kept step Cons.prems(3) by (auto simp: bind_io_def)
  next
    case (Inr u1)
    then have "unpackedEntries H destination owner limits es u1 fs1 = (fs', r)"
      using step Cons.prems(3) by (simp add: bind_io_def)
    then show ?thesis using Cons.IH [of u1 fs1] kept Inr by simp
  qed
qed (auto simp: return_io_def)


text \<open>The host before an unpack: a destination of plain names that no link leads to, with no link below it.\<close>

definition unlinked :: "path \<Rightarrow> files \<Rightarrow> bool" where
  "unlinked destination fs \<longleftrightarrow>
     list_all plain destination \<and> is_directory fs [] \<and> (\<forall>q. prefix q destination \<longrightarrow> \<not> is_link fs q) \<and>
     (\<forall>ss. \<not> is_link fs (destination @ ss))"

lemma tree_started:
  assumes "unlinked destination fs" "makeDirectory H destination mode fs = (fs1, r1)"
  shows "\<forall>q. \<not> prefix q destination \<longrightarrow> fs1 q = fs q"
    and "r1 = Inr () \<Longrightarrow> owned H destination owner fs1 = (fs2, r2) \<Longrightarrow>
      (\<forall>q. \<not> prefix q destination \<longrightarrow> fs2 q = fs q) \<and> tree_ok destination fs2 EMPTY fs2 \<and>
      (\<forall>q. is_directory fs q \<longrightarrow> is_directory fs2 q) \<and> (\<forall>q. fs q \<noteq> None \<longrightarrow> \<not> is_directory fs q \<longrightarrow> fs2 q = fs q)"
proof -
  note u = assms(1) [unfolded unlinked_def]
  have names: "list_all plain destination" and root: "is_directory fs []"
    and links: "\<forall>q. prefix q destination \<longrightarrow> \<not> is_link fs q" using u by auto
  note m = makeDirectory_literal [OF names root links assms(2)]
  show first: "\<forall>q. \<not> prefix q destination \<longrightarrow> fs1 q = fs q" using madeD [OF m(1)] by blast
  assume r1: "r1 = Inr ()" and chown: "owned H destination owner fs1 = (fs2, r2)"
  have dirs: "is_directory fs1 q" if "prefix q destination" for q using m(2) [OF r1 that] .
  then have below: "below_directories fs1 destination" "\<not> is_link fs1 destination"
    by (auto simp: below_directories_def strict_prefix_def directory_not_link)
  obtain r3 where c: "fs_chown H destination owner fs1 = (fs2, r3)"
    using chown by (cases "fs_chown H destination owner fs1") (auto simp: owned_def map_error_def)
  have "is_directory fs1 destination" using dirs by simp
  then obtain m w where "fs1 destination = Some (Directory m w)" by (auto simp: is_directory_iff)
  with change_literal [OF names below c [unfolded fs_chown_def]]
  have fs2: "fs2 = fs1 \<or> fs2 = fs1(destination \<mapsto> Directory m owner)" by auto
  have "\<forall>q. \<not> prefix q destination \<longrightarrow> fs2 q = fs q" using fs2 first by auto
  moreover have "is_directory fs2 q" if "prefix q destination" for q using fs2 dirs [OF that] by (auto simp: is_directory_iff)
  moreover have "\<not> is_link fs2 (destination @ ss)" for ss
  proof -
    have "\<not> is_link fs1 (destination @ ss)" using made_link [OF m(1)] u by simp
    then show ?thesis using fs2 by (auto simp: is_link_def split: if_splits)
  qed
  moreover have "is_directory fs2 q" if "is_directory fs q" for q
    using fs2 made_directory [OF m(1) that] by (auto simp: is_directory_iff)
  moreover have "fs2 q = fs q" if "fs q \<noteq> None" "\<not> is_directory fs q" for q
    using fs2 madeD [OF m(1), of q] that \<open>is_directory fs1 destination\<close> by (auto simp: is_directory_def)
  ultimately show "(\<forall>q. \<not> prefix q destination \<longrightarrow> fs2 q = fs q) \<and> tree_ok destination fs2 EMPTY fs2 \<and>
      (\<forall>q. is_directory fs q \<longrightarrow> is_directory fs2 q) \<and> (\<forall>q. fs q \<noteq> None \<longrightarrow> \<not> is_directory fs q \<longrightarrow> fs2 q = fs q)"
    using names by (simp add: tree_ok_def EMPTY_def links_known_def)
qed

lemma unpackSeed_cases:
  assumes "unpackSeed H R archivePath destination owner limits fs = (fs', r)"
  obtains (unmade) r1 where "makeDirectory H destination STAGING_MODE fs = (fs', r1)" "\<forall>s. r \<noteq> Inr s"
  | (unread) fs1 r2 where "makeDirectory H destination STAGING_MODE fs = (fs1, Inr ())" "owned H destination owner fs1 = (fs', r2)"
      "\<forall>s. r \<noteq> Inr s"
  | (unpacked) fs1 fs2 archive r3 where "makeDirectory H destination STAGING_MODE fs = (fs1, Inr ())"
      "owned H destination owner fs1 = (fs2, Inr ())" "fs_readFile H archivePath fs2 = Some archive"
      "unpackedEntries H destination owner limits (fst (archiveEntries R archive)) EMPTY fs2 = (fs', r3)"
      "\<forall>s. r = Inr s \<longrightarrow> (\<exists>u. r3 = Inr u \<and> snd (archiveEntries R archive) = None \<and>
         s = \<lparr>s_bytes = u_bytes u, s_entries = u_entries u, s_root = strippedRoot destination (u_roots u)\<rparr>)"
proof -
  obtain fs1 r1 where m: "makeDirectory H destination STAGING_MODE fs = (fs1, r1)" by force
  obtain fs2 r2 where o: "owned H destination owner fs1 = (fs2, r2)" by force
  show ?thesis
  proof (cases "isl r1 \<or> isl r2 \<or> fs_readFile H archivePath fs2 = None")
    case True
    then show ?thesis
      using assms m o unmade [of r1] unread [of fs1 r2]
      by (cases r1; cases r2) (auto simp: unpackSeed_def bind_io_def map_error_def)
  next
    case False
    then obtain archive where a: "r1 = Inr ()" "r2 = Inr ()" "fs_readFile H archivePath fs2 = Some archive"
      by (cases r1; cases r2) auto
    obtain entries ending where e: "archiveEntries R archive = (entries, ending)" by force
    obtain fs3 r3 where u: "unpackedEntries H destination owner limits entries EMPTY fs2 = (fs3, r3)" by force
    have "fs' = fs3" "\<forall>s. r = Inr s \<longrightarrow> (\<exists>u. r3 = Inr u \<and> ending = None \<and>
         s = \<lparr>s_bytes = u_bytes u, s_entries = u_entries u, s_root = strippedRoot destination (u_roots u)\<rparr>)"
      using assms m o a e u
      by (cases r3; auto simp: unpackSeed_def bind_io_def map_error_def return_io_def fail_io_def split: option.splits)+
    then show ?thesis using unpacked [of fs1 fs2 archive r3] m o a e u by simp
  qed
qed

lemma strippedRoot_directory:
  assumes "tree_ok destination before u fs"
  shows "is_directory fs (strippedRoot destination (u_roots u))"
proof -
  note t = assms [unfolded tree_ok_def]
  show ?thesis
  proof (cases "card (names (u_roots u)) = 1 \<and> card (root_files (u_roots u)) = 0")
    case True
    then obtain n where n: "names (u_roots u) = {n}" by (auto simp: card_1_singleton_iff)
    moreover have "root_files (u_roots u) = {}" using True t by simp
    ultimately show ?thesis using t by (simp add: strippedRoot_def)
  qed (use t in \<open>auto simp: strippedRoot_def\<close>)
qed

text \<open>An archive that lies on the host as a file.\<close>

definition stored_at :: "path \<Rightarrow> byte list \<Rightarrow> files \<Rightarrow> bool" where
  "stored_at p archive fs \<longleftrightarrow>
     list_all plain p \<and> below_directories fs p \<and> (\<exists>mode who. fs p = Some (RegularFile mode who archive))"

lemma archive_still_there:
  assumes "stored_at p archive fs" "fs_readFile H p fs2 = Some archive2"
    and "\<forall>q. is_directory fs q \<longrightarrow> is_directory fs2 q" "\<forall>q. fs q \<noteq> None \<longrightarrow> \<not> is_directory fs q \<longrightarrow> fs2 q = fs q"
  shows "archive2 = archive"
proof -
  obtain mode who where p: "list_all plain p" "below_directories fs p" "fs p = Some (RegularFile mode who archive)"
    using assms(1) by (auto simp: stored_at_def)
  have "fs2 p = Some (RegularFile mode who archive)" using assms(4) p(3) by (simp add: is_directory_def)
  with p(1) below_directories_mono [OF p(2)] assms(2,3) readFile_literal show ?thesis by blast
qed

lemma unpackSeed_kept:
  assumes "unlinked destination fs" and "stored_at archivePath archive fs"
    and "named_once {} (fst (archiveEntries R archive))"
    and "unpackSeed H R archivePath destination owner limits fs = (fs', r)"
  shows "\<forall>q. \<not> prefix destination q \<and> \<not> prefix q destination \<longrightarrow> fs' q = fs q"
    and "\<forall>s. r = Inr s \<longrightarrow> prefix destination (s_root s) \<and> is_directory fs' (s_root s)"
    and "\<forall>q. prefix q destination \<longrightarrow> is_directory fs q \<longrightarrow> is_directory fs' q"
proof -
  have "(\<forall>q. \<not> prefix destination q \<and> \<not> prefix q destination \<longrightarrow> fs' q = fs q) \<and>
    (\<forall>s. r = Inr s \<longrightarrow> prefix destination (s_root s) \<and> is_directory fs' (s_root s)) \<and>
    (\<forall>q. prefix q destination \<longrightarrow> is_directory fs q \<longrightarrow> is_directory fs' q)"
    using assms(4)
  proof (cases rule: unpackSeed_cases)
    case (unmade r1)
    have "\<forall>q. is_directory fs q \<longrightarrow> is_directory fs' q"
      using makeDirectory_literal(1) [OF _ _ _ unmade(1)] assms(1) made_directory unfolding unlinked_def by blast
    then show ?thesis using tree_started(1) [OF assms(1) unmade(1)] unmade(2) by blast
  next
    case (unread fs1 r2)
    then show ?thesis using tree_started(2) [OF assms(1) unread(1) refl unread(2)] by blast
  next
    case (unpacked fs1 fs2 archive2 r3)
    note start = tree_started(2) [OF assms(1) unpacked(1) refl unpacked(2)]
    then have "archive2 = archive" using archive_still_there [OF assms(2) unpacked(3)] by blast
    then have "named_once (u_symlinks EMPTY) (fst (archiveEntries R archive2))" using assms(3) by (simp add: EMPTY_def)
    note kept = unpackedEntries_kept [OF _ this unpacked(4), of fs2]
    have "(\<forall>q. \<not> prefix destination q \<longrightarrow> fs' q = fs2 q) \<and> (\<forall>q. prefix q destination \<longrightarrow> is_directory fs' q)"
      using kept start by (auto simp: tree_ok_def split: sum.splits)
    moreover have "prefix destination (s_root s) \<and> is_directory fs' (s_root s)" if "r = Inr s" for s
      using unpacked(5) kept start strippedRoot_directory that by (fastforce simp: strippedRoot_def)
    ultimately show ?thesis using start by metis
  qed
  then show "\<forall>q. \<not> prefix destination q \<and> \<not> prefix q destination \<longrightarrow> fs' q = fs q"
    and "\<forall>s. r = Inr s \<longrightarrow> prefix destination (s_root s) \<and> is_directory fs' (s_root s)"
    and "\<forall>q. prefix q destination \<longrightarrow> is_directory fs q \<longrightarrow> is_directory fs' q" by blast+
qed

text \<open>
  C11. Unpacking an archive touches nothing but the tree it was given, whether it succeeds or fails: where no
  link leads to the tree or lies in it, and no file or directory of the archive is named like a link in
  front of it, every path that is not in the tree, nor a directory above it, is left as it was. What the
  filesystem is then written from is a directory of the tree, never a link.
\<close>

theorem seed_stays_in_its_tree:
  assumes "unlinked destination fs" and "stored_at archivePath archive fs"
    and "named_once {} (fst (archiveEntries R archive))"
    and "unpackSeed H R archivePath destination owner limits fs = (fs', r)"
  shows "(\<forall>q. \<not> prefix destination q \<and> \<not> prefix q destination \<longrightarrow> fs' q = fs q) \<and>
    (\<forall>s. r = Inr s \<longrightarrow> prefix destination (s_root s) \<and> is_directory fs' (s_root s))"
  using unpackSeed_kept(1,2) [OF assms] by blast

section \<open>What the tree holds\<close>

definition packed_at :: "path \<Rightarrow> Owner \<Rightarrow> ArchiveEntry \<Rightarrow> files \<Rightarrow> bool" where
  "packed_at destination owner e fs \<longleftrightarrow>
     (\<forall>segments. segmentsOf (e_path e) = Some segments \<longrightarrow> segments \<noteq> [] \<longrightarrow>
       (\<exists>n. fs (destination @ segments) = Some n \<and> as_packed owner e n))"

definition only_packed :: "path \<Rightarrow> ArchiveEntry list \<Rightarrow> files \<Rightarrow> bool" where
  "only_packed destination es fs \<longleftrightarrow>
     (\<forall>ss. ss \<noteq> [] \<longrightarrow> fs (destination @ ss) \<noteq> None \<longrightarrow>
       (\<exists>e \<in> set es. \<exists>segments. segmentsOf (e_path e) = Some segments \<and> prefix ss segments))"

lemma packed_at_kept:
  assumes "wrote destination (destination @ segments) owner e fs (fs', r)" "packed_at destination owner d fs"
    and "segmentsOf (e_path d) \<noteq> Some segments"
  shows "packed_at destination owner d fs'"
  unfolding packed_at_def
proof (intro allI impI)
  fix ss
  assume ss: "segmentsOf (e_path d) = Some ss" "ss \<noteq> []"
  then obtain n where n: "fs (destination @ ss) = Some n" "as_packed owner d n"
    using assms(2) by (auto simp: packed_at_def)
  have "destination @ ss \<noteq> destination @ segments" using assms(3) ss(1) by auto
  moreover have "around destination (destination @ segments) owner fs fs'" using assms(1) by (simp add: wrote_def)
  ultimately have "fs' (destination @ ss) = fs (destination @ ss) \<or>
      (\<exists>m w. fs (destination @ ss) = Some (Directory m w) \<and> fs' (destination @ ss) = Some (Directory m owner))"
    using n(1) unfolding around_def by (metis option.distinct(1))
  then show "\<exists>n. fs' (destination @ ss) = Some n \<and> as_packed owner d n"
    using n by (auto simp: as_packed_def split: ArchiveEntryKind.splits)
qed

lemma only_packed_kept:
  assumes "wrote destination (destination @ segments) owner e fs (fs', r)" "only_packed destination ds fs"
    and "segmentsOf (e_path e) = Some segments"
  shows "only_packed destination (e # ds) fs'"
  unfolding only_packed_def
proof (intro allI impI)
  fix ss
  assume ss: "ss \<noteq> []" "fs' (destination @ ss) \<noteq> None"
  show "\<exists>e \<in> set (e # ds). \<exists>segments. segmentsOf (e_path e) = Some segments \<and> prefix ss segments"
  proof (cases "prefix ss segments")
    case True
    then show ?thesis using assms(3) by auto
  next
    case False
    have "around destination (destination @ segments) owner fs fs'" using assms(1) by (simp add: wrote_def)
    moreover have "destination @ ss \<noteq> destination @ segments" "\<not> strict_prefix (destination @ ss) (destination @ segments)"
      using False by (auto simp: strict_prefix_def)
    ultimately have "fs (destination @ ss) \<noteq> None" using ss(2) unfolding around_def by (metis option.distinct(1))
    then show ?thesis using assms(2) ss(1) by (auto simp: only_packed_def)
  qed
qed

lemma named_once_distinct:
  "distinct (map (\<lambda>e. segmentsOf (e_path e)) es) \<Longrightarrow>
    \<forall>e \<in> set es. \<forall>ss. segmentsOf (e_path e) = Some ss \<longrightarrow> ss \<noteq> [] \<longrightarrow> joined ss \<notin> links \<Longrightarrow> named_once links es"
proof (induction es arbitrary: links)
  case (Cons e es)
  show ?case
  proof (cases "segmentsOf (e_path e)")
    case (Some segments)
    have "joined ss \<notin> insert (joined segments) links"
      if "d \<in> set es" "segmentsOf (e_path d) = Some ss" "ss \<noteq> []" for d ss
    proof -
      have "ss \<noteq> segments" using Cons.prems(1) that Some by (auto simp: image_iff)
      then have "joined ss \<noteq> joined segments"
        using joined_inj segmentsOf_clean [OF that(2)] segmentsOf_clean [OF Some] by blast
      then show ?thesis using Cons.prems(2) that by auto
    qed
    then show ?thesis using Cons.IH Cons.prems Some by auto
  qed simp
qed simp

definition handed_over :: "ArchiveEntry list \<Rightarrow> nat" where
  "handed_over es = (\<Sum>e\<leftarrow>es. if segmentsOf (e_path e) = Some [] then 0 else length (concat (fst (e_content e))))"

lemma unpackedEntries_fill:
  assumes "tree_ok destination before u fs" "named_once (u_symlinks u) es" "list_all delivers es"
    and "distinct (map (\<lambda>e. segmentsOf (e_path e)) (ds @ es))" "list_all (\<lambda>d. packed_at destination owner d fs) ds"
    and "only_packed destination ds fs" "unpackedEntries H destination owner limits es u fs = (fs', Inr u')"
  shows "list_all (\<lambda>e. packed_at destination owner e fs') (ds @ es) \<and> only_packed destination (ds @ es) fs' \<and>
    u_bytes u + handed_over es \<le> u_bytes u' \<and>
    (u_bytes u \<le> maxBytes limits \<longrightarrow> u_bytes u' \<le> maxBytes limits) \<and>
    (u_entries u \<le> maxEntries limits \<longrightarrow> u_entries u' \<le> maxEntries limits)"
  using assms
proof (induction es arbitrary: u fs ds)
  case Nil
  then show ?case by (simp add: return_io_def handed_over_def)
next
  case (Cons e es)
  obtain fs1 r1 where step: "unpackedEntry H u e destination owner limits fs = (fs1, r1)" by force
  then obtain u1 where r1: "r1 = Inr u1" and rest: "unpackedEntries H destination owner limits es u1 fs1 = (fs', Inr u')"
    using Cons.prems(7) by (cases r1) (auto simp: bind_io_def)
  note kept = unpackedEntry_kept [OF Cons.prems(1) step Cons.prems(2), unfolded r1, simplified]
  have fill: "list_all (\<lambda>d. packed_at destination owner d fs1) (ds @ [e]) \<and> only_packed destination (ds @ [e]) fs1 \<and>
      u_bytes u + handed_over [e] \<le> u_bytes u1 \<and>
      (u_bytes u \<le> maxBytes limits \<longrightarrow> u_bytes u1 \<le> maxBytes limits) \<and>
      (u_entries u \<le> maxEntries limits \<longrightarrow> u_entries u1 \<le> maxEntries limits)"
    using step
  proof (cases rule: unpackedEntry_cases)
    case root
    then show ?thesis using Cons.prems(5,6) r1 by (auto simp: packed_at_def only_packed_def handed_over_def)
  next
    case (tried segments r0)
    have r0: "r0 = Inr ()" and u1: "u1 = advanced u e segments" using tried(8) r1 by (cases r0; auto)+
    have clean: "list_all clean segments" using segmentsOf_clean [OF tried(1)] .
    have "links_known destination (u_symlinks u) fs" using Cons.prems(1) by (simp add: tree_ok_def)
    then have "e_kind e = KSymlink \<or> \<not> is_link fs (destination @ segments)"
      using Cons.prems(2) tried(1,2) known_link [OF _ clean] by (auto split: if_splits)
    then have w: "wrote destination (destination @ segments) owner e fs (fs1, Inr ())"
      using wroteEntry_literal [OF open_place_of [OF Cons.prems(1) tried(1,2,4)] tried(3) _ tried(7)] r0 by simp
    have "segmentsOf (e_path d) \<noteq> Some segments" if "d \<in> set ds" for d
      using Cons.prems(4) that tried(1) by (auto simp: image_iff)
    then have "list_all (\<lambda>d. packed_at destination owner d fs1) ds"
      using Cons.prems(5) packed_at_kept [OF w] by (auto simp: list_all_iff)
    moreover have "packed_at destination owner e fs1" using w tried(1) by (auto simp: wrote_def packed_at_def)
    moreover have "only_packed destination (ds @ [e]) fs1"
      using only_packed_kept [OF w Cons.prems(6) tried(1)] by (auto simp: only_packed_def)
    moreover have "length (concat (fst (e_content e))) \<le> e_sizeBytes e" using Cons.prems(3) by (simp add: delivers_def)
    ultimately show ?thesis using tried(5,6) u1 by (auto simp: advanced_def handed_over_def)
  qed (use r1 in simp)
  have "list_all (\<lambda>e. packed_at destination owner e fs') ((ds @ [e]) @ es) \<and> only_packed destination ((ds @ [e]) @ es) fs' \<and>
    u_bytes u1 + handed_over es \<le> u_bytes u' \<and>
    (u_bytes u1 \<le> maxBytes limits \<longrightarrow> u_bytes u' \<le> maxBytes limits) \<and>
    (u_entries u1 \<le> maxEntries limits \<longrightarrow> u_entries u' \<le> maxEntries limits)"
    using Cons.prems(3,4) kept fill rest by (intro Cons.IH) simp_all
  then show ?case using fill by (auto simp: handed_over_def)
qed


lemma archiveEntries_deliver: "list_all delivers (fst (archiveEntries R archive))"
  by (simp add: archiveEntries_def zipEntries_deliver tarEntries_deliver)

definition paths_distinct :: "ArchiveEntry list \<Rightarrow> bool" where
  "paths_distinct es = distinct (map (\<lambda>e. segmentsOf (e_path e)) es)"

definition nothing_below :: "path \<Rightarrow> files \<Rightarrow> bool" where
  "nothing_below destination fs \<longleftrightarrow> (\<forall>ss. ss \<noteq> [] \<longrightarrow> fs (destination @ ss) = None)"

lemma unpackSeed_packs:
  assumes "unlinked destination fs" and "stored_at archivePath archive fs" and "nothing_below destination fs"
    and "paths_distinct (fst (archiveEntries R archive))"
    and "unpackSeed H R archivePath destination owner limits fs = (fs', Inr s)"
  shows "list_all (\<lambda>e. packed_at destination owner e fs') (fst (archiveEntries R archive)) \<and>
    only_packed destination (fst (archiveEntries R archive)) fs' \<and>
    handed_over (fst (archiveEntries R archive)) \<le> maxBytes limits \<and> s_entries s \<le> maxEntries limits \<and>
    (s_root s = destination \<or> (\<exists>n. s_root s = destination @ [n]))"
  using assms(5)
proof (cases rule: unpackSeed_cases)
  case (unpacked fs1 fs2 archive2 r3)
  let ?es = "fst (archiveEntries R archive)"
  note start = tree_started(2) [OF assms(1) unpacked(1) refl unpacked(2)]
  then have same: "archive2 = archive" using archive_still_there [OF assms(2) unpacked(3)] by blast
  have once: "named_once (u_symlinks EMPTY) ?es"
    using assms(4) named_once_distinct by (simp add: EMPTY_def paths_distinct_def)
  have "only_packed destination [] fs2"
    using start assms(3) by (auto simp: only_packed_def nothing_below_def)
  moreover obtain u where u: "unpackedEntries H destination owner limits ?es EMPTY fs2 = (fs', Inr u)"
      "s_bytes s = u_bytes u" "s_entries s = u_entries u" "s_root s = strippedRoot destination (u_roots u)"
    using unpacked(4,5) same by auto
  ultimately show ?thesis
    using unpackedEntries_fill [OF _ once archiveEntries_deliver, of destination fs2 fs2 "[]" owner H limits fs' u]
      start assms(4) by (auto simp: EMPTY_def paths_distinct_def strippedRoot_def)
qed simp_all

text \<open>
  C12. What a seed becomes is what was packed: when an archive that names no path twice was unpacked into an
  empty tree, every file is there with its bytes, its permissions and its owner, every directory with its
  owner and every link with its target, there is nothing else but the directories above them, and both the
  entries and the bytes of the files are within the limits.
\<close>

theorem seeded_as_packed:
  assumes "unlinked destination fs" and "stored_at archivePath archive fs" and "nothing_below destination fs"
    and "paths_distinct (fst (archiveEntries R archive))"
    and "unpackSeed H R archivePath destination owner limits fs = (fs', Inr s)"
  shows "list_all (\<lambda>e. packed_at destination owner e fs') (fst (archiveEntries R archive)) \<and>
    only_packed destination (fst (archiveEntries R archive)) fs' \<and>
    handed_over (fst (archiveEntries R archive)) \<le> maxBytes limits \<and> s_entries s \<le> maxEntries limits"
  using unpackSeed_packs [OF assms] by blast

section \<open>Examples\<close>

definition open_host :: Host where "open_host = \<lparr>umask = 0x12, refuses = (\<lambda>_ _. False)\<rparr>"

definition as_it_lies :: Runtime where
  "as_it_lies = \<lparr>streamed = (\<lambda>b. [b]), inflated = (\<lambda>b. ([b], None)), gunzipped = (\<lambda>b. ([b], None))\<rparr>"

definition packed_entry :: "string \<Rightarrow> ArchiveEntryKind \<Rightarrow> string \<Rightarrow> string \<Rightarrow> ArchiveEntry" where
  "packed_entry p kind link body =
     \<lparr>e_path = ascii p, e_kind = kind, e_mode = 0x1A4, e_sizeBytes = length body,
      e_linkTarget = ascii link, e_content = ([ascii body], None)\<rparr>"

definition staging :: path where "staging = [ascii ''seeds'']"
definition staged_archive :: path where "staged_archive = staging @ [ARCHIVE_FILENAME]"
definition staged_tree :: path where "staged_tree = staging @ [TREE_DIRECTORY]"
definition beside_the_tree :: path where "beside_the_tree = staging @ [ascii ''host'']"

definition staged :: "byte list \<Rightarrow> files" where
  "staged archive =
     [[] \<mapsto> Directory 0x1ED ROOT_USER, staging \<mapsto> Directory 0x1C0 ROOT_USER,
      staged_archive \<mapsto> RegularFile 0x180 ROOT_USER archive,
      beside_the_tree \<mapsto> RegularFile 0x180 ROOT_USER (ascii ''root'')]"

text \<open>Unpacking depends on the bytes of an entry, not on the pieces they come in.\<close>

lemma whole_fields [simp]:
  "e_path (whole e) = e_path e" "e_kind (whole e) = e_kind e" "e_mode (whole e) = e_mode e"
  "e_sizeBytes (whole e) = e_sizeBytes e" "e_linkTarget (whole e) = e_linkTarget e"
  "concat (fst (e_content (whole e))) = concat (fst (e_content e))" "snd (e_content (whole e)) = snd (e_content e)"
  by (simp_all add: whole_def)

lemma unpackedEntry_whole: "unpackedEntry H u (whole e) destination owner limits = unpackedEntry H u e destination owner limits"
proof -
  have "advanced u (whole e) = advanced u e" by (rule ext) (simp add: advanced_def rootsWith_def split: list.split)
  moreover have "wroteEntry H (whole e) = wroteEntry H e"
    by (intro ext) (cases "snd (e_content e)"; simp add: wroteEntry_def wroteFile_def wroteSymlink_def Let_def)
  ultimately show ?thesis by (simp add: unpackedEntry_def Let_def split: option.split)
qed

lemma unpackedEntries_whole:
  "unpackedEntries H destination owner limits (map whole es) = unpackedEntries H destination owner limits es"
  by (induction es) (intro ext, simp add: unpackedEntry_whole)+

lemma unpackedEntries_limits:
  "unpackedEntries H destination owner small es u fs = (fs', Inr u') \<Longrightarrow> maxBytes small \<le> maxBytes limits \<Longrightarrow>
    maxEntries small \<le> maxEntries limits \<Longrightarrow> unpackedEntries H destination owner limits es u fs = (fs', Inr u')"
proof (induction es arbitrary: u fs)
  case (Cons e es)
  obtain fs1 r1 where step: "unpackedEntry H u e destination owner small fs = (fs1, r1)" by force
  then obtain u1 where r1: "r1 = Inr u1" using Cons.prems(1) by (cases r1) (auto simp: bind_io_def)
  then have "unpackedEntry H u e destination owner limits fs = (fs1, Inr u1)"
    using step Cons.prems(2,3)
    by (auto simp: unpackedEntry_def fail_io_def Let_def split: if_splits option.splits)
  then show ?case using Cons step r1 by (simp add: bind_io_def)
qed simp

definition opened :: "Host \<Rightarrow> path \<Rightarrow> Owner \<Rightarrow> files \<Rightarrow> files" where
  "opened H destination owner fs = fst (owned H destination owner (fst (makeDirectory H destination STAGING_MODE fs)))"

definition opens :: "Host \<Rightarrow> path \<Rightarrow> Owner \<Rightarrow> files \<Rightarrow> bool" where
  "opens H destination owner fs \<longleftrightarrow>
     \<not> isl (snd (makeDirectory H destination STAGING_MODE fs)) \<and>
     \<not> isl (snd (owned H destination owner (fst (makeDirectory H destination STAGING_MODE fs))))"

lemma opened_runs:
  assumes "opens H destination owner fs"
  obtains fs1 where "makeDirectory H destination STAGING_MODE fs = (fs1, Inr ())"
    "owned H destination owner fs1 = (opened H destination owner fs, Inr ())"
proof -
  obtain fs1 r1 where m: "makeDirectory H destination STAGING_MODE fs = (fs1, r1)" by force
  obtain fs2 r2 where o: "owned H destination owner fs1 = (fs2, r2)" by force
  show ?thesis
    using that [of fs1] assms m o by (cases r1; cases r2) (auto simp: opens_def opened_def)
qed

lemma unpackSeed_tarball:
  assumes "list_all tar_plain es" "take (length ZIP_MAGIC) (tar_of es) \<noteq> ZIP_MAGIC"
    and "unlinked destination fs" "stored_at archivePath (tar_of es) fs" "opens H destination owner fs"
    and "\<not> refuses H (opened H destination owner fs) (ReadFile archivePath)"
    and "unpackedEntries H destination owner limits es EMPTY (opened H destination owner fs) = (fs', Inr u)"
  shows "unpackSeed H as_it_lies archivePath destination owner limits fs =
    (fs', Inr \<lparr>s_bytes = u_bytes u, s_entries = u_entries u, s_root = strippedRoot destination (u_roots u)\<rparr>)"
proof -
  let ?fs = "opened H destination owner fs"
  obtain fs1 where run: "makeDirectory H destination STAGING_MODE fs = (fs1, Inr ())" "owned H destination owner fs1 = (?fs, Inr ())"
    by (rule opened_runs [OF assms(5)])
  have "stored_at archivePath (tar_of es) ?fs"
    using assms(4) tree_started(2) [OF assms(3) run(1) refl run(2)] below_directories_mono [of fs archivePath ?fs]
    by (auto simp: stored_at_def is_directory_def)
  then have read: "fs_readFile H archivePath ?fs = Some (tar_of es)"
    using assms(6) by (auto simp: stored_at_def fs_readFile_def resolve_literal is_link_def)
  obtain entries ending where e: "tarEntries ([tar_of es], None) = (entries, ending)" by force
  have "map whole entries = es" "ending = None"
    using tar_of_read [OF assms(1), of None "[]"] tarEntries_listing [of "[tar_of es]" None] e by simp_all
  then have "unpackedEntries H destination owner limits entries EMPTY ?fs = (fs', Inr u)"
    using assms(7) unpackedEntries_whole [of H destination owner limits entries] by simp
  then show ?thesis
    using assms(2) run read e \<open>ending = None\<close>
    by (simp add: unpackSeed_def archiveEntries_def as_it_lies_def bind_io_def map_error_def return_io_def)
qed

lemma named_once_whole: "named_once links (map whole es) = named_once links es"
  by (induction es arbitrary: links) (simp_all split: option.split)

lemma paths_distinct_whole: "paths_distinct (map whole es) = paths_distinct es"
  by (simp add: paths_distinct_def comp_def)

lemma staged_names: "list_all plain staged_tree" "list_all plain staged_archive" "list_all plain beside_the_tree"
  by code_simp+

lemma staged_no_link: "\<not> is_link (staged archive) q"
  by (simp add: staged_def is_link_def)

lemma staged_paths:
  "staging \<noteq> []" "staged_tree \<noteq> []" "staged_archive \<noteq> []" "staged_tree \<noteq> staging" "staged_archive \<noteq> staging"
  "staged_tree \<noteq> staged_archive" "staged_tree \<noteq> beside_the_tree" "staged_archive \<noteq> beside_the_tree" "beside_the_tree \<noteq> staging"
  "beside_the_tree \<noteq> []"
  by code_simp+

lemma prefix_two: "prefix q [a, b] \<longleftrightarrow> q = [] \<or> q = [a] \<or> q = [a, b]"
  by (auto simp: prefix_Cons)

lemma staged_unlinked: "unlinked staged_tree (staged archive)"
proof -
  have "is_directory (staged archive) []" using staged_paths by (simp add: is_directory_def staged_def)
  then show ?thesis using staged_names(1) by (simp add: unlinked_def staged_no_link)
qed

lemma staged_stored: "stored_at staged_archive archive (staged archive)"
proof -
  have "is_directory (staged archive) []" "is_directory (staged archive) staging"
    using staged_paths by (simp_all add: is_directory_def staged_def)
  moreover have "staged archive staged_archive = Some (RegularFile 0x180 ROOT_USER archive)"
    using staged_paths by (simp add: staged_def)
  ultimately show ?thesis
    using staged_names(2)
    by (auto simp: stored_at_def below_directories_def strict_prefix_def staged_archive_def staging_def prefix_two)
qed

definition benign :: "ArchiveEntry list" where
  "benign =
     [packed_entry ''d'' KDirectory [] [], packed_entry ''d/f'' KFile [] ''hi'', packed_entry ''s'' KSymlink ''d/f'' []]"

definition escaping :: "ArchiveEntry list" where
  "escaping =
     [packed_entry ''a/b/l'' KSymlink ''../../z'' [], packed_entry ''z'' KDirectory [] [],
      packed_entry ''m'' KSymlink ''a/b/l/../../host'' [], packed_entry ''m'' KFile [] ''x'']"

definition undeclared :: "ArchiveEntry list" where
  "undeclared = [packed_entry ''a/b/f'' KFile [] ''x'', packed_entry ''g'' KFile [] ''y'']"

lemma examples_plain: "list_all tar_plain benign" "list_all tar_plain escaping" "list_all tar_plain undeclared"
  by code_simp+


definition SMALL :: SeedLimits where "SMALL = \<lparr>maxBytes = 4096, maxEntries = 4\<rparr>"

definition example_run :: "ArchiveEntry list \<Rightarrow> byte list \<Rightarrow> files \<times> (seed_failure, Unpacked) result" where
  "example_run es archive =
     unpackedEntries open_host staged_tree TENANT SMALL es EMPTY (opened open_host staged_tree TENANT (staged archive))"

lemma examples_tar: "list_all (\<lambda>es. es \<noteq> [] \<and> e_path (hd es) \<noteq> [] \<and> hd (e_path (hd es)) \<noteq> 0x50 \<and> length (e_path (hd es)) \<le> 100) [benign, escaping, undeclared]"
  by code_simp

lemma tar_of_no_zip:
  assumes "es \<noteq> []" "e_path (hd es) \<noteq> []" "hd (e_path (hd es)) \<noteq> 0x50" "length (e_path (hd es)) \<le> 100"
  shows "take (length ZIP_MAGIC) (tar_of es) \<noteq> ZIP_MAGIC"
proof -
  have "hd (tar_of es) = hd (e_path (hd es))" "tar_of es \<noteq> []"
    using assms by (cases es; cases "e_path (hd es)"; simp add: tar_of_def tar_entry_def header_block_def tar_field_def NAME_BYTES_def)+
  then show ?thesis using assms(3) by (cases "tar_of es") (auto simp: ZIP_MAGIC_def LOCAL_HEADER_def)
qed

lemma example_opens: "opens open_host staged_tree TENANT (staged archive)"
  by code_simp

lemma examples_no_zip:
  "take (length ZIP_MAGIC) (tar_of benign) \<noteq> ZIP_MAGIC" "take (length ZIP_MAGIC) (tar_of escaping) \<noteq> ZIP_MAGIC"
  "take (length ZIP_MAGIC) (tar_of undeclared) \<noteq> ZIP_MAGIC"
  using examples_tar by (simp_all add: tar_of_no_zip)

lemma example_unpacked:
  assumes "list_all tar_plain es" "take (length ZIP_MAGIC) (tar_of es) \<noteq> ZIP_MAGIC"
    and "\<not> isl (snd (example_run es (tar_of es)))"
  obtains s u where "unpackSeed open_host as_it_lies staged_archive staged_tree TENANT SEED_LIMITS (staged (tar_of es)) =
      (fst (example_run es (tar_of es)), Inr s)"
    "snd (example_run es (tar_of es)) = Inr u" "s_root s = strippedRoot staged_tree (u_roots u)"
proof -
  let ?fs = "opened open_host staged_tree TENANT (staged (tar_of es))"
  obtain fs' u where run: "example_run es (tar_of es) = (fs', Inr u)"
    using assms(3) by (cases "example_run es (tar_of es)"; cases "snd (example_run es (tar_of es))") auto
  have "unpackedEntries open_host staged_tree TENANT SEED_LIMITS es EMPTY ?fs = (fs', Inr u)"
    using run unpackedEntries_limits [of open_host staged_tree TENANT SMALL es EMPTY ?fs fs' u SEED_LIMITS]
    by (simp add: example_run_def SMALL_def SEED_LIMITS_def BYTES_PER_GIB_def)
  note unpacked = unpackSeed_tarball [OF assms(1,2) staged_unlinked staged_stored example_opens _ this]
  let ?s = "\<lparr>s_bytes = u_bytes u, s_entries = u_entries u, s_root = strippedRoot staged_tree (u_roots u)\<rparr>"
  show ?thesis by (rule that [of ?s u]) (use unpacked run in \<open>simp_all add: open_host_def\<close>)
qed

lemma escaping_run:
  "\<not> isl (snd (example_run escaping archive)) \<and>
   fst (example_run escaping archive) beside_the_tree = Some (RegularFile 0x1A4 TENANT (ascii ''x''))"
  by code_simp



lemma undeclared_run:
  "\<not> isl (snd (example_run undeclared archive)) \<and>
   fst (example_run undeclared archive) (staged_tree @ [ascii ''a'']) = Some (Directory 0x1ED ROOT_USER) \<and>
   strippedRoot staged_tree (u_roots (projr (snd (example_run undeclared archive)))) = staged_tree"
  by code_simp


lemma benign_run: "\<not> isl (snd (example_run benign archive))"
  by code_simp

lemma benign_entries:
  "named_once {} (fst (archiveEntries as_it_lies (tar_of benign)))" "paths_distinct (fst (archiveEntries as_it_lies (tar_of benign)))"
  "map whole (fst (archiveEntries as_it_lies (tar_of benign))) = benign"
proof -
  let ?es = "fst (archiveEntries as_it_lies (tar_of benign))"
  have "archiveEntries as_it_lies (tar_of benign) = tarEntries ([tar_of benign], None)"
    using examples_no_zip(1) by (simp add: archiveEntries_def as_it_lies_def)
  then show whole: "map whole ?es = benign"
    using tar_of_read [OF examples_plain(1), of None "[]"] tarEntries_listing [of "[tar_of benign]" None]
    by (metis append_Nil2 concat.simps fst_apfst fst_conv)
  have "named_once {} benign" "paths_distinct benign" by code_simp+
  then show "named_once {} ?es" "paths_distinct ?es"
    using named_once_whole [of "{}" ?es] paths_distinct_whole [of ?es] whole by simp_all
qed

theorem seed_stays_in_its_tree_witness:
  "fst (unpackSeed open_host as_it_lies staged_archive staged_tree TENANT SEED_LIMITS (staged (tar_of benign))) beside_the_tree =
    Some (RegularFile 0x180 ROOT_USER (ascii ''root''))"
proof -
  obtain fs' r where run: "unpackSeed open_host as_it_lies staged_archive staged_tree TENANT SEED_LIMITS (staged (tar_of benign)) = (fs', r)"
    by force
  have "\<not> prefix staged_tree beside_the_tree" "\<not> prefix beside_the_tree staged_tree" by code_simp+
  then have "fs' beside_the_tree = staged (tar_of benign) beside_the_tree"
    using seed_stays_in_its_tree [OF staged_unlinked staged_stored benign_entries(1) run] by blast
  then show ?thesis using run staged_paths by (simp add: staged_def)
qed

theorem seeded_as_packed_witness:
  "\<exists>fs' s. unpackSeed open_host as_it_lies staged_archive staged_tree TENANT SEED_LIMITS (staged (tar_of benign)) = (fs', Inr s) \<and>
    fs' (staged_tree @ [ascii ''d'', ascii ''f'']) = Some (RegularFile 0x1A4 TENANT (ascii ''hi''))"
proof -
  obtain s where run: "unpackSeed open_host as_it_lies staged_archive staged_tree TENANT SEED_LIMITS (staged (tar_of benign)) =
      (fst (example_run benign (tar_of benign)), Inr s)"
    by (rule example_unpacked [OF examples_plain(1) examples_no_zip(1) benign_run])
  have empty: "nothing_below staged_tree (staged (tar_of benign))"
    by (auto simp: nothing_below_def staged_def staged_tree_def staged_archive_def staging_def beside_the_tree_def)
  let ?e = "packed_entry ''d/f'' KFile [] ''hi''"
  have "list_all (\<lambda>e. packed_at staged_tree TENANT e (fst (example_run benign (tar_of benign)))) (fst (archiveEntries as_it_lies (tar_of benign)))"
    using seeded_as_packed [OF staged_unlinked staged_stored empty benign_entries(2) run] by blast
  moreover have "?e \<in> set (map whole (fst (archiveEntries as_it_lies (tar_of benign))))"
    unfolding benign_entries(3) by (simp add: benign_def)
  ultimately obtain e where e: "whole e = ?e" "packed_at staged_tree TENANT e (fst (example_run benign (tar_of benign)))"
    by (auto simp: list_all_iff)
  have "e_path e = ascii ''d/f''" "e_kind e = KFile" "e_mode e = 0x1A4" "concat (fst (e_content e)) = ascii ''hi''"
    using e(1) whole_fields [of e] by (simp_all add: packed_entry_def)
  moreover have "segmentsOf (ascii ''d/f'') = Some [ascii ''d'', ascii ''f'']" by code_simp
  ultimately have "fst (example_run benign (tar_of benign)) (staged_tree @ [ascii ''d'', ascii ''f'']) =
      Some (RegularFile 0x1A4 TENANT (ascii ''hi''))"
    using e(2) by (auto simp: packed_at_def as_packed_def)
  with run show ?thesis by blast
qed

end
