(* ===== verification/Volume_Format.thy ===== *)
theory Volume_Format
  imports Seed
begin

text \<open>
  A fresh filesystem on the device of a volume, empty or from the starting data of an app: \<open>ext4.ts\<close>, the
  download of \<open>apps/agent/src/lib/vm/artifacts.ts\<close> and \<open>formatFromSeed\<close> of \<open>seed.ts\<close>.

  The device answers each read of its superblock, the object store with a stream or not at all, and
  \<open>mkfs.ext4\<close> succeeds or fails; the digest of \<open>Bun.CryptoHasher\<close>, in hex, is the parameter \<open>sha\<close>. What a
  format writes is the tree under the directory it is given, as it is at that moment.
\<close>

section \<open>The device\<close>

definition MAGIC_BYTE_COUNT :: nat where "MAGIC_BYTE_COUNT = 2"
definition EXT_MAGIC :: nat where "EXT_MAGIC = 0xEF53"
definition HIGH_BYTE_SHIFT :: nat where "HIGH_BYTE_SHIFT = 8"
definition FILESYSTEM_LABEL :: string where "FILESYSTEM_LABEL = ''nibrun-data''"

definition hasExtMagic :: "byte list \<Rightarrow> bool" where
  "hasExtMagic bytes =
     (if length bytes < MAGIC_BYTE_COUNT then False
      else unat (bytes ! 0) OR push_bit HIGH_BYTE_SHIFT (unat (bytes ! 1)) = EXT_MAGIC)"

type_synonym image = "path \<rightharpoonup> node"

record Device =
  superblock :: "nat \<Rightarrow> (seed_failure, byte list) result"
  mkfs_succeeds :: "string list \<Rightarrow> bool"

text \<open>The \<open>n\<close>-th time the superblock is read: the bytes at its magic, or a failure or a timeout.\<close>

definition isFormatted :: "Device \<Rightarrow> nat \<Rightarrow> (seed_failure, bool) result" where
  "isFormatted D n = bind_result (superblock D n) (\<lambda>bytes. Inr (hasExtMagic bytes))"

definition shown_path :: "path \<Rightarrow> string" where
  "shown_path p = map (\<lambda>b. char_of (unat b)) (concat (map (\<lambda>n. SLASH # n) p))"

definition mkfsCommand :: "string \<Rightarrow> path option \<Rightarrow> string list" where
  "mkfsCommand devicePath seedDir =
     (case seedDir of
        None \<Rightarrow> [''mkfs.ext4'', ''-q'', ''-L'', FILESYSTEM_LABEL, devicePath]
      | Some dir \<Rightarrow> [''mkfs.ext4'', ''-q'', ''-d'', shown_path dir, ''-L'', FILESYSTEM_LABEL, devicePath])"

definition tree_at :: "path \<Rightarrow> files \<Rightarrow> image" where
  "tree_at dir fs = (\<lambda>p. if p = [] then None else fs (dir @ p))"

text \<open>Whether it formatted, and what the filesystem then holds.\<close>

definition format :: "Device \<Rightarrow> nat \<Rightarrow> string \<Rightarrow> path option \<Rightarrow> (seed_failure, image option) io" where
  "format D n devicePath seedDir fs =
     (case isFormatted D n of
        Inl e \<Rightarrow> (fs, Inl e)
      | Inr True \<Rightarrow> (fs, Inr None)
      | Inr False \<Rightarrow>
          if mkfs_succeeds D (mkfsCommand devicePath seedDir)
          then (fs, Inr (Some (case seedDir of None \<Rightarrow> Map.empty | Some dir \<Rightarrow> tree_at dir fs)))
          else (fs, Inl CommandFailed))"

section \<open>The archive\<close>

text \<open>The store answers \<open>None\<close> where it could not be opened, and otherwise with the chunks it sent and whether
  it sent them all. The transfer failing takes the file away again, and so does what it hashes to.\<close>

definition downloadAndVerify ::
  "Host \<Rightarrow> (byte list \<Rightarrow> string) \<Rightarrow> (byte list list \<times> bool) option \<Rightarrow> DesiredArtifact \<Rightarrow> path \<Rightarrow> (seed_failure, unit) io" where
  "downloadAndVerify H sha object artifact destination =
     (let discarded = (\<lambda>e. bind_io (ignore_io (fs_remove H destination)) (\<lambda>_. fail_io e));
          bytes = (case object of None \<Rightarrow> [] | Some (chunks, _) \<Rightarrow> concat chunks) in
      (\<lambda>fs. case fs_write H destination bytes fs of
         (fs, Inl e) \<Rightarrow> discarded (PlatformError e) fs
       | (fs, Inr _) \<Rightarrow>
           (if (case object of None \<Rightarrow> True | Some (_, sent) \<Rightarrow> \<not> sent) then discarded ArtifactTransferError fs
            else if sha bytes \<noteq> art_digest artifact then discarded (DigestMismatch (art_digest artifact) (sha bytes)) fs
            else if int (length bytes) \<noteq> art_sizeBytes artifact
            then discarded (ArtifactSizeMismatch (nat (art_sizeBytes artifact)) (length bytes)) fs
            else (fs, Inr ()))))"

definition volume_name :: "VolumeId \<Rightarrow> name" where "volume_name volumeId = ascii volumeId"

definition formatFromSeed ::
  "Host \<Rightarrow> Runtime \<Rightarrow> Device \<Rightarrow> (byte list \<Rightarrow> string) \<Rightarrow> (byte list list \<times> bool) option \<Rightarrow>
   path \<Rightarrow> string \<Rightarrow> VolumeId \<Rightarrow> DesiredArtifact \<Rightarrow> (seed_failure, image option) io" where
  "formatFromSeed H R D sha object seedStagingDir devicePath volumeId seed fs =
     (case isFormatted D 0 of
        Inl e \<Rightarrow> (fs, Inl e)
      | Inr True \<Rightarrow> (fs, Inr None)
      | Inr False \<Rightarrow>
          (let stagingDir = seedStagingDir @ [volume_name volumeId];
               archivePath = stagingDir @ [ARCHIVE_FILENAME];
               tree = stagingDir @ [TREE_DIRECTORY] in
           ensuring_io
             (bind_io (platform (makeDirectory H stagingDir STAGING_MODE)) (\<lambda>_.
              bind_io (downloadAndVerify H sha object seed archivePath) (\<lambda>_.
              bind_io (unpackSeed H R archivePath tree TENANT SEED_LIMITS) (\<lambda>unpacked.
              bind_io (platform (fs_remove H archivePath)) (\<lambda>_.
              format D 1 devicePath (Some (s_root unpacked)))))))
             (ignore_io (fs_remove H stagingDir)) fs))"

definition reapSeedStaging :: "Host \<Rightarrow> path \<Rightarrow> (seed_failure, unit) io" where
  "reapSeedStaging H seedStagingDir = ignore_io (fs_remove H seedStagingDir)"


section \<open>A filesystem from a seed\<close>

text \<open>What lies strictly below a directory may change, the directories above it stay.\<close>

definition only_below :: "path \<Rightarrow> files \<Rightarrow> files \<Rightarrow> bool" where
  "only_below dir fs fs' \<longleftrightarrow>
     (\<forall>q. prefix q dir \<longrightarrow> is_directory fs' q) \<and> (\<forall>q. \<not> prefix dir q \<and> \<not> prefix q dir \<longrightarrow> fs' q = fs q)"

lemma only_below_step:
  assumes "only_below dir fs fs1" "\<forall>q. \<not> strict_prefix dir q \<longrightarrow> fs2 q = fs1 q"
  shows "only_below dir fs fs2"
proof -
  have "\<not> strict_prefix dir q" if "prefix q dir" for q using that by (auto simp: strict_prefix_def)
  then show ?thesis using assms unfolding only_below_def is_directory_def by (metis prefix_order.less_imp_le)
qed

lemma below_of: "only_below dir fs fs' \<Longrightarrow> below_directories fs' (dir @ [n])"
  by (simp add: only_below_def below_directories_snoc)

lemma strictly_below: "prefix (dir @ [n]) q \<Longrightarrow> strict_prefix dir q"
  by (auto simp: strict_prefix_def dest: append_prefixD)

lemma remove_below:
  assumes "only_below dir fs fs1" "list_all plain (dir @ [n])"
  shows "only_below dir fs (fst (fs_remove H (dir @ [n]) fs1))"
  using remove_literal(1) [OF assms(2) below_of [OF assms(1)], of H]
proof
  assume "fst (fs_remove H (dir @ [n]) fs1) = (\<lambda>q. if prefix (dir @ [n]) q then None else fs1 q)"
  then show ?thesis using only_below_step [OF assms(1)] strictly_below by (metis (no_types, lifting))
qed (use assms(1) in simp)

lemma download_below:
  assumes "only_below dir fs fs1" "list_all plain (dir @ [n])" "fs1 (dir @ [n]) = None"
    and "downloadAndVerify H sha object artifact (dir @ [n]) fs1 = (fs2, r)"
  shows "only_below dir fs fs2"
    and "r = Inr () \<Longrightarrow> \<exists>chunks m w. object = Some (chunks, True) \<and> sha (concat chunks) = art_digest artifact \<and>
      int (length (concat chunks)) = art_sizeBytes artifact \<and> fs2 = fs1(dir @ [n] \<mapsto> RegularFile m w (concat chunks))"
proof -
  let ?bytes = "case object of None \<Rightarrow> [] | Some (chunks, _) \<Rightarrow> concat chunks"
  obtain fs3 r3 where wr: "fs_write H (dir @ [n]) ?bytes fs1 = (fs3, r3)" by force
  have nl: "\<not> is_link fs1 (dir @ [n])" using assms(3) by (simp add: is_link_def)
  have w: "fs3 = fs1 \<and> isl r3 \<or> (\<exists>m w. fs3 = fs1(dir @ [n] \<mapsto> RegularFile m w ?bytes)) \<and> r3 = Inr ()"
    using write_literal [OF assms(2) below_of [OF assms(1)] nl wr] by auto
  then have b3: "only_below dir fs fs3"
    using assms(1) by (auto intro!: only_below_step [OF assms(1)] simp: strict_prefix_def)
  note removed = remove_below [OF b3 assms(2), of H]
  note defs = downloadAndVerify_def Let_def bind_io_def ignore_io_def fail_io_def
  have outcome: "(fs2 = fst (fs_remove H (dir @ [n]) fs3) \<and> isl r) \<or> (fs2 = fs3 \<and> r = Inr () \<and> r3 = Inr () \<and>
      (\<exists>chunks. object = Some (chunks, True) \<and> sha (concat chunks) = art_digest artifact \<and>
        int (length (concat chunks)) = art_sizeBytes artifact))"
    using assms(4) wr by (cases r3; cases object) (auto simp: defs split: if_splits)
  then show "only_below dir fs fs2" using b3 removed by auto
  show "\<exists>chunks m w. object = Some (chunks, True) \<and> sha (concat chunks) = art_digest artifact \<and>
      int (length (concat chunks)) = art_sizeBytes artifact \<and> fs2 = fs1(dir @ [n] \<mapsto> RegularFile m w (concat chunks))"
    if "r = Inr ()"
  proof -
    from outcome that obtain chunks where c: "fs2 = fs3" "r3 = Inr ()" "object = Some (chunks, True)"
      "sha (concat chunks) = art_digest artifact" "int (length (concat chunks)) = art_sizeBytes artifact" by auto
    then obtain m w where "fs3 = fs1(dir @ [n] \<mapsto> RegularFile m w (concat chunks))" using w by auto
    then show ?thesis using c by blast
  qed
qed


text \<open>The one folder everything of an archive is packed in, when there is one, whatever an archiver added beside it
  apart. A lone file at the top is not a folder.\<close>

definition top_names :: "ArchiveEntry list \<Rightarrow> name set" where
  "top_names es = {n. \<exists>e \<in> set es. \<exists>ss. segmentsOf (e_path e) = Some (n # ss) \<and> \<not> addedByAnArchiver n}"

definition top_files :: "ArchiveEntry list \<Rightarrow> name set" where
  "top_files es = {n. \<exists>e \<in> set es. segmentsOf (e_path e) = Some [n] \<and> e_kind e \<noteq> KDirectory \<and> \<not> addedByAnArchiver n}"

definition packed_in :: "ArchiveEntry list \<Rightarrow> path \<Rightarrow> bool" where
  "packed_in es folder \<longleftrightarrow>
     (if (\<exists>n. top_names es = {n}) \<and> top_files es = {} then top_names es = set folder \<and> length folder = 1 else folder = [])"

lemma rootsWith_adds:
  "names (rootsWith roots e ss) = names roots \<union> {n. \<exists>rest. ss = n # rest \<and> \<not> addedByAnArchiver n}"
  "root_files (rootsWith roots e ss) =
     root_files roots \<union> {n. ss = [n] \<and> e_kind e \<noteq> KDirectory \<and> \<not> addedByAnArchiver n}"
  by (auto simp: rootsWith_def Let_def split: list.split)

lemma top_Cons:
  "top_names (e # es) = {n. \<exists>ss. segmentsOf (e_path e) = Some (n # ss) \<and> \<not> addedByAnArchiver n} \<union> top_names es"
  "top_files (e # es) =
     {n. segmentsOf (e_path e) = Some [n] \<and> e_kind e \<noteq> KDirectory \<and> \<not> addedByAnArchiver n} \<union> top_files es"
  by (auto simp: top_names_def top_files_def)

lemma top_files_finite: "finite (top_files es)"
proof (rule finite_subset)
  show "top_files es \<subseteq> (\<lambda>e. hd (the (segmentsOf (e_path e)))) ` set es"
    by (force simp: top_files_def image_iff)
qed simp

lemma unpackedEntries_names:
  "unpackedEntries H destination owner limits es u fs = (fs', Inr u') \<Longrightarrow>
    names (u_roots u') = names (u_roots u) \<union> top_names es \<and>
    root_files (u_roots u') = root_files (u_roots u) \<union> top_files es"
proof (induction es arbitrary: u fs)
  case Nil
  then show ?case by (auto simp: return_io_def top_names_def top_files_def)
next
  case (Cons e es)
  obtain fs1 r1 where step: "unpackedEntry H u e destination owner limits fs = (fs1, r1)" by force
  then obtain u1 where r1: "r1 = Inr u1" and rest: "unpackedEntries H destination owner limits es u1 fs1 = (fs', Inr u')"
    using Cons.prems by (cases r1) (auto simp: bind_io_def)
  have "names (u_roots u1) = names (u_roots u) \<union>
      {n. \<exists>rest. segmentsOf (e_path e) = Some (n # rest) \<and> \<not> addedByAnArchiver n} \<and>
    root_files (u_roots u1) = root_files (u_roots u) \<union>
      {n. segmentsOf (e_path e) = Some [n] \<and> e_kind e \<noteq> KDirectory \<and> \<not> addedByAnArchiver n}"
    using step
  proof (cases rule: unpackedEntry_cases)
    case (tried segments r0)
    then have "u1 = advanced u e segments" using r1 by (cases r0) auto
    then show ?thesis using tried(1) by (auto simp: advanced_def rootsWith_adds)
  qed (use r1 in auto)
  with Cons.IH [OF rest] show ?case by (simp add: top_Cons Un_assoc)
qed

lemma unpackSeed_root:
  assumes "unlinked destination fs" and "stored_at archivePath archive fs"
    and "unpackSeed H R archivePath destination owner limits fs = (fs', Inr s)"
  shows "\<exists>root. s_root s = destination @ root \<and> packed_in (fst (archiveEntries R archive)) root"
  using assms(3)
proof (cases rule: unpackSeed_cases)
  case (unpacked fs1 fs2 archive2 r3)
  let ?es = "fst (archiveEntries R archive)"
  have "archive2 = archive"
    using archive_still_there [OF assms(2) unpacked(3)] tree_started(2) [OF assms(1) unpacked(1) refl unpacked(2)] by blast
  then obtain u where u: "unpackedEntries H destination owner limits ?es EMPTY fs2 = (fs', Inr u)"
      "s_root s = strippedRoot destination (u_roots u)"
    using unpacked(4,5) by auto
  have roots: "names (u_roots u) = top_names ?es" "root_files (u_roots u) = top_files ?es"
    using unpackedEntries_names [OF u(1)] by (simp_all add: EMPTY_def)
  show ?thesis
  proof (cases "(\<exists>n. top_names ?es = {n}) \<and> top_files ?es = {}")
    case True
    then obtain n where n: "top_names ?es = {n}" "top_files ?es = {}" by auto
    then have "s_root s = destination @ [n]" using u(2) by (simp add: strippedRoot_def roots)
    then show ?thesis using n by (intro exI [of _ "[n]"]) (simp add: packed_in_def)
  next
    case False
    then have "\<not> (card (top_names ?es) = 1 \<and> card (top_files ?es) = 0)"
      using top_files_finite [of ?es] by (auto simp: card_1_singleton_iff)
    then have "s_root s = destination" using u(2) by (auto simp: strippedRoot_def roots)
    then show ?thesis using False by (intro exI [of _ "[]"]) (auto simp: packed_in_def)
  qed
qed simp_all

text \<open>An image holds what was packed: below the one folder it was packed in, if it was.\<close>

definition holds_packed :: "ArchiveEntry list \<Rightarrow> image \<Rightarrow> bool" where
  "holds_packed es disk \<longleftrightarrow>
     (\<exists>folder. packed_in es folder \<and>
       (\<forall>e \<in> set es. \<forall>p. segmentsOf (e_path e) = Some (folder @ p) \<longrightarrow> p \<noteq> [] \<longrightarrow>
         (\<exists>n. disk p = Some n \<and> as_packed TENANT e n)) \<and>
       (\<forall>p. disk p \<noteq> None \<longrightarrow> (\<exists>e \<in> set es. \<exists>ss. segmentsOf (e_path e) = Some ss \<and> prefix (folder @ p) ss)))"

lemma holds_packedI:
  assumes "unlinked tree fs" and "stored_at archivePath archive fs" and "nothing_below tree fs"
    and "paths_distinct (fst (archiveEntries R archive))"
    and "unpackSeed H R archivePath tree TENANT limits fs = (fs', Inr s)" and "\<forall>q. fs2 (tree @ q) = fs' (tree @ q)"
  shows "holds_packed (fst (archiveEntries R archive)) (tree_at (s_root s) fs2)"
proof -
  note packs = unpackSeed_packs [OF assms(1-5)]
  obtain root where root: "s_root s = tree @ root" "packed_in (fst (archiveEntries R archive)) root"
    using unpackSeed_root [OF assms(1,2,5)] by blast
  have at_p: "tree_at (s_root s) fs2 p = (if p = [] then None else fs' (tree @ (root @ p)))" for p
    using assms(6) root(1) by (simp add: tree_at_def)
  show ?thesis
    unfolding holds_packed_def
  proof (intro exI [of _ root] conjI root(2))
    show "\<forall>e \<in> set (fst (archiveEntries R archive)). \<forall>p. segmentsOf (e_path e) = Some (root @ p) \<longrightarrow> p \<noteq> [] \<longrightarrow>
         (\<exists>n. tree_at (s_root s) fs2 p = Some n \<and> as_packed TENANT e n)"
      using packs by (auto simp: at_p packed_at_def list_all_iff)
    show "\<forall>p. tree_at (s_root s) fs2 p \<noteq> None \<longrightarrow>
         (\<exists>e \<in> set (fst (archiveEntries R archive)). \<exists>ss. segmentsOf (e_path e) = Some ss \<and> prefix (root @ p) ss)"
      using packs unfolding at_p only_packed_def by (metis append_is_Nil_conv)
  qed
qed

definition received_bytes :: "(byte list list \<times> bool) option \<Rightarrow> byte list" where
  "received_bytes object = (case object of None \<Rightarrow> [] | Some (chunks, _) \<Rightarrow> concat chunks)"

text \<open>Between making the staging directory and removing it.\<close>

definition staged_format ::
  "Host \<Rightarrow> Runtime \<Rightarrow> Device \<Rightarrow> (byte list \<Rightarrow> string) \<Rightarrow> (byte list list \<times> bool) option \<Rightarrow>
   path \<Rightarrow> string \<Rightarrow> DesiredArtifact \<Rightarrow> (seed_failure, image option) io" where
  "staged_format H R D sha object stagingDir devicePath seed =
     bind_io (downloadAndVerify H sha object seed (stagingDir @ [ARCHIVE_FILENAME])) (\<lambda>_.
     bind_io (unpackSeed H R (stagingDir @ [ARCHIVE_FILENAME]) (stagingDir @ [TREE_DIRECTORY]) TENANT SEED_LIMITS) (\<lambda>unpacked.
     bind_io (platform (fs_remove H (stagingDir @ [ARCHIVE_FILENAME]))) (\<lambda>_.
     format D 1 devicePath (Some (s_root unpacked)))))"

lemma formatFromSeed_staged:
  "formatFromSeed H R D sha object seedStagingDir devicePath volumeId seed fs =
     (case isFormatted D 0 of
        Inl e \<Rightarrow> (fs, Inl e)
      | Inr True \<Rightarrow> (fs, Inr None)
      | Inr False \<Rightarrow>
          ensuring_io
            (bind_io (platform (makeDirectory H (seedStagingDir @ [volume_name volumeId]) STAGING_MODE))
              (\<lambda>_. staged_format H R D sha object (seedStagingDir @ [volume_name volumeId]) devicePath seed))
            (ignore_io (fs_remove H (seedStagingDir @ [volume_name volumeId]))) fs)"
  unfolding formatFromSeed_def staged_format_def Let_def by (rule refl)

lemma names_apart: "plain ARCHIVE_FILENAME" "plain TREE_DIRECTORY" "ARCHIVE_FILENAME \<noteq> TREE_DIRECTORY"
  by code_simp+

lemma unpack_below:
  assumes "only_below dir fs fs1" "unlinked (dir @ [n]) fs1" "stored_at archivePath archive fs1"
    and "paths_distinct (fst (archiveEntries R archive))"
    and "unpackSeed H R archivePath (dir @ [n]) owner limits fs1 = (fs2, r)"
  shows "only_below dir fs fs2"
proof -
  have "named_once {} (fst (archiveEntries R archive))"
    using assms(4) named_once_distinct by (simp add: paths_distinct_def)
  note kept = unpackSeed_kept [OF assms(2,3) this assms(5)]
  show ?thesis
    unfolding only_below_def
  proof (intro conjI allI impI)
    fix q assume "prefix q dir"
    then show "is_directory fs2 q" using kept(3) assms(1) by (simp add: only_below_def prefix_snoc)
  next
    fix q assume q: "\<not> prefix dir q \<and> \<not> prefix q dir"
    then have "\<not> prefix (dir @ [n]) q \<and> \<not> prefix q (dir @ [n])"
      by (auto simp: prefix_snoc dest: append_prefixD)
    then have "fs2 q = fs1 q" using kept(1) by blast
    then show "fs2 q = fs q" using assms(1) q by (simp add: only_below_def)
  qed
qed

lemma tree_of_stored:
  assumes "only_below dir fs fs1" "list_all plain dir" "nothing_below dir fs1"
  shows "unlinked (dir @ [TREE_DIRECTORY]) (fs1(dir @ [ARCHIVE_FILENAME] \<mapsto> RegularFile m w bytes))"
    and "stored_at (dir @ [ARCHIVE_FILENAME]) bytes (fs1(dir @ [ARCHIVE_FILENAME] \<mapsto> RegularFile m w bytes))"
    and "nothing_below (dir @ [TREE_DIRECTORY]) (fs1(dir @ [ARCHIVE_FILENAME] \<mapsto> RegularFile m w bytes))"
    and "only_below dir fs (fs1(dir @ [ARCHIVE_FILENAME] \<mapsto> RegularFile m w bytes))"
proof -
  let ?fs = "fs1(dir @ [ARCHIVE_FILENAME] \<mapsto> RegularFile m w bytes)"
  show b: "only_below dir fs ?fs"
    by (rule only_below_step [OF assms(1)]) (auto simp: strict_prefix_def)
  then have dirs: "is_directory ?fs q" if "prefix q dir" for q using that by (simp add: only_below_def)
  have none: "?fs (dir @ TREE_DIRECTORY # ss) = None" for ss
    using assms(3) names_apart(3) by (simp add: nothing_below_def)
  have "\<not> is_link ?fs q" if "prefix q (dir @ [TREE_DIRECTORY])" for q
    using that directory_not_link [OF dirs, of q] none [of "[]"] by (cases "prefix q dir") (simp_all add: prefix_snoc is_link_def)
  then show "unlinked (dir @ [TREE_DIRECTORY]) ?fs"
    using assms(2) names_apart(2) dirs [of "[]"] none by (simp add: unlinked_def is_link_def)
  show "stored_at (dir @ [ARCHIVE_FILENAME]) bytes ?fs"
    using assms(2) names_apart(1) below_of [OF b] by (simp add: stored_at_def)
  show "nothing_below (dir @ [TREE_DIRECTORY]) ?fs" using assms(3) by (simp add: nothing_below_def)
qed


lemma staged_format_result:
  assumes "only_below dir fs fs1" "list_all plain dir" "nothing_below dir fs1"
    and "paths_distinct (fst (archiveEntries R (received_bytes object)))"
    and "staged_format H R D sha object dir devicePath seed fs1 = (fs', r)"
  shows "only_below dir fs fs'"
    and "r = Inr (Some disk) \<Longrightarrow> sha (received_bytes object) = art_digest seed \<and> int (length (received_bytes object)) = art_sizeBytes seed \<and>
      isFormatted D 1 = Inr False \<and> holds_packed (fst (archiveEntries R (received_bytes object))) disk"
proof -
  let ?archive = "dir @ [ARCHIVE_FILENAME]" and ?tree = "dir @ [TREE_DIRECTORY]"
  have names: "list_all plain ?archive" using assms(2) names_apart(1) by simp
  have empty: "fs1 ?archive = None" using assms(3) by (simp add: nothing_below_def)
  obtain fs2 r2 where d: "downloadAndVerify H sha object seed ?archive fs1 = (fs2, r2)" by force
  note download = download_below [OF assms(1) names empty d]
  have "only_below dir fs fs' \<and> (\<forall>disk. r = Inr (Some disk) \<longrightarrow> sha (received_bytes object) = art_digest seed \<and>
      int (length (received_bytes object)) = art_sizeBytes seed \<and> isFormatted D 1 = Inr False \<and>
      holds_packed (fst (archiveEntries R (received_bytes object))) disk)"
  proof (cases r2)
    case (Inl e)
    then show ?thesis using assms(5) d download(1) by (auto simp: staged_format_def bind_io_def)
  next
    case (Inr x)
    then obtain m w where got: "sha (received_bytes object) = art_digest seed" "int (length (received_bytes object)) = art_sizeBytes seed"
        "fs2 = fs1(?archive \<mapsto> RegularFile m w (received_bytes object))"
      using download(2) by (auto simp: received_bytes_def)
    note start = tree_of_stored [OF assms(1-3), where m = m and w = w and bytes = "received_bytes object", folded got(3)]
    obtain fs3 r3 where u: "unpackSeed H R ?archive ?tree TENANT SEED_LIMITS fs2 = (fs3, r3)" by force
    have b3: "only_below dir fs fs3" by (rule unpack_below [OF start(4,1,2) assms(4) u])
    show ?thesis
    proof (cases r3)
      case (Inl e)
      then show ?thesis using assms(5) d Inr u b3 by (auto simp: staged_format_def bind_io_def)
    next
      case unpacked: (Inr s)
      obtain fs4 r4 where rm: "fs_remove H ?archive fs3 = (fs4, r4)" by force
      have b4: "only_below dir fs fs4" using remove_below [OF b3 names, of H] rm by simp
      have "fs4 = fs3 \<or> fs4 = (\<lambda>q. if prefix ?archive q then None else fs3 q)"
        using remove_literal(1) [OF names below_of [OF b3], of H] rm by simp
      then have "\<forall>q. fs4 (?tree @ q) = fs3 (?tree @ q)" using names_apart(3) by auto
      then have "holds_packed (fst (archiveEntries R (received_bytes object))) (tree_at (s_root s) fs4)"
        using holds_packedI [OF start(1-3) assms(4)] u unpacked by blast
      moreover have "(fs', r) = (case r4 of Inl e \<Rightarrow> (fs4, Inl (PlatformError e))
          | Inr _ \<Rightarrow> format D 1 devicePath (Some (s_root s)) fs4)"
        using assms(5) d Inr u unpacked rm by (cases r4) (simp_all add: staged_format_def bind_io_def map_error_def)
      ultimately show ?thesis
        using b4 got(1,2) by (cases r4) (auto simp: format_def split: sum.splits bool.splits if_splits)
    qed
  qed
  then show "only_below dir fs fs'" "r = Inr (Some disk) \<Longrightarrow> sha (received_bytes object) = art_digest seed \<and>
      int (length (received_bytes object)) = art_sizeBytes seed \<and> isFormatted D 1 = Inr False \<and>
      holds_packed (fst (archiveEntries R (received_bytes object))) disk"
    by blast+
qed

text \<open>The staging directory of a volume before it is made: no link leads to it and nothing is there.\<close>

definition unstaged :: "path \<Rightarrow> files \<Rightarrow> bool" where
  "unstaged dir fs \<longleftrightarrow> unlinked dir fs \<and> fs dir = None \<and> nothing_below dir fs"

lemma staging_made:
  assumes "unstaged dir fs" "makeDirectory H dir mode fs = (fs1, r)"
  shows "r = Inr () \<Longrightarrow> only_below dir fs fs1 \<and> nothing_below dir fs1"
    and "r \<noteq> Inr () \<Longrightarrow> fst (fs_remove H dir fs1) = fs1"
    and "\<forall>q. \<not> prefix q dir \<longrightarrow> fs1 q = fs q" and "r \<noteq> Inr () \<Longrightarrow> fs1 dir = None"
proof -
  have u: "list_all plain dir" "is_directory fs []" "\<forall>q. prefix q dir \<longrightarrow> \<not> is_link fs q"
    using assms(1) by (auto simp: unstaged_def unlinked_def)
  note m = makeDirectory_literal [OF u assms(2)]
  show same: "\<forall>q. \<not> prefix q dir \<longrightarrow> fs1 q = fs q" using madeD [OF m(1)] by blast
  show "only_below dir fs fs1 \<and> nothing_below dir fs1" if "r = Inr ()"
    using m(2) that same assms(1) by (auto simp: only_below_def unstaged_def nothing_below_def)
  show none: "fs1 dir = None" if "r \<noteq> Inr ()" using m(3) that assms(1) by (simp add: unstaged_def)
  show "fst (fs_remove H dir fs1) = fs1" if "r \<noteq> Inr ()"
    using remove_missing [OF u(1), of fs1] none [OF that] u(3) made_link [OF m(1)] by blast
qed

text \<open>
  C10. Take a volume with nothing staged for it and no link leading to its staging directory, an archive that
  names no path twice, and a host that does not refuse to remove that directory. A filesystem is made from
  the seed only on a device that answered, both times, that it carries none, and only from an object that came
  through whole with the digest and the size it was announced with. It then holds exactly what was packed, below
  the one folder everything was packed in if there was one: a lone file at the top is not that folder, and is
  in the filesystem as itself. Whichever way it goes, nothing of the seed is left on the host and nothing else
  on it has changed but the directories above the staging one.
\<close>

theorem formatted_from_seed:
  assumes "unstaged (seedStagingDir @ [volume_name volumeId]) fs"
    and "\<And>fs. \<not> refuses H fs (Remove (seedStagingDir @ [volume_name volumeId]))"
    and "paths_distinct (fst (archiveEntries R (received_bytes object)))"
    and "formatFromSeed H R D sha object seedStagingDir devicePath volumeId seed fs = (fs', r)"
  shows "(\<forall>q. \<not> strict_prefix q (seedStagingDir @ [volume_name volumeId]) \<longrightarrow> fs' q = fs q) \<and>
    (\<forall>disk. r = Inr (Some disk) \<longrightarrow> isFormatted D 0 = Inr False \<and> isFormatted D 1 = Inr False \<and>
      sha (received_bytes object) = art_digest seed \<and> int (length (received_bytes object)) = art_sizeBytes seed \<and>
      holds_packed (fst (archiveEntries R (received_bytes object))) disk)"
proof (cases "isFormatted D 0 = Inr False")
  case False
  then have "fs' = fs \<and> (\<forall>disk. r \<noteq> Inr (Some disk))"
    using assms(4) by (auto simp: formatFromSeed_staged split: sum.splits bool.splits)
  then show ?thesis by blast
next
  case True
  let ?dir = "seedStagingDir @ [volume_name volumeId]"
  obtain fs1 r1 where m: "makeDirectory H ?dir STAGING_MODE fs = (fs1, r1)" by force
  note made = staging_made [OF assms(1) m]
  have names: "list_all plain ?dir" using assms(1) by (simp add: unstaged_def unlinked_def)
  have gone: "fs ?dir = None" "nothing_below ?dir fs" using assms(1) by (simp_all add: unstaged_def)
  show ?thesis
  proof (cases r1)
    case (Inl e)
    then have "fs' = fs1" "\<forall>disk. r \<noteq> Inr (Some disk)"
      using assms(4) True m made(2)
      by (auto simp: formatFromSeed_staged ensuring_io_def bind_io_def map_error_def ignore_io_def)
    then show ?thesis using made(3,4) gone(1) Inl by (metis sum.distinct(1) prefix_order.le_imp_less_or_eq)
  next
    case (Inr x)
    obtain fs2 r2 where s: "staged_format H R D sha object ?dir devicePath seed fs1 = (fs2, r2)" by force
    have "only_below ?dir fs fs1 \<and> nothing_below ?dir fs1" using made(1) Inr by simp
    note result = staged_format_result [OF conjunct1 [OF this] names conjunct2 [OF this] assms(3) s]
    have there: "fs2 ?dir \<noteq> None" "below_directories fs2 ?dir"
      using result(1) by (auto simp: only_below_def is_directory_iff below_directories_def strict_prefix_def)
    have "r = r2" "fs' = (\<lambda>q. if prefix ?dir q then None else fs2 q)"
      using assms(4) True m s Inr remove_literal(2) [OF names there(2) assms(2) there(1)]
      by (simp_all add: formatFromSeed_staged ensuring_io_def bind_io_def map_error_def ignore_io_def)
    moreover have "fs q = None" if "prefix ?dir q" for q
      using that gone unfolding prefix_def nothing_below_def by (metis append_Nil2)
    ultimately show ?thesis using result True by (auto simp: only_below_def strict_prefix_def)
  qed
qed


section \<open>An example\<close>

definition bare :: files where "bare = [[] \<mapsto> Directory 0x1ED ROOT_USER]"

definition blank :: Device where
  "blank = \<lparr>superblock = (\<lambda>_. Inr [0, 0]), mkfs_succeeds = (\<lambda>_. True)\<rparr>"

definition example_staging :: path where "example_staging = staging @ [volume_name ''v'']"

definition fetched_seed :: "byte list \<Rightarrow> files" where
  "fetched_seed archive = (fst (makeDirectory open_host example_staging STAGING_MODE bare))
     (example_staging @ [ARCHIVE_FILENAME] \<mapsto> RegularFile 0x1A4 ROOT_USER archive)"

definition example_seed :: "byte list \<Rightarrow> DesiredArtifact" where
  "example_seed archive = \<lparr>art_digest = ''d'', art_sizeBytes = int (length archive), art_objectKey = ''k'', art_filename = ''seed.tar''\<rparr>"

lemma bare_unstaged: "unstaged example_staging bare"
proof -
  have "list_all plain example_staging" "example_staging \<noteq> []" by code_simp+
  then show ?thesis by (auto simp: unstaged_def unlinked_def nothing_below_def bare_def is_directory_def is_link_def)
qed

lemma example_staging_made: "snd (makeDirectory open_host example_staging STAGING_MODE bare) = Inr ()"
  by code_simp

lemma example_download:
  "downloadAndVerify open_host (\<lambda>_. ''d'') (Some ([archive], True)) (example_seed archive) (example_staging @ [ARCHIVE_FILENAME])
     (fst (makeDirectory open_host example_staging STAGING_MODE bare)) = (fetched_seed archive, Inr ())"
proof -
  let ?fs = "fst (makeDirectory open_host example_staging STAGING_MODE bare)"
  have "resolve True (example_staging @ [ARCHIVE_FILENAME]) ?fs = Inr (example_staging @ [ARCHIVE_FILENAME])"
    "?fs (example_staging @ [ARCHIVE_FILENAME]) = None" "and_not CREATED_MODE (umask open_host) = 0x1A4"
    by code_simp+
  then show ?thesis
    by (simp add: downloadAndVerify_def fs_write_def fetched_seed_def example_seed_def) (simp add: open_host_def)
qed

lemma example_fetched_run:
  "opens open_host (example_staging @ [TREE_DIRECTORY]) TENANT (fetched_seed archive) \<and>
   \<not> isl (snd (unpackedEntries open_host (example_staging @ [TREE_DIRECTORY]) TENANT SMALL benign EMPTY
     (opened open_host (example_staging @ [TREE_DIRECTORY]) TENANT (fetched_seed archive))))"
  by code_simp


lemma example_formatted:
  obtains fs' disk where
    "formatFromSeed open_host as_it_lies blank (\<lambda>_. ''d'') (Some ([tar_of benign], True)) staging ''/dev/nbd0'' ''v''
       (example_seed (tar_of benign)) bare = (fs', Inr (Some disk))"
proof -
  let ?archive = "example_staging @ [ARCHIVE_FILENAME]" and ?tree = "example_staging @ [TREE_DIRECTORY]"
  let ?fs = "fetched_seed (tar_of benign)"
  let ?opened = "opened open_host ?tree TENANT ?fs"
  obtain fs1 where m: "makeDirectory open_host example_staging STAGING_MODE bare = (fs1, Inr ())"
    using example_staging_made by (metis prod.collapse)
  have "only_below example_staging bare fs1" "nothing_below example_staging fs1" "list_all plain example_staging"
    using staging_made(1) [OF bare_unstaged m] bare_unstaged by (simp_all add: unstaged_def unlinked_def)
  note start = tree_of_stored [OF this(1,3,2), where m = "0x1A4" and w = ROOT_USER and bytes = "tar_of benign"]
  then have ready: "unlinked ?tree ?fs" "stored_at ?archive (tar_of benign) ?fs" using m by (simp_all add: fetched_seed_def)
  note run = example_fetched_run [of "tar_of benign"]
  obtain fs2 u where "unpackedEntries open_host ?tree TENANT SMALL benign EMPTY ?opened = (fs2, Inr u)"
    using run by (cases "unpackedEntries open_host ?tree TENANT SMALL benign EMPTY ?opened";
      cases "snd (unpackedEntries open_host ?tree TENANT SMALL benign EMPTY ?opened)") auto
  then have "unpackedEntries open_host ?tree TENANT SEED_LIMITS benign EMPTY ?opened = (fs2, Inr u)"
    using unpackedEntries_limits [of open_host ?tree TENANT SMALL benign EMPTY ?opened fs2 u SEED_LIMITS]
    by (simp add: SMALL_def SEED_LIMITS_def BYTES_PER_GIB_def)
  then obtain s where unpacked: "unpackSeed open_host as_it_lies ?archive ?tree TENANT SEED_LIMITS ?fs = (fs2, Inr s)"
    using unpackSeed_tarball [OF examples_plain(1) examples_no_zip(1) ready conjunct1 [OF run]] by (auto simp: open_host_def)
  have "only_below example_staging bare fs2"
    using unpack_below [OF _ ready] start(4) m benign_entries(2) unpacked by (auto simp: fetched_seed_def)
  then have "snd (fs_remove open_host ?archive fs2) = Inr ()"
    using resolve_literal [OF _ below_of, of example_staging ARCHIVE_FILENAME bare fs2 False] ready(2)
    by (simp add: fs_remove_def stored_at_def open_host_def)
  then obtain fs3 where removed: "fs_remove open_host ?archive fs2 = (fs3, Inr ())" by (metis prod.collapse)
  have answers: "isFormatted blank n = Inr False" "mkfs_succeeds blank c" for n c
    by (simp_all add: isFormatted_def blank_def hasExtMagic_def EXT_MAGIC_def MAGIC_BYTE_COUNT_def)
  have "staged_format open_host as_it_lies blank (\<lambda>_. ''d'') (Some ([tar_of benign], True)) example_staging ''/dev/nbd0''
      (example_seed (tar_of benign)) fs1 = (fs3, Inr (Some (tree_at (s_root s) fs3)))"
    using example_download [of "tar_of benign"] m unpacked removed answers
    by (simp add: staged_format_def bind_io_def map_error_def format_def)
  then show ?thesis
    using that m answers
    by (simp add: formatFromSeed_staged ensuring_io_def bind_io_def map_error_def ignore_io_def example_staging_def)
qed

theorem formatted_from_seed_witness:
  "\<exists>fs' disk. formatFromSeed open_host as_it_lies blank (\<lambda>_. ''d'') (Some ([tar_of benign], True)) staging ''/dev/nbd0'' ''v''
       (example_seed (tar_of benign)) bare = (fs', Inr (Some disk)) \<and>
     holds_packed (fst (archiveEntries as_it_lies (tar_of benign))) disk \<and>
     fs' (example_staging @ [ARCHIVE_FILENAME]) = None"
proof -
  obtain fs' disk where run:
    "formatFromSeed open_host as_it_lies blank (\<lambda>_. ''d'') (Some ([tar_of benign], True)) staging ''/dev/nbd0'' ''v''
       (example_seed (tar_of benign)) bare = (fs', Inr (Some disk))"
    by (rule example_formatted)
  have got: "received_bytes (Some ([tar_of benign], True)) = tar_of benign" by (simp add: received_bytes_def)
  have "\<not> strict_prefix (example_staging @ [ARCHIVE_FILENAME]) example_staging" "bare (example_staging @ [ARCHIVE_FILENAME]) = None"
    by (simp_all add: strict_prefix_def bare_def)
  with formatted_from_seed [OF bare_unstaged [unfolded example_staging_def] _ _ run, unfolded got] benign_entries(2) run
  show ?thesis by (auto simp: open_host_def example_staging_def)
qed

end
