(* ===== verification/Spec2Isabelle.thy ===== *)
theory Spec2Isabelle
  imports Reconciler Fences Waker Guest_Logs Log_Queue Guest_Filesystem Desired_State App_Configuration Artifacts Volume_Format
begin

text \<open>
  Nibrun runs tenants' binaries in microVMs. An owner uploads a binary and releases it; the control plane
  (\<open>src/apps/api\<close>) keeps what was asked in a database and hands each host a document of the apps it has to
  run; the agent of a host (\<open>src/apps/agent\<close>) makes that so, one reconcile after the other, and reports
  what it did; a small runtime inside each guest (\<open>src/apps/runtime\<close>) forwards the tenant's output and serves
  its files. This development models the decisions of all three and what they promise each other.

  \<^bold>\<open>How the parts interact.\<close> A request of an owner is a transaction on the database. A host polls
  \<open>selectDesiredState\<close>, plans (\<open>planReconcile\<close>), and carries the plan out around systemd, Firecracker, nftables,
  Caddy and the volume devices. Its report is read back into releases (\<open>applyHostReport\<close>), exports and
  deletions. The binary itself goes from the owner into an object store, content-addressed, and from there
  to the host, which checks its digest. The theorems at the end of this theory follow one app through all of it:
  what a host tears down, what it starts, and how a deletion comes through.

  \<^bold>\<open>Conventions.\<close> A JavaScript \<open>Map\<close> or object is an association list (\<open>jsmap\<close>), with the laws of its operations as
  a locale in \<open>Prelude\<close>; a promise that rejects and an error that is thrown is \<open>Inl\<close> of a sum; an interface of
  another program (a clock, a cipher, a digest, a device, a store) is an argument, with what is relied on of it
  as a hypothesis. Asynchronous code is cut at its awaits: each piece between two is one step, and a relation or a
  list of events runs the steps of all parties in any order.

  \<^bold>\<open>Theories: shared.\<close>
  \<^item> \<open>Prelude\<close>: results, maps, JSON values, numbers as text; the generic lemmas.
  \<^item> \<open>Bytes\<close>: fixed-width integers, \<open>Number\<close> rounding, UTF-8 as \<open>TextDecoder\<close> reads it, decoders fed in pieces.
  \<^item> \<open>Protocol\<close>: the messages between control plane and host (\<open>src/packages/protocol\<close>).

  \<^bold>\<open>Theories: the agent.\<close>
  \<^item> \<open>Recovery\<close>, \<open>Health\<close>: backoff and the recovery budget (\<open>lib/vm/recovery.ts\<close>); probes and the verdict on an
    instance (\<open>lib/health\<close>). The budget runs out (\<open>recovery_terminates\<close>).
  \<^item> \<open>Slots\<close>: network slots and their allocator; two apps never share one.
  \<^item> \<open>Instance_Record\<close>, \<open>Agent_State\<close>: records, routes, capacity, the report; the store and its start claim.
  \<^item> \<open>Plan\<close>: the planner (\<open>lib/reconcile/plan.ts\<close>) with volumes and sleeping apps.
  \<^item> \<open>Fences\<close>: the lock between a volume migration and everything else, over all interleavings.
  \<^item> \<open>Instances\<close>, \<open>Reconciler\<close>, \<open>Waker\<close>: starting, stopping, waking and settling instances; one reconcile from
    observation to the state it leaves; the coalescing of wakes.
  \<^item> \<open>Guest_Logs\<close>, \<open>Log_Queue\<close>: tenant output from the guest's frames to the log store; every byte is
    delivered or counted, and the queue refines a plain one.
  \<^item> \<open>Guest_Filesystem\<close>: the file protocol, both ends; what one writes the other reads.
  \<^item> \<open>Js_Text\<close>, \<open>Archive_Tar\<close>, \<open>Archive_Zip\<close>: text and numbers as JavaScript reads them, and the two archive readers
    of the agent (\<open>lib/volumes/tar.ts\<close>, \<open>zip.ts\<close>). The tar reader lists what an unchunked reference lists, and a
    tarball is read back as it was packed.
  \<^item> \<open>Host_Files\<close>: the files of the host under POSIX calls, symbolic links included.
  \<^item> \<open>Seed\<close>, \<open>Volume_Format\<close>: the starting data of an app, unpacked into a staging tree (\<open>lib/volumes/seed.ts\<close>) and
    written into a fresh filesystem (\<open>ext4.ts\<close>, and the download of \<open>lib/vm/artifacts.ts\<close>). What is packed arrives and
    nothing else is touched, unless a file is named like a link in front of it.

  \<^bold>\<open>Theories: the control plane.\<close>
  \<^item> \<open>Lifecycle\<close>: the states of a release and what a report makes of them (\<open>lib/deployments/lifecycle.ts\<close>).
  \<^item> \<open>Secrets\<close>: sealing environments, and the names and values allowed in one.
  \<^item> \<open>Tables\<close>: the database as records by column, with the views and transactions the repositories share.
  \<^item> \<open>Apps\<close>, \<open>App_Configuration\<close>: creating, editing, suspending, deleting, expiring and purging apps; quota, edits
    and purges.
  \<^item> \<open>Deployments\<close>, \<open>Exports\<close>, \<open>Storage_Migration\<close>, \<open>Hosts\<close>: releases and rollbacks, bundles, moving a volume to an
    owner's storage, hosts and their sessions.
  \<^item> \<open>Database_Invariant\<close>, \<open>Control_Plane\<close>: the invariant of the database and every request against it, in any order;
    what holds in every reachable database.
  \<^item> \<open>Desired_State\<close>: the views and the document of a host, with its schema.
  \<^item> \<open>Artifact_Inspection\<close>: the ELF header and the inspection of a binary in chunks (\<open>lib/elf.ts\<close>,
    \<open>lib/artifact-digest.ts\<close>).
  \<^item> \<open>Artifacts\<close>: uploads, fetches, reuse, sweeps and purges of binaries as tasks whose calls interleave.

  \<^bold>\<open>Loops and bounds.\<close> No definition has fuel. Loops over data are structural or have a measure (decoders: the bytes
  left); loops that run as long as the process does are step relations or lists of events. Integers are
  unbounded where the source's are or where a schema bounds them; lengths and counters that cross the wire have
  their width, and \<open>js_number\<close> rounds what a \<open>Number\<close> cannot hold.

  \<^bold>\<open>What the theorems rely on.\<close> Ids are fresh; the cipher opens what it sealed; a digest in hex has no slash. The store
  of binaries is shown honest only where nobody writes a staging key between its inspection and its copy and
  nothing is registered during a purge: \<open>rewritten_upload_takes_the_digest\<close> and
  \<open>purge_takes_what_is_being_registered\<close> show what the code does otherwise. A seed is shown to stay in its tree
  where no file or directory is named like a link in front of it; \<open>seed_escapes_its_tree\<close> is an archive that does
  not, and \<open>undeclared_directories_stay_with_root\<close> one whose directories the tenant cannot write.

  \<^bold>\<open>Not modelled.\<close> User interfaces, the CLI and the client packages; HTTP routes, authentication, MCP tools and paid
  requests, which decode a request and call a service; DNS, Cloudflare and GitHub, which are calls of a
  provider; ZeroFS, NBD, \<open>mkfs.ext4\<close> and Firecracker, which are other programs; generated query types. Not reached:
  the streaming archive readers of the control plane (\<open>lib/archive\<close>), imports, crons, the activator and the sqlite
  relays.
\<close>

section \<open>From the owner to the host\<close>

text \<open>An app has a row from when it is made.\<close>

lemma same_ids: "map id_state xs = map id_state ys \<Longrightarrow> ap_id ` set xs = ap_id ` set ys"
proof -
  assume "map id_state xs = map id_state ys"
  then have "map (fst \<circ> id_state) xs = map (fst \<circ> id_state) ys" by (metis map_map)
  then have "map ap_id xs = map ap_id ys" by (simp add: id_state_def comp_def)
  then show ?thesis by (metis list.set_map)
qed

lemma written_ids: "(\<And>a. ap_id (f a) = ap_id a) \<Longrightarrow> ap_id ` set (map f apps) = ap_id ` set apps"
  by (simp add: image_image)

lemma updated_ids:
  "(\<And>a. ap_id (change a) = ap_id a) \<Longrightarrow> ap_id ` set (db_apps (update_apps now p change db)) = ap_id ` set (db_apps db)"
  using written_ids [of "\<lambda>a. if p a then (change a)\<lparr>ap_updatedAt := now\<rparr> else a" "db_apps db"]
  by (simp add: update_apps_def)

lemma moved_ids: "ap_id ` set (db_apps (snd (updateState now a ow s froms db))) = ap_id ` set (db_apps db)"
  using updateState_apps [of now a ow s froms db] by (elim disjE ssubst) (rule refl, rule written_ids, simp)

lemma app_ids_stay: "ap_id ` set (db_apps db) \<subseteq> ap_id ` set (db_apps (perform r db))"
proof (cases r)
  case (CreateApp i c now input)
  then show ?thesis
    by (auto simp: create_app_def Let_def split: sum.splits bool.splits option.splits if_splits)
qed (simp_all add: apps_untouched same_ids [OF states_unchanged(1)] same_ids [OF states_unchanged(2)]
    same_ids [OF states_unchanged(3)] same_ids [OF states_unchanged(4)] same_ids [OF states_unchanged(5)]
    same_ids [OF states_unchanged(6)] same_ids [OF states_unchanged(7)] finishDeleting_def finishDeletingVolume_def updated_ids moved_ids moveApp_apps)

text \<open>The database some time later.\<close>

abbreviation later :: "Database \<Rightarrow> Database \<Rightarrow> bool" where
  "later \<equiv> (\<lambda>db db'. \<exists>r. control_step db r db')\<^sup>*\<^sup>*"

definition given_up :: "AppId \<Rightarrow> Database \<Rightarrow> bool" where
  "given_up i db \<longleftrightarrow> i \<in> ap_id ` set (db_apps db) \<and>
     (\<forall>a \<in> set (db_apps db). ap_id a = i \<longrightarrow> ap_state a = AppDeleting \<or> ap_state a = AppDeleted)"

lemma given_up_step:
  assumes "reachable db" "control_step db r db'" "given_up i db"
  shows "given_up i db'"
proof -
  have "ap_id ` set (db_apps db) \<subseteq> ap_id ` set (db_apps db')"
    using assms(2) by cases (use app_ids_stay in \<open>auto simp: elsewhere_def\<close>)
  then have stays: "i \<in> ap_id ` set (db_apps db')" using assms(3) by (auto simp: given_up_def)
  obtain a where a: "a \<in> set (db_apps db)" "ap_id a = i" "ap_state a = AppDeleting \<or> ap_state a = AppDeleted"
    using assms(3) by (auto simp: given_up_def)
  have "ap_state a' = AppDeleting \<or> ap_state a' = AppDeleted" if "a' \<in> set (db_apps db')" "ap_id a' = i" for a'
  proof (cases "ap_state a' = ap_state a")
    case False
    then show ?thesis using app_state_moves [OF assms(1,2) a(1) that(1)] a(2,3) that(2) by auto
  qed (use a(3) in simp)
  then show ?thesis using stays by (simp add: given_up_def)
qed

lemma given_up_later:
  assumes "later db db'" "reachable db" "given_up i db"
  shows "given_up i db'"
proof -
  from assms(1) have "reachable db' \<and> given_up i db'"
    by (induction rule: rtranclp_induct) (use assms(2,3) further given_up_step in blast)+
  then show ?thesis by blast
qed

lemma planned_teardown:
  "VolumeTeardown d \<in> set (pl_volumes (planReconcile desired observed)) \<Longrightarrow>
    d \<in> set (hd_volumes desired) \<and> dv_desiredState d = Absent"
  by (auto simp: planReconcile_def planVolumes_holders dest!: volume_plan_teardown [THEN iffD1, OF sym])

lemma teardown_planned:
  assumes "d \<in> set (hd_volumes desired)" "dv_desiredState d = Absent"
    "\<forall>i \<in> set (os_instances observed). \<not> oi_present i" "os_deletedVolumes observed = []"
  shows "VolumeTeardown d \<in> set (pl_volumes (planReconcile desired observed))"
  unfolding planReconcile_def ReconcilePlan.select_convs planVolumes_holders set_map image_eq_iff
    volume_plan_teardown holders_of_Nil byId_None
  using assms by auto

text \<open>
  C1. No data is destroyed that anybody wants, however late a host is. When the plan a host makes of a document
  it polled tears a volume down, the app of that volume was on that host and being deleted when the
  document was written; and whatever happens at the control plane until the plan is carried out, the app
  is then still being deleted or is deleted.
\<close>

theorem late_teardown_takes_nothing_wanted:
  assumes "reachable db" and "selectDesiredState unseal key now hostId db = Inr doc"
    and "VolumeTeardown d \<in> set (pl_volumes (planReconcile doc observed))" and "later db db'"
  shows "app_host db (dv_appId d) = Some hostId \<and> dv_volumeId d = volumeIdOf (dv_appId d) \<and>
    (\<exists>a \<in> set (db_apps db'). ap_id a = dv_appId d) \<and>
    (\<forall>a \<in> set (db_apps db'). ap_id a = dv_appId d \<longrightarrow> ap_state a = AppDeleting \<or> ap_state a = AppDeleted)"
proof -
  have d: "d \<in> set (hd_volumes doc)" "dv_desiredState d = Absent" using planned_teardown [OF assms(3)] by auto
  obtain a where a: "a \<in> set (db_apps db)" "ap_id a = dv_appId d" "dv_volumeId d = dv_appId d"
      "app_host db (ap_id a) = Some hostId" "dv_desiredState d = (if ap_state a = AppDeleting then Absent else Present)"
    by (rule volume_told [OF assms(2) d(1)])
  have deleting: "ap_state a = AppDeleting" using a(5) d(2) by (simp split: if_splits)
  have "given_up (dv_appId d) db"
    unfolding given_up_def using a(1,2) deleting app_unique [OF reachable_ok [OF assms(1)] _ a(1)] by (metis imageI)
  from given_up_later [OF assms(4,1) this] show ?thesis
    using a(2-4) by (auto simp: given_up_def volumeIdOf_def)
qed

lemma planned_start:
  "InstanceStart w \<in> set (pl_instances (planReconcile desired observed)) \<or>
   InstanceReplace w \<in> set (pl_instances (planReconcile desired observed)) \<Longrightarrow>
    w \<in> set (hd_instances desired) \<and> di_desiredState w \<noteq> DesiredStopped"
  by (auto simp: planReconcile_def planInstances_def planInstance_def Let_def split: option.splits if_splits)

text \<open>
  C8. A host starts what its owner last released and nothing else. An instance the plan starts or puts in the
  place of another is the newest release of an app that is active, on the host its newest release is on;
  a release that failed, an older one, and an app that is suspended or being deleted are never started.
\<close>

theorem only_the_newest_release_starts:
  assumes "reachable db" and "selectDesiredState unseal key now hostId db = Inr doc"
    and "InstanceStart w \<in> set (pl_instances (planReconcile doc observed)) \<or>
      InstanceReplace w \<in> set (pl_instances (planReconcile doc observed))"
  shows "\<exists>a d. a \<in> set (db_apps db) \<and> ap_id a = di_appId w \<and> ap_state a = AppActive \<and>
    newest_deployment db (di_appId w) = Some d \<and> dp_id d = di_deploymentId w \<and> dp_hostId d = hostId \<and>
    dp_state d \<noteq> DeploymentFailed"
proof -
  note ok = reachable_ok [OF assms(1)]
  have w: "w \<in> set (hd_instances doc)" "di_desiredState w \<noteq> DesiredStopped" using planned_start [OF assms(3)] by auto
  obtain r where r: "toDesiredInstance unseal key (hostnames_of hostId db) (environments_of hostId db) r = Inr w"
      "newest_deployment db (di_appId w) = Some (dd_release r)" "app_host db (di_appId w) = Some hostId"
      "dd_app r \<in> set (db_apps db)" "ap_id (dd_app r) = di_appId w"
      "ap_state (dd_app r) = AppActive \<or> ap_state (dd_app r) = AppSuspended"
    by (rule instance_told [OF ok assms(2) w(1)])
  note row = toDesiredInstance_Inr [OF r(1)]
  have "ap_state (dd_app r) = AppActive \<and> dp_state (dd_release r) \<noteq> DeploymentFailed"
    using w(2) row r(6) by (auto simp: desiredInstanceState_def split: if_splits)
  moreover have "dp_hostId (dd_release r) = hostId" using r(2,3) by (simp add: app_host_def)
  ultimately show ?thesis using r(2,4,5) row by metis
qed

text \<open>
  C9. A deletion comes through. The document of the host an app being deleted is on names its volume as
  absent; a plan that finds no instance on it and was not carried out before tears it down; and the
  report of that, whenever it comes, leaves the app deleted.
\<close>

theorem deletion_comes_through:
  assumes "reachable db" and "selectDesiredState unseal key now hostId db = Inr doc"
    and "a \<in> set (db_apps db)" and "ap_state a = AppDeleting" and "app_host db (ap_id a) = Some hostId"
    and "\<forall>i \<in> set (os_instances observed). \<not> oi_present i" and "os_deletedVolumes observed = []"
  shows "\<exists>d. VolumeTeardown d \<in> set (pl_volumes (planReconcile doc observed)) \<and> dv_appId d = ap_id a \<and>
    (\<forall>a' \<in> set (db_apps (completeDeletions now' [deletedVolumeReport d] hostId db)).
       ap_id a' = ap_id a \<longrightarrow> ap_state a' = AppDeleted)"
proof -
  obtain d where d: "d \<in> set (hd_volumes doc)" "dv_appId d = ap_id a" "dv_volumeId d = ap_id a" "dv_desiredState d = Absent"
    using volume_sent [OF assms(2,3) _ assms(5)] assms(4) by auto
  have "VolumeTeardown d \<in> set (pl_volumes (planReconcile doc observed))"
    by (rule teardown_planned [OF d(1,4) assms(6,7)])
  moreover have "ap_state a' = AppDeleted"
    if a': "a' \<in> set (db_apps (completeDeletions now' [deletedVolumeReport d] hostId db))" "ap_id a' = ap_id a" for a'
  proof -
    have apps: "db_apps (completeDeletions now' [deletedVolumeReport d] hostId db) =
      map (\<lambda>r. if ap_id r = ap_id a \<and> ap_state r = AppDeleting then r\<lparr>ap_state := AppDeleted, ap_updatedAt := now'\<rparr> else r) (db_apps db)"
      using assms(5) d(2) by (auto simp: completeDeletions_def deletedVolumeReport_def finishDeletingVolume_def update_apps_def)
    obtain r where r: "r \<in> set (db_apps db)"
        "a' = (if ap_id r = ap_id a \<and> ap_state r = AppDeleting then r\<lparr>ap_state := AppDeleted, ap_updatedAt := now'\<rparr> else r)"
      using a'(1) unfolding apps by auto
    then have "ap_id r = ap_id a" using a'(2) by (simp split: if_splits)
    then have "r = a" using app_unique [OF reachable_ok [OF assms(1)] r(1) assms(3)] by simp
    then show ?thesis using r(2) assms(4) by simp
  qed
  ultimately show ?thesis using d(2) by blast
qed

section \<open>One app, deployed and deleted\<close>

definition idle_host :: ObservedState where
  "idle_host = \<lparr>os_instances = [], os_volumes = [], os_deletedVolumes = [], os_checkpoints = [], os_exports = []\<rparr>"

theorem deletion_comes_through_witness:
  "\<exists>d. VolumeTeardown d \<in> set (pl_volumes (planReconcile example_last_document idle_host)) \<and> dv_appId d = ''app''"
  using deletion_comes_through [OF example_deleting_reachable example_deleting_facts(5,1,3,4), of idle_host 6000]
    example_deleting_facts(2)
  by (auto simp: idle_host_def)

lemma example_teardown:
  obtains d where "VolumeTeardown d \<in> set (pl_volumes (planReconcile example_last_document idle_host))" "dv_appId d = ''app''"
proof -
  obtain d where d: "d \<in> set (hd_volumes example_last_document)" "dv_appId d = ''app''" "dv_desiredState d = Absent"
    using volume_sent [OF example_deleting_facts(5,1) _ example_deleting_facts(4)] example_deleting_facts(2,3) by auto
  have "VolumeTeardown d \<in> set (pl_volumes (planReconcile example_last_document idle_host))"
    by (rule teardown_planned [OF d(1,3)]) (simp_all add: idle_host_def)
  then show ?thesis using that d(2) by blast
qed

theorem late_teardown_takes_nothing_wanted_witness:
  "{ap_state a |a. a \<in> set (db_apps (perform (VolumeGone 6000 ''app'' ''h1'') example_deleting)) \<and> ap_id a = ''app''}
     \<subseteq> {AppDeleting, AppDeleted}"
proof -
  have "control_step example_deleting (Some (VolumeGone 6000 ''app'' ''h1'')) (perform (VolumeGone 6000 ''app'' ''h1'') example_deleting)"
    by (rule request) simp
  then have "later example_deleting (perform (VolumeGone 6000 ''app'' ''h1'') example_deleting)" by blast
  moreover obtain d where "VolumeTeardown d \<in> set (pl_volumes (planReconcile example_last_document idle_host))" "dv_appId d = ''app''"
    by (rule example_teardown)
  ultimately show ?thesis
    using late_teardown_takes_nothing_wanted [OF example_deleting_reachable example_deleting_facts(5)] by fastforce
qed

theorem only_the_newest_release_starts_witness:
  "\<exists>d. newest_deployment example_polled ''app'' = Some d \<and> dp_state d \<noteq> DeploymentFailed"
proof -
  obtain w where w: "w \<in> set (hd_instances example_document)" "di_appId w = ''app''"
    using example_polled_facts(3) by auto
  have "di_desiredState w \<noteq> DesiredStopped"
    using example_wants_to_run w by (auto simp: list_all_iff)
  then have "InstanceStart w \<in> set (pl_instances (planReconcile example_document idle_host))"
    using w(1) by (auto simp: planReconcile_def planInstances_def planInstance_def idle_host_def byId_def Let_def
        js_new_map_def js_set_all_def image_iff intro!: bexI [of _ w])
  then show ?thesis
    using only_the_newest_release_starts [OF example_polled_reachable example_polled_facts(2), of w idle_host] w(2) by metis
qed

end
